(* ===== verification/Prelude.thy ===== *)
theory Prelude
  imports Main "HOL-Library.Word"
begin

text \<open>
  The vocabulary every component shares.  A Rust \<^verbatim>\<open>u8\<close> is an \<^verbatim>\<open>8 word\<close>, a byte
  slice is a list of them, \<^verbatim>\<open>usize\<close> is a natural number (the two places where the code
  guards the addition of two of them write the bound out).  Indexing and slicing panic out of
  range in Rust, so \<^verbatim>\<open>slice\<close> and \<^verbatim>\<open>byte_at\<close> return an option and every model function
  turns \<^verbatim>\<open>None\<close> into the outcome that stands for a panic.  The theory also holds the
  big-endian and little-endian readings of a byte sequence with their inverses.
\<close>

unbundle bit_operations_syntax

type_synonym byte = "8 word"
type_synonym bytes = "8 word list"

named_theorems bytes_simps \<open>lengths and readings of byte sequences\<close>
named_theorems slice_simps \<open>when a slice is in range and what it holds\<close>

definition usize_max :: nat where
  "usize_max = 2 ^ 64 - 1"

definition checked_add :: "nat \<Rightarrow> nat \<Rightarrow> nat option" where
  "checked_add a b = (if a + b \<le> usize_max then Some (a + b) else None)"

definition checked_sub :: "nat \<Rightarrow> nat \<Rightarrow> nat option" where
  "checked_sub a b = (if b \<le> a then Some (a - b) else None)"

definition saturating_add :: "nat \<Rightarrow> nat \<Rightarrow> nat" where
  "saturating_add a b = min (a + b) usize_max"

lemma checked_add_Some [simp]: "checked_add a b = Some c \<longleftrightarrow> c = a + b \<and> a + b \<le> usize_max"
  by (auto simp: checked_add_def)

lemma checked_sub_Some [simp]: "checked_sub a b = Some c \<longleftrightarrow> c = a - b \<and> b \<le> a"
  by (auto simp: checked_sub_def)

section \<open>Slices\<close>

definition slice :: "'a list \<Rightarrow> nat \<Rightarrow> nat \<Rightarrow> 'a list option" where
  "slice xs a b = (if a \<le> b \<and> b \<le> length xs then Some (take (b - a) (drop a xs)) else None)"

definition byte_at :: "'a list \<Rightarrow> nat \<Rightarrow> 'a option" where
  "byte_at xs i = (if i < length xs then Some (xs ! i) else None)"

lemma slice_Some_iff [slice_simps]:
  "slice xs a b = Some ys \<longleftrightarrow> a \<le> b \<and> b \<le> length xs \<and> ys = take (b - a) (drop a xs)"
  by (auto simp: slice_def)

lemma slice_None_iff [slice_simps]: "slice xs a b = None \<longleftrightarrow> b < a \<or> length xs < b"
  by (auto simp: slice_def)

lemma slice_length: "slice xs a b = Some ys \<Longrightarrow> length ys = b - a"
  by (auto simp: slice_def split: if_splits)

lemma slice_in_range [simp]: "a \<le> b \<Longrightarrow> b \<le> length xs \<Longrightarrow> slice xs a b = Some (take (b - a) (drop a xs))"
  by (simp add: slice_def)

lemma byte_at_in_range [simp]: "i < length xs \<Longrightarrow> byte_at xs i = Some (xs ! i)"
  by (simp add: byte_at_def)

lemma byte_at_Some_iff [slice_simps]: "byte_at xs i = Some x \<longleftrightarrow> i < length xs \<and> x = xs ! i"
  by (auto simp: byte_at_def)

lemma byte_at_None_iff [slice_simps]: "byte_at xs i = None \<longleftrightarrow> length xs \<le> i"
  by (auto simp: byte_at_def)

lemma unat_of_nat_less: "n < 2 ^ LENGTH('a::len) \<Longrightarrow> unat (word_of_nat n :: 'a word) = n"
  by (subst unsigned_of_nat, subst take_bit_nat_eq_self, assumption, rule of_nat_id)

section \<open>Readings of a byte sequence\<close>

fun le_nat :: "bytes \<Rightarrow> nat" where
  "le_nat [] = 0"
| "le_nat (b # bs) = unat b + 256 * le_nat bs"

definition be_nat :: "bytes \<Rightarrow> nat" where
  "be_nat bs = le_nat (rev bs)"

fun le_bytes :: "nat \<Rightarrow> nat \<Rightarrow> bytes" where
  "le_bytes 0 v = []"
| "le_bytes (Suc n) v = word_of_nat v # le_bytes n (v div 256)"

definition be_bytes :: "nat \<Rightarrow> nat \<Rightarrow> bytes" where
  "be_bytes n v = rev (le_bytes n v)"

lemma unat_byte_lt [simp]: "unat (b :: byte) < 256"
proof -
  have "unat b < 2 ^ LENGTH(8)" by (rule unsigned_less)
  then show ?thesis by simp
qed

lemma le_bytes_length [simp, bytes_simps]: "length (le_bytes n v) = n"
  by (induction n arbitrary: v) simp_all

lemma be_bytes_length [simp, bytes_simps]: "length (be_bytes n v) = n"
  by (simp add: be_bytes_def)

lemma le_nat_bound: "le_nat bs < 256 ^ length bs"
proof (induction bs)
  case (Cons b bs)
  have "unat b + 256 * le_nat bs < 256 + 256 * le_nat bs" by simp
  also have "\<dots> = 256 * (le_nat bs + 1)" by simp
  also have "\<dots> \<le> 256 * 256 ^ length bs" using Cons.IH by (intro mult_le_mono) simp_all
  finally show ?case by simp
qed simp

lemma be_nat_bound: "be_nat bs < 256 ^ length bs"
  using le_nat_bound [of "rev bs"] by (simp add: be_nat_def)

lemma le_nat_append: "le_nat (xs @ ys) = le_nat xs + 256 ^ length xs * le_nat ys"
  by (induction xs) (simp_all add: algebra_simps)

lemma be_nat_Nil [simp, bytes_simps]: "be_nat [] = 0"
  by (simp add: be_nat_def)

lemma be_nat_Cons [bytes_simps]: "be_nat (b # bs) = unat b * 256 ^ length bs + be_nat bs"
  by (simp add: be_nat_def le_nat_append)

lemma be_nat_append [bytes_simps]: "be_nat (xs @ ys) = be_nat xs * 256 ^ length ys + be_nat ys"
  by (simp add: be_nat_def le_nat_append)

lemma le_nat_le_bytes [bytes_simps]: "le_nat (le_bytes n v) = v mod 256 ^ n"
proof (induction n arbitrary: v)
  case (Suc n)
  have "le_nat (le_bytes (Suc n) v) = v mod 256 + 256 * (v div 256 mod 256 ^ n)"
    by (simp add: Suc.IH unsigned_of_nat take_bit_eq_mod)
  also have "\<dots> = v mod (256 * 256 ^ n)"
    by (simp add: mod_mult2_eq)
  finally show ?case by simp
qed simp

lemma be_nat_be_bytes [bytes_simps]: "be_nat (be_bytes n v) = v mod 256 ^ n"
  by (simp add: be_nat_def be_bytes_def le_nat_le_bytes)

lemma le_bytes_0 [simp]: "le_bytes n 0 = replicate n 0"
  by (induction n) simp_all

lemma le_bytes_pad: "v < 256 ^ n \<Longrightarrow> le_bytes (n + m) v = le_bytes n v @ replicate m 0"
proof (induction n arbitrary: v)
  case (Suc n)
  then have "v div 256 < 256 ^ n" by (simp add: less_mult_imp_div_less mult.commute)
  with Suc.IH show ?case by simp
qed simp

lemma be_bytes_pad: "v < 256 ^ n \<Longrightarrow> be_bytes (n + m) v = replicate m 0 @ be_bytes n v"
  by (simp add: be_bytes_def le_bytes_pad)

lemma le_bytes_le_nat [bytes_simps]: "length bs = n \<Longrightarrow> le_bytes n (le_nat bs) = bs"
proof (induction bs arbitrary: n)
  case (Cons b bs)
  have "(word_of_nat (unat b + 256 * le_nat bs) :: byte) = b"
    by (rule unsigned_word_eqI [where 'a = nat])
      (simp only: unsigned_of_nat take_bit_eq_mod, simp)
  moreover have "(unat b + 256 * le_nat bs) div 256 = le_nat bs"
    by simp
  ultimately show ?case using Cons by (auto simp: Cons.IH)
qed simp

lemma be_bytes_be_nat [bytes_simps]: "length bs = n \<Longrightarrow> be_bytes n (be_nat bs) = bs"
  by (simp add: be_bytes_def be_nat_def le_bytes_le_nat)

end
