(* ===== verification/Checksum.thy ===== *)
theory Checksum
  imports Prelude
begin

text \<open>
  The Internet checksum helpers of \<^verbatim>\<open>src/packet/utils/checksum.rs\<close>.  The accumulator is a
  \<^verbatim>\<open>u32\<close> whose \<^verbatim>\<open>+=\<close> is modelled as the wrapping addition of a release build; the
  lemmas on \<^verbatim>\<open>word_sum\<close> say up to which input length it cannot wrap, so that the debug build
  (which panics there) and the release build agree.
\<close>

type_synonym range = "nat \<times> nat"

definition in_range :: "range \<Rightarrow> nat \<Rightarrow> bool" where
  "in_range z i = (fst z \<le> i \<and> i < snd z)"

definition u16_from_be :: "byte \<Rightarrow> byte \<Rightarrow> 16 word" where
  "u16_from_be hi lo = word_of_nat (be_nat [hi, lo])"

fun add_words :: "32 word \<Rightarrow> bytes \<Rightarrow> 32 word" where
  "add_words s [] = s"
| "add_words s [a] = s + ucast (u16_from_be a 0)"
| "add_words s (a # b # rest) = add_words (s + ucast (u16_from_be a b)) rest"

function add_words_zeroing_from :: "nat \<Rightarrow> 32 word \<Rightarrow> bytes \<Rightarrow> range \<Rightarrow> 32 word" where
  "add_words_zeroing_from i s bs z =
    (if i < length bs
     then let high = (if in_range z i then 0 else bs ! i);
              low = (if i + 1 < length bs \<and> \<not> in_range z (i + 1) then bs ! (i + 1) else 0)
          in add_words_zeroing_from (i + 2) (s + ucast (u16_from_be high low)) bs z
     else s)"
  by pat_completeness auto
termination by (relation "measure (\<lambda>(i, s, bs, z). length bs - i)") auto

declare add_words_zeroing_from.simps [simp del]

definition add_words_zeroing :: "32 word \<Rightarrow> bytes \<Rightarrow> range \<Rightarrow> 32 word" where
  "add_words_zeroing s bs z = add_words_zeroing_from 0 s bs z"

lemma unat_drop_bit_16: "unat (drop_bit 16 (s :: 32 word)) = unat s div 65536"
  by (simp add: drop_bit_eq_div unat_div)

lemma unat_low_16: "unat ((s :: 32 word) AND 0xffff) = unat s mod 65536"
proof -
  have "s AND 0xffff = take_bit 16 s"
    by (simp add: take_bit_eq_mask mask_eq_exp_minus_1)
  then show ?thesis by (simp add: take_bit_eq_mod unat_mod)
qed

lemma unat_fold_step:
  "unat (((s :: 32 word) AND 0xffff) + drop_bit 16 s) = unat s mod 65536 + unat s div 65536"
proof -
  have "unat s < 2 ^ LENGTH(32)" by (rule unsigned_less)
  then have "unat s div 65536 < 65536" by (simp add: less_mult_imp_div_less)
  moreover have "unat s mod 65536 < 65536" by simp
  ultimately have "unat s mod 65536 + unat s div 65536 < 2 ^ LENGTH(32)" by simp
  then show ?thesis
    by (simp add: unat_word_ariths unat_low_16 unat_drop_bit_16)
qed

function fold_carry :: "32 word \<Rightarrow> 32 word" where
  "fold_carry s = (if drop_bit 16 s \<noteq> 0 then fold_carry ((s AND 0xffff) + drop_bit 16 s) else s)"
  by pat_completeness auto
termination
proof (relation "measure unat", simp)
  fix s :: "32 word"
  assume "drop_bit 16 s \<noteq> 0"
  then have "unat s div 65536 \<noteq> 0"
    by (metis unat_drop_bit_16 unat_eq_0)
  then have "unat s mod 65536 + unat s div 65536 < unat s"
    using div_mult_mod_eq [of "unat s" 65536] by linarith
  then show "((s AND 0xffff) + drop_bit 16 s, s) \<in> measure unat"
    by (simp add: unat_fold_step)
qed

declare fold_carry.simps [simp del]

definition fold_checksum :: "32 word \<Rightarrow> 16 word" where
  "fold_checksum s = NOT (ucast (fold_carry s))"

definition internet_checksum :: "bytes \<Rightarrow> 16 word" where
  "internet_checksum bs = fold_checksum (add_words 0 bs)"

definition internet_checksum_zeroing :: "bytes \<Rightarrow> range \<Rightarrow> 16 word" where
  "internet_checksum_zeroing bs z = fold_checksum (add_words_zeroing 0 bs z)"

definition ipv4_transport_checksum :: "bytes \<Rightarrow> bytes \<Rightarrow> byte \<Rightarrow> bytes \<Rightarrow> 16 word" where
  "ipv4_transport_checksum src dst proto seg =
    (let s = add_words 0 src;
         s = add_words s dst;
         s = s + ucast proto;
         s = s + word_of_nat (length seg);
         s = add_words s seg
     in fold_checksum s)"

definition ipv4_transport_checksum_zeroing ::
    "bytes \<Rightarrow> bytes \<Rightarrow> byte \<Rightarrow> bytes \<Rightarrow> range \<Rightarrow> 16 word" where
  "ipv4_transport_checksum_zeroing src dst proto seg z =
    (let s = add_words 0 src;
         s = add_words s dst;
         s = s + ucast proto;
         s = s + word_of_nat (length seg);
         s = add_words_zeroing s seg z
     in fold_checksum s)"

definition ipv6_transport_checksum :: "bytes \<Rightarrow> bytes \<Rightarrow> byte \<Rightarrow> bytes \<Rightarrow> 16 word" where
  "ipv6_transport_checksum src dst nh seg =
    (let s = add_words 0 src;
         s = add_words s dst;
         s = s + word_of_nat (length seg);
         s = s + ucast nh;
         s = add_words s seg
     in fold_checksum s)"

definition ipv6_transport_checksum_zeroing ::
    "bytes \<Rightarrow> bytes \<Rightarrow> byte \<Rightarrow> bytes \<Rightarrow> range \<Rightarrow> 16 word" where
  "ipv6_transport_checksum_zeroing src dst nh seg z =
    (let s = add_words 0 src;
         s = add_words s dst;
         s = s + word_of_nat (length seg);
         s = s + ucast nh;
         s = add_words_zeroing s seg z
     in fold_checksum s)"

section \<open>Arithmetic of the accumulator\<close>

text \<open>The reference sum, without a width, and the one's-complement residue it folds to.\<close>

fun word_sum :: "bytes \<Rightarrow> nat" where
  "word_sum [] = 0"
| "word_sum [a] = unat a * 256"
| "word_sum (a # b # rest) = unat a * 256 + unat b + word_sum rest"

definition ones_complement :: "nat \<Rightarrow> nat" where
  "ones_complement s = (if s = 0 then 0 else (s - 1) mod 65535 + 1)"

lemma unat_u16_from_be [simp]: "unat (u16_from_be a b) = unat a * 256 + unat b"
proof -
  have "unat a * 256 + unat b < 65536"
    using unat_byte_lt [of a] unat_byte_lt [of b] by linarith
  then have "be_nat [a, b] < 2 ^ LENGTH(16)" by (simp add: be_nat_Cons)
  then show ?thesis
    unfolding u16_from_be_def by (subst unat_of_nat_less) (simp_all add: be_nat_Cons)
qed

lemma ucast_u16_from_be: "(ucast (u16_from_be a b) :: 32 word) = word_of_nat (unat a * 256 + unat b)"
  by (metis unat_u16_from_be of_nat_unat)

lemma add_words_of_nat: "add_words s bs = s + word_of_nat (word_sum bs)"
  by (induction s bs rule: add_words.induct) (simp_all add: ucast_u16_from_be algebra_simps)

lemma word_sum_bound: "word_sum bs \<le> (length bs + 1) div 2 * 65535"
proof (induction bs rule: word_sum.induct)
  case (2 a)
  have "unat a \<le> 255" using unat_byte_lt [of a] by linarith
  then show ?case by simp
next
  case (3 a b rest)
  have "unat a \<le> 255" "unat b \<le> 255"
    using unat_byte_lt [of a] unat_byte_lt [of b] by linarith+
  with 3 show ?case by simp
qed simp

lemma word_sum_append: "even (length xs) \<Longrightarrow> word_sum (xs @ ys) = word_sum xs + word_sum ys"
  by (induction xs rule: word_sum.induct) simp_all

text \<open>
  One step of the folding loop keeps the residue: \<^verbatim>\<open>s mod 65536 + s div 65536\<close> and
  \<^verbatim>\<open>s\<close> differ by a multiple of \<^verbatim>\<open>65535\<close>, and neither is zero unless both are.
\<close>

lemma ones_complement_fold: "ones_complement (s mod 65536 + s div 65536) = ones_complement s"
proof (cases "s = 0")
  case False
  let ?t = "s mod 65536 + s div 65536"
  have s: "s = ?t + s div 65536 * 65535"
    using div_mult_mod_eq [of s 65536] by linarith
  have t: "?t \<noteq> 0" using False s by (metis add_is_0 mult_is_0)
  then have "s - 1 = (?t - 1) + s div 65536 * 65535" using s by linarith
  then have "(s - 1) mod 65535 = (?t - 1) mod 65535" by (metis mod_mult_self1)
  with False t show ?thesis by (simp add: ones_complement_def)
qed (simp add: ones_complement_def)

lemma ones_complement_small: "s < 65536 \<Longrightarrow> ones_complement s = s"
  by (cases "s = 0") (simp_all add: ones_complement_def)

lemma unat_fold_carry: "unat (fold_carry s) = ones_complement (unat s)"
proof (induction s rule: fold_carry.induct)
  case (1 s)
  show ?case
  proof (cases "drop_bit 16 s = 0")
    case True
    then have "unat s div 65536 = 0" by (metis unat_drop_bit_16 unat_0)
    then have "unat s < 65536" by (simp add: div_eq_0_iff)
    with True show ?thesis by (subst fold_carry.simps) (simp add: ones_complement_small)
  next
    case False
    from 1 [OF False] False show ?thesis
      by (subst fold_carry.simps) (simp add: unat_fold_step ones_complement_fold)
  qed
qed

lemma ones_complement_bound: "ones_complement s < 65536"
  by (simp add: ones_complement_def)

lemma unat_not_word: "unat (NOT (x :: 16 word)) = 65535 - unat x"
proof -
  have "NOT x = -1 - x" by (simp add: not_eq_complement)
  then show ?thesis by (simp add: unat_sub [OF word_n1_ge] unsigned_minus_1_eq_mask mask_eq_exp_minus_1)
qed

lemma unat_fold_checksum: "unat (fold_checksum s) = 65535 - ones_complement (unat s)"
proof -
  have "unat (ucast (fold_carry s) :: 16 word) = ones_complement (unat s)"
    using ones_complement_bound [of "unat s"]
    by (simp add: unsigned_ucast_eq unat_fold_carry take_bit_nat_eq_self)
  then show ?thesis
    unfolding fold_checksum_def
    by (simp add: unat_not_word)
qed

text \<open>Clearing a range of the input.\<close>

definition zero_range :: "bytes \<Rightarrow> range \<Rightarrow> bytes" where
  "zero_range bs z = map (\<lambda>i. if in_range z i then 0 else bs ! i) [0..<length bs]"

lemma zero_range_length [simp]: "length (zero_range bs z) = length bs"
  by (simp add: zero_range_def)

lemma zero_range_nth [simp]: "i < length bs \<Longrightarrow> zero_range bs z ! i = (if in_range z i then 0 else bs ! i)"
  by (simp add: zero_range_def)

lemma add_words_zeroing_from_drop:
  "add_words_zeroing_from i s bs z = add_words s (drop i (zero_range bs z))"
proof (induction i s bs z rule: add_words_zeroing_from.induct)
  case (1 i s bs z)
  show ?case
  proof (cases "i < length bs")
    case True
    then have i: "drop i (zero_range bs z) = zero_range bs z ! i # drop (Suc i) (zero_range bs z)"
      by (metis Cons_nth_drop_Suc zero_range_length)
    show ?thesis
    proof (cases "Suc i < length bs")
      case Suc: True
      then have "drop (Suc i) (zero_range bs z) =
          zero_range bs z ! Suc i # drop (Suc (Suc i)) (zero_range bs z)"
        by (metis Cons_nth_drop_Suc zero_range_length)
      with i True Suc 1 show ?thesis
        by (subst add_words_zeroing_from.simps) (simp add: Let_def)
    next
      case False
      with i True 1 show ?thesis
        by (subst add_words_zeroing_from.simps) (simp add: Let_def)
    qed
  qed (subst add_words_zeroing_from.simps, simp)
qed

lemma add_words_zeroing_eq: "add_words_zeroing s bs z = add_words s (zero_range bs z)"
  by (simp add: add_words_zeroing_def add_words_zeroing_from_drop)

section \<open>Properties\<close>

lemma unat_add_words:
  assumes "unat s + word_sum bs < 2 ^ 32"
  shows "unat (add_words s bs) = unat s + word_sum bs"
proof -
  have "unat (word_of_nat (word_sum bs) :: 32 word) = word_sum bs"
    using assms by (intro unat_of_nat_less) simp
  with assms show ?thesis
    by (simp add: add_words_of_nat unat_word_ariths)
qed

lemma word_sum_no_wrap: "length bs \<le> 131074 \<Longrightarrow> word_sum bs \<le> 4294967295"
proof -
  assume "length bs \<le> 131074"
  then have "(length bs + 1) div 2 \<le> 65537" by linarith
  then have "(length bs + 1) div 2 * 65535 \<le> 65537 * 65535" by (rule mult_le_mono1)
  with word_sum_bound [of bs] show ?thesis by linarith
qed

lemma internet_checksum_sum:
  assumes "length bs \<le> 131074"
  shows "unat (internet_checksum bs) = 65535 - ones_complement (word_sum bs)"
  using word_sum_no_wrap [OF assms]
  by (simp add: internet_checksum_def unat_fold_checksum unat_add_words)

lemmas transport_checksum_defs =
  internet_checksum_def internet_checksum_zeroing_def
  ipv4_transport_checksum_def ipv4_transport_checksum_zeroing_def
  ipv6_transport_checksum_def ipv6_transport_checksum_zeroing_def

lemma ones_complement_complete:
  "ones_complement (s + (65535 - ones_complement s)) = 65535"
proof (cases "s = 0")
  case False
  have "(s - 1) mod 65535 \<le> 65534"
    using mod_less_divisor [of 65535 "s - 1"] by linarith
  then have "s + (65535 - ones_complement s) - 1
      = (s - 1) - (s - 1) mod 65535 + 65534"
    using False mod_less_eq_dividend [of "s - 1" 65535] by (simp add: ones_complement_def)
  also have "\<dots> = (s - 1) div 65535 * 65535 + 65534"
    by (simp add: minus_mod_eq_div_mult)
  finally show ?thesis using False by (simp add: ones_complement_def)
qed (simp add: ones_complement_def)

lemma zero_range_split:
  assumes "k + 2 \<le> length bs"
  shows "zero_range bs (k, k + 2) = take k bs @ [0, 0] @ drop (k + 2) bs"
  using assms
  by (intro nth_equalityI) (auto simp: in_range_def nth_append nth_Cons split: nat.splits
      intro!: arg_cong [of _ _ "(!) bs"])

lemma word_sum_be_bytes: "word_sum (be_bytes 2 (unat (c :: 16 word))) = unat c"
proof -
  have "unat c < 65536" using unsigned_less [of c, where 'a = nat] by simp
  then show ?thesis
    using be_nat_be_bytes [of 2 "unat c"]
    by (simp add: be_bytes_def numeral_2_eq_2 be_nat_Cons)
qed

text \<open>C28: on up to 131074 bytes the checksum is the 16-bit one's-complement of the one's-complement sum
  of the big-endian words (an odd last byte padded with zero); the accumulator cannot wrap.\<close>

theorem internet_checksum_spec:
  assumes "length bs \<le> 131074"
  shows "unat (internet_checksum bs) = 65535 - ones_complement (word_sum bs)"
  using assms by (rule internet_checksum_sum)

theorem internet_checksum_spec_witness:
  "unat (internet_checksum [0x45, 0, 0xff]) = 65535 - ones_complement (word_sum [0x45, 0, 0xff])"
  by (rule internet_checksum_spec) simp

text \<open>Reading a range as zero is the checksum of the input with that range cleared, for every
  input length and for the pseudo-header variants too.\<close>

lemma checksum_zeroing_clears:
  "internet_checksum_zeroing bs z = internet_checksum (zero_range bs z) \<and>
   ipv4_transport_checksum_zeroing src dst proto bs z =
     ipv4_transport_checksum src dst proto (zero_range bs z) \<and>
   ipv6_transport_checksum_zeroing src dst nh bs z =
     ipv6_transport_checksum src dst nh (zero_range bs z)"
  by (simp add: transport_checksum_defs add_words_zeroing_eq)

text \<open>C29: a checksum field is consistent with its own verification.  Store the checksum computed with
  the field read as zero into the field, and the checksum of the whole input is zero.\<close>

theorem checksum_verifies:
  assumes "even k" and "k + 2 \<le> length bs" and "length bs \<le> 131074"
  shows "internet_checksum
      (take k bs @ be_bytes 2 (unat (internet_checksum_zeroing bs (k, k + 2))) @ drop (k + 2) bs) = 0"
proof -
  let ?c = "internet_checksum_zeroing bs (k, k + 2)"
  let ?z = "take k bs @ [0, 0] @ drop (k + 2) bs"
  let ?w = "take k bs @ be_bytes 2 (unat ?c) @ drop (k + 2) bs"
  have k: "even (length (take k bs))" using assms by simp
  have z: "word_sum ?z = word_sum (take k bs) + word_sum (drop (k + 2) bs)"
    using word_sum_append [OF k] by simp
  have c: "unat ?c = 65535 - ones_complement (word_sum ?z)"
    using assms internet_checksum_sum [of ?z] zero_range_split [OF assms(2)]
    by (simp add: transport_checksum_defs add_words_zeroing_eq)
  have "word_sum ?w = word_sum ?z + (65535 - ones_complement (word_sum ?z))"
    using word_sum_append [OF k] word_sum_append [of "be_bytes 2 (unat ?c)"] z c
    by (simp add: word_sum_be_bytes)
  moreover have "length ?w \<le> 131074" using assms by simp
  ultimately have "unat (internet_checksum ?w) = 0"
    using internet_checksum_sum [of ?w] ones_complement_complete [of "word_sum ?z"] by simp
  then show ?thesis by (simp add: unat_eq_0)
qed

theorem checksum_verifies_witness:
  "internet_checksum (take 2 [0x45, 0x17, 0, 0, 0xff] @
     be_bytes 2 (unat (internet_checksum_zeroing [0x45, 0x17, 0, 0, 0xff] (2, 2 + 2))) @
     drop (2 + 2) [0x45, 0x17, 0, 0, 0xff]) = 0"
  by (rule checksum_verifies) simp_all

lemma replicate_2: "replicate 2 x = [x, x]"
  by (simp add: numeral_2_eq_2)

text \<open>The transport checksums are the Internet checksum of the pseudo header followed by the
  segment (RFC 793 and 768 for IPv4, RFC 8200 section 8.1 for IPv6).\<close>

lemma transport_checksum_pseudo_header:
  assumes "even (length src)" and "even (length dst)"
    and "length src \<le> 16" and "length dst \<le> 16" and "length seg \<le> 65535"
  shows "ipv4_transport_checksum src dst p seg =
      internet_checksum (src @ dst @ [0, p] @ be_bytes 2 (length seg) @ seg) \<and>
    ipv6_transport_checksum src dst p seg =
      internet_checksum (src @ dst @ be_bytes 4 (length seg) @ [0, 0, 0, p] @ seg)"
proof -
  have seg: "length seg < 65536" using assms by simp
  have two: "word_sum (be_bytes 2 (length seg)) = length seg"
    using word_sum_be_bytes [of "word_of_nat (length seg)"] unat_of_nat_less [where 'a = 16] seg
    by simp
  have four: "be_bytes 4 (length seg) = 0 # 0 # be_bytes 2 (length seg)"
  proof -
    have "be_bytes (2 + 2) (length seg) = replicate 2 0 @ be_bytes 2 (length seg)"
      using seg by (intro be_bytes_pad) simp
    then show ?thesis by (simp add: replicate_2)
  qed
  have sum4: "word_sum (be_bytes 4 (length seg)) = length seg"
    by (simp add: four two)
  let ?sum = "word_sum src + word_sum dst + unat p + length seg + word_sum seg"
  have p: "(ucast p :: 32 word) = word_of_nat (unat p)" by simp
  have v4: "word_sum (src @ dst @ [0, p] @ be_bytes 2 (length seg) @ seg) = ?sum"
    using assms by (simp add: word_sum_append two)
  have v6: "word_sum (src @ dst @ be_bytes 4 (length seg) @ [0, 0, 0, p] @ seg) = ?sum"
    using assms by (simp add: word_sum_append sum4)
  have "ipv4_transport_checksum src dst p seg = fold_checksum (word_of_nat ?sum)"
    by (simp only: transport_checksum_defs Let_def add_words_of_nat add_0 p of_nat_add)
  moreover have "ipv6_transport_checksum src dst p seg = fold_checksum (word_of_nat ?sum)"
    by (simp only: transport_checksum_defs Let_def add_words_of_nat add_0 p of_nat_add ac_simps)
  ultimately show ?thesis
    by (simp only: internet_checksum_def add_words_of_nat v4 v6 add_0 simp_thms)
qed

lemma transport_checksum_pseudo_header_witness:
  "ipv4_transport_checksum [10, 0, 0, 1] [10, 0, 0, 2] 17 [1, 2, 3] =
    internet_checksum ([10, 0, 0, 1] @ [10, 0, 0, 2] @ [0, 17] @ be_bytes 2 (length [1::byte, 2, 3]) @ [1, 2, 3])"
  by (rule transport_checksum_pseudo_header [THEN conjunct1]) simp_all

lemma word_sum_ones: "word_sum (replicate (2 * n) 0xff) = n * 65535"
  by (induction n) simp_all

text \<open>The bound of \<^verbatim>\<open>internet_checksum_spec\<close> is the exact one for whole words.  On 131076 bytes of \<^verbatim>\<open>0xff\<close> the
  accumulator wraps and the result is not the one's-complement checksum of the input.\<close>

lemma internet_checksum_wraps:
  "unat (internet_checksum (replicate 131076 0xff))
     \<noteq> 65535 - ones_complement (word_sum (replicate 131076 0xff))"
proof -
  have sum: "word_sum (replicate 131076 0xff) = 4295032830"
    using word_sum_ones [of 65538] by simp
  have "unat (add_words 0 (replicate 131076 0xff)) = 65534"
    by (simp add: add_words_of_nat sum unsigned_of_nat take_bit_eq_mod)
  then show ?thesis
    by (simp add: internet_checksum_def unat_fold_checksum sum ones_complement_def)
qed

end
