(* ===== verification/Field.thy ===== *)
theory Field
  imports Prelude
begin

text \<open>
  Typed field accessors: \<^verbatim>\<open>FieldSpec\<close>, \<^verbatim>\<open>read_unaligned\<close>, \<^verbatim>\<open>write_unaligned\<close> and the
  \<^verbatim>\<open>raw\<close>, \<^verbatim>\<open>get\<close> and \<^verbatim>\<open>set\<close> methods of \<^verbatim>\<open>FieldAccessor\<close> in
  \<^verbatim>\<open>src/packet/utils/field.rs\<close>, for the integer underlays.  The width of the underlay is the
  length of the word type.  The code reads through a raw pointer without a bound check, so a read or
  a write behind the end of the slice is undefined behaviour there; here it is \<^verbatim>\<open>None\<close>, and the
  parsers turn \<^verbatim>\<open>None\<close> into a panic that their theorems exclude.
\<close>

datatype fspec = FSpec (fs_mask: "64 word") (fs_shift: nat)

definition whole :: fspec where
  "whole = FSpec (- 1) 0"

definition underlay_size :: "'u::len itself \<Rightarrow> nat" where
  "underlay_size _ = LENGTH('u) div 8"

definition read_unaligned :: "bool \<Rightarrow> bytes \<Rightarrow> 'u::len word option" where
  "read_unaligned msb bs =
    (let n = underlay_size TYPE('u) in
     if n \<le> length bs
     then Some (word_of_nat (if msb then be_nat (take n bs) else le_nat (take n bs)))
     else None)"

definition write_unaligned :: "bool \<Rightarrow> bytes \<Rightarrow> 'u::len word \<Rightarrow> bytes option" where
  "write_unaligned msb bs v =
    (let n = underlay_size TYPE('u) in
     if n \<le> length bs
     then Some ((if msb then be_bytes n (unat v) else le_bytes n (unat v)) @ drop n bs)
     else None)"

definition apply_spec :: "fspec \<Rightarrow> 'u::len word \<Rightarrow> 'u word" where
  "apply_spec f v =
    (if fs_mask f = - 1 \<and> fs_shift f = 0 then v
     else if fs_shift f = 0 then v AND ucast (fs_mask f)
     else drop_bit (fs_shift f) (v AND ucast (fs_mask f)))"

definition field_raw :: "bool \<Rightarrow> fspec \<Rightarrow> bytes \<Rightarrow> 'u::len word option" where
  "field_raw msb f bs = map_option (apply_spec f) (read_unaligned msb bs)"

definition field_get :: "bool \<Rightarrow> fspec \<Rightarrow> ('u::len word \<Rightarrow> 't) \<Rightarrow> bytes \<Rightarrow> 't option" where
  "field_get msb f from_underlay bs = map_option from_underlay (field_raw msb f bs)"

definition merge_spec :: "fspec \<Rightarrow> 'u::len word \<Rightarrow> 'u word \<Rightarrow> 'u word" where
  "merge_spec f prev v =
    (if fs_mask f = - 1 \<and> fs_shift f = 0 then v
     else if fs_shift f = 0
     then (prev AND ucast (NOT (fs_mask f))) OR (v AND ucast (fs_mask f))
     else (prev AND ucast (NOT (fs_mask f))) OR (push_bit (fs_shift f) v AND ucast (fs_mask f)))"

definition field_set :: "bool \<Rightarrow> fspec \<Rightarrow> ('t \<Rightarrow> 'u::len word) \<Rightarrow> 't \<Rightarrow> bytes \<Rightarrow> bytes option" where
  "field_set msb f into_underlay t bs =
    (case read_unaligned msb bs of
       None \<Rightarrow> None
     | Some prev \<Rightarrow> write_unaligned msb bs (merge_spec f prev (into_underlay t)))"

text \<open>An accessor of a viewer: the field range of the viewer's data, then the accessor on it.\<close>

definition view_raw :: "nat \<Rightarrow> nat \<Rightarrow> fspec \<Rightarrow> bytes \<Rightarrow> 'u::len word option" where
  "view_raw lo hi f bs = Option.bind (slice bs lo hi) (field_raw True f)"

definition view_set :: "nat \<Rightarrow> nat \<Rightarrow> fspec \<Rightarrow> 'u::len word \<Rightarrow> bytes \<Rightarrow> bytes option" where
  "view_set lo hi f v bs =
    Option.bind (slice bs lo hi)
      (\<lambda>s. map_option (\<lambda>s'. take lo bs @ s' @ drop hi bs) (field_set True f (\<lambda>x. x) v s))"

section \<open>Reading and writing\<close>

lemma read_in_range [simp]:
  "underlay_size TYPE('u::len) \<le> length bs \<Longrightarrow>
     \<exists>v. read_unaligned msb bs = Some (v :: 'u word)"
  by (simp add: read_unaligned_def Let_def)

lemma underlay_sizes [simp]:
  "underlay_size TYPE(8) = 1" "underlay_size TYPE(16) = 2" "underlay_size TYPE(32) = 4"
  "underlay_size TYPE(64) = 8" "underlay_size TYPE(128) = 16"
  by (simp_all add: underlay_size_def)

text \<open>A whole big-endian field of \<^verbatim>\<open>n\<close> bytes is the number its bytes write.\<close>

lemma read_be_field:
  assumes "lo + n \<le> length bs" and "LENGTH('u::len) = 8 * n" and "view_raw lo (lo + n) whole bs = Some (v :: 'u word)"
  shows "unat v = be_nat (take n (drop lo bs))"
proof -
  have "be_nat (take n (drop lo bs)) < 256 ^ n"
    using be_nat_bound [of "take n (drop lo bs)"] assms(1) by (simp add: min_absorb2)
  then have "be_nat (take n (drop lo bs)) < 2 ^ LENGTH('u)" using assms(2) by (simp add: power_mult)
  moreover have "v = word_of_nat (be_nat (take n (drop lo bs)))"
    using assms by (simp add: view_raw_def field_raw_def read_unaligned_def Let_def underlay_size_def
        apply_spec_def whole_def)
  ultimately show ?thesis by (simp only: unat_of_nat_less)
qed

lemma view_raw_in_range [simp]:
  assumes "lo \<le> hi" and "hi \<le> length bs" and "underlay_size TYPE('u::len) \<le> hi - lo"
  shows "\<exists>v. view_raw lo hi f bs = Some (v :: 'u word)"
  using assms by (simp add: view_raw_def field_raw_def read_unaligned_def Let_def)

lemma read_write:
  fixes v :: "'u::len word"
  assumes "write_unaligned msb bs v = Some bs'" and "LENGTH('u) = 8 * n"
  shows "read_unaligned msb bs' = Some v"
proof -
  have n: "underlay_size TYPE('u) = n" using assms by (simp add: underlay_size_def)
  have "unat v < 2 ^ LENGTH('u)" by (rule unsigned_less)
  then have v: "unat v mod 256 ^ underlay_size TYPE('u) = unat v"
    using assms(2) n by (simp add: power_mult)
  show ?thesis
    using assms(1) n
    by (auto simp: write_unaligned_def read_unaligned_def Let_def be_nat_be_bytes le_nat_le_bytes v
        split: if_splits)
qed

lemma write_read:
  assumes "read_unaligned msb bs = Some (v :: 'u::len word)" and "LENGTH('u) = 8 * n"
  shows "write_unaligned msb bs v = Some bs"
proof -
  have n: "underlay_size TYPE('u) = n" using assms by (simp add: underlay_size_def)
  have len: "n \<le> length bs" using assms(1) n by (simp add: read_unaligned_def Let_def split: if_splits)
  then have t: "length (take n bs) = n" by simp
  have "be_nat (take n bs) < 2 ^ LENGTH('u)" "le_nat (take n bs) < 2 ^ LENGTH('u)"
    using be_nat_bound [of "take n bs"] le_nat_bound [of "take n bs"] t assms(2)
    by (simp_all add: power_mult)
  then show ?thesis
    using assms(1) n len be_bytes_be_nat [OF t] le_bytes_le_nat [OF t]
    by (auto simp: write_unaligned_def read_unaligned_def Let_def unat_of_nat_less)
qed

section \<open>Masks\<close>

lemma ucast_not:
  assumes "LENGTH('u::len) \<le> LENGTH('v::len)"
  shows "(ucast (NOT (m :: 'v word)) :: 'u word) = NOT (ucast m)"
  using assms by (intro bit_word_eqI) (simp add: bit_ucast_iff bit_not_iff)

lemma ucast_minus_one:
  assumes "LENGTH('u::len) \<le> LENGTH('v::len)"
  shows "(ucast (- 1 :: 'v word) :: 'u word) = - 1"
  using assms by (intro bit_word_eqI) (simp add: bit_ucast_iff)

lemma apply_spec_uniform:
  assumes "LENGTH('u::len) \<le> 64"
  shows "apply_spec f (v :: 'u word) = drop_bit (fs_shift f) (v AND ucast (fs_mask f))"
  using assms by (simp add: apply_spec_def ucast_minus_one)

lemma merge_spec_uniform:
  assumes "LENGTH('u::len) \<le> 64"
  shows "merge_spec f prev (v :: 'u word) =
    (prev AND NOT (ucast (fs_mask f))) OR (push_bit (fs_shift f) v AND ucast (fs_mask f))"
  using assms by (simp add: merge_spec_def ucast_minus_one ucast_not)

lemma apply_merge:
  assumes "LENGTH('u::len) \<le> 64"
  shows "apply_spec f (merge_spec f prev v) = (v :: 'u word) AND drop_bit (fs_shift f) (ucast (fs_mask f))"
  unfolding apply_spec_uniform [OF assms] merge_spec_uniform [OF assms]
  by (intro bit_word_eqI)
    (auto simp: bit_and_iff bit_or_iff bit_not_iff bit_drop_bit_eq bit_push_bit_iff bit_imp_le_length
      dest: bit_imp_le_length)

section \<open>The bits a field owns\<close>

text \<open>
  Bit \<^verbatim>\<open>b\<close> of byte \<^verbatim>\<open>i\<close> of the header belongs to the field at bytes
  \<^verbatim>\<open>lo..lo+n\<close> exactly when the big-endian underlay bit it is has its mask bit set.
\<close>

definition owns :: "nat \<Rightarrow> nat \<Rightarrow> fspec \<Rightarrow> nat \<Rightarrow> nat \<Rightarrow> bool" where
  "owns lo n f i b = (lo \<le> i \<and> i < lo + n \<and> b < 8 \<and> bit (fs_mask f) (8 * (lo + n - 1 - i) + b))"

lemma bit_le_nat:
  "bit (le_nat bs) j \<longleftrightarrow> j div 8 < length bs \<and> bit (bs ! (j div 8)) (j mod 8)"
proof (induction bs arbitrary: j)
  case (Cons b bs)
  have *: "le_nat (b # bs) = (unat b + le_nat bs * 2 ^ 8)" by simp
  show ?case
  proof (cases "j < 8")
    case True
    have "bit (le_nat (b # bs)) j = bit (take_bit 8 (le_nat (b # bs))) j"
      using True by (simp add: bit_take_bit_iff)
    also have "take_bit 8 (le_nat (b # bs)) = unat b"
      unfolding * by (simp add: take_bit_eq_mod)
    finally show ?thesis using True by (simp add: bit_unsigned_iff)
  next
    case False
    have "bit (le_nat (b # bs)) j = bit (drop_bit 8 (le_nat (b # bs))) (j - 8)"
      using False by (simp add: bit_drop_bit_eq)
    also have "drop_bit 8 (le_nat (b # bs)) = le_nat bs"
      unfolding * by (simp add: drop_bit_eq_div)
    finally have "bit (le_nat (b # bs)) j = bit (le_nat bs) (j - 8)" .
    moreover have "(j - 8) div 8 = j div 8 - 1" "(j - 8) mod 8 = j mod 8" "0 < j div 8"
      using False by (auto simp: le_mod_geq le_div_geq not_less)
    ultimately show ?thesis using Cons.IH by (auto simp: nth_Cons split: nat.splits)
  qed
qed simp

lemma bit_be_nat:
  "bit (be_nat bs) j \<longleftrightarrow> j div 8 < length bs \<and> bit (bs ! (length bs - 1 - j div 8)) (j mod 8)"
  by (auto simp: be_nat_def bit_le_nat rev_nth)

lemma bit_le_bytes:
  "i < n \<Longrightarrow> b < 8 \<Longrightarrow> bit (le_bytes n v ! i) b \<longleftrightarrow> bit v (8 * i + b)"
proof (induction n arbitrary: i v)
  case (Suc n)
  show ?case
  proof (cases i)
    case 0
    have "bit (unat (word_of_nat v :: byte)) b = bit v b"
      using Suc.prems by (subst unsigned_of_nat) (simp add: bit_take_bit_iff)
    with 0 show ?thesis by (simp add: bit_unsigned_iff)
  next
    case (Suc k)
    have "bit (v div 256) (8 * k + b) = bit v (8 * i + b)"
      using bit_drop_bit_eq [of 8 v] Suc by (simp add: drop_bit_eq_div comp_def fun_eq_iff add.assoc)
    with Suc Suc.prems Suc.IH show ?thesis by simp
  qed
qed simp

lemma bit_be_bytes:
  "i < n \<Longrightarrow> b < 8 \<Longrightarrow> bit (be_bytes n v ! i) b \<longleftrightarrow> bit v (8 * (n - 1 - i) + b)"
  by (simp add: be_bytes_def rev_nth bit_le_bytes)

lemma view_raw_eq:
  assumes "LENGTH('u::len) = 8 * n" and "lo + n \<le> length bs"
  shows "view_raw lo (lo + n) f bs =
    Some (apply_spec f (word_of_nat (be_nat (take n (drop lo bs))) :: 'u word))"
  using assms
  by (simp add: view_raw_def field_raw_def read_unaligned_def Let_def underlay_size_def)

lemma view_set_eq:
  assumes "LENGTH('u::len) = 8 * n" and "lo + n \<le> length bs"
  shows "view_set lo (lo + n) f (v :: 'u word) bs =
    Some (take lo bs @
      be_bytes n (unat (merge_spec f (word_of_nat (be_nat (take n (drop lo bs)))) v)) @
      drop (lo + n) bs)"
  using assms
  by (simp add: view_set_def field_set_def read_unaligned_def write_unaligned_def Let_def
      underlay_size_def)

lemma bit_region:
  assumes "lo + n \<le> length bs" and "k < 8 * n" and "LENGTH('u::len) = 8 * n"
  shows "bit (word_of_nat (be_nat (take n (drop lo bs))) :: 'u word) k
    \<longleftrightarrow> bit (bs ! (lo + n - 1 - k div 8)) (k mod 8)"
proof -
  have "be_nat (take n (drop lo bs)) < 2 ^ LENGTH('u)"
    using be_nat_bound [of "take n (drop lo bs)"] assms by (simp add: power_mult)
  then have "bit (word_of_nat (be_nat (take n (drop lo bs))) :: 'u word) k
      = bit (be_nat (take n (drop lo bs))) k"
    by (metis bit_unsigned_iff unat_of_nat_less possible_bit_nat)
  also have "\<dots> = bit (take n (drop lo bs) ! (n - 1 - k div 8)) (k mod 8)"
    using assms by (simp add: bit_be_nat div_less_iff_less_mult mult.commute)
  also have "take n (drop lo bs) ! (n - 1 - k div 8) = bs ! (lo + n - 1 - k div 8)"
  proof -
    have "k div 8 < n" using assms(2) by (simp add: div_less_iff_less_mult mult.commute)
    then show ?thesis using assms(1) by simp
  qed
  finally show ?thesis .
qed

text \<open>A setter changes exactly the bits its field owns.\<close>

lemma bit_view_set:
  fixes v :: "'u::len word"
  assumes u: "LENGTH('u) = 8 * n" "n \<le> 8" and len: "lo + n \<le> length bs"
    and set: "view_set lo (lo + n) f v bs = Some bs'"
    and i: "i < length bs" and b: "b < 8"
  shows "bit (bs' ! i) b =
    (if owns lo n f i b then bit (push_bit (fs_shift f) v) (8 * (lo + n - 1 - i) + b)
     else bit (bs ! i) b)"
proof (cases "lo \<le> i \<and> i < lo + n")
  case False
  have bs': "bs' = take lo bs @
      be_bytes n (unat (merge_spec f (word_of_nat (be_nat (take n (drop lo bs)))) v)) @
      drop (lo + n) bs"
    using set view_set_eq [OF u(1) len] by simp
  from False have "bs' ! i = bs ! i"
    using len i by (auto simp: bs' nth_append min_def)
  with False show ?thesis by (auto simp: owns_def)
next
  case True
  let ?p = "word_of_nat (be_nat (take n (drop lo bs))) :: 'u word"
  let ?k = "8 * (lo + n - 1 - i) + b"
  have k: "?k < 8 * n" using True b by linarith
  have kd: "?k div 8 = lo + n - 1 - i" "?k mod 8 = b" using b by simp_all
  have bs': "bs' = take lo bs @ be_bytes n (unat (merge_spec f ?p v)) @ drop (lo + n) bs"
    using set view_set_eq [OF u(1) len] by simp
  have "bs' ! i = be_bytes n (unat (merge_spec f ?p v)) ! (i - lo)"
  proof -
    have "i - lo < n" using True by linarith
    then show ?thesis using True len by (simp add: bs' nth_append min_def)
  qed
  moreover have "i - lo < n" using True by linarith
  ultimately have "bit (bs' ! i) b = bit (merge_spec f ?p v) (8 * (n - 1 - (i - lo)) + b)"
    using b by (simp only: bit_be_bytes bit_unsigned_iff) simp
  also have "8 * (n - 1 - (i - lo)) + b = ?k" using True by simp
  finally have 1: "bit (bs' ! i) b = bit (merge_spec f ?p v) ?k" .
  have "bit ?p ?k = bit (bs ! i) b"
    using bit_region [OF len k u(1)] True b by (simp add: kd)
  then show ?thesis
    using u k True b
    by (auto simp: 1 merge_spec_uniform owns_def bit_or_iff bit_and_iff bit_not_iff bit_ucast_iff)
qed

lemma view_set_length:
  assumes "LENGTH('u::len) = 8 * n" and "lo + n \<le> length bs"
    and "view_set lo (lo + n) f (v :: 'u word) bs = Some bs'"
  shows "length bs' = length bs"
  using assms view_set_eq [OF assms(1,2), of f v] by auto

text \<open>A getter reads exactly the bits its field owns.\<close>

lemma view_raw_local:
  assumes u: "LENGTH('u::len) = 8 * n" "n \<le> 8" and len: "lo + n \<le> length bs"
    and eq: "length bs' = length bs"
    and same: "\<And>i b. i < length bs \<Longrightarrow> owns lo n f i b \<Longrightarrow> bit (bs' ! i) b = bit (bs ! i) b"
  shows "view_raw lo (lo + n) f bs' = (view_raw lo (lo + n) f bs :: 'u word option)"
proof -
  have len': "lo + n \<le> length bs'" using len eq by simp
  let ?m = "ucast (fs_mask f) :: 'u word"
  have "(word_of_nat (be_nat (take n (drop lo bs'))) :: 'u word) AND ?m
      = word_of_nat (be_nat (take n (drop lo bs))) AND ?m"
  proof (rule bit_word_eqI)
    fix k assume k: "k < LENGTH('u)"
    then have d: "k div 8 < n" using u by (simp add: div_less_iff_less_mult mult.commute)
    let ?i = "lo + n - 1 - k div 8"
    have i: "8 * (lo + n - 1 - ?i) + k mod 8 = k"
      using d mult_div_mod_eq [of 8 k] by simp
    have "bit (fs_mask f) k \<Longrightarrow> owns lo n f ?i (k mod 8)"
      unfolding owns_def i using d by simp
    then have "bit (fs_mask f) k \<Longrightarrow> bit (bs' ! ?i) (k mod 8) = bit (bs ! ?i) (k mod 8)"
      using same [of ?i "k mod 8"] len d by simp
    then show "bit ((word_of_nat (be_nat (take n (drop lo bs'))) :: 'u word) AND ?m) k
        = bit (word_of_nat (be_nat (take n (drop lo bs))) AND ?m) k"
      using bit_region [OF len _ u(1), of k] bit_region [OF len' _ u(1), of k] k u
      by (auto simp: bit_and_iff bit_ucast_iff)
  qed
  then show ?thesis
    using u by (simp add: view_raw_eq [OF u(1) len] view_raw_eq [OF u(1) len'] apply_spec_uniform)
qed

text \<open>The same bits as a list, so that the layout of a header is checked by evaluation.\<close>

definition own_bits :: "nat \<times> nat \<times> fspec \<Rightarrow> (nat \<times> nat) list" where
  "own_bits fld = (case fld of (lo, n, f) \<Rightarrow>
     concat (map (\<lambda>i. map (Pair i)
       (filter (\<lambda>b. bit (fs_mask f) (8 * (lo + n - 1 - i) + b)) [0..<8])) [lo..<lo + n]))"

definition disjoint_bits :: "nat \<times> nat \<times> fspec \<Rightarrow> nat \<times> nat \<times> fspec \<Rightarrow> bool" where
  "disjoint_bits x y = list_all (\<lambda>p. p \<notin> set (own_bits y)) (own_bits x)"

fun disjoint_layout :: "(nat \<times> nat \<times> fspec) list \<Rightarrow> bool" where
  "disjoint_layout [] = True"
| "disjoint_layout (x # xs) = (list_all (disjoint_bits x) xs \<and> disjoint_layout xs)"

lemma owns_own_bits: "owns lo n f i b \<longleftrightarrow> (i, b) \<in> set (own_bits (lo, n, f))"
  by (auto simp: owns_def own_bits_def)

lemma disjoint_bits_owns:
  "disjoint_bits (lo, n, f) (lo', m, g) \<Longrightarrow> \<not> (owns lo n f i b \<and> owns lo' m g i b)"
  by (auto simp: owns_own_bits disjoint_bits_def list_all_iff)

lemma disjoint_bits_sym: "disjoint_bits x y = disjoint_bits y x"
  by (auto simp: disjoint_bits_def list_all_iff)

lemma disjoint_layout_nth:
  "disjoint_layout xs \<Longrightarrow> i < length xs \<Longrightarrow> j < length xs \<Longrightarrow> i \<noteq> j
    \<Longrightarrow> disjoint_bits (xs ! i) (xs ! j)"
proof (induction xs arbitrary: i j)
  case (Cons x xs)
  then show ?case
    by (cases i; cases j) (auto simp: list_all_length disjoint_bits_sym)
qed simp

section \<open>Properties\<close>

text \<open>C30: a value written through an accessor reads back cut to the field's width, for every mask and
  shift and every integer underlay of up to 64 bits, and the write keeps the length of the header.\<close>

theorem field_set_get:
  fixes v :: "'u::len word"
  assumes "LENGTH('u) = 8 * n" and "n \<le> 8" and "lo + n \<le> length bs"
  shows "\<exists>bs'. view_set lo (lo + n) f v bs = Some bs' \<and> length bs' = length bs \<and>
    view_raw lo (lo + n) f bs' = Some (v AND drop_bit (fs_shift f) (ucast (fs_mask f)))"
proof -
  let ?w = "merge_spec f (word_of_nat (be_nat (take n (drop lo bs)))) v"
  let ?bs = "take lo bs @ be_bytes n (unat ?w) @ drop (lo + n) bs"
  have w: "word_of_nat (be_nat (be_bytes n (unat ?w))) = ?w"
  proof -
    have "unat ?w < 2 ^ LENGTH('u)" by (rule unsigned_less)
    then have "be_nat (be_bytes n (unat ?w)) = unat ?w"
      using assms(1) by (simp add: be_nat_be_bytes power_mult)
    then show ?thesis by simp
  qed
  have len: "lo + n \<le> length ?bs" "length ?bs = length bs" using assms by simp_all
  have "take n (drop lo ?bs) = be_bytes n (unat ?w)" using assms by simp
  then have "view_raw lo (lo + n) f ?bs = Some (v AND drop_bit (fs_shift f) (ucast (fs_mask f)))"
    using view_raw_eq [OF assms(1) len(1), of f] apply_merge [where 'u = 'u, of f _ v] w assms(1,2)
    by simp
  with view_set_eq [OF assms(1,3), of f v] len show ?thesis by auto
qed

theorem field_set_get_witness:
  "\<exists>bs'. view_set 6 (6 + 2) (FSpec 0x1FFF 0) (0xFFFF :: 16 word) (replicate 20 0xE0) = Some bs' \<and>
    length bs' = length (replicate 20 (0xE0 :: byte)) \<and>
    view_raw 6 (6 + 2) (FSpec 0x1FFF 0) bs'
      = Some ((0xFFFF :: 16 word) AND drop_bit (fs_shift (FSpec 0x1FFF 0)) (ucast (fs_mask (FSpec 0x1FFF 0))))"
  by (rule field_set_get) simp_all

text \<open>C31: fields do not interfere.  When two fields, of any underlay widths and ranges, own no bit in
  common, writing one leaves the value of the other.\<close>

theorem field_set_frame:
  fixes v :: "'u::len word"
  assumes "LENGTH('u) = 8 * n" and "n \<le> 8" and "lo + n \<le> length bs"
    and "LENGTH('v::len) = 8 * m" and "m \<le> 8" and "lo' + m \<le> length bs"
    and "disjoint_bits (lo, n, f) (lo', m, g)"
    and "view_set lo (lo + n) f v bs = Some bs'"
  shows "view_raw lo' (lo' + m) g bs' = (view_raw lo' (lo' + m) g bs :: 'v word option)"
proof (rule view_raw_local [OF assms(4-6)])
  show "length bs' = length bs" using view_set_length [OF assms(1,3,8)] .
next
  fix i b assume "i < length bs" and own: "owns lo' m g i b"
  moreover from own have "b < 8" "\<not> owns lo n f i b" using disjoint_bits_owns [OF assms(7)] by (auto simp: owns_def)
  ultimately show "bit (bs' ! i) b = bit (bs ! i) b"
    using bit_view_set [OF assms(1-3,8)] by simp
qed

theorem field_set_frame_witness:
  "\<exists>bs'. view_set 6 (6 + 1) (FSpec 0xE0 5) (1 :: 8 word) (replicate 20 0xFF) = Some bs' \<and>
    view_raw 6 (6 + 2) (FSpec 0x1FFF 0) bs'
      = (view_raw 6 (6 + 2) (FSpec 0x1FFF 0) (replicate 20 0xFF) :: 16 word option)"
proof -
  have disjoint: "disjoint_bits (6, 1, FSpec 0xE0 5) (6, 2, FSpec 0x1FFF 0)" by code_simp
  obtain bs' where bs': "view_set 6 (6 + 1) (FSpec 0xE0 5) (1 :: 8 word) (replicate 20 0xFF) = Some bs'"
    using view_set_eq [where 'u = 8, of 1 6 "replicate 20 0xFF"] by auto
  show ?thesis
    by (rule exI [of _ bs'], rule conjI [OF bs'], rule field_set_frame [OF _ _ _ _ _ _ disjoint bs'])
      simp_all
qed

end
