(* ===== verification/Capture.thy ===== *)
theory Capture
  imports Prelude "HOL-Library.Sublist"
begin

text \<open>
  The vocabulary of the capture readers and writers: \<^verbatim>\<open>src/capture.rs\<close>, \<^verbatim>\<open>endian.rs\<close>,
  \<^verbatim>\<open>link_type.rs\<close>, \<^verbatim>\<open>interface.rs\<close> and \<^verbatim>\<open>packet.rs\<close> under \<^verbatim>\<open>src/capture/\<close>.  An operation
  ends with a value, a \<^verbatim>\<open>CaptureError\<close>, or a Rust panic (an index or a slice out of range).
\<close>

section \<open>Link types\<close>

datatype link_type =
    LtNull | LtEthernet | LtExpEthernet | LtAx25 | LtTokenRing | LtArcnet | LtSlip | LtPpp
  | LtFddi | LtRaw | LtIeee80211 | LtLinuxSll | LtPrismHeader | LtAironetHeader
  | LtIeee80211Radiotap | LtIpv4 | LtIpv6 | LtLinuxSll2 | LtUnknown "16 word"

definition link_type_codes :: "(16 word \<times> link_type) list" where
  "link_type_codes =
    [(0, LtNull), (1, LtEthernet), (2, LtExpEthernet), (3, LtAx25), (6, LtTokenRing),
     (7, LtArcnet), (8, LtSlip), (9, LtPpp), (10, LtFddi), (101, LtRaw), (105, LtIeee80211),
     (113, LtLinuxSll), (119, LtPrismHeader), (120, LtAironetHeader),
     (127, LtIeee80211Radiotap), (228, LtIpv4), (229, LtIpv6), (276, LtLinuxSll2)]"

definition link_type_from :: "16 word \<Rightarrow> link_type" where
  "link_type_from v = (case map_of link_type_codes v of Some t \<Rightarrow> t | None \<Rightarrow> LtUnknown v)"

definition link_type_into :: "link_type \<Rightarrow> 16 word" where
  "link_type_into t =
    (case t of LtUnknown v \<Rightarrow> v
     | _ \<Rightarrow> (case map_of (map prod.swap link_type_codes) t of Some v \<Rightarrow> v | None \<Rightarrow> 0))"

lemma link_type_into_from [simp]: "link_type_into (link_type_from v) = v"
  by (simp add: link_type_from_def link_type_into_def link_type_codes_def)

section \<open>Results\<close>

datatype capture_error =
    IoUnexpectedEof
  | FromUtf8
  | TryFromSlice
  | InvalidMagicNumber "32 word"
  | TruncatedCapture string
  | MissingPcapngInterfaceDescriptionBlock
  | InvalidPcapngPacketInterfaceId "32 word"
  | InvalidPcapngBlockTotalLength "32 word"
  | PcapngBlockTotalLengthMismatch string "32 word" "32 word"

datatype 'a cresult = COk 'a | CErr capture_error | CPanic

definition c_bind :: "'a cresult \<Rightarrow> ('a \<Rightarrow> 'b cresult) \<Rightarrow> 'b cresult" where
  "c_bind r k = (case r of COk x \<Rightarrow> k x | CErr e \<Rightarrow> CErr e | CPanic \<Rightarrow> CPanic)"

definition or_panic :: "'a option \<Rightarrow> 'a cresult" where
  "or_panic x = (case x of Some v \<Rightarrow> COk v | None \<Rightarrow> CPanic)"

lemma c_bind_simps [simp]:
  "c_bind (COk x) k = k x" "c_bind (CErr e) k = CErr e" "c_bind CPanic k = CPanic"
  by (simp_all add: c_bind_def)

lemma or_panic_simps [simp]: "or_panic (Some v) = COk v" "or_panic None = CPanic"
  by (simp_all add: or_panic_def)

section \<open>Byte order\<close>

datatype endian = Big | Little

definition is_big :: "endian \<Rightarrow> bool" where
  "is_big e = (e = Big)"

definition read_int :: "endian \<Rightarrow> nat \<Rightarrow> bytes \<Rightarrow> nat option" where
  "read_int e n bs =
    (if n \<le> length bs
     then Some (case e of Big \<Rightarrow> be_nat (take n bs) | Little \<Rightarrow> le_nat (take n bs))
     else None)"

definition read_u16 :: "endian \<Rightarrow> bytes \<Rightarrow> 16 word option" where
  "read_u16 e bs = map_option word_of_nat (read_int e 2 bs)"

definition read_u32 :: "endian \<Rightarrow> bytes \<Rightarrow> 32 word option" where
  "read_u32 e bs = map_option word_of_nat (read_int e 4 bs)"

definition read_u64 :: "endian \<Rightarrow> bytes \<Rightarrow> 64 word option" where
  "read_u64 e bs = map_option word_of_nat (read_int e 8 bs)"

definition read_i32 :: "endian \<Rightarrow> bytes \<Rightarrow> int option" where
  "read_i32 e bs = map_option sint (read_u32 e bs)"

definition read_i64 :: "endian \<Rightarrow> bytes \<Rightarrow> int option" where
  "read_i64 e bs = map_option sint (read_u64 e bs)"

text \<open>The \<^verbatim>\<open>to_be_bytes\<close> and \<^verbatim>\<open>to_le_bytes\<close> of the writers.\<close>

definition write_int :: "endian \<Rightarrow> nat \<Rightarrow> nat \<Rightarrow> bytes" where
  "write_int e n v = (case e of Big \<Rightarrow> be_bytes n v | Little \<Rightarrow> le_bytes n v)"

lemma write_int_length [simp]: "length (write_int e n v) = n"
  by (cases e) (simp_all add: write_int_def)

lemma read_write_int: "v < 256 ^ n \<Longrightarrow> read_int e n (write_int e n v @ rest) = Some v"
  by (cases e) (simp_all add: read_int_def write_int_def be_nat_be_bytes le_nat_le_bytes)

lemma read_write_u16 [simp]: "read_u16 e (write_int e 2 (unat v) @ rest) = Some v"
  using unsigned_less [of v, where 'a = nat] by (simp add: read_u16_def read_write_int)

lemma read_write_u32 [simp]: "read_u32 e (write_int e 4 (unat v) @ rest) = Some v"
  using unsigned_less [of v, where 'a = nat] by (simp add: read_u32_def read_write_int)

lemma read_int_some: "n \<le> length bs \<Longrightarrow> \<exists>v. read_int e n bs = Some v \<and> v < 256 ^ n"
  using be_nat_bound [of "take n bs"] le_nat_bound [of "take n bs"]
  by (cases e) (simp_all add: read_int_def min_def split: if_splits)

lemma read_some [simp]:
  "2 \<le> length bs \<Longrightarrow> \<exists>v. read_u16 e bs = Some v"
  "4 \<le> length bs \<Longrightarrow> \<exists>v. read_u32 e bs = Some v"
  "8 \<le> length bs \<Longrightarrow> \<exists>v. read_u64 e bs = Some v"
  by (simp_all add: read_u16_def read_u32_def read_u64_def read_int_def)

lemma read_take:
  "n \<le> m \<Longrightarrow> read_int e n (take m bs) = (if n \<le> length bs then read_int e n bs else None)"
  by (auto simp: read_int_def min_def split: endian.splits)

section \<open>Interfaces and packet records\<close>

datatype resolution = PowerOfTwo byte | PowerOfTen byte

record capture_interface =
  if_link_type :: link_type
  if_snap_len :: "32 word"
  if_resolution :: resolution

record packet_record =
  pr_timestamp :: int
  pr_original_length :: "32 word"
  pr_data :: bytes
  pr_link_type :: link_type

definition captured_length :: "packet_record \<Rightarrow> nat" where
  "captured_length r = length (pr_data r)"

definition is_truncated :: "packet_record \<Rightarrow> bool" where
  "is_truncated r = (captured_length r < unat (pr_original_length r))"

text \<open>\<^verbatim>\<open>Ord\<close> compares the timestamps only; \<^verbatim>\<open>PartialEq\<close> is derived and compares every field.\<close>

datatype ordering = Less | Equal | Greater

definition packet_record_cmp :: "packet_record \<Rightarrow> packet_record \<Rightarrow> ordering" where
  "packet_record_cmp a b =
    (if pr_timestamp a < pr_timestamp b then Less
     else if pr_timestamp a = pr_timestamp b then Equal else Greater)"

text \<open>A record read from a slice: where its bytes lie, the bytes, and the packet in them.\<close>

record located_packet_record =
  loc_offset :: nat
  loc_raw :: bytes
  loc_packet :: packet_record

section \<open>Draining a reader\<close>

text \<open>
  A client's loop over a \<^verbatim>\<open>CaptureReader\<close>: the items up to the end or the first error, \<^verbatim>\<open>None\<close>
  when the fuel ends first.
\<close>

fun drain :: "nat \<Rightarrow> ('r \<Rightarrow> 'r \<times> 'a option cresult) \<Rightarrow> 'r \<Rightarrow> 'a list \<times> unit cresult option" where
  "drain 0 nxt r = ([], None)"
| "drain (Suc n) nxt r =
    (case nxt r of
       (r', COk (Some x)) \<Rightarrow> (case drain n nxt r' of (xs, res) \<Rightarrow> (x # xs, res))
     | (_, COk None) \<Rightarrow> ([], Some (COk ()))
     | (_, CErr e) \<Rightarrow> ([], Some (CErr e))
     | (_, CPanic) \<Rightarrow> ([], Some CPanic))"

text \<open>Records that lie in order and apart in the data, each with the bytes at its offset.\<close>

fun located :: "bytes \<Rightarrow> nat \<Rightarrow> located_packet_record list \<Rightarrow> bool" where
  "located d p [] = (p \<le> length d)"
| "located d p (x # xs) =
    (p \<le> loc_offset x \<and> loc_raw x \<noteq> [] \<and>
     loc_raw x = take (length (loc_raw x)) (drop (loc_offset x) d) \<and>
     sublist (pr_data (loc_packet x)) (loc_raw x) \<and>
     located d (loc_offset x + length (loc_raw x)) xs)"

locale located_reader =
  fixes nxt :: "'r \<Rightarrow> 'r \<times> located_packet_record option cresult"
    and data :: "'r \<Rightarrow> bytes"
    and pos :: "'r \<Rightarrow> nat"
  assumes advance: "pos r \<le> length (data r) \<Longrightarrow> nxt r = (r', COk (Some x)) \<Longrightarrow>
    data r' = data r \<and> pos r \<le> loc_offset x \<and> loc_raw x \<noteq> [] \<and>
    pos r' = loc_offset x + length (loc_raw x) \<and> pos r' \<le> length (data r) \<and>
    loc_raw x = take (length (loc_raw x)) (drop (loc_offset x) (data r)) \<and>
    sublist (pr_data (loc_packet x)) (loc_raw x)"
begin

lemma drain_located:
  "pos r \<le> length (data r) \<Longrightarrow> located (data r) (pos r) (fst (drain n nxt r))"
proof (induction n arbitrary: r)
  case (Suc n)
  show ?case
  proof (cases "\<exists>r' x. nxt r = (r', COk (Some x))")
    case True
    then obtain r' x where n: "nxt r = (r', COk (Some x))" by blast
    note a = advance [OF Suc.prems n]
    have "pos r' \<le> length (data r')" using a by metis
    from Suc.IH [OF this]
    have "located (data r) (loc_offset x + length (loc_raw x)) (fst (drain n nxt r'))"
      using a by metis
    then show ?thesis using a by (cases "drain n nxt r'") (auto simp: n)
  next
    case False
    then show ?thesis
      using Suc.prems by (auto split: prod.splits cresult.splits option.splits)
  qed
qed simp

lemma drain_ends:
  "pos r \<le> length (data r) \<Longrightarrow> length (data r) - pos r < n \<Longrightarrow> snd (drain n nxt r) \<noteq> None"
proof (induction n arbitrary: r)
  case (Suc n)
  show ?case
  proof (cases "\<exists>r' x. nxt r = (r', COk (Some x))")
    case True
    then obtain r' x where n: "nxt r = (r', COk (Some x))" by blast
    note a = advance [OF Suc.prems(1) n]
    have "0 < length (loc_raw x)" using a by blast
    moreover have "pos r' \<le> length (data r')" "length (data r') = length (data r)" "pos r' = loc_offset x + length (loc_raw x)"
      "pos r \<le> loc_offset x"
      using a by metis+
    ultimately have "snd (drain n nxt r') \<noteq> None"
      using Suc.prems by (intro Suc.IH; linarith)
    then show ?thesis by (cases "drain n nxt r'") (auto simp: n)
  next
    case False
    then show ?thesis by (auto split: prod.splits cresult.splits option.splits)
  qed
qed simp

end

end
