(* ===== verification/Parse_Context.thy ===== *)
theory Parse_Context
  imports Field Capture
begin

text \<open>
  The layer table and the parser state of \<^verbatim>\<open>src/packet.rs\<close>: \<^verbatim>\<open>Layer\<close>,
  \<^verbatim>\<open>ParseError\<close>, \<^verbatim>\<open>ParseOptions\<close>, \<^verbatim>\<open>ParseContext\<close> with its operations, and the
  contract \<^verbatim>\<open>parse_ok\<close> every parser keeps.  A parser takes the context and an offset and
  returns the context and an outcome; a Rust panic and an exhausted recursion are outcomes of
  their own, so that their absence is a theorem.
\<close>

datatype proto =
    Eth | Vlan | Llc | Sll | Mpls | Arp | Ipv4 | Ipv6
  | Ipv6Hopopt | Ipv6DestOpts | Ipv6Route | Ipv6Frag | Ipv6Mobility | Ipv6Hip | Ipv6Shim6
  | Ah | Esp | Gre | Icmp | Icmpv6 | Igmp | Tcp | Udp | Sctp
  | Dns | Dhcp | Ntp | Vxlan | Tls | Raw | Custom nat

datatype parse_error =
    Truncated proto nat nat nat
  | Malformed proto string string
  | UnsupportedLinkType link_type

definition truncated :: "proto \<Rightarrow> nat \<Rightarrow> nat \<Rightarrow> nat \<Rightarrow> parse_error" where
  "truncated p off needed bytes_len = Truncated p off needed (bytes_len - off)"

record layer =
  layer_protocol :: proto
  layer_offset :: nat
  layer_len :: nat

definition layer_range :: "layer \<Rightarrow> nat \<times> nat" where
  "layer_range l = (layer_offset l, layer_offset l + layer_len l)"

definition layer_bytes :: "layer \<Rightarrow> bytes \<Rightarrow> bytes option" where
  "layer_bytes l bs = slice bs (fst (layer_range l)) (snd (layer_range l))"

definition layer_is :: "layer \<Rightarrow> proto \<Rightarrow> bool" where
  "layer_is l p = (layer_protocol l = p)"

record parse_options =
  opt_panic :: bool
  opt_max_depth :: "nat option"
  opt_fallback :: bool

definition default_options :: parse_options where
  "default_options = \<lparr>opt_panic = False, opt_max_depth = None, opt_fallback = True\<rparr>"

record parse_context =
  ctx_bytes :: bytes
  ctx_declared_end :: "nat option"
  ctx_options :: parse_options
  ctx_layers :: "layer list"

datatype outcome = Done | Failed parse_error | Panicked | OutOfFuel

type_synonym parse_result = "parse_context \<times> outcome"
type_synonym parse_fn = "parse_context \<Rightarrow> nat \<Rightarrow> parse_result"
type_synonym parsers = "proto \<Rightarrow> parse_fn"

text \<open>
  \<^verbatim>\<open>CustomProtocolRegistry\<close> maps a parent protocol and a code to the parse function of the
  registered child; the model keeps the child's marker, whose parser \<^verbatim>\<open>parsers\<close> gives.
\<close>

type_synonym registry = "proto \<times> nat \<Rightarrow> proto option"

definition new_registry :: registry where
  "new_registry = (\<lambda>_. None)"

definition register :: "registry \<Rightarrow> proto \<Rightarrow> nat \<Rightarrow> proto \<Rightarrow> registry" where
  "register reg parent code child = reg((parent, code) \<mapsto> child)"

section \<open>Operations of the context\<close>

definition new_context :: "bytes \<Rightarrow> parse_options \<Rightarrow> layer list \<Rightarrow> parse_context" where
  "new_context bs opts ls =
    \<lparr>ctx_bytes = bs, ctx_declared_end = None, ctx_options = opts, ctx_layers = ls\<rparr>"

definition ctx_end :: "parse_context \<Rightarrow> nat" where
  "ctx_end c =
    min (case ctx_declared_end c of None \<Rightarrow> length (ctx_bytes c) | Some e \<Rightarrow> e) (length (ctx_bytes c))"

definition ctx_rest :: "parse_context \<Rightarrow> nat \<Rightarrow> bytes" where
  "ctx_rest c off =
    (let start = min off (ctx_end c) in take (ctx_end c - start) (drop start (ctx_bytes c)))"

definition can_push_layer :: "parse_context \<Rightarrow> bool" where
  "can_push_layer c =
    (case opt_max_depth (ctx_options c) of None \<Rightarrow> True | Some d \<Rightarrow> length (ctx_layers c) < d)"

definition append_layer :: "parse_context \<Rightarrow> proto \<Rightarrow> nat \<Rightarrow> nat \<Rightarrow> parse_context" where
  "append_layer c p off n =
    c\<lparr>ctx_layers := ctx_layers c @ [\<lparr>layer_protocol = p, layer_offset = off, layer_len = n\<rparr>]\<rparr>"

definition push_layer :: "parse_context \<Rightarrow> proto \<Rightarrow> nat \<Rightarrow> nat \<Rightarrow> parse_context" where
  "push_layer c p off n = (if can_push_layer c then append_layer c p off n else c)"

definition parse_raw :: "parse_context \<Rightarrow> nat \<Rightarrow> parse_context" where
  "parse_raw c off =
    (case checked_sub (ctx_end c) off of
       None \<Rightarrow> c
     | Some n \<Rightarrow>
         if 0 < n
         then (if ctx_layers c \<noteq> [] \<and> layer_is (last (ctx_layers c)) Raw
                  \<and> layer_offset (last (ctx_layers c)) = off
                  \<and> layer_len (last (ctx_layers c)) = n
               then c else append_layer c Raw off n)
         else c)"

definition require :: "parse_context \<Rightarrow> proto \<Rightarrow> nat \<Rightarrow> nat \<Rightarrow> parse_error + bytes" where
  "require c p off n =
    (case checked_add off n of
       None \<Rightarrow> Inl (truncated p off n (ctx_end c))
     | Some e \<Rightarrow>
         if e > ctx_end c then Inl (truncated p off n (ctx_end c))
         else (case slice (ctx_bytes c) off e of
                 None \<Rightarrow> Inl (truncated p off n (ctx_end c))
               | Some bs \<Rightarrow> Inr bs))"

text \<open>The question mark on \<^verbatim>\<open>require\<close>, the read of a field, and a sequence of two steps.\<close>

definition requiring ::
    "parse_context \<Rightarrow> proto \<Rightarrow> nat \<Rightarrow> nat \<Rightarrow> (bytes \<Rightarrow> parse_result) \<Rightarrow> parse_result" where
  "requiring c p off n k =
    (case require c p off n of Inl e \<Rightarrow> (c, Failed e) | Inr bs \<Rightarrow> k bs)"

definition reading :: "parse_context \<Rightarrow> 'a option \<Rightarrow> ('a \<Rightarrow> parse_result) \<Rightarrow> parse_result" where
  "reading c field k = (case field of None \<Rightarrow> (c, Panicked) | Some v \<Rightarrow> k v)"

definition and_then :: "parse_result \<Rightarrow> (parse_context \<Rightarrow> parse_context) \<Rightarrow> parse_result" where
  "and_then r k = (case r of (c, Done) \<Rightarrow> (k c, Done) | (c, out) \<Rightarrow> (c, out))"

definition parse_at :: "parsers \<Rightarrow> proto \<Rightarrow> parse_fn" where
  "parse_at run p c off = (if can_push_layer c then run p c off else (c, Done))"

definition parse_child_with :: "parse_fn \<Rightarrow> parse_fn" where
  "parse_child_with f c off =
    (if \<not> can_push_layer c then (parse_raw c off, Done)
     else let checkpoint = length (ctx_layers c) in
       case f c off of
         (c', Failed e) \<Rightarrow>
           if opt_fallback (ctx_options c)
           then (parse_raw (c'\<lparr>ctx_layers := take checkpoint (ctx_layers c')\<rparr>) off, Done)
           else (c', Failed e)
       | r \<Rightarrow> r)"

definition parse_child :: "parsers \<Rightarrow> proto \<Rightarrow> parse_fn" where
  "parse_child run p = parse_child_with (run p)"

definition parse_registered :: "registry \<Rightarrow> parsers \<Rightarrow> proto \<Rightarrow> nat \<Rightarrow> parse_fn" where
  "parse_registered reg run parent code c off =
    (case reg (parent, code) of
       Some child \<Rightarrow> parse_child_with (run child) c off
     | None \<Rightarrow> (parse_raw c off, Done))"

section \<open>The contract of a parser\<close>

text \<open>The bytes a recorded layer of a protocol has at least: its fixed header, or what is left of
  an extension header that the capture cuts.\<close>

fun header_min :: "proto \<Rightarrow> nat" where
  "header_min Eth = 14" | "header_min Vlan = 4" | "header_min Llc = 8" | "header_min Sll = 16"
| "header_min Mpls = 4" | "header_min Arp = 8" | "header_min Ipv4 = 20" | "header_min Ipv6 = 40"
| "header_min Ipv6Hopopt = 2" | "header_min Ipv6DestOpts = 2" | "header_min Ipv6Route = 2"
| "header_min Ipv6Frag = 8" | "header_min Ipv6Mobility = 2" | "header_min Ipv6Hip = 2"
| "header_min Ipv6Shim6 = 2" | "header_min Ah = 12" | "header_min Esp = 8" | "header_min Gre = 4"
| "header_min Icmp = 4" | "header_min Icmpv6 = 4" | "header_min Igmp = 8" | "header_min Tcp = 20"
| "header_min Udp = 8" | "header_min Sctp = 12" | "header_min Dns = 12" | "header_min Dhcp = 240"
| "header_min Ntp = 48" | "header_min Vxlan = 8" | "header_min Tls = 5" | "header_min Raw = 1"
| "header_min (Custom _) = 1"

lemma header_min_pos [simp]: "0 < header_min p"
  by (cases p) simp_all

text \<open>
  \<^verbatim>\<open>laid_out lo hi ls\<close>: the layers hold at least their headers, in order, disjoint, and inside
  \<^verbatim>\<open>lo..hi\<close>.
\<close>

fun laid_out :: "nat \<Rightarrow> nat \<Rightarrow> layer list \<Rightarrow> bool" where
  "laid_out lo hi [] = True"
| "laid_out lo hi (l # ls) =
    (lo \<le> layer_offset l \<and> header_min (layer_protocol l) \<le> layer_len l \<and> layer_offset l + layer_len l \<le> hi \<and>
     laid_out (layer_offset l + layer_len l) hi ls)"

text \<open>Where an IP header says its packet ends, and that the structured layers behind the header stay
  inside of it.\<close>

definition ip_end :: "bytes \<Rightarrow> layer \<Rightarrow> nat option" where
  "ip_end bs l =
    (let len = (\<lambda>i. be_nat (take 2 (drop (layer_offset l + i) bs))) in
     if layer_is l Ipv4 \<and> len 2 \<noteq> 0 then Some (layer_offset l + len 2)
     else if layer_is l Ipv6 \<and> len 4 \<noteq> 0 then Some (layer_offset l + 40 + len 4)
     else None)"

definition stays_in :: "nat option \<Rightarrow> layer list \<Rightarrow> bool" where
  "stays_in e ls =
    (case e of None \<Rightarrow> True
     | Some e \<Rightarrow> \<forall>k \<in> set ls. layer_is k Raw \<or> layer_offset k + layer_len k \<le> e)"

fun within_ip :: "bytes \<Rightarrow> layer list \<Rightarrow> bool" where
  "within_ip bs [] = True"
| "within_ip bs (l # ls) = (stays_in (ip_end bs l) ls \<and> within_ip bs ls)"

lemma stays_in_simps [simp]: "stays_in None ls" "stays_in e []"
  by (simp_all add: stays_in_def split: option.split)

lemma stays_in_append [simp]: "stays_in e (xs @ ys) \<longleftrightarrow> stays_in e xs \<and> stays_in e ys"
  by (auto simp: stays_in_def split: option.splits)

lemma stays_in_raw: "layer_is l Raw \<Longrightarrow> stays_in e [l]"
  by (simp add: stays_in_def split: option.split)

lemma within_ip_append:
  "within_ip bs xs \<Longrightarrow> within_ip bs ys \<Longrightarrow> (\<And>l. l \<in> set xs \<Longrightarrow> stays_in (ip_end bs l) ys) \<Longrightarrow>
    within_ip bs (xs @ ys)"
  by (induction xs) simp_all

lemma ip_end_other [simp]:
  "layer_protocol l \<noteq> Ipv4 \<Longrightarrow> layer_protocol l \<noteq> Ipv6 \<Longrightarrow> ip_end bs l = None"
  by (simp add: ip_end_def layer_is_def)

text \<open>Structured layers respect \<^verbatim>\<open>max_depth\<close>; \<^verbatim>\<open>Raw\<close> may stand behind it.\<close>

definition depth_ok :: "nat option \<Rightarrow> layer list \<Rightarrow> layer list \<Rightarrow> bool" where
  "depth_ok d old new =
    (case d of None \<Rightarrow> True
     | Some m \<Rightarrow> \<forall>i < length new. \<not> layer_is (new ! i) Raw \<longrightarrow> length old + i < m)"

text \<open>
  What a parser started at \<^verbatim>\<open>off\<close> may do: it keeps the bytes, the options and the declared
  end, it only appends layers, these are laid out from \<^verbatim>\<open>off\<close> inside the current region and
  respect the depth limit, and it neither panics nor runs out of fuel.
\<close>

definition parse_ok :: "parse_context \<Rightarrow> nat \<Rightarrow> parse_result \<Rightarrow> bool" where
  "parse_ok c off r =
    (case r of (c', out) \<Rightarrow>
       out \<noteq> Panicked \<and> out \<noteq> OutOfFuel \<and>
       (\<exists>new. c' = c\<lparr>ctx_layers := ctx_layers c @ new\<rparr> \<and>
          laid_out off (ctx_end c) new \<and> within_ip (ctx_bytes c) new \<and>
          depth_ok (opt_max_depth (ctx_options c)) (ctx_layers c) new))"

named_theorems parse_ok_intros \<open>introduction rules that follow the text of a parser\<close>

lemma parse_okI:
  assumes "out \<noteq> Panicked" "out \<noteq> OutOfFuel" "c' = c\<lparr>ctx_layers := ctx_layers c @ new\<rparr>"
    and "laid_out off (ctx_end c) new" and "within_ip (ctx_bytes c) new"
    and "depth_ok (opt_max_depth (ctx_options c)) (ctx_layers c) new"
  shows "parse_ok c off (c', out)"
  using assms by (auto simp: parse_ok_def)

lemma parse_okE:
  assumes "parse_ok c off (c', out)"
  obtains new where "out \<noteq> Panicked" "out \<noteq> OutOfFuel"
    and "c' = c\<lparr>ctx_layers := ctx_layers c @ new\<rparr>"
    and "laid_out off (ctx_end c) new" and "within_ip (ctx_bytes c) new"
    and "depth_ok (opt_max_depth (ctx_options c)) (ctx_layers c) new"
  using assms by (auto simp: parse_ok_def)

lemma laid_out_append:
  "laid_out lo mid xs \<Longrightarrow> laid_out mid hi ys \<Longrightarrow> lo \<le> mid \<Longrightarrow> mid \<le> hi \<Longrightarrow> laid_out lo hi (xs @ ys)"
proof (induction xs arbitrary: lo)
  case Nil
  then show ?case by (cases ys) auto
qed auto

lemma laid_out_mono: "laid_out lo hi xs \<Longrightarrow> lo' \<le> lo \<Longrightarrow> hi \<le> hi' \<Longrightarrow> laid_out lo' hi' xs"
  by (induction xs arbitrary: lo lo') auto

lemma depth_ok_Nil [simp]: "depth_ok d old []"
  by (cases d) (simp_all add: depth_ok_def)

lemma depth_ok_append:
  "depth_ok d old xs \<Longrightarrow> depth_ok d (old @ xs) ys \<Longrightarrow> depth_ok d old (xs @ ys)"
  by (auto simp: depth_ok_def nth_append add.assoc split: option.splits)
    (metis add.assoc le_add_diff_inverse nat_add_left_cancel_less not_less)

lemma depth_ok_raw: "layer_is l Raw \<Longrightarrow> depth_ok d old [l]"
  by (auto simp: depth_ok_def split: option.splits)

lemma depth_ok_push:
  "can_push_layer c \<Longrightarrow> depth_ok (opt_max_depth (ctx_options c)) (ctx_layers c) [l]"
  by (auto simp: depth_ok_def can_push_layer_def split: option.splits)

lemma ctx_end_layers [simp]: "ctx_end (c\<lparr>ctx_layers := ls\<rparr>) = ctx_end c"
  by (simp add: ctx_end_def split: option.split)

lemma ctx_end_le: "ctx_end c \<le> length (ctx_bytes c)"
  by (simp add: ctx_end_def)

lemma ctx_rest_layers [simp]: "ctx_rest (c\<lparr>ctx_layers := ls\<rparr>) = ctx_rest c"
  by (simp add: ctx_rest_def fun_eq_iff)

lemma length_ctx_rest: "length (ctx_rest c off) = ctx_end c - off"
  using ctx_end_le [of c] by (auto simp: ctx_rest_def Let_def min_def)

lemma push_layer_bytes [simp]:
  "ctx_bytes (push_layer c p off n) = ctx_bytes c"
  "ctx_options (push_layer c p off n) = ctx_options c"
  "ctx_declared_end (push_layer c p off n) = ctx_declared_end c"
  "ctx_end (push_layer c p off n) = ctx_end c"
  "ctx_rest (push_layer c p off n) = ctx_rest c"
  by (simp_all add: push_layer_def append_layer_def)

lemma require_cases:
  "require c p off n = Inl e \<or>
   (\<exists>bs. require c p off n = Inr bs \<and> off + n \<le> ctx_end c \<and> off + n \<le> usize_max
     \<and> length bs = n \<and> bs = take n (drop off (ctx_bytes c)))" if "e = truncated p off n (ctx_end c)"
  using ctx_end_le [of c] that
  by (auto simp: require_def slice_def checked_add_def)

lemma requiring_ok [parse_ok_intros]:
  assumes "\<And>bs. off + n \<le> ctx_end c \<Longrightarrow> off + n \<le> usize_max \<Longrightarrow> length bs = n \<Longrightarrow>
    parse_ok c off' (k bs)"
  shows "parse_ok c off' (requiring c p off n k)"
  using require_cases [OF refl, of c p off n] assms
  by (auto simp: requiring_def intro!: parse_okI [where new = "[]"])

lemma requiring_bytes_ok:
  assumes "\<And>bs. off + n \<le> ctx_end c \<Longrightarrow> off + n \<le> usize_max \<Longrightarrow> length bs = n \<Longrightarrow>
    bs = take n (drop off (ctx_bytes c)) \<Longrightarrow> parse_ok c off' (k bs)"
  shows "parse_ok c off' (requiring c p off n k)"
  using require_cases [OF refl, of c p off n] assms
  by (auto simp: requiring_def intro!: parse_okI [where new = "[]"])

lemma failed_ok [parse_ok_intros]: "parse_ok c off (c, Failed e)"
  by (intro parse_okI [where new = "[]"]) simp_all

lemma done_ok [parse_ok_intros]: "parse_ok c off (c, Done)"
  by (intro parse_okI [where new = "[]"]) simp_all

lemma reading_ok [parse_ok_intros]:
  assumes "\<exists>v. field = Some v" and "\<And>v. field = Some v \<Longrightarrow> parse_ok c off (k v)"
  shows "parse_ok c off (reading c' field k)"
  using assms by (auto simp: reading_def)

lemma parse_raw_cases:
  "parse_raw c off = c \<or>
   (off < ctx_end c \<and> parse_raw c off = append_layer c Raw off (ctx_end c - off))"
  by (auto simp: parse_raw_def split: option.splits)

lemma raw_ok [parse_ok_intros]: "parse_ok c off (parse_raw c off, Done)"
  using parse_raw_cases [of c off]
proof
  assume "parse_raw c off = c"
  then show ?thesis by (simp add: done_ok)
next
  assume r: "off < ctx_end c \<and> parse_raw c off = append_layer c Raw off (ctx_end c - off)"
  let ?l = "\<lparr>layer_protocol = Raw, layer_offset = off, layer_len = ctx_end c - off\<rparr>"
  show ?thesis
    by (rule parse_okI [where new = "[?l]"])
      (use r in \<open>auto simp: append_layer_def layer_is_def intro!: depth_ok_raw\<close>)
qed

lemma parse_ok_mono:
  "parse_ok c off' r \<Longrightarrow> off \<le> off' \<Longrightarrow> parse_ok c off r"
  by (auto simp: parse_ok_def intro: laid_out_mono split: prod.splits)

lemma parse_ok_after:
  assumes "parse_ok (c\<lparr>ctx_layers := ctx_layers c @ xs\<rparr>) mid r"
    and "laid_out off mid xs" "off \<le> mid" "mid \<le> ctx_end c"
    and "depth_ok (opt_max_depth (ctx_options c)) (ctx_layers c) xs"
    and "within_ip (ctx_bytes c) xs"
    and "\<And>l new. l \<in> set xs \<Longrightarrow> ctx_layers (fst r) = ctx_layers c @ xs @ new \<Longrightarrow>
      stays_in (ip_end (ctx_bytes c) l) new"
  shows "parse_ok c off r"
proof -
  obtain c' out where r: "r = (c', out)" by (cases r)
  obtain new where new: "out \<noteq> Panicked" "out \<noteq> OutOfFuel"
    "c' = c\<lparr>ctx_layers := (ctx_layers c @ xs) @ new\<rparr>" "laid_out mid (ctx_end c) new"
    "within_ip (ctx_bytes c) new" "depth_ok (opt_max_depth (ctx_options c)) (ctx_layers c @ xs) new"
    using assms(1) unfolding r by (elim parse_okE) simp
  have "within_ip (ctx_bytes c) (xs @ new)"
    by (rule within_ip_append [OF assms(6) new(5)], rule assms(7), assumption) (simp add: r new(3))
  moreover have "laid_out off (ctx_end c) (xs @ new)"
    by (rule laid_out_append [OF assms(2) new(4) assms(3,4)])
  moreover have "depth_ok (opt_max_depth (ctx_options c)) (ctx_layers c) (xs @ new)"
    by (rule depth_ok_append [OF assms(5) new(6)])
  ultimately show ?thesis
    unfolding r using new(1-3) by (intro parse_okI [where new = "xs @ new"]) simp_all
qed

text \<open>A pushed header, with the rest of the parser behind it.\<close>

lemma push_ip_ok:
  assumes "parse_ok (push_layer c p off n) (off + n) r" and "header_min p \<le> n" and "off + n \<le> ctx_end c"
    and "\<And>new. ctx_layers (fst r) = ctx_layers (push_layer c p off n) @ new \<Longrightarrow>
      stays_in (ip_end (ctx_bytes c) \<lparr>layer_protocol = p, layer_offset = off, layer_len = n\<rparr>) new"
  shows "parse_ok c off r"
proof (cases "can_push_layer c")
  case True
  let ?l = "\<lparr>layer_protocol = p, layer_offset = off, layer_len = n\<rparr>"
  have pushed: "push_layer c p off n = c\<lparr>ctx_layers := ctx_layers c @ [?l]\<rparr>"
    using True by (simp add: push_layer_def append_layer_def)
  show ?thesis
  proof (rule parse_ok_after [where xs = "[?l]" and mid = "off + n"])
    show "parse_ok (c\<lparr>ctx_layers := ctx_layers c @ [?l]\<rparr>) (off + n) r" using assms(1) pushed by simp
    show "depth_ok (opt_max_depth (ctx_options c)) (ctx_layers c) [?l]" using True by (rule depth_ok_push)
    show "stays_in (ip_end (ctx_bytes c) l) new"
      if "l \<in> set [?l]" "ctx_layers (fst r) = ctx_layers c @ [?l] @ new" for l new
      using assms(4) [of new] that pushed by simp
  qed (use assms(2,3) in simp_all)
next
  case False
  with assms(1) show ?thesis by (auto simp: push_layer_def intro: parse_ok_mono)
qed

lemma push_ok:
  assumes "parse_ok (push_layer c p off n) (off + n) r" and "header_min p \<le> n" and "off + n \<le> ctx_end c"
    and "p \<noteq> Ipv4" and "p \<noteq> Ipv6"
  shows "parse_ok c off r"
  using assms by (intro push_ip_ok [of c p off n]) simp_all

lemma parse_child_with_ok:
  assumes "parse_ok c off (f c off)"
  shows "parse_ok c off (parse_child_with f c off)"
proof (cases "can_push_layer c")
  case True
  obtain c' out where r: "f c off = (c', out)" by (cases "f c off")
  obtain new where new: "out \<noteq> Panicked" "out \<noteq> OutOfFuel"
    "c' = c\<lparr>ctx_layers := ctx_layers c @ new\<rparr>"
    using assms unfolding r by (elim parse_okE)
  then have "c'\<lparr>ctx_layers := take (length (ctx_layers c)) (ctx_layers c')\<rparr> = c" by simp
  then show ?thesis
    using True assms by (cases out) (auto simp: parse_child_with_def Let_def r raw_ok)
qed (simp add: parse_child_with_def raw_ok)

text \<open>
  A header that bounds its payload (IPv4 by the total length, IPv6 by the payload length) narrows
  the declared end for its children and restores it; then the bytes behind the bound are raw.
\<close>

definition narrow_end :: "nat option \<Rightarrow> nat option \<Rightarrow> nat option" where
  "narrow_end outer inner =
    (case (outer, inner) of
       (Some o', Some i) \<Rightarrow> Some (min o' i)
     | (_, None) \<Rightarrow> outer
     | (None, _) \<Rightarrow> inner)"

definition parse_bounded ::
    "nat option \<Rightarrow> (parse_context \<Rightarrow> parse_result) \<Rightarrow> parse_context \<Rightarrow> parse_result" where
  "parse_bounded end' children c =
    (let outer = ctx_declared_end c in
     case children (c\<lparr>ctx_declared_end := narrow_end outer end'\<rparr>) of (c', result) \<Rightarrow>
     let c' = c'\<lparr>ctx_declared_end := outer\<rparr> in
     and_then (c', result)
       (\<lambda>c. case end' of Some e \<Rightarrow> parse_raw c e | None \<Rightarrow> c))"

lemma ctx_end_narrow:
  "ctx_end (c\<lparr>ctx_declared_end := narrow_end (ctx_declared_end c) end'\<rparr>) =
    (case end' of None \<Rightarrow> ctx_end c | Some e \<Rightarrow> min e (ctx_end c))"
  by (auto simp: ctx_end_def narrow_end_def split: option.splits)

lemma parse_bounded_ok [parse_ok_intros]:
  assumes child: "\<And>c'. c' = c\<lparr>ctx_declared_end := narrow_end (ctx_declared_end c) end'\<rparr> \<Longrightarrow>
      parse_ok c' off (children c')"
    and end': "\<And>e. end' = Some e \<Longrightarrow> off \<le> e"
  shows "parse_ok c off (parse_bounded end' children c)"
proof -
  let ?c = "c\<lparr>ctx_declared_end := narrow_end (ctx_declared_end c) end'\<rparr>"
  obtain c' out where r: "children ?c = (c', out)" by (cases "children ?c")
  obtain new where new: "out \<noteq> Panicked" "out \<noteq> OutOfFuel"
    "c' = ?c\<lparr>ctx_layers := ctx_layers c @ new\<rparr>" "laid_out off (ctx_end ?c) new"
    "within_ip (ctx_bytes c) new" "depth_ok (opt_max_depth (ctx_options c)) (ctx_layers c) new"
    using child [OF refl] unfolding r by (elim parse_okE) simp
  have c': "c'\<lparr>ctx_declared_end := ctx_declared_end c\<rparr> = c\<lparr>ctx_layers := ctx_layers c @ new\<rparr>"
    using new(3) by simp
  have le: "ctx_end ?c \<le> ctx_end c" by (auto simp: ctx_end_narrow split: option.splits)
  have here: "parse_ok c off (c\<lparr>ctx_layers := ctx_layers c @ new\<rparr>, out)"
    by (rule parse_okI) (use new le in \<open>auto intro: laid_out_mono\<close>)
  show ?thesis
  proof (cases "\<exists>e. out = Done \<and> end' = Some e")
    case True
    then obtain e where e: "out = Done" "end' = Some e" by blast
    let ?c' = "c\<lparr>ctx_layers := ctx_layers c @ new\<rparr>"
    have eq: "parse_bounded end' children c = (parse_raw ?c' e, Done)"
      using e c' r by (simp add: parse_bounded_def Let_def and_then_def)
    show ?thesis
    proof (cases "e \<le> ctx_end c")
      case True
      with e new(4) have "laid_out off e new" by (simp add: ctx_end_narrow)
      then show ?thesis
        unfolding eq
        by (rule parse_ok_after [OF raw_ok _ end' [OF e(2)] True new(6) new(5)])
          (use parse_raw_cases [of ?c' e] in \<open>auto simp: append_layer_def layer_is_def intro!: stays_in_raw\<close>)
    next
      case False
      then have "parse_raw ?c' e = ?c'" by (simp add: parse_raw_def checked_sub_def)
      with here e show ?thesis unfolding eq by simp
    qed
  next
    case False
    have "parse_bounded end' children c =
        and_then (c\<lparr>ctx_layers := ctx_layers c @ new\<rparr>, out)
          (\<lambda>c. case end' of Some e \<Rightarrow> parse_raw c e | None \<Rightarrow> c)"
      unfolding parse_bounded_def Let_def r using c' by simp
    with False here new(1,2) show ?thesis
      by (cases out; cases end') (auto simp: and_then_def)
  qed
qed

text \<open>What a bounded parser adds stays inside of the bound, but for the raw rest.\<close>

lemma laid_out_stays: "laid_out lo hi ls \<Longrightarrow> hi \<le> e \<Longrightarrow> stays_in (Some e) ls"
  by (induction ls arbitrary: lo) (auto simp: stays_in_def)

lemma parse_bounded_stays:
  assumes child: "\<And>c'. c' = c\<lparr>ctx_declared_end := narrow_end (ctx_declared_end c) end'\<rparr> \<Longrightarrow>
      parse_ok c' off (children c')"
    and layers: "ctx_layers (fst (parse_bounded end' children c)) = ctx_layers c @ new"
    and end': "\<And>e. bound = Some e \<Longrightarrow> \<exists>e'. end' = Some e' \<and> e' \<le> e"
  shows "stays_in bound new"
proof (cases bound)
  case (Some e)
  then obtain e' where e': "end' = Some e'" "e' \<le> e" using end' by blast
  let ?c = "c\<lparr>ctx_declared_end := narrow_end (ctx_declared_end c) end'\<rparr>"
  obtain c' out where r: "children ?c = (c', out)" by (cases "children ?c")
  obtain inner where inner: "c' = ?c\<lparr>ctx_layers := ctx_layers c @ inner\<rparr>" "laid_out off (ctx_end ?c) inner"
    using child [OF refl] unfolding r by (elim parse_okE) simp
  have stays: "stays_in (Some e) inner"
    by (rule laid_out_stays [OF inner(2)]) (use e' in \<open>simp add: ctx_end_narrow\<close>)
  let ?c' = "c\<lparr>ctx_layers := ctx_layers c @ inner\<rparr>"
  have "fst (parse_bounded end' children c) = ?c' \<or> fst (parse_bounded end' children c) = parse_raw ?c' e'"
    using r inner(1) e'(1) by (cases out) (simp_all add: parse_bounded_def Let_def and_then_def)
  then have "new = inner \<or>
      new = inner @ [\<lparr>layer_protocol = Raw, layer_offset = e', layer_len = ctx_end ?c' - e'\<rparr>]"
    using layers parse_raw_cases [of ?c' e'] by (auto simp: append_layer_def)
  then show ?thesis using stays Some by (auto simp: stays_in_raw layer_is_def)
qed simp

section \<open>The interface between a parser and its children\<close>

text \<open>
  \<^verbatim>\<open>parser_env\<close>: called on fewer than \<^verbatim>\<open>limit\<close> remaining bytes, the parsers of the
  children keep the contract.  The protocol theories prove their parsers inside it, for offsets
  with at most \<^verbatim>\<open>limit\<close> remaining bytes.
\<close>

locale parser_env =
  fixes run :: parsers and limit :: nat
  assumes run_ok: "length (ctx_bytes c) - off < limit \<Longrightarrow> parse_ok c off (run p c off)"
begin

lemma child_fits_ok:
  assumes "length (ctx_bytes c) - off < limit"
  shows "parse_ok c off (parse_child_with (run p) c off)"
  using assms by (intro parse_child_with_ok run_ok)

lemma child_with_ok:
  assumes "length (ctx_bytes c) - off \<le> limit" and "off + n \<le> ctx_end c" and "0 < n"
    and "ctx_bytes c' = ctx_bytes c"
  shows "parse_ok c' (off + n) (parse_child_with (run p) c' (off + n))"
proof -
  have "off + n \<le> length (ctx_bytes c)" using assms(2) ctx_end_le by (rule order_trans)
  then have "length (ctx_bytes c') - (off + n) < limit" using assms by auto
  then show ?thesis by (rule child_fits_ok)
qed

lemmas child_ok = child_with_ok [folded parse_child_def]

lemma registered_ok:
  assumes "length (ctx_bytes c) - off \<le> limit" and "off + n \<le> ctx_end c" and "0 < n"
    and "ctx_bytes c' = ctx_bytes c"
  shows "parse_ok c' (off + n) (parse_registered reg run parent code c' (off + n))"
  using child_with_ok [OF assms] by (simp add: parse_registered_def raw_ok split: option.split)

end

text \<open>
  The parsers of the caller's own protocols, with what the library asks of them: given children
  that keep the contract on fewer bytes, they keep it too.
\<close>

locale extension =
  fixes ext :: "parsers \<Rightarrow> nat \<Rightarrow> parse_fn"
  assumes ext_ok: "(\<And>p c off. length (ctx_bytes c) - off < limit \<Longrightarrow> parse_ok c off (run p c off))
    \<Longrightarrow> length (ctx_bytes c) - off \<le> limit \<Longrightarrow> parse_ok c off (ext run n c off)"

end
