(* ===== verification/Link.thy ===== *)
theory Link
  imports Parse_Context
begin

text \<open>
  The link layer: Ethernet, VLAN, LLC/SNAP, Linux cooked capture, MPLS and ARP
  (\<^verbatim>\<open>src/packet/layer/eth.rs\<close>, \<^verbatim>\<open>vlan.rs\<close>, \<^verbatim>\<open>llc.rs\<close>, \<^verbatim>\<open>sll.rs\<close>,
  \<^verbatim>\<open>mpls.rs\<close>, \<^verbatim>\<open>arp.rs\<close>).  Every parser takes the registry and the parsers of its
  children as parameters; the theory \<^verbatim>\<open>Parser\<close> ties the knot.
\<close>

section \<open>EtherType\<close>

datatype eth_type =
    EtIpv4 | EtArp | EtFrameRelayArp | EtVlan | EtNovell8137 | EtNovell8138 | EtIpv6
  | EtMplsUnicast | EtMplsMulticast | EtReserverd "16 word"

definition eth_type_from :: "16 word \<Rightarrow> eth_type" where
  "eth_type_from v =
    (if v = 0x0800 then EtIpv4 else if v = 0x0806 then EtArp
     else if v = 0x0808 then EtFrameRelayArp else if v = 0x8100 then EtVlan
     else if v = 0x8137 then EtNovell8137 else if v = 0x8138 then EtNovell8138
     else if v = 0x86DD then EtIpv6 else if v = 0x8847 then EtMplsUnicast
     else if v = 0x8848 then EtMplsMulticast else EtReserverd v)"

fun eth_type_into :: "eth_type \<Rightarrow> 16 word" where
  "eth_type_into EtIpv4 = 0x0800"
| "eth_type_into EtArp = 0x0806"
| "eth_type_into EtFrameRelayArp = 0x0808"
| "eth_type_into EtVlan = 0x8100"
| "eth_type_into EtNovell8137 = 0x8137"
| "eth_type_into EtNovell8138 = 0x8138"
| "eth_type_into EtIpv6 = 0x86DD"
| "eth_type_into EtMplsUnicast = 0x8847"
| "eth_type_into EtMplsMulticast = 0x8848"
| "eth_type_into (EtReserverd v) = v"

definition eth_type_code :: "eth_type \<Rightarrow> nat" where
  "eth_type_code t = unat (eth_type_into t)"

lemma eth_type_into_from [simp]: "eth_type_into (eth_type_from v) = v"
  by (simp add: eth_type_from_def)

section \<open>Ethernet\<close>

definition eth_eth_type :: "bytes \<Rightarrow> eth_type option" where
  "eth_eth_type hdr = map_option eth_type_from (view_raw 12 14 whole hdr)"

definition eth_parse :: "registry \<Rightarrow> parsers \<Rightarrow> parse_fn" where
  "eth_parse reg run c off =
    requiring c Eth off 14 (\<lambda>header.
    reading c (eth_eth_type header) (\<lambda>ty.
    let c = push_layer c Eth off 14 in
    case ty of
      EtIpv4 \<Rightarrow> parse_child run Ipv4 c (off + 14)
    | EtArp \<Rightarrow> parse_child run Arp c (off + 14)
    | EtIpv6 \<Rightarrow> parse_child run Ipv6 c (off + 14)
    | EtVlan \<Rightarrow> parse_child run Vlan c (off + 14)
    | EtMplsUnicast \<Rightarrow> parse_child run Mpls c (off + 14)
    | EtMplsMulticast \<Rightarrow> parse_child run Mpls c (off + 14)
    | EtReserverd n \<Rightarrow>
        if n \<le> 1500 then parse_child run Llc c (off + 14)
        else parse_registered reg run Eth (eth_type_code ty) c (off + 14)
    | _ \<Rightarrow> parse_registered reg run Eth (eth_type_code ty) c (off + 14)))"

section \<open>VLAN\<close>

definition vlan_eth_type :: "bytes \<Rightarrow> eth_type option" where
  "vlan_eth_type hdr = map_option eth_type_from (view_raw 2 4 whole hdr)"

definition vlan_parse :: "registry \<Rightarrow> parsers \<Rightarrow> parse_fn" where
  "vlan_parse reg run c off =
    requiring c Vlan off 4 (\<lambda>header.
    reading c (vlan_eth_type header) (\<lambda>ty.
    let c = push_layer c Vlan off 4 in
    case ty of
      EtIpv4 \<Rightarrow> parse_child run Ipv4 c (off + 4)
    | EtArp \<Rightarrow> parse_child run Arp c (off + 4)
    | EtIpv6 \<Rightarrow> parse_child run Ipv6 c (off + 4)
    | EtMplsUnicast \<Rightarrow> parse_child run Mpls c (off + 4)
    | EtMplsMulticast \<Rightarrow> parse_child run Mpls c (off + 4)
    | EtReserverd n \<Rightarrow>
        if n \<le> 1500 then parse_child run Llc c (off + 4)
        else parse_registered reg run Vlan (eth_type_code ty) c (off + 4)
    | _ \<Rightarrow> parse_registered reg run Vlan (eth_type_code ty) c (off + 4)))"

section \<open>LLC and SNAP\<close>

text \<open>\<^verbatim>\<open>Lsap\<close> has one named value; the SSAP field is read under the mask \<^verbatim>\<open>0xFE\<close>.\<close>

datatype lsap = LsapSnap | LsapUnsupported byte

definition lsap_from :: "byte \<Rightarrow> lsap" where
  "lsap_from v = (if v = 0xAA then LsapSnap else LsapUnsupported v)"

definition llc_dsap :: "bytes \<Rightarrow> lsap option" where
  "llc_dsap hdr = map_option lsap_from (view_raw 0 1 whole hdr)"

definition llc_ssap :: "bytes \<Rightarrow> lsap option" where
  "llc_ssap hdr = map_option lsap_from (view_raw 1 2 (FSpec 0xFE 0) hdr)"

definition llc_control_u :: "bytes \<Rightarrow> byte option" where
  "llc_control_u hdr = view_raw 2 3 whole hdr"

definition llc_protocol_id :: "bytes \<Rightarrow> eth_type option" where
  "llc_protocol_id hdr = map_option eth_type_from (view_raw 6 8 whole hdr)"

definition llc_parse :: "parsers \<Rightarrow> parse_fn" where
  "llc_parse run c off =
    requiring c Llc off 3 (\<lambda>min_header.
    reading c (llc_control_u min_header) (\<lambda>control_first.
    let control_length = (if control_first AND 0x03 = 0x03 then 1 else 2 :: nat) in
    reading c (llc_dsap min_header) (\<lambda>dsap.
    reading c (llc_ssap min_header) (\<lambda>ssap.
    let is_snap = (dsap = LsapSnap \<and> ssap = LsapSnap) in
    if control_length = 1 \<and> is_snap then
      requiring c Llc off 8 (\<lambda>header.
      let c = push_layer c Llc off 8 in
      reading c (llc_protocol_id header) (\<lambda>ty.
      case ty of
        EtIpv4 \<Rightarrow> parse_child run Ipv4 c (off + 8)
      | EtArp \<Rightarrow> parse_child run Arp c (off + 8)
      | EtIpv6 \<Rightarrow> parse_child run Ipv6 c (off + 8)
      | EtMplsUnicast \<Rightarrow> parse_child run Mpls c (off + 8)
      | EtMplsMulticast \<Rightarrow> parse_child run Mpls c (off + 8)
      | _ \<Rightarrow> (parse_raw c (off + 8), Done)))
    else (c, Done)))))"

section \<open>Linux cooked capture\<close>

definition sll_arphrd_type :: "bytes \<Rightarrow> 16 word option" where
  "sll_arphrd_type hdr = view_raw 2 4 whole hdr"

definition sll_protocol_type :: "bytes \<Rightarrow> eth_type option" where
  "sll_protocol_type hdr = map_option eth_type_from (view_raw 14 16 whole hdr)"

definition arphrd_ether :: "16 word" where
  "arphrd_ether = 1"

definition sll_parse :: "registry \<Rightarrow> parsers \<Rightarrow> parse_fn" where
  "sll_parse reg run c off =
    requiring c Sll off 16 (\<lambda>header.
    reading c (sll_arphrd_type header) (\<lambda>arphrd.
    reading c (sll_protocol_type header) (\<lambda>ty.
    let c = push_layer c Sll off 16 in
    if arphrd = arphrd_ether then
      (case ty of
         EtIpv4 \<Rightarrow> parse_child run Ipv4 c (off + 16)
       | EtArp \<Rightarrow> parse_child run Arp c (off + 16)
       | EtIpv6 \<Rightarrow> parse_child run Ipv6 c (off + 16)
       | EtMplsUnicast \<Rightarrow> parse_child run Mpls c (off + 16)
       | EtMplsMulticast \<Rightarrow> parse_child run Mpls c (off + 16)
       | _ \<Rightarrow> parse_registered reg run Sll (eth_type_code ty) c (off + 16))
    else (parse_raw c (off + 16), Done))))"

section \<open>MPLS\<close>

definition mpls_bottom_of_stack :: "bytes \<Rightarrow> byte option" where
  "mpls_bottom_of_stack e = map_option ucast (view_raw 0 4 (FSpec 0x100 8) e :: 32 word option)"

text \<open>
  The label loop.  Each round requires four bytes, so it ends: \<^verbatim>\<open>mpls_stack\<close> recurses on the
  bytes left behind the entry just read.  \<^verbatim>\<open>None\<close> stands for a read behind the entry.
\<close>

function mpls_stack :: "parse_context \<Rightarrow> nat \<Rightarrow> nat \<Rightarrow> (parse_error + nat \<times> nat) option" where
  "mpls_stack c len next_off =
    (case require c Mpls next_off 4 of
       Inl e \<Rightarrow> Some (Inl e)
     | Inr entry \<Rightarrow>
         (case mpls_bottom_of_stack entry of
            None \<Rightarrow> None
          | Some s \<Rightarrow>
              if s \<noteq> 0 then Some (Inr (len + 4, next_off + 4))
              else mpls_stack c (len + 4) (next_off + 4)))"
  by pat_completeness auto
termination
proof (relation "measure (\<lambda>(c, len, off). length (ctx_bytes c) - off)", simp)
  fix c :: parse_context and len off :: nat and entry s
  assume "require c Mpls off 4 = Inr entry"
  then have "off + 4 \<le> length (ctx_bytes c)"
    using require_cases [OF refl, of c Mpls off 4] ctx_end_le [of c] by auto
  then show "((c, len + 4, off + 4), c, len, off)
      \<in> measure (\<lambda>(c, len, off). length (ctx_bytes c) - off)" by simp
qed

declare mpls_stack.simps [simp del]

definition mpls_parse :: "parsers \<Rightarrow> parse_fn" where
  "mpls_parse run c off =
    (case mpls_stack c 0 off of
       None \<Rightarrow> (c, Panicked)
     | Some (Inl e) \<Rightarrow> (c, Failed e)
     | Some (Inr (len, next_off)) \<Rightarrow>
         let c = push_layer c Mpls off len in
         (case byte_at (ctx_bytes c) next_off of
            None \<Rightarrow> (c, Done)
          | Some b \<Rightarrow>
              let nibble = drop_bit 4 b in
              if nibble = 4 then parse_child run Ipv4 c next_off
              else if nibble = 6 then parse_child run Ipv6 c next_off
              else (parse_raw c next_off, Done)))"

section \<open>ARP\<close>

definition arp_header_len :: "bytes \<Rightarrow> nat option" where
  "arp_header_len hdr =
    (case (view_raw 4 5 whole hdr, view_raw 5 6 whole hdr) of
       (Some (hlen :: byte), Some (plen :: byte)) \<Rightarrow> Some (8 + 2 * (unat hlen + unat plen))
     | _ \<Rightarrow> None)"

definition arp_parse :: "parse_fn" where
  "arp_parse c off =
    requiring c Arp off 8 (\<lambda>header.
    reading c (arp_header_len header) (\<lambda>n.
    requiring c Arp off n (\<lambda>_.
    (push_layer c Arp off n, Done))))"

section \<open>Every link parser keeps the contract\<close>

text \<open>
  The field accessors the parsers read succeed on a header of the required length.
\<close>

lemma link_fields_some:
  "length hdr = 14 \<Longrightarrow> \<exists>v. eth_eth_type hdr = Some v"
  "length hdr = 4 \<Longrightarrow> \<exists>v. vlan_eth_type hdr = Some v"
  "length hdr = 3 \<Longrightarrow> \<exists>v. llc_dsap hdr = Some v"
  "length hdr = 3 \<Longrightarrow> \<exists>v. llc_ssap hdr = Some v"
  "length hdr = 3 \<Longrightarrow> \<exists>v. llc_control_u hdr = Some v"
  "length hdr = 8 \<Longrightarrow> \<exists>v. llc_protocol_id hdr = Some v"
  "length hdr = 16 \<Longrightarrow> \<exists>v. sll_arphrd_type hdr = Some v"
  "length hdr = 16 \<Longrightarrow> \<exists>v. sll_protocol_type hdr = Some v"
  by (simp_all add: eth_eth_type_def vlan_eth_type_def llc_dsap_def llc_ssap_def llc_control_u_def
      llc_protocol_id_def sll_arphrd_type_def sll_protocol_type_def)

lemma mpls_bottom_some: "length e = 4 \<Longrightarrow> \<exists>v. mpls_bottom_of_stack e = Some v"
  by (simp add: mpls_bottom_of_stack_def)

lemma arp_header_len_some: "length hdr = 8 \<Longrightarrow> \<exists>n. arp_header_len hdr = Some n \<and> 8 \<le> n"
proof -
  assume "length hdr = 8"
  then obtain h p where "view_raw 4 5 whole hdr = Some (h :: byte)" "view_raw 5 6 whole hdr = Some (p :: byte)"
    using view_raw_in_range [of 4 5 hdr] view_raw_in_range [of 5 6 hdr] by fastforce
  then show ?thesis by (simp add: arp_header_len_def)
qed

lemma mpls_stack_bounds:
  "\<exists>r. mpls_stack c len off = Some r \<and>
    (\<forall>n e. r = Inr (n, e) \<longrightarrow> e \<le> ctx_end c \<and> off + 4 \<le> e \<and> n = len + (e - off))"
proof (induction c len off rule: mpls_stack.induct)
  case (1 c len off)
  show ?case
  proof (cases "require c Mpls off 4")
    case (Inl e)
    then show ?thesis by (subst mpls_stack.simps) simp
  next
    case (Inr entry)
    then have entry: "off + 4 \<le> ctx_end c" "length entry = 4"
      using require_cases [OF refl, of c Mpls off 4] by auto
    then obtain s where s: "mpls_bottom_of_stack entry = Some s"
      using mpls_bottom_some by blast
    show ?thesis
    proof (cases "s = 0")
      case True
      with 1 [OF Inr s] Inr s entry show ?thesis
        by (subst mpls_stack.simps) (force simp del: mpls_stack.simps)
    next
      case False
      with Inr s entry show ?thesis by (subst mpls_stack.simps) simp
    qed
  qed
qed

context parser_env
begin

lemma eth_ok:
  assumes "length (ctx_bytes c) - off \<le> limit"
  shows "parse_ok c off (eth_parse reg run c off)"
  unfolding eth_parse_def Let_def
  by (rule requiring_ok, rule reading_ok, simp add: link_fields_some,
      rule push_ok [where p = Eth and n = 14], simp only: eth_type.split if_split,
      intro conjI impI allI, (rule child_ok [OF assms] registered_ok [OF assms]; simp)+, simp_all)

lemma vlan_ok:
  assumes "length (ctx_bytes c) - off \<le> limit"
  shows "parse_ok c off (vlan_parse reg run c off)"
  unfolding vlan_parse_def Let_def
  by (rule requiring_ok, rule reading_ok, simp add: link_fields_some,
      rule push_ok [where p = Vlan and n = 4], simp only: eth_type.split if_split,
      intro conjI impI allI, (rule child_ok [OF assms] registered_ok [OF assms]; simp)+, simp_all)

lemma sll_ok:
  assumes "length (ctx_bytes c) - off \<le> limit"
  shows "parse_ok c off (sll_parse reg run c off)"
  unfolding sll_parse_def Let_def
  by (rule requiring_ok, rule reading_ok, simp add: link_fields_some,
      rule reading_ok, simp add: link_fields_some,
      rule push_ok [where p = Sll and n = 16], simp only: eth_type.split if_split,
      intro conjI impI allI, (rule child_ok [OF assms] registered_ok [OF assms] raw_ok; simp)+, simp_all)

lemma llc_ok:
  assumes "length (ctx_bytes c) - off \<le> limit"
  shows "parse_ok c off (llc_parse run c off)"
proof -
  have snap: "parse_ok c off (requiring c Llc off 8 (\<lambda>header.
      reading (push_layer c Llc off 8) (llc_protocol_id header) (\<lambda>ty. case ty of
        EtIpv4 \<Rightarrow> parse_child run Ipv4 (push_layer c Llc off 8) (off + 8)
      | EtArp \<Rightarrow> parse_child run Arp (push_layer c Llc off 8) (off + 8)
      | EtIpv6 \<Rightarrow> parse_child run Ipv6 (push_layer c Llc off 8) (off + 8)
      | EtMplsUnicast \<Rightarrow> parse_child run Mpls (push_layer c Llc off 8) (off + 8)
      | EtMplsMulticast \<Rightarrow> parse_child run Mpls (push_layer c Llc off 8) (off + 8)
      | _ \<Rightarrow> (parse_raw (push_layer c Llc off 8) (off + 8), Done))))"
    by (rule requiring_ok, rule reading_ok, simp add: link_fields_some,
        rule push_ok [where p = Llc and n = 8], simp only: eth_type.split,
        intro conjI impI allI, (rule child_ok [OF assms] raw_ok; simp)+, simp_all)
  show ?thesis
    unfolding llc_parse_def Let_def
    by (rule requiring_ok, (rule reading_ok, simp add: link_fields_some)+)
      (use snap done_ok in \<open>simp\<close>)
qed

lemma mpls_ok:
  assumes "length (ctx_bytes c) - off \<le> limit"
  shows "parse_ok c off (mpls_parse run c off)"
proof -
  obtain r where r: "mpls_stack c 0 off = Some r"
    and bounds: "\<And>n e. r = Inr (n, e) \<Longrightarrow> e \<le> ctx_end c \<and> off + 4 \<le> e \<and> n = e - off"
    using mpls_stack_bounds [of c 0 off] by auto
  show ?thesis
  proof (cases r)
    case (Inl e)
    with r show ?thesis by (simp add: mpls_parse_def failed_ok)
  next
    case (Inr p)
    obtain n e where p: "p = (n, e)" by (cases p)
    with Inr bounds have b: "e \<le> ctx_end c" "4 \<le> n" "e = off + n" by force+
    let ?c = "push_layer c Mpls off n"
    have kids: "parse_ok ?c (off + n) (parse_child run q ?c (off + n))" for q
      using b by (intro child_ok [OF assms]) simp_all
    have "parse_ok ?c (off + n)
        (case byte_at (ctx_bytes ?c) e of None \<Rightarrow> (?c, Done)
         | Some x \<Rightarrow> let nibble = drop_bit 4 x in
             if nibble = 4 then parse_child run Ipv4 ?c e
             else if nibble = 6 then parse_child run Ipv6 ?c e
             else (parse_raw ?c e, Done))"
      using kids raw_ok [of ?c e] done_ok b by (simp add: Let_def split: option.split)
    then have "parse_ok c off
        (case byte_at (ctx_bytes ?c) e of None \<Rightarrow> (?c, Done)
         | Some x \<Rightarrow> let nibble = drop_bit 4 x in
             if nibble = 4 then parse_child run Ipv4 ?c e
             else if nibble = 6 then parse_child run Ipv6 ?c e
             else (parse_raw ?c e, Done))"
      by (rule push_ok [where p = Mpls and n = n]) (use b in simp_all)
    then show ?thesis by (simp add: mpls_parse_def r Inr p Let_def)
  qed
qed

lemma arp_ok: "parse_ok c off (arp_parse c off)"
  unfolding arp_parse_def
proof (rule requiring_ok, rule reading_ok, goal_cases)
  case (1 hdr)
  then show ?case using arp_header_len_some [of hdr] by blast
next
  case (2 hdr n)
  then have "8 \<le> n" using arp_header_len_some [of hdr] by auto
  then show ?case
    by - (rule requiring_ok, rule push_ok [where p = Arp and n = n], simp_all add: done_ok)
qed

end

end
