(* ===== verification/Network.thy ===== *)
theory Network
  imports Link
begin

text \<open>
  The network layer: IPv4, IPv6 with its extension headers and next-header dispatcher, the
  authentication header, ESP and GRE (\<^verbatim>\<open>src/packet/layer/ip/**\<close>,
  \<^verbatim>\<open>src/packet/layer/gre.rs\<close>).  \<^verbatim>\<open>IpProtocol\<close> is an enumeration over \<^verbatim>\<open>u8\<close> with
  a catch-all, so the model keeps the octet and names the values the dispatchers test.
\<close>

type_synonym ip_protocol = byte

definition ip_hopopt :: ip_protocol where "ip_hopopt = 0"
definition ip_icmp :: ip_protocol where "ip_icmp = 1"
definition ip_igmp :: ip_protocol where "ip_igmp = 2"
definition ip_ipv4 :: ip_protocol where "ip_ipv4 = 4"
definition ip_tcp :: ip_protocol where "ip_tcp = 6"
definition ip_udp :: ip_protocol where "ip_udp = 17"
definition ip_ipv6 :: ip_protocol where "ip_ipv6 = 41"
definition ip_ipv6_route :: ip_protocol where "ip_ipv6_route = 43"
definition ip_ipv6_frag :: ip_protocol where "ip_ipv6_frag = 44"
definition ip_gre :: ip_protocol where "ip_gre = 47"
definition ip_esp :: ip_protocol where "ip_esp = 50"
definition ip_ah :: ip_protocol where "ip_ah = 51"
definition ip_ipv6_icmp :: ip_protocol where "ip_ipv6_icmp = 58"
definition ip_ipv6_nonxt :: ip_protocol where "ip_ipv6_nonxt = 59"
definition ip_ipv6_opts :: ip_protocol where "ip_ipv6_opts = 60"
definition ip_sctp :: ip_protocol where "ip_sctp = 132"
definition ip_mobility :: ip_protocol where "ip_mobility = 135"
definition ip_hip :: ip_protocol where "ip_hip = 139"
definition ip_shim6 :: ip_protocol where "ip_shim6 = 140"

lemmas ip_protocol_defs = ip_hopopt_def ip_icmp_def ip_igmp_def ip_ipv4_def ip_tcp_def ip_udp_def
  ip_ipv6_def ip_ipv6_route_def ip_ipv6_frag_def ip_gre_def ip_esp_def ip_ah_def ip_ipv6_icmp_def
  ip_ipv6_nonxt_def ip_ipv6_opts_def ip_sctp_def ip_mobility_def ip_hip_def ip_shim6_def

section \<open>IPv4\<close>

definition ipv4_header_len :: "bytes \<Rightarrow> nat option" where
  "ipv4_header_len hdr = map_option (\<lambda>ihl. unat ihl * 4) (view_raw 0 1 (FSpec 0x0F 0) hdr :: byte option)"

definition ipv4_total_length :: "bytes \<Rightarrow> 16 word option" where
  "ipv4_total_length hdr = view_raw 2 4 whole hdr"

definition ipv4_fragment_offset :: "bytes \<Rightarrow> 16 word option" where
  "ipv4_fragment_offset hdr = view_raw 6 8 (FSpec 0x1FFF 0) hdr"

definition ipv4_protocol :: "bytes \<Rightarrow> ip_protocol option" where
  "ipv4_protocol hdr = view_raw 9 10 (FSpec 0xFF 0) hdr"

definition ipv4_dispatch :: "registry \<Rightarrow> parsers \<Rightarrow> ip_protocol \<Rightarrow> parse_fn" where
  "ipv4_dispatch reg run p c off =
    (if p = ip_icmp then parse_child run Icmp c off
     else if p = ip_igmp then parse_child run Igmp c off
     else if p = ip_gre then parse_child run Gre c off
     else if p = ip_tcp then parse_child run Tcp c off
     else if p = ip_udp then parse_child run Udp c off
     else if p = ip_sctp then parse_child run Sctp c off
     else parse_registered reg run Ipv4 (unat p) c off)"

text \<open>The payload: raw for a fragment behind the first one, else the protocol's parser.\<close>

definition ipv4_children :: "registry \<Rightarrow> parsers \<Rightarrow> bytes \<Rightarrow> nat \<Rightarrow> parse_context \<Rightarrow> parse_result" where
  "ipv4_children reg run header child_offset c =
    reading c (ipv4_fragment_offset header) (\<lambda>frag.
    if frag \<noteq> 0 then (parse_raw c child_offset, Done)
    else reading c (ipv4_protocol header) (\<lambda>p. ipv4_dispatch reg run p c child_offset))"

definition ipv4_parse :: "registry \<Rightarrow> parsers \<Rightarrow> parse_fn" where
  "ipv4_parse reg run c off =
    requiring c Ipv4 off 20 (\<lambda>min_header.
    reading c (ipv4_header_len min_header) (\<lambda>header_len.
    if header_len < 20 then
      (c, Failed (Malformed Ipv4 ''ihl''
        ''header length is smaller than the minimum IPv4 header length''))
    else
    requiring c Ipv4 off header_len (\<lambda>header.
    let c = push_layer c Ipv4 off header_len;
        child_offset = off + header_len
    in
    reading c (ipv4_total_length header) (\<lambda>tl.
    let total_length = unat tl in
    if total_length \<noteq> 0 \<and> total_length < header_len then
      (c, Failed (Malformed Ipv4 ''total length''
        ''total length is smaller than the header length''))
    else
    let end' = (if total_length \<noteq> 0 then Some (saturating_add off total_length) else None) in
    parse_bounded end' (ipv4_children reg run header child_offset) c))))"

section \<open>IPv6 and its extension headers\<close>

definition ipv6_payload_length :: "bytes \<Rightarrow> 16 word option" where
  "ipv6_payload_length hdr = view_raw 4 6 whole hdr"

definition ipv6_next_header :: "bytes \<Rightarrow> ip_protocol option" where
  "ipv6_next_header hdr = view_raw 6 7 whole hdr"

definition ipv6_dispatch :: "registry \<Rightarrow> parsers \<Rightarrow> ip_protocol \<Rightarrow> parse_fn" where
  "ipv6_dispatch reg run nh c off =
    (if nh = ip_hopopt then parse_child run Ipv6Hopopt c off
     else if nh = ip_ipv6_opts then parse_child run Ipv6DestOpts c off
     else if nh = ip_ipv6_route then parse_child run Ipv6Route c off
     else if nh = ip_ipv6_frag then parse_child run Ipv6Frag c off
     else if nh = ip_ah then parse_child run Ah c off
     else if nh = ip_mobility then parse_child run Ipv6Mobility c off
     else if nh = ip_hip then parse_child run Ipv6Hip c off
     else if nh = ip_shim6 then parse_child run Ipv6Shim6 c off
     else if nh = ip_esp then parse_child run Esp c off
     else if nh = ip_ipv6_nonxt then (parse_raw c off, Done)
     else if nh = ip_tcp then parse_child run Tcp c off
     else if nh = ip_udp then parse_child run Udp c off
     else if nh = ip_gre then parse_child run Gre c off
     else if nh = ip_sctp then parse_child run Sctp c off
     else if nh = ip_ipv6_icmp then parse_child run Icmpv6 c off
     else if nh = ip_ipv4 then parse_child run Ipv4 c off
     else if nh = ip_ipv6 then parse_child run Ipv6 c off
     else parse_registered reg run Ipv6 (unat nh) c off)"

definition ipv6_parse :: "registry \<Rightarrow> parsers \<Rightarrow> parse_fn" where
  "ipv6_parse reg run c off =
    requiring c Ipv6 off 40 (\<lambda>header.
    reading c (ipv6_next_header header) (\<lambda>nh.
    let c = push_layer c Ipv6 off 40;
        child_offset = off + 40
    in
    reading c (ipv6_payload_length header) (\<lambda>pl.
    let end' = (if unat pl = 0 then None else Some (saturating_add child_offset (unat pl))) in
    parse_bounded end' (\<lambda>c. ipv6_dispatch reg run nh c child_offset) c)))"

text \<open>The layout the extension headers share: next header, extension length, data.\<close>

definition ext_next_header :: "bytes \<Rightarrow> ip_protocol option" where
  "ext_next_header hdr = view_raw 0 1 whole hdr"

definition ext_header_len :: "bytes \<Rightarrow> nat option" where
  "ext_header_len hdr = map_option (\<lambda>b. (unat b + 1) * 8) (byte_at hdr 1)"

definition parse_ext_header :: "registry \<Rightarrow> parsers \<Rightarrow> proto \<Rightarrow> nat \<Rightarrow> parse_fn" where
  "parse_ext_header reg run p fixed_len c off =
    requiring c p off 2 (\<lambda>prefix.
    reading c (ext_header_len prefix) (\<lambda>declared.
    if declared < fixed_len then
      (c, Failed (Malformed p ''header extension length''
        ''the declared header is shorter than the fixed part''))
    else
    let n = min declared (length (ctx_rest c off)) in
    requiring c p off n (\<lambda>header.
    reading c (ext_next_header header) (\<lambda>nh.
    let c = push_layer c p off n in
    if ctx_rest c (off + n) = [] then (parse_raw c (off + n), Done)
    else ipv6_dispatch reg run nh c (off + n)))))"

definition ipv6_hopopt_parse :: "registry \<Rightarrow> parsers \<Rightarrow> parse_fn" where
  "ipv6_hopopt_parse reg run = parse_ext_header reg run Ipv6Hopopt 2"

definition ipv6_dest_opts_parse :: "registry \<Rightarrow> parsers \<Rightarrow> parse_fn" where
  "ipv6_dest_opts_parse reg run = parse_ext_header reg run Ipv6DestOpts 2"

definition ipv6_route_parse :: "registry \<Rightarrow> parsers \<Rightarrow> parse_fn" where
  "ipv6_route_parse reg run = parse_ext_header reg run Ipv6Route 4"

definition ipv6_mobility_parse :: "registry \<Rightarrow> parsers \<Rightarrow> parse_fn" where
  "ipv6_mobility_parse reg run = parse_ext_header reg run Ipv6Mobility 6"

definition ipv6_hip_parse :: "registry \<Rightarrow> parsers \<Rightarrow> parse_fn" where
  "ipv6_hip_parse reg run = parse_ext_header reg run Ipv6Hip 40"

definition ipv6_shim6_parse :: "registry \<Rightarrow> parsers \<Rightarrow> parse_fn" where
  "ipv6_shim6_parse reg run = parse_ext_header reg run Ipv6Shim6 6"

definition frag_fragment_offset :: "bytes \<Rightarrow> 16 word option" where
  "frag_fragment_offset hdr = view_raw 2 4 (FSpec 0xFFF8 3) hdr"

definition ipv6_frag_parse :: "registry \<Rightarrow> parsers \<Rightarrow> parse_fn" where
  "ipv6_frag_parse reg run c off =
    requiring c Ipv6Frag off 8 (\<lambda>header.
    reading c (ext_next_header header) (\<lambda>nh.
    let c = push_layer c Ipv6Frag off 8 in
    reading c (frag_fragment_offset header) (\<lambda>frag.
    if frag \<noteq> 0 then (parse_raw c (off + 8), Done)
    else ipv6_dispatch reg run nh c (off + 8))))"

section \<open>AH, ESP and GRE\<close>

definition ah_header_len :: "bytes \<Rightarrow> nat option" where
  "ah_header_len hdr = map_option (\<lambda>b. (unat b + 2) * 4) (view_raw 1 2 whole hdr :: byte option)"

definition ah_parse :: "registry \<Rightarrow> parsers \<Rightarrow> parse_fn" where
  "ah_parse reg run c off =
    requiring c Ah off 12 (\<lambda>prefix.
    reading c (ah_header_len prefix) (\<lambda>declared.
    if declared < 12 then
      (c, Failed (Malformed Ah ''payload length''
        ''the declared header is shorter than the fixed part''))
    else
    let n = min declared (length (ctx_rest c off)) in
    requiring c Ah off n (\<lambda>header.
    reading c (ext_next_header header) (\<lambda>nh.
    let c = push_layer c Ah off n in
    if ctx_rest c (off + n) = [] then (parse_raw c (off + n), Done)
    else ipv6_dispatch reg run nh c (off + n)))))"

definition esp_parse :: parse_fn where
  "esp_parse c off =
    requiring c Esp off 8 (\<lambda>_.
    let c = push_layer c Esp off 8 in
    (parse_raw c (off + 8), Done))"

definition gre_flags :: "bytes \<Rightarrow> 16 word option" where
  "gre_flags hdr = view_raw 0 2 (FSpec 0xB000 0) hdr"

definition gre_flags_contains :: "16 word \<Rightarrow> 16 word \<Rightarrow> bool" where
  "gre_flags_contains flags bits = (flags AND bits = bits)"

definition gre_header_len :: "bytes \<Rightarrow> nat option" where
  "gre_header_len hdr = map_option (\<lambda>flags.
     4 + (if gre_flags_contains flags 0x8000 then 4 else 0)
       + (if gre_flags_contains flags 0x2000 then 4 else 0)
       + (if gre_flags_contains flags 0x1000 then 4 else 0)) (gre_flags hdr)"

definition gre_protocol_type :: "bytes \<Rightarrow> eth_type option" where
  "gre_protocol_type hdr = map_option eth_type_from (view_raw 2 4 whole hdr)"

definition gre_parse :: "registry \<Rightarrow> parsers \<Rightarrow> parse_fn" where
  "gre_parse reg run c off =
    requiring c Gre off 4 (\<lambda>min_header.
    reading c (gre_header_len min_header) (\<lambda>header_len.
    requiring c Gre off header_len (\<lambda>header.
    reading c (gre_protocol_type header) (\<lambda>ty.
    let c = push_layer c Gre off header_len in
    case ty of
      EtIpv4 \<Rightarrow> parse_child run Ipv4 c (off + header_len)
    | EtIpv6 \<Rightarrow> parse_child run Ipv6 c (off + header_len)
    | _ \<Rightarrow> parse_registered reg run Gre (eth_type_code ty) c (off + header_len)))))"

section \<open>Every network parser keeps the contract\<close>

lemma ipv4_header_len_some: "1 \<le> length hdr \<Longrightarrow> \<exists>n. ipv4_header_len hdr = Some n"
  by (simp add: ipv4_header_len_def)

lemma network_fields_some:
  "20 \<le> length hdr \<Longrightarrow> \<exists>v. ipv4_total_length hdr = Some v"
  "20 \<le> length hdr \<Longrightarrow> \<exists>v. ipv4_fragment_offset hdr = Some v"
  "20 \<le> length hdr \<Longrightarrow> \<exists>v. ipv4_protocol hdr = Some v"
  "40 \<le> length hdr \<Longrightarrow> \<exists>v. ipv6_payload_length hdr = Some v"
  "40 \<le> length hdr \<Longrightarrow> \<exists>v. ipv6_next_header hdr = Some v"
  "1 \<le> length hdr \<Longrightarrow> \<exists>v. ext_next_header hdr = Some v"
  "4 \<le> length hdr \<Longrightarrow> \<exists>v. frag_fragment_offset hdr = Some v"
  "4 \<le> length hdr \<Longrightarrow> \<exists>v. gre_protocol_type hdr = Some v"
  by (simp_all add: ipv4_total_length_def ipv4_fragment_offset_def ipv4_protocol_def
      ipv6_payload_length_def ipv6_next_header_def ext_next_header_def frag_fragment_offset_def
      gre_protocol_type_def)

lemma ext_header_len_some: "2 \<le> length hdr \<Longrightarrow> \<exists>n. ext_header_len hdr = Some n \<and> 8 \<le> n"
  by (simp add: ext_header_len_def)

lemma ah_header_len_some: "2 \<le> length hdr \<Longrightarrow> \<exists>n. ah_header_len hdr = Some n"
  by (simp add: ah_header_len_def)

lemma gre_header_len_some: "2 \<le> length hdr \<Longrightarrow> \<exists>n. gre_header_len hdr = Some n \<and> 4 \<le> n"
proof -
  assume "2 \<le> length hdr"
  then obtain flags where "gre_flags hdr = Some flags"
    using view_raw_in_range [of 0 2 hdr] by (fastforce simp: gre_flags_def)
  then show ?thesis by (simp add: gre_header_len_def)
qed

lemma ipv4_end:
  assumes "hdr = take n (drop off bs)" and "20 \<le> n" and "off + n \<le> length bs"
    and "ipv4_total_length hdr = Some len"
  shows "ip_end bs \<lparr>layer_protocol = Ipv4, layer_offset = off, layer_len = n\<rparr> =
    (if unat len = 0 then None else Some (off + unat len))"
proof -
  have "unat len = be_nat (take 2 (drop (off + 2) bs))"
    using assms read_be_field [of 2 2 hdr, where ?'u = 16] by (simp add: ipv4_total_length_def take_drop min_def ac_simps)
  then show ?thesis by (simp add: ip_end_def layer_is_def)
qed

lemma ipv6_end:
  assumes "hdr = take n (drop off bs)" and "40 \<le> n" and "off + n \<le> length bs"
    and "ipv6_payload_length hdr = Some pl"
  shows "ip_end bs \<lparr>layer_protocol = Ipv6, layer_offset = off, layer_len = n\<rparr> =
    (if unat pl = 0 then None else Some (off + 40 + unat pl))"
proof -
  have "unat pl = be_nat (take 2 (drop (off + 4) bs))"
    using assms read_be_field [of 4 2 hdr, where ?'u = 16] by (simp add: ipv6_payload_length_def take_drop min_def ac_simps)
  then show ?thesis by (simp add: ip_end_def layer_is_def)
qed

context parser_env
begin

lemma ipv4_dispatch_ok:
  assumes "length (ctx_bytes c) - off \<le> limit" and "off + n \<le> ctx_end c" and "0 < n"
    and "ctx_bytes c' = ctx_bytes c"
  shows "parse_ok c' (off + n) (ipv4_dispatch reg run p c' (off + n))"
  using child_ok [OF assms] registered_ok [OF assms] by (simp add: ipv4_dispatch_def)

lemma ipv6_dispatch_ok:
  assumes "length (ctx_bytes c) - off \<le> limit" and "off + n \<le> ctx_end c" and "0 < n"
    and "ctx_bytes c' = ctx_bytes c"
  shows "parse_ok c' (off + n) (ipv6_dispatch reg run p c' (off + n))"
  using child_ok [OF assms] registered_ok [OF assms] by (simp add: ipv6_dispatch_def raw_ok)

lemma ipv4_children_ok:
  assumes "length (ctx_bytes c) - off \<le> limit" and "off + n \<le> ctx_end c"
    and "20 \<le> n" and "length header = n" and "ctx_bytes c' = ctx_bytes c"
  shows "parse_ok c' (off + n) (ipv4_children reg run header (off + n) c')"
proof -
  have kids: "parse_ok c' (off + n) (ipv4_dispatch reg run p c' (off + n))" for p
    using assms by (intro ipv4_dispatch_ok [of c]) auto
  have fields: "\<exists>v. ipv4_fragment_offset header = Some v" "\<exists>v. ipv4_protocol header = Some v"
    using assms by (simp_all add: network_fields_some)
  then show ?thesis
    unfolding ipv4_children_def using kids raw_ok by (auto intro!: reading_ok)
qed

lemma ipv4_ok:
  assumes "length (ctx_bytes c) - off \<le> limit"
  shows "parse_ok c off (ipv4_parse reg run c off)"
  unfolding ipv4_parse_def
proof (rule requiring_ok, rule reading_ok, goal_cases)
  case (1 min_header)
  then show ?case by (simp add: ipv4_header_len_some)
next
  case (2 min_header n)
  show ?case
  proof (cases "n < 20")
    case False
    let ?c = "push_layer c Ipv4 off n"
    have bounded: "parse_ok ?c (off + n) (parse_bounded end' (ipv4_children reg run header (off + n)) ?c)"
      if fits: "off + n \<le> ctx_end c" and header: "length header = n"
        and end': "\<And>e. end' = Some e \<Longrightarrow> off + n \<le> e" for end' header
      by (rule parse_bounded_ok, rule ipv4_children_ok [OF assms fits])
        (use False header end' in auto)
    show ?thesis
      unfolding Let_def if_not_P [OF False]
    proof (rule requiring_bytes_ok, rule push_ip_ok [where p = Ipv4 and n = n], rule reading_ok, goal_cases)
      case (2 header tl)
      show ?case
      proof (cases "unat tl \<noteq> 0 \<and> unat tl < n")
        case short: False
        show ?thesis
          unfolding if_not_P [OF short]
          by (rule bounded) (use 2 short in \<open>auto simp: saturating_add_def split: if_splits\<close>)
      qed (simp add: failed_ok)
    next
      case (5 header new)
      obtain tl where tl: "ipv4_total_length header = Some tl"
        using network_fields_some(1) [of header] 5(3) False by auto
      have len: "off + n \<le> length (ctx_bytes c)" using 5(1) ctx_end_le [of c] by simp
      note bound = ipv4_end [OF 5(4) _ len tl]
      show ?case
      proof (cases "unat tl \<noteq> 0 \<and> unat tl < n")
        case True
        then show ?thesis using 5(5) tl by (simp add: reading_def)
      next
        case short: False
        show ?thesis
          by (rule parse_bounded_stays [OF ipv4_children_ok [OF assms 5(1) _ 5(3)]])
            (use False short 5(5) tl bound in \<open>auto simp: reading_def saturating_add_def split: if_splits\<close>)
      qed
    qed (use False in \<open>simp_all add: network_fields_some\<close>)
  qed (simp add: failed_ok)
qed

lemma ipv6_ok:
  assumes "length (ctx_bytes c) - off \<le> limit"
  shows "parse_ok c off (ipv6_parse reg run c off)"
  unfolding ipv6_parse_def Let_def
proof (rule requiring_bytes_ok, rule reading_ok, goal_cases)
  case (2 header nh)
  have kids: "parse_ok c' (off + 40) (ipv6_dispatch reg run nh c' (off + 40))"
    if "ctx_bytes c' = ctx_bytes c" for c'
    using assms 2 that ctx_end_le [of c] by (intro ipv6_dispatch_ok [of c]) auto
  obtain pl where pl: "ipv6_payload_length header = Some pl" using network_fields_some(4) [of header] 2(3) by auto
  have len: "off + 40 \<le> length (ctx_bytes c)" using 2(1) ctx_end_le [of c] by simp
  let ?c = "push_layer c Ipv6 off 40"
  let ?stop = "if unat pl = 0 then None else Some (saturating_add (off + 40) (unat pl))"
  show ?case
  proof (rule push_ip_ok [where p = Ipv6 and n = 40], rule reading_ok, goal_cases)
    case (5 new)
    then have "ctx_layers (fst (parse_bounded ?stop (\<lambda>c. ipv6_dispatch reg run nh c (off + 40)) ?c)) =
        ctx_layers ?c @ new"
      using pl by (simp add: reading_def)
    then show ?case
      by (rule parse_bounded_stays [where off = "off + 40", rotated])
        (use kids ipv6_end [OF 2(4) _ len pl] in \<open>auto simp: saturating_add_def split: if_splits\<close>)
  qed (use 2 kids in \<open>auto simp: network_fields_some saturating_add_def intro!: parse_bounded_ok\<close>)
qed (simp add: network_fields_some)

text \<open>The tail the extension headers and AH share: a header cut to the bytes that exist.\<close>

lemma clipped_header_ok:
  assumes "length (ctx_bytes c) - off \<le> limit" and "off + header_min p \<le> ctx_end c"
    and "header_min p \<le> declared" and "2 \<le> header_min p" and "p \<noteq> Ipv4" and "p \<noteq> Ipv6"
  shows "parse_ok c off
    (let n = min declared (length (ctx_rest c off)) in
     requiring c p off n (\<lambda>header.
     reading c (ext_next_header header) (\<lambda>nh.
     let c = push_layer c p off n in
     if ctx_rest c (off + n) = [] then (parse_raw c (off + n), Done)
     else ipv6_dispatch reg run nh c (off + n))))"
proof -
  define n where "n = min declared (length (ctx_rest c off))"
  have n: "header_min p \<le> n" "2 \<le> n" using assms(2-4) by (simp_all add: n_def length_ctx_rest)
  have kids: "parse_ok (push_layer c p off n) (off + n)
      (ipv6_dispatch reg run nh (push_layer c p off n) (off + n))"
    if "off + n \<le> ctx_end c" for nh
    using assms(1) that n ctx_end_le [of c] by (intro ipv6_dispatch_ok [of c]) auto
  show ?thesis
    unfolding Let_def n_def [symmetric]
  proof (rule requiring_ok, rule reading_ok, goal_cases)
    case (2 header nh)
    then show ?case
      by - (rule push_ok [where p = p and n = n], use n kids raw_ok assms(5,6) in auto)
  qed (use n in \<open>simp add: network_fields_some\<close>)
qed

lemma ext_ok:
  assumes "length (ctx_bytes c) - off \<le> limit" and "header_min p = 2"
  shows "parse_ok c off (parse_ext_header reg run p fixed_len c off)"
  unfolding parse_ext_header_def
proof (rule requiring_ok, rule reading_ok, goal_cases)
  case (1 prefix)
  then show ?case using ext_header_len_some [of prefix] by auto
next
  case (2 prefix declared)
  then have "2 \<le> declared" using ext_header_len_some [of prefix] by auto
  moreover have "p \<noteq> Ipv4" "p \<noteq> Ipv6" using assms(2) by auto
  ultimately show ?case using 2 clipped_header_ok [OF assms(1)] assms(2) failed_ok by simp
qed

lemma ah_ok:
  assumes "length (ctx_bytes c) - off \<le> limit"
  shows "parse_ok c off (ah_parse reg run c off)"
  unfolding ah_parse_def
proof (rule requiring_ok, rule reading_ok, goal_cases)
  case (2 prefix declared)
  then show ?case using clipped_header_ok [OF assms, of Ah] failed_ok by simp
qed (simp add: ah_header_len_some)

lemma frag_ok:
  assumes "length (ctx_bytes c) - off \<le> limit"
  shows "parse_ok c off (ipv6_frag_parse reg run c off)"
  unfolding ipv6_frag_parse_def Let_def
proof (rule requiring_ok, rule reading_ok, goal_cases)
  case (2 header nh)
  have kids: "parse_ok (push_layer c Ipv6Frag off 8) (off + 8)
      (ipv6_dispatch reg run nh (push_layer c Ipv6Frag off 8) (off + 8))"
    using assms 2 ctx_end_le [of c] by (intro ipv6_dispatch_ok [of c]) auto
  show ?case
    by (rule push_ok [where p = Ipv6Frag and n = 8], rule reading_ok)
      (use 2 kids raw_ok in \<open>auto simp: network_fields_some\<close>)
qed (simp add: network_fields_some)

lemma esp_ok: "parse_ok c off (esp_parse c off)"
  unfolding esp_parse_def Let_def
  by (rule requiring_ok, rule push_ok [where p = Esp and n = 8]) (simp_all add: raw_ok)

lemma gre_ok:
  assumes "length (ctx_bytes c) - off \<le> limit"
  shows "parse_ok c off (gre_parse reg run c off)"
  unfolding gre_parse_def Let_def
proof (rule requiring_ok, rule reading_ok, goal_cases)
  case (1 hdr)
  then show ?case using gre_header_len_some [of hdr] by auto
next
  case (2 hdr n)
  then have n: "4 \<le> n" using gre_header_len_some [of hdr] by auto
  have kids: "parse_ok (push_layer c Gre off n) (off + n)
      (parse_child run q (push_layer c Gre off n) (off + n))" if "off + n \<le> ctx_end c" for q
    using that n by (intro child_ok [OF assms]) auto
  have registered: "parse_ok (push_layer c Gre off n) (off + n)
      (parse_registered reg run Gre code (push_layer c Gre off n) (off + n))"
    if "off + n \<le> ctx_end c" for code
    using that n by (intro registered_ok [OF assms]) auto
  show ?case
  proof (rule requiring_ok, rule reading_ok, goal_cases)
    case (2 header ty)
    with n show ?case
      by - (rule push_ok [where p = Gre and n = n],
          simp_all add: kids registered split: eth_type.split)
  qed (use n in \<open>simp add: network_fields_some\<close>)
qed

end

end
