(* ===== verification/Transport.thy ===== *)
theory Transport
  imports Link
begin

text \<open>
  The transport and application parsers: TCP, UDP, and the ones without built-in children
  (\<^verbatim>\<open>src/packet/layer/tcp.rs\<close>, \<^verbatim>\<open>udp.rs\<close>, \<^verbatim>\<open>tls.rs\<close>, \<^verbatim>\<open>vxlan.rs\<close>,
  \<^verbatim>\<open>icmp.rs\<close>, \<^verbatim>\<open>icmpv6.rs\<close>, \<^verbatim>\<open>igmp.rs\<close>, \<^verbatim>\<open>dns.rs\<close>, \<^verbatim>\<open>dhcp.rs\<close>,
  \<^verbatim>\<open>ntp.rs\<close>, \<^verbatim>\<open>sctp.rs\<close>, \<^verbatim>\<open>raw.rs\<close>).
\<close>

section \<open>TLS\<close>

definition tls_length :: "bytes \<Rightarrow> 16 word option" where
  "tls_length hdr = view_raw 3 5 whole hdr"

definition tls_parse :: parse_fn where
  "tls_parse c off =
    requiring c Tls off 5 (\<lambda>header.
    reading c (tls_length header) (\<lambda>len.
    let n = 5 + unat len in
    requiring c Tls off n (\<lambda>_.
    (push_layer c Tls off n, Done))))"

definition looks_like_record :: "bytes \<Rightarrow> bool" where
  "looks_like_record bs =
    (case slice bs 0 5 of
       None \<Rightarrow> False
     | Some header \<Rightarrow>
         20 \<le> header ! 0 \<and> header ! 0 \<le> 24 \<and> header ! 1 = 0x03 \<and> header ! 2 \<le> 0x04)"

section \<open>TCP\<close>

definition tcp_header_len :: "bytes \<Rightarrow> nat option" where
  "tcp_header_len hdr =
    map_option (\<lambda>d. unat d * 4) (view_raw 12 13 (FSpec 0xF0 4) hdr :: byte option)"

definition tcp_src_port :: "bytes \<Rightarrow> 16 word option" where
  "tcp_src_port hdr = view_raw 0 2 whole hdr"

definition tcp_dst_port :: "bytes \<Rightarrow> 16 word option" where
  "tcp_dst_port hdr = view_raw 2 4 whole hdr"

definition is_tls_service_port :: "16 word \<Rightarrow> bool" where
  "is_tls_service_port p = (p \<in> set [443, 465, 636, 853, 990, 993, 995, 8443])"

text \<open>
  The last arms of the TCP and the UDP match: the registry is asked for the destination port,
  then for the source port when that is another one.
\<close>

definition parse_by_port :: "registry \<Rightarrow> parsers \<Rightarrow> proto \<Rightarrow> 16 word \<Rightarrow> 16 word \<Rightarrow> parse_fn" where
  "parse_by_port reg run parent src dst c off =
    (case reg (parent, unat dst) of
       Some child \<Rightarrow> parse_child_with (run child) c off
     | None \<Rightarrow>
         (case (if src \<noteq> dst then reg (parent, unat src) else None) of
            Some child \<Rightarrow> parse_child_with (run child) c off
          | None \<Rightarrow> (parse_raw c off, Done)))"

definition tcp_parse :: "registry \<Rightarrow> parsers \<Rightarrow> parse_fn" where
  "tcp_parse reg run c off =
    requiring c Tcp off 20 (\<lambda>min_header.
    reading c (tcp_header_len min_header) (\<lambda>header_len.
    if header_len < 20 then
      (c, Failed (Malformed Tcp ''data_offset''
        ''header length is smaller than the minimum TCP header length''))
    else
    requiring c Tcp off header_len (\<lambda>header.
    let c = push_layer c Tcp off header_len in
    reading c (tcp_src_port header) (\<lambda>src.
    reading c (tcp_dst_port header) (\<lambda>dst.
    let payload_offset = off + header_len;
        payload = ctx_rest c payload_offset
    in
    if (is_tls_service_port src \<or> is_tls_service_port dst) \<and> looks_like_record payload
    then parse_child run Tls c payload_offset
    else parse_by_port reg run Tcp src dst c payload_offset)))))"

section \<open>UDP\<close>

definition udp_src_port :: "bytes \<Rightarrow> 16 word option" where
  "udp_src_port hdr = view_raw 0 2 whole hdr"

definition udp_dst_port :: "bytes \<Rightarrow> 16 word option" where
  "udp_dst_port hdr = view_raw 2 4 whole hdr"

definition udp_parse :: "registry \<Rightarrow> parsers \<Rightarrow> parse_fn" where
  "udp_parse reg run c off =
    requiring c Udp off 8 (\<lambda>header.
    let c = push_layer c Udp off 8 in
    reading c (udp_src_port header) (\<lambda>src.
    reading c (udp_dst_port header) (\<lambda>dst.
    let payload_offset = off + 8 in
    if src = 53 \<or> dst = 53 then parse_child run Dns c payload_offset
    else if src \<in> {67, 68} \<or> dst \<in> {67, 68} then parse_child run Dhcp c payload_offset
    else if src = 123 \<or> dst = 123 then parse_child run Ntp c payload_offset
    else if dst = 4789 then parse_child run Vxlan c payload_offset
    else parse_by_port reg run Udp src dst c payload_offset)))"

section \<open>Parsers without a dispatch\<close>

definition vxlan_parse :: "parsers \<Rightarrow> parse_fn" where
  "vxlan_parse run c off =
    requiring c Vxlan off 8 (\<lambda>_.
    let c = push_layer c Vxlan off 8 in
    parse_child run Eth c (off + 8))"

definition icmp_parse :: parse_fn where
  "icmp_parse c off =
    requiring c Icmp off 4 (\<lambda>_.
    let len = length (ctx_rest c off) in
    (push_layer c Icmp off len, Done))"

definition icmpv6_parse :: parse_fn where
  "icmpv6_parse c off =
    requiring c Icmpv6 off 4 (\<lambda>_.
    let len = length (ctx_rest c off) in
    (push_layer c Icmpv6 off len, Done))"

definition igmp_parse :: parse_fn where
  "igmp_parse c off =
    requiring c Igmp off 8 (\<lambda>_. (push_layer c Igmp off 8, Done))"

definition dns_parse :: parse_fn where
  "dns_parse c off =
    requiring c Dns off 12 (\<lambda>_. (push_layer c Dns off (length (ctx_rest c off)), Done))"

definition dhcp_parse :: parse_fn where
  "dhcp_parse c off =
    requiring c Dhcp off 240 (\<lambda>_. (push_layer c Dhcp off (length (ctx_rest c off)), Done))"

definition ntp_parse :: parse_fn where
  "ntp_parse c off =
    requiring c Ntp off 48 (\<lambda>_. (push_layer c Ntp off (length (ctx_rest c off)), Done))"

definition sctp_parse :: parse_fn where
  "sctp_parse c off =
    requiring c Sctp off 12 (\<lambda>_. (push_layer c Sctp off (length (ctx_rest c off)), Done))"

definition raw_parse :: parse_fn where
  "raw_parse c off = (parse_raw c off, Done)"

section \<open>Every transport parser keeps the contract\<close>

lemma ports_some:
  "4 \<le> length hdr \<Longrightarrow> \<exists>v. tcp_src_port hdr = Some v"
  "4 \<le> length hdr \<Longrightarrow> \<exists>v. tcp_dst_port hdr = Some v"
  "4 \<le> length hdr \<Longrightarrow> \<exists>v. udp_src_port hdr = Some v"
  "4 \<le> length hdr \<Longrightarrow> \<exists>v. udp_dst_port hdr = Some v"
  by (simp_all add: tcp_src_port_def tcp_dst_port_def udp_src_port_def udp_dst_port_def)

lemma rest_leaf_ok:
  assumes "header_min p \<le> n" and "p \<noteq> Ipv4" and "p \<noteq> Ipv6"
  shows "parse_ok c off (requiring c p off n (\<lambda>_. (push_layer c p off (length (ctx_rest c off)), Done)))"
  by (rule requiring_ok, rule push_ok [where p = p and n = "ctx_end c - off"])
    (use assms in \<open>auto simp: length_ctx_rest done_ok\<close>)

lemma fixed_leaf_ok:
  "header_min p \<le> n \<Longrightarrow> p \<noteq> Ipv4 \<Longrightarrow> p \<noteq> Ipv6 \<Longrightarrow> parse_ok c off (requiring c p off n (\<lambda>_. (push_layer c p off n, Done)))"
  by (rule requiring_ok, rule push_ok [where p = p and n = n]) (simp_all add: done_ok)

lemma leaf_ok:
  "parse_ok c off (icmp_parse c off)"
  "parse_ok c off (icmpv6_parse c off)"
  "parse_ok c off (igmp_parse c off)"
  "parse_ok c off (dns_parse c off)"
  "parse_ok c off (dhcp_parse c off)"
  "parse_ok c off (ntp_parse c off)"
  "parse_ok c off (sctp_parse c off)"
  "parse_ok c off (raw_parse c off)"
  by (simp_all add: icmp_parse_def icmpv6_parse_def igmp_parse_def dns_parse_def dhcp_parse_def
      ntp_parse_def sctp_parse_def raw_parse_def Let_def rest_leaf_ok fixed_leaf_ok raw_ok)

lemma tls_ok: "parse_ok c off (tls_parse c off)"
  unfolding tls_parse_def Let_def
  by (rule requiring_ok, rule reading_ok) (simp_all add: tls_length_def fixed_leaf_ok)

context parser_env
begin

lemma by_port_ok:
  assumes "length (ctx_bytes c) - off \<le> limit" and "off + n \<le> ctx_end c" and "0 < n"
    and "ctx_bytes c' = ctx_bytes c"
  shows "parse_ok c' (off + n) (parse_by_port reg run parent src dst c' (off + n))"
  using child_with_ok [OF assms] by (simp add: parse_by_port_def raw_ok split: option.split)

lemma tcp_ok:
  assumes "length (ctx_bytes c) - off \<le> limit"
  shows "parse_ok c off (tcp_parse reg run c off)"
  unfolding tcp_parse_def Let_def
proof (rule requiring_ok, rule reading_ok, goal_cases)
  case (2 min_header n)
  show ?case
  proof (cases "n < 20")
    case False
    show ?thesis
      unfolding if_not_P [OF False]
    proof (rule requiring_ok, rule push_ok [where p = Tcp and n = n],
        rule reading_ok, goal_cases)
      case (2 header src)
      then have kid: "parse_ok (push_layer c Tcp off n) (off + n)
          (parse_child run Tls (push_layer c Tcp off n) (off + n))"
        using False by (intro child_ok [OF assms]) auto
      have port: "parse_ok (push_layer c Tcp off n) (off + n)
          (parse_by_port reg run Tcp src dst (push_layer c Tcp off n) (off + n))" for dst
        using 2 False by (intro by_port_ok [OF assms]) auto
      show ?case
        by (rule reading_ok) (use 2 False kid port in \<open>simp_all add: ports_some\<close>)
    qed (use False in \<open>simp_all add: ports_some\<close>)
  qed (simp add: failed_ok)
qed (simp add: tcp_header_len_def)

lemma udp_ok:
  assumes "length (ctx_bytes c) - off \<le> limit"
  shows "parse_ok c off (udp_parse reg run c off)"
  unfolding udp_parse_def Let_def
proof (rule requiring_ok, rule push_ok [where p = Udp and n = 8], rule reading_ok, goal_cases)
  case (2 header src)
  then have kids: "parse_ok (push_layer c Udp off 8) (off + 8)
      (parse_child run q (push_layer c Udp off 8) (off + 8))" for q
    by (intro child_ok [OF assms]) auto
  have port: "parse_ok (push_layer c Udp off 8) (off + 8)
      (parse_by_port reg run Udp src dst (push_layer c Udp off 8) (off + 8))" for dst
    using 2 by (intro by_port_ok [OF assms]) auto
  show ?case
    by (rule reading_ok) (use 2 kids port in \<open>simp_all add: ports_some\<close>)
qed (simp_all add: ports_some)

lemma vxlan_ok:
  assumes "length (ctx_bytes c) - off \<le> limit"
  shows "parse_ok c off (vxlan_parse run c off)"
  unfolding vxlan_parse_def Let_def
  by (rule requiring_ok, rule push_ok [where p = Vxlan and n = 8])
    (auto intro!: child_ok [OF assms])

end

end
