(* ===== verification/Parser.thy ===== *)
theory Parser
  imports Network Transport
begin

text \<open>
  The knot of the parsers and the entry points of \<^verbatim>\<open>Packet\<close> in \<^verbatim>\<open>src/packet.rs\<close>.
  \<^verbatim>\<open>parse_proto ext reg n p\<close> is \<^verbatim>\<open>P::parse\<close> with at most \<^verbatim>\<open>n\<close> nested calls.  Every
  built-in child starts behind a header of at least one byte that \<^verbatim>\<open>require\<close> found in the
  buffer, so more fuel than bytes behind the offset is enough: \<^verbatim>\<open>parse_proto_ok\<close>.
\<close>

section \<open>The knot\<close>

definition parse_body :: "(parsers \<Rightarrow> nat \<Rightarrow> parse_fn) \<Rightarrow> registry \<Rightarrow> parsers \<Rightarrow> parsers" where
  "parse_body ext reg run p =
    (case p of
       Eth \<Rightarrow> eth_parse reg run
     | Vlan \<Rightarrow> vlan_parse reg run
     | Llc \<Rightarrow> llc_parse run
     | Sll \<Rightarrow> sll_parse reg run
     | Mpls \<Rightarrow> mpls_parse run
     | Arp \<Rightarrow> arp_parse
     | Ipv4 \<Rightarrow> ipv4_parse reg run
     | Ipv6 \<Rightarrow> ipv6_parse reg run
     | Ipv6Hopopt \<Rightarrow> ipv6_hopopt_parse reg run
     | Ipv6DestOpts \<Rightarrow> ipv6_dest_opts_parse reg run
     | Ipv6Route \<Rightarrow> ipv6_route_parse reg run
     | Ipv6Frag \<Rightarrow> ipv6_frag_parse reg run
     | Ipv6Mobility \<Rightarrow> ipv6_mobility_parse reg run
     | Ipv6Hip \<Rightarrow> ipv6_hip_parse reg run
     | Ipv6Shim6 \<Rightarrow> ipv6_shim6_parse reg run
     | Ah \<Rightarrow> ah_parse reg run
     | Esp \<Rightarrow> esp_parse
     | Gre \<Rightarrow> gre_parse reg run
     | Icmp \<Rightarrow> icmp_parse
     | Icmpv6 \<Rightarrow> icmpv6_parse
     | Igmp \<Rightarrow> igmp_parse
     | Tcp \<Rightarrow> tcp_parse reg run
     | Udp \<Rightarrow> udp_parse reg run
     | Sctp \<Rightarrow> sctp_parse
     | Dns \<Rightarrow> dns_parse
     | Dhcp \<Rightarrow> dhcp_parse
     | Ntp \<Rightarrow> ntp_parse
     | Vxlan \<Rightarrow> vxlan_parse run
     | Tls \<Rightarrow> tls_parse
     | Raw \<Rightarrow> raw_parse
     | Custom n \<Rightarrow> ext run n)"

fun parse_proto ::
    "(parsers \<Rightarrow> nat \<Rightarrow> parse_fn) \<Rightarrow> registry \<Rightarrow> nat \<Rightarrow> parsers" where
  "parse_proto ext reg 0 p c off = (c, OutOfFuel)"
| "parse_proto ext reg (Suc n) p c off = parse_body ext reg (parse_proto ext reg n) p c off"

context parser_env
begin

lemma body_ok:
  assumes "length (ctx_bytes c) - off \<le> limit"
    and "\<And>n. parse_ok c off (ext run n c off)"
  shows "parse_ok c off (parse_body ext reg run p c off)"
  using eth_ok [OF assms(1)] vlan_ok [OF assms(1)] llc_ok [OF assms(1)] sll_ok [OF assms(1)]
    mpls_ok [OF assms(1)] ipv4_ok [OF assms(1)] ipv6_ok [OF assms(1)] ext_ok [OF assms(1)]
    frag_ok [OF assms(1)] ah_ok [OF assms(1)] gre_ok [OF assms(1)] tcp_ok [OF assms(1)]
    udp_ok [OF assms(1)] vxlan_ok [OF assms(1)] assms(2)
  by (cases p)
    (simp_all add: parse_body_def arp_ok esp_ok leaf_ok tls_ok ipv6_hopopt_parse_def
      ipv6_dest_opts_parse_def ipv6_route_parse_def ipv6_mobility_parse_def ipv6_hip_parse_def
      ipv6_shim6_parse_def)

end

context extension
begin

lemma knot: "parser_env (parse_proto ext reg n) n"
proof (induction n)
  case 0
  show ?case by unfold_locales simp
next
  case (Suc n)
  show ?case
  proof
    fix c :: parse_context and off p
    assume "length (ctx_bytes c) - off < Suc n"
    then have fits: "length (ctx_bytes c) - off \<le> n" by simp
    have "parse_ok c off (ext (parse_proto ext reg n) k c off)" for k
      by (rule ext_ok [OF _ fits]) (rule parser_env.run_ok [OF Suc.IH])
    then show "parse_ok c off (parse_proto ext reg (Suc n) p c off)"
      using parser_env.body_ok [OF Suc.IH fits] by simp
  qed
qed

end

sublocale extension \<subseteq> knot: parser_env "parse_proto ext reg n" n for reg n
  by (rule knot)

context extension
begin

lemma parse_proto_ok:
  "length (ctx_bytes c) - off < n \<Longrightarrow> parse_ok c off (parse_proto ext reg n p c off)"
  by (rule knot.run_ok)

lemma parse_at_ok:
  "length (ctx_bytes c) - off < n \<Longrightarrow> parse_ok c off (parse_at (parse_proto ext reg n) p c off)"
  by (simp add: parse_at_def parse_proto_ok done_ok)

end

section \<open>Packets\<close>

record packet =
  pkt_bytes :: bytes
  pkt_layers :: "layer list"

definition new_packet :: "bytes \<Rightarrow> packet" where
  "new_packet bs = \<lparr>pkt_bytes = bs, pkt_layers = []\<rparr>"

text \<open>The fuel of a root call: one more than the bytes of the packet.\<close>

definition root_fuel :: "packet \<Rightarrow> nat" where
  "root_fuel pkt = Suc (length (pkt_bytes pkt))"

definition try_parse ::
    "(parsers \<Rightarrow> nat \<Rightarrow> parse_fn) \<Rightarrow> registry \<Rightarrow> proto \<Rightarrow> parse_options \<Rightarrow> packet \<Rightarrow> packet \<times> outcome" where
  "try_parse ext reg p opts pkt =
    (let c = new_context (pkt_bytes pkt) opts (pkt_layers pkt) in
     case parse_at (parse_proto ext reg (root_fuel pkt)) p c 0 of
       (c', result) \<Rightarrow> (pkt\<lparr>pkt_layers := ctx_layers c'\<rparr>, result))"

definition try_parse_with_link_type ::
    "(parsers \<Rightarrow> nat \<Rightarrow> parse_fn) \<Rightarrow> registry \<Rightarrow> link_type \<Rightarrow> parse_options \<Rightarrow> packet \<Rightarrow> packet \<times> outcome" where
  "try_parse_with_link_type ext reg lt opts pkt =
    (let c = new_context (pkt_bytes pkt) opts (pkt_layers pkt);
         run = parse_proto ext reg (root_fuel pkt) in
     case (case lt of
             LtEthernet \<Rightarrow> parse_at run Eth c 0
           | LtLinuxSll \<Rightarrow> parse_at run Sll c 0
           | LtIpv4 \<Rightarrow> parse_at run Ipv4 c 0
           | LtIpv6 \<Rightarrow> parse_at run Ipv6 c 0
           | LtRaw \<Rightarrow>
               (case map_option (drop_bit 4) (byte_at (pkt_bytes pkt) 0) of
                  Some v \<Rightarrow>
                    if v = 4 then parse_at run Ipv4 c 0
                    else if v = 6 then parse_at run Ipv6 c 0
                    else (parse_raw c 0, Done)
                | None \<Rightarrow> (parse_raw c 0, Done))
           | _ \<Rightarrow> (c, Failed (UnsupportedLinkType lt))) of
       (c', result) \<Rightarrow> (pkt\<lparr>pkt_layers := ctx_layers c'\<rparr>, result))"

text \<open>\<^verbatim>\<open>parse\<close> and \<^verbatim>\<open>parse_with_link_type\<close> log an error or panic on it.\<close>

definition log_or_panic :: "parse_options \<Rightarrow> packet \<times> outcome \<Rightarrow> packet \<times> outcome" where
  "log_or_panic opts r =
    (case r of (pkt, Failed e) \<Rightarrow> (pkt, if opt_panic opts then Panicked else Done) | _ \<Rightarrow> r)"

definition packet_parse ::
    "(parsers \<Rightarrow> nat \<Rightarrow> parse_fn) \<Rightarrow> registry \<Rightarrow> proto \<Rightarrow> parse_options \<Rightarrow> packet \<Rightarrow> packet \<times> outcome" where
  "packet_parse ext reg p opts pkt = log_or_panic opts (try_parse ext reg p opts pkt)"

definition packet_parse_with_link_type ::
    "(parsers \<Rightarrow> nat \<Rightarrow> parse_fn) \<Rightarrow> registry \<Rightarrow> link_type \<Rightarrow> parse_options \<Rightarrow> packet \<Rightarrow> packet \<times> outcome" where
  "packet_parse_with_link_type ext reg lt opts pkt =
    log_or_panic opts (try_parse_with_link_type ext reg lt opts pkt)"

text \<open>
  Lookup by protocol.  A non-negative index counts from the innermost matching layer, a negative
  one from the outermost; \<^verbatim>\<open>nth\<close> of an iterator is \<^verbatim>\<open>byte_at\<close> of the list it yields.
\<close>

definition matching_layers :: "packet \<Rightarrow> proto \<Rightarrow> layer list" where
  "matching_layers pkt p = filter (\<lambda>l. layer_is l p) (pkt_layers pkt)"

definition nth_layer :: "packet \<Rightarrow> proto \<Rightarrow> int \<Rightarrow> layer option" where
  "nth_layer pkt p index =
    (let matching = matching_layers pkt p in
     if 0 \<le> index then byte_at (rev matching) (nat index)
     else byte_at matching (nat \<bar>index\<bar> - 1))"

definition packet_layer :: "packet \<Rightarrow> proto \<Rightarrow> layer option" where
  "packet_layer pkt p = nth_layer pkt p 0"

definition nth_layer_range :: "packet \<Rightarrow> proto \<Rightarrow> int \<Rightarrow> (nat \<times> nat) option" where
  "nth_layer_range pkt p index = map_option layer_range (nth_layer pkt p index)"

text \<open>The slice of \<^verbatim>\<open>layer_bytes\<close> panics out of range: the inner \<^verbatim>\<open>None\<close>.\<close>

definition nth_layer_bytes :: "packet \<Rightarrow> proto \<Rightarrow> int \<Rightarrow> bytes option option" where
  "nth_layer_bytes pkt p index =
    map_option (\<lambda>l. layer_bytes l (pkt_bytes pkt)) (nth_layer pkt p index)"

end
