(* ===== verification/Packet.thy ===== *)
theory Packet
  imports Parser
begin

text \<open>
  What a parse of a packet guarantees: the properties of \<^verbatim>\<open>try_parse\<close>,
  \<^verbatim>\<open>try_parse_with_link_type\<close> and the lookups of \<^verbatim>\<open>src/packet.rs\<close>, over the parsers of
  the theories below and any extension that keeps their contract.
\<close>


text \<open>A custom protocol: the failing child of the unit tests in \<^verbatim>\<open>src/packet.rs\<close>.\<close>

definition failing_child_parse :: "parsers \<Rightarrow> nat \<Rightarrow> parse_fn" where
  "failing_child_parse run n c off =
    requiring c (Custom n) off 1 (\<lambda>_.
    let c = push_layer c (Custom n) off 1 in
    (c, Failed (Malformed (Custom n) ''test field'' ''intentional test failure'')))"

interpretation failing_child: extension failing_child_parse
proof
  fix limit :: nat and run :: parsers and c :: parse_context and off n
  show "parse_ok c off (failing_child_parse run n c off)"
    unfolding failing_child_parse_def Let_def
    by (rule requiring_ok, rule push_ok [where p = "Custom n" and n = 1]) (simp_all add: failed_ok)
qed

section \<open>Properties\<close>

lemma root_ok:
  assumes "extension ext"
  shows "parse_ok (new_context (pkt_bytes pkt) opts ls) 0
    (parse_at (parse_proto ext reg (root_fuel pkt)) p (new_context (pkt_bytes pkt) opts ls) 0)"
  by (rule extension.parse_at_ok [OF assms]) (simp add: root_fuel_def new_context_def)

lemma ctx_end_new [simp]: "ctx_end (new_context bs opts ls) = length bs"
  by (simp add: ctx_end_def new_context_def)

lemma parse_ok_new:
  assumes "parse_ok (new_context bs opts ls) 0 (c', out)"
  obtains new where "ctx_layers c' = ls @ new" "out = Done \<or> (\<exists>e. out = Failed e)"
    "laid_out 0 (length bs) new" "within_ip bs new" "depth_ok (opt_max_depth opts) ls new"
proof -
  obtain new where "out \<noteq> Panicked" "out \<noteq> OutOfFuel"
    "c' = (new_context bs opts ls)\<lparr>ctx_layers := ls @ new\<rparr>"
    "laid_out 0 (length bs) new" "within_ip bs new" "depth_ok (opt_max_depth opts) ls new"
    using assms by (elim parse_okE) (simp add: new_context_def ctx_end_def)
  then show thesis by (intro that [of new]) (cases out; simp)+
qed

lemma link_type_root_ok:
  assumes "extension ext"
  obtains c' out where
    "try_parse_with_link_type ext reg lt opts pkt = (pkt\<lparr>pkt_layers := ctx_layers c'\<rparr>, out)"
    "parse_ok (new_context (pkt_bytes pkt) opts (pkt_layers pkt)) 0 (c', out)"
proof -
  let ?c = "new_context (pkt_bytes pkt) opts (pkt_layers pkt)"
  let ?run = "parse_proto ext reg (root_fuel pkt)"
  define r where "r = (case lt of
             LtEthernet \<Rightarrow> parse_at ?run Eth ?c 0
           | LtLinuxSll \<Rightarrow> parse_at ?run Sll ?c 0
           | LtIpv4 \<Rightarrow> parse_at ?run Ipv4 ?c 0
           | LtIpv6 \<Rightarrow> parse_at ?run Ipv6 ?c 0
           | LtRaw \<Rightarrow>
               (case map_option (drop_bit 4) (byte_at (pkt_bytes pkt) 0) of
                  Some v \<Rightarrow>
                    if v = 4 then parse_at ?run Ipv4 ?c 0
                    else if v = 6 then parse_at ?run Ipv6 ?c 0
                    else (parse_raw ?c 0, Done)
                | None \<Rightarrow> (parse_raw ?c 0, Done))
           | _ \<Rightarrow> (?c, Failed (UnsupportedLinkType lt)))"
  have ok: "parse_ok ?c 0 r"
    using root_ok [OF assms, of pkt opts "pkt_layers pkt" reg] raw_ok [of ?c 0] failed_ok [of ?c 0]
    unfolding r_def by (cases lt) (simp_all split: option.split)
  obtain c' out where "r = (c', out)" by (cases r)
  with ok show thesis
    by (intro that [of c' out]) (simp_all add: try_parse_with_link_type_def Let_def r_def [symmetric])
qed

text \<open>C1: parsing always returns.  On every packet, for every root protocol, link type, registry,
  option set and admissible custom parser, it ends with success or a structured error, does not
  panic, keeps the bytes, and only appends layers; these hold at least the header of their protocol,
  and are in order, disjoint and inside the packet, and the structured layers behind an IP header
  stay inside the length it declares.\<close>

theorem try_parse_sound:
  assumes "extension ext"
  shows "(\<exists>out new. try_parse ext reg p opts pkt =
        (pkt\<lparr>pkt_layers := pkt_layers pkt @ new\<rparr>, out) \<and>
      (out = Done \<or> (\<exists>e. out = Failed e)) \<and> laid_out 0 (length (pkt_bytes pkt)) new \<and>
      within_ip (pkt_bytes pkt) new) \<and>
    (\<exists>out new. try_parse_with_link_type ext reg lt opts pkt =
        (pkt\<lparr>pkt_layers := pkt_layers pkt @ new\<rparr>, out) \<and>
      (out = Done \<or> (\<exists>e. out = Failed e)) \<and> laid_out 0 (length (pkt_bytes pkt)) new \<and>
      within_ip (pkt_bytes pkt) new)"
proof
  let ?c = "new_context (pkt_bytes pkt) opts (pkt_layers pkt)"
  obtain c' out where r: "parse_at (parse_proto ext reg (root_fuel pkt)) p ?c 0 = (c', out)"
    by fastforce
  then have "parse_ok ?c 0 (c', out)" using root_ok [OF assms] by metis
  then show "\<exists>out new. try_parse ext reg p opts pkt =
        (pkt\<lparr>pkt_layers := pkt_layers pkt @ new\<rparr>, out) \<and>
      (out = Done \<or> (\<exists>e. out = Failed e)) \<and> laid_out 0 (length (pkt_bytes pkt)) new \<and>
      within_ip (pkt_bytes pkt) new"
    by (elim parse_ok_new) (auto simp: try_parse_def Let_def r)
  obtain c' out where r: "try_parse_with_link_type ext reg lt opts pkt =
      (pkt\<lparr>pkt_layers := ctx_layers c'\<rparr>, out)" and "parse_ok ?c 0 (c', out)"
    using link_type_root_ok [OF assms] by blast
  then show "\<exists>out new. try_parse_with_link_type ext reg lt opts pkt =
        (pkt\<lparr>pkt_layers := pkt_layers pkt @ new\<rparr>, out) \<and>
      (out = Done \<or> (\<exists>e. out = Failed e)) \<and> laid_out 0 (length (pkt_bytes pkt)) new \<and>
      within_ip (pkt_bytes pkt) new"
    by (elim parse_ok_new) auto
qed

theorem try_parse_sound_witness:
  "\<exists>out new. try_parse failing_child_parse (register new_registry Udp 4242 (Custom 0)) Eth
      default_options (new_packet (replicate 60 0x45)) =
    ((new_packet (replicate 60 0x45))\<lparr>pkt_layers := pkt_layers (new_packet (replicate 60 0x45)) @ new\<rparr>, out) \<and>
    (out = Done \<or> (\<exists>e. out = Failed e)) \<and>
    laid_out 0 (length (pkt_bytes (new_packet (replicate 60 0x45)))) new \<and>
    within_ip (pkt_bytes (new_packet (replicate 60 0x45))) new"
  by (rule try_parse_sound [OF failing_child.extension_axioms, THEN conjunct1])

lemma laid_out_in_range:
  "laid_out lo hi ls \<Longrightarrow> l \<in> set ls \<Longrightarrow> lo \<le> layer_offset l \<and> 0 < layer_len l \<and>
    header_min (layer_protocol l) \<le> layer_len l \<and> layer_offset l + layer_len l \<le> hi"
  proof (induction ls arbitrary: lo)
  case (Cons k ls)
  have "0 < layer_len k" using Cons.prems(1) less_le_trans [OF header_min_pos [of "layer_protocol k"]] by simp
  then show ?case using Cons by fastforce
qed simp

lemma try_parse_layers:
  assumes "extension ext" and "try_parse ext reg p opts pkt = (pkt', out)"
  obtains new where "pkt' = pkt\<lparr>pkt_layers := pkt_layers pkt @ new\<rparr>"
    "laid_out 0 (length (pkt_bytes pkt)) new"
    "depth_ok (opt_max_depth opts) (pkt_layers pkt) new"
proof -
  let ?c = "new_context (pkt_bytes pkt) opts (pkt_layers pkt)"
  obtain c' out' where r: "parse_at (parse_proto ext reg (root_fuel pkt)) p ?c 0 = (c', out')"
    by fastforce
  then have "parse_ok ?c 0 (c', out')" using root_ok [OF assms(1)] by metis
  with assms(2) r show thesis
    by (elim parse_ok_new) (auto simp: try_parse_def Let_def intro: that)
qed

lemma link_type_layers:
  assumes "extension ext" and "try_parse_with_link_type ext reg lt opts (new_packet bs) = (pkt, out)"
  shows "pkt_bytes pkt = bs" "laid_out 0 (length bs) (pkt_layers pkt)" "within_ip bs (pkt_layers pkt)"
proof -
  obtain c' out' where "try_parse_with_link_type ext reg lt opts (new_packet bs) =
      ((new_packet bs)\<lparr>pkt_layers := ctx_layers c'\<rparr>, out')"
    "parse_ok (new_context bs opts []) 0 (c', out')"
    using link_type_root_ok [OF assms(1), of reg lt opts "new_packet bs"] by (auto simp: new_packet_def)
  then show "pkt_bytes pkt = bs" "laid_out 0 (length bs) (pkt_layers pkt)" "within_ip bs (pkt_layers pkt)"
    using assms(2) by (auto elim!: parse_ok_new simp: new_packet_def)
qed

lemma byte_at_mem: "byte_at xs i = Some x \<Longrightarrow> x \<in> set xs"
  by (auto simp: byte_at_def split: if_splits)

lemma nth_layer_mem: "nth_layer pkt q i = Some l \<Longrightarrow> l \<in> set (matching_layers pkt q)"
  by (auto simp: nth_layer_def Let_def split: if_splits dest: byte_at_mem)

text \<open>A byte lookup on a freshly parsed packet never panics: every layer the table names is a
  slice of the packet of the recorded length.\<close>

lemma parsed_layer_bytes:
  assumes "extension ext" and "try_parse ext reg p opts (new_packet bs) = (pkt, out)"
    and "nth_layer pkt q i = Some l"
  shows "\<exists>ls. nth_layer_bytes pkt q i = Some (Some ls) \<and> length ls = layer_len l \<and> 0 < length ls \<and>
    ls = take (layer_len l) (drop (layer_offset l) bs)"
proof -
  obtain new where new: "pkt = (new_packet bs)\<lparr>pkt_layers := new\<rparr>" "laid_out 0 (length bs) new"
    using try_parse_layers [OF assms(1,2)] by (auto simp: new_packet_def)
  have "l \<in> set (pkt_layers pkt)"
    using nth_layer_mem [OF assms(3)] by (simp add: matching_layers_def)
  with new have "0 < layer_len l" "layer_offset l + layer_len l \<le> length bs"
    by (auto dest: laid_out_in_range)
  with assms(3) new(1) show ?thesis
    by (simp add: nth_layer_bytes_def layer_bytes_def layer_range_def new_packet_def)
qed

lemma parsed_layer_bytes_witness:
  "\<exists>ls. nth_layer_bytes (fst (try_parse failing_child_parse new_registry Raw default_options
      (new_packet [1, 2, 3]))) Raw 0 = Some (Some ls) \<and>
    length ls = 3 \<and> 0 < length ls \<and> ls = take 3 (drop 0 [1, 2, 3])"
proof -
  let ?l = "\<lparr>layer_protocol = Raw, layer_offset = 0, layer_len = 3\<rparr>"
  have run: "try_parse failing_child_parse new_registry Raw default_options (new_packet [1, 2, 3]) =
      (\<lparr>pkt_bytes = [1, 2, 3], pkt_layers = [?l]\<rparr>, Done)"
    by (simp add: try_parse_def Let_def parse_at_def root_fuel_def new_packet_def new_context_def
        default_options_def can_push_layer_def parse_body_def raw_parse_def parse_raw_def ctx_end_def
        checked_sub_def append_layer_def)
  have look: "nth_layer \<lparr>pkt_bytes = [1, 2, 3], pkt_layers = [?l]\<rparr> Raw 0 = Some ?l"
    by (simp add: nth_layer_def matching_layers_def layer_is_def byte_at_def)
  show ?thesis
    using parsed_layer_bytes [OF failing_child.extension_axioms run look] by (simp add: run)
qed

text \<open>The number of structured layers a table under a depth limit can hold.\<close>

lemma depth_ok_count:
  assumes "depth_ok (Some m) [] new"
  shows "length (filter (\<lambda>l. \<not> layer_is l Raw) new) \<le> m"
proof -
  have "layer_is l Raw" if l: "l \<in> set (drop m new)" for l
  proof -
    obtain i where i: "i < length new - m" "l = new ! (m + i)"
      using l by (auto simp: in_set_conv_nth)
    have "\<not> layer_is (new ! (m + i)) Raw \<Longrightarrow> m + i < m"
      using assms i(1) by (auto simp: depth_ok_def dest: spec [of _ "m + i"])
    then show ?thesis using i(2) by auto
  qed
  then have "filter (\<lambda>l. \<not> layer_is l Raw) (drop m new) = []" by (auto simp: filter_empty_conv)
  then have "filter (\<lambda>l. \<not> layer_is l Raw) new = filter (\<lambda>l. \<not> layer_is l Raw) (take m new)"
    by (metis append_Nil2 append_take_drop_id filter_append)
  then show ?thesis
    using length_filter_le [of "\<lambda>l. \<not> layer_is l Raw" "take m new"] by simp
qed

text \<open>C40: \<^verbatim>\<open>max_depth\<close> bounds the structured layers.  Whatever the packet, a parse of a fresh
  packet under \<^verbatim>\<open>Some m\<close> records at most \<^verbatim>\<open>m\<close> layers other than \<^verbatim>\<open>Raw\<close>.\<close>

theorem max_depth_bounds_layers:
  assumes "extension ext" and "opt_max_depth opts = Some m"
  shows "length (filter (\<lambda>l. \<not> layer_is l Raw)
      (pkt_layers (fst (try_parse ext reg p opts (new_packet bs))))) \<le> m"
proof -
  obtain pkt out where r: "try_parse ext reg p opts (new_packet bs) = (pkt, out)" by fastforce
  then show ?thesis
    using try_parse_layers [OF assms(1) r] depth_ok_count assms(2) by (fastforce simp: new_packet_def)
qed

theorem max_depth_bounds_layers_witness:
  "length (filter (\<lambda>l. \<not> layer_is l Raw) (pkt_layers (fst (try_parse failing_child_parse new_registry Eth
      \<lparr>opt_panic = False, opt_max_depth = Some 2, opt_fallback = True\<rparr>
      (new_packet (replicate 60 0x45)))))) \<le> 2"
  by (rule max_depth_bounds_layers [OF failing_child.extension_axioms]) simp

text \<open>C37: child errors are recovered.  With the fallback option, dispatching to any child succeeds;
  when the child failed, every layer it had added is gone and its region is recorded raw, exactly as
  if it had been dispatched to \<^verbatim>\<open>Raw\<close>.\<close>

theorem child_error_fallback:
  assumes "extension ext" and "length (ctx_bytes c) - off < n" and "opt_fallback (ctx_options c)"
  shows "snd (parse_child (parse_proto ext reg n) p c off) = Done \<and>
    (\<forall>c' e. can_push_layer c \<longrightarrow> parse_proto ext reg n p c off = (c', Failed e) \<longrightarrow>
       parse_child (parse_proto ext reg n) p c off = (parse_raw c off, Done))"
proof -
  obtain c' out where r: "parse_proto ext reg n p c off = (c', out)" by fastforce
  then have "parse_ok c off (c', out)" using extension.parse_proto_ok [OF assms(1,2)] by metis
  then have "out \<noteq> Panicked" "out \<noteq> OutOfFuel"
    and "c'\<lparr>ctx_layers := take (length (ctx_layers c)) (ctx_layers c')\<rparr> = c"
    by (auto elim!: parse_okE)
  with assms(3) show ?thesis
    by (cases out) (auto simp: parse_child_def parse_child_with_def Let_def r)
qed

theorem child_error_fallback_witness:
  "snd (parse_child (parse_proto failing_child_parse new_registry 3) Udp
      (new_context [1, 2] default_options []) 0) = Done"
  by (rule child_error_fallback [OF failing_child.extension_axioms, THEN conjunct1])
    (simp_all add: new_context_def default_options_def)

text \<open>The index convention of \<^verbatim>\<open>nth_layer\<close>.  With \<^verbatim>\<open>m\<close> matching layers, index \<^verbatim>\<open>k\<close>
  and index \<^verbatim>\<open>k - m\<close> name the same layer, \<^verbatim>\<open>0\<close> is the innermost and \<^verbatim>\<open>-1\<close> the
  outermost one, and any other index finds nothing.\<close>

lemma nth_layer_convention:
  "nth_layer pkt p (int k) =
     (if k < length (matching_layers pkt p)
      then Some (matching_layers pkt p ! (length (matching_layers pkt p) - 1 - k)) else None) \<and>
   nth_layer pkt p (- int k - 1) =
     (if k < length (matching_layers pkt p) then Some (matching_layers pkt p ! k) else None) \<and>
   (k < length (matching_layers pkt p) \<longrightarrow>
     nth_layer pkt p (int k) = nth_layer pkt p (int k - int (length (matching_layers pkt p))))"
proof -
  let ?m = "matching_layers pkt p"
  have neg: "nth_layer pkt p (- int j - 1) = (if j < length ?m then Some (?m ! j) else None)" for j
  proof -
    have "nat \<bar>- int j - 1\<bar> - 1 = j" by simp
    then show ?thesis by (simp add: nth_layer_def Let_def byte_at_def del: of_nat_Suc)
  qed
  have pos: "nth_layer pkt p (int j) =
      (if j < length ?m then Some (?m ! (length ?m - 1 - j)) else None)" for j
    by (simp add: nth_layer_def Let_def byte_at_def rev_nth)
  have "nth_layer pkt p (int k - int (length ?m)) = Some (?m ! (length ?m - 1 - k))"
    if "k < length ?m"
  proof -
    have "int k - int (length ?m) = - int (length ?m - 1 - k) - 1"
      using that by (simp add: of_nat_diff)
    then show ?thesis using neg [of "length ?m - 1 - k"] that by simp
  qed
  then show ?thesis using pos [of k] neg [of k] by simp
qed

lemma nth_layer_convention_witness:
  "nth_layer (new_packet [1]) Eth (int 0) = None \<and> nth_layer (new_packet [1]) Eth (- int 0 - 1) = None"
  using nth_layer_convention [of "new_packet [1]" Eth 0]
  by (simp add: matching_layers_def new_packet_def)

text \<open>A second parse does not look at the layers of the first one.  It appends the same layer
  again, although a comment in \<^verbatim>\<open>try_parse\<close> says that the context checks for existing layers.\<close>

lemma reparse_duplicates:
  "let parse = (\<lambda>pkt. fst (try_parse ext reg Igmp default_options pkt)) in
   map layer_protocol (pkt_layers (parse (parse (new_packet (replicate 8 0x11))))) = [Igmp, Igmp]"
  by (simp add: try_parse_def Let_def parse_at_def root_fuel_def new_packet_def new_context_def
      default_options_def can_push_layer_def parse_body_def igmp_parse_def requiring_def require_def
      ctx_end_def checked_add_def usize_max_def slice_def push_layer_def append_layer_def)

text \<open>
  The split of a bounded payload: what the children add stays in front of the bound, and the one
  layer that may follow is the raw trailer behind it.
\<close>

lemma parse_bounded_split:
  assumes run: "parse_bounded (Some e) children c = (c', Done)"
    and child: "\<And>c'. c' = c\<lparr>ctx_declared_end := narrow_end (ctx_declared_end c) (Some e)\<rparr> \<Longrightarrow>
      parse_ok c' off (children c')"
  obtains inner trailer where "ctx_layers c' = ctx_layers c @ inner @ trailer"
    "laid_out off (min e (ctx_end c)) inner"
    "trailer = [] \<or> e < ctx_end c \<and>
       trailer = [\<lparr>layer_protocol = Raw, layer_offset = e, layer_len = ctx_end c - e\<rparr>]"
proof -
  let ?c = "c\<lparr>ctx_declared_end := narrow_end (ctx_declared_end c) (Some e)\<rparr>"
  obtain c1 out where r: "children ?c = (c1, out)" by fastforce
  obtain new where new: "c1 = ?c\<lparr>ctx_layers := ctx_layers c @ new\<rparr>"
    "laid_out off (min e (ctx_end c)) new"
    using child [OF refl] ctx_end_narrow [of c "Some e"] unfolding r by (elim parse_okE) simp
  let ?c' = "c\<lparr>ctx_layers := ctx_layers c @ new\<rparr>"
  have c1: "c1\<lparr>ctx_declared_end := ctx_declared_end c\<rparr> = ?c'" using new(1) by simp
  have "parse_bounded (Some e) children c = and_then (?c', out) (\<lambda>c. parse_raw c e)"
    unfolding parse_bounded_def Let_def r using c1 by simp
  with run have "c' = parse_raw ?c' e" by (cases out) (auto simp: and_then_def)
  then show thesis
    using parse_raw_cases [of ?c' e] new(2) that [of new "[]"] that [of new]
    by (auto simp: append_layer_def)
qed

lemma requiring_DoneE:
  assumes "requiring c p off n k = (c', Done)"
  obtains "off + n \<le> ctx_end c" "length (take n (drop off (ctx_bytes c))) = n"
    "k (take n (drop off (ctx_bytes c))) = (c', Done)"
  using assms require_cases [OF refl, of c p off n] by (auto simp: requiring_def)

lemma reading_DoneE:
  assumes "reading c field k = (c', Done)"
  obtains v where "field = Some v" "k v = (c', Done)"
  using assms by (auto simp: reading_def split: option.splits)

lemma view_raw_take: "hi \<le> n \<Longrightarrow> n \<le> length bs \<Longrightarrow> view_raw lo hi f (take n bs) = view_raw lo hi f bs"
  by (simp add: view_raw_def slice_def min_def drop_take take_take)

text \<open>C36: IPv4 does not hand its children bytes behind the total length.  When the total length is
  set, every layer of the datagram lies inside it; the only layer behind it is the raw trailer.\<close>

theorem ipv4_payload_bounded:
  assumes ext: "extension ext" and fuel: "length (ctx_bytes c) - off \<le> n"
    and size: "length (ctx_bytes c) \<le> usize_max"
    and run: "ipv4_parse reg (parse_proto ext reg n) c off = (c', Done)"
    and len: "ipv4_total_length (drop off (ctx_bytes c)) = Some len" "len \<noteq> 0"
  shows "\<exists>inner trailer. ctx_layers c' = ctx_layers c @ inner @ trailer \<and>
    laid_out off (off + unat len) inner \<and>
    (trailer = [] \<or> trailer = [\<lparr>layer_protocol = Raw, layer_offset = off + unat len,
                               layer_len = ctx_end c - (off + unat len)\<rparr>])"
proof -
  have env: "parser_env (parse_proto ext reg n) n" by (rule extension.knot [OF ext])
  let ?run = "parse_proto ext reg n"
  obtain hl where hl: "\<not> hl < 20" "off + hl \<le> ctx_end c"
    and header: "length (take hl (drop off (ctx_bytes c))) = hl"
    and rest: "reading (push_layer c Ipv4 off hl) (ipv4_total_length (take hl (drop off (ctx_bytes c))))
      (\<lambda>tl. if unat tl \<noteq> 0 \<and> unat tl < hl
         then (push_layer c Ipv4 off hl, Failed (Malformed Ipv4 ''total length''
                ''total length is smaller than the header length''))
         else parse_bounded (if unat tl \<noteq> 0 then Some (saturating_add off (unat tl)) else None)
                (ipv4_children reg ?run (take hl (drop off (ctx_bytes c))) (off + hl))
                (push_layer c Ipv4 off hl)) = (c', Done)"
    using run unfolding ipv4_parse_def Let_def
    by - (elim requiring_DoneE reading_DoneE, split if_split_asm, simp, elim requiring_DoneE,
        rule that; assumption)
  let ?c = "push_layer c Ipv4 off hl" and ?header = "take hl (drop off (ctx_bytes c))"
  have "ipv4_total_length ?header = Some len"
    using len(1) hl(1) header by (simp add: ipv4_total_length_def view_raw_take)
  moreover from len(2) have "unat len \<noteq> 0" by (simp add: unat_eq_0)
  ultimately have short: "hl \<le> unat len"
    and bounded: "parse_bounded (Some (saturating_add off (unat len)))
      (ipv4_children reg ?run ?header (off + hl)) ?c = (c', Done)"
    using rest by (auto simp: reading_def split: if_splits)
  let ?e = "saturating_add off (unat len)"
  obtain inner trailer where split: "ctx_layers c' = ctx_layers ?c @ inner @ trailer"
    "laid_out (off + hl) (min ?e (ctx_end ?c)) inner"
    "trailer = [] \<or> ?e < ctx_end ?c \<and>
       trailer = [\<lparr>layer_protocol = Raw, layer_offset = ?e, layer_len = ctx_end ?c - ?e\<rparr>]"
    by (rule parse_bounded_split [OF bounded, where off = "off + hl"])
      (use parser_env.ipv4_children_ok [OF env fuel hl(2) _ header] hl(1) in auto)
  have e: "?e < ctx_end c \<Longrightarrow> ?e = off + unat len"
    using size ctx_end_le [of c] by (auto simp: saturating_add_def min_def split: if_splits)
  have inner: "laid_out (off + hl) (off + unat len) inner"
    using split(2) by (rule laid_out_mono) (auto simp: saturating_add_def)
  obtain pushed where pushed: "ctx_layers ?c = ctx_layers c @ pushed" "laid_out off (off + hl) pushed"
    using hl(1) that [of "[]"] that [of "[\<lparr>layer_protocol = Ipv4, layer_offset = off, layer_len = hl\<rparr>]"]
    by (cases "can_push_layer c") (auto simp: push_layer_def append_layer_def)
  have "laid_out off (off + unat len) (pushed @ inner)"
    by (rule laid_out_append [OF pushed(2) inner]) (use short in auto)
  with split(1,3) pushed(1) e show ?thesis
    by (intro exI [of _ "pushed @ inner"] exI [of _ trailer]) auto
qed

text \<open>Definitions that evaluate a parser on a concrete packet by simplification.\<close>

lemmas eval_context = new_context_def default_options_def requiring_def reading_def require_def
  checked_add_def checked_sub_def usize_max_def ctx_end_def push_layer_def append_layer_def
  can_push_layer_def parse_raw_def and_then_def parse_bounded_def narrow_end_def saturating_add_def
  parse_registered_def new_registry_def layer_is_def slice_def byte_at_def

lemmas eval_fields = view_raw_def field_raw_def apply_spec_def read_unaligned_def underlay_size_def
  whole_def be_nat_Cons

lemmas eval_ipv4 = ipv4_parse_def ipv4_header_len_def ipv4_total_length_def ipv4_children_def
  ipv4_fragment_offset_def ipv4_protocol_def ipv4_dispatch_def ip_protocol_defs

text \<open>A datagram of 22 bytes (a header and two bytes of an unknown protocol) in a 24-byte frame.\<close>

definition sample_ipv4 :: bytes where
  "sample_ipv4 = [0x45, 0, 0, 22, 0, 1, 0, 0, 64, 253, 0, 0, 10, 0, 0, 1, 10, 0, 0, 2, 7, 7, 9, 9]"

theorem ipv4_payload_bounded_witness:
  "\<exists>inner trailer. ctx_layers (fst (ipv4_parse new_registry (parse_proto failing_child_parse new_registry 24)
      (new_context sample_ipv4 default_options []) 0)) = [] @ inner @ trailer \<and>
    laid_out 0 (0 + unat (22 :: 16 word)) inner \<and>
    (trailer = [] \<or> trailer = [\<lparr>layer_protocol = Raw, layer_offset = 0 + unat (22 :: 16 word),
                               layer_len = length sample_ipv4 - (0 + unat (22 :: 16 word))\<rparr>])"
proof -
  let ?c = "new_context sample_ipv4 default_options []"
  let ?r = "ipv4_parse new_registry (parse_proto failing_child_parse new_registry 24) ?c 0"
  have ok: "snd ?r = Done"
    by (simp add: eval_ipv4 eval_context eval_fields sample_ipv4_def)
  have len: "ipv4_total_length (drop 0 (ctx_bytes ?c)) = Some 22"
    by (simp add: eval_ipv4 eval_context eval_fields sample_ipv4_def)
  have size: "length (ctx_bytes ?c) - 0 \<le> 24" "length (ctx_bytes ?c) \<le> usize_max"
    by (simp_all add: new_context_def sample_ipv4_def usize_max_def)
  have empty: "ctx_layers ?c = []" by (simp add: new_context_def)
  have nonzero: "(22 :: 16 word) \<noteq> 0" by simp
  have run: "?r = (fst ?r, Done)" using ok by (metis prod.collapse)
  show ?thesis
    using ipv4_payload_bounded [OF failing_child.extension_axioms size(1,2) run len nonzero]
    by (simp only: ctx_end_new empty)
qed

text \<open>MPLS looks at the byte behind its label stack in the captured bytes, not in the region
  an enclosing header declares.  A label stack that ends its region is accepted when the capture
  ends there too, but in strict mode it is an error when the frame goes on with a byte whose high
  nibble is 4 or 6.\<close>

lemma mpls_peeks_behind_region:
  "let strict = \<lparr>opt_panic = False, opt_max_depth = None, opt_fallback = False\<rparr>;
       region = (\<lambda>bs. \<lparr>ctx_bytes = bs, ctx_declared_end = Some 4, ctx_options = strict, ctx_layers = []\<rparr>);
       run = parse_proto ext reg (Suc n) in
   snd (mpls_parse run (region [0, 0, 1, 64]) 0) = Done \<and>
   snd (mpls_parse run (region [0, 0, 1, 64, 0x45]) 0) = Failed (Truncated Ipv4 4 20 0)"
  by (simp add: mpls_parse_def mpls_stack.simps mpls_bottom_of_stack_def eval_context eval_fields
      parse_child_def parse_child_with_def parse_body_def ipv4_parse_def truncated_def Let_def)

end
