(* ===== verification/Flow.thy ===== *)
theory Flow
  imports Network "HOL-Library.Product_Lexorder"
begin

text \<open>
  Flow identifiers (\<^verbatim>\<open>src/packet/flow.rs\<close>).  \<^verbatim>\<open>IpAddr\<close> of the standard library is an
  enumeration of the two address families with the derived order: every IPv4 address is below
  every IPv6 address, and within a family the addresses compare as big-endian numbers.  Its order is the
  instance of \<^verbatim>\<open>linorder\<close> here, and the tuples compare lexicographically.
\<close>

datatype ip_addr = V4 "32 word" | V6 "128 word"

instantiation ip_addr :: linorder
begin

fun less_eq_ip_addr :: "ip_addr \<Rightarrow> ip_addr \<Rightarrow> bool" where
  "less_eq_ip_addr (V4 a) (V4 b) = (a \<le> b)"
| "less_eq_ip_addr (V4 a) (V6 b) = True"
| "less_eq_ip_addr (V6 a) (V4 b) = False"
| "less_eq_ip_addr (V6 a) (V6 b) = (a \<le> b)"

definition less_ip_addr :: "ip_addr \<Rightarrow> ip_addr \<Rightarrow> bool" where
  "less_ip_addr a b = (a \<le> b \<and> \<not> b \<le> a)"

instance
proof
  fix x y z :: ip_addr
  show "x < y \<longleftrightarrow> x \<le> y \<and> \<not> y \<le> x" by (simp add: less_ip_addr_def)
  show "x \<le> x" by (cases x) simp_all
  show "x \<le> y \<Longrightarrow> y \<le> z \<Longrightarrow> x \<le> z" by (cases x; cases y; cases z) auto
  show "x \<le> y \<Longrightarrow> y \<le> x \<Longrightarrow> x = y" by (cases x; cases y) auto
  show "x \<le> y \<or> y \<le> x" by (cases x; cases y) (auto simp: linear)
qed

end

datatype flow_id =
    FlowIp ip_addr
  | Tuple2 ip_addr ip_addr
  | Tuple3 ip_addr ip_addr ip_protocol
  | Tuple4 ip_addr ip_addr "16 word" "16 word"
  | Tuple5 ip_addr ip_addr "16 word" "16 word" ip_protocol

text \<open>The const parameter \<^verbatim>\<open>SYMMETRIC\<close> of the type is the first argument.\<close>

definition flow_of_ip :: "bool \<Rightarrow> ip_addr \<Rightarrow> flow_id" where
  "flow_of_ip symmetric ip = FlowIp ip"

definition flow_of_tuple2 :: "bool \<Rightarrow> ip_addr \<Rightarrow> ip_addr \<Rightarrow> flow_id" where
  "flow_of_tuple2 symmetric src dst =
    (if \<not> symmetric then Tuple2 src dst
     else if src < dst then Tuple2 src dst else Tuple2 dst src)"

definition flow_of_tuple3 :: "bool \<Rightarrow> ip_addr \<Rightarrow> ip_addr \<Rightarrow> ip_protocol \<Rightarrow> flow_id" where
  "flow_of_tuple3 symmetric src dst proto =
    (if \<not> symmetric then Tuple3 src dst proto
     else if src < dst then Tuple3 src dst proto else Tuple3 dst src proto)"

definition flow_of_tuple4 ::
    "bool \<Rightarrow> ip_addr \<Rightarrow> ip_addr \<Rightarrow> 16 word \<Rightarrow> 16 word \<Rightarrow> flow_id" where
  "flow_of_tuple4 symmetric src dst sport dport =
    (if \<not> symmetric then Tuple4 src dst sport dport
     else if (src, sport) \<le> (dst, dport) then Tuple4 src dst sport dport
     else Tuple4 dst src dport sport)"

definition flow_of_tuple5 ::
    "bool \<Rightarrow> ip_addr \<Rightarrow> ip_addr \<Rightarrow> 16 word \<Rightarrow> 16 word \<Rightarrow> ip_protocol \<Rightarrow> flow_id" where
  "flow_of_tuple5 symmetric src dst sport dport proto =
    (if \<not> symmetric then Tuple5 src dst sport dport proto
     else if (src, sport) \<le> (dst, dport) then Tuple5 src dst sport dport proto
     else Tuple5 dst src dport sport proto)"

section \<open>Properties\<close>

text \<open>C38: a symmetric flow identifier names a conversation.  Two packets of the same tuple shape get
  the same identifier exactly when their tuples are equal or the one is the other in the opposite
  direction; so a request and its response agree, and no two conversations are merged.\<close>

theorem symmetric_flow_iff:
  "(flow_of_tuple5 True a b p q k = flow_of_tuple5 True a' b' p' q' k' \<longleftrightarrow>
      k = k' \<and> ((a, b, p, q) = (a', b', p', q') \<or> (a, b, p, q) = (b', a', q', p'))) \<and>
   (flow_of_tuple4 True a b p q = flow_of_tuple4 True a' b' p' q' \<longleftrightarrow>
      (a, b, p, q) = (a', b', p', q') \<or> (a, b, p, q) = (b', a', q', p')) \<and>
   (flow_of_tuple3 True a b k = flow_of_tuple3 True a' b' k' \<longleftrightarrow>
      k = k' \<and> ((a, b) = (a', b') \<or> (a, b) = (b', a'))) \<and>
   (flow_of_tuple2 True a b = flow_of_tuple2 True a' b' \<longleftrightarrow>
      (a, b) = (a', b') \<or> (a, b) = (b', a'))"
  unfolding flow_of_tuple5_def flow_of_tuple4_def flow_of_tuple3_def flow_of_tuple2_def
  by (intro conjI) (auto simp: less_eq_prod_simp split: if_splits)

text \<open>An asymmetric flow identifier keeps the direction: the constructors of every shape are
  injective, and the identifiers of the two directions agree only on a conversation of an endpoint
  with itself.\<close>

lemma asymmetric_flow_injective:
  "(flow_of_tuple5 False a b p q k = flow_of_tuple5 False a' b' p' q' k' \<longleftrightarrow>
      (a, b, p, q, k) = (a', b', p', q', k')) \<and>
   (flow_of_tuple5 False a b p q k = flow_of_tuple5 False b a q p k \<longleftrightarrow> a = b \<and> p = q) \<and>
   (flow_of_tuple4 False a b p q = flow_of_tuple4 False b a q p \<longleftrightarrow> a = b \<and> p = q) \<and>
   (flow_of_tuple3 False a b k = flow_of_tuple3 False b a k \<longleftrightarrow> a = b) \<and>
   (flow_of_tuple2 False a b = flow_of_tuple2 False b a \<longleftrightarrow> a = b)"
  by (auto simp: flow_of_tuple5_def flow_of_tuple4_def flow_of_tuple3_def flow_of_tuple2_def)

end
