(* ===== verification/Pcap.thy ===== *)
theory Pcap
  imports Capture "HOL-Library.Signed_Division"
begin

text \<open>
  The classic PCAP format (\<^verbatim>\<open>src/capture/format/pcap.rs\<close>): headers, the streaming reader over the
  bytes an underlying \<^verbatim>\<open>Read\<close> still holds, the zero-copy reader over a slice, and the writer, whose
  state holds the bytes written so far.  The underlying reader and writer do not fail by themselves;
  the end of the input is the one I/O error the model has.
\<close>

section \<open>Headers\<close>

definition magic_be_usec :: "32 word" where "magic_be_usec = 0xA1B2C3D4"
definition magic_be_nsec :: "32 word" where "magic_be_nsec = 0xA1B23C4D"
definition magic_le_usec :: "32 word" where "magic_le_usec = 0xD4C3B2A1"
definition magic_le_nsec :: "32 word" where "magic_le_nsec = 0x4D3CB2A1"

lemmas magic_defs = magic_be_usec_def magic_be_nsec_def magic_le_usec_def magic_le_nsec_def

record pcap_header =
  ph_magic_number :: "32 word"
  ph_major_version :: "16 word"
  ph_minor_version :: "16 word"
  ph_reserved_1 :: "32 word"
  ph_reserved_2 :: "32 word"
  ph_snap_len :: "32 word"
  ph_additional_info_link_type :: "32 word"

definition magic_endian :: "32 word \<Rightarrow> endian option" where
  "magic_endian v =
    (if v = magic_be_usec \<or> v = magic_be_nsec then Some Big
     else if v = magic_le_usec \<or> v = magic_le_nsec then Some Little
     else None)"

definition pcap_header_parse :: "bytes \<Rightarrow> pcap_header cresult" where
  "pcap_header_parse data =
    (if length data < 24 then CErr (TruncatedCapture ''pcap global header'')
     else
       c_bind (or_panic (read_u32 Big data)) (\<lambda>magic.
       case magic_endian magic of
         None \<Rightarrow> CErr (InvalidMagicNumber magic)
       | Some e \<Rightarrow>
           c_bind (or_panic (read_u16 e (drop 4 data))) (\<lambda>major.
           c_bind (or_panic (read_u16 e (drop 6 data))) (\<lambda>minor.
           c_bind (or_panic (read_u32 e (drop 8 data))) (\<lambda>r1.
           c_bind (or_panic (read_u32 e (drop 12 data))) (\<lambda>r2.
           c_bind (or_panic (read_u32 e (drop 16 data))) (\<lambda>snap.
           c_bind (or_panic (read_u32 e (drop 20 data))) (\<lambda>info.
           COk \<lparr>ph_magic_number = magic, ph_major_version = major, ph_minor_version = minor,
                ph_reserved_1 = r1, ph_reserved_2 = r2, ph_snap_len = snap,
                ph_additional_info_link_type = info\<rparr>))))))))"

definition pcap_link_type :: "pcap_header \<Rightarrow> link_type" where
  "pcap_link_type h = link_type_from (ucast (ph_additional_info_link_type h AND 0xFFFF))"

definition pcap_is_big_endian :: "pcap_header \<Rightarrow> bool" where
  "pcap_is_big_endian h = (ph_magic_number h = magic_be_usec \<or> ph_magic_number h = magic_be_nsec)"

definition pcap_is_nanosecond :: "pcap_header \<Rightarrow> bool" where
  "pcap_is_nanosecond h = (ph_magic_number h = magic_be_nsec \<or> ph_magic_number h = magic_le_nsec)"

definition pcap_endian :: "pcap_header \<Rightarrow> endian" where
  "pcap_endian h = (if pcap_is_big_endian h then Big else Little)"

definition pcap_to_interface :: "pcap_header \<Rightarrow> capture_interface" where
  "pcap_to_interface h =
    \<lparr>if_link_type = pcap_link_type h, if_snap_len = ph_snap_len h,
     if_resolution = (if pcap_is_nanosecond h then PowerOfTen 9 else PowerOfTen 6)\<rparr>"

record pcap_packet_header =
  pp_ts_sec :: "32 word"
  pp_ts_usec :: "32 word"
  pp_incl_len :: "32 word"
  pp_orig_len :: "32 word"

definition pcap_packet_header_parse :: "bytes \<Rightarrow> endian \<Rightarrow> pcap_packet_header cresult" where
  "pcap_packet_header_parse data e =
    c_bind (or_panic (read_u32 e (drop 0 data))) (\<lambda>sec.
    c_bind (or_panic (read_u32 e (drop 4 data))) (\<lambda>usec.
    c_bind (or_panic (read_u32 e (drop 8 data))) (\<lambda>incl.
    c_bind (or_panic (read_u32 e (drop 12 data))) (\<lambda>orig.
    COk \<lparr>pp_ts_sec = sec, pp_ts_usec = usec, pp_incl_len = incl, pp_orig_len = orig\<rparr>))))"

text \<open>
  The product of the microseconds is a \<^verbatim>\<open>u32\<close>: it wraps in a release build and panics in a debug one.
\<close>

definition pcap_to_packet :: "pcap_packet_header \<Rightarrow> bytes \<Rightarrow> bool \<Rightarrow> link_type \<Rightarrow> packet_record" where
  "pcap_to_packet h data nanosecond lt =
    (let ts_nsec = (if nanosecond then pp_ts_usec h else pp_ts_usec h * 1000);
         timestamp = uint (pp_ts_sec h) * 1000000000 + uint ts_nsec
     in \<lparr>pr_timestamp = timestamp, pr_original_length = pp_orig_len h, pr_data = data,
         pr_link_type = lt\<rparr>)"

section \<open>The streaming reader\<close>

text \<open>
  \<^verbatim>\<open>read_exact\<close> of a byte source: the bytes asked for, or an unexpected end, which leaves nothing.
\<close>

definition read_exact :: "bytes \<Rightarrow> nat \<Rightarrow> bytes \<times> bytes option" where
  "read_exact src n = (if n \<le> length src then (drop n src, Some (take n src)) else ([], None))"

record pcap_reader =
  pr_header :: pcap_header
  pr_big_endian :: bool
  pr_nanosecond :: bool
  pr_source :: bytes

definition pcap_reader_new :: "bytes \<Rightarrow> pcap_reader cresult" where
  "pcap_reader_new src =
    (case read_exact src 24 of
       (_, None) \<Rightarrow> CErr IoUnexpectedEof
     | (rest, Some buffer) \<Rightarrow>
         c_bind (pcap_header_parse buffer) (\<lambda>h.
         COk \<lparr>pr_header = h, pr_big_endian = pcap_is_big_endian h,
              pr_nanosecond = pcap_is_nanosecond h, pr_source = rest\<rparr>))"

definition pcap_read_packet_raw ::
    "pcap_reader \<Rightarrow> pcap_reader \<times> (pcap_packet_header \<times> bytes) option cresult" where
  "pcap_read_packet_raw r =
    (case read_exact (pr_source r) 16 of
       (rest, None) \<Rightarrow> (r\<lparr>pr_source := rest\<rparr>, COk None)
     | (rest, Some buffer) \<Rightarrow>
         (case pcap_packet_header_parse buffer (pcap_endian (pr_header r)) of
            COk h \<Rightarrow>
              (case read_exact rest (unat (pp_incl_len h)) of
                 (rest', None) \<Rightarrow> (r\<lparr>pr_source := rest'\<rparr>, CErr IoUnexpectedEof)
               | (rest', Some data) \<Rightarrow> (r\<lparr>pr_source := rest'\<rparr>, COk (Some (h, data))))
          | CErr e \<Rightarrow> (r\<lparr>pr_source := rest\<rparr>, CErr e)
          | CPanic \<Rightarrow> (r\<lparr>pr_source := rest\<rparr>, CPanic)))"

definition pcap_reader_next_packet :: "pcap_reader \<Rightarrow> pcap_reader \<times> packet_record option cresult" where
  "pcap_reader_next_packet r =
    (case pcap_read_packet_raw r of (r', res) \<Rightarrow>
       (r', c_bind res (\<lambda>x. COk (map_option
         (\<lambda>(h, data). pcap_to_packet h data (pr_nanosecond r) (pcap_link_type (pr_header r))) x))))"

section \<open>The slice reader\<close>

record pcap_slice_reader =
  ps_header :: pcap_header
  ps_data :: bytes
  ps_pos :: nat

record pcap_packet_record =
  rec_offset :: nat
  rec_header :: pcap_packet_header
  rec_data :: bytes

definition pcap_slice_reader_new :: "bytes \<Rightarrow> pcap_slice_reader cresult" where
  "pcap_slice_reader_new data =
    c_bind (pcap_header_parse data) (\<lambda>h. COk \<lparr>ps_header = h, ps_data = data, ps_pos = 24\<rparr>)"

definition pcap_slice_read_packet_raw ::
    "pcap_slice_reader \<Rightarrow> pcap_slice_reader \<times> pcap_packet_record option cresult" where
  "pcap_slice_read_packet_raw r =
    (case slice (ps_data r) (ps_pos r) (length (ps_data r)) of
       None \<Rightarrow> (r, CPanic)
     | Some remaining \<Rightarrow>
         if remaining = [] then (r, COk None)
         else if length remaining < 16 then (r, CErr (TruncatedCapture ''pcap packet header''))
         else
           (case pcap_packet_header_parse remaining (pcap_endian (ps_header r)) of
              COk h \<Rightarrow>
                let data_start = ps_pos r + 16;
                    data_end = data_start + unat (pp_incl_len h)
                in if data_end > length (ps_data r)
                   then (r, CErr (TruncatedCapture ''pcap packet data''))
                   else
                     (case slice (ps_data r) data_start data_end of
                        None \<Rightarrow> (r\<lparr>ps_pos := data_end\<rparr>, CPanic)
                      | Some data \<Rightarrow>
                          (r\<lparr>ps_pos := data_end\<rparr>,
                           COk (Some \<lparr>rec_offset = ps_pos r, rec_header = h, rec_data = data\<rparr>)))
            | CErr e \<Rightarrow> (r, CErr e)
            | CPanic \<Rightarrow> (r, CPanic)))"

definition pcap_slice_next_packet ::
    "pcap_slice_reader \<Rightarrow> pcap_slice_reader \<times> packet_record option cresult" where
  "pcap_slice_next_packet r =
    (case pcap_slice_read_packet_raw r of (r', res) \<Rightarrow>
       (r', c_bind res (\<lambda>x. COk (map_option
         (\<lambda>p. pcap_to_packet (rec_header p) (rec_data p)
            (pcap_is_nanosecond (ps_header r)) (pcap_link_type (ps_header r))) x))))"

definition pcap_slice_next_packet_with_offset ::
    "pcap_slice_reader \<Rightarrow> pcap_slice_reader \<times> located_packet_record option cresult" where
  "pcap_slice_next_packet_with_offset r =
    (case pcap_slice_read_packet_raw r of (r', res) \<Rightarrow>
       (r', c_bind res (\<lambda>x.
          case x of
            None \<Rightarrow> COk None
          | Some p \<Rightarrow>
              c_bind (or_panic (slice (ps_data r) (rec_offset p)
                (rec_offset p + 16 + length (rec_data p)))) (\<lambda>raw.
              COk (Some \<lparr>loc_offset = rec_offset p, loc_raw = raw,
                loc_packet = pcap_to_packet (rec_header p) (rec_data p)
                  (pcap_is_nanosecond (ps_header r)) (pcap_link_type (ps_header r))\<rparr>)))))"


section \<open>The writer\<close>

record pcap_writer =
  pw_header :: pcap_header
  pw_big_endian :: bool
  pw_nanosecond :: bool
  pw_out :: bytes

definition pcap_header_bytes :: "endian \<Rightarrow> pcap_header \<Rightarrow> bytes" where
  "pcap_header_bytes e h =
    write_int Big 4 (unat (ph_magic_number h))
    @ write_int e 2 (unat (ph_major_version h)) @ write_int e 2 (unat (ph_minor_version h))
    @ write_int e 4 (unat (ph_reserved_1 h)) @ write_int e 4 (unat (ph_reserved_2 h))
    @ write_int e 4 (unat (ph_snap_len h))
    @ write_int e 4 (unat (ph_additional_info_link_type h))"

definition pcap_writer_new :: "bytes \<Rightarrow> bool \<Rightarrow> bool \<Rightarrow> 32 word \<Rightarrow> link_type \<Rightarrow> pcap_writer" where
  "pcap_writer_new out big_endian nanosecond snap_len lt =
    (let magic = (case (big_endian, nanosecond) of
           (True, False) \<Rightarrow> magic_be_usec
         | (True, True) \<Rightarrow> magic_be_nsec
         | (False, False) \<Rightarrow> magic_le_usec
         | (False, True) \<Rightarrow> magic_le_nsec);
         h = \<lparr>ph_magic_number = magic, ph_major_version = 2, ph_minor_version = 4,
              ph_reserved_1 = 0, ph_reserved_2 = 0, ph_snap_len = snap_len,
              ph_additional_info_link_type = ucast (link_type_into lt)\<rparr>;
         e = (if big_endian then Big else Little)
     in \<lparr>pw_header = h, pw_big_endian = big_endian, pw_nanosecond = nanosecond,
         pw_out = out @ pcap_header_bytes e h\<rparr>)"

definition pcap_write_packet_raw ::
    "pcap_writer \<Rightarrow> pcap_packet_header \<Rightarrow> bytes \<Rightarrow> pcap_writer cresult" where
  "pcap_write_packet_raw w h data =
    (let incl_len = min (pp_incl_len h) (min (ph_snap_len (pw_header w)) (word_of_nat (length data)));
         e = (if pw_big_endian w then Big else Little)
     in
       c_bind (or_panic (slice data 0 (unat incl_len))) (\<lambda>captured.
       COk (w\<lparr>pw_out := pw_out w
         @ write_int e 4 (unat (pp_ts_sec h)) @ write_int e 4 (unat (pp_ts_usec h))
         @ write_int e 4 (unat incl_len) @ write_int e 4 (unat (pp_orig_len h))
         @ captured\<rparr>)))"

definition pcap_header_of :: "bool \<Rightarrow> packet_record \<Rightarrow> pcap_packet_header" where
  "pcap_header_of nanosecond p =
    (let ts_sec = word_of_int (pr_timestamp p sdiv 1000000000);
         ts_nsec = word_of_int (pr_timestamp p smod 1000000000) :: 32 word;
         ts_usec = (if nanosecond then ts_nsec else ts_nsec div 1000)
     in \<lparr>pp_ts_sec = ts_sec, pp_ts_usec = ts_usec,
         pp_incl_len = word_of_nat (length (pr_data p)), pp_orig_len = pr_original_length p\<rparr>)"

definition pcap_write_packet :: "pcap_writer \<Rightarrow> packet_record \<Rightarrow> pcap_writer cresult" where
  "pcap_write_packet w p =
    pcap_write_packet_raw w (pcap_header_of (pw_nanosecond w) p) (pr_data p)"

section \<open>One record\<close>

lemma pcap_packet_header_some:
  assumes "16 \<le> length bs"
  shows "\<exists>h. pcap_packet_header_parse bs e = COk h"
proof -
  obtain a b c d where "read_u32 e (drop 0 bs) = Some a" "read_u32 e (drop 4 bs) = Some b"
    "read_u32 e (drop 8 bs) = Some c" "read_u32 e (drop 12 bs) = Some d"
    using assms read_some(2) [of "drop 0 bs" e] read_some(2) [of "drop 4 bs" e]
      read_some(2) [of "drop 8 bs" e] read_some(2) [of "drop 12 bs" e] by fastforce
  then show ?thesis by (simp add: pcap_packet_header_parse_def)
qed

lemma read_u32_take: "k + 4 \<le> n \<Longrightarrow> k + 4 \<le> length bs \<Longrightarrow> read_u32 e (drop k (take n bs)) = read_u32 e (drop k bs)"
  by (auto simp: read_u32_def drop_take read_int_def min_def split: endian.splits)

lemma pcap_packet_header_take:
  "16 \<le> length bs \<Longrightarrow> pcap_packet_header_parse (take 16 bs) e = pcap_packet_header_parse bs e"
  unfolding pcap_packet_header_parse_def
  by (simp add: read_u32_take [of 0 16, simplified] read_u32_take [of 4 16] read_u32_take [of 8 16]
      read_u32_take [of 12 16])

text \<open>The record at the front of a byte sequence: its header and its captured bytes.\<close>

definition pcap_front :: "endian \<Rightarrow> bytes \<Rightarrow> (pcap_packet_header \<times> bytes) option" where
  "pcap_front e bs =
    (if length bs < 16 then None
     else case pcap_packet_header_parse bs e of
       COk h \<Rightarrow> if length bs < 16 + unat (pp_incl_len h) then None
                else Some (h, take (unat (pp_incl_len h)) (drop 16 bs))
     | _ \<Rightarrow> None)"

lemma pcap_front_length:
  "pcap_front e bs = Some (h, d) \<Longrightarrow>
    length d = unat (pp_incl_len h) \<and> 16 + unat (pp_incl_len h) \<le> length bs"
  by (auto simp: pcap_front_def split: if_splits cresult.splits)

lemma pcap_slice_step:
  assumes "ps_pos r \<le> length (ps_data r)"
  shows "pcap_slice_read_packet_raw r =
    (let rest = drop (ps_pos r) (ps_data r) in
     case pcap_front (pcap_endian (ps_header r)) rest of
       Some (h, d) \<Rightarrow>
         (r\<lparr>ps_pos := ps_pos r + 16 + length d\<rparr>,
          COk (Some \<lparr>rec_offset = ps_pos r, rec_header = h, rec_data = d\<rparr>))
     | None \<Rightarrow>
         (r, if rest = [] then COk None
             else if length rest < 16 then CErr (TruncatedCapture ''pcap packet header'')
             else CErr (TruncatedCapture ''pcap packet data'')))"
proof -
  let ?rest = "drop (ps_pos r) (ps_data r)"
  show ?thesis
  proof (cases "length ?rest < 16")
    case True
    then show ?thesis
      using assms by (auto simp: pcap_slice_read_packet_raw_def pcap_front_def Let_def)
  next
    case False
    then obtain h where h: "pcap_packet_header_parse ?rest (pcap_endian (ps_header r)) = COk h"
      using pcap_packet_header_some [of ?rest] by fastforce
    have ne: "?rest \<noteq> []" using False by auto
    show ?thesis
      using assms False h ne
      by (auto simp: pcap_slice_read_packet_raw_def pcap_front_def Let_def min_def add.commute
          add.left_commute)
  qed
qed

lemma pcap_stream_step:
  "pcap_read_packet_raw r =
    (case pcap_front (pcap_endian (pr_header r)) (pr_source r) of
       Some (h, d) \<Rightarrow> (r\<lparr>pr_source := drop (16 + length d) (pr_source r)\<rparr>, COk (Some (h, d)))
     | None \<Rightarrow>
         (r\<lparr>pr_source := []\<rparr>,
          if length (pr_source r) < 16 then COk None else CErr IoUnexpectedEof))"
proof (cases "length (pr_source r) < 16")
  case True
  then show ?thesis by (simp add: pcap_read_packet_raw_def read_exact_def pcap_front_def)
next
  case False
  then obtain h where h: "pcap_packet_header_parse (pr_source r) (pcap_endian (pr_header r)) = COk h"
    using pcap_packet_header_some [of "pr_source r"] by fastforce
  with False show ?thesis
    by (auto simp: pcap_read_packet_raw_def read_exact_def pcap_front_def pcap_packet_header_take
        min_def add.commute)
qed

section \<open>Reading a whole capture\<close>

text \<open>The loop of a client: read raw records until the end or an error.\<close>

function pcap_slice_read_all ::
    "pcap_slice_reader \<Rightarrow> pcap_packet_record list \<times> unit cresult" where
  "pcap_slice_read_all r =
    (if ps_pos r > length (ps_data r) then ([], CPanic)
     else case pcap_slice_read_packet_raw r of
       (r', COk (Some p)) \<Rightarrow> (case pcap_slice_read_all r' of (ps, res) \<Rightarrow> (p # ps, res))
     | (r', COk None) \<Rightarrow> ([], COk ())
     | (r', CErr e) \<Rightarrow> ([], CErr e)
     | (r', CPanic) \<Rightarrow> ([], CPanic))"
  by pat_completeness auto
termination
proof (relation "measure (\<lambda>r. length (ps_data r) - ps_pos r)", simp)
  fix r r' :: pcap_slice_reader and x y p
  assume "\<not> length (ps_data r) < ps_pos r" "(r', y) = pcap_slice_read_packet_raw r"
    "y = COk x" "x = Some p"
  then show "(r', r) \<in> measure (\<lambda>r. length (ps_data r) - ps_pos r)"
    by (auto simp: pcap_slice_step Let_def pcap_front_length split: option.splits if_splits
        dest: pcap_front_length)
qed

declare pcap_slice_read_all.simps [simp del]

fun records_tile :: "nat \<Rightarrow> pcap_packet_record list \<Rightarrow> nat" where
  "records_tile pos [] = pos"
| "records_tile pos (p # ps) = records_tile (pos + 16 + length (rec_data p)) ps"

fun tiled :: "bytes \<Rightarrow> nat \<Rightarrow> pcap_packet_record list \<Rightarrow> bool" where
  "tiled bs pos [] = True"
| "tiled bs pos (p # ps) =
    (rec_offset p = pos \<and> pos + 16 + length (rec_data p) \<le> length bs \<and>
     rec_data p = take (length (rec_data p)) (drop (pos + 16) bs) \<and>
     length (rec_data p) = unat (pp_incl_len (rec_header p)) \<and>
     tiled bs (pos + 16 + length (rec_data p)) ps)"

lemma pcap_read_all_step:
  assumes "ps_pos r \<le> length (ps_data r)"
  shows "pcap_slice_read_all r =
    (let rest = drop (ps_pos r) (ps_data r) in
     case pcap_front (pcap_endian (ps_header r)) rest of
       Some (h, d) \<Rightarrow>
         (case pcap_slice_read_all (r\<lparr>ps_pos := ps_pos r + 16 + length d\<rparr>) of (ps, res) \<Rightarrow>
            (\<lparr>rec_offset = ps_pos r, rec_header = h, rec_data = d\<rparr> # ps, res))
     | None \<Rightarrow>
         ([], if rest = [] then COk ()
              else if length rest < 16 then CErr (TruncatedCapture ''pcap packet header'')
              else CErr (TruncatedCapture ''pcap packet data'')))"
  using assms
  by (subst pcap_slice_read_all.simps) (auto simp: pcap_slice_step Let_def split: option.split)

lemma pcap_front_data: "pcap_front e bs = Some (h, d) \<Longrightarrow> d = take (length d) (drop 16 bs)"
  by (auto simp: pcap_front_def split: if_splits cresult.splits)

lemma pcap_read_all_tiled:
  "ps_pos r \<le> length (ps_data r) \<Longrightarrow> pcap_slice_read_all r = (ps, res) \<Longrightarrow>
    tiled (ps_data r) (ps_pos r) ps \<and> res \<noteq> CPanic \<and>
    (res = COk () \<longrightarrow> records_tile (ps_pos r) ps = length (ps_data r))"
proof (induction ps arbitrary: r)
  case Nil
  then show ?case
    by (auto simp: pcap_read_all_step Let_def split: option.splits if_splits prod.splits)
next
  case (Cons p ps)
  let ?rest = "drop (ps_pos r) (ps_data r)"
  obtain h d where f: "pcap_front (pcap_endian (ps_header r)) ?rest = Some (h, d)"
    and p: "p = \<lparr>rec_offset = ps_pos r, rec_header = h, rec_data = d\<rparr>"
    and rec: "pcap_slice_read_all (r\<lparr>ps_pos := ps_pos r + 16 + length d\<rparr>) = (ps, res)"
    using Cons.prems by (auto simp: pcap_read_all_step Let_def split: option.splits if_splits prod.splits)
  have len: "length d = unat (pp_incl_len h)" "16 + length d \<le> length ?rest"
    using pcap_front_length [OF f] by simp_all
  have "ps_pos r + 16 + length d \<le> length (ps_data r)" using len(2) by simp
  then show ?case
    using Cons.IH [OF _ rec] pcap_front_data [OF f] len p by (simp add: add.commute)
qed

section \<open>Writing and reading back\<close>

fun pcap_write_all :: "pcap_writer \<Rightarrow> (pcap_packet_header \<times> bytes) list \<Rightarrow> pcap_writer cresult" where
  "pcap_write_all w [] = COk w"
| "pcap_write_all w ((h, d) # xs) =
    c_bind (pcap_write_packet_raw w h d) (\<lambda>w. pcap_write_all w xs)"

text \<open>What the file keeps of a packet: its bytes cut to the smallest of the three lengths.\<close>

definition pcap_clip :: "32 word \<Rightarrow> pcap_packet_header \<times> bytes \<Rightarrow> pcap_packet_header \<times> bytes" where
  "pcap_clip snap x =
    (case x of (h, d) \<Rightarrow>
       let n = min (pp_incl_len h) (min snap (word_of_nat (length d)))
       in (h\<lparr>pp_incl_len := n\<rparr>, take (unat n) d))"

definition pcap_encode :: "endian \<Rightarrow> pcap_packet_header \<times> bytes \<Rightarrow> bytes" where
  "pcap_encode e x =
    (case x of (h, d) \<Rightarrow>
       write_int e 4 (unat (pp_ts_sec h)) @ write_int e 4 (unat (pp_ts_usec h))
       @ write_int e 4 (unat (pp_incl_len h)) @ write_int e 4 (unat (pp_orig_len h)) @ d)"

lemma clip_length: "unat (min a (min b (word_of_nat (length d))) :: 32 word) \<le> length d"
proof -
  have "unat (word_of_nat (length d) :: 32 word) \<le> length d"
    by (subst unsigned_of_nat) (simp add: take_bit_eq_mod)
  moreover have "min a (min b (word_of_nat (length d))) \<le> (word_of_nat (length d) :: 32 word)"
    by (simp add: min_le_iff_disj)
  ultimately show ?thesis by (meson order_trans word_le_nat_alt)
qed

lemma pcap_write_raw_eq:
  "pcap_write_packet_raw w h d =
    COk (w\<lparr>pw_out := pw_out w @
      pcap_encode (if pw_big_endian w then Big else Little) (pcap_clip (ph_snap_len (pw_header w)) (h, d))\<rparr>)"
  using clip_length [of "pp_incl_len h" "ph_snap_len (pw_header w)" d]
  by (simp add: pcap_write_packet_raw_def pcap_encode_def pcap_clip_def Let_def)

lemma pcap_write_all_eq:
  "pcap_write_all w xs =
    COk (w\<lparr>pw_out := pw_out w @ concat (map (\<lambda>x.
      pcap_encode (if pw_big_endian w then Big else Little) (pcap_clip (ph_snap_len (pw_header w)) x)) xs)\<rparr>)"
  by (induction w xs rule: pcap_write_all.induct) (simp_all add: pcap_write_raw_eq)

lemma pcap_encode_length [simp]: "length (pcap_encode e (h, d)) = 16 + length d"
  by (simp add: pcap_encode_def)

lemma pcap_front_encode:
  assumes "length d = unat (pp_incl_len h)"
  shows "pcap_front e (pcap_encode e (h, d) @ rest) = Some (h, d)"
proof -
  let ?a = "write_int e 4 (unat (pp_ts_sec h))" and ?b = "write_int e 4 (unat (pp_ts_usec h))"
  let ?c = "write_int e 4 (unat (pp_incl_len h))" and ?d = "write_int e 4 (unat (pp_orig_len h))"
  have "pcap_encode e (h, d) @ rest = ?a @ ?b @ ?c @ ?d @ d @ rest"
    by (simp add: pcap_encode_def)
  moreover have "pcap_packet_header_parse (?a @ ?b @ ?c @ ?d @ d @ rest) e = COk h"
    by (simp add: pcap_packet_header_parse_def)
  ultimately show ?thesis using assms by (simp add: pcap_front_def)
qed

lemma pcap_clip_fits: "pcap_clip snap x = (h, d) \<Longrightarrow> length d = unat (pp_incl_len h)"
  by (auto simp: pcap_clip_def Let_def min_absorb2 [OF clip_length] split: prod.splits)

lemma pcap_read_all_encoded:
  assumes "pcap_endian (ps_header r) = e"
    and "drop (ps_pos r) (ps_data r) = concat (map (\<lambda>x. pcap_encode e (pcap_clip snap x)) xs)"
    and "ps_pos r \<le> length (ps_data r)"
  shows "\<exists>ps. pcap_slice_read_all r = (ps, COk ()) \<and>
    map (\<lambda>p. (rec_header p, rec_data p)) ps = map (pcap_clip snap) xs"
  using assms
proof (induction xs arbitrary: r)
  case Nil
  then show ?case by (simp add: pcap_read_all_step pcap_front_def)
next
  case (Cons x xs)
  obtain h d where hd: "pcap_clip snap x = (h, d)" by fastforce
  let ?rest = "concat (map (\<lambda>x. pcap_encode e (pcap_clip snap x)) xs)"
  have d: "drop (ps_pos r) (ps_data r) = pcap_encode e (h, d) @ ?rest"
    using Cons.prems(2) hd by simp
  have front: "pcap_front e (drop (ps_pos r) (ps_data r)) = Some (h, d)"
    unfolding d using pcap_front_encode [OF pcap_clip_fits [OF hd]] .
  let ?r = "r\<lparr>ps_pos := ps_pos r + 16 + length d\<rparr>"
  have "drop (ps_pos ?r) (ps_data r) = drop (16 + length d) (drop (ps_pos r) (ps_data r))"
    by (simp add: add.commute add.left_commute)
  also have "\<dots> = ?rest" unfolding d by simp
  finally have "drop (ps_pos ?r) (ps_data ?r) = ?rest" by simp
  moreover have "ps_pos ?r \<le> length (ps_data ?r)"
    using arg_cong [OF d, of length] Cons.prems(3) by simp
  ultimately obtain ps where "pcap_slice_read_all ?r = (ps, COk ())"
    "map (\<lambda>p. (rec_header p, rec_data p)) ps = map (pcap_clip snap) xs"
    using Cons.IH [of ?r] Cons.prems(1) by auto
  then show ?case
    using Cons.prems(1,3) front hd by (simp add: pcap_read_all_step Let_def)
qed

lemma magic_endian_writer:
  "magic_endian (ph_magic_number (pw_header (pcap_writer_new out be ns snap lt)))
    = Some (if be then Big else Little)"
  by (cases be; cases ns) (simp_all add: pcap_writer_new_def Let_def magic_endian_def magic_defs)

lemma pcap_header_parse_bytes:
  assumes "magic_endian (ph_magic_number h) = Some e"
  shows "pcap_header_parse (pcap_header_bytes e h @ rest) = COk h"
  using assms by (simp add: pcap_header_parse_def pcap_header_bytes_def)

lemma pcap_writer_new_simps [simp]:
  "pw_big_endian (pcap_writer_new out be ns snap lt) = be"
  "pw_nanosecond (pcap_writer_new out be ns snap lt) = ns"
  "ph_snap_len (pw_header (pcap_writer_new out be ns snap lt)) = snap"
  "pw_out (pcap_writer_new out be ns snap lt) =
     out @ pcap_header_bytes (if be then Big else Little) (pw_header (pcap_writer_new out be ns snap lt))"
  by (simp_all add: pcap_writer_new_def Let_def)

lemma pcap_endian_magic: "magic_endian (ph_magic_number h) = Some e \<Longrightarrow> pcap_endian h = e"
  by (auto simp: magic_endian_def pcap_endian_def pcap_is_big_endian_def split: if_splits)

lemma pcap_header_bytes_length [simp]: "length (pcap_header_bytes e h) = 24"
  by (simp add: pcap_header_bytes_def)

section \<open>Properties\<close>

text \<open>C17: a PCAP file reads back.  Whatever packets are written, the writer does not fail, the slice
  reader accepts the file, and it yields every packet in order, its header as written and its bytes
  cut to the least of the header's captured length, the snapshot length and the bytes given.\<close>

theorem pcap_write_read:
  "\<exists>w r ps. pcap_write_all (pcap_writer_new [] be ns snap lt) xs = COk w \<and>
    pcap_slice_reader_new (pw_out w) = COk r \<and>
    pcap_slice_read_all r = (ps, COk ()) \<and>
    map (\<lambda>p. (rec_header p, rec_data p)) ps = map (pcap_clip snap) xs"
proof -
  let ?w0 = "pcap_writer_new [] be ns snap lt" and ?e = "if be then Big else Little"
  let ?body = "concat (map (\<lambda>x. pcap_encode ?e (pcap_clip snap x)) xs)"
  obtain w where w: "pcap_write_all ?w0 xs = COk w"
    "pw_out w = pcap_header_bytes ?e (pw_header ?w0) @ ?body"
    by (simp add: pcap_write_all_eq)
  let ?r = "\<lparr>ps_header = pw_header ?w0, ps_data = pw_out w, ps_pos = 24\<rparr>"
  have magic: "magic_endian (ph_magic_number (pw_header ?w0)) = Some ?e"
    by (rule magic_endian_writer)
  have "pcap_slice_reader_new (pw_out w) = COk ?r"
    using pcap_header_parse_bytes [OF magic] w(2) by (simp add: pcap_slice_reader_new_def)
  moreover have "\<exists>ps. pcap_slice_read_all ?r = (ps, COk ()) \<and>
      map (\<lambda>p. (rec_header p, rec_data p)) ps = map (pcap_clip snap) xs"
    by (rule pcap_read_all_encoded [where e = ?e])
      (use pcap_endian_magic [OF magic] w(2) in simp_all)
  ultimately show ?thesis using w(1) by blast
qed

text \<open>The slice reader covers the capture.  The records it yields tile the file from the global
  header on: each starts where the one before it ends, holds exactly the bytes behind its header, and,
  when the reader ends without an error, the last one ends at the end of the file.  It never panics.\<close>

lemma pcap_slice_reader_tiles:
  assumes "pcap_slice_reader_new bs = COk r" and "pcap_slice_read_all r = (ps, res)"
  shows "tiled bs 24 ps \<and> res \<noteq> CPanic \<and> (res = COk () \<longrightarrow> records_tile 24 ps = length bs)"
proof -
  have "24 \<le> length bs" and r: "ps_data r = bs" "ps_pos r = 24"
    using assms(1)
    by (auto simp: pcap_slice_reader_new_def pcap_header_parse_def c_bind_def split: if_splits cresult.splits)
  then show ?thesis using pcap_read_all_tiled [of r ps res] assms(2) by simp
qed

lemma pcap_slice_reader_tiles_witness:
  "tiled (pw_out (pcap_writer_new [] True False 65535 LtEthernet)) 24
     (fst (pcap_slice_read_all \<lparr>ps_header = pw_header (pcap_writer_new [] True False 65535 LtEthernet),
        ps_data = pw_out (pcap_writer_new [] True False 65535 LtEthernet), ps_pos = 24\<rparr>))"
proof -
  let ?w = "pcap_writer_new [] True False 65535 LtEthernet"
  let ?r = "\<lparr>ps_header = pw_header ?w, ps_data = pw_out ?w, ps_pos = 24\<rparr>"
  have "pcap_slice_reader_new (pw_out ?w) = COk ?r"
    using pcap_header_parse_bytes [OF magic_endian_writer [of "[]" True False 65535 LtEthernet], of "[]"]
    by (simp add: pcap_slice_reader_new_def)
  then show ?thesis
    using pcap_slice_reader_tiles [of "pw_out ?w" ?r "fst (pcap_slice_read_all ?r)"
        "snd (pcap_slice_read_all ?r)"] by simp
qed

text \<open>
  The state of a streaming reader corresponds to the state of a slice reader when it still has to
  read what lies behind the position.
\<close>

definition readers_related :: "pcap_reader \<Rightarrow> pcap_slice_reader \<Rightarrow> bool" where
  "readers_related r s =
    (pr_header r = ps_header s \<and> pr_nanosecond r = pcap_is_nanosecond (ps_header s) \<and>
     ps_pos s \<le> length (ps_data s) \<and> pr_source r = drop (ps_pos s) (ps_data s))"

lemma read_word_take:
  "k + 4 \<le> n \<Longrightarrow> n \<le> length bs \<Longrightarrow> read_u32 e (drop k (take n bs)) = read_u32 e (drop k bs)"
  "k + 2 \<le> n \<Longrightarrow> n \<le> length bs \<Longrightarrow> read_u16 e (drop k (take n bs)) = read_u16 e (drop k bs)"
  by (auto simp: read_u32_def read_u16_def drop_take read_int_def min_def split: endian.splits)

lemma pcap_header_parse_prefix:
  assumes len: "24 \<le> length bs"
  shows "pcap_header_parse (take 24 bs) = pcap_header_parse bs"
  using len read_word_take(1) [of 0 24 bs]
  by (simp add: pcap_header_parse_def read_word_take del: drop_take cong: option.case_cong)

lemma pcap_header_parse_take:
  assumes "pcap_header_parse bs = COk h"
  shows "24 \<le> length bs \<and> pcap_header_parse (take 24 bs) = COk h"
proof -
  have "24 \<le> length bs" using assms by (auto simp: pcap_header_parse_def split: if_splits)
  with assms show ?thesis by (simp add: pcap_header_parse_prefix)
qed

lemma readers_start_related:
  assumes "pcap_slice_reader_new bs = COk s"
  shows "\<exists>r. pcap_reader_new bs = COk r \<and> readers_related r s"
proof -
  obtain h where h: "pcap_header_parse bs = COk h"
    and s: "s = \<lparr>ps_header = h, ps_data = bs, ps_pos = 24\<rparr>"
    using assms by (cases "pcap_header_parse bs") (auto simp: pcap_slice_reader_new_def)
  then show ?thesis
    using pcap_header_parse_take [OF h]
    by (simp add: pcap_reader_new_def read_exact_def readers_related_def)
qed

text \<open>C32: the zero-copy reader refines the streaming reader.  Started on the same capture and run in
  step, they yield the same packets.  They differ at a capture that ends inside a record: the slice
  reader reports it, the streaming reader takes a partial record header for the end of the file.\<close>

theorem pcap_readers_agree:
  "(pcap_slice_reader_new bs = COk s0 \<longrightarrow> (\<exists>r. pcap_reader_new bs = COk r \<and> readers_related r s0)) \<and>
   (readers_related r s \<longrightarrow>
     (case pcap_slice_next_packet s of
        (s', COk (Some p)) \<Rightarrow>
          \<exists>r'. pcap_reader_next_packet r = (r', COk (Some p)) \<and> readers_related r' s'
      | (s', COk None) \<Rightarrow> snd (pcap_reader_next_packet r) = COk None
      | (s', CErr e) \<Rightarrow> snd (pcap_reader_next_packet r) =
          (if length (pr_source r) < 16 then COk None else CErr IoUnexpectedEof)
      | (s', CPanic) \<Rightarrow> False))"
proof (intro conjI impI readers_start_related)
  assume rel: "readers_related r s"
  show "case pcap_slice_next_packet s of
        (s', COk (Some p)) \<Rightarrow>
          \<exists>r'. pcap_reader_next_packet r = (r', COk (Some p)) \<and> readers_related r' s'
      | (s', COk None) \<Rightarrow> snd (pcap_reader_next_packet r) = COk None
      | (s', CErr e) \<Rightarrow> snd (pcap_reader_next_packet r) =
          (if length (pr_source r) < 16 then COk None else CErr IoUnexpectedEof)
      | (s', CPanic) \<Rightarrow> False"
  proof (cases "pcap_front (pcap_endian (ps_header s)) (drop (ps_pos s) (ps_data s))")
    case None
    with rel show ?thesis
      by (auto simp: readers_related_def pcap_slice_next_packet_def pcap_reader_next_packet_def
          pcap_slice_step pcap_stream_step Let_def)
  next
    case (Some x)
    obtain h d where x: "x = (h, d)" by fastforce
    with Some rel pcap_front_length [OF Some [unfolded x]] show ?thesis
      by (auto simp: readers_related_def pcap_slice_next_packet_def pcap_reader_next_packet_def
          pcap_slice_step pcap_stream_step Let_def add.commute add.left_commute)
  qed
qed

theorem pcap_readers_agree_witness:
  "\<exists>r. pcap_reader_new (pw_out (pcap_writer_new [] True False 65535 LtEthernet)) = COk r"
  using pcap_readers_agree [THEN conjunct1, rule_format, of "pw_out (pcap_writer_new [] True False 65535 LtEthernet)"]
    pcap_header_parse_bytes [OF magic_endian_writer [of "[]" True False 65535 LtEthernet], of "[]"]
  by (simp add: pcap_slice_reader_new_def) blast

text \<open>A timestamp survives the file.  For a packet of the years 1970 to 2106 the header that
  \<^verbatim>\<open>write_packet\<close> derives reads back as the same timestamp in a nanosecond file, and cut to
  microseconds in a microsecond file.\<close>

lemma pcap_timestamp_roundtrip:
  assumes "0 \<le> pr_timestamp p" and "pr_timestamp p < 2 ^ 32 * 1000000000"
  shows "pr_timestamp (pcap_to_packet (pcap_header_of nanosecond p) d nanosecond lt) =
    (if nanosecond then pr_timestamp p else pr_timestamp p - pr_timestamp p mod 1000)"
proof -
  let ?t = "pr_timestamp p"
  have sm: "?t sdiv 1000000000 = ?t div 1000000000" "?t smod 1000000000 = ?t mod 1000000000"
    using assms(1)
    by (cases "?t = 0"; simp add: signed_divide_int_eq_divide_int signed_modulo_int_eq_modulo_int sgn_if)+
  have sec: "uint (word_of_int (?t div 1000000000) :: 32 word) = ?t div 1000000000"
  proof -
    have "0 \<le> ?t div 1000000000" "?t div 1000000000 < 2 ^ 32"
      using assms by (simp add: pos_imp_zdiv_nonneg_iff, linarith)
    then show ?thesis by (subst uint_word_of_int) (simp add: mod_pos_pos_trivial)
  qed
  have ns: "uint (word_of_int (?t mod 1000000000) :: 32 word) = ?t mod 1000000000"
    by (subst uint_word_of_int) (simp add: mod_pos_pos_trivial)
  have us: "uint ((word_of_int (?t mod 1000000000) :: 32 word) div 1000 * 1000) =
      ?t mod 1000000000 - ?t mod 1000"
  proof -
    let ?n = "?t mod 1000000000"
    have a: "?n div 1000 * 1000 = ?n - ?t mod 1000"
      by (simp add: minus_mod_eq_div_mult [symmetric] mod_mod_cancel)
    moreover have "?n div 1000 * 1000 < 2 ^ 32" "0 \<le> ?n div 1000"
      by (simp_all add: pos_imp_zdiv_nonneg_iff)
    ultimately show ?thesis
      using ns by (simp add: uint_word_ariths uint_div)
  qed
  show ?thesis
    using sec ns us
    by (simp add: pcap_to_packet_def pcap_header_of_def sm Let_def)
qed

lemma pcap_timestamp_roundtrip_witness:
  "pr_timestamp (pcap_to_packet (pcap_header_of False
      \<lparr>pr_timestamp = 1700000000123456789, pr_original_length = 60, pr_data = [], pr_link_type = LtEthernet\<rparr>)
      [] False LtEthernet) = 1700000000123456000"
  by (subst pcap_timestamp_roundtrip) simp_all

lemma pcap_usec_product:
  "uint (u * 1000 :: 32 word) = uint u * 1000 \<longleftrightarrow> uint u \<le> 4294967"
  using uint_lt2p [of u] mod_pos_pos_trivial [of "uint u * 1000" "4294967296"]
    pos_mod_bound [of "4294967296" "uint u * 1000"]
  by (auto simp: uint_word_ariths)

text \<open>Exactly where the microseconds are kept.  The timestamp read from a microsecond file is the
  one the record states if and only if its fraction is at most 4294967 microseconds; a larger one wraps
  in the \<^verbatim>\<open>u32\<close> product of \<^verbatim>\<open>to_packet\<close>.  A nanosecond file has no such bound.\<close>

lemma pcap_usec_exact:
  "(pr_timestamp (pcap_to_packet h d False lt) =
      uint (pp_ts_sec h) * 1000000000 + uint (pp_ts_usec h) * 1000
      \<longleftrightarrow> uint (pp_ts_usec h) \<le> 4294967) \<and>
   pr_timestamp (pcap_to_packet h d True lt) =
      uint (pp_ts_sec h) * 1000000000 + uint (pp_ts_usec h)"
  by (simp add: pcap_to_packet_def Let_def pcap_usec_product)

end
