(* ===== verification/Pcapng.thy ===== *)
theory Pcapng
  imports Pcap
begin

text \<open>
  The PCAPNG format (\<^verbatim>\<open>src/capture/format/pcapng.rs\<close>): block types, options, the parsers of
  the section header, interface description, simple packet and enhanced packet blocks, the conversion
  of timestamps, the streaming reader and the zero-copy slice reader.  A Rust \<^verbatim>\<open>String\<close> is its
  UTF-8 bytes.  Unchecked integer arithmetic wraps, as it does in a release build.
\<close>

section \<open>Block types and option codes\<close>

datatype block_type =
    BtSectionHeader | BtInterfaceDescription | BtSimplePacket | BtNameResolution
  | BtInterfaceStatistics | BtEnhancedPacket | BtDecryptionSecrets | BtCustomCopyable
  | BtCustomNonCopyable | BtUnknown "32 word"

definition block_type_codes :: "(32 word \<times> block_type) list" where
  "block_type_codes =
    [(0x0A0D0D0A, BtSectionHeader), (1, BtInterfaceDescription), (3, BtSimplePacket),
     (4, BtNameResolution), (5, BtInterfaceStatistics), (6, BtEnhancedPacket),
     (0xA, BtDecryptionSecrets), (0xBAD, BtCustomCopyable), (0x40000BAD, BtCustomNonCopyable)]"

definition block_type_from :: "32 word \<Rightarrow> block_type" where
  "block_type_from v = (case map_of block_type_codes v of Some t \<Rightarrow> t | None \<Rightarrow> BtUnknown v)"

definition opt_end_of_opt :: "16 word" where "opt_end_of_opt = 0"
definition opt_shb_hardware :: "16 word" where "opt_shb_hardware = 2"
definition opt_shb_os :: "16 word" where "opt_shb_os = 3"
definition opt_shb_user_appl :: "16 word" where "opt_shb_user_appl = 4"
definition opt_if_name :: "16 word" where "opt_if_name = 2"
definition opt_if_description :: "16 word" where "opt_if_description = 3"
definition opt_if_ipv4_addr :: "16 word" where "opt_if_ipv4_addr = 4"
definition opt_if_ipv6_addr :: "16 word" where "opt_if_ipv6_addr = 5"
definition opt_if_mac_addr :: "16 word" where "opt_if_mac_addr = 6"
definition opt_if_eui_addr :: "16 word" where "opt_if_eui_addr = 7"
definition opt_if_speed :: "16 word" where "opt_if_speed = 8"
definition opt_if_tsresol :: "16 word" where "opt_if_tsresol = 9"
definition opt_if_tzone :: "16 word" where "opt_if_tzone = 10"
definition opt_if_filter :: "16 word" where "opt_if_filter = 11"
definition opt_if_os :: "16 word" where "opt_if_os = 12"
definition opt_if_fcslen :: "16 word" where "opt_if_fcslen = 13"
definition opt_if_tsoffset :: "16 word" where "opt_if_tsoffset = 14"
definition opt_if_hardware :: "16 word" where "opt_if_hardware = 15"
definition opt_if_txspeed :: "16 word" where "opt_if_txspeed = 16"
definition opt_if_rxspeed :: "16 word" where "opt_if_rxspeed = 17"
definition opt_if_iana_tzname :: "16 word" where "opt_if_iana_tzname = 18"
definition opt_epb_flags :: "16 word" where "opt_epb_flags = 2"
definition opt_epb_hash :: "16 word" where "opt_epb_hash = 3"
definition opt_epb_dropcount :: "16 word" where "opt_epb_dropcount = 4"
definition opt_epb_packet_id :: "16 word" where "opt_epb_packet_id = 5"
definition opt_epb_queue :: "16 word" where "opt_epb_queue = 6"
definition opt_epb_verdict :: "16 word" where "opt_epb_verdict = 7"
definition opt_epb_processid_threadid :: "16 word" where "opt_epb_processid_threadid = 8"

lemmas opt_defs = opt_end_of_opt_def opt_shb_hardware_def opt_shb_os_def opt_shb_user_appl_def opt_if_name_def
  opt_if_description_def opt_if_ipv4_addr_def opt_if_ipv6_addr_def opt_if_mac_addr_def opt_if_eui_addr_def
  opt_if_speed_def opt_if_tsresol_def opt_if_tzone_def opt_if_filter_def opt_if_os_def
  opt_if_fcslen_def opt_if_tsoffset_def opt_if_hardware_def opt_if_txspeed_def opt_if_rxspeed_def
  opt_if_iana_tzname_def opt_epb_flags_def opt_epb_hash_def opt_epb_dropcount_def opt_epb_packet_id_def
  opt_epb_queue_def opt_epb_verdict_def opt_epb_processid_threadid_def

section \<open>Options\<close>

text \<open>\<^verbatim>\<open>next_multiple_of\<close> of the unsigned integers, wrapping.\<close>

definition next_multiple_of :: "'a::len word \<Rightarrow> 'a word \<Rightarrow> 'a word" where
  "next_multiple_of x m = (let r = x mod m in if r = 0 then x else x + (m - r))"

definition read_option :: "bytes \<Rightarrow> endian \<Rightarrow> nat \<Rightarrow> ((16 word \<times> 16 word \<times> bytes) \<times> nat) cresult" where
  "read_option buffer e offset =
    c_bind (or_panic (slice buffer offset (offset + 2))) (\<lambda>b.
    c_bind (or_panic (read_u16 e b)) (\<lambda>option_type.
    c_bind (or_panic (slice buffer (offset + 2) (offset + 4))) (\<lambda>b.
    c_bind (or_panic (read_u16 e b)) (\<lambda>option_length.
    if option_type = opt_end_of_opt then COk ((option_type, option_length, []), offset + 4)
    else
      c_bind (or_panic (slice buffer (offset + 4) (offset + 4 + unat option_length))) (\<lambda>v.
      COk ((option_type, option_length, v), offset + (4 + unat (next_multiple_of option_length 4))))))))"

lemma read_option_advances: "read_option b e pos = COk (x, pos') \<Longrightarrow> pos + 4 \<le> pos' \<and> pos + 4 \<le> length b"
  by (auto simp: read_option_def c_bind_def or_panic_def slice_def split: option.splits if_splits cresult.splits)

text \<open>The option loop the block parsers share; \<^verbatim>\<open>put\<close> is the parser's \<^verbatim>\<open>match\<close>.\<close>

function option_loop ::
    "(16 word \<Rightarrow> bytes \<Rightarrow> 'a \<Rightarrow> 'a cresult) \<Rightarrow> bytes \<Rightarrow> endian \<Rightarrow> nat \<Rightarrow> 'a \<Rightarrow> 'a cresult" where
  "option_loop put block e pos s =
    (if pos < length block - 4 then
       (case read_option block e pos of
          COk ((ty, _, v), pos') \<Rightarrow>
            if ty = opt_end_of_opt then COk s
            else c_bind (put ty v s) (\<lambda>s'. option_loop put block e pos' s')
        | CErr err \<Rightarrow> CErr err
        | CPanic \<Rightarrow> CPanic)
     else COk s)"
  by pat_completeness auto
termination
  by (relation "measure (\<lambda>(_, block, _, pos, _). length block - pos)")
    (auto dest!: read_option_advances)

declare option_loop.simps [simp del]

definition check_block_total_length :: "bytes \<Rightarrow> endian \<Rightarrow> string \<Rightarrow> unit cresult" where
  "check_block_total_length block e what =
    c_bind (or_panic (slice block 4 8)) (\<lambda>b.
    c_bind (or_panic (read_u32 e b)) (\<lambda>leading.
    c_bind (or_panic (slice block (length block - 4) (length block))) (\<lambda>b.
    c_bind (or_panic (read_u32 e b)) (\<lambda>trailing.
    if leading \<noteq> trailing then CErr (PcapngBlockTotalLengthMismatch what leading trailing)
    else COk ()))))"

text \<open>Reading an integer out of a range of the block, as \<^verbatim>\<open>endian.read_u32(&block[a..b])\<close>.\<close>

definition read_range :: "(bytes \<Rightarrow> 'a option) \<Rightarrow> bytes \<Rightarrow> nat \<Rightarrow> nat \<Rightarrow> 'a cresult" where
  "read_range rd block a b = c_bind (or_panic (slice block a b)) (\<lambda>x. or_panic (rd x))"

text \<open>
  \<^verbatim>\<open>String::from_utf8\<close>: the well-formed byte sequences of the Unicode standard (no overlong
  form, no surrogate, nothing above U+10FFFF).
\<close>

definition utf8_cont :: "byte \<Rightarrow> bool" where
  "utf8_cont b = (0x80 \<le> b \<and> b \<le> 0xBF)"

fun utf8_valid :: "bytes \<Rightarrow> bool" where
  "utf8_valid [] = True"
| "utf8_valid (a # bs) =
    (if a < 0x80 then utf8_valid bs
     else (case bs of
       [] \<Rightarrow> False
     | b # cs \<Rightarrow>
         if 0xC2 \<le> a \<and> a \<le> 0xDF then utf8_cont b \<and> utf8_valid cs
         else (case cs of
           [] \<Rightarrow> False
         | c # ds \<Rightarrow>
             if a = 0xE0 then 0xA0 \<le> b \<and> b \<le> 0xBF \<and> utf8_cont c \<and> utf8_valid ds
             else if a = 0xED then 0x80 \<le> b \<and> b \<le> 0x9F \<and> utf8_cont c \<and> utf8_valid ds
             else if 0xE1 \<le> a \<and> a \<le> 0xEF then utf8_cont b \<and> utf8_cont c \<and> utf8_valid ds
             else (case ds of
               [] \<Rightarrow> False
             | d # es \<Rightarrow>
                 utf8_cont c \<and> utf8_cont d \<and> utf8_valid es \<and>
                 (if a = 0xF0 then 0x90 \<le> b \<and> b \<le> 0xBF
                  else if a = 0xF4 then 0x80 \<le> b \<and> b \<le> 0x8F
                  else 0xF1 \<le> a \<and> a \<le> 0xF3 \<and> utf8_cont b)))))"

definition string_from_utf8 :: "bytes \<Rightarrow> bytes cresult" where
  "string_from_utf8 v = (if utf8_valid v then COk v else CErr FromUtf8)"

section \<open>Section header block\<close>

record section_header =
  sh_endian :: endian
  sh_major_version :: "16 word"
  sh_minor_version :: "16 word"
  sh_section_length :: int
  sh_hardware :: "bytes option"
  sh_os :: "bytes option"
  sh_user_appl :: "bytes option"

definition section_header_option :: "16 word \<Rightarrow> bytes \<Rightarrow> section_header \<Rightarrow> section_header cresult" where
  "section_header_option ty v h =
    (if ty = opt_shb_hardware then c_bind (string_from_utf8 v) (\<lambda>s. COk (h\<lparr>sh_hardware := Some s\<rparr>))
     else if ty = opt_shb_os then c_bind (string_from_utf8 v) (\<lambda>s. COk (h\<lparr>sh_os := Some s\<rparr>))
     else if ty = opt_shb_user_appl then c_bind (string_from_utf8 v) (\<lambda>s. COk (h\<lparr>sh_user_appl := Some s\<rparr>))
     else COk h)"

definition byte_order_magic :: bytes where
  "byte_order_magic = [0x1A, 0x2B, 0x3C, 0x4D]"

definition section_header_parse :: "bytes \<Rightarrow> section_header cresult" where
  "section_header_parse block =
    (if length block < 28 then CErr (TruncatedCapture ''pcapng section header block'')
     else
       c_bind (or_panic (slice block 8 12)) (\<lambda>bom.
       let e = (if bom = byte_order_magic then Big else Little) in
       c_bind (read_range (read_u16 e) block 12 14) (\<lambda>major.
       c_bind (read_range (read_u16 e) block 14 16) (\<lambda>minor.
       c_bind (read_range (read_i64 e) block 16 24) (\<lambda>section_length.
       c_bind (option_loop section_header_option block e 24
         \<lparr>sh_endian = e, sh_major_version = major, sh_minor_version = minor,
          sh_section_length = section_length, sh_hardware = None, sh_os = None,
          sh_user_appl = None\<rparr>) (\<lambda>h.
       c_bind (check_block_total_length block e ''Section header'') (\<lambda>_.
       COk h)))))))"

section \<open>Interface description block\<close>

record interface_description =
  id_link_type :: link_type
  id_snap_len :: "32 word"
  id_name :: "bytes option"
  id_description :: "bytes option"
  id_ipv4_addr :: "(bytes \<times> bytes) list"
  id_ipv6_addr :: "(bytes \<times> byte) list"
  id_mac_addr :: "bytes option"
  id_eui_addr :: "bytes option"
  id_speed :: "64 word option"
  id_tsresol :: "byte option"
  id_tzone :: "int option"
  id_filter :: bytes
  id_os :: "bytes option"
  id_fcs_len :: "byte option"
  id_tsoffset :: "int option"
  id_hardware :: "bytes option"
  id_txspeed :: "64 word option"
  id_rxspeed :: "64 word option"
  id_iana_tzname :: "bytes option"

definition interface_description_new :: "link_type \<Rightarrow> 32 word \<Rightarrow> interface_description" where
  "interface_description_new lt snap_len =
    \<lparr>id_link_type = lt, id_snap_len = snap_len, id_name = None, id_description = None,
     id_ipv4_addr = [], id_ipv6_addr = [], id_mac_addr = None, id_eui_addr = None,
     id_speed = None, id_tsresol = None, id_tzone = None, id_filter = [], id_os = None,
     id_fcs_len = None, id_tsoffset = None, id_hardware = None, id_txspeed = None,
     id_rxspeed = None, id_iana_tzname = None\<rparr>"

text \<open>\<^verbatim>\<open>EthAddr::from_slice\<close> copies the slice into six bytes and panics on any other length.\<close>

definition eth_addr_from_slice :: "bytes \<Rightarrow> bytes cresult" where
  "eth_addr_from_slice v = (if length v = 6 then COk v else CPanic)"

definition interface_option ::
    "endian \<Rightarrow> 16 word \<Rightarrow> bytes \<Rightarrow> interface_description \<Rightarrow> interface_description cresult" where
  "interface_option e ty v i =
    (if ty = opt_if_name then c_bind (string_from_utf8 v) (\<lambda>s. COk (i\<lparr>id_name := Some s\<rparr>))
     else if ty = opt_if_description then c_bind (string_from_utf8 v) (\<lambda>s. COk (i\<lparr>id_description := Some s\<rparr>))
     else if ty = opt_if_ipv4_addr then
       c_bind (or_panic (slice v 0 4)) (\<lambda>addr.
       c_bind (or_panic (slice v 4 8)) (\<lambda>mask.
       COk (i\<lparr>id_ipv4_addr := id_ipv4_addr i @ [(addr, mask)]\<rparr>)))
     else if ty = opt_if_ipv6_addr then
       c_bind (or_panic (slice v 0 16)) (\<lambda>addr.
       c_bind (or_panic (byte_at v 16)) (\<lambda>prefix_len.
       COk (i\<lparr>id_ipv6_addr := id_ipv6_addr i @ [(addr, prefix_len)]\<rparr>)))
     else if ty = opt_if_mac_addr then
       c_bind (eth_addr_from_slice v) (\<lambda>a. COk (i\<lparr>id_mac_addr := Some a\<rparr>))
     else if ty = opt_if_eui_addr then
       (if length v = 8 then COk (i\<lparr>id_eui_addr := Some v\<rparr>) else CErr TryFromSlice)
     else if ty = opt_if_speed then
       c_bind (or_panic (read_u64 e v)) (\<lambda>x. COk (i\<lparr>id_speed := Some x\<rparr>))
     else if ty = opt_if_tsresol then
       c_bind (or_panic (byte_at v 0)) (\<lambda>x. COk (i\<lparr>id_tsresol := Some x\<rparr>))
     else if ty = opt_if_tzone then
       c_bind (or_panic (read_i32 e v)) (\<lambda>x. COk (i\<lparr>id_tzone := Some x\<rparr>))
     else if ty = opt_if_filter then COk (i\<lparr>id_filter := v\<rparr>)
     else if ty = opt_if_os then c_bind (string_from_utf8 v) (\<lambda>s. COk (i\<lparr>id_os := Some s\<rparr>))
     else if ty = opt_if_fcslen then
       c_bind (or_panic (byte_at v 0)) (\<lambda>x. COk (i\<lparr>id_fcs_len := Some x\<rparr>))
     else if ty = opt_if_tsoffset then
       c_bind (or_panic (read_i64 e v)) (\<lambda>x. COk (i\<lparr>id_tsoffset := Some x\<rparr>))
     else if ty = opt_if_hardware then c_bind (string_from_utf8 v) (\<lambda>s. COk (i\<lparr>id_hardware := Some s\<rparr>))
     else if ty = opt_if_txspeed then
       c_bind (or_panic (read_u64 e v)) (\<lambda>x. COk (i\<lparr>id_txspeed := Some x\<rparr>))
     else if ty = opt_if_rxspeed then
       c_bind (or_panic (read_u64 e v)) (\<lambda>x. COk (i\<lparr>id_rxspeed := Some x\<rparr>))
     else if ty = opt_if_iana_tzname then
       c_bind (string_from_utf8 v) (\<lambda>s. COk (i\<lparr>id_iana_tzname := Some s\<rparr>))
     else COk i)"

definition interface_description_parse :: "bytes \<Rightarrow> endian \<Rightarrow> interface_description cresult" where
  "interface_description_parse block e =
    (if length block < 20 then CErr (TruncatedCapture ''pcapng interface description block'')
     else
       c_bind (read_range (read_u16 e) block 8 10) (\<lambda>lt.
       c_bind (read_range (read_u32 e) block 12 16) (\<lambda>snap_len.
       c_bind (option_loop (interface_option e) block e 16
         (interface_description_new (link_type_from lt) snap_len)) (\<lambda>i.
       c_bind (check_block_total_length block e ''Interface description'') (\<lambda>_.
       COk i)))))"

definition id_to_interface :: "interface_description \<Rightarrow> capture_interface" where
  "id_to_interface i =
    \<lparr>if_link_type = id_link_type i, if_snap_len = id_snap_len i,
     if_resolution =
       (let res = (case id_tsresol i of Some r \<Rightarrow> r | None \<Rightarrow> 6)
        in if res < 128 then PowerOfTen res else PowerOfTwo (res XOR 0x80))\<rparr>"

lemma read_range_u32: "a + 4 \<le> length bs \<Longrightarrow> \<exists>n. read_range (read_u32 e) bs a (a + 4) = COk n"
  using read_some(2) [of "take 4 (drop a bs)" e]
  by (cases "read_u32 e (take 4 (drop a bs))") (auto simp: read_range_def)

section \<open>Simple and enhanced packet blocks\<close>

record simple_packet_header =
  sp_original_len :: "32 word"

definition simple_packet_parse :: "bytes \<Rightarrow> endian \<Rightarrow> (simple_packet_header \<times> bytes) cresult" where
  "simple_packet_parse block e =
    (if length block < 16 then CErr (TruncatedCapture ''pcapng simple packet block'')
     else
       c_bind (check_block_total_length block e ''Simple packet'') (\<lambda>_.
       c_bind (read_range (read_u32 e) block 8 12) (\<lambda>original_len.
       c_bind (or_panic (slice block 12 (length block - 4))) (\<lambda>data.
       COk (\<lparr>sp_original_len = original_len\<rparr>, data)))))"

definition simple_into_packet_record ::
    "simple_packet_header \<Rightarrow> interface_description \<Rightarrow> bytes \<Rightarrow> packet_record" where
  "simple_into_packet_record h i data =
    \<lparr>pr_timestamp = 0, pr_original_length = sp_original_len h, pr_data = data,
     pr_link_type = id_link_type i\<rparr>"

record enhanced_packet_header =
  ep_interface_id :: "32 word"
  ep_timestamp_high :: "32 word"
  ep_timestamp_low :: "32 word"
  ep_captured_len :: "32 word"
  ep_original_len :: "32 word"
  ep_flags :: "32 word option"
  ep_hash :: "bytes list"
  ep_drop_count :: "64 word option"
  ep_packet_id :: "64 word option"
  ep_queue :: "32 word option"
  ep_verdict :: "bytes list"
  ep_processid_threadid :: "(32 word \<times> 32 word) option"

definition enhanced_packet_option ::
    "endian \<Rightarrow> 16 word \<Rightarrow> bytes \<Rightarrow> enhanced_packet_header \<Rightarrow> enhanced_packet_header cresult" where
  "enhanced_packet_option e ty v h =
    (if ty = opt_epb_flags then
       c_bind (or_panic (read_u32 e v)) (\<lambda>x. COk (h\<lparr>ep_flags := Some x\<rparr>))
     else if ty = opt_epb_hash then COk (h\<lparr>ep_hash := ep_hash h @ [v]\<rparr>)
     else if ty = opt_epb_dropcount then
       c_bind (or_panic (read_u64 e v)) (\<lambda>x. COk (h\<lparr>ep_drop_count := Some x\<rparr>))
     else if ty = opt_epb_packet_id then
       c_bind (or_panic (read_u64 e v)) (\<lambda>x. COk (h\<lparr>ep_packet_id := Some x\<rparr>))
     else if ty = opt_epb_queue then
       c_bind (or_panic (read_u32 e v)) (\<lambda>x. COk (h\<lparr>ep_queue := Some x\<rparr>))
     else if ty = opt_epb_verdict then COk (h\<lparr>ep_verdict := ep_verdict h @ [v]\<rparr>)
     else if ty = opt_epb_processid_threadid then
       c_bind (read_range (read_u32 e) v 0 4) (\<lambda>process_id.
       c_bind (read_range (read_u32 e) v 4 8) (\<lambda>thread_id.
       COk (h\<lparr>ep_processid_threadid := Some (process_id, thread_id)\<rparr>)))
     else COk h)"

definition enhanced_packet_parse :: "bytes \<Rightarrow> endian \<Rightarrow> (enhanced_packet_header \<times> bytes) cresult" where
  "enhanced_packet_parse block e =
    (if length block < 32 then CErr (TruncatedCapture ''pcapng enhanced packet block'')
     else
       c_bind (read_range (read_u32 e) block 8 12) (\<lambda>interface_id.
       c_bind (read_range (read_u32 e) block 12 16) (\<lambda>timestamp_high.
       c_bind (read_range (read_u32 e) block 16 20) (\<lambda>timestamp_low.
       c_bind (read_range (read_u32 e) block 20 24) (\<lambda>captured_len.
       c_bind (read_range (read_u32 e) block 24 28) (\<lambda>original_len.
       let padded_length = unat (next_multiple_of captured_len 4);
           options_start = 28 + padded_length
       in if length block < options_start + 4
          then CErr (TruncatedCapture ''pcapng enhanced packet block'')
          else
            c_bind (or_panic (slice block 28 (28 + unat captured_len))) (\<lambda>data.
            c_bind (option_loop (enhanced_packet_option e) block e options_start
              \<lparr>ep_interface_id = interface_id, ep_timestamp_high = timestamp_high,
               ep_timestamp_low = timestamp_low, ep_captured_len = captured_len,
               ep_original_len = original_len, ep_flags = None, ep_hash = [],
               ep_drop_count = None, ep_packet_id = None, ep_queue = None, ep_verdict = [],
               ep_processid_threadid = None\<rparr>) (\<lambda>h.
            c_bind (check_block_total_length block e ''Enhanced packet'') (\<lambda>_.
            COk (h, data))))))))))"

section \<open>Timestamps\<close>

text \<open>The \<^verbatim>\<open>i64\<close> operations of the conversion; \<^verbatim>\<open>checked_\<close> ones return \<^verbatim>\<open>None\<close> on overflow.\<close>

definition in_i64 :: "int \<Rightarrow> bool" where
  "in_i64 x = (- (2 ^ 63) \<le> x \<and> x < 2 ^ 63)"

definition wrap_i64 :: "int \<Rightarrow> int" where
  "wrap_i64 x = sint (word_of_int x :: 64 word)"

lemma wrap_i64_id: "in_i64 x \<Longrightarrow> wrap_i64 x = x"
  by (simp add: wrap_i64_def in_i64_def signed_of_int signed_take_bit_int_eq_self)

lemma in_i64_nonneg: "0 \<le> x \<Longrightarrow> x < 2 ^ 63 \<Longrightarrow> in_i64 x"
  by (simp add: in_i64_def)

definition checked_mul_i64 :: "int \<Rightarrow> int \<Rightarrow> int option" where
  "checked_mul_i64 a b = (if in_i64 (a * b) then Some (a * b) else None)"

definition checked_add_i64 :: "int \<Rightarrow> int \<Rightarrow> int option" where
  "checked_add_i64 a b = (if in_i64 (a + b) then Some (a + b) else None)"

definition checked_div_i64 :: "int \<Rightarrow> int \<Rightarrow> int option" where
  "checked_div_i64 a b =
    (if b = 0 \<or> (a = - (2 ^ 63) \<and> b = - 1) then None else Some (a sdiv b))"

definition calc_timestamp :: "64 word \<Rightarrow> byte \<Rightarrow> int \<Rightarrow> int cresult" where
  "calc_timestamp raw tsresol tsoffset =
    (let timestamp =
       (if tsresol \<le> 127 then
          let power_of_10 = unat tsresol in
          if power_of_10 \<le> 9 then checked_mul_i64 (sint raw) (wrap_i64 (10 ^ (9 - power_of_10)))
          else checked_div_i64 (sint raw) (wrap_i64 (10 ^ (power_of_10 - 9)))
        else
          let power_of_2 = unat (tsresol XOR 0x80) in
          if power_of_2 \<le> 30 then checked_mul_i64 (sint raw) (wrap_i64 (2 ^ (30 - power_of_2)))
          else checked_div_i64 (sint raw) (wrap_i64 (2 ^ (power_of_2 - 30))))
     in c_bind (or_panic timestamp) (\<lambda>t.
        or_panic (checked_add_i64 t (wrap_i64 (tsoffset * 1000000000)))))"

definition packet_timestamp :: "enhanced_packet_header \<Rightarrow> interface_description \<Rightarrow> int cresult" where
  "packet_timestamp h i =
    (let raw = push_bit 32 (ucast (ep_timestamp_high h) :: 64 word) OR ucast (ep_timestamp_low h);
         tsresol = (case id_tsresol i of Some r \<Rightarrow> r | None \<Rightarrow> 6);
         tsoffset = (case id_tsoffset i of Some t \<Rightarrow> t | None \<Rightarrow> 0)
     in calc_timestamp raw tsresol tsoffset)"

definition enhanced_into_packet_record ::
    "enhanced_packet_header \<Rightarrow> interface_description \<Rightarrow> bytes \<Rightarrow> packet_record cresult" where
  "enhanced_into_packet_record h i data =
    c_bind (packet_timestamp h i) (\<lambda>t.
    COk \<lparr>pr_timestamp = t, pr_original_length = ep_original_len h, pr_data = data,
         pr_link_type = id_link_type i\<rparr>)"

section \<open>The streaming reader\<close>

datatype pcapng_block =
    BSectionHeader section_header
  | BInterfaceDescription interface_description
  | BSimplePacket simple_packet_header bytes
  | BEnhancedPacket enhanced_packet_header bytes
  | BRaw block_type bytes

record pcapng_reader =
  ng_section :: "section_header option"
  ng_interfaces :: "interface_description list"
  ng_source :: bytes

definition pcapng_reader_new :: "bytes \<Rightarrow> pcapng_reader cresult" where
  "pcapng_reader_new src = COk \<lparr>ng_section = None, ng_interfaces = [], ng_source = src\<rparr>"

definition section_magic :: bytes where
  "section_magic = [0x0A, 0x0D, 0x0D, 0x0A]"

text \<open>The last part of \<^verbatim>\<open>read_next_block\<close>: the length check and the read of the rest of the block.\<close>

definition read_block_rest ::
    "pcapng_reader \<Rightarrow> bytes \<Rightarrow> bytes \<Rightarrow> endian \<Rightarrow> block_type \<Rightarrow>
     pcapng_reader \<times> (block_type \<times> bytes) option cresult" where
  "read_block_rest r length_bytes buffer e bt =
    (case read_u32 e length_bytes of
       None \<Rightarrow> (r, CPanic)
     | Some total_length \<Rightarrow>
         if unat total_length < length buffer then (r, CErr (InvalidPcapngBlockTotalLength total_length))
         else (case read_exact (ng_source r) (unat total_length - length buffer) of
           (rest, None) \<Rightarrow> (r\<lparr>ng_source := rest\<rparr>, CErr IoUnexpectedEof)
         | (rest, Some body) \<Rightarrow> (r\<lparr>ng_source := rest\<rparr>, COk (Some (bt, buffer @ body)))))"

definition read_next_block :: "pcapng_reader \<Rightarrow> pcapng_reader \<times> (block_type \<times> bytes) option cresult" where
  "read_next_block r =
    (case read_exact (ng_source r) 4 of
       (rest, None) \<Rightarrow> (r\<lparr>ng_source := rest\<rparr>, COk None)
     | (rest, Some type_bytes) \<Rightarrow>
         (case read_exact rest 4 of
            (rest, None) \<Rightarrow> (r\<lparr>ng_source := rest\<rparr>, CErr IoUnexpectedEof)
          | (rest, Some length_bytes) \<Rightarrow>
              if type_bytes = section_magic then
                (case read_exact rest 4 of
                   (rest, None) \<Rightarrow> (r\<lparr>ng_source := rest\<rparr>, CErr IoUnexpectedEof)
                 | (rest, Some bom) \<Rightarrow>
                     read_block_rest (r\<lparr>ng_source := rest\<rparr>) length_bytes
                       (type_bytes @ length_bytes @ bom)
                       (if bom = byte_order_magic then Big else Little) BtSectionHeader)
              else
                (case ng_section r of
                   None \<Rightarrow>
                     (r\<lparr>ng_source := rest\<rparr>,
                      CErr (InvalidMagicNumber (word_of_nat (be_nat type_bytes))))
                 | Some sec \<Rightarrow>
                     (case read_u32 (sh_endian sec) type_bytes of
                        None \<Rightarrow> (r\<lparr>ng_source := rest\<rparr>, CPanic)
                      | Some ty \<Rightarrow>
                          read_block_rest (r\<lparr>ng_source := rest\<rparr>) length_bytes
                            (type_bytes @ length_bytes) (sh_endian sec) (block_type_from ty)))))"

text \<open>\<^verbatim>\<open>self.section.as_ref().expect("No section header found").endian\<close>\<close>

definition section_endian :: "section_header option \<Rightarrow> endian cresult" where
  "section_endian sec = c_bind (or_panic sec) (\<lambda>s. COk (sh_endian s))"

definition pcapng_next_block :: "pcapng_reader \<Rightarrow> pcapng_reader \<times> pcapng_block option cresult" where
  "pcapng_next_block r =
    (case read_next_block r of
       (r, CErr err) \<Rightarrow> (r, CErr err)
     | (r, CPanic) \<Rightarrow> (r, CPanic)
     | (r, COk None) \<Rightarrow> (r, COk None)
     | (r, COk (Some (bt, block))) \<Rightarrow>
         (case bt of
            BtSectionHeader \<Rightarrow>
              (case section_header_parse block of
                 COk h \<Rightarrow> (r\<lparr>ng_section := Some h\<rparr>, COk (Some (BSectionHeader h)))
               | CErr err \<Rightarrow> (r, CErr err) | CPanic \<Rightarrow> (r, CPanic))
          | BtInterfaceDescription \<Rightarrow>
              (case c_bind (section_endian (ng_section r)) (interface_description_parse block) of
                 COk i \<Rightarrow> (r\<lparr>ng_interfaces := ng_interfaces r @ [i]\<rparr>,
                          COk (Some (BInterfaceDescription i)))
               | CErr err \<Rightarrow> (r, CErr err) | CPanic \<Rightarrow> (r, CPanic))
          | BtSimplePacket \<Rightarrow>
              (r, c_bind (section_endian (ng_section r)) (\<lambda>e.
                  c_bind (simple_packet_parse block e) (\<lambda>(h, d). COk (Some (BSimplePacket h d)))))
          | BtEnhancedPacket \<Rightarrow>
              (r, c_bind (section_endian (ng_section r)) (\<lambda>e.
                  c_bind (enhanced_packet_parse block e) (\<lambda>(h, d). COk (Some (BEnhancedPacket h d)))))
          | _ \<Rightarrow> (r, c_bind (or_panic (slice block 8 (length block))) (\<lambda>d. COk (Some (BRaw bt d))))))"

text \<open>The interface a packet block refers to, and the record it becomes.\<close>

definition simple_record ::
    "interface_description list \<Rightarrow> simple_packet_header \<Rightarrow> bytes \<Rightarrow> packet_record cresult" where
  "simple_record interfaces h data =
    (case interfaces of
       i # _ \<Rightarrow> COk (simple_into_packet_record h i data)
     | [] \<Rightarrow> CErr MissingPcapngInterfaceDescriptionBlock)"

definition enhanced_record ::
    "interface_description list \<Rightarrow> enhanced_packet_header \<Rightarrow> bytes \<Rightarrow> packet_record cresult" where
  "enhanced_record interfaces h data =
    (case byte_at interfaces (unat (ep_interface_id h)) of
       Some i \<Rightarrow> enhanced_into_packet_record h i data
     | None \<Rightarrow> CErr (InvalidPcapngPacketInterfaceId (ep_interface_id h)))"

lemma read_exact_length: "read_exact src n = (rest, x) \<Longrightarrow> length rest \<le> length src"
  by (auto simp: read_exact_def split: if_splits)

lemma read_exact_Some: "read_exact src n = (rest, Some b) \<longleftrightarrow> n \<le> length src \<and> rest = drop n src \<and> b = take n src"
  by (auto simp: read_exact_def)

lemma read_block_rest_shrinks:
  "read_block_rest r lb buf e bt = (r', COk x) \<Longrightarrow> length (ng_source r') \<le> length (ng_source r)"
  by (auto simp: read_block_rest_def read_exact_def split: option.splits if_splits)

lemma read_next_block_shrinks:
  "read_next_block r = (r', COk (Some x)) \<Longrightarrow> length (ng_source r') + 8 \<le> length (ng_source r)"
  by (auto simp: read_next_block_def read_exact_Some dest!: read_block_rest_shrinks
      split: prod.splits option.splits if_splits)

text \<open>\<^verbatim>\<open>next_packet\<close>: read blocks until a packet; each round consumes at least eight bytes.\<close>

function pcapng_next_packet :: "pcapng_reader \<Rightarrow> pcapng_reader \<times> packet_record option cresult" where
  "pcapng_next_packet r0 =
    (case read_next_block r0 of
       (r, CErr err) \<Rightarrow> (r, CErr err)
     | (r, CPanic) \<Rightarrow> (r, CPanic)
     | (r, COk None) \<Rightarrow> (r, COk None)
     | (r, COk (Some (bt, block))) \<Rightarrow>
         (case bt of
            BtSectionHeader \<Rightarrow>
              (case section_header_parse block of
                 COk h \<Rightarrow> pcapng_next_packet (r\<lparr>ng_section := Some h\<rparr>)
               | CErr err \<Rightarrow> (r, CErr err) | CPanic \<Rightarrow> (r, CPanic))
          | BtInterfaceDescription \<Rightarrow>
              (case c_bind (section_endian (ng_section r)) (interface_description_parse block) of
                 COk i \<Rightarrow> pcapng_next_packet (r\<lparr>ng_interfaces := ng_interfaces r @ [i]\<rparr>)
               | CErr err \<Rightarrow> (r, CErr err) | CPanic \<Rightarrow> (r, CPanic))
          | BtSimplePacket \<Rightarrow>
              (r, c_bind (section_endian (ng_section r)) (\<lambda>e.
                  c_bind (simple_packet_parse block e) (\<lambda>(h, d).
                  c_bind (simple_record (ng_interfaces r) h d) (\<lambda>p. COk (Some p)))))
          | BtEnhancedPacket \<Rightarrow>
              (r, c_bind (section_endian (ng_section r)) (\<lambda>e.
                  c_bind (enhanced_packet_parse block e) (\<lambda>(h, d).
                  c_bind (enhanced_record (ng_interfaces r) h d) (\<lambda>p. COk (Some p)))))
          | _ \<Rightarrow> pcapng_next_packet r))"
  by pat_completeness auto
termination
  by (relation "measure (\<lambda>r. length (ng_source r))") (auto dest!: read_next_block_shrinks [OF sym])

declare pcapng_next_packet.simps [simp del]

definition pcapng_interfaces :: "interface_description list \<Rightarrow> capture_interface list" where
  "pcapng_interfaces is = map id_to_interface is"

section \<open>The slice reader\<close>

record pcapng_slice_reader =
  ns_section :: "section_header option"
  ns_interfaces :: "interface_description list"
  ns_data :: bytes
  ns_pos :: nat

record pcapng_block_record =
  br_offset :: nat
  br_raw :: bytes
  br_block :: pcapng_block

definition pcapng_slice_reader_new :: "bytes \<Rightarrow> pcapng_slice_reader cresult" where
  "pcapng_slice_reader_new data =
    COk \<lparr>ns_section = None, ns_interfaces = [], ns_data = data, ns_pos = 0\<rparr>"

text \<open>The byte order and type of the block at the front of \<^verbatim>\<open>remaining\<close>.\<close>

definition slice_block_type :: "section_header option \<Rightarrow> bytes \<Rightarrow> (block_type \<times> endian) cresult" where
  "slice_block_type sec remaining =
    c_bind (or_panic (slice remaining 0 4)) (\<lambda>type_bytes.
    if type_bytes = section_magic then
      c_bind (or_panic (slice remaining 8 12)) (\<lambda>bom.
      COk (BtSectionHeader, if bom = byte_order_magic then Big else Little))
    else
      (case sec of
         None \<Rightarrow> CErr (InvalidMagicNumber (word_of_nat (be_nat type_bytes)))
       | Some s \<Rightarrow>
           c_bind (or_panic (read_u32 (sh_endian s) type_bytes)) (\<lambda>ty.
           COk (block_type_from ty, sh_endian s))))"

text \<open>The \<^verbatim>\<open>match\<close> of the slice reader on a complete block: the new state and the parsed block.\<close>

definition slice_parse_block ::
    "pcapng_slice_reader \<Rightarrow> block_type \<Rightarrow> endian \<Rightarrow> bytes \<Rightarrow> pcapng_slice_reader \<times> pcapng_block cresult" where
  "slice_parse_block r bt e raw =
    (case bt of
       BtSectionHeader \<Rightarrow>
         (case section_header_parse raw of
            COk h \<Rightarrow> (r\<lparr>ns_section := Some h\<rparr>, COk (BSectionHeader h))
          | CErr err \<Rightarrow> (r, CErr err) | CPanic \<Rightarrow> (r, CPanic))
     | BtInterfaceDescription \<Rightarrow>
         (case interface_description_parse raw e of
            COk i \<Rightarrow> (r\<lparr>ns_interfaces := ns_interfaces r @ [i]\<rparr>, COk (BInterfaceDescription i))
          | CErr err \<Rightarrow> (r, CErr err) | CPanic \<Rightarrow> (r, CPanic))
     | BtSimplePacket \<Rightarrow> (r, c_bind (simple_packet_parse raw e) (\<lambda>(h, d). COk (BSimplePacket h d)))
     | BtEnhancedPacket \<Rightarrow> (r, c_bind (enhanced_packet_parse raw e) (\<lambda>(h, d). COk (BEnhancedPacket h d)))
     | _ \<Rightarrow> (r, c_bind (or_panic (slice raw 8 (length raw))) (\<lambda>d. COk (BRaw bt d))))"

definition pcapng_slice_next_block ::
    "pcapng_slice_reader \<Rightarrow> pcapng_slice_reader \<times> pcapng_block_record option cresult" where
  "pcapng_slice_next_block r =
    (case slice (ns_data r) (ns_pos r) (length (ns_data r)) of
       None \<Rightarrow> (r, CPanic)
     | Some remaining \<Rightarrow>
         if remaining = [] then (r, COk None)
         else if length remaining < 12 then (r, CErr (TruncatedCapture ''pcapng block''))
         else
           (case c_bind (slice_block_type (ns_section r) remaining) (\<lambda>(bt, e).
                 c_bind (read_range (read_u32 e) remaining 4 8) (\<lambda>n. COk (bt, e, unat n))) of
              CErr err \<Rightarrow> (r, CErr err)
            | CPanic \<Rightarrow> (r, CPanic)
            | COk (bt, e, block_total_length) \<Rightarrow>
                if block_total_length < 12 \<or> length remaining < block_total_length
                then (r, CErr (TruncatedCapture ''pcapng block''))
                else
                  let offset = ns_pos r; raw = take block_total_length remaining
                  in (case slice_parse_block (r\<lparr>ns_pos := offset + block_total_length\<rparr>) bt e raw of
                        (r', res) \<Rightarrow>
                          (r', c_bind res (\<lambda>block.
                            COk (Some \<lparr>br_offset = offset, br_raw = raw, br_block = block\<rparr>))))))"

lemma slice_parse_block_frame:
  "slice_parse_block r bt e raw = (r', res) \<Longrightarrow> ns_data r' = ns_data r \<and> ns_pos r' = ns_pos r"
  by (auto simp: slice_parse_block_def split: block_type.splits cresult.splits)

lemma pcapng_slice_next_block_Some:
  assumes "pcapng_slice_next_block r = (r', COk (Some b))"
  shows "ns_data r' = ns_data r \<and> br_offset b = ns_pos r \<and> ns_pos r' = ns_pos r + length (br_raw b) \<and>
    12 \<le> length (br_raw b) \<and> ns_pos r' \<le> length (ns_data r) \<and>
    br_raw b = take (length (br_raw b)) (drop (ns_pos r) (ns_data r))"
  using assms
  by (auto simp: pcapng_slice_next_block_def Let_def slice_def min_def c_bind_def
      dest!: slice_parse_block_frame split: if_splits cresult.splits prod.splits option.splits)

function pcapng_slice_next_packet_with_offset ::
    "pcapng_slice_reader \<Rightarrow> pcapng_slice_reader \<times> located_packet_record option cresult" where
  "pcapng_slice_next_packet_with_offset r0 =
    (case pcapng_slice_next_block r0 of
       (r, CErr err) \<Rightarrow> (r, CErr err)
     | (r, CPanic) \<Rightarrow> (r, CPanic)
     | (r, COk None) \<Rightarrow> (r, COk None)
     | (r, COk (Some b)) \<Rightarrow>
         (case br_block b of
            BSimplePacket h d \<Rightarrow>
              (r, c_bind (simple_record (ns_interfaces r) h d) (\<lambda>p.
                  COk (Some \<lparr>loc_offset = br_offset b, loc_raw = br_raw b, loc_packet = p\<rparr>)))
          | BEnhancedPacket h d \<Rightarrow>
              (r, c_bind (enhanced_record (ns_interfaces r) h d) (\<lambda>p.
                  COk (Some \<lparr>loc_offset = br_offset b, loc_raw = br_raw b, loc_packet = p\<rparr>)))
          | _ \<Rightarrow> pcapng_slice_next_packet_with_offset r))"
  by pat_completeness auto
termination
proof (relation "measure (\<lambda>r. length (ns_data r) - ns_pos r)", simp)
qed (auto dest!: pcapng_slice_next_block_Some [OF sym])

declare pcapng_slice_next_packet_with_offset.simps [simp del]

definition pcapng_slice_next_packet ::
    "pcapng_slice_reader \<Rightarrow> pcapng_slice_reader \<times> packet_record option cresult" where
  "pcapng_slice_next_packet r =
    (case pcapng_slice_next_packet_with_offset r of
       (r', res) \<Rightarrow> (r', c_bind res (\<lambda>x. COk (map_option loc_packet x))))"

end
