(* ===== verification/Readers.thy ===== *)
theory Readers
  imports Pcapng
begin

text \<open>
  Format detection and the readers that dispatch on it (\<^verbatim>\<open>src/capture.rs\<close>), the contract of the
  slice readers with its interpretations, and the agreement of the two PCAPNG readers.
\<close>

section \<open>Format detection\<close>

datatype capture_format = FormatPcap | FormatPcapng

definition from_magic_bytes :: "bytes \<Rightarrow> capture_format cresult" where
  "from_magic_bytes magic =
    (let magic_number = word_of_nat (be_nat magic) :: 32 word in
     if magic_number = magic_be_usec \<or> magic_number = magic_be_nsec \<or>
        magic_number = magic_le_usec \<or> magic_number = magic_le_nsec then COk FormatPcap
     else if block_type_from magic_number = BtSectionHeader then COk FormatPcapng
     else CErr (InvalidMagicNumber magic_number))"

datatype sniffed_reader = StreamPcap pcap_reader | StreamPcapng pcapng_reader

text \<open>The four bytes read for the detection are chained back in front of the source.\<close>

definition sniffed_reader_new :: "bytes \<Rightarrow> sniffed_reader cresult" where
  "sniffed_reader_new src =
    (case read_exact src 4 of
       (_, None) \<Rightarrow> CErr IoUnexpectedEof
     | (rest, Some magic) \<Rightarrow>
         c_bind (from_magic_bytes magic) (\<lambda>f.
         case f of
           FormatPcap \<Rightarrow> c_bind (pcap_reader_new (magic @ rest)) (\<lambda>r. COk (StreamPcap r))
         | FormatPcapng \<Rightarrow> c_bind (pcapng_reader_new (magic @ rest)) (\<lambda>r. COk (StreamPcapng r))))"

fun sniffed_format :: "sniffed_reader \<Rightarrow> capture_format" where
  "sniffed_format (StreamPcap _) = FormatPcap"
| "sniffed_format (StreamPcapng _) = FormatPcapng"

fun sniffed_interfaces :: "sniffed_reader \<Rightarrow> capture_interface list" where
  "sniffed_interfaces (StreamPcap r) = [pcap_to_interface (pr_header r)]"
| "sniffed_interfaces (StreamPcapng r) = pcapng_interfaces (ng_interfaces r)"

fun sniffed_next_packet :: "sniffed_reader \<Rightarrow> sniffed_reader \<times> packet_record option cresult" where
  "sniffed_next_packet (StreamPcap r) = apfst StreamPcap (pcap_reader_next_packet r)"
| "sniffed_next_packet (StreamPcapng r) = apfst StreamPcapng (pcapng_next_packet r)"

datatype sniffed_slice_reader = SlicePcap pcap_slice_reader | SlicePcapng pcapng_slice_reader

definition sniffed_slice_new :: "bytes \<Rightarrow> sniffed_slice_reader cresult" where
  "sniffed_slice_new data =
    (case slice data 0 4 of
       None \<Rightarrow> CErr (TruncatedCapture ''capture file header'')
     | Some magic \<Rightarrow>
         c_bind (from_magic_bytes magic) (\<lambda>f.
         case f of
           FormatPcap \<Rightarrow> c_bind (pcap_slice_reader_new data) (\<lambda>r. COk (SlicePcap r))
         | FormatPcapng \<Rightarrow> c_bind (pcapng_slice_reader_new data) (\<lambda>r. COk (SlicePcapng r))))"

fun sniffed_slice_format :: "sniffed_slice_reader \<Rightarrow> capture_format" where
  "sniffed_slice_format (SlicePcap _) = FormatPcap"
| "sniffed_slice_format (SlicePcapng _) = FormatPcapng"

fun sniffed_slice_next_packet ::
    "sniffed_slice_reader \<Rightarrow> sniffed_slice_reader \<times> packet_record option cresult" where
  "sniffed_slice_next_packet (SlicePcap r) = apfst SlicePcap (pcap_slice_next_packet r)"
| "sniffed_slice_next_packet (SlicePcapng r) = apfst SlicePcapng (pcapng_slice_next_packet r)"

fun sniffed_slice_next_packet_with_offset ::
    "sniffed_slice_reader \<Rightarrow> sniffed_slice_reader \<times> located_packet_record option cresult" where
  "sniffed_slice_next_packet_with_offset (SlicePcap r) =
    apfst SlicePcap (pcap_slice_next_packet_with_offset r)"
| "sniffed_slice_next_packet_with_offset (SlicePcapng r) =
    apfst SlicePcapng (pcapng_slice_next_packet_with_offset r)"

text \<open>What the sniffing reader reads and where it stands.\<close>

fun sniffed_data :: "sniffed_slice_reader \<Rightarrow> bytes" where
  "sniffed_data (SlicePcap r) = ps_data r"
| "sniffed_data (SlicePcapng r) = ns_data r"

fun sniffed_pos :: "sniffed_slice_reader \<Rightarrow> nat" where
  "sniffed_pos (SlicePcap r) = ps_pos r"
| "sniffed_pos (SlicePcapng r) = ns_pos r"

section \<open>The slice readers satisfy the contract\<close>

lemma sublist_take_drop: "sublist (take n (drop k xs)) xs"
  by (metis append_take_drop_id sublist_def)

lemma pcap_located_step:
  assumes "ps_pos r \<le> length (ps_data r)"
    and "pcap_slice_next_packet_with_offset r = (r', COk (Some x))"
  shows "ps_data r' = ps_data r \<and> ps_pos r \<le> loc_offset x \<and> loc_raw x \<noteq> [] \<and>
    ps_pos r' = loc_offset x + length (loc_raw x) \<and> ps_pos r' \<le> length (ps_data r) \<and>
    loc_raw x = take (length (loc_raw x)) (drop (loc_offset x) (ps_data r)) \<and>
    sublist (pr_data (loc_packet x)) (loc_raw x)"
proof -
  let ?rest = "drop (ps_pos r) (ps_data r)"
  obtain h d where f: "pcap_front (pcap_endian (ps_header r)) ?rest = Some (h, d)"
    using assms by (auto simp: pcap_slice_next_packet_with_offset_def pcap_slice_step Let_def
        split: option.splits if_splits)
  have len: "16 + length d \<le> length ?rest" and d: "d = take (length d) (drop 16 ?rest)"
    using pcap_front_length [OF f] pcap_front_data [OF f] by simp_all
  have r': "r' = r\<lparr>ps_pos := ps_pos r + 16 + length d\<rparr>"
    and off: "loc_offset x = ps_pos r" and raw: "loc_raw x = take (16 + length d) ?rest"
    and pk: "pr_data (loc_packet x) = d"
    using assms(2) f len
    by (auto simp: pcap_slice_next_packet_with_offset_def pcap_slice_step [OF assms(1)] Let_def
        pcap_to_packet_def c_bind_def or_panic_def slice_def split: if_splits)
  have "sublist d (take (16 + length d) ?rest)"
    using sublist_take_drop [of "length d" 16 "take (16 + length d) ?rest"] d
    by (simp add: drop_take min_def)
  moreover have "length (take (16 + length d) ?rest) = 16 + length d"
    using len by (simp add: min_def)
  moreover have "ps_pos r + 16 + length d \<le> length (ps_data r)" "ps_pos r < length (ps_data r)"
    using len by simp_all
  ultimately show ?thesis
    using len by (simp add: r' off raw pk del: length_take)
qed

interpretation pcap_located: located_reader pcap_slice_next_packet_with_offset ps_data ps_pos
  by unfold_locales (rule pcap_located_step)

lemma slice_sublist: "slice xs a b = Some ys \<Longrightarrow> sublist ys xs"
  by (auto simp: slice_Some_iff intro: sublist_take_drop)

lemma c_bind_COk: "c_bind r k = COk y \<longleftrightarrow> (\<exists>x. r = COk x \<and> k x = COk y)"
  by (cases r) simp_all

lemma or_panic_COk: "or_panic x = COk y \<longleftrightarrow> x = Some y"
  by (cases x) simp_all

lemma packet_parse_sublist:
  "simple_packet_parse block e = COk (h, d) \<Longrightarrow> sublist d block"
  "enhanced_packet_parse block e = COk (h', d) \<Longrightarrow> sublist d block"
  by (auto simp: simple_packet_parse_def enhanced_packet_parse_def c_bind_COk or_panic_COk Let_def
      simp del: slice_in_range dest!: slice_sublist split: if_splits)

text \<open>The packet of a block record is part of the block.\<close>

definition block_data :: "pcapng_block \<Rightarrow> bytes" where
  "block_data b = (case b of BSimplePacket _ d \<Rightarrow> d | BEnhancedPacket _ d \<Rightarrow> d | _ \<Rightarrow> [])"

lemma slice_parse_block_data:
  "slice_parse_block r bt e raw = (r', COk b) \<Longrightarrow> sublist (block_data b) raw"
  by (auto simp: slice_parse_block_def block_data_def c_bind_COk dest: packet_parse_sublist
      split: block_type.splits cresult.splits pcapng_block.splits prod.splits)

lemma slice_next_block_data:
  "pcapng_slice_next_block r = (r', COk (Some b)) \<Longrightarrow> sublist (block_data (br_block b)) (br_raw b)"
  by (auto simp: pcapng_slice_next_block_def Let_def c_bind_COk dest!: slice_parse_block_data
      split: option.splits if_splits cresult.splits prod.splits)

lemma record_data:
  "simple_record is h d = COk p \<Longrightarrow> pr_data p = d"
  "enhanced_record is h' d = COk p \<Longrightarrow> pr_data p = d"
  by (auto simp: simple_record_def simple_into_packet_record_def enhanced_record_def
      enhanced_into_packet_record_def c_bind_COk split: list.splits option.splits)

text \<open>One round of the packet loop, by the kind of block.\<close>

lemma pcapng_slice_packet_step:
  "pcapng_slice_next_packet_with_offset r0 =
    (case pcapng_slice_next_block r0 of
       (r, COk (Some b)) \<Rightarrow>
         (case br_block b of
            BSimplePacket h d \<Rightarrow>
              (r, c_bind (simple_record (ns_interfaces r) h d) (\<lambda>p.
                  COk (Some \<lparr>loc_offset = br_offset b, loc_raw = br_raw b, loc_packet = p\<rparr>)))
          | BEnhancedPacket h d \<Rightarrow>
              (r, c_bind (enhanced_record (ns_interfaces r) h d) (\<lambda>p.
                  COk (Some \<lparr>loc_offset = br_offset b, loc_raw = br_raw b, loc_packet = p\<rparr>)))
          | _ \<Rightarrow> pcapng_slice_next_packet_with_offset r)
     | (r, COk None) \<Rightarrow> (r, COk None)
     | (r, CErr err) \<Rightarrow> (r, CErr err)
     | (r, CPanic) \<Rightarrow> (r, CPanic))"
  by (subst pcapng_slice_next_packet_with_offset.simps) (auto split: prod.splits cresult.splits option.splits)

lemma pcapng_located_step:
  "ns_pos r \<le> length (ns_data r) \<Longrightarrow>
    pcapng_slice_next_packet_with_offset r = (r', COk (Some x)) \<Longrightarrow>
    ns_data r' = ns_data r \<and> ns_pos r \<le> loc_offset x \<and> loc_raw x \<noteq> [] \<and>
    ns_pos r' = loc_offset x + length (loc_raw x) \<and> ns_pos r' \<le> length (ns_data r) \<and>
    loc_raw x = take (length (loc_raw x)) (drop (loc_offset x) (ns_data r)) \<and>
    sublist (pr_data (loc_packet x)) (loc_raw x)"
proof (induction r rule: pcapng_slice_next_packet_with_offset.induct)
  case (1 r)
  obtain s b where n: "pcapng_slice_next_block r = (s, COk (Some b))"
    using "1.prems"(2)
    by (subst (asm) pcapng_slice_packet_step) (auto split: prod.splits cresult.splits option.splits)
  note f = pcapng_slice_next_block_Some [OF n] and d = slice_next_block_data [OF n]
  have "12 \<le> length (br_raw b)" using f by blast
  then have ne: "br_raw b \<noteq> []" by auto
  have pos: "ns_pos s \<le> length (ns_data s)" "ns_data s = ns_data r" "ns_pos r \<le> ns_pos s"
    using f by (metis, blast, metis le_add1)
  show ?case
  proof (cases "\<exists>h d. br_block b = BSimplePacket h d \<or> (\<exists>g. br_block b = BEnhancedPacket g d)")
    case True
    then have "r' = s \<and> loc_offset x = br_offset b \<and> loc_raw x = br_raw b \<and>
        pr_data (loc_packet x) = block_data (br_block b)"
      using "1.prems"(2) n
      by (subst (asm) pcapng_slice_packet_step)
        (auto simp: c_bind_COk block_data_def dest!: record_data)
    with f d ne show ?thesis by (intro conjI) (metis le_refl)+
  next
    case False
    then have "pcapng_slice_next_packet_with_offset s = (r', COk (Some x))"
      using "1.prems"(2) n
      by (subst (asm) pcapng_slice_packet_step) (auto split: pcapng_block.splits)
    then show ?thesis
      using "1.IH" n pos False by (cases "br_block b") (fastforce+)
  qed
qed

interpretation pcapng_located: located_reader pcapng_slice_next_packet_with_offset ns_data ns_pos
  by unfold_locales (rule pcapng_located_step)

lemma sniffed_located_step:
  assumes "sniffed_pos r \<le> length (sniffed_data r)"
    and "sniffed_slice_next_packet_with_offset r = (r', COk (Some x))"
  shows "sniffed_data r' = sniffed_data r \<and> sniffed_pos r \<le> loc_offset x \<and> loc_raw x \<noteq> [] \<and>
    sniffed_pos r' = loc_offset x + length (loc_raw x) \<and> sniffed_pos r' \<le> length (sniffed_data r) \<and>
    loc_raw x = take (length (loc_raw x)) (drop (loc_offset x) (sniffed_data r)) \<and>
    sublist (pr_data (loc_packet x)) (loc_raw x)"
proof (cases r)
  case (SlicePcap p)
  then obtain p' where "r' = SlicePcap p'" "pcap_slice_next_packet_with_offset p = (p', COk (Some x))"
    using assms(2) by (cases "pcap_slice_next_packet_with_offset p") auto
  then show ?thesis using pcap_located_step [of p p' x] assms(1) SlicePcap by simp
next
  case (SlicePcapng p)
  then obtain p' where "r' = SlicePcapng p'" "pcapng_slice_next_packet_with_offset p = (p', COk (Some x))"
    using assms(2) by (cases "pcapng_slice_next_packet_with_offset p") auto
  then show ?thesis using pcapng_located_step [of p p' x] assms(1) SlicePcapng by simp
qed

interpretation sniffed_located:
  located_reader sniffed_slice_next_packet_with_offset sniffed_data sniffed_pos
  by unfold_locales (rule sniffed_located_step)

section \<open>The two PCAPNG readers\<close>

definition ng_related :: "pcapng_reader \<Rightarrow> pcapng_slice_reader \<Rightarrow> bool" where
  "ng_related r s =
    (ng_section r = ns_section s \<and> ng_interfaces r = ns_interfaces s \<and>
     ns_pos s \<le> length (ns_data s) \<and> ng_source r = drop (ns_pos s) (ns_data s))"

lemma take_pieces: "m \<le> n \<Longrightarrow> take m xs @ take (n - m) (drop m xs) = take n xs"
  by (metis le_add_diff_inverse take_add)

lemma block_prefix:
  "take 4 xs @ take 4 (drop 4 xs) = take 8 xs"
  "take 4 xs @ take 4 (drop 4 xs) @ take 4 (drop 8 xs) = take 12 xs"
  using take_add [of 4 4 xs] take_add [of 8 4 xs] by simp_all

lemma read_block_rest_in_range:
  assumes "read_u32 e lb = Some n" and "length buf \<le> unat n"
    and "unat n \<le> length buf + length (ng_source r)"
  shows "read_block_rest r lb buf e bt =
    (r\<lparr>ng_source := drop (unat n - length buf) (ng_source r)\<rparr>,
     COk (Some (bt, buf @ take (unat n - length buf) (ng_source r))))"
  using assms by (auto simp: read_block_rest_def read_exact_def)

text \<open>A block that lies inside the rest is read alike by both readers.\<close>

lemma read_next_block_front:
  assumes "12 \<le> length rem" and "ng_source r = rem"
    and "slice_block_type (ng_section r) rem = COk (bt, e)"
    and "read_range (read_u32 e) rem 4 8 = COk n" and "12 \<le> unat n" and "unat n \<le> length rem"
  shows "read_next_block r = (r\<lparr>ng_source := drop (unat n) rem\<rparr>, COk (Some (bt, take (unat n) rem)))"
proof -
  have lb: "read_u32 e (take 4 (drop 4 rem)) = Some n"
    using assms(1,4) by (simp add: read_range_def or_panic_COk)
  have room: "4 \<le> length rem - 4" "4 \<le> length rem - 8" "4 \<le> length rem"
    using assms(1) by simp_all
  have t4: "slice rem 0 4 = Some (take 4 rem)" "slice rem 8 12 = Some (take 4 (drop 8 rem))"
    using assms(1) by (simp_all add: slice_def)
  show ?thesis
  proof (cases "take 4 rem = section_magic")
    case True
    then have bt: "bt = BtSectionHeader"
      "e = (if take 4 (drop 8 rem) = byte_order_magic then Big else Little)"
      using assms(3) t4 by (auto simp: slice_block_type_def)
    have "read_next_block r =
        read_block_rest (r\<lparr>ng_source := drop 12 rem\<rparr>) (take 4 (drop 4 rem)) (take 12 rem) e bt"
      using room assms(2) True by (simp add: read_next_block_def read_exact_def bt block_prefix [symmetric])
    then show ?thesis
      using assms lb take_pieces [of 12 "unat n" rem] by (simp add: read_block_rest_in_range min_absorb2)
  next
    case False
    then obtain sec ty where sec: "ng_section r = Some sec" "e = sh_endian sec"
      "read_u32 (sh_endian sec) (take 4 rem) = Some ty" "bt = block_type_from ty"
      using assms(3) t4 by (auto simp: slice_block_type_def c_bind_COk or_panic_COk split: option.splits)
    have "read_next_block r =
        read_block_rest (r\<lparr>ng_source := drop 8 rem\<rparr>) (take 4 (drop 4 rem)) (take 8 rem) e bt"
      using room assms(2) False sec by (simp add: read_next_block_def read_exact_def block_prefix(1) [symmetric])
    then show ?thesis
      using assms lb take_pieces [of 8 "unat n" rem] by (simp add: read_block_rest_in_range min_absorb2)
  qed
qed

lemma slice_block_type_endian:
  "slice_block_type sec rem = COk (bt, e) \<Longrightarrow> bt \<noteq> BtSectionHeader \<Longrightarrow> section_endian sec = COk e"
  by (auto simp: slice_block_type_def section_endian_def c_bind_COk or_panic_COk
      split: option.splits if_splits)

lemma read_next_block_magic:
  assumes "12 \<le> length (ng_source r)" and "slice_block_type (ng_section r) (ng_source r) = CErr err"
  shows "snd (read_next_block r) = CErr err"
proof -
  have room: "4 \<le> length (ng_source r) - 4" "4 \<le> length (ng_source r)" using assms(1) by simp_all
  then show ?thesis
    using assms
    by (auto simp: slice_block_type_def read_next_block_def read_exact_def c_bind_def or_panic_def slice_def
        split: option.splits if_splits cresult.splits)
qed

lemma read_u32_None: "read_u32 e bs = None \<longleftrightarrow> length bs < 4"
  by (auto simp: read_u32_def read_int_def)

lemma slice_rest: "p \<le> length xs \<Longrightarrow> slice xs p (length xs) = Some (drop p xs)"
  by (simp add: slice_def)

lemma slice_block_type_no_panic: "12 \<le> length rem \<Longrightarrow> slice_block_type sec rem \<noteq> CPanic"
  by (auto simp: slice_block_type_def slice_def c_bind_def or_panic_def read_u32_None
      split: option.splits cresult.splits)

lemma parse_block_agree:
  assumes rel: "ng_related q s" and e: "bt \<noteq> BtSectionHeader \<Longrightarrow> section_endian (ng_section q) = COk e"
    and len: "8 \<le> length raw" and r: "read_next_block r = (q, COk (Some (bt, raw)))"
    and s: "slice_parse_block s bt e raw = (s', res)"
  shows "\<exists>r'. pcapng_next_block r = (r', c_bind res (\<lambda>b. COk (Some b))) \<and> ng_related r' s'"
proof (cases bt)
  case BtSectionHeader
  then show ?thesis
    using rel r s by (cases "section_header_parse raw")
      (auto simp: pcapng_next_block_def slice_parse_block_def ng_related_def)
next
  case BtInterfaceDescription
  then show ?thesis
    using rel r s e by (cases "interface_description_parse raw e")
      (auto simp: pcapng_next_block_def slice_parse_block_def ng_related_def)
next
  case BtSimplePacket
  then show ?thesis
    using rel r s e by (cases "simple_packet_parse raw e")
      (auto simp: pcapng_next_block_def slice_parse_block_def ng_related_def)
next
  case BtEnhancedPacket
  then show ?thesis
    using rel r s e by (cases "enhanced_packet_parse raw e")
      (auto simp: pcapng_next_block_def slice_parse_block_def ng_related_def)
qed (use rel r s len in \<open>auto simp: pcapng_next_block_def slice_parse_block_def ng_related_def slice_rest
  simp del: slice_in_range\<close>)

definition truncated_block :: capture_error where
  "truncated_block = TruncatedCapture ''pcapng block''"

lemma next_block_agree:
  assumes rel: "ng_related r s" and "pcapng_slice_next_block s = (s', res)"
  shows "case res of
      COk (Some b) \<Rightarrow> \<exists>r'. pcapng_next_block r = (r', COk (Some (br_block b))) \<and> ng_related r' s'
    | COk None \<Rightarrow> snd (pcapng_next_block r) = COk None
    | CErr e \<Rightarrow> e \<noteq> truncated_block \<longrightarrow> snd (pcapng_next_block r) = CErr e
    | CPanic \<Rightarrow> snd (pcapng_next_block r) = CPanic"
proof -
  let ?rem = "drop (ns_pos s) (ns_data s)"
  have src: "ng_source r = ?rem" "ng_section r = ns_section s" "ng_interfaces r = ns_interfaces s"
    and pos: "ns_pos s \<le> length (ns_data s)"
    using rel by (simp_all add: ng_related_def)
  consider (fin) "?rem = []" | (short) "?rem \<noteq> []" "length ?rem < 12" | (long) "12 \<le> length ?rem"
    by linarith
  then show ?thesis
  proof cases
    case fin
    then show ?thesis
      using assms(2) src pos
      by (auto simp: pcapng_slice_next_block_def pcapng_next_block_def read_next_block_def read_exact_def)
  next
    case short
    then show ?thesis
      using assms(2) pos by (auto simp: pcapng_slice_next_block_def truncated_block_def)
  next
    case long
    then have ne: "?rem \<noteq> []" "\<not> length ?rem < 12" by auto
    obtain n where n: "read_range (read_u32 e) ?rem 4 8 = COk (n e)" for e
    proof -
      have "\<exists>n. read_range (read_u32 e) ?rem 4 8 = COk n" for e
        using long read_range_u32 [of 4 ?rem e] by simp
      then show ?thesis using that by metis
    qed
    show ?thesis
    proof (cases "slice_block_type (ns_section s) ?rem")
      case (CErr err)
      then have "pcapng_slice_next_block s = (s, CErr err)"
        using ne pos by (simp add: pcapng_slice_next_block_def slice_rest del: length_drop slice_in_range)
      moreover have "snd (pcapng_next_block r) = CErr err"
        using read_next_block_magic [of r err] CErr long src
        by (auto simp: pcapng_next_block_def split: prod.splits)
      ultimately show ?thesis using assms(2) by simp
    next
      case CPanic
      then show ?thesis using slice_block_type_no_panic long by blast
    next
      case (COk x)
      obtain bt e where bt: "slice_block_type (ns_section s) ?rem = COk (bt, e)"
        using COk by (cases x) auto
      let ?n = "unat (n e)" and ?raw = "take (unat (n e)) ?rem"
      let ?s = "s\<lparr>ns_pos := ns_pos s + ?n\<rparr>" and ?r = "r\<lparr>ng_source := drop ?n ?rem\<rparr>"
      show ?thesis
      proof (cases "?n < 12 \<or> length ?rem < ?n")
        case True
        then show ?thesis
          using assms(2) ne pos bt n
          by (auto simp: pcapng_slice_next_block_def slice_rest truncated_block_def simp del: length_drop slice_in_range)
      next
        case False
        have slice: "pcapng_slice_next_block s = (case slice_parse_block ?s bt e ?raw of (r', res) \<Rightarrow>
            (r', c_bind res (\<lambda>b. COk (Some \<lparr>br_offset = ns_pos s, br_raw = ?raw, br_block = b\<rparr>))))"
          using ne pos bt n False by (simp add: pcapng_slice_next_block_def slice_rest Let_def del: length_drop slice_in_range)
        have stream: "read_next_block r = (?r, COk (Some (bt, ?raw)))"
          using read_next_block_front [OF long src(1)] bt n False src by simp
        have rel': "ng_related ?r ?s"
          using False src pos by (auto simp: ng_related_def add.commute)
        obtain t r2 where t: "slice_parse_block ?s bt e ?raw = (t, r2)" by fastforce
        have "8 \<le> length ?raw" using False by simp
        then obtain r' where "pcapng_next_block r = (r', c_bind r2 (\<lambda>b. COk (Some b)))" "ng_related r' t"
          using parse_block_agree [OF rel' _ _ stream t] slice_block_type_endian [OF bt] src by auto
        then show ?thesis
          using assms(2) slice t by (cases r2) auto
      qed
    qed
  qed
qed

lemma magic_lengths: "length section_magic = 4" "length byte_order_magic = 4"
  by (simp_all add: section_magic_def byte_order_magic_def)

lemma read_block_rest_long:
  "read_block_rest r lb buf e bt = (q, COk (Some (bt', raw))) \<Longrightarrow> length buf \<le> length raw"
  by (auto simp: read_block_rest_def read_exact_def split: option.splits if_splits)

lemma read_next_block_long:
  "read_next_block r = (q, COk (Some (bt, raw))) \<Longrightarrow> 8 \<le> length raw"
  by (auto simp: read_next_block_def read_exact_def magic_lengths dest!: read_block_rest_long
      split: option.splits if_splits)

lemma pcapng_packet_step:
  "pcapng_next_packet r0 =
    (case pcapng_next_block r0 of
       (r, COk (Some b)) \<Rightarrow>
         (case b of
            BSimplePacket h d \<Rightarrow>
              (r, c_bind (simple_record (ng_interfaces r) h d) (\<lambda>p. COk (Some p)))
          | BEnhancedPacket h d \<Rightarrow>
              (r, c_bind (enhanced_record (ng_interfaces r) h d) (\<lambda>p. COk (Some p)))
          | _ \<Rightarrow> pcapng_next_packet r)
     | (r, COk None) \<Rightarrow> (r, COk None)
     | (r, CErr err) \<Rightarrow> (r, CErr err)
     | (r, CPanic) \<Rightarrow> (r, CPanic))"
proof (cases "\<exists>q x. read_next_block r0 = (q, COk (Some x))")
  case False
  obtain q res where q: "read_next_block r0 = (q, res)" by fastforce
  with False have "\<not> (\<exists>x. res = COk (Some x))" by blast
  then have "res = COk None \<or> (\<exists>e. res = CErr e) \<or> res = CPanic"
    by (cases res) (simp_all del: split_paired_All split_paired_Ex)
  then show ?thesis
    using q by (auto simp: pcapng_next_packet.simps [of r0] pcapng_next_block_def)
next
  case True
  then obtain q bt raw where q: "read_next_block r0 = (q, COk (Some (bt, raw)))" by auto
  note eqs = pcapng_next_packet.simps [of r0] pcapng_next_block_def q
  show ?thesis
  proof (cases bt)
    case BtSectionHeader
    then show ?thesis by (cases "section_header_parse raw") (simp_all add: eqs)
  next
    case BtInterfaceDescription
    then show ?thesis
      by (cases "c_bind (section_endian (ng_section q)) (interface_description_parse raw)")
        (simp_all add: eqs)
  next
    case BtSimplePacket
    show ?thesis
    proof (cases "section_endian (ng_section q)")
      case (COk e)
      with BtSimplePacket show ?thesis
        by (cases "simple_packet_parse raw e") (auto simp: eqs split: prod.splits)
    qed (use BtSimplePacket in \<open>simp_all add: eqs\<close>)
  next
    case BtEnhancedPacket
    show ?thesis
    proof (cases "section_endian (ng_section q)")
      case (COk e)
      with BtEnhancedPacket show ?thesis
        by (cases "enhanced_packet_parse raw e") (auto simp: eqs split: prod.splits)
    qed (use BtEnhancedPacket in \<open>simp_all add: eqs\<close>)
  qed (use read_next_block_long [OF q] in \<open>simp_all add: eqs slice_rest del: slice_in_range\<close>)
qed

text \<open>What the streaming reader answers where the slice reader answers \<^verbatim>\<open>x\<close>.\<close>

definition packets_match ::
    "pcapng_slice_reader \<times> located_packet_record option cresult \<Rightarrow>
     pcapng_reader \<times> packet_record option cresult \<Rightarrow> bool" where
  "packets_match x y =
    (case x of
       (s', COk (Some l)) \<Rightarrow> \<exists>r'. y = (r', COk (Some (loc_packet l))) \<and> ng_related r' s'
     | (s', COk None) \<Rightarrow> snd y = COk None
     | (s', CErr e) \<Rightarrow> e \<noteq> truncated_block \<longrightarrow> snd y = CErr e
     | (s', CPanic) \<Rightarrow> snd y = CPanic)"

lemma packets_agree:
  "ng_related r s \<Longrightarrow> packets_match (pcapng_slice_next_packet_with_offset s) (pcapng_next_packet r)"
proof (induction s arbitrary: r rule: pcapng_slice_next_packet_with_offset.induct)
  case (1 s)
  obtain t res where t: "pcapng_slice_next_block s = (t, res)" by fastforce
  note agree = next_block_agree [OF "1.prems" t]
  show ?case
  proof (cases "\<exists>b. res = COk (Some b)")
    case False
    then have res: "res = COk None \<or> (\<exists>e. res = CErr e) \<or> res = CPanic"
      by (cases res) auto
    obtain q res' where q: "pcapng_next_block r = (q, res')" by fastforce
    note steps = pcapng_slice_packet_step [of s] pcapng_packet_step [of r]
    from res show ?thesis
      using agree by (elim disjE exE) (auto simp: steps t q packets_match_def)
  next
    case True
    then obtain b where b: "res = COk (Some b)" by blast
    then obtain q where q: "pcapng_next_block r = (q, COk (Some (br_block b)))" "ng_related q t"
      using agree by auto
    have ifs: "ng_interfaces q = ns_interfaces t" using q(2) by (simp add: ng_related_def)
    note slice = pcapng_slice_packet_step [of s, unfolded t b, simplified]
    note stream = pcapng_packet_step [of r, unfolded q, simplified]
    have loop: "packets_match (pcapng_slice_next_packet_with_offset s) (pcapng_next_packet r)"
      if "pcapng_slice_next_packet_with_offset s = pcapng_slice_next_packet_with_offset t"
        "pcapng_next_packet r = pcapng_next_packet q"
        "packets_match (pcapng_slice_next_packet_with_offset t) (pcapng_next_packet q)"
      using that by simp
    show ?thesis
    proof (cases "br_block b")
      case (BSimplePacket h d)
      then show ?thesis
        by (cases "simple_record (ns_interfaces t) h d") (simp_all add: slice stream ifs q(2) packets_match_def)
    next
      case (BEnhancedPacket h d)
      then show ?thesis
        by (cases "enhanced_record (ns_interfaces t) h d") (simp_all add: slice stream ifs q(2) packets_match_def)
    next
      case (BSectionHeader h)
      then show ?thesis using loop [OF _ _ "1.IH"(1) [OF t [symmetric] b refl BSectionHeader q(2)]]
        by (simp add: slice stream)
    next
      case (BInterfaceDescription i)
      then show ?thesis
        using loop [OF _ _ "1.IH"(2) [OF t [symmetric] b refl BInterfaceDescription q(2)]]
        by (simp add: slice stream)
    next
      case (BRaw ty d)
      then show ?thesis using loop [OF _ _ "1.IH"(3) [OF t [symmetric] b refl BRaw q(2)]]
        by (simp add: slice stream)
    qed
  qed
qed

section \<open>Properties\<close>

lemma sniffed_slice_new_start:
  assumes "sniffed_slice_new d = COk r"
  shows "sniffed_data r = d \<and> sniffed_pos r \<le> length d"
proof -
  obtain f where f: "(case f of
      FormatPcap \<Rightarrow> c_bind (pcap_slice_reader_new d) (\<lambda>r. COk (SlicePcap r))
    | FormatPcapng \<Rightarrow> c_bind (pcapng_slice_reader_new d) (\<lambda>r. COk (SlicePcapng r))) = COk r"
    using assms by (auto simp: sniffed_slice_new_def c_bind_COk simp del: slice_in_range split: option.splits)
  show ?thesis
  proof (cases f)
    case FormatPcap
    then obtain h where "pcap_header_parse d = COk h" "r = SlicePcap \<lparr>ps_header = h, ps_data = d, ps_pos = 24\<rparr>"
      using f by (auto simp: c_bind_COk pcap_slice_reader_new_def)
    then show ?thesis using pcap_header_parse_take [of d h] by simp
  next
    case FormatPcapng
    then show ?thesis using f by (auto simp: pcapng_slice_reader_new_def)
  qed
qed

text \<open>C23: every record of a capture is where the reader says it is.  Whatever the format, draining the
  sniffing slice reader ends, its records lie one behind the other without overlap, the raw bytes of
  each are the capture's bytes at its offset, and the packet's bytes are part of them.\<close>

theorem sniffed_records_located:
  assumes "sniffed_slice_new d = COk r"
    and "drain (Suc (length d)) sniffed_slice_next_packet_with_offset r = (xs, res)"
  shows "located d 0 xs \<and> res \<noteq> None"
proof -
  have start: "sniffed_data r = d" "sniffed_pos r \<le> length (sniffed_data r)"
    using sniffed_slice_new_start [OF assms(1)] by simp_all
  have "located d (sniffed_pos r) xs"
    using sniffed_located.drain_located [OF start(2), of "Suc (length d)"] assms(2) start(1) by simp
  then have "located d 0 xs" by (cases xs) auto
  moreover have "res \<noteq> None"
    using sniffed_located.drain_ends [OF start(2), of "Suc (length d)"] assms(2) start(1) by simp
  ultimately show ?thesis by blast
qed

definition pcap_sample :: bytes where
  "pcap_sample =
    [0xd4, 0xc3, 0xb2, 0xa1, 2, 0, 4, 0, 0, 0, 0, 0, 0, 0, 0, 0, 0xff, 0xff, 0, 0, 1, 0, 0, 0,
     1, 0, 0, 0, 0xf4, 1, 0, 0, 4, 0, 0, 0, 4, 0, 0, 0, 1, 2, 3, 4]"

definition pcap_sample_reader :: sniffed_slice_reader where
  "pcap_sample_reader = SlicePcap
    \<lparr>ps_header = \<lparr>ph_magic_number = 0xD4C3B2A1, ph_major_version = 2, ph_minor_version = 4,
       ph_reserved_1 = 0, ph_reserved_2 = 0, ph_snap_len = 65535, ph_additional_info_link_type = 1\<rparr>,
     ps_data = pcap_sample, ps_pos = 24\<rparr>"

theorem sniffed_records_located_witness:
  "located pcap_sample 0
     (fst (drain (Suc (length pcap_sample)) sniffed_slice_next_packet_with_offset pcap_sample_reader))"
proof -
  have "sniffed_slice_new pcap_sample = COk pcap_sample_reader"
    by (simp add: sniffed_slice_new_def pcap_sample_def pcap_sample_reader_def from_magic_bytes_def
        be_nat_def magic_defs pcap_slice_reader_new_def pcap_header_parse_def magic_endian_def
        read_u32_def read_u16_def read_int_def)
  from sniffed_records_located [OF this prod.collapse [symmetric]] show ?thesis ..
qed

text \<open>C18: the two PCAPNG readers agree.  They start in corresponding states, and from corresponding
  states the streaming reader answers the packet, the end of the capture, the error or the panic of
  the slice reader, and stays in a corresponding state after a packet; only the slice reader's report
  of a block that does not fit the capture has no counterpart.\<close>

theorem pcapng_readers_agree:
  "(\<exists>r s. pcapng_reader_new d = COk r \<and> pcapng_slice_reader_new d = COk s \<and> ng_related r s) \<and>
   (ng_related r s \<longrightarrow> packets_match (pcapng_slice_next_packet_with_offset s) (pcapng_next_packet r))"
  by (simp add: packets_agree pcapng_reader_new_def pcapng_slice_reader_new_def ng_related_def)

definition pcapng_sample :: bytes where
  "pcapng_sample =
    [0x0A, 0x0D, 0x0D, 0x0A, 0, 0, 0, 0x1C, 0x1A, 0x2B, 0x3C, 0x4D, 0, 1, 0, 0,
     0xFF, 0xFF, 0xFF, 0xFF, 0xFF, 0xFF, 0xFF, 0xFF, 0, 0, 0, 0x1C,
     0, 0, 0, 1, 0, 0, 0, 0x14, 0, 1, 0, 0, 0, 0, 4, 0, 0, 0, 0, 0x14,
     0, 0, 0, 6, 0, 0, 0, 0x24, 0, 0, 0, 0, 0, 3, 0x7C, 0x58, 0x75, 0xE1, 0x2A, 0x94,
     0, 0, 0, 2, 0, 0, 0, 2, 7, 8, 0, 0, 0, 0, 0, 0x24]"

theorem pcapng_readers_agree_witness:
  "packets_match
     (pcapng_slice_next_packet_with_offset
        \<lparr>ns_section = None, ns_interfaces = [], ns_data = pcapng_sample, ns_pos = 0\<rparr>)
     (pcapng_next_packet \<lparr>ng_section = None, ng_interfaces = [], ng_source = pcapng_sample\<rparr>)"
  by (rule pcapng_readers_agree [THEN conjunct2, rule_format]) (simp add: ng_related_def)

end
