(* ===== verification/Pcapng_Blocks.thy ===== *)
theory Pcapng_Blocks
  imports Pcapng
begin

text \<open>
  What the block parsers of \<^verbatim>\<open>src/capture/format/pcapng.rs\<close> promise: options come back as they
  were encoded, timestamps are scaled exactly where they fit, a captured length that does not fit is
  refused, and the interface table only grows.
\<close>

section \<open>Encoding options and blocks\<close>

text \<open>The option layout of the format: type, length, value, and padding to 32 bits.\<close>

definition encode_option :: "endian \<Rightarrow> 16 word \<times> bytes \<Rightarrow> bytes" where
  "encode_option e opt =
    (case opt of (ty, v) \<Rightarrow>
       write_int e 2 (unat ty) @ write_int e 2 (length v) @ v
       @ replicate (unat (next_multiple_of (word_of_nat (length v) :: 16 word) 4) - length v) 0)"

definition encode_end :: "endian \<Rightarrow> bytes" where
  "encode_end e = write_int e 2 0 @ write_int e 2 0"

fun apply_options ::
    "(16 word \<Rightarrow> bytes \<Rightarrow> 'a \<Rightarrow> 'a cresult) \<Rightarrow> (16 word \<times> bytes) list \<Rightarrow> 'a \<Rightarrow> 'a cresult" where
  "apply_options put [] s = COk s"
| "apply_options put ((ty, v) # opts) s = c_bind (put ty v s) (apply_options put opts)"

definition option_ok :: "16 word \<times> bytes \<Rightarrow> bool" where
  "option_ok opt = (fst opt \<noteq> 0 \<and> length (snd opt) \<le> 65532)"

lemma word_of_nat_16: "n < 65536 \<Longrightarrow> unat (word_of_nat n :: 16 word) = n"
  by (rule unat_of_nat_less) simp

lemma next_multiple_16:
  assumes "n \<le> 65532"
  shows "unat (next_multiple_of (word_of_nat n :: 16 word) 4) = (n + 3) div 4 * 4"
proof -
  let ?w = "word_of_nat n :: 16 word"
  have n: "unat ?w = n" using assms by (intro word_of_nat_16) simp
  have r: "unat (?w mod 4) = n mod 4" by (simp add: unat_mod_distrib n)
  show ?thesis
  proof (cases "?w mod 4 = 0")
    case True
    then have "n mod 4 = 0" using r by simp
    then show ?thesis using True n by (simp add: next_multiple_of_def) presburger
  next
    case False
    then have m: "0 < n mod 4" using r by (metis gr0I unsigned_eq_0_iff)
    have "?w mod 4 < 4" by (simp add: word_less_nat_alt r)
    then have "unat (4 - ?w mod 4) = 4 - n mod 4" by (simp add: unat_sub r order.strict_implies_order)
    moreover have "n + (4 - n mod 4) < 65536" using assms m by presburger
    ultimately have "unat (?w + (4 - ?w mod 4)) = n + (4 - n mod 4)"
      by (subst unat_add_lem [THEN iffD1]) (simp_all add: n)
    moreover have "n + (4 - n mod 4) = (n + 3) div 4 * 4" using m by presburger
    ultimately show ?thesis using False by (simp add: next_multiple_of_def)
  qed
qed

lemma encode_option_length:
  assumes "option_ok (ty, v)"
  shows "length (encode_option e (ty, v)) =
    4 + unat (next_multiple_of (word_of_nat (length v) :: 16 word) 4)"
proof -
  have "length v \<le> (length v + 3) div 4 * 4" by presburger
  then show ?thesis using assms by (simp add: encode_option_def option_ok_def next_multiple_16)
qed

lemma slice_append_mid:
  "length pre = a \<Longrightarrow> a + length xs = b \<Longrightarrow> slice (pre @ xs @ rest) a b = Some xs"
  by (auto simp: slice_def)

lemma read_option_encoded:
  assumes "option_ok (ty, v)"
  shows "read_option (pre @ encode_option e (ty, v) @ rest) e (length pre) =
    COk ((ty, word_of_nat (length v), v), length pre + length (encode_option e (ty, v)))"
proof -
  let ?t = "write_int e 2 (unat ty)" and ?l = "write_int e 2 (length v)"
  obtain pad where enc: "encode_option e (ty, v) = ?t @ ?l @ v @ pad"
    by (simp add: encode_option_def)
  have n: "unat (word_of_nat (length v) :: 16 word) = length v"
    using assms by (intro word_of_nat_16) (simp add: option_ok_def)
  have s1: "slice (pre @ encode_option e (ty, v) @ rest) (length pre) (length pre + 2) = Some ?t"
    using slice_append_mid [of pre "length pre" ?t "length pre + 2" "?l @ v @ pad @ rest"] by (simp add: enc del: slice_in_range)
  have s2: "slice (pre @ encode_option e (ty, v) @ rest) (length pre + 2) (length pre + 4) = Some ?l"
    using slice_append_mid [of "pre @ ?t" "length pre + 2" ?l "length pre + 4" "v @ pad @ rest"]
    by (simp add: enc del: slice_in_range)
  have s3: "slice (pre @ encode_option e (ty, v) @ rest) (length pre + 4) (length pre + 4 + length v) = Some v"
    using slice_append_mid [of "pre @ ?t @ ?l" "length pre + 4" v "length pre + 4 + length v" "pad @ rest"]
    by (simp add: enc del: slice_in_range)
  have r1: "read_u16 e ?t = Some ty" using read_write_u16 [of e ty "[]"] by simp
  have r2: "read_u16 e ?l = Some (word_of_nat (length v))"
    using read_write_u16 [of e "word_of_nat (length v)" "[]"] n by simp
  show ?thesis
    using assms by (simp add: read_option_def s1 s2 s3 r1 r2 n encode_option_length option_ok_def
        opt_end_of_opt_def del: slice_in_range add_2_eq_Suc')
qed

lemma read_option_end:
  "\<exists>n. read_option (pre @ encode_end e @ rest) e (length pre) = COk ((opt_end_of_opt, n, []), length pre + 4)"
proof -
  have s1: "slice (pre @ encode_end e @ rest) (length pre) (length pre + 2) = Some (write_int e 2 0)"
    using slice_append_mid [of pre "length pre" "write_int e 2 0" "length pre + 2" "write_int e 2 0 @ rest"]
    by (simp add: encode_end_def del: slice_in_range)
  have s2: "slice (pre @ encode_end e @ rest) (length pre + 2) (length pre + 4) = Some (write_int e 2 0)"
    using slice_append_mid [of "pre @ write_int e 2 0" "length pre + 2" "write_int e 2 0" "length pre + 4" rest]
    by (simp add: encode_end_def del: slice_in_range)
  have "read_u16 e (write_int e 2 0) = Some 0" using read_write_u16 [of e 0 "[]"] by simp
  then show ?thesis by (simp add: read_option_def s1 s2 opt_end_of_opt_def del: slice_in_range add_2_eq_Suc')
qed

text \<open>The option loop of every block parser folds the parser's setter over the encoded options.\<close>

lemma option_loop_encoded:
  assumes "\<forall>opt \<in> set opts. option_ok opt" and "4 \<le> length rest"
  shows "option_loop put (pre @ concat (map (encode_option e) opts) @ encode_end e @ rest) e (length pre) s
    = apply_options put opts s"
  using assms(1)
proof (induction opts arbitrary: pre s)
  case Nil
  obtain n where "read_option (pre @ encode_end e @ rest) e (length pre) =
      COk ((opt_end_of_opt, n, []), length pre + 4)"
    using read_option_end by blast
  then show ?case
    using assms(2) by (subst option_loop.simps) (simp add: encode_end_def)
next
  case (Cons opt opts)
  obtain ty v where opt: "opt = (ty, v)" by fastforce
  let ?enc = "encode_option e (ty, v)"
  let ?rest = "concat (map (encode_option e) opts) @ encode_end e @ rest"
  let ?block = "pre @ ?enc @ ?rest"
  have ok: "option_ok (ty, v)" using Cons.prems opt by simp
  have "4 \<le> length ?enc" by (simp add: encode_option_def)
  moreover have "rest \<noteq> []" using assms(2) by auto
  ultimately have pos: "length pre < length ?block - 4" using assms(2) by (simp add: encode_end_def)
  have step: "read_option ?block e (length pre) =
      COk ((ty, word_of_nat (length v), v), length pre + length ?enc)"
    using read_option_encoded [OF ok, of pre e ?rest] .
  have "option_loop put ?block e (length pre + length ?enc) s' = apply_options put opts s'" for s'
    using Cons.IH [of "pre @ ?enc" s'] Cons.prems by simp
  then have ih: "option_loop put ?block e (length pre + length ?enc) = apply_options put opts"
    by (intro ext)
  have "ty \<noteq> opt_end_of_opt" using ok by (simp add: option_ok_def opt_end_of_opt_def)
  then have "option_loop put ?block e (length pre) s = c_bind (put ty v s) (apply_options put opts)"
    using pos step by (subst option_loop.simps) (simp add: ih)
  then show ?case by (simp add: opt)
qed

section \<open>Parsing an encoded interface description\<close>

definition encode_interface ::
    "endian \<Rightarrow> 16 word \<Rightarrow> 32 word \<Rightarrow> (16 word \<times> bytes) list \<Rightarrow> bytes" where
  "encode_interface e lt snap opts =
    (let body = write_int e 2 (unat lt) @ write_int e 2 0 @ write_int e 4 (unat snap)
           @ concat (map (encode_option e) opts) @ encode_end e;
         n = length body + 12
     in write_int e 4 1 @ write_int e 4 n @ body @ write_int e 4 n)"

lemma read_range_mid:
  "length pre = a \<Longrightarrow> a + length xs = b \<Longrightarrow> read_range rd (pre @ xs @ rest) a b = or_panic (rd xs)"
  by (simp add: read_range_def slice_append_mid del: slice_in_range)

lemma read_write_u32_nil [simp]: "read_u32 e (write_int e 4 (unat v)) = Some v"
  using read_write_u32 [of e v "[]"] by simp

lemma read_write_u16_nil [simp]: "read_u16 e (write_int e 2 (unat v)) = Some v"
  using read_write_u16 [of e v "[]"] by simp

text \<open>C39: an interface description comes back as it was encoded.  For every byte order, link type,
  snapshot length and list of options the parser consumes the options in order, each value without its
  padding, and nothing else, and it accepts the block.\<close>

theorem interface_description_encoded:
  assumes "\<forall>opt \<in> set opts. option_ok opt"
  shows "interface_description_parse (encode_interface e lt snap opts) e =
    apply_options (interface_option e) opts (interface_description_new (link_type_from lt) snap)"
proof -
  let ?opts = "concat (map (encode_option e) opts)"
  let ?n = "length ?opts + 24"
  let ?pre = "write_int e 4 1 @ write_int e 4 ?n @ write_int e 2 (unat lt) @ write_int e 2 0
    @ write_int e 4 (unat snap)"
  let ?block = "?pre @ ?opts @ encode_end e @ write_int e 4 ?n"
  have block: "encode_interface e lt snap opts = ?block"
    by (simp add: encode_interface_def encode_end_def Let_def add.commute)
  have len: "length ?block = ?n" by (simp add: encode_end_def)
  have r: "read_range (read_u16 e) ?block 8 10 = COk lt" "read_range (read_u32 e) ?block 12 16 = COk snap"
    using read_range_mid [of "write_int e 4 1 @ write_int e 4 ?n" 8 "write_int e 2 (unat lt)" 10 "read_u16 e"
        "write_int e 2 0 @ write_int e 4 (unat snap) @ ?opts @ encode_end e @ write_int e 4 ?n"]
      read_range_mid [of "write_int e 4 1 @ write_int e 4 ?n @ write_int e 2 (unat lt) @ write_int e 2 0" 12
        "write_int e 4 (unat snap)" 16 "read_u32 e" "?opts @ encode_end e @ write_int e 4 ?n"]
    by simp_all
  have loop: "option_loop (interface_option e) ?block e 16 s = apply_options (interface_option e) opts s" for s
    using option_loop_encoded [OF assms, of "write_int e 4 ?n" "interface_option e" ?pre e s] by simp
  have s1: "slice ?block 4 8 = Some (write_int e 4 ?n)"
    using slice_append_mid [of "write_int e 4 1" 4 "write_int e 4 ?n" 8
        "write_int e 2 (unat lt) @ write_int e 2 0 @ write_int e 4 (unat snap) @ ?opts @ encode_end e
          @ write_int e 4 ?n"]
    by (simp del: slice_in_range)
  have s2: "slice ?block (?n - 4) ?n = Some (write_int e 4 ?n)"
    using slice_append_mid [of "?pre @ ?opts @ encode_end e" "?n - 4" "write_int e 4 ?n" ?n "[]"]
    by (simp add: encode_end_def)
  have check: "check_block_total_length ?block e what = COk ()" for what
  proof -
    obtain v where "read_u32 e (write_int e 4 ?n) = Some v"
      by (metis read_some(2) write_int_length order_refl)
    then show ?thesis unfolding check_block_total_length_def len s1 s2 by simp
  qed
  show ?thesis
    unfolding block interface_description_parse_def len
    by (simp only: r loop c_bind_simps check) (simp add: c_bind_def split: cresult.splits)
qed

theorem interface_description_encoded_witness:
  "interface_description_parse (encode_interface Little 1 65535 [(9, [9]), (2, [101, 110, 48])]) Little =
    COk ((interface_description_new LtEthernet 65535)\<lparr>id_tsresol := Some 9, id_name := Some [101, 110, 48]\<rparr>)"
  by (subst interface_description_encoded)
    (simp_all add: option_ok_def interface_option_def opt_defs string_from_utf8_def
      link_type_from_def link_type_codes_def)

section \<open>Timestamps\<close>

text \<open>Decimal timestamps are exact or refused.  For a resolution of at most nine decimal digits the
  conversion returns the counter, read as an \<^verbatim>\<open>i64\<close>, scaled to nanoseconds plus the offset in seconds,
  exactly when the scaled counter and the sum fit an \<^verbatim>\<open>i64\<close>; when one does not it panics.\<close>

lemma calc_timestamp_decimal:
  assumes "unat tsresol \<le> 9" and "in_i64 (tsoffset * 1000000000)"
  shows "calc_timestamp raw tsresol tsoffset =
    (let ns = sint raw * 10 ^ (9 - unat tsresol); t = ns + tsoffset * 1000000000
     in if in_i64 ns \<and> in_i64 t then COk t else CPanic)"
proof -
  have small: "tsresol \<le> 127" using assms(1) by (simp add: word_le_nat_alt)
  have "(10::int) ^ (9 - unat tsresol) \<le> 10 ^ 9" by (rule power_increasing) simp_all
  then have "in_i64 (10 ^ (9 - unat tsresol))" by (intro in_i64_nonneg) simp_all
  then show ?thesis
    using assms small
    by (auto simp: calc_timestamp_def Let_def wrap_i64_id checked_mul_i64_def checked_add_i64_def)
qed

lemma calc_timestamp_decimal_witness:
  "calc_timestamp 1700000000123456 6 3600 = COk 1700003600123456000"
  using calc_timestamp_decimal [of 6 3600 1700000000123456] by (simp add: in_i64_def Let_def)

text \<open>Binary resolutions count \<open>2^30\<close> nanoseconds to the second.  For a resolution of \<open>2^-p\<close>
  seconds with \<open>p\<close> at most 30, a counter of exactly \<open>s\<close> seconds is converted to \<open>s * 2^30\<close>, which is
  not the number of nanoseconds in \<open>s\<close> seconds unless \<open>s\<close> is zero.\<close>

lemma calc_timestamp_binary:
  assumes "p \<le> 30" and "0 \<le> s" and "s * 2 ^ 30 < 2 ^ 63"
  shows "calc_timestamp (word_of_int (s * 2 ^ p)) (word_of_nat (128 + p)) 0 = COk (s * 2 ^ 30) \<and>
    (s * 2 ^ 30 = s * 1000000000 \<longleftrightarrow> s = 0)"
proof -
  have p: "unat (word_of_nat p :: byte) = p" using assms(1) by (intro unat_of_nat_less) simp
  have "unat (word_of_nat (128 + p) :: byte) = 128 + p" using assms(1) by (intro unat_of_nat_less) simp
  then have big: "\<not> (word_of_nat (128 + p) :: byte) \<le> 127" by (simp add: word_le_nat_alt)
  have "\<forall>p \<le> 30. unat ((word_of_nat (128 + p) :: byte) XOR 0x80) = p" by code_simp
  then have x: "unat ((word_of_nat (128 + p) :: byte) XOR 0x80) = p" using assms(1) by blast
  have le: "s * 2 ^ p \<le> s * 2 ^ 30"
    using assms by (intro mult_left_mono power_increasing) simp_all
  have raw: "sint (word_of_int (s * 2 ^ p) :: 64 word) = s * 2 ^ p"
    using le assms(2,3) wrap_i64_id [OF in_i64_nonneg, of "s * 2 ^ p"] unfolding wrap_i64_def by simp
  have "(2::int) ^ (30 - p) \<le> 2 ^ 30" by (rule power_increasing) simp_all
  then have "wrap_i64 (2 ^ (30 - p)) = 2 ^ (30 - p)"
    by (intro wrap_i64_id in_i64_nonneg) simp_all
  moreover have "(2::int) ^ p * 2 ^ (30 - p) = 2 ^ 30"
    using assms(1) by (simp add: power_add [symmetric])
  ultimately show ?thesis
    using assms big x raw
    by (simp add: mult.assoc calc_timestamp_def Let_def checked_mul_i64_def checked_add_i64_def in_i64_def wrap_i64_id)
qed

lemma calc_timestamp_binary_witness: "calc_timestamp (word_of_int 1024) (word_of_nat 138) 0 = COk 1073741824"
  using calc_timestamp_binary [of 10 1] by simp

section \<open>Enhanced packet blocks\<close>

lemma next_multiple_32:
  fixes c :: "32 word"
  shows "unat (next_multiple_of c 4) =
    (if unat c \<le> 4294967292 then (unat c + 3) div 4 * 4 else 0)"
proof -
  have r: "unat (c mod 4) = unat c mod 4" by (simp add: unat_mod_distrib)
  have bound: "unat c < 4294967296" using unsigned_less [of c, where 'a = nat] by simp
  show ?thesis
  proof (cases "c mod 4 = 0")
    case True
    then have "unat c mod 4 = 0" using r by simp
    then show ?thesis using True bound by (simp add: next_multiple_of_def) presburger
  next
    case False
    then have m: "0 < unat c mod 4" using r by (metis gr0I unsigned_eq_0_iff)
    have "c mod 4 < 4" by (simp add: word_less_nat_alt r)
    then have "unat (4 - c mod 4) = 4 - unat c mod 4" by (simp add: unat_sub r order.strict_implies_order)
    then have n: "unat (next_multiple_of c 4) = (unat c + (4 - unat c mod 4)) mod 4294967296"
      using False by (simp add: next_multiple_of_def unat_word_ariths)
    obtain q k where c: "unat c = 4 * q + k" "0 < k" "k < 4" "unat c mod 4 = k"
      using m by (metis mult_div_mod_eq mod_less_divisor zero_less_numeral)
    have "(4 * q + k + 3) div 4 = q + 1" using c(2,3) by (intro div_nat_eqI) simp_all
    then have up: "unat c + (4 - unat c mod 4) = 4 * q + 4" "(unat c + 3) div 4 * 4 = 4 * q + 4"
      using c by simp_all
    show ?thesis
    proof (cases "unat c \<le> 4294967292")
      case True
      then have "q \<le> 1073741822" using c by linarith
      then show ?thesis using True n up by simp
    next
      case False
      then have "q = 1073741823" using c bound by linarith
      then show ?thesis using False n up by simp
    qed
  qed
qed

text \<open>An enhanced packet block whose captured length does not fit is never read as a packet.  If the
  block is too short for the length it claims, the parser reports a truncated capture, except for the
  three largest lengths, whose padding wraps to zero: there it slices out of range and panics.\<close>

lemma enhanced_packet_too_long:
  assumes "32 \<le> length block" and "read_range (read_u32 e) block 20 24 = COk c"
    and "length block < 32 + (unat c + 3) div 4 * 4" and "length block < 4294967296"
  shows "enhanced_packet_parse block e =
    (if unat c \<le> 4294967292 then CErr (TruncatedCapture ''pcapng enhanced packet block'') else CPanic)"
proof -
  obtain a b c' d where r: "read_range (read_u32 e) block 8 12 = COk a"
    "read_range (read_u32 e) block 12 16 = COk b" "read_range (read_u32 e) block 16 20 = COk c'"
    "read_range (read_u32 e) block 24 28 = COk d"
    using assms(1) read_range_u32 [of 8 block e] read_range_u32 [of 12 block e]
      read_range_u32 [of 16 block e] read_range_u32 [of 24 block e] by auto
  show ?thesis
  proof (cases "unat c \<le> 4294967292")
    case True
    then show ?thesis using assms r by (simp add: enhanced_packet_parse_def Let_def next_multiple_32)
  next
    case False
    then have "slice block 28 (28 + unat c) = None" using assms(4) by (simp add: slice_def)
    then show ?thesis
      using assms r False by (simp add: enhanced_packet_parse_def Let_def next_multiple_32)
  qed
qed

definition huge_epb :: bytes where
  "huge_epb = [0, 0, 0, 6, 0, 0, 0, 32, 0, 0, 0, 0, 0, 0, 0, 0, 0, 0, 0, 0, 0xff, 0xff, 0xff, 0xff,
     0, 0, 0, 0, 0, 0, 0, 32]"

lemma enhanced_packet_too_long_witness: "enhanced_packet_parse huge_epb Big = CPanic"
  by (subst enhanced_packet_too_long [where c = "0xFFFFFFFF"])
    (simp_all add: huge_epb_def read_range_def read_u32_def read_int_def be_nat_def)

section \<open>The interface table\<close>

lemma read_block_rest_table:
  "read_block_rest r lb buf e bt = (q, res) \<Longrightarrow>
    ng_interfaces q = ng_interfaces r \<and> ng_section q = ng_section r"
  by (auto simp: read_block_rest_def split: option.splits if_splits prod.splits)

lemma read_next_block_table:
  "read_next_block r = (q, res) \<Longrightarrow> ng_interfaces q = ng_interfaces r \<and> ng_section q = ng_section r"
  by (auto simp: read_next_block_def dest!: read_block_rest_table split: option.splits if_splits prod.splits)

text \<open>The interface table only grows.  Reading a block leaves the table as it is unless the block is
  an interface description, which is appended; in particular a new section header keeps the
  descriptions of the section before it, so the interface numbers of the new section count from
  there.\<close>

lemma pcapng_interfaces_grow:
  "case pcapng_next_block r of
     (r', COk (Some (BInterfaceDescription i))) \<Rightarrow> ng_interfaces r' = ng_interfaces r @ [i]
   | (r', COk (Some (BSectionHeader h))) \<Rightarrow>
       ng_section r' = Some h \<and> ng_interfaces r' = ng_interfaces r
   | (r', _) \<Rightarrow> ng_interfaces r' = ng_interfaces r \<and> ng_section r' = ng_section r"
proof -
  obtain q res where q: "read_next_block r = (q, res)" by fastforce
  note table = read_next_block_table [OF q]
  show ?thesis
  proof (cases res)
    case (COk x)
    show ?thesis
    proof (cases x)
      case None
      then show ?thesis using COk q table by (simp add: pcapng_next_block_def)
    next
      case (Some y)
      obtain bt raw where y: "y = (bt, raw)" by fastforce
      show ?thesis
        using COk Some y q table
        by (cases bt)
          (auto simp: pcapng_next_block_def c_bind_def section_endian_def or_panic_def
            split: cresult.splits option.splits prod.splits)
    qed
  qed (use q table in \<open>simp_all add: pcapng_next_block_def\<close>)
qed

end
