(* ===== verification/Tool.thy ===== *)
theory Tool
  imports Readers
begin

text \<open>
  What the command line tools share: the result of a function that returns an \<^verbatim>\<open>anyhow::Result\<close>,
  and \<^verbatim>\<open>i64\<close> as a type of its own where the tools compare against \<^verbatim>\<open>i64::MIN\<close> and
  \<^verbatim>\<open>i64::MAX\<close>.
\<close>

section \<open>Results\<close>

text \<open>An \<^verbatim>\<open>anyhow\<close> error is a capture error or the message of a \<^verbatim>\<open>bail!\<close>.\<close>

datatype tool_error = CaptureFailed capture_error | Bail string
datatype 'a tool_result = TOk 'a | TErr tool_error | TPanic

definition t_bind :: "'a tool_result \<Rightarrow> ('a \<Rightarrow> 'b tool_result) \<Rightarrow> 'b tool_result" where
  "t_bind r k = (case r of TOk x \<Rightarrow> k x | TErr e \<Rightarrow> TErr e | TPanic \<Rightarrow> TPanic)"

definition of_capture :: "'a cresult \<Rightarrow> 'a tool_result" where
  "of_capture r = (case r of COk x \<Rightarrow> TOk x | CErr e \<Rightarrow> TErr (CaptureFailed e) | CPanic \<Rightarrow> TPanic)"

lemma t_bind_TOk: "t_bind r k = TOk y \<longleftrightarrow> (\<exists>x. r = TOk x \<and> k x = TOk y)"
  by (cases r) (simp_all add: t_bind_def)

lemma of_capture_TOk: "of_capture r = TOk x \<longleftrightarrow> r = COk x"
  by (cases r) (simp_all add: of_capture_def)

lemma t_bind_simps [simp]:
  "t_bind (TOk x) k = k x" "t_bind (TErr e) k = TErr e" "t_bind TPanic k = TPanic"
  by (simp_all add: t_bind_def)

section \<open>Signed 64-bit integers\<close>

typedef i64 = "{- (2 ^ 63) ..< 2 ^ 63 :: int}"
  morphisms int_of_i64 Abs_i64
  by (rule exI [of _ 0]) simp

setup_lifting type_definition_i64

lemma wrap_i64_range: "wrap_i64 x \<in> {- (2 ^ 63) ..< 2 ^ 63}"
  using sint_ge [of "word_of_int x :: 64 word"] sint_lt [of "word_of_int x :: 64 word"]
  by (simp add: wrap_i64_def)

lift_definition i64_of :: "int \<Rightarrow> i64" is wrap_i64
  by (rule wrap_i64_range)

instantiation i64 :: linorder
begin

lift_definition less_eq_i64 :: "i64 \<Rightarrow> i64 \<Rightarrow> bool" is "\<lambda>a b. a \<le> b" .

lift_definition less_i64 :: "i64 \<Rightarrow> i64 \<Rightarrow> bool" is "\<lambda>a b. a < b" .

instance
  by standard (transfer; auto)+

end

instantiation i64 :: "{order_bot, order_top}"
begin

lift_definition bot_i64 :: i64 is "- (2 ^ 63)" by simp

lift_definition top_i64 :: i64 is "2 ^ 63 - 1" by simp

instance
  by standard (transfer; simp)+

end

lemma i64_bot_top [simp]: "(bot :: i64) \<noteq> top"
  by transfer simp

lemma i64_of_le [simp]: "i64_of a \<le> i64_of b \<longleftrightarrow> wrap_i64 a \<le> wrap_i64 b"
  by transfer simp

lemma i64_of_less [simp]: "i64_of a < i64_of b \<longleftrightarrow> wrap_i64 a < wrap_i64 b"
  by transfer simp

lemma i64_of_eq [simp]: "i64_of a = i64_of b \<longleftrightarrow> wrap_i64 a = wrap_i64 b"
  by transfer simp

lemma i64_of_top [simp]: "i64_of a = top \<longleftrightarrow> wrap_i64 a = 2 ^ 63 - 1"
  by transfer simp

lemma i64_of_bot [simp]: "i64_of a = bot \<longleftrightarrow> wrap_i64 a = - (2 ^ 63)"
  by transfer simp

end
