(* ===== verification/Reordercap.thy ===== *)
theory Reordercap
  imports Tool "HOL-Library.Multiset"
begin

text \<open>
  The reordering tool (\<^verbatim>\<open>tools/maja-reordercap/src/main.rs\<close>): one scan of the capture builds an
  index of its packets, section by section; the index is sorted by timestamp and the records are
  copied byte for byte.  Paths, printing and the check that the output is not the input are not
  modelled; \<^verbatim>\<open>sort_by_key\<close>, the standard library's stable sort, is \<open>sort_key\<close>, and \<open>i64\<close>
  subtraction wraps as it does in a release build.
\<close>

section \<open>The scan\<close>

record packet_index =
  ix_timestamp :: int
  ix_offset :: nat
  ix_record_len :: nat

record misplaced =
  mp_frame :: nat
  mp_timestamp :: int
  mp_latest_frame :: nat
  mp_backward :: int

record scan =
  sc_index :: "packet_index list"
  sc_misplaced :: "misplaced list"
  sc_max_timestamp :: int
  sc_latest_frame :: nat

definition scan_new :: scan where
  "scan_new = \<lparr>sc_index = [], sc_misplaced = [], sc_max_timestamp = - (2 ^ 63), sc_latest_frame = 0\<rparr>"

definition scan_push :: "scan \<Rightarrow> int \<Rightarrow> nat \<Rightarrow> nat \<Rightarrow> nat \<Rightarrow> scan" where
  "scan_push s timestamp offset record_len frame =
    (let s =
       (if timestamp < sc_max_timestamp s
        then s\<lparr>sc_misplaced := sc_misplaced s @
               [\<lparr>mp_frame = frame, mp_timestamp = timestamp, mp_latest_frame = sc_latest_frame s,
                 mp_backward = wrap_i64 (sc_max_timestamp s - timestamp)\<rparr>]\<rparr>
        else s\<lparr>sc_max_timestamp := timestamp, sc_latest_frame := frame\<rparr>)
     in s\<lparr>sc_index := sc_index s @
          [\<lparr>ix_timestamp = timestamp, ix_offset = offset, ix_record_len = record_len\<rparr>]\<rparr>)"

record section_scan =
  ss_prefix :: "nat \<times> nat"
  ss_late_idbs :: "(nat \<times> nat) list"
  ss_scan :: scan
  ss_suffix :: "(nat \<times> nat) list"

lemma pcap_located_in_range:
  assumes "pcap_slice_next_packet_with_offset r = (r', COk (Some x))"
  shows "ps_pos r \<le> length (ps_data r)"
  using assms by (rule contrapos_pp)
    (simp add: pcap_slice_next_packet_with_offset_def pcap_slice_read_packet_raw_def slice_def)

lemma pcap_located_advances:
  assumes "pcap_slice_next_packet_with_offset r = (r', COk (Some x))"
  shows "length (ps_data r') - ps_pos r' < length (ps_data r) - ps_pos r"
  using pcap_located_step [OF pcap_located_in_range [OF assms] assms]
  by (metis add_le_cancel_left diff_less_mono2 le_trans length_greater_0_conv less_add_same_cancel1
      order.strict_trans1 order_less_le_trans)

function scan_pcap_loop :: "pcap_slice_reader \<Rightarrow> scan \<Rightarrow> scan cresult" where
  "scan_pcap_loop r s =
    (case pcap_slice_next_packet_with_offset r of
       (r', COk (Some l)) \<Rightarrow>
         scan_pcap_loop r' (scan_push s (pr_timestamp (loc_packet l)) (loc_offset l)
           (length (loc_raw l)) (length (sc_index s) + 1))
     | (_, COk None) \<Rightarrow> COk s
     | (_, CErr e) \<Rightarrow> CErr e
     | (_, CPanic) \<Rightarrow> CPanic)"
  by pat_completeness auto
termination
  by (relation "measure (\<lambda>(r, _). length (ps_data r) - ps_pos r)")
    (auto dest!: pcap_located_advances [OF sym])

declare scan_pcap_loop.simps [simp del]

definition scan_pcap :: "bytes \<Rightarrow> section_scan list cresult" where
  "scan_pcap data =
    c_bind (pcap_slice_reader_new data) (\<lambda>reader.
    c_bind (scan_pcap_loop reader scan_new) (\<lambda>s.
    COk [\<lparr>ss_prefix = (0, 24), ss_late_idbs = [], ss_scan = s, ss_suffix = []\<rparr>]))"

text \<open>The local variables of \<^verbatim>\<open>scan_pcapng\<close>.\<close>

record ng_scan =
  gs_sections :: "section_scan list"
  gs_in_section :: bool
  gs_section_start :: nat
  gs_prefix_end :: "nat option"
  gs_late_idbs :: "(nat \<times> nat) list"
  gs_scan :: scan
  gs_suffix :: "(nat \<times> nat) list"
  gs_frame :: nat

definition ng_scan_new :: ng_scan where
  "ng_scan_new =
    \<lparr>gs_sections = [], gs_in_section = False, gs_section_start = 0, gs_prefix_end = None,
     gs_late_idbs = [], gs_scan = scan_new, gs_suffix = [], gs_frame = 0\<rparr>"

definition close_section :: "ng_scan \<Rightarrow> nat \<Rightarrow> section_scan" where
  "close_section g end_offset =
    \<lparr>ss_prefix = (gs_section_start g,
       (case gs_prefix_end g of Some e \<Rightarrow> e | None \<Rightarrow> end_offset) - gs_section_start g),
     ss_late_idbs = gs_late_idbs g, ss_scan = gs_scan g, ss_suffix = gs_suffix g\<rparr>"

definition scan_block ::
    "interface_description list \<Rightarrow> ng_scan \<Rightarrow> pcapng_block_record \<Rightarrow> ng_scan tool_result" where
  "scan_block interfaces g rec =
    (case br_block rec of
       BSectionHeader _ \<Rightarrow>
         (let g = (if gs_in_section g
                   then g\<lparr>gs_sections := gs_sections g @ [close_section g (br_offset rec)],
                          gs_late_idbs := [], gs_suffix := []\<rparr>
                   else g)
          in TOk (g\<lparr>gs_in_section := True, gs_section_start := br_offset rec,
                    gs_prefix_end := None, gs_scan := scan_new\<rparr>))
     | BInterfaceDescription _ \<Rightarrow>
         TOk (if gs_prefix_end g \<noteq> None
              then g\<lparr>gs_late_idbs := gs_late_idbs g @ [(br_offset rec, length (br_raw rec))]\<rparr>
              else g)
     | BSimplePacket _ _ \<Rightarrow>
         TErr (Bail ''pcapng simple packet blocks have no timestamps and cannot be reordered'')
     | BEnhancedPacket h _ \<Rightarrow>
         (case byte_at interfaces (unat (ep_interface_id h)) of
            None \<Rightarrow> TErr (CaptureFailed (InvalidPcapngPacketInterfaceId (ep_interface_id h)))
          | Some i \<Rightarrow>
              t_bind (of_capture (packet_timestamp h i)) (\<lambda>timestamp.
              TOk (g\<lparr>gs_prefix_end := Some (case gs_prefix_end g of Some e \<Rightarrow> e | None \<Rightarrow> br_offset rec),
                     gs_frame := gs_frame g + 1,
                     gs_scan := scan_push (gs_scan g) timestamp (br_offset rec)
                       (length (br_raw rec)) (gs_frame g + 1)\<rparr>)))
     | BRaw _ _ \<Rightarrow>
         TOk (if gs_prefix_end g \<noteq> None
              then g\<lparr>gs_suffix := gs_suffix g @ [(br_offset rec, length (br_raw rec))]\<rparr>
              else g))"

lemma pcapng_block_advances:
  assumes "pcapng_slice_next_block r = (r', COk (Some b))"
  shows "length (ns_data r') - ns_pos r' < length (ns_data r) - ns_pos r"
  using pcapng_slice_next_block_Some [OF assms] by auto

function scan_pcapng_loop :: "pcapng_slice_reader \<Rightarrow> ng_scan \<Rightarrow> ng_scan tool_result" where
  "scan_pcapng_loop r g =
    (case pcapng_slice_next_block r of
       (r', COk (Some b)) \<Rightarrow>
         (case scan_block (ns_interfaces r') g b of
            TOk g' \<Rightarrow> scan_pcapng_loop r' g'
          | TErr e \<Rightarrow> TErr e
          | TPanic \<Rightarrow> TPanic)
     | (_, COk None) \<Rightarrow> TOk g
     | (_, CErr e) \<Rightarrow> TErr (CaptureFailed e)
     | (_, CPanic) \<Rightarrow> TPanic)"
  by pat_completeness auto
termination
  by (relation "measure (\<lambda>(r, _). length (ns_data r) - ns_pos r)")
    (auto dest!: pcapng_block_advances [OF sym])

declare scan_pcapng_loop.simps [simp del]

definition scan_pcapng :: "bytes \<Rightarrow> section_scan list tool_result" where
  "scan_pcapng data =
    t_bind (of_capture (pcapng_slice_reader_new data)) (\<lambda>reader.
    t_bind (scan_pcapng_loop reader ng_scan_new) (\<lambda>g.
    TOk (if gs_in_section g then gs_sections g @ [close_section g (length data)]
         else gs_sections g)))"

section \<open>The output\<close>

text \<open>The ranges of the input a section is written from, in order.\<close>

definition section_ranges :: "section_scan \<Rightarrow> (nat \<times> nat) list" where
  "section_ranges s =
    ss_prefix s # ss_late_idbs s
    @ map (\<lambda>e. (ix_offset e, ix_record_len e)) (sc_index (ss_scan s)) @ ss_suffix s"

fun copy_ranges :: "bytes \<Rightarrow> (nat \<times> nat) list \<Rightarrow> bytes cresult" where
  "copy_ranges data [] = COk []"
| "copy_ranges data ((offset, len) # rs) =
    c_bind (or_panic (slice data offset (offset + len))) (\<lambda>b.
    c_bind (copy_ranges data rs) (\<lambda>out. COk (b @ out)))"

definition write_reordered :: "bytes \<Rightarrow> section_scan list \<Rightarrow> bytes cresult" where
  "write_reordered data sections = copy_ranges data (concat (map section_ranges sections))"

definition sort_section :: "section_scan \<Rightarrow> section_scan" where
  "sort_section s =
    s\<lparr>ss_scan := (ss_scan s)\<lparr>sc_index := sort_key ix_timestamp (sc_index (ss_scan s))\<rparr>\<rparr>"

text \<open>
  \<^verbatim>\<open>main\<close> after the command line: the number of packets, the number out of order, and the output
  file, if one is written.
\<close>

definition reordercap :: "bool \<Rightarrow> bool \<Rightarrow> bytes \<Rightarrow> (nat \<times> nat \<times> bytes option) tool_result" where
  "reordercap dry_run no_output data =
    t_bind (of_capture (sniffed_slice_new data)) (\<lambda>reader.
    t_bind (case sniffed_slice_format reader of
              FormatPcap \<Rightarrow> of_capture (scan_pcap data)
            | FormatPcapng \<Rightarrow> scan_pcapng data) (\<lambda>sections.
    let total_packets = sum_list (map (\<lambda>s. length (sc_index (ss_scan s))) sections);
        misplaced_count = sum_list (map (\<lambda>s. length (sc_misplaced (ss_scan s))) sections)
    in if dry_run \<or> (misplaced_count = 0 \<and> no_output)
       then TOk (total_packets, misplaced_count, None)
       else
         t_bind (of_capture (write_reordered data (map sort_section sections))) (\<lambda>out.
         TOk (total_packets, misplaced_count, Some out))))"

section \<open>Order detection\<close>

abbreviation timestamps :: "scan \<Rightarrow> int list" where
  "timestamps s \<equiv> map ix_timestamp (sc_index s)"

definition scan_inv :: "scan \<Rightarrow> bool" where
  "scan_inv s =
    ((\<forall>t \<in> set (timestamps s). t \<le> sc_max_timestamp s) \<and>
     (if sc_index s = [] then sc_max_timestamp s = - (2 ^ 63)
      else sc_max_timestamp s \<in> set (timestamps s)) \<and>
     (sc_misplaced s = [] \<longleftrightarrow> sorted (timestamps s)))"

lemma scan_new_inv [simp]: "scan_inv scan_new"
  by (simp add: scan_inv_def scan_new_def)

lemma scan_push_index [simp]:
  "sc_index (scan_push s t off len frame) =
    sc_index s @ [\<lparr>ix_timestamp = t, ix_offset = off, ix_record_len = len\<rparr>]"
  by (simp add: scan_push_def Let_def)

lemma scan_push_inv:
  assumes "scan_inv s" and "- (2 ^ 63) \<le> t"
  shows "scan_inv (scan_push s t off len frame)"
proof (cases "t < sc_max_timestamp s")
  case True
  then have "sc_index s \<noteq> []" using assms by (auto simp: scan_inv_def)
  then have "sc_max_timestamp s \<in> set (timestamps s)" using assms(1) by (simp add: scan_inv_def)
  then show ?thesis
    using True assms(1)
    by (auto simp: scan_inv_def scan_push_def Let_def sorted_append not_le intro: bexI)
next
  case False
  then show ?thesis
    using assms(1) by (fastforce simp: scan_inv_def scan_push_def Let_def sorted_append)
qed

lemma pcap_located_timestamp:
  "pcap_slice_next_packet_with_offset r = (r', COk (Some l)) \<Longrightarrow> 0 \<le> pr_timestamp (loc_packet l)"
  by (auto simp: pcap_slice_next_packet_with_offset_def c_bind_COk pcap_to_packet_def Let_def
      split: prod.splits option.splits)

lemma scan_pcap_loop_inv: "scan_inv s \<Longrightarrow> scan_pcap_loop r s = COk s' \<Longrightarrow> scan_inv s'"
proof (induction r s rule: scan_pcap_loop.induct)
  case (1 r s)
  obtain r' res where n: "pcap_slice_next_packet_with_offset r = (r', res)" by fastforce
  show ?case
  proof (cases "\<exists>l. res = COk (Some l)")
    case True
    then obtain l where l: "res = COk (Some l)" by blast
    then have "scan_inv (scan_push s (pr_timestamp (loc_packet l)) (loc_offset l)
        (length (loc_raw l)) (length (sc_index s) + 1))"
      using pcap_located_timestamp n "1.prems"(1) by (intro scan_push_inv) force+
    then show ?thesis
      using "1.IH" [OF n [symmetric] l refl] "1.prems"(2) n l
      by (simp add: scan_pcap_loop.simps [of r s])
  next
    case False
    then show ?thesis
      using "1.prems" n by (cases res) (auto simp: scan_pcap_loop.simps [of r s])
  qed
qed

lemma calc_timestamp_range: "calc_timestamp raw res off = COk t \<Longrightarrow> - (2 ^ 63) \<le> t"
  by (auto simp: calc_timestamp_def Let_def c_bind_COk or_panic_COk checked_add_i64_def in_i64_def
      split: if_splits)

definition ng_inv :: "ng_scan \<Rightarrow> bool" where
  "ng_inv g = (scan_inv (gs_scan g) \<and> (\<forall>s \<in> set (gs_sections g). scan_inv (ss_scan s)))"

lemma scan_block_inv: "ng_inv g \<Longrightarrow> scan_block is g b = TOk g' \<Longrightarrow> ng_inv g'"
  by (cases "br_block b")
    (auto simp: scan_block_def ng_inv_def close_section_def Let_def t_bind_TOk of_capture_TOk
      packet_timestamp_def intro!: scan_push_inv dest: calc_timestamp_range split: if_splits option.splits)

lemma scan_pcapng_loop_inv: "ng_inv g \<Longrightarrow> scan_pcapng_loop r g = TOk g' \<Longrightarrow> ng_inv g'"
proof (induction r g rule: scan_pcapng_loop.induct)
  case (1 r g)
  obtain r' res where n: "pcapng_slice_next_block r = (r', res)" by fastforce
  show ?case
  proof (cases "\<exists>b. res = COk (Some b)")
    case True
    then obtain b where b: "res = COk (Some b)" by blast
    then obtain g1 where g1: "scan_block (ns_interfaces r') g b = TOk g1"
      using "1.prems"(2) n by (cases "scan_block (ns_interfaces r') g b")
        (auto simp: scan_pcapng_loop.simps [of r g])
    have "ng_inv g1" using scan_block_inv [OF "1.prems"(1) g1] .
    then show ?thesis
      using "1.IH" [OF n [symmetric] b refl g1] "1.prems"(2) n b g1
      by (simp add: scan_pcapng_loop.simps [of r g])
  next
    case False
    then show ?thesis
      using "1.prems" n by (cases res) (auto simp: scan_pcapng_loop.simps [of r g])
  qed
qed

text \<open>A file of two packets whose timestamps go back from two seconds to one.\<close>

definition disordered_sample :: bytes where
  "disordered_sample =
    [0xD4, 0xC3, 0xB2, 0xA1, 2, 0, 4, 0, 0, 0, 0, 0, 0, 0, 0, 0, 0xFF, 0xFF, 0, 0, 1, 0, 0, 0,
     2, 0, 0, 0, 0, 0, 0, 0, 1, 0, 0, 0, 1, 0, 0, 0, 9,
     1, 0, 0, 0, 0, 0, 0, 0, 0, 0, 0, 0, 0, 0, 0, 0]"

definition disordered_reader :: "nat \<Rightarrow> pcap_slice_reader" where
  "disordered_reader pos =
    \<lparr>ps_header = \<lparr>ph_magic_number = 0xD4C3B2A1, ph_major_version = 2, ph_minor_version = 4,
       ph_reserved_1 = 0, ph_reserved_2 = 0, ph_snap_len = 65535, ph_additional_info_link_type = 1\<rparr>,
     ps_data = disordered_sample, ps_pos = pos\<rparr>"

lemma disordered_new: "pcap_slice_reader_new disordered_sample = COk (disordered_reader 24)"
  by (simp add: disordered_sample_def disordered_reader_def be_nat_def magic_defs
      pcap_slice_reader_new_def pcap_header_parse_def magic_endian_def
      read_u32_def read_u16_def read_int_def)

lemma disordered_next:
  "\<exists>l. pcap_slice_next_packet_with_offset (disordered_reader 24) = (disordered_reader 41, COk (Some l)) \<and>
     pr_timestamp (loc_packet l) = 2000000000"
  "\<exists>l. pcap_slice_next_packet_with_offset (disordered_reader 41) = (disordered_reader 57, COk (Some l)) \<and>
     pr_timestamp (loc_packet l) = 1000000000"
  "pcap_slice_next_packet_with_offset (disordered_reader 57) = (disordered_reader 57, COk None)"
  by (simp_all add: disordered_sample_def disordered_reader_def be_nat_def magic_defs
      pcap_slice_next_packet_with_offset_def pcap_slice_read_packet_raw_def slice_def
      pcap_packet_header_parse_def magic_endian_def pcap_endian_def pcap_is_big_endian_def pcap_to_packet_def
      pcap_is_nanosecond_def
      read_u32_def read_u16_def read_int_def)

text \<open>C33: the scan detects disorder exactly.  In every section of every capture that the scan
  accepts, no packet is reported as misplaced if and only if the timestamps of the section, in file
  order, are sorted.\<close>

theorem scan_detects_disorder:
  assumes "scan_pcap data = COk sections \<or> scan_pcapng data = TOk sections"
    and "section \<in> set sections"
  shows "sc_misplaced (ss_scan section) = [] \<longleftrightarrow> sorted (timestamps (ss_scan section))"
proof -
  have "\<forall>s \<in> set sections. scan_inv (ss_scan s)" if "scan_pcap data = COk sections"
    using that scan_pcap_loop_inv [OF scan_new_inv]
    by (auto simp: scan_pcap_def c_bind_COk)
  moreover have "\<forall>s \<in> set sections. scan_inv (ss_scan s)" if sc: "scan_pcapng data = TOk sections"
  proof -
    obtain r g where g: "scan_pcapng_loop r ng_scan_new = TOk g"
      "sections = (if gs_in_section g then gs_sections g @ [close_section g (length data)]
         else gs_sections g)"
      using sc by (auto simp: scan_pcapng_def t_bind_TOk)
    have "ng_inv g"
      using scan_pcapng_loop_inv [OF _ g(1)] by (simp add: ng_inv_def ng_scan_new_def)
    then show ?thesis using g(2) by (auto simp: ng_inv_def close_section_def)
  qed
  ultimately have "scan_inv (ss_scan section)" using assms by blast
  then show ?thesis by (simp add: scan_inv_def)
qed

section \<open>The output of a PCAP capture\<close>

lemma copy_ranges_append:
  "copy_ranges data (rs @ rs') =
    c_bind (copy_ranges data rs) (\<lambda>a. c_bind (copy_ranges data rs') (\<lambda>b. COk (a @ b)))"
proof (induction data rs rule: copy_ranges.induct)
  case (1 data)
  show ?case by (cases "copy_ranges data rs'") simp_all
next
  case (2 data offset len rs)
  then show ?case
    by (cases "or_panic (slice data offset (offset + len))"; cases "copy_ranges data rs";
        cases "copy_ranges data rs'") simp_all
qed

lemma copy_ranges_mset:
  "copy_ranges data rs = COk out \<Longrightarrow>
    mset out = sum_list (map (\<lambda>(o', l). mset (take l (drop o' data))) rs)"
  by (induction rs arbitrary: out) (auto simp: c_bind_COk or_panic_COk slice_Some_iff)

text \<open>A located record whose raw bytes determine its packet, whatever follows them.\<close>

definition self_contained :: "pcap_header \<Rightarrow> located_packet_record \<Rightarrow> bool" where
  "self_contained h x =
    (\<exists>ph d. (\<forall>rest. pcap_front (pcap_endian h) (loc_raw x @ rest) = Some (ph, d)) \<and>
       length (loc_raw x) = 16 + length d \<and>
       loc_packet x = pcap_to_packet ph d (pcap_is_nanosecond h) (pcap_link_type h))"

lemma pcap_front_prefix:
  assumes "pcap_front e bs = Some (ph, d)"
  shows "pcap_front e (take (16 + length d) bs @ rest) = Some (ph, d)"
proof -
  have len: "length d = unat (pp_incl_len ph)" "16 + length d \<le> length bs"
    and d: "d = take (length d) (drop 16 bs)"
    using pcap_front_length [OF assms] pcap_front_data [OF assms] by simp_all
  let ?bs = "take (16 + length d) bs @ rest"
  have "take 16 ?bs = take 16 bs" using len by (simp add: min_def)
  then have "pcap_packet_header_parse ?bs e = pcap_packet_header_parse bs e"
    using len pcap_packet_header_take [of ?bs e] pcap_packet_header_take [of bs e] by simp
  moreover have "pcap_packet_header_parse bs e = COk ph"
    using assms by (auto simp: pcap_front_def split: if_splits cresult.splits)
  moreover have "take (length d) (drop 16 ?bs) = d"
    using len d by (simp add: drop_take)
  ultimately show ?thesis using len by (simp add: pcap_front_def)
qed

lemma pcap_located_front:
  assumes "pcap_slice_next_packet_with_offset r = (r', COk (Some x))"
  shows "self_contained (ps_header r) x \<and> ps_header r' = ps_header r \<and>
    loc_offset x = ps_pos r \<and> loc_raw x = take (length (loc_raw x)) (drop (ps_pos r) (ps_data r))"
proof -
  note pos = pcap_located_in_range [OF assms]
  let ?rest = "drop (ps_pos r) (ps_data r)"
  obtain h d where f: "pcap_front (pcap_endian (ps_header r)) ?rest = Some (h, d)"
    using assms pos by (auto simp: pcap_slice_next_packet_with_offset_def pcap_slice_step Let_def
        split: option.splits if_splits)
  have len: "16 + length d \<le> length ?rest" using pcap_front_length [OF f] by simp
  have x: "r' = r\<lparr>ps_pos := ps_pos r + 16 + length d\<rparr>" "loc_offset x = ps_pos r"
    "loc_raw x = take (16 + length d) ?rest"
    "loc_packet x = pcap_to_packet h d (pcap_is_nanosecond (ps_header r)) (pcap_link_type (ps_header r))"
    using assms f len
    by (auto simp: pcap_slice_next_packet_with_offset_def pcap_slice_step [OF pos] Let_def
        c_bind_def or_panic_def slice_def split: if_splits)
  have "self_contained (ps_header r) x"
    unfolding self_contained_def x(3,4)
    using pcap_front_prefix [OF f] len by (intro exI conjI allI) (assumption, simp, simp)
  moreover have "length (loc_raw x) = 16 + length d" using x(3) len by simp
  ultimately show ?thesis using x(1-3) by simp
qed

lemma pcap_read_self_contained:
  assumes "self_contained (ps_header r) x" and "ps_pos r \<le> length (ps_data r)"
    and "drop (ps_pos r) (ps_data r) = loc_raw x @ rest"
  shows "pcap_slice_next_packet_with_offset r =
    (r\<lparr>ps_pos := ps_pos r + length (loc_raw x)\<rparr>, COk (Some (x\<lparr>loc_offset := ps_pos r\<rparr>)))"
proof -
  obtain ph d where f: "pcap_front (pcap_endian (ps_header r)) (loc_raw x @ rest) = Some (ph, d)"
    and len: "length (loc_raw x) = 16 + length d"
    and pk: "loc_packet x = pcap_to_packet ph d (pcap_is_nanosecond (ps_header r)) (pcap_link_type (ps_header r))"
    using assms(1) by (auto simp: self_contained_def)
  have "slice (ps_data r) (ps_pos r) (ps_pos r + 16 + length d) = Some (loc_raw x)"
  proof -
    have "length (drop (ps_pos r) (ps_data r)) = length (loc_raw x @ rest)"
      using assms(3) by (rule arg_cong)
    then have "ps_pos r + 16 + length d \<le> length (ps_data r)" using assms(2) len by simp
    then show ?thesis using assms(3) len by (simp add: slice_def)
  qed
  then show ?thesis
    using assms(2,3) f len pk
    by (simp add: pcap_slice_next_packet_with_offset_def pcap_slice_step Let_def add.assoc
        del: slice_in_range)
qed

definition index_of :: "located_packet_record \<Rightarrow> packet_index" where
  "index_of l = \<lparr>ix_timestamp = pr_timestamp (loc_packet l), ix_offset = loc_offset l,
     ix_record_len = length (loc_raw l)\<rparr>"

text \<open>The scan reads what a client that drains the reader reads.\<close>

lemma scan_pcap_loop_drain:
  "drain n pcap_slice_next_packet_with_offset r = (xs, Some res) \<Longrightarrow>
    (case res of
       COk _ \<Rightarrow> \<exists>s'. scan_pcap_loop r s = COk s' \<and> sc_index s' = sc_index s @ map index_of xs
     | CErr e \<Rightarrow> scan_pcap_loop r s = CErr e
     | CPanic \<Rightarrow> scan_pcap_loop r s = CPanic)"
proof (induction n arbitrary: r s xs)
  case 0
  then show ?case by simp
next
  case (Suc n)
  obtain r' y where nxt: "pcap_slice_next_packet_with_offset r = (r', y)" by fastforce
  show ?case
  proof (cases "\<exists>l. y = COk (Some l)")
    case True
    then obtain l where l: "y = COk (Some l)" by blast
    obtain zs where zs: "drain n pcap_slice_next_packet_with_offset r' = (zs, Some res)" "xs = l # zs"
      using Suc.prems nxt l by (auto split: prod.splits)
    let ?s = "scan_push s (pr_timestamp (loc_packet l)) (loc_offset l) (length (loc_raw l))
      (length (sc_index s) + 1)"
    have "scan_pcap_loop r s = scan_pcap_loop r' ?s"
      using nxt l by (simp add: scan_pcap_loop.simps [of r s])
    then show ?thesis
      using Suc.IH [OF zs(1), of ?s] zs(2) by (cases res) (auto simp: index_of_def)
  next
    case False
    then show ?thesis
      using Suc.prems nxt
      by (cases y) (auto simp: scan_pcap_loop.simps [of r s] split: option.splits)
  qed
qed

lemma disordered_drain:
  "\<exists>xs. drain (Suc (length disordered_sample)) pcap_slice_next_packet_with_offset (disordered_reader 24) =
      (xs, Some (COk ())) \<and>
    map (\<lambda>x. pr_timestamp (loc_packet x)) xs = [2000000000, 1000000000]"
proof -
  obtain k where n: "Suc (length disordered_sample) = Suc (Suc (Suc k))"
    by (simp add: disordered_sample_def)
  obtain l m where
    "pcap_slice_next_packet_with_offset (disordered_reader 24) = (disordered_reader 41, COk (Some l))"
    "pcap_slice_next_packet_with_offset (disordered_reader 41) = (disordered_reader 57, COk (Some m))"
    "pr_timestamp (loc_packet l) = 2000000000" "pr_timestamp (loc_packet m) = 1000000000"
    using disordered_next by blast
  then show ?thesis unfolding n by (intro exI [of _ "[l, m]"]) (simp add: disordered_next(3))
qed

lemma disordered_scan:
  "\<exists>s. scan_pcap disordered_sample = COk [s] \<and> timestamps (ss_scan s) = [2000000000, 1000000000]"
proof -
  obtain xs where xs: "drain (Suc (length disordered_sample)) pcap_slice_next_packet_with_offset
      (disordered_reader 24) = (xs, Some (COk ()))"
    and t: "map (\<lambda>x. pr_timestamp (loc_packet x)) xs = [2000000000, 1000000000]"
    using disordered_drain by (elim exE conjE)
  obtain s where "scan_pcap_loop (disordered_reader 24) scan_new = COk s" "sc_index s = map index_of xs"
    using scan_pcap_loop_drain [OF xs, of scan_new] by (auto simp: scan_new_def)
  then show ?thesis using t by (simp add: scan_pcap_def disordered_new index_of_def comp_def)
qed

theorem scan_detects_disorder_witness:
  "\<exists>s. scan_pcap disordered_sample = COk [s] \<and> sc_misplaced (ss_scan s) \<noteq> []"
proof -
  obtain s where s: "scan_pcap disordered_sample = COk [s]"
    and t: "timestamps (ss_scan s) = [2000000000, 1000000000]"
    using disordered_scan by (elim exE conjE)
  have "sc_misplaced (ss_scan s) = [] \<longleftrightarrow> sorted (timestamps (ss_scan s))"
    by (rule scan_detects_disorder [OF disjI1 [OF s]]) simp
  then show ?thesis unfolding t using s by auto
qed

lemma drain_self_contained:
  "drain n pcap_slice_next_packet_with_offset r = (xs, res) \<Longrightarrow> x \<in> set xs \<Longrightarrow>
    self_contained (ps_header r) x"
proof (induction n arbitrary: r xs)
  case (Suc n)
  obtain r' y where nxt: "pcap_slice_next_packet_with_offset r = (r', y)" by fastforce
  show ?case
  proof (cases "\<exists>l. y = COk (Some l)")
    case True
    then obtain l zs where l: "y = COk (Some l)"
      and zs: "drain n pcap_slice_next_packet_with_offset r' = (zs, res)" "xs = l # zs"
      using Suc.prems(1) nxt by (auto split: prod.splits)
    have "self_contained (ps_header r) l" "ps_header r' = ps_header r"
      using pcap_located_front nxt l by (blast, blast)
    then show ?thesis using Suc.IH [OF zs(1)] Suc.prems(2) zs(2) by auto
  next
    case False
    then show ?thesis
      using Suc.prems nxt by (cases y) (auto split: option.splits)
  qed
qed simp

text \<open>Self-contained records written one behind the other read back.\<close>

lemma drain_written:
  assumes "\<forall>x \<in> set xs. self_contained (ps_header r) x" and "ps_pos r \<le> length (ps_data r)"
    and "drop (ps_pos r) (ps_data r) = concat (map loc_raw xs)" and "length xs < n"
  shows "\<exists>ys. drain n pcap_slice_next_packet_with_offset r = (ys, Some (COk ())) \<and>
    map loc_raw ys = map loc_raw xs \<and> map loc_packet ys = map loc_packet xs"
  using assms
proof (induction xs arbitrary: r n)
  case Nil
  then obtain k where n: "n = Suc k" by (cases n) auto
  have "pcap_slice_next_packet_with_offset r = (r, COk None)"
    using Nil.prems(2,3)
    by (simp add: pcap_slice_next_packet_with_offset_def pcap_slice_read_packet_raw_def)
  then show ?case by (simp add: n)
next
  case (Cons x xs)
  obtain k where n: "n = Suc k" "length xs < k" using Cons.prems(4) by (cases n) auto
  let ?r = "r\<lparr>ps_pos := ps_pos r + length (loc_raw x)\<rparr>" and ?x = "x\<lparr>loc_offset := ps_pos r\<rparr>"
  have nxt: "pcap_slice_next_packet_with_offset r = (?r, COk (Some ?x))"
    using Cons.prems by (intro pcap_read_self_contained) simp_all
  have "length (drop (ps_pos r) (ps_data r)) = length (loc_raw x @ concat (map loc_raw xs))"
    using Cons.prems(3) by simp
  then have pos: "ps_pos ?r \<le> length (ps_data ?r)" using Cons.prems(2) by simp
  have "drop (ps_pos ?r) (ps_data ?r) = drop (length (loc_raw x)) (drop (ps_pos r) (ps_data r))"
    by (simp add: add.commute)
  also have "\<dots> = concat (map loc_raw xs)" unfolding Cons.prems(3) by simp
  finally obtain ys where "drain k pcap_slice_next_packet_with_offset ?r = (ys, Some (COk ()))"
    "map loc_raw ys = map loc_raw xs" "map loc_packet ys = map loc_packet xs"
    using Cons.IH [of ?r k] Cons.prems(1) pos n(2) by auto
  then show ?case using nxt by (auto simp: n(1))
qed

lemma self_contained_raw: "self_contained h x \<Longrightarrow> loc_raw x \<noteq> []"
  by (auto simp: self_contained_def)

lemma length_concat_raw:
  "\<forall>x \<in> set xs. loc_raw x \<noteq> [] \<Longrightarrow> length xs \<le> length (concat (map loc_raw xs))"
proof (induction xs)
  case (Cons x xs)
  then have "1 \<le> length (loc_raw x)" by (simp add: Suc_le_eq)
  moreover have "length xs \<le> length (concat (map loc_raw xs))" using Cons by simp
  ultimately show ?case by (simp del: length_concat)
qed simp

lemma map_sort_key: "map f (sort_key (\<lambda>x. g (f x)) xs) = sort_key g (map f xs)"
proof -
  have "map f (insort_key (\<lambda>x. g (f x)) x ys) = insort_key g (f x) (map f ys)" for x ys
    by (induction ys) auto
  then show ?thesis by (induction xs) simp_all
qed

lemma located_bound: "located d p xs \<Longrightarrow> p \<le> length d"
proof (induction xs arbitrary: p)
  case (Cons x xs)
  then have "loc_offset x + length (loc_raw x) \<le> length d" by simp
  with Cons.prems show ?case by simp
qed simp

lemma located_slice:
  "located d p xs \<Longrightarrow> x \<in> set xs \<Longrightarrow>
    slice d (loc_offset x) (loc_offset x + length (loc_raw x)) = Some (loc_raw x)"
proof (induction xs arbitrary: p)
  case (Cons y ys)
  have "loc_offset y + length (loc_raw y) \<le> length d" using Cons.prems(1) located_bound by auto
  moreover have "loc_raw y = take (length (loc_raw y)) (drop (loc_offset y) d)"
    using Cons.prems(1) by simp
  ultimately have "slice d (loc_offset y) (loc_offset y + length (loc_raw y)) = Some (loc_raw y)"
    by (simp add: slice_def)
  then show ?case using Cons by auto
qed simp

lemma copy_located:
  assumes "located d p xs" and "set ys \<subseteq> set xs"
  shows "copy_ranges d (map (\<lambda>e. (ix_offset e, ix_record_len e)) (map index_of ys)) =
    COk (concat (map loc_raw ys))"
  using assms(2)
proof (induction ys)
  case (Cons y ys)
  then show ?case using located_slice [OF assms(1), of y] by (simp add: index_of_def del: slice_in_range)
qed simp

lemma sniff_pcap:
  assumes "pcap_slice_reader_new d = COk r"
  shows "sniffed_slice_new d = COk (SlicePcap r)"
proof -
  obtain h where h: "pcap_header_parse d = COk h"
    using assms by (auto simp: pcap_slice_reader_new_def c_bind_COk)
  have len: "24 \<le> length d" using pcap_header_parse_take [OF h] by simp
  obtain m e where m: "read_u32 Big d = Some m" "magic_endian m = Some e"
    using h len by (auto simp: pcap_header_parse_def c_bind_COk or_panic_COk split: option.splits)
  have "m = word_of_nat (be_nat (take 4 d))"
    using m(1) len by (auto simp: read_u32_def read_int_def)
  then have "from_magic_bytes (take 4 d) = COk FormatPcap"
    using m(2) by (auto simp: from_magic_bytes_def magic_endian_def Let_def split: if_splits)
  then show ?thesis using len assms by (simp add: sniffed_slice_new_def)
qed

lemma reorder_output_length:
  "\<forall>x \<in> set xs. self_contained h x \<Longrightarrow> length xs < Suc (length (pre @ concat (map loc_raw xs)))"
  using length_concat_raw [of xs] self_contained_raw by (fastforce simp del: length_concat)

text \<open>C6: reordering a PCAP file is sorting its packets.  If the file reads to the end, the tool
  succeeds and counts its packets, and its output reads to the end as well, as the same packets in
  the stable order of their timestamps, each record byte for byte.\<close>

theorem reorder_pcap_sorts:
  assumes "pcap_slice_reader_new d = COk r"
    and "drain (Suc (length d)) pcap_slice_next_packet_with_offset r = (xs, Some (COk ()))"
  shows "\<exists>m out r' ys. reordercap False False d = TOk (length xs, m, Some out) \<and>
    pcap_slice_reader_new out = COk r' \<and>
    drain (Suc (length out)) pcap_slice_next_packet_with_offset r' = (ys, Some (COk ())) \<and>
    map loc_packet ys = sort_key pr_timestamp (map loc_packet xs) \<and>
    map loc_raw ys = map loc_raw (sort_key (\<lambda>x. pr_timestamp (loc_packet x)) xs)"
proof -
  obtain h where h: "pcap_header_parse d = COk h" and r: "r = \<lparr>ps_header = h, ps_data = d, ps_pos = 24\<rparr>"
    using assms(1) by (auto simp: pcap_slice_reader_new_def c_bind_COk)
  have len: "24 \<le> length d" and h24: "pcap_header_parse (take 24 d) = COk h"
    using pcap_header_parse_take [OF h] by simp_all
  let ?srt = "sort_key (\<lambda>x. pr_timestamp (loc_packet x)) xs"
  let ?out = "take 24 d @ concat (map loc_raw ?srt)"
  obtain s where s: "scan_pcap_loop r scan_new = COk s" "sc_index s = map index_of xs"
    using scan_pcap_loop_drain [OF assms(2), of scan_new] by (auto simp: scan_new_def)
  have loc: "located d 24 xs"
    using pcap_located.drain_located [of r "Suc (length d)"] assms(2) len by (simp add: r)
  have idx: "sort_key ix_timestamp (sc_index s) = map index_of ?srt"
    using map_sort_key [of index_of ix_timestamp xs] s(2) by (simp add: index_of_def)
  have "write_reordered d (map sort_section
      [\<lparr>ss_prefix = (0, 24), ss_late_idbs = [], ss_scan = s, ss_suffix = []\<rparr>]) = COk ?out"
    using copy_located [OF loc, of ?srt] len
    by (simp add: write_reordered_def section_ranges_def sort_section_def idx slice_def)
  then have tool: "\<exists>m. reordercap False False d = TOk (length xs, m, Some ?out)"
    using sniff_pcap [OF assms(1)] assms(1) s
    by (simp add: reordercap_def scan_pcap_def of_capture_def t_bind_def Let_def)
  have "pcap_header_parse ?out = COk h"
    using pcap_header_parse_prefix [of ?out] h24 len by simp
  then have new: "pcap_slice_reader_new ?out = COk \<lparr>ps_header = h, ps_data = ?out, ps_pos = 24\<rparr>"
    by (simp add: pcap_slice_reader_new_def)
  have sc: "\<forall>x \<in> set ?srt. self_contained h x"
    using drain_self_contained [OF assms(2)] by (simp add: r)
  then have "length ?srt < Suc (length ?out)" by (rule reorder_output_length)
  then have "\<exists>ys. drain (Suc (length ?out)) pcap_slice_next_packet_with_offset
      \<lparr>ps_header = h, ps_data = ?out, ps_pos = 24\<rparr> = (ys, Some (COk ())) \<and>
    map loc_raw ys = map loc_raw ?srt \<and> map loc_packet ys = map loc_packet ?srt"
    using sc len by (intro drain_written) simp_all
  then show ?thesis using tool new map_sort_key [of loc_packet pr_timestamp xs] by metis
qed

theorem reorder_pcap_sorts_witness:
  "\<exists>m out r' ys. reordercap False False disordered_sample = TOk (2, m, Some out) \<and>
    pcap_slice_reader_new out = COk r' \<and>
    drain (Suc (length out)) pcap_slice_next_packet_with_offset r' = (ys, Some (COk ())) \<and>
    map (\<lambda>x. pr_timestamp (loc_packet x)) ys = [1000000000, 2000000000]"
proof -
  obtain xs where xs: "drain (Suc (length disordered_sample)) pcap_slice_next_packet_with_offset
      (disordered_reader 24) = (xs, Some (COk ()))"
    and t: "map pr_timestamp (map loc_packet xs) = [2000000000, 1000000000]"
    using disordered_drain by auto
  have "map pr_timestamp (sort_key pr_timestamp (map loc_packet xs)) = sort (map pr_timestamp (map loc_packet xs))"
    using map_sort_key [of pr_timestamp id "map loc_packet xs"] by (simp add: id_def)
  then have srt: "map pr_timestamp (sort_key pr_timestamp (map loc_packet xs)) = [1000000000, 2000000000]"
    unfolding t by simp
  have len: "length xs = 2" using arg_cong [OF t, of length] by simp
  obtain m out r' ys where "reordercap False False disordered_sample = TOk (length xs, m, Some out)"
    "pcap_slice_reader_new out = COk r'"
    "drain (Suc (length out)) pcap_slice_next_packet_with_offset r' = (ys, Some (COk ()))"
    "map loc_packet ys = sort_key pr_timestamp (map loc_packet xs)"
    using reorder_pcap_sorts [OF disordered_new xs] by blast
  moreover from this(4) have "map pr_timestamp (map loc_packet ys) = [1000000000, 2000000000]"
    by (simp only: srt)
  then have "map (\<lambda>x. pr_timestamp (loc_packet x)) ys = [1000000000, 2000000000]"
    by (simp add: comp_def)
  ultimately show ?thesis using len by metis
qed

section \<open>Every byte is copied once\<close>

definition ranges_mset :: "bytes \<Rightarrow> (nat \<times> nat) list \<Rightarrow> byte multiset" where
  "ranges_mset d rs = sum_list (map (\<lambda>(o', l). mset (take l (drop o' d))) rs)"

lemma ranges_mset_simps [simp]:
  "ranges_mset d [] = {#}"
  "ranges_mset d ((o', l) # rs) = mset (take l (drop o' d)) + ranges_mset d rs"
  "ranges_mset d (rs @ rs') = ranges_mset d rs + ranges_mset d rs'"
  by (simp_all add: ranges_mset_def)

lemma ranges_mset_perm: "mset rs = mset rs' \<Longrightarrow> ranges_mset d rs = ranges_mset d rs'"
  by (simp add: ranges_mset_def flip: sum_mset_sum_list)

lemma ranges_mset_sort_section:
  "ranges_mset d (section_ranges (sort_section s)) = ranges_mset d (section_ranges s)"
  by (rule ranges_mset_perm) (simp add: section_ranges_def sort_section_def)

lemma ranges_mset_concat_sort:
  "ranges_mset d (concat (map (\<lambda>s. section_ranges (sort_section s)) ss)) =
    ranges_mset d (concat (map section_ranges ss))"
  by (induction ss) (simp_all add: ranges_mset_sort_section)

lemma write_reordered_mset:
  assumes "write_reordered d (map sort_section sections) = COk out"
  shows "mset out = ranges_mset d (concat (map section_ranges sections))"
  using copy_ranges_mset [of d _ out] assms
  by (simp add: write_reordered_def comp_def ranges_mset_concat_sort flip: ranges_mset_def)

lemma mset_take_extend:
  "a \<le> b \<Longrightarrow> b \<le> c \<Longrightarrow>
    mset (take (c - a) (drop a d)) = mset (take (b - a) (drop a d)) + mset (take (c - b) (drop b d))"
proof -
  assume "a \<le> b" "b \<le> c"
  then have "take (c - a) (drop a d) = take (b - a) (drop a d) @ take (c - b) (drop b d)"
    using take_add [of "b - a" "c - b" "drop a d"] by simp
  then show ?thesis by simp
qed

definition in_range :: "bytes \<Rightarrow> (nat \<times> nat) list \<Rightarrow> bool" where
  "in_range d rs = (\<forall>(o', l) \<in> set rs. o' + l \<le> length d)"

lemma in_range_simps [simp]:
  "in_range d []"
  "in_range d ((o', l) # rs) \<longleftrightarrow> o' + l \<le> length d \<and> in_range d rs"
  "in_range d (rs @ rs') \<longleftrightarrow> in_range d rs \<and> in_range d rs'"
  by (auto simp: in_range_def)

lemma copy_ranges_in_range: "in_range d rs \<Longrightarrow> \<exists>out. copy_ranges d rs = COk out"
  by (induction d rs rule: copy_ranges.induct) (auto simp: slice_def)

lemma in_range_concat_sort:
  "in_range d (concat (map section_ranges ss)) \<Longrightarrow>
    in_range d (concat (map (\<lambda>s. section_ranges (sort_section s)) ss))"
  by (auto simp: in_range_def section_ranges_def sort_section_def)

text \<open>What the scan has seen of the data up to \<open>pos\<close> is what it would write now.\<close>

definition ng_cover :: "bytes \<Rightarrow> nat \<Rightarrow> ng_scan \<Rightarrow> bool" where
  "ng_cover d pos g =
    (if gs_in_section g then
       gs_section_start g \<le> pos \<and>
       (case gs_prefix_end g of
          Some e \<Rightarrow> gs_section_start g \<le> e \<and> e \<le> pos
        | None \<Rightarrow> gs_late_idbs g = [] \<and> gs_suffix g = [] \<and> sc_index (gs_scan g) = []) \<and>
       ranges_mset d (concat (map section_ranges (gs_sections g)))
         + ranges_mset d (section_ranges (close_section g pos)) = mset (take pos d) \<and>
       in_range d (concat (map section_ranges (gs_sections g)) @ section_ranges (close_section g pos))
     else pos = 0 \<and> gs_sections g = [] \<and> gs_late_idbs g = [] \<and> gs_suffix g = [])"

lemma slice_parse_block_section:
  assumes "slice_parse_block q bt e raw = (t, COk blk)"
  shows "(bt = BtSectionHeader \<longleftrightarrow> (\<exists>h. blk = BSectionHeader h)) \<and>
    (ns_section t = None \<longleftrightarrow> ns_section q = None \<and> bt \<noteq> BtSectionHeader)"
  using assms by (cases bt) (auto simp: slice_parse_block_def c_bind_COk split: cresult.splits)

lemma slice_block_type_first: "slice_block_type None rem = COk (bt, e) \<Longrightarrow> bt = BtSectionHeader"
  by (auto simp: slice_block_type_def c_bind_COk split: if_splits)

lemma slice_next_block_section:
  assumes "pcapng_slice_next_block r = (r', COk (Some b))"
  shows "(ns_section r = None \<longrightarrow> (\<exists>h. br_block b = BSectionHeader h)) \<and> ns_section r' \<noteq> None"
proof -
  obtain rem bt e q raw blk where
    bt: "slice_block_type (ns_section r) rem = COk (bt, e)" and
    blk: "slice_parse_block q bt e raw = (r', COk blk)" "ns_section q = ns_section r" "br_block b = blk"
    using assms
    by (fastforce simp: pcapng_slice_next_block_def Let_def c_bind_COk
        split: option.splits if_splits cresult.splits prod.splits)
  have "ns_section r = None \<Longrightarrow> bt = BtSectionHeader"
    using slice_block_type_first bt by metis
  then show ?thesis using slice_parse_block_section [OF blk(1)] blk(2,3) by auto
qed

lemma scan_block_cover:
  assumes "ng_cover d pos g" and "br_offset b = pos" and "pos' = pos + length (br_raw b)"
    and "br_raw b = take (length (br_raw b)) (drop pos d)" and "pos' \<le> length d"
    and "gs_in_section g \<or> (\<exists>h. br_block b = BSectionHeader h)"
    and "scan_block is g b = TOk g'"
  shows "ng_cover d pos' g' \<and> gs_in_section g'"
proof -
  have raw: "take (length (br_raw b)) (drop pos d) = br_raw b" using assms(4) by simp
  have grow: "mset (take pos' d) = mset (take pos d) + mset (br_raw b)"
    using assms(3) raw take_add [of pos "length (br_raw b)" d] by simp
  have ext: "mset (take (pos' - a) (drop a d)) = mset (take (pos - a) (drop a d)) + mset (br_raw b)"
    if "a \<le> pos" for a
    using mset_take_extend [OF that, of pos' d] assms(3) raw by simp
  note defs = ng_cover_def section_ranges_def close_section_def scan_new_def
  show ?thesis
  proof (cases "br_block b")
    case (BSectionHeader h)
    then show ?thesis
      using assms(1,2,3,5,7) raw grow
      by (auto simp: scan_block_def defs Let_def split: if_splits)
  next
    case (BInterfaceDescription i)
    then show ?thesis
      using assms(1,2,3,5,6,7) raw grow ext
      by (auto simp: scan_block_def defs ac_simps split: if_splits option.splits)
  next
    case (BSimplePacket h p)
    then show ?thesis using assms(7) by (simp add: scan_block_def)
  next
    case (BEnhancedPacket h p)
    then show ?thesis
      using assms(1,2,3,5,6,7) raw grow
      by (auto simp: scan_block_def defs ac_simps t_bind_TOk split: if_splits option.splits)
  next
    case (BRaw ty p)
    then show ?thesis
      using assms(1,2,3,5,6,7) raw grow ext
      by (auto simp: scan_block_def defs ac_simps split: if_splits option.splits)
  qed
qed

lemma scan_pcapng_loop_cover:
  assumes "ng_cover (ns_data r) (ns_pos r) g" and "gs_in_section g \<or> ns_section r = None"
    and "scan_pcapng_loop r g = TOk g'"
  shows "ng_cover (ns_data r) (length (ns_data r)) g'"
  using assms
proof (induction r g rule: scan_pcapng_loop.induct)
  case (1 r g)
  obtain r' res where n: "pcapng_slice_next_block r = (r', res)" by fastforce
  show ?case
  proof (cases "\<exists>b. res = COk (Some b)")
    case True
    then obtain b where b: "res = COk (Some b)" by blast
    then obtain g1 where g1: "scan_block (ns_interfaces r') g b = TOk g1"
      using "1.prems"(3) n by (cases "scan_block (ns_interfaces r') g b")
        (auto simp: scan_pcapng_loop.simps [of r g])
    note nb = n [unfolded b]
    have "ng_cover (ns_data r) (ns_pos r') g1 \<and> gs_in_section g1"
      using pcapng_slice_next_block_Some [OF nb] slice_next_block_section [OF nb] "1.prems"(1,2) g1
      by (intro scan_block_cover) auto
    then show ?thesis
      using "1.IH" [OF n [symmetric] b refl g1] "1.prems"(3) n b g1
        pcapng_slice_next_block_Some [OF nb]
      by (simp add: scan_pcapng_loop.simps [of r g])
  next
    case False
    then have "res = COk None" and g': "g' = g"
      using "1.prems" n by (cases res; auto simp: scan_pcapng_loop.simps [of r g])+
    then have "length (ns_data r) = ns_pos r"
      using n by (auto simp: pcapng_slice_next_block_def Let_def c_bind_def slice_def
          split: if_splits cresult.splits prod.splits)
    then show ?thesis using "1.prems"(1) g' by simp
  qed
qed

lemma scan_pcapng_cover:
  assumes "scan_pcapng d = TOk sections"
  shows "ranges_mset d (concat (map section_ranges sections)) = mset d \<and>
    in_range d (concat (map section_ranges sections))"
proof -
  obtain r g where r: "pcapng_slice_reader_new d = COk r" and g: "scan_pcapng_loop r ng_scan_new = TOk g"
    and s: "sections = (if gs_in_section g then gs_sections g @ [close_section g (length d)]
         else gs_sections g)"
    using assms by (auto simp: scan_pcapng_def t_bind_TOk of_capture_TOk)
  have new: "ns_data r = d" "ns_pos r = 0" "ns_section r = None"
    using r by (auto simp: pcapng_slice_reader_new_def split: if_splits)
  then have "ng_cover d (length d) g"
    using scan_pcapng_loop_cover [OF _ _ g] by (simp add: ng_cover_def ng_scan_new_def)
  then show ?thesis by (auto simp: ng_cover_def s split: if_splits)
qed

lemma scan_pcap_loop_cover:
  assumes "ps_pos r \<le> length (ps_data r)" and "scan_pcap_loop r s = COk s'"
  shows "ranges_mset (ps_data r) (map (\<lambda>e. (ix_offset e, ix_record_len e)) (sc_index s')) =
      ranges_mset (ps_data r) (map (\<lambda>e. (ix_offset e, ix_record_len e)) (sc_index s))
        + mset (drop (ps_pos r) (ps_data r)) \<and>
    (in_range (ps_data r) (map (\<lambda>e. (ix_offset e, ix_record_len e)) (sc_index s)) \<longrightarrow>
     in_range (ps_data r) (map (\<lambda>e. (ix_offset e, ix_record_len e)) (sc_index s')))"
  using assms
proof (induction r s rule: scan_pcap_loop.induct)
  case (1 r s)
  obtain r' res where n: "pcap_slice_next_packet_with_offset r = (r', res)" by fastforce
  show ?case
  proof (cases "\<exists>l. res = COk (Some l)")
    case True
    then obtain l where l: "res = COk (Some l)" by blast
    note step = pcap_located_step [OF "1.prems"(1) n [unfolded l]]
    have off: "loc_offset l = ps_pos r" using pcap_located_front [OF n [unfolded l]] by simp
    have "drop (ps_pos r) (ps_data r) = loc_raw l @ drop (ps_pos r') (ps_data r)"
      using step append_take_drop_id [of "length (loc_raw l)" "drop (ps_pos r) (ps_data r)"]
      by (simp add: off add.commute)
    then have "mset (drop (ps_pos r) (ps_data r)) = mset (loc_raw l) + mset (drop (ps_pos r') (ps_data r))"
      by simp
    then show ?thesis
      using "1.IH" [OF n [symmetric] l refl] "1.prems"(2) n l step
      by (simp add: scan_pcap_loop.simps [of r s])
  next
    case False
    then have "res = COk None" and s': "s' = s"
      using "1.prems" n by (cases res; auto simp: scan_pcap_loop.simps [of r s])+
    then have "length (ps_data r) = ps_pos r"
      using n "1.prems"(1) by (auto simp: pcap_slice_next_packet_with_offset_def pcap_slice_step Let_def c_bind_def
          split: if_splits cresult.splits prod.splits option.splits)
    then show ?thesis using s' by simp
  qed
qed

lemma scan_pcap_cover:
  assumes "scan_pcap d = COk sections"
  shows "ranges_mset d (concat (map section_ranges sections)) = mset d \<and>
    in_range d (concat (map section_ranges sections))"
proof -
  obtain r s where r: "pcap_slice_reader_new d = COk r" and s: "scan_pcap_loop r scan_new = COk s"
    and sec: "sections = [\<lparr>ss_prefix = (0, 24), ss_late_idbs = [], ss_scan = s, ss_suffix = []\<rparr>]"
    using assms by (auto simp: scan_pcap_def c_bind_COk)
  have new: "ps_data r = d" "ps_pos r = 24" "24 \<le> length d"
    using r pcap_header_parse_take by (auto simp: pcap_slice_reader_new_def c_bind_COk)
  have "mset d = mset (take 24 d) + mset (drop 24 d)"
    by (metis append_take_drop_id mset_append)
  then show ?thesis
    using scan_pcap_loop_cover [OF _ s] new by (simp add: sec section_ranges_def scan_new_def)
qed

text \<open>C16: reordering never loses, adds or changes a byte.  For every capture whose scan succeeds,
  PCAP or PCAPNG and however disordered, the output is written without a panic and is a permutation
  of the input's bytes: every block is copied exactly once.\<close>

theorem reorder_conserves_bytes:
  assumes "scan_pcap d = COk sections \<or> scan_pcapng d = TOk sections"
  shows "\<exists>out. write_reordered d (map sort_section sections) = COk out \<and> mset out = mset d"
proof -
  have cover: "ranges_mset d (concat (map section_ranges sections)) = mset d"
    "in_range d (concat (map section_ranges sections))"
    using assms scan_pcap_cover scan_pcapng_cover by blast+
  obtain out where out: "write_reordered d (map sort_section sections) = COk out"
    using copy_ranges_in_range [OF in_range_concat_sort [OF cover(2)]]
    by (auto simp: write_reordered_def comp_def)
  then show ?thesis using write_reordered_mset [OF out] cover(1) by simp
qed

theorem reorder_conserves_bytes_witness:
  "\<exists>sections out. scan_pcap disordered_sample = COk sections \<and>
    write_reordered disordered_sample (map sort_section sections) = COk out \<and>
    mset out = mset disordered_sample"
proof -
  obtain s where "scan_pcap disordered_sample = COk [s]" using disordered_scan by blast
  with reorder_conserves_bytes [of disordered_sample "[s]"] show ?thesis by blast
qed

end
