(* ===== verification/Pool.thy ===== *)
theory Pool
  imports Tool Flow
begin

text \<open>
  The address pools of the merging tool (\<^verbatim>\<open>tools/maja-mergecap/src/map/pool.rs\<close>).  A \<^verbatim>\<open>u128\<close>
  is a natural number, with its saturation and wrap-around written out.  \<^verbatim>\<open>IpNet\<close> belongs to the
  \<^verbatim>\<open>ipnet\<close> crate: its type and the methods the code calls are parameters, and a locale states
  what their documentation promises.
\<close>

section \<open>Families and networks\<close>

datatype family = FamilyV4 | FamilyV6

definition family_of_addr :: "ip_addr \<Rightarrow> family" where
  "family_of_addr a = (case a of V4 _ \<Rightarrow> FamilyV4 | V6 _ \<Rightarrow> FamilyV6)"

definition family_index :: "family \<Rightarrow> nat" where
  "family_index f = (case f of FamilyV4 \<Rightarrow> 0 | FamilyV6 \<Rightarrow> 1)"

definition family_bits :: "family \<Rightarrow> nat" where
  "family_bits f = (case f of FamilyV4 \<Rightarrow> 32 | FamilyV6 \<Rightarrow> 128)"

definition to_addr :: "family \<Rightarrow> nat \<Rightarrow> ip_addr" where
  "to_addr f v = (case f of FamilyV4 \<Rightarrow> V4 (word_of_nat v) | FamilyV6 \<Rightarrow> V6 (word_of_nat v))"

definition addr_to_u128 :: "ip_addr \<Rightarrow> nat" where
  "addr_to_u128 a = (case a of V4 w \<Rightarrow> unat w | V6 w \<Rightarrow> unat w)"

definition u128_max :: nat where
  "u128_max = 2 ^ 128 - 1"

definition saturating_add_u128 :: "nat \<Rightarrow> nat \<Rightarrow> nat" where
  "saturating_add_u128 a b = min (a + b) u128_max"

definition wrapping_add_u128 :: "nat \<Rightarrow> nat \<Rightarrow> nat" where
  "wrapping_add_u128 a b = (a + b) mod 2 ^ 128"

text \<open>The methods of \<^verbatim>\<open>IpNet\<close>.\<close>

record 'n ipnet =
  net_family :: "'n \<Rightarrow> family"
  net_prefix_len :: "'n \<Rightarrow> nat"
  net_network :: "'n \<Rightarrow> ip_addr"
  net_hostmask :: "'n \<Rightarrow> ip_addr"
  net_contains :: "'n \<Rightarrow> ip_addr \<Rightarrow> bool"
  net_from :: "ip_addr \<Rightarrow> 'n"

definition net_base :: "'n ipnet \<Rightarrow> 'n \<Rightarrow> nat" where
  "net_base N n = addr_to_u128 (net_network N n)"

definition host_bits :: "'n ipnet \<Rightarrow> 'n \<Rightarrow> nat" where
  "host_bits N n = family_bits (net_family N n) - net_prefix_len N n"

definition host_count :: "'n ipnet \<Rightarrow> 'n \<Rightarrow> nat" where
  "host_count N n =
    (let total = (if host_bits N n < 128 then 2 ^ host_bits N n else u128_max)
     in if net_family N n = FamilyV4 \<and> 1 < host_bits N n then total - 2 else total)"

definition host_at :: "'n ipnet \<Rightarrow> 'n \<Rightarrow> nat \<Rightarrow> ip_addr" where
  "host_at N n index =
    (let offset = (if net_family N n = FamilyV4 \<and> 1 < host_bits N n
                   then wrapping_add_u128 index 1 else index)
     in to_addr (net_family N n) (wrapping_add_u128 (net_base N n) offset))"

definition mask_map :: "'n ipnet \<Rightarrow> 'n \<Rightarrow> ip_addr \<Rightarrow> ip_addr option" where
  "mask_map N n a =
    (case (net_network N n, net_hostmask N n, a) of
       (V4 network, V4 hostmask, V4 addr) \<Rightarrow> Some (V4 (network OR (addr AND hostmask)))
     | (V6 network, V6 hostmask, V6 addr) \<Rightarrow> Some (V6 (network OR (addr AND hostmask)))
     | _ \<Rightarrow> None)"

section \<open>Pools\<close>

record 'n pool =
  pool_nets :: "('n \<times> nat) list"
  pool_total :: nat

fun cumulate :: "'n ipnet \<Rightarrow> nat \<Rightarrow> 'n list \<Rightarrow> ('n \<times> nat) list" where
  "cumulate N acc [] = []"
| "cumulate N acc (n # ns) =
    (let acc = saturating_add_u128 acc (host_count N n) in (n, acc) # cumulate N acc ns)"

definition pool_order :: "'n ipnet \<Rightarrow> 'n \<Rightarrow> nat \<times> nat \<times> nat" where
  "pool_order N n = (family_index (net_family N n), net_base N n, net_prefix_len N n)"

definition pool_from_nets :: "'n ipnet \<Rightarrow> 'n list \<Rightarrow> 'n pool" where
  "pool_from_nets N ns =
    (let cumulative = cumulate N 0 (remdups_adj (sort_key (pool_order N) ns))
     in \<lparr>pool_nets = cumulative,
         pool_total = (if cumulative = [] then 0 else snd (last cumulative))\<rparr>)"

text \<open>\<^verbatim>\<open>partition_point\<close> of the standard library: how many entries come before the first one that
  fails the test.\<close>

definition addr_at :: "'n ipnet \<Rightarrow> 'n pool \<Rightarrow> nat \<Rightarrow> ip_addr option tool_result" where
  "addr_at N p index =
    (if pool_total p = 0 then TOk None
     else
       let index = index mod pool_total p;
           pos = length (takeWhile (\<lambda>(_, cumulative). cumulative \<le> index) (pool_nets p))
       in (case byte_at (pool_nets p) pos of
             None \<Rightarrow> TPanic
           | Some (n, cumulative) \<Rightarrow>
               (case checked_sub cumulative (host_count N n) of
                  None \<Rightarrow> TPanic
                | Some start \<Rightarrow>
                    (case checked_sub index start of
                       None \<Rightarrow> TPanic
                     | Some i \<Rightarrow> TOk (Some (host_at N n i))))))"

text \<open>A random number generator of the \<^verbatim>\<open>rand\<close> crate, by its \<^verbatim>\<open>random_range\<close>.\<close>

definition pool_choose :: "'n ipnet \<Rightarrow> (nat \<Rightarrow> nat \<Rightarrow> 'r \<Rightarrow> nat \<times> 'r) \<Rightarrow> 'n pool \<Rightarrow> 'r \<Rightarrow>
    ip_addr option tool_result \<times> 'r" where
  "pool_choose N random_range p rng =
    (if pool_total p = 0 then (TOk None, rng)
     else case random_range 0 (pool_total p) rng of (index, rng') \<Rightarrow> (addr_at N p index, rng'))"

section \<open>The hosts of a network\<close>

definition aligned :: "'n ipnet \<Rightarrow> 'n \<Rightarrow> ip_addr \<Rightarrow> bool" where
  "aligned N n a =
    (family_of_addr a = net_family N n \<and>
     addr_to_u128 a div 2 ^ host_bits N n = net_base N n div 2 ^ host_bits N n)"

text \<open>What the documentation of \<^verbatim>\<open>ipnet\<close> says of a network.\<close>

locale ip_nets =
  fixes N :: "'n ipnet"
  assumes prefix_bound: "net_prefix_len N n \<le> family_bits (net_family N n)"
    and network_family: "family_of_addr (net_network N n) = net_family N n"
    and network_low: "net_base N n mod 2 ^ host_bits N n = 0"
    and hostmask: "net_hostmask N n = to_addr (net_family N n) (2 ^ host_bits N n - 1)"
    and contains: "net_contains N n a \<longleftrightarrow> aligned N n a"
    and from_addr: "net_network N (net_from N a) = a"

text \<open>The usable addresses: all but the first and the last one of an IPv4 network larger than
  \<^verbatim>\<open>/31\<close>, and all of an IPv6 network (but for the last of \<^verbatim>\<open>::/0\<close>).\<close>

definition hosts :: "'n ipnet \<Rightarrow> 'n \<Rightarrow> ip_addr set" where
  "hosts N n =
    {a. net_contains N n a \<and>
       (net_family N n = FamilyV4 \<and> 1 < host_bits N n \<longrightarrow>
          a \<noteq> net_network N n \<and> addr_to_u128 a \<noteq> net_base N n + 2 ^ host_bits N n - 1) \<and>
       (host_bits N n = 128 \<longrightarrow> addr_to_u128 a \<noteq> u128_max)}"

lemma family_of_to_addr [simp]: "family_of_addr (to_addr f v) = f"
  by (cases f) (simp_all add: to_addr_def family_of_addr_def)

lemma addr_to_u128_to_addr: "v < 2 ^ family_bits f \<Longrightarrow> addr_to_u128 (to_addr f v) = v"
  by (cases f) (simp_all add: to_addr_def addr_to_u128_def family_bits_def unat_of_nat take_bit_nat_eq_self)

lemma addr_bound: "addr_to_u128 a < 2 ^ family_bits (family_of_addr a)"
proof (cases a)
  case (V4 w)
  then show ?thesis using unsigned_less [of w, where ?'a = nat] by (simp add: addr_to_u128_def family_of_addr_def family_bits_def)
next
  case (V6 w)
  then show ?thesis using unsigned_less [of w, where ?'a = nat] by (simp add: addr_to_u128_def family_of_addr_def family_bits_def)
qed

lemma addr_eq_iff: "a = b \<longleftrightarrow> family_of_addr a = family_of_addr b \<and> addr_to_u128 a = addr_to_u128 b"
  by (cases a; cases b) (auto simp: addr_to_u128_def family_of_addr_def word_unat_eq_iff)

lemma dvd_next: "d dvd b \<Longrightarrow> d dvd m \<Longrightarrow> b < m \<Longrightarrow> b + d \<le> (m :: nat)"
  using dvd_imp_le [of d "m - b"] by (simp add: dvd_diff_nat)

lemma family_bits_le: "family_bits f \<le> 128"
  by (cases f) (simp_all add: family_bits_def)

lemma host_bits_le: "host_bits N n \<le> 128"
  using family_bits_le [of "net_family N n"] by (simp add: host_bits_def)

definition host_offset :: "'n ipnet \<Rightarrow> 'n \<Rightarrow> nat" where
  "host_offset N n = (if net_family N n = FamilyV4 \<and> 1 < host_bits N n then 1 else 0)"

lemma host_count_bound: "host_offset N n + host_count N n \<le> 2 ^ host_bits N n"
  and host_count_pos: "0 < host_count N n"
proof -
  have "2 ^ 2 \<le> (2 :: nat) ^ host_bits N n" if "1 < host_bits N n"
    using that by (intro power_increasing) auto
  then show "host_offset N n + host_count N n \<le> 2 ^ host_bits N n" "0 < host_count N n"
    using host_bits_le [of N n]
    by (auto simp: host_count_def host_offset_def Let_def u128_max_def le_less)
qed

context ip_nets
begin

lemma base_bound: "net_base N n + 2 ^ host_bits N n \<le> 2 ^ family_bits (net_family N n)"
proof -
  have "net_base N n < 2 ^ family_bits (net_family N n)"
    using addr_bound [of "net_network N n"] by (simp add: net_base_def network_family)
  moreover have "2 ^ host_bits N n dvd (2 :: nat) ^ family_bits (net_family N n)"
    by (rule le_imp_power_dvd) (simp add: host_bits_def)
  moreover have "2 ^ host_bits N n dvd net_base N n" using network_low by (simp add: mod_eq_0_iff_dvd)
  ultimately show ?thesis by (intro dvd_next)
qed

lemma aligned_iff:
  "aligned N n a \<longleftrightarrow> family_of_addr a = net_family N n \<and>
    net_base N n \<le> addr_to_u128 a \<and> addr_to_u128 a < net_base N n + 2 ^ host_bits N n"
proof -
  let ?p = "2 ^ host_bits N n :: nat" and ?b = "net_base N n" and ?x = "addr_to_u128 a"
  have b: "?b = ?b div ?p * ?p" using network_low [of n] div_mult_mod_eq [of ?b ?p] by simp
  have "?x div ?p = ?b div ?p \<longleftrightarrow> ?b \<le> ?x \<and> ?x < ?b + ?p"
  proof
    assume "?x div ?p = ?b div ?p"
    then have "?x = ?b + ?x mod ?p" using b div_mult_mod_eq [of ?x ?p] by simp
    moreover have "?x mod ?p < ?p" by simp
    ultimately obtain k where "?x = ?b + k" "k < ?p" by blast
    then show "?b \<le> ?x \<and> ?x < ?b + ?p" by simp
  next
    assume x: "?b \<le> ?x \<and> ?x < ?b + ?p"
    then have "?x = ?b + (?x - ?b)" "?x - ?b < ?p" by auto
    then show "?x div ?p = ?b div ?p" using b
      by (metis add.right_neutral div_less div_mult_self3 power_not_zero zero_neq_numeral)
  qed
  then show ?thesis by (auto simp: aligned_def)
qed

lemma host_at_addr:
  assumes "i < host_count N n"
  shows "family_of_addr (host_at N n i) = net_family N n"
    and "addr_to_u128 (host_at N n i) = net_base N n + host_offset N n + i"
proof -
  have lt: "net_base N n + host_offset N n + i < 2 ^ family_bits (net_family N n)"
    using assms base_bound [of n] host_count_bound [of N n] by linarith
  have "(2 :: nat) ^ family_bits (net_family N n) \<le> 2 ^ 128"
    using family_bits_le by (intro power_increasing) auto
  then have w: "net_base N n + host_offset N n + i < 2 ^ 128" using lt by linarith
  then have "wrapping_add_u128 i 1 = i + 1" if "host_offset N n = 1"
    using that by (simp add: wrapping_add_u128_def)
  then have "host_at N n i = to_addr (net_family N n) (net_base N n + host_offset N n + i)"
    using w by (auto simp: host_at_def host_offset_def wrapping_add_u128_def Let_def add.assoc)
  then show "family_of_addr (host_at N n i) = net_family N n"
    "addr_to_u128 (host_at N n i) = net_base N n + host_offset N n + i"
    using lt by (simp_all add: addr_to_u128_to_addr)
qed

lemma hosts_iff:
  "a \<in> hosts N n \<longleftrightarrow> family_of_addr a = net_family N n \<and>
    (\<exists>i < host_count N n. addr_to_u128 a = net_base N n + host_offset N n + i)"
proof -
  let ?x = "addr_to_u128 a"
  have ne: "a \<noteq> net_network N n \<longleftrightarrow> ?x \<noteq> net_base N n" if "family_of_addr a = net_family N n"
    using that by (simp add: addr_eq_iff net_base_def network_family)
  have ex: "(\<exists>i < c. ?x = b + i) \<longleftrightarrow> b \<le> ?x \<and> ?x < b + c" for b c :: nat
    by (auto intro: exI [of _ "?x - b"])
  have four: "(2 :: nat) ^ host_bits N n \<ge> 4" if "1 < host_bits N n"
    using that power_increasing [of 2 "host_bits N n" "2 :: nat"] by simp
  have v6: "net_family N n = FamilyV6" if "host_bits N n = 128"
    using that by (cases "net_family N n") (auto simp: host_bits_def family_bits_def)
  have base0: "net_base N n = 0" if "host_bits N n = 128"
    using base_bound [of n] family_bits_le [of "net_family N n"] that
    by (cases "net_family N n") (auto simp: family_bits_def)
  show ?thesis
    unfolding ex hosts_def mem_Collect_eq contains aligned_iff
    using ne four v6 base0 host_bits_le [of N n]
    by (auto simp: host_count_def host_offset_def Let_def u128_max_def le_less)
qed

lemma host_at_bij: "bij_betw (host_at N n) {..<host_count N n} (hosts N n)"
proof (rule bij_betw_imageI)
  show "inj_on (host_at N n) {..<host_count N n}"
    by (rule inj_onI) (metis add_left_cancel host_at_addr(2) lessThan_iff)
  show "host_at N n ` {..<host_count N n} = hosts N n"
  proof (rule set_eqI)
    show "a \<in> host_at N n ` {..<host_count N n} \<longleftrightarrow> a \<in> hosts N n" for a
      using host_at_addr by (auto simp: hosts_iff image_iff addr_eq_iff [of a])
  qed
qed

end

section \<open>The walk over a pool\<close>

lemma length_cumulate [simp]: "length (cumulate N acc ns) = length ns"
  by (induction ns arbitrary: acc) (simp_all add: Let_def)

lemma cumulate_Nil [simp]: "cumulate N acc ns = [] \<longleftrightarrow> ns = []"
  by (cases ns) (simp_all add: Let_def)

lemma byte_at_Cons [simp]:
  "byte_at (x # xs) 0 = Some x" "byte_at (x # xs) (Suc k) = byte_at xs k"
  by (simp_all add: byte_at_def)

lemma host_count_le: "host_count N n \<le> u128_max"
proof -
  have "(2 :: nat) ^ host_bits N n < 2 ^ 128" if "host_bits N n < 128"
    using that by (intro power_strict_increasing) auto
  then show ?thesis by (auto simp: host_count_def Let_def u128_max_def)
qed

text \<open>Where an index falls, saturated or not.\<close>

lemma cumulate_position:
  assumes "acc \<le> i" and "ns \<noteq> []" and "i < snd (last (cumulate N acc ns))"
  shows "\<exists>n c. byte_at (cumulate N acc ns) (length (takeWhile (\<lambda>(_, c). c \<le> i) (cumulate N acc ns))) = Some (n, c) \<and>
    n \<in> set ns \<and> host_count N n \<le> c \<and> c - host_count N n \<le> i \<and> i < c"
  using assms
proof (induction ns arbitrary: acc)
  case (Cons n ns)
  let ?c = "saturating_add_u128 acc (host_count N n)"
  show ?case
  proof (cases "?c \<le> i")
    case True
    then have "ns \<noteq> []" using Cons.prems(3) by (auto simp: Let_def)
    then show ?thesis
      using Cons.IH [OF True] Cons.prems(3) True by (auto simp: Let_def)
  next
    case False
    moreover have "host_count N n \<le> ?c" "?c - host_count N n \<le> acc"
      using host_count_le [of N n] by (auto simp: saturating_add_u128_def min_def)
    ultimately show ?thesis using Cons.prems(1) by (auto simp: Let_def)
  qed
qed simp

lemma addr_at_host:
  assumes "p = pool_from_nets N ns" and "pool_total p \<noteq> 0"
  shows "\<exists>n \<in> set ns. \<exists>k < host_count N n. addr_at N p i = TOk (Some (host_at N n k))"
proof -
  let ?ns = "remdups_adj (sort_key (pool_order N) ns)"
  have p: "pool_nets p = cumulate N 0 ?ns" "?ns \<noteq> []" "pool_total p = snd (last (cumulate N 0 ?ns))"
    using assms by (auto simp: pool_from_nets_def Let_def split: if_splits)
  have "i mod pool_total p < pool_total p" using assms(2) by simp
  then obtain n c where
    "byte_at (pool_nets p) (length (takeWhile (\<lambda>(_, c). c \<le> i mod pool_total p) (pool_nets p))) = Some (n, c)"
    "n \<in> set ?ns" "host_count N n \<le> c" "c - host_count N n \<le> i mod pool_total p" "i mod pool_total p < c"
    using cumulate_position [of 0 "i mod pool_total p" ?ns N] p by auto
  then show ?thesis
    using assms(2) by (intro bexI [of _ n] exI [of _ "i mod pool_total p - (c - host_count N n)"])
      (auto simp: addr_at_def Let_def checked_sub_def)
qed

fun walk :: "'n ipnet \<Rightarrow> 'n list \<Rightarrow> nat \<Rightarrow> ip_addr option tool_result" where
  "walk N [] i = TOk None"
| "walk N (n # ns) i =
    (if i < host_count N n then TOk (Some (host_at N n i)) else walk N ns (i - host_count N n))"

abbreviation pool_size :: "'n ipnet \<Rightarrow> 'n list \<Rightarrow> nat" where
  "pool_size N ns \<equiv> sum_list (map (host_count N) ns)"

lemma cumulate_last:
  "ns \<noteq> [] \<Longrightarrow> acc + pool_size N ns \<le> u128_max \<Longrightarrow>
    snd (last (cumulate N acc ns)) = acc + pool_size N ns"
proof (induction ns arbitrary: acc)
  case (Cons n ns)
  then show ?case by (cases "ns = []") (simp_all add: Let_def saturating_add_u128_def)
qed simp

lemma cumulate_walk:
  assumes "acc \<le> i" and "i < acc + pool_size N ns" and "acc + pool_size N ns \<le> u128_max"
  shows "\<exists>n c. byte_at (cumulate N acc ns) (length (takeWhile (\<lambda>(_, c). c \<le> i) (cumulate N acc ns))) = Some (n, c) \<and>
    host_count N n \<le> c \<and> c - host_count N n \<le> i \<and>
    walk N ns (i - acc) = TOk (Some (host_at N n (i - (c - host_count N n))))"
  using assms
proof (induction ns arbitrary: acc)
  case (Cons n ns)
  have c: "saturating_add_u128 acc (host_count N n) = acc + host_count N n"
    using Cons.prems(3) by (simp add: saturating_add_u128_def)
  show ?case
  proof (cases "acc + host_count N n \<le> i")
    case True
    then show ?thesis
      using Cons.IH [of "acc + host_count N n"] Cons.prems c by (auto simp: Let_def)
  next
    case False
    then show ?thesis using Cons.prems(1) c by (auto simp: Let_def)
  qed
qed simp

lemma addr_at_walk:
  assumes "p = pool_from_nets N ns" and "ms = remdups_adj (sort_key (pool_order N) ns)"
    and "pool_size N ms \<le> u128_max" and "i < pool_size N ms"
  shows "pool_total p = pool_size N ms" and "addr_at N p i = walk N ms i"
proof -
  have "ms \<noteq> []" using assms(4) by auto
  then show t: "pool_total p = pool_size N ms"
    using assms cumulate_last [of ms 0 N] by (simp add: pool_from_nets_def Let_def)
  have nets: "pool_nets p = cumulate N 0 ms" using assms(1,2) by (simp add: pool_from_nets_def Let_def)
  define size where "size = pool_size N ms"
  show "addr_at N p i = walk N ms i"
    using cumulate_walk [of 0 i N ms] assms(3,4) unfolding addr_at_def t nets size_def [symmetric]
    by (auto simp: Let_def checked_sub_def)
qed

context ip_nets
begin

lemma walk_bij:
  assumes "distinct ns" and "\<forall>m \<in> set ns. \<forall>n \<in> set ns. m \<noteq> n \<longrightarrow> hosts N m \<inter> hosts N n = {}"
  shows "bij_betw (walk N ns) {..<pool_size N ns} ((\<lambda>a. TOk (Some a)) ` (\<Union>n \<in> set ns. hosts N n))"
  using assms
proof (induction ns)
  case (Cons n ns)
  let ?h = "host_count N n" and ?T = "\<lambda>a. TOk (Some a) :: ip_addr option tool_result"
  have inj: "inj_on ?T A" for A by (auto simp: inj_on_def)
  have "bij_betw (walk N (n # ns)) {..<?h} (?T ` hosts N n)"
    by (rule bij_betw_cong [THEN iffD1, OF _ bij_betw_trans [OF host_at_bij inj_on_imp_bij_betw [OF inj]]]) simp
  moreover have "bij_betw (walk N (n # ns)) {?h..<?h + pool_size N ns} (?T ` (\<Union>m \<in> set ns. hosts N m))"
  proof (rule bij_betw_cong [THEN iffD1, OF _ bij_betw_trans])
    show "bij_betw (\<lambda>i. i - ?h) {?h..<?h + pool_size N ns} {..<pool_size N ns}"
      by (rule bij_betw_byWitness [where f' = "\<lambda>i. i + ?h"]) auto
    show "bij_betw (walk N ns) {..<pool_size N ns} (?T ` (\<Union>m \<in> set ns. hosts N m))"
      using Cons by auto
  qed auto
  moreover have "?T ` hosts N n \<inter> ?T ` (\<Union>m \<in> set ns. hosts N m) = {}" using Cons.prems by force
  ultimately have "bij_betw (walk N (n # ns)) ({..<?h} \<union> {?h..<?h + pool_size N ns})
      (?T ` hosts N n \<union> ?T ` (\<Union>m \<in> set ns. hosts N m))"
    by (rule bij_betw_combine)
  moreover have "{..<?h} \<union> {?h..<?h + pool_size N ns} = {..<pool_size N (n # ns)}" by auto
  ultimately show ?case by (simp add: image_Un del: walk.simps)
qed (simp add: bij_betw_def)

end

lemma distinct_remdups_adj_key:
  "sorted (map k xs) \<Longrightarrow> inj_on k (set xs) \<Longrightarrow> distinct (remdups_adj xs)"
proof (induction xs rule: remdups_adj.induct)
  case (3 x y xs)
  show ?case
  proof (cases "x = y")
    case True
    then show ?thesis using 3 by (simp add: insert_absorb)
  next
    case False
    have "x \<notin> set (y # xs)"
    proof
      assume x: "x \<in> set (y # xs)"
      then have "k y \<le> k x" "k x \<le> k y" using "3.prems"(1) by auto
      then show False using "3.prems"(2) False by (simp add: inj_on_def)
    qed
    moreover have "distinct (remdups_adj (y # xs))"
      using "3.IH"(2) [OF False] "3.prems" by (simp add: inj_on_def)
    ultimately show ?thesis using False by simp
  qed
qed simp_all

lemma last_cumulate_pos: "ns \<noteq> [] \<Longrightarrow> 0 < snd (last (cumulate N acc ns))"
proof (induction ns arbitrary: acc)
  case (Cons n ns)
  then show ?case
    using host_count_pos [of N n] by (cases "ns = []") (simp_all add: Let_def saturating_add_u128_def u128_max_def)
qed simp

lemma family_index_inj: "family_index f = family_index g \<longleftrightarrow> f = g"
  by (cases f; cases g) (simp_all add: family_index_def)

lemma sort_key_Nil: "sort_key f xs = [] \<longleftrightarrow> xs = []"
  by (metis set_empty set_sort)

lemma pool_total_pos: "ns \<noteq> [] \<Longrightarrow> 0 < pool_total (pool_from_nets N ns)"
  using last_cumulate_pos [of "remdups_adj (sort_key (pool_order N) ns)" N 0]
  by (simp add: pool_from_nets_def Let_def sort_key_Nil)

definition disjoint_nets :: "'n ipnet \<Rightarrow> 'n list \<Rightarrow> bool" where
  "disjoint_nets N ns =
    (\<forall>m \<in> set ns. \<forall>n \<in> set ns. m \<noteq> n \<longrightarrow> (\<forall>a. \<not> (net_contains N m a \<and> net_contains N n a)))"

context ip_nets
begin

lemma pool_order_inj:
  assumes "disjoint_nets N ns"
  shows "inj_on (pool_order N) (set ns)"
proof (rule inj_onI, rule ccontr)
  fix m n
  assume mn: "m \<in> set ns" "n \<in> set ns" "pool_order N m = pool_order N n" "m \<noteq> n"
  have fam: "net_family N m = net_family N n" "net_base N m = net_base N n" "net_prefix_len N m = net_prefix_len N n"
    using mn(3) by (simp_all add: pool_order_def family_index_inj)
  then have hb: "host_bits N m = host_bits N n" by (simp add: host_bits_def)
  have m: "aligned N m (net_network N m)" by (simp add: aligned_def network_family net_base_def)
  have "aligned N n a = aligned N m a" for a unfolding aligned_def fam hb ..
  then have "net_contains N m (net_network N m)" "net_contains N n (net_network N m)"
    using m by (simp_all only: contains)
  then show False using assms mn(1,2,4) unfolding disjoint_nets_def by blast
qed

lemma pool_bij:
  assumes "disjoint_nets N ns" and "sum (host_count N) (set ns) \<le> u128_max"
  shows "bij_betw (addr_at N (pool_from_nets N ns)) {..<pool_total (pool_from_nets N ns)}
    ((\<lambda>a. TOk (Some a)) ` (\<Union>n \<in> set ns. hosts N n))"
proof -
  define ms where "ms = remdups_adj (sort_key (pool_order N) ns)"
  let ?p = "pool_from_nets N ns"
  have set: "set ms = set ns" by (simp add: ms_def)
  have dist: "distinct ms"
    unfolding ms_def using pool_order_inj [OF assms(1)] by (intro distinct_remdups_adj_key) simp_all
  have size: "pool_size N ms \<le> u128_max"
    using assms(2) dist set by (simp add: sum_list_distinct_conv_sum_set)
  have "bij_betw (walk N ms) {..<pool_size N ms} ((\<lambda>a. TOk (Some a)) ` (\<Union>n \<in> set ms. hosts N n))"
    using assms(1) dist set by (intro walk_bij) (auto simp: disjoint_nets_def hosts_def)
  moreover have "walk N ms i = addr_at N ?p i" if "i < pool_size N ms" for i
    using addr_at_walk [OF refl ms_def size that] by simp
  moreover have "pool_total ?p = pool_size N ms"
  proof (cases "ns = []")
    case False
    then have "0 < pool_size N ms"
      using set host_count_pos [of N "hd ms"] by (cases ms) auto
    then show ?thesis using addr_at_walk(1) [OF refl ms_def size] by simp
  qed (simp add: pool_from_nets_def Let_def ms_def)
  ultimately show ?thesis
    using bij_betw_cong [of "{..<pool_size N ms}" "walk N ms" "addr_at N ?p"] set by simp
qed

lemma addr_at_in_hosts:
  assumes "ns \<noteq> []"
  shows "\<exists>n \<in> set ns. \<exists>a \<in> hosts N n. addr_at N (pool_from_nets N ns) i = TOk (Some a)"
proof -
  obtain n k where "n \<in> set ns" "k < host_count N n" "addr_at N (pool_from_nets N ns) i = TOk (Some (host_at N n k))"
    using addr_at_host [OF refl, of N ns i] pool_total_pos [OF assms] by auto
  moreover have "host_at N n k \<in> hosts N n"
    using host_at_bij [of n] \<open>k < host_count N n\<close> by (auto simp: bij_betw_def)
  ultimately show ?thesis by blast
qed

end

section \<open>Networks of the crate\<close>

text \<open>An address with a prefix length, the length cut to the family.\<close>

definition std_host_bits :: "ip_addr \<times> nat \<Rightarrow> nat" where
  "std_host_bits n = family_bits (family_of_addr (fst n)) - min (snd n) (family_bits (family_of_addr (fst n)))"

definition std_nets :: "(ip_addr \<times> nat) ipnet" where
  "std_nets =
    \<lparr>net_family = \<lambda>n. family_of_addr (fst n),
     net_prefix_len = \<lambda>n. min (snd n) (family_bits (family_of_addr (fst n))),
     net_network = \<lambda>n. to_addr (family_of_addr (fst n))
       (addr_to_u128 (fst n) div 2 ^ std_host_bits n * 2 ^ std_host_bits n),
     net_hostmask = \<lambda>n. to_addr (family_of_addr (fst n)) (2 ^ std_host_bits n - 1),
     net_contains = \<lambda>n a. family_of_addr a = family_of_addr (fst n) \<and>
       addr_to_u128 a div 2 ^ std_host_bits n = addr_to_u128 (fst n) div 2 ^ std_host_bits n,
     net_from = \<lambda>a. (a, family_bits (family_of_addr a))\<rparr>"

lemma std_host_bits: "host_bits std_nets n = std_host_bits n"
  by (simp add: host_bits_def std_nets_def std_host_bits_def)

lemma std_base: "net_base std_nets n = addr_to_u128 (fst n) div 2 ^ std_host_bits n * 2 ^ std_host_bits n"
proof -
  have "addr_to_u128 (fst n) div 2 ^ std_host_bits n * 2 ^ std_host_bits n \<le> addr_to_u128 (fst n)"
    by (rule div_times_less_eq_dividend)
  then have "addr_to_u128 (fst n) div 2 ^ std_host_bits n * 2 ^ std_host_bits n < 2 ^ family_bits (family_of_addr (fst n))"
    using addr_bound [of "fst n"] by linarith
  then show ?thesis by (simp add: net_base_def std_nets_def addr_to_u128_to_addr)
qed

interpretation std: ip_nets std_nets
proof unfold_locales
  fix n :: "ip_addr \<times> nat" and a
  show "net_prefix_len std_nets n \<le> family_bits (net_family std_nets n)" by (simp add: std_nets_def)
  show "family_of_addr (net_network std_nets n) = net_family std_nets n" by (simp add: std_nets_def)
  show "net_base std_nets n mod 2 ^ host_bits std_nets n = 0" by (simp add: std_base std_host_bits)
  show "net_hostmask std_nets n = to_addr (net_family std_nets n) (2 ^ host_bits std_nets n - 1)"
    by (simp add: std_host_bits) (simp add: std_nets_def)
  show "net_contains std_nets n a \<longleftrightarrow> aligned std_nets n a"
    by (simp add: aligned_def std_base std_host_bits) (simp add: std_nets_def)
  have "net_base std_nets (net_from std_nets a) = addr_to_u128 a"
    by (simp add: std_base) (simp add: std_nets_def std_host_bits_def)
  then show "net_network std_nets (net_from std_nets a) = a"
    by (simp add: addr_eq_iff [of _ a] net_base_def) (simp add: std_nets_def)
qed

text \<open>A generator draws within the range it is asked for.\<close>

locale random_source =
  fixes random_range :: "nat \<Rightarrow> nat \<Rightarrow> 'r \<Rightarrow> nat \<times> 'r"
  assumes in_range: "lo < hi \<Longrightarrow> random_range lo hi rng = (x, rng') \<Longrightarrow> lo \<le> x \<and> x < hi"

text \<open>A generator that answers the lower bound and counts its calls.\<close>

definition low_random :: "nat \<Rightarrow> nat \<Rightarrow> nat \<Rightarrow> nat \<times> nat" where
  "low_random lo hi calls = (lo, Suc calls)"

interpretation low: random_source low_random
  by unfold_locales (auto simp: low_random_def)

text \<open>C24: a pool is the list of its hosts, without the list.  Every index, however large, gives a
  usable address of one of the networks, and no lookup panics even where the count of addresses
  saturates; if the networks are disjoint and their addresses can be counted in a \<^verbatim>\<open>u128\<close>, the
  indices below the total reach every usable address of the networks exactly once.\<close>

theorem pool_enumerates_hosts:
  assumes "ip_nets N"
  shows "(ns \<noteq> [] \<longrightarrow>
      (\<exists>n \<in> set ns. \<exists>a \<in> hosts N n. addr_at N (pool_from_nets N ns) i = TOk (Some a))) \<and>
    (disjoint_nets N ns \<and> sum (host_count N) (set ns) \<le> u128_max \<longrightarrow>
      bij_betw (addr_at N (pool_from_nets N ns)) {..<pool_total (pool_from_nets N ns)}
        ((\<lambda>a. TOk (Some a)) ` (\<Union>n \<in> set ns. hosts N n)))"
  using ip_nets.addr_at_in_hosts [OF assms] ip_nets.pool_bij [OF assms] by blast

theorem pool_enumerates_hosts_witness:
  "bij_betw (addr_at std_nets (pool_from_nets std_nets [(V4 0x0A000000, 29)])) {..<6}
     ((\<lambda>a. TOk (Some a)) ` hosts std_nets (V4 0x0A000000, 29))"
proof -
  let ?n = "(V4 0x0A000000, 29) :: ip_addr \<times> nat"
  have c: "host_count std_nets ?n = 6"
    by (simp add: host_count_def std_host_bits std_host_bits_def family_bits_def family_of_addr_def)
      (simp add: std_nets_def family_of_addr_def)
  then have "pool_total (pool_from_nets std_nets [?n]) = 6"
    by (simp add: pool_from_nets_def saturating_add_u128_def u128_max_def)
  moreover have "disjoint_nets std_nets [?n]" by (simp add: disjoint_nets_def)
  ultimately show ?thesis
    using pool_enumerates_hosts [OF std.ip_nets_axioms, of "[?n]" 0] c by (simp add: u128_max_def)
qed

end
