(* ===== verification/Merge_Config.thy ===== *)
theory Merge_Config
  imports Pool
begin

text \<open>
  The configuration of the merging tool (\<^verbatim>\<open>tools/maja-mergecap/src/config.rs\<close>): the map
  entries, the input files with their defaults and their validation, the merge of command line and
  configuration file, and the option syntax of the command line.  Strings are lists of characters of
  Latin-1.  Reading a network is done by the \<^verbatim>\<open>ipnet\<close> crate, so it is a parameter; so is reading
  an address, which is only passed on.  \<^verbatim>\<open>serde\<close>, \<^verbatim>\<open>clap\<close> and \<^verbatim>\<open>glob\<close> are not modelled.
\<close>

section \<open>Strings of the standard library\<close>

definition is_whitespace :: "char \<Rightarrow> bool" where
  "is_whitespace c = (let n = of_char c :: nat in (9 \<le> n \<and> n \<le> 13) \<or> n = 32 \<or> n = 0x85 \<or> n = 0xA0)"

definition trim :: "string \<Rightarrow> string" where
  "trim s = rev (dropWhile is_whitespace (rev (dropWhile is_whitespace s)))"

fun split_on :: "char \<Rightarrow> string \<Rightarrow> string list" where
  "split_on c [] = [[]]"
| "split_on c (x # xs) =
    (if x = c then [] # split_on c xs
     else (case split_on c xs of [] \<Rightarrow> [[x]] | w # ws \<Rightarrow> (x # w) # ws))"

definition starts_with :: "string \<Rightarrow> string \<Rightarrow> bool" where
  "starts_with p s = (take (length p) s = p)"

fun split_once :: "string \<Rightarrow> string \<Rightarrow> (string \<times> string) option" where
  "split_once p [] = (if p = [] then Some ([], []) else None)"
| "split_once p (x # xs) =
    (if starts_with p (x # xs) then Some ([], drop (length p) (x # xs))
     else map_option (\<lambda>(a, b). (x # a, b)) (split_once p xs))"

definition digit_value :: "char \<Rightarrow> nat option" where
  "digit_value c = (let n = of_char c :: nat in if 48 \<le> n \<and> n \<le> 57 then Some (n - 48) else None)"

fun digits_value :: "nat \<Rightarrow> string \<Rightarrow> nat option" where
  "digits_value acc [] = Some acc"
| "digits_value acc (c # cs) =
    (case digit_value c of None \<Rightarrow> None | Some d \<Rightarrow> digits_value (10 * acc + d) cs)"

definition parse_digits :: "string \<Rightarrow> nat option" where
  "parse_digits s = (if s = [] then None else digits_value 0 s)"

text \<open>\<^verbatim>\<open>str::parse\<close> for an unsigned and a signed integer type with the given largest value.\<close>

definition parse_unsigned :: "nat \<Rightarrow> string \<Rightarrow> nat option" where
  "parse_unsigned limit s =
    (case parse_digits (if starts_with ''+'' s then tl s else s) of
       Some n \<Rightarrow> if n \<le> limit then Some n else None
     | None \<Rightarrow> None)"

definition parse_i32 :: "string \<Rightarrow> int option" where
  "parse_i32 s =
    (if starts_with ''-'' s
     then (case parse_digits (tl s) of
             Some n \<Rightarrow> if n \<le> 2 ^ 31 then Some (- int n) else None | None \<Rightarrow> None)
     else map_option int (parse_unsigned (2 ^ 31 - 1) s))"

section \<open>Map entries\<close>

datatype map_shape = ShapeFixed | ShapePool | ShapeMask
datatype map_policy = PolicyRandom | PolicySticky | PolicyUnique | PolicyHash
datatype map_key = KeySession | KeyAddress
datatype map_sharing = PerGroup | Shared
datatype alloc_scope = ScopeFile | ScopeGlobal

definition is_stateful :: "map_policy \<Rightarrow> bool" where
  "is_stateful p = (p = PolicySticky \<or> p = PolicyUnique)"

datatype 'n target = TargetIp ip_addr | TargetNet 'n

definition target_net :: "'n ipnet \<Rightarrow> 'n target \<Rightarrow> 'n" where
  "target_net N t = (case t of TargetIp ip \<Rightarrow> net_from N ip | TargetNet n \<Rightarrow> n)"

record 'n map_entry =
  me_from :: "'n option"
  me_to :: "'n target"
  me_shape :: "map_shape option"
  me_policy :: "map_policy option"

definition entry_shape :: "'n map_entry \<Rightarrow> map_shape" where
  "entry_shape e =
    (case me_shape e of
       Some s \<Rightarrow> s
     | None \<Rightarrow> (case me_to e of TargetIp _ \<Rightarrow> ShapeFixed | TargetNet _ \<Rightarrow> ShapePool))"

text \<open>The parsers the code calls: an address of the standard library, a network of \<^verbatim>\<open>ipnet\<close>.\<close>

record 'n net_parsers =
  parse_ip_addr :: "string \<Rightarrow> ip_addr option"
  parse_ip_net :: "string \<Rightarrow> 'n option"

definition target_try_from :: "'n net_parsers \<Rightarrow> string \<Rightarrow> string + 'n target" where
  "target_try_from P s =
    (case parse_ip_addr P s of
       Some ip \<Rightarrow> Inr (TargetIp ip)
     | None \<Rightarrow>
         (case parse_ip_net P s of
            Some n \<Rightarrow> Inr (TargetNet n)
          | None \<Rightarrow> Inl ''invalid map target''))"

definition parse_net :: "'n net_parsers \<Rightarrow> string \<Rightarrow> string + 'n" where
  "parse_net P s = (case parse_ip_net P s of Some n \<Rightarrow> Inr n | None \<Rightarrow> Inl ''invalid FROM IpNet'')"

text \<open>The two sides of an entry around a separator.\<close>

definition entry_of_sides ::
    "'n net_parsers \<Rightarrow> map_shape \<Rightarrow> string \<times> string \<Rightarrow> string + 'n map_entry" where
  "entry_of_sides P shape sides =
    (case sides of (from, to) \<Rightarrow>
       (case parse_net P (trim from) of
          Inl e \<Rightarrow> Inl e
        | Inr n \<Rightarrow>
            (case target_try_from P (trim to) of
               Inl e \<Rightarrow> Inl e
             | Inr t \<Rightarrow>
                 Inr \<lparr>me_from = Some n, me_to = t, me_shape = Some shape, me_policy = None\<rparr>)))"

definition entry_parse :: "'n net_parsers \<Rightarrow> string \<Rightarrow> string + 'n map_entry" where
  "entry_parse P s0 =
    (let s = trim s0 in
     if s = [] then Inl ''empty map entry''
     else
       (case split_once ''=>'' s of
          Some sides \<Rightarrow> entry_of_sides P ShapePool sides
        | None \<Rightarrow>
       (case split_once ''->'' s of
          Some sides \<Rightarrow> entry_of_sides P ShapeMask sides
        | None \<Rightarrow>
       (case parse_ip_addr P s of
          Some ip \<Rightarrow>
            Inr \<lparr>me_from = None, me_to = TargetIp ip, me_shape = Some ShapeFixed, me_policy = None\<rparr>
        | None \<Rightarrow>
       (case parse_ip_net P s of
          Some n \<Rightarrow>
            Inr \<lparr>me_from = None, me_to = TargetNet n, me_shape = Some ShapePool, me_policy = None\<rparr>
        | None \<Rightarrow>
       (case split_once '':'' s of
          Some sides \<Rightarrow> entry_of_sides P ShapeMask sides
        | None \<Rightarrow> Inl ''invalid map entry''))))))"

fun collect_results :: "('e + 'a) list \<Rightarrow> 'e + 'a list" where
  "collect_results [] = Inr []"
| "collect_results (r # rs) =
    (case r of
       Inl e \<Rightarrow> Inl e
     | Inr x \<Rightarrow> (case collect_results rs of Inl e \<Rightarrow> Inl e | Inr xs \<Rightarrow> Inr (x # xs)))"

definition parse_entries :: "'n net_parsers \<Rightarrow> string \<Rightarrow> string + 'n map_entry list" where
  "parse_entries P value =
    collect_results (map (entry_parse P) (filter (\<lambda>e. e \<noteq> []) (map trim (split_on CHR '','' value))))"

section \<open>Flow maps\<close>

datatype protocol_spec = SpecOne string | SpecList "string list"

definition default_tcp_udp :: protocol_spec where
  "default_tcp_udp = SpecList [''tcp'', ''udp'']"

definition spec_names :: "protocol_spec \<Rightarrow> string list" where
  "spec_names p =
    (case p of
       SpecOne s \<Rightarrow> filter (\<lambda>p. p \<noteq> []) (map trim (split_on CHR '','' s))
     | SpecList ps \<Rightarrow> map trim ps)"

record 'n flow_map =
  fm_key :: map_key
  fm_policy :: map_policy
  fm_alloc_scope :: alloc_scope
  fm_sharing :: "map_sharing option"
  fm_entries :: "'n map_entry list"
  fm_exclude :: "'n list"
  fm_protocols :: protocol_spec
  fm_fragments :: bool

text \<open>\<^verbatim>\<open>expect\<close> of the three literals: a parser that refuses one of them panics.\<close>

definition default_exclude :: "'n net_parsers \<Rightarrow> 'n list option" where
  "default_exclude P =
    (case (parse_ip_net P ''224.0.0.0/4'', parse_ip_net P ''255.255.255.255/32'', parse_ip_net P ''ff00::/8'') of
       (Some a, Some b, Some c) \<Rightarrow> Some [a, b, c] | _ \<Rightarrow> None)"

definition default_flow_map :: "'n list \<Rightarrow> 'n flow_map" where
  "default_flow_map exclude =
    \<lparr>fm_key = KeySession, fm_policy = PolicyUnique, fm_alloc_scope = ScopeFile, fm_sharing = None,
     fm_entries = [], fm_exclude = exclude, fm_protocols = default_tcp_udp, fm_fragments = True\<rparr>"

definition flow_sharing :: "'n flow_map \<Rightarrow> map_sharing" where
  "flow_sharing f =
    (case fm_sharing f of
       Some s \<Rightarrow> s
     | None \<Rightarrow> (case fm_key f of KeySession \<Rightarrow> PerGroup | KeyAddress \<Rightarrow> Shared))"

section \<open>Input files\<close>

record 'n input_file =
  if_path :: string
  if_start_time :: "int list option"
  if_repeat :: "nat option"
  if_repeat_interval :: "nat option"
  if_parallel :: "nat option"
  if_parallel_jitter :: "nat option"
  if_ip_map :: "'n map_entry list option"
  if_src_ip_map :: "'n map_entry list option"
  if_dst_ip_map :: "'n map_entry list option"
  if_flow_map :: "'n flow_map option"

definition input_file_default :: "'n input_file" where
  "input_file_default =
    \<lparr>if_path = [], if_start_time = None, if_repeat = None, if_repeat_interval = None,
     if_parallel = None, if_parallel_jitter = None, if_ip_map = None, if_src_ip_map = None,
     if_dst_ip_map = None, if_flow_map = None\<rparr>"

definition unwrap_or :: "'a \<Rightarrow> 'a option \<Rightarrow> 'a" where
  "unwrap_or d x = (case x of Some y \<Rightarrow> y | None \<Rightarrow> d)"

definition option_or :: "'a option \<Rightarrow> 'a option \<Rightarrow> 'a option" where
  "option_or a b = (case a of Some _ \<Rightarrow> a | None \<Rightarrow> b)"

definition start_time :: "'n input_file \<Rightarrow> int list" where
  "start_time f = unwrap_or [0] (if_start_time f)"

definition repeat_count :: "'n input_file \<Rightarrow> nat" where
  "repeat_count f = unwrap_or 1 (if_repeat f)"

definition repeat_interval_ns :: "'n input_file \<Rightarrow> int" where
  "repeat_interval_ns f = wrap_i64 (int (unwrap_or 1000000000 (if_repeat_interval f)))"

definition parallel :: "'n input_file \<Rightarrow> nat" where
  "parallel f = unwrap_or 1 (if_parallel f)"

definition parallel_jitter_ns :: "'n input_file \<Rightarrow> nat" where
  "parallel_jitter_ns f = unwrap_or 0 (if_parallel_jitter f)"

definition ip_map :: "'n input_file \<Rightarrow> 'n map_entry list" where
  "ip_map f = unwrap_or [] (if_ip_map f)"

definition src_ip_map :: "'n input_file \<Rightarrow> 'n map_entry list" where
  "src_ip_map f = unwrap_or [] (if_src_ip_map f)"

definition dst_ip_map :: "'n input_file \<Rightarrow> 'n map_entry list" where
  "dst_ip_map f = unwrap_or [] (if_dst_ip_map f)"

definition map_path :: "'n input_file \<Rightarrow> string \<Rightarrow> 'n input_file" where
  "map_path f path = f\<lparr>if_path := path\<rparr>"

text \<open>The reasons for which a configuration is refused, one for each \<^verbatim>\<open>bail!\<close>.\<close>

datatype config_error =
    MixedFamilies | FixedNeedsIp | PoolNeedsNet | MaskNeedsNets | PolicyInDirectMap | PolicyNeedsPool
  | NoFlowEntries | SeveralCatchAlls family | KeyCannotMatter | ScopeCannotMatter | SharingCannotMatter
  | StartTimeEmpty | RepeatZero | ParallelZero | RepeatIntervalTooLarge | JitterTooLarge | FlowWithDirectMap

datatype entry_context = ContextDirect | ContextFlow

fun first_error :: "'e option list \<Rightarrow> 'e option" where
  "first_error [] = None"
| "first_error (c # cs) = (case c of Some e \<Rightarrow> Some e | None \<Rightarrow> first_error cs)"

definition bail_if :: "bool \<Rightarrow> 'e \<Rightarrow> 'e option" where
  "bail_if b e = (if b then Some e else None)"

definition same_family :: "'n ipnet \<Rightarrow> 'n \<Rightarrow> 'n \<Rightarrow> bool" where
  "same_family N a b = (net_family N a = net_family N b)"

definition is_net :: "'n target \<Rightarrow> bool" where
  "is_net t = (case t of TargetNet _ \<Rightarrow> True | TargetIp _ \<Rightarrow> False)"

definition check_entry ::
    "'n ipnet \<Rightarrow> 'n map_entry \<Rightarrow> entry_context \<Rightarrow> config_error option" where
  "check_entry N e ctx =
    first_error
     [case me_from e of
        Some from \<Rightarrow> bail_if (\<not> same_family N from (target_net N (me_to e))) MixedFamilies
      | None \<Rightarrow> None,
      (case entry_shape e of
         ShapeFixed \<Rightarrow> bail_if (is_net (me_to e)) FixedNeedsIp
       | ShapePool \<Rightarrow> bail_if (\<not> is_net (me_to e)) PoolNeedsNet
       | ShapeMask \<Rightarrow> bail_if (me_from e = None \<or> \<not> is_net (me_to e)) MaskNeedsNets),
      bail_if (me_policy e \<noteq> None \<and> ctx = ContextDirect) PolicyInDirectMap,
      bail_if (me_policy e \<noteq> None \<and> entry_shape e \<noteq> ShapePool) PolicyNeedsPool]"

definition catch_alls :: "'n ipnet \<Rightarrow> 'n flow_map \<Rightarrow> family \<Rightarrow> nat" where
  "catch_alls N f fam =
    length (filter (\<lambda>e. me_from e = None \<and> net_family N (target_net N (me_to e)) = fam) (fm_entries f))"

definition entry_policy :: "map_policy \<Rightarrow> 'n map_entry \<Rightarrow> map_policy" where
  "entry_policy d e = unwrap_or d (me_policy e)"

definition check_flow_map :: "'n ipnet \<Rightarrow> 'n flow_map \<Rightarrow> config_error option" where
  "check_flow_map N f =
    (let pools = filter (\<lambda>e. entry_shape e = ShapePool) (fm_entries f);
         keyed = length (filter (\<lambda>e. entry_policy (fm_policy f) e \<noteq> PolicyRandom) pools);
         stateful = length (filter (\<lambda>e. is_stateful (entry_policy (fm_policy f) e)) pools)
     in first_error
         ([bail_if (fm_entries f = []) NoFlowEntries,
           bail_if (1 < catch_alls N f FamilyV4) (SeveralCatchAlls FamilyV4),
           bail_if (1 < catch_alls N f FamilyV6) (SeveralCatchAlls FamilyV6)]
          @ map (\<lambda>e. check_entry N e ContextFlow) (fm_entries f)
          @ [bail_if (fm_key f = KeyAddress \<and> keyed = 0) KeyCannotMatter,
             bail_if (fm_alloc_scope f = ScopeGlobal \<and> stateful = 0) ScopeCannotMatter,
             bail_if (fm_sharing f \<noteq> None \<and> stateful = 0) SharingCannotMatter]))"

definition exceeds :: "nat \<Rightarrow> nat option \<Rightarrow> bool" where
  "exceeds limit x = (case x of Some v \<Rightarrow> limit < v | None \<Rightarrow> False)"

definition validate :: "'n ipnet \<Rightarrow> 'n input_file \<Rightarrow> config_error option" where
  "validate N f =
    first_error
     ([bail_if (if_start_time f = Some []) StartTimeEmpty,
       bail_if (if_repeat f = Some 0) RepeatZero,
       bail_if (if_parallel f = Some 0) ParallelZero,
       bail_if (exceeds (2 ^ 63 - 1) (if_repeat_interval f)) RepeatIntervalTooLarge,
       bail_if (exceeds (2 ^ 63 - 1) (if_parallel_jitter f)) JitterTooLarge,
       bail_if (if_flow_map f \<noteq> None \<and> (ip_map f \<noteq> [] \<or> src_ip_map f \<noteq> [] \<or> dst_ip_map f \<noteq> []))
         FlowWithDirectMap]
      @ map (\<lambda>e. check_entry N e ContextDirect) (src_ip_map f @ ip_map f @ dst_ip_map f)
      @ [case if_flow_map f of Some flow \<Rightarrow> check_flow_map N flow | None \<Rightarrow> None])"

lemma first_error_None: "first_error cs = None \<longleftrightarrow> (\<forall>c \<in> set cs. c = None)"
  by (induction cs) (auto split: option.splits)

lemma bail_if_None [simp]: "bail_if b e = None \<longleftrightarrow> \<not> b"
  by (simp add: bail_if_def)

section \<open>The command line option of an input file\<close>

definition option_keys :: "string list" where
  "option_keys = [''flow'', ''src'', ''dst'', ''ip'', ''s'', ''r'', ''p'', ''j'']"

definition parse_start_times :: "string \<Rightarrow> string + int list" where
  "parse_start_times value =
    collect_results (map (\<lambda>v. case parse_i32 (trim v) of
        Some t \<Rightarrow> Inr t | None \<Rightarrow> Inl ''Invalid start time'') (split_on CHR '','' value))"

definition parse_number :: "string \<Rightarrow> nat \<Rightarrow> string \<Rightarrow> string + nat" where
  "parse_number message limit value =
    (case parse_unsigned limit (trim value) of Some n \<Rightarrow> Inr n | None \<Rightarrow> Inl message)"

definition apply_option ::
    "'n net_parsers \<Rightarrow> 'n list \<Rightarrow> 'n input_file \<Rightarrow> string \<Rightarrow> string + 'n input_file" where
  "apply_option P exclude f part =
    (case find (\<lambda>key. starts_with key part) option_keys of
       None \<Rightarrow> Inl ''Invalid input file option''
     | Some key \<Rightarrow>
         let value = drop (length key) part;
             put = (\<lambda>r set. case r of Inl e \<Rightarrow> Inl e | Inr x \<Rightarrow> Inr (set x))
         in if key = ''src'' then put (parse_entries P value) (\<lambda>x. f\<lparr>if_src_ip_map := Some x\<rparr>)
            else if key = ''dst'' then put (parse_entries P value) (\<lambda>x. f\<lparr>if_dst_ip_map := Some x\<rparr>)
            else if key = ''ip'' then put (parse_entries P value) (\<lambda>x. f\<lparr>if_ip_map := Some x\<rparr>)
            else if key = ''flow'' then
              put (parse_entries P value)
                (\<lambda>x. f\<lparr>if_flow_map := Some ((default_flow_map exclude)\<lparr>fm_entries := x\<rparr>)\<rparr>)
            else if key = ''s'' then
              (case parse_start_times value of Inl e \<Rightarrow> Inl e | Inr x \<Rightarrow> Inr (f\<lparr>if_start_time := Some x\<rparr>))
            else
              (case parse_number (if key = ''r'' then ''Invalid repeat value''
                   else if key = ''p'' then ''Invalid parallel value'' else ''Invalid parallel jitter'')
                 (if key = ''j'' then 2 ^ 64 - 1 else 2 ^ 32 - 1) value of
                 Inl e \<Rightarrow> Inl e
               | Inr x \<Rightarrow>
                   Inr (if key = ''r'' then f\<lparr>if_repeat := Some x\<rparr>
                        else if key = ''p'' then f\<lparr>if_parallel := Some x\<rparr>
                        else f\<lparr>if_parallel_jitter := Some x\<rparr>)))"

fun apply_options ::
    "'n net_parsers \<Rightarrow> 'n list \<Rightarrow> 'n input_file \<Rightarrow> string list \<Rightarrow> string + 'n input_file" where
  "apply_options P exclude f [] = Inr f"
| "apply_options P exclude f (part # parts) =
    (if part = [] then apply_options P exclude f parts
     else case apply_option P exclude f part of
            Inl e \<Rightarrow> Inl e
          | Inr f' \<Rightarrow> apply_options P exclude f' parts)"

definition input_file_parse :: "'n net_parsers \<Rightarrow> 'n list \<Rightarrow> string \<Rightarrow> string + 'n input_file" where
  "input_file_parse P exclude s =
    (let parts = split_on CHR ''#'' s
     in apply_options P exclude (input_file_default\<lparr>if_path := hd parts\<rparr>) (tl parts))"

section \<open>Command line and configuration file\<close>

definition input_file_or :: "'n input_file \<Rightarrow> 'n input_file \<Rightarrow> 'n input_file" where
  "input_file_or a b =
    \<lparr>if_path = if_path a,
     if_start_time = option_or (if_start_time a) (if_start_time b),
     if_repeat = option_or (if_repeat a) (if_repeat b),
     if_repeat_interval = option_or (if_repeat_interval a) (if_repeat_interval b),
     if_parallel = option_or (if_parallel a) (if_parallel b),
     if_parallel_jitter = option_or (if_parallel_jitter a) (if_parallel_jitter b),
     if_ip_map = option_or (if_ip_map a) (if_ip_map b),
     if_src_ip_map = option_or (if_src_ip_map a) (if_src_ip_map b),
     if_dst_ip_map = option_or (if_dst_ip_map a) (if_dst_ip_map b),
     if_flow_map = option_or (if_flow_map a) (if_flow_map b)\<rparr>"

record merge_args =
  ma_erase_timestamp :: "bool option"
  ma_snap_len :: "nat option"
  ma_nanosecond :: "bool option"
  ma_keep_subsecond :: "bool option"
  ma_batch_size :: "nat option"
  ma_seed :: "64 word option"
  ma_fix_checksum :: "bool option"

definition fix_checksum_flag :: "merge_args \<Rightarrow> bool" where
  "fix_checksum_flag a = unwrap_or True (ma_fix_checksum a)"

definition merge_args_or :: "merge_args \<Rightarrow> merge_args \<Rightarrow> merge_args" where
  "merge_args_or a b =
    \<lparr>ma_erase_timestamp = option_or (ma_erase_timestamp a) (ma_erase_timestamp b),
     ma_snap_len = option_or (ma_snap_len a) (ma_snap_len b),
     ma_nanosecond = option_or (ma_nanosecond a) (ma_nanosecond b),
     ma_keep_subsecond = option_or (ma_keep_subsecond a) (ma_keep_subsecond b),
     ma_batch_size = option_or (ma_batch_size a) (ma_batch_size b),
     ma_seed = option_or (ma_seed a) (ma_seed b),
     ma_fix_checksum = option_or (ma_fix_checksum a) (ma_fix_checksum b)\<rparr>"

fun merge_one :: "'n input_file list \<Rightarrow> 'n input_file \<Rightarrow> 'n input_file list" where
  "merge_one [] c = [c]"
| "merge_one (f # fs) c = (if if_path f = if_path c then input_file_or c f # fs else f # merge_one fs c)"

definition merge_input_files :: "'n input_file list \<Rightarrow> 'n input_file list \<Rightarrow> 'n input_file list" where
  "merge_input_files cli config = (if cli = [] then config else foldl merge_one config cli)"

record 'n merge_config =
  mc_input_files :: "'n input_file list"
  mc_output_file :: "string option"
  mc_merge_args :: merge_args

definition merge_config_or :: "'n merge_config \<Rightarrow> 'n merge_config \<Rightarrow> 'n merge_config" where
  "merge_config_or a b =
    \<lparr>mc_input_files = merge_input_files (mc_input_files a) (mc_input_files b),
     mc_output_file = option_or (mc_output_file a) (mc_output_file b),
     mc_merge_args = merge_args_or (mc_merge_args a) (mc_merge_args b)\<rparr>"

end
