(* ===== verification/Merge.thy ===== *)
theory Merge
  imports Tool "HOL-Library.Multiset"
begin

text \<open>
  The k-way merge of the merging tool (\<^verbatim>\<open>merge_batches\<close> of
  \<^verbatim>\<open>tools/maja-mergecap/src/main.rs\<close>).  A stream is the list of the batches it still has to
  yield.  The three slices the code indexes with the number of a reader (streams, counts in flight
  and lower bounds) are one list of lanes.  \<^verbatim>\<open>BinaryHeap\<close> leaves open which of two equal
  entries it pops, so the heap is an interface: any heap with its documented behaviour will do.
\<close>

section \<open>The heap\<close>

record 'v heap_entry =
  he_timestamp :: i64
  he_reader :: nat
  he_value :: 'v

definition ord_cmp :: "'a::linorder \<Rightarrow> 'a \<Rightarrow> ordering" where
  "ord_cmp a b = (if a < b then Less else if a = b then Equal else Greater)"

definition then_with :: "ordering \<Rightarrow> ordering \<Rightarrow> ordering" where
  "then_with a b = (if a = Equal then b else a)"

definition heap_entry_cmp :: "'v heap_entry \<Rightarrow> 'v heap_entry \<Rightarrow> ordering" where
  "heap_entry_cmp self other =
    then_with (ord_cmp (he_timestamp other) (he_timestamp self))
      (ord_cmp (he_reader other) (he_reader self))"

definition heap_entry_eq :: "'v heap_entry \<Rightarrow> 'v heap_entry \<Rightarrow> bool" where
  "heap_entry_eq self other =
    (he_timestamp self = he_timestamp other \<and> he_reader self = he_reader other)"

text \<open>\<^verbatim>\<open>BinaryHeap\<close>: \<^verbatim>\<open>pop\<close> removes a greatest item.\<close>

locale merge_heap =
  fixes empty_heap :: 'h
    and push_all :: "'v heap_entry list \<Rightarrow> 'h \<Rightarrow> 'h"
    and pop :: "'h \<Rightarrow> ('v heap_entry \<times> 'h) option"
    and elems :: "'h \<Rightarrow> 'v heap_entry multiset"
  assumes elems_empty: "elems empty_heap = {#}"
    and elems_push_all: "elems (push_all es h) = mset es + elems h"
    and pop_None: "pop h = None \<longleftrightarrow> elems h = {#}"
    and pop_Some: "pop h = Some (e, h') \<Longrightarrow>
      elems h = add_mset e (elems h') \<and> (\<forall>x \<in># elems h. heap_entry_cmp x e \<noteq> Greater)"

section \<open>The merge\<close>

record 'v lane =
  ln_stream :: "(i64 \<times> 'v) list list"
  ln_in_flight :: nat
  ln_lower_bound :: i64

record ('v, 'h) merge_state =
  ms_lanes :: "'v lane list"
  ms_heap :: 'h

definition batch_entries :: "nat \<Rightarrow> (i64 \<times> 'v) list \<Rightarrow> 'v heap_entry list" where
  "batch_entries index batch =
    map (\<lambda>(t, v). \<lparr>he_timestamp = t, he_reader = index, he_value = v\<rparr>) batch"

definition pull ::
    "('v heap_entry list \<Rightarrow> 'h \<Rightarrow> 'h) \<Rightarrow> nat \<Rightarrow> ('v, 'h) merge_state \<Rightarrow> ('v, 'h) merge_state" where
  "pull push_all index st =
    (let lane = ms_lanes st ! index in
     case ln_stream lane of
       batch # rest \<Rightarrow>
         if batch \<noteq> [] then
           st\<lparr>ms_lanes := (ms_lanes st)[index :=
                \<lparr>ln_stream = rest, ln_in_flight = ln_in_flight lane + length batch,
                 ln_lower_bound = foldr min (map fst batch) top\<rparr>],
              ms_heap := push_all (batch_entries index batch) (ms_heap st)\<rparr>
         else st\<lparr>ms_lanes := (ms_lanes st)[index := lane\<lparr>ln_stream := rest, ln_lower_bound := top\<rparr>]\<rparr>
     | [] \<Rightarrow> st\<lparr>ms_lanes := (ms_lanes st)[index := lane\<lparr>ln_lower_bound := top\<rparr>]\<rparr>)"

text \<open>\<^verbatim>\<open>for index in 0..reader_count\<close>: pull every reader that meets the condition.\<close>

fun pull_each ::
    "('v heap_entry list \<Rightarrow> 'h \<Rightarrow> 'h) \<Rightarrow> ('v lane \<Rightarrow> bool) \<Rightarrow> nat list \<Rightarrow>
     ('v, 'h) merge_state \<times> bool \<Rightarrow> ('v, 'h) merge_state \<times> bool" where
  "pull_each push_all c [] r = r"
| "pull_each push_all c (index # is) (st, pulled) =
    (if c (ms_lanes st ! index) then pull_each push_all c is (pull push_all index st, True)
     else pull_each push_all c is (st, pulled))"

definition pull_pass ::
    "('v heap_entry list \<Rightarrow> 'h \<Rightarrow> 'h) \<Rightarrow> ('v lane \<Rightarrow> bool) \<Rightarrow>
     ('v, 'h) merge_state \<Rightarrow> ('v, 'h) merge_state \<times> bool" where
  "pull_pass push_all c st = pull_each push_all c [0..<length (ms_lanes st)] (st, False)"

text \<open>What is left to pull: it bounds the reading ahead.\<close>

definition lane_left :: "'v lane \<Rightarrow> nat" where
  "lane_left l = length (ln_stream l) + (if ln_lower_bound l = top then 0 else 1)"

definition lanes_left :: "('v, 'h) merge_state \<Rightarrow> nat" where
  "lanes_left st = sum_list (map lane_left (ms_lanes st))"

lemma length_pull [simp]: "length (ms_lanes (pull push_all i st)) = length (ms_lanes st)"
  by (simp add: pull_def Let_def split: list.split)

lemma sum_list_update_less:
  "i < length xs \<Longrightarrow> f x < (f (xs ! i) :: nat) \<Longrightarrow>
    sum_list (map f (xs[i := x])) < sum_list (map f xs)"
  by (induction xs arbitrary: i) (auto split: nat.split simp: nth_Cons)

lemma pull_left:
  assumes "i < length (ms_lanes st)" and "ln_lower_bound (ms_lanes st ! i) \<noteq> top"
  shows "lanes_left (pull push_all i st) < lanes_left st"
  using assms
  by (auto simp: lanes_left_def pull_def Let_def lane_left_def
      intro!: sum_list_update_less split: list.split)

lemma pull_each_left:
  assumes "\<forall>l. c l \<longrightarrow> ln_lower_bound l \<noteq> top" and "\<forall>i \<in> set is. i < length (ms_lanes st)"
    and "pull_each push_all c is (st, b) = (st', b')"
  shows "lanes_left st' \<le> lanes_left st \<and> (b' \<noteq> b \<longrightarrow> lanes_left st' < lanes_left st)"
  using assms(2,3)
proof (induction "is" arbitrary: st b)
  case (Cons i "is")
  show ?case
  proof (cases "c (ms_lanes st ! i)")
    case True
    then have "lanes_left (pull push_all i st) < lanes_left st"
      using Cons.prems(1) assms(1) by (intro pull_left) auto
    moreover have "lanes_left st' \<le> lanes_left (pull push_all i st)"
      using Cons.IH [of "pull push_all i st" True] Cons.prems True by simp
    ultimately show ?thesis by simp
  next
    case False
    then show ?thesis using Cons.IH [of st b] Cons.prems by simp
  qed
qed simp

lemma pull_pass_left:
  assumes "\<forall>l. c l \<longrightarrow> ln_lower_bound l \<noteq> top" and "pull_pass push_all c st = (st', b)"
  shows "lanes_left st' \<le> lanes_left st \<and> (b \<longrightarrow> lanes_left st' < lanes_left st)"
  using pull_each_left [OF assms(1), of "[0..<length (ms_lanes st)]" st push_all False st' b] assms(2)
  by (auto simp: pull_pass_def)

function read_ahead ::
    "('v heap_entry list \<Rightarrow> 'h \<Rightarrow> 'h) \<Rightarrow> i64 \<Rightarrow> ('v, 'h) merge_state \<Rightarrow> ('v, 'h) merge_state" where
  "read_ahead push_all t st =
    (case pull_pass push_all (\<lambda>l. ln_lower_bound l < t) st of
       (st', pulled) \<Rightarrow> if pulled then read_ahead push_all t st' else st')"
  by pat_completeness auto
termination
  by (relation "measure (\<lambda>(_, _, st). lanes_left st)")
    (auto dest!: sym [of _ "pull_pass _ _ _"] pull_pass_left [rotated] simp: less_top [symmetric] order.strict_implies_not_eq)

declare read_ahead.simps [simp del]

text \<open>The main loop; \<^verbatim>\<open>None\<close> stands for fuel that ran out, and a count below zero panics.\<close>

fun merge_loop ::
    "nat \<Rightarrow> ('v heap_entry list \<Rightarrow> 'h \<Rightarrow> 'h) \<Rightarrow> ('h \<Rightarrow> ('v heap_entry \<times> 'h) option) \<Rightarrow>
     ('v \<Rightarrow> 's \<Rightarrow> 's tool_result) \<Rightarrow> ('v, 'h) merge_state \<Rightarrow> 's \<Rightarrow> 's tool_result option" where
  "merge_loop 0 push_all pop emit st s = None"
| "merge_loop (Suc n) push_all pop emit st s =
    (case pop (ms_heap st) of
       None \<Rightarrow>
         (case pull_pass push_all (\<lambda>l. ln_in_flight l = 0 \<and> ln_lower_bound l \<noteq> top) st of
            (st', pulled) \<Rightarrow>
              if \<not> pulled then Some (TOk s) else merge_loop n push_all pop emit st' s)
     | Some (e, heap) \<Rightarrow>
         let lane = ms_lanes st ! he_reader e in
         if ln_in_flight lane = 0 then Some TPanic
         else
           let st = read_ahead push_all (he_timestamp e)
                 (st\<lparr>ms_lanes := (ms_lanes st)[he_reader e := lane\<lparr>ln_in_flight := ln_in_flight lane - 1\<rparr>],
                     ms_heap := heap\<rparr>);
               earlier = (case pop (ms_heap st) of
                   Some (next, _) \<Rightarrow> he_timestamp next < he_timestamp e | None \<Rightarrow> False)
           in if earlier
              then
                let lane = ms_lanes st ! he_reader e in
                merge_loop n push_all pop emit
                  (st\<lparr>ms_lanes := (ms_lanes st)[he_reader e := lane\<lparr>ln_in_flight := ln_in_flight lane + 1\<rparr>],
                      ms_heap := push_all [e] (ms_heap st)\<rparr>) s
              else
                (case emit (he_value e) s of
                   TOk s' \<Rightarrow> merge_loop n push_all pop emit st s'
                 | TErr err \<Rightarrow> Some (TErr err)
                 | TPanic \<Rightarrow> Some TPanic))"

text \<open>Every round pulls a batch or emits a packet.\<close>

definition merge_fuel :: "(i64 \<times> 'v) list list list \<Rightarrow> nat" where
  "merge_fuel streams = Suc (sum_list (map (\<lambda>s. Suc (length s) + length (concat s)) streams))"

definition merge_start :: "'h \<Rightarrow> (i64 \<times> 'v) list list list \<Rightarrow> ('v, 'h) merge_state" where
  "merge_start empty_heap streams =
    \<lparr>ms_lanes = map (\<lambda>s. \<lparr>ln_stream = s, ln_in_flight = 0, ln_lower_bound = bot\<rparr>) streams,
     ms_heap = empty_heap\<rparr>"

definition merge_batches ::
    "'h \<Rightarrow> ('v heap_entry list \<Rightarrow> 'h \<Rightarrow> 'h) \<Rightarrow> ('h \<Rightarrow> ('v heap_entry \<times> 'h) option) \<Rightarrow>
     ('v \<Rightarrow> 's \<Rightarrow> 's tool_result) \<Rightarrow> (i64 \<times> 'v) list list list \<Rightarrow> 's \<Rightarrow> 's tool_result option" where
  "merge_batches empty_heap push_all pop emit streams s =
    merge_loop (merge_fuel streams) push_all pop emit (merge_start empty_heap streams) s"

section \<open>Passes over the readers\<close>

lemma pull_each_preserves:
  assumes "pull_each push_all c is (st, b) = (st', b')" and "P st"
    and "\<And>i st. P st \<Longrightarrow> i < length (ms_lanes st) \<Longrightarrow> c (ms_lanes st ! i) \<Longrightarrow> P (pull push_all i st)"
    and "\<forall>i \<in> set is. i < length (ms_lanes st)"
  shows "P st'"
  using assms(1,2,4)
proof (induction "is" arbitrary: st b)
  case (Cons i "is")
  show ?case
  proof (cases "c (ms_lanes st ! i)")
    case True
    then show ?thesis
      using Cons.IH [of "pull push_all i st" True] Cons.prems assms(3) [of st i] by simp
  next
    case False
    then show ?thesis using Cons.IH [of st b] Cons.prems by simp
  qed
qed simp

lemma pull_pass_preserves:
  assumes "pull_pass push_all c st = (st', b)" and "P st"
    and "\<And>i st. P st \<Longrightarrow> i < length (ms_lanes st) \<Longrightarrow> c (ms_lanes st ! i) \<Longrightarrow> P (pull push_all i st)"
  shows "P st'"
  using assms(1) unfolding pull_pass_def by (rule pull_each_preserves) (use assms(2,3) in auto)

lemma pull_each_flag: "pull_each push_all c is (st, True) = (st', b) \<Longrightarrow> b"
  by (induction "is" arbitrary: st) (auto split: if_splits)

lemma pull_each_none:
  "pull_each push_all c is (st, False) = (st', False) \<Longrightarrow> st' = st \<and> (\<forall>i \<in> set is. \<not> c (ms_lanes st ! i))"
  by (induction "is") (auto split: if_splits dest: pull_each_flag)

lemma pull_pass_none:
  "pull_pass push_all c st = (st', False) \<Longrightarrow> st' = st \<and> (\<forall>l \<in> set (ms_lanes st). \<not> c l)"
  by (auto simp: pull_pass_def in_set_conv_nth dest!: pull_each_none)

lemma read_ahead_preserves:
  assumes "P st"
    and "\<And>i st. P st \<Longrightarrow> i < length (ms_lanes st) \<Longrightarrow> ln_lower_bound (ms_lanes st ! i) \<noteq> top \<Longrightarrow>
      P (pull push_all i st)"
  shows "P (read_ahead push_all t st)"
  using assms
proof (induction push_all t st rule: read_ahead.induct)
  case (1 push_all t st)
  obtain st' b where p: "pull_pass push_all (\<lambda>l. ln_lower_bound l < t) st = (st', b)" by fastforce
  have "P st'"
    by (rule pull_pass_preserves [where P = P, OF p "1.prems"(1) "1.prems"(2)]) (auto simp: less_top [symmetric])
  then show ?case
    using "1.IH" [OF p [symmetric] _ _ "1.prems"(2)] by (simp add: read_ahead.simps [of push_all t st] p)
qed

lemma read_ahead_done: "l \<in> set (ms_lanes (read_ahead push_all t st)) \<Longrightarrow> t \<le> ln_lower_bound l"
proof (induction push_all t st rule: read_ahead.induct)
  case (1 push_all t st)
  obtain st' b where p: "pull_pass push_all (\<lambda>l. ln_lower_bound l < t) st = (st', b)" by fastforce
  show ?case
    using "1.IH" [OF p [symmetric]] "1.prems" pull_pass_none [of push_all _ st st'] p
    by (cases b) (force simp: read_ahead.simps [of push_all t st])+
qed

lemma less_imp_not_top: "(a :: i64) < b \<Longrightarrow> a \<noteq> top"
  using top.extremum_strict by blast

lemma read_ahead_left: "read_ahead push_all t st = st \<or> lanes_left (read_ahead push_all t st) < lanes_left st"
proof (induction push_all t st rule: read_ahead.induct)
  case (1 push_all t st)
  obtain st' b where p: "pull_pass push_all (\<lambda>l. ln_lower_bound l < t) st = (st', b)" by fastforce
  show ?case
  proof (cases b)
    case True
    have "lanes_left st' < lanes_left st"
      using pull_pass_left [OF _ p] True by (auto dest: less_imp_not_top)
    then show ?thesis
      using "1.IH" [OF p [symmetric] True] True by (auto simp: read_ahead.simps [of push_all t st] p)
  next
    case False
    then show ?thesis
      using pull_pass_none [of push_all _ st st'] p by (simp add: read_ahead.simps [of push_all t st])
  qed
qed

section \<open>Invariants\<close>

definition batch_min :: "(i64 \<times> 'v) list \<Rightarrow> i64" where
  "batch_min b = foldr min (map fst b) top"

lemma batch_min_le: "x \<in> set b \<Longrightarrow> batch_min b \<le> fst x"
  by (induction b) (auto simp: batch_min_def min_le_iff_disj)

text \<open>A stream whose batches are not empty and do not start at \<^verbatim>\<open>i64::MAX\<close>.\<close>

definition lane_ok :: "'v lane \<Rightarrow> bool" where
  "lane_ok l =
    ((\<forall>b \<in> set (ln_stream l). b \<noteq> [] \<and> batch_min b < top) \<and>
     (ln_lower_bound l = top \<longrightarrow> ln_stream l = []))"

definition lane_sorted :: "'v lane \<Rightarrow> bool" where
  "lane_sorted l =
    (sorted (map batch_min (ln_stream l)) \<and> (\<forall>b \<in> set (ln_stream l). ln_lower_bound l \<le> batch_min b))"

lemma lane_sorted_head:
  "lane_sorted l \<Longrightarrow> ln_stream l = b # bs \<Longrightarrow>
    lane_sorted \<lparr>ln_stream = bs, ln_in_flight = n, ln_lower_bound = batch_min b\<rparr>"
  by (simp add: lane_sorted_def)

lemma lane_sorted_bound:
  "lane_sorted l \<Longrightarrow> x \<in> set (concat (ln_stream l)) \<Longrightarrow> ln_lower_bound l \<le> fst x"
  by (auto simp: lane_sorted_def intro: order_trans batch_min_le)

abbreviation payload :: "'v heap_entry \<Rightarrow> i64 \<times> 'v" where
  "payload e \<equiv> (he_timestamp e, he_value e)"

abbreviation streamed :: "('v, 'h) merge_state \<Rightarrow> (i64 \<times> 'v) multiset" where
  "streamed st \<equiv> sum_list (map (\<lambda>l. mset (concat (ln_stream l))) (ms_lanes st))"

lemma batch_entries_simps [simp]:
  "length (batch_entries i b) = length b"
  "image_mset payload (mset (batch_entries i b)) = mset b"
  "filter_mset (\<lambda>e. he_reader e = j) (mset (batch_entries i b)) =
    (if i = j then mset (batch_entries i b) else {#})"
  "e \<in> set (batch_entries i b) \<Longrightarrow> he_reader e = i"
  by (induction b) (auto simp: batch_entries_def)

lemma sum_list_update_add:
  fixes f :: "'a \<Rightarrow> 'm::comm_monoid_add"
  shows "i < length xs \<Longrightarrow> d + f x = f (xs ! i) \<Longrightarrow>
    d + sum_list (map f (xs[i := x])) = sum_list (map f xs)"
proof (induction xs arbitrary: i)
  case (Cons y ys)
  show ?case
  proof (cases i)
    case 0
    then show ?thesis using Cons.prems by (simp flip: add.assoc)
  next
    case (Suc j)
    then show ?thesis using Cons.IH [of j] Cons.prems by (simp add: add.left_commute [of d])
  qed
qed simp

lemma sum_list_update_eq:
  fixes f :: "'a \<Rightarrow> 'm::comm_monoid_add"
  shows "i < length xs \<Longrightarrow> f x = f (xs ! i) \<Longrightarrow> sum_list (map f (xs[i := x])) = sum_list (map f xs)"
  by (metis list_update_id map_update)

lemma in_sum_list_mset: "x \<in># sum_list (map f xs) \<longleftrightarrow> (\<exists>y \<in> set xs. x \<in># f y)"
  by (induction xs) auto

text \<open>What the client does with the merged packets, until its first error.\<close>

fun emit_all :: "('v \<Rightarrow> 's \<Rightarrow> 's tool_result) \<Rightarrow> 'v list \<Rightarrow> 's \<Rightarrow> 's tool_result" where
  "emit_all emit [] s = TOk s"
| "emit_all emit (v # vs) s = t_bind (emit v s) (emit_all emit vs)"

context merge_heap
begin

definition pending :: "('v, 'h) merge_state \<Rightarrow> (i64 \<times> 'v) multiset" where
  "pending st = image_mset payload (elems (ms_heap st)) + streamed st"

definition counted :: "('v, 'h) merge_state \<Rightarrow> bool" where
  "counted st =
    ((\<forall>e \<in># elems (ms_heap st). he_reader e < length (ms_lanes st)) \<and>
     (\<forall>i < length (ms_lanes st). ln_in_flight (ms_lanes st ! i) =
        size (filter_mset (\<lambda>e. he_reader e = i) (elems (ms_heap st)))))"

lemma pull_pending:
  assumes "i < length (ms_lanes st)" and "lane_ok (ms_lanes st ! i)"
  shows "pending (pull push_all i st) = pending st"
proof (cases "ln_stream (ms_lanes st ! i)")
  case Nil
  then show ?thesis
    using assms by (simp add: pull_def Let_def pending_def sum_list_update_eq)
next
  case (Cons b bs)
  then have b: "b \<noteq> []" using assms(2) by (simp add: lane_ok_def)
  then show ?thesis
    using sum_list_update_add [OF assms(1), of "mset b" "\<lambda>l. mset (concat (ln_stream l))"]
    by (simp add: Cons pull_def Let_def pending_def elems_push_all add.assoc add.left_commute [of "mset b"])
qed

lemma pull_counted:
  assumes "i < length (ms_lanes st)" and "counted st"
  shows "counted (pull push_all i st)"
  using assms by (auto simp: counted_def pull_def Let_def elems_push_all nth_list_update split: list.split)

lemma pull_lanes:
  assumes "i < length (ms_lanes st)" and "\<forall>l \<in> set (ms_lanes st). lane_ok l"
  shows "\<forall>l \<in> set (ms_lanes (pull push_all i st)). lane_ok l"
    and "\<forall>l \<in> set (ms_lanes st). lane_sorted l \<Longrightarrow>
      \<forall>l \<in> set (ms_lanes (pull push_all i st)). lane_sorted l"
proof -
  have i: "ms_lanes st ! i \<in> set (ms_lanes st)" using assms(1) by simp
  show "\<forall>l \<in> set (ms_lanes (pull push_all i st)). lane_ok l"
    using assms(2) bspec [OF assms(2) i]
    by (auto simp: pull_def Let_def lane_ok_def batch_min_def dest!: set_update_subset_insert [THEN subsetD]
        split: list.splits if_splits)
  assume "\<forall>l \<in> set (ms_lanes st). lane_sorted l"
  with i show "\<forall>l \<in> set (ms_lanes (pull push_all i st)). lane_sorted l"
    using assms(2) bspec [OF assms(2) i]
    by (auto simp: pull_def Let_def lane_ok_def lane_sorted_def batch_min_def
        dest!: set_update_subset_insert [THEN subsetD] split: list.splits if_splits)
qed

definition weight :: "('v, 'h) merge_state \<Rightarrow> nat" where
  "weight st = size (elems (ms_heap st)) + sum_list (map (\<lambda>l. length (concat (ln_stream l))) (ms_lanes st))"

lemma pull_weight:
  assumes "i < length (ms_lanes st)"
  shows "weight (pull push_all i st) = weight st"
proof (cases "ln_stream (ms_lanes st ! i)")
  case Nil
  then show ?thesis using assms by (simp add: pull_def Let_def weight_def sum_list_update_eq del: length_concat)
next
  case (Cons b bs)
  show ?thesis
    using assms sum_list_update_add [OF assms, of "length b" "\<lambda>l. length (concat (ln_stream l))"]
    by (simp add: Cons pull_def Let_def weight_def elems_push_all sum_list_update_eq del: length_concat)
qed

definition all_ok :: "('v, 'h) merge_state \<Rightarrow> bool" where
  "all_ok st = (\<forall>l \<in> set (ms_lanes st). lane_ok l)"

definition all_sorted :: "('v, 'h) merge_state \<Rightarrow> bool" where
  "all_sorted st = (all_ok st \<and> (\<forall>l \<in> set (ms_lanes st). lane_sorted l))"

text \<open>A change of the heap and of one count in flight.\<close>

lemma recount:
  assumes "i < length (ms_lanes st)"
    and "st' = st\<lparr>ms_lanes := (ms_lanes st)[i := (ms_lanes st ! i)\<lparr>ln_in_flight := k\<rparr>], ms_heap := h\<rparr>"
  shows "streamed st' = streamed st" and "lanes_left st' = lanes_left st"
    and "sum_list (map (\<lambda>l. length (concat (ln_stream l))) (ms_lanes st')) =
      sum_list (map (\<lambda>l. length (concat (ln_stream l))) (ms_lanes st))"
    and "all_ok st \<Longrightarrow> all_ok st'" and "all_sorted st \<Longrightarrow> all_sorted st'"
proof -
  have i: "ms_lanes st ! i \<in> set (ms_lanes st)" using assms(1) by simp
  show "streamed st' = streamed st" "lanes_left st' = lanes_left st"
    "sum_list (map (\<lambda>l. length (concat (ln_stream l))) (ms_lanes st')) =
      sum_list (map (\<lambda>l. length (concat (ln_stream l))) (ms_lanes st))"
    using assms by (simp_all add: lanes_left_def lane_left_def sum_list_update_eq del: length_concat)
  show ok: "all_ok st'" if "all_ok st"
    using that bspec [OF that [unfolded all_ok_def] i]
    by (auto simp: all_ok_def assms(2) lane_ok_def dest!: set_update_subset_insert [THEN subsetD])
  show "all_sorted st'" if st: "all_sorted st"
  proof -
    have l: "\<forall>l \<in> set (ms_lanes st). lane_sorted l" using st by (simp add: all_sorted_def)
    show ?thesis
      using st ok l bspec [OF l i]
      by (auto simp: all_sorted_def assms(2) lane_sorted_def dest!: set_update_subset_insert [THEN subsetD])
  qed
qed

lemma pop_least: "pop h = Some (e, h') \<Longrightarrow> x \<in># elems h \<Longrightarrow> he_timestamp e \<le> he_timestamp x"
  using pop_Some [of h e h'] by (force simp: heap_entry_cmp_def then_with_def ord_cmp_def split: if_splits)

lemma pop_reader:
  "counted st \<Longrightarrow> pop (ms_heap st) = Some (e, h') \<Longrightarrow>
    he_reader e < length (ms_lanes st) \<and> 0 < ln_in_flight (ms_lanes st ! he_reader e)"
  using pop_Some [of "ms_heap st" e h'] by (auto simp: counted_def)

lemma pop_state:
  assumes "counted st" and "pop (ms_heap st) = Some (e, h')"
    and "st' = st\<lparr>ms_lanes := (ms_lanes st)[he_reader e :=
      (ms_lanes st ! he_reader e)\<lparr>ln_in_flight := ln_in_flight (ms_lanes st ! he_reader e) - 1\<rparr>],
      ms_heap := h'\<rparr>"
  shows "counted st'" and "pending st = add_mset (payload e) (pending st')"
    and "weight st = Suc (weight st')"
proof -
  have r: "he_reader e < length (ms_lanes st)" using pop_reader [OF assms(1,2)] by simp
  have el: "elems (ms_heap st) = add_mset e (elems h')" using pop_Some [OF assms(2)] by simp
  show "counted st'" using assms(1) r by (auto simp: counted_def assms(3) el nth_list_update)
  show "pending st = add_mset (payload e) (pending st')" "weight st = Suc (weight st')"
    using recount(1,3) [OF r assms(3)] by (simp_all add: pending_def weight_def el) (simp_all add: assms(3))
qed

lemma push_state:
  assumes "counted st" and "he_reader e < length (ms_lanes st)"
    and "st' = st\<lparr>ms_lanes := (ms_lanes st)[he_reader e :=
      (ms_lanes st ! he_reader e)\<lparr>ln_in_flight := ln_in_flight (ms_lanes st ! he_reader e) + 1\<rparr>],
      ms_heap := push_all [e] (ms_heap st)\<rparr>"
  shows "counted st'" and "pending st' = add_mset (payload e) (pending st)"
    and "weight st' = Suc (weight st)"
proof -
  have el: "elems (ms_heap st') = add_mset e (elems (ms_heap st))" by (simp add: assms(3) elems_push_all)
  show "counted st'" using assms(1,2) by (auto simp: counted_def el) (auto simp: assms(3) nth_list_update)
  show "pending st' = add_mset (payload e) (pending st)" "weight st' = Suc (weight st)"
    using recount(1,3) [OF assms(2,3)] by (simp_all add: pending_def weight_def el)
qed

lemma pull_step:
  assumes "i < length (ms_lanes st)"
  shows "counted st \<Longrightarrow> counted (pull push_all i st)"
    and "all_ok st \<Longrightarrow> all_ok (pull push_all i st) \<and> pending (pull push_all i st) = pending st"
    and "all_sorted st \<Longrightarrow> all_sorted (pull push_all i st)"
  using pull_counted [OF assms] pull_lanes [OF assms] pull_pending [OF assms] assms
  by (auto simp: all_ok_def all_sorted_def)

lemma ahead:
  "length (ms_lanes (read_ahead push_all t st)) = length (ms_lanes st)"
  "counted st \<Longrightarrow> counted (read_ahead push_all t st)"
  "weight (read_ahead push_all t st) = weight st"
  "all_ok st \<Longrightarrow> all_ok (read_ahead push_all t st) \<and> pending (read_ahead push_all t st) = pending st"
  "all_sorted st \<Longrightarrow> all_sorted (read_ahead push_all t st)"
proof -
  show "length (ms_lanes (read_ahead push_all t st)) = length (ms_lanes st)"
    by (rule read_ahead_preserves [where P = "\<lambda>x. length (ms_lanes x) = length (ms_lanes st)"]) simp_all
  show "counted st \<Longrightarrow> counted (read_ahead push_all t st)"
    by (rule read_ahead_preserves [where P = counted]) (simp_all add: pull_step)
  show "weight (read_ahead push_all t st) = weight st"
    by (rule read_ahead_preserves [where P = "\<lambda>x. weight x = weight st"]) (simp_all add: pull_weight)
  show "all_ok st \<Longrightarrow> all_ok (read_ahead push_all t st) \<and> pending (read_ahead push_all t st) = pending st"
    by (rule read_ahead_preserves [where P = "\<lambda>x. all_ok x \<and> pending x = pending st"]) (simp_all add: pull_step)
  show "all_sorted st \<Longrightarrow> all_sorted (read_ahead push_all t st)"
    by (rule read_ahead_preserves [where P = all_sorted]) (simp_all add: pull_step)
qed

lemma refill:
  assumes "pull_pass push_all c st = (st', b)" and "\<forall>l. c l \<longrightarrow> ln_lower_bound l \<noteq> top"
  shows "counted st \<Longrightarrow> counted st'" and "weight st' = weight st"
    and "all_ok st \<Longrightarrow> all_ok st' \<and> pending st' = pending st" and "all_sorted st \<Longrightarrow> all_sorted st'"
  using pull_pass_preserves [OF assms(1), where P = counted]
    pull_pass_preserves [OF assms(1), where P = "\<lambda>x. weight x = weight st"]
    pull_pass_preserves [OF assms(1), where P = "\<lambda>x. all_ok x \<and> pending x = pending st"]
    pull_pass_preserves [OF assms(1), where P = all_sorted]
  by (simp_all add: pull_step pull_weight)

lemma drained:
  assumes "pull_pass push_all (\<lambda>l. ln_in_flight l = 0 \<and> ln_lower_bound l \<noteq> top) st = (st', False)"
    and "counted st" and "pop (ms_heap st) = None" and "all_ok st"
  shows "pending st = {#}"
proof -
  have el: "elems (ms_heap st) = {#}" using assms(3) by (simp add: pop_None)
  have "ln_stream l = []" if l: "l \<in> set (ms_lanes st)" for l
  proof -
    have "ln_in_flight l = 0" using l assms(2) el by (auto simp: counted_def in_set_conv_nth)
    then have "ln_lower_bound l = top" using pull_pass_none [OF assms(1)] l by auto
    then show ?thesis using l assms(4) by (auto simp: all_ok_def lane_ok_def)
  qed
  then show ?thesis by (simp add: pending_def el sum_list_0 cong: map_cong)
qed

lemma emitted_least:
  assumes "all_sorted st" and "\<forall>l \<in> set (ms_lanes st). t \<le> ln_lower_bound l"
    and "\<not> (case pop (ms_heap st) of Some (next, _) \<Rightarrow> he_timestamp next < t | None \<Rightarrow> False)"
    and "x \<in># pending st"
  shows "t \<le> fst x"
proof (cases "x \<in># image_mset payload (elems (ms_heap st))")
  case True
  then obtain y where y: "y \<in># elems (ms_heap st)" "x = payload y" by auto
  then obtain e h' where p: "pop (ms_heap st) = Some (e, h')"
    using pop_None [of "ms_heap st"] by (cases "pop (ms_heap st)") auto
  show ?thesis using assms(3) pop_least [OF p y(1)] p y(2) by (auto simp: not_less)
next
  case False
  then have "x \<in># streamed st" using assms(4) by (simp add: pending_def)
  then obtain l where "l \<in> set (ms_lanes st)" "x \<in> set (concat (ln_stream l))"
    by (auto simp: in_sum_list_mset)
  then show ?thesis
    using assms(1,2) lane_sorted_bound [of l x] by (auto simp: all_sorted_def intro: order_trans)
qed

text \<open>The loop returns, and what it emits.\<close>

definition emits :: "nat \<Rightarrow> ('v, 'h) merge_state \<Rightarrow> ('v \<Rightarrow> 's \<Rightarrow> 's tool_result) \<Rightarrow> (i64 \<times> 'v) list \<Rightarrow> bool" where
  "emits fuel st emit es = (\<forall>s. merge_loop fuel push_all pop emit st s = Some (emit_all emit (map snd es) s))"

definition good_output :: "('v, 'h) merge_state \<Rightarrow> (i64 \<times> 'v) list \<Rightarrow> bool" where
  "good_output st es =
    ((all_ok st \<longrightarrow> mset es = pending st) \<and> (all_sorted st \<longrightarrow> sorted (map fst es)))"

lemma all_sorted_ok: "all_sorted st \<Longrightarrow> all_ok st"
  by (simp add: all_sorted_def)

lemma merge_loop_total:
  "counted st \<Longrightarrow> lanes_left st + weight st < fuel \<Longrightarrow>
    \<exists>es. (\<forall>emit :: 'v \<Rightarrow> 's \<Rightarrow> 's tool_result. emits fuel st emit es) \<and> good_output st es"
proof (induction fuel arbitrary: st)
  case (Suc n)
  show ?case
  proof (cases "pop (ms_heap st)")
    case None
    let ?c = "\<lambda>l. ln_in_flight l = 0 \<and> ln_lower_bound l \<noteq> top"
    obtain st' b where p: "pull_pass push_all ?c st = (st', b)" by fastforce
    show ?thesis
    proof (cases b)
      case True
      have "lanes_left st' + weight st' < n"
        using pull_pass_left [OF _ p] True Suc.prems(2) refill(2) [OF p] by simp
      then obtain es where es: "\<forall>emit :: 'v \<Rightarrow> 's \<Rightarrow> 's tool_result. emits n st' emit es" "good_output st' es"
        using Suc.IH [of st'] refill(1) [OF p _ Suc.prems(1)] by auto
      then have "\<forall>emit :: 'v \<Rightarrow> 's \<Rightarrow> 's tool_result. emits (Suc n) st emit es" using p True None by (simp add: emits_def)
      moreover have "good_output st es"
        using es(2) refill(3,4) [OF p] by (auto simp: good_output_def dest: all_sorted_ok)
      ultimately show ?thesis by blast
    next
      case False
      then have "\<forall>emit :: 'v \<Rightarrow> 's \<Rightarrow> 's tool_result. emits (Suc n) st emit []" using p None by (simp add: emits_def)
      moreover have "good_output st []"
        using drained [of st st'] p False Suc.prems(1) None by (simp add: good_output_def)
      ultimately show ?thesis by blast
    qed
  next
    case (Some eh)
    then obtain e h where pop: "pop (ms_heap st) = Some (e, h)" by (cases eh) auto
    note reader = pop_reader [OF Suc.prems(1) pop]
    define st1 where "st1 = st\<lparr>ms_lanes := (ms_lanes st)[he_reader e :=
      (ms_lanes st ! he_reader e)\<lparr>ln_in_flight := ln_in_flight (ms_lanes st ! he_reader e) - 1\<rparr>],
      ms_heap := h\<rparr>"
    note s1 = pop_state [OF Suc.prems(1) pop st1_def] recount [OF conjunct1 [OF reader] st1_def]
    define st2 where "st2 = read_ahead push_all (he_timestamp e) st1"
    note s2 = ahead [where t = "he_timestamp e" and st = st1, folded st2_def]
    have len: "length (ms_lanes st2) = length (ms_lanes st)" using s2(1) by (simp add: st1_def)
    define earlier where "earlier = (case pop (ms_heap st2) of
      Some (next, _) \<Rightarrow> he_timestamp next < he_timestamp e | None \<Rightarrow> False)"
    show ?thesis
    proof (cases earlier)
      case True
      define st3 where "st3 = st2\<lparr>ms_lanes := (ms_lanes st2)[he_reader e :=
        (ms_lanes st2 ! he_reader e)\<lparr>ln_in_flight := ln_in_flight (ms_lanes st2 ! he_reader e) + 1\<rparr>],
        ms_heap := push_all [e] (ms_heap st2)\<rparr>"
      have r2: "he_reader e < length (ms_lanes st2)" using reader len by simp
      note s3 = push_state [OF s2(2) [OF s1(1)] r2 st3_def] recount [OF r2 st3_def]
      have "st2 \<noteq> st1"
      proof
        assume "st2 = st1"
        then obtain x h2 where x: "pop h = Some (x, h2)" "he_timestamp x < he_timestamp e"
          using True by (auto simp: earlier_def st1_def split: option.splits)
        then show False
          using pop_least [OF pop, of x] pop_Some [OF x(1)] pop_Some [OF pop] by simp
      qed
      then have "lanes_left st2 < lanes_left st"
        using read_ahead_left [of push_all "he_timestamp e" st1] s1 by (simp add: st2_def)
      then have "lanes_left st3 + weight st3 < n" using Suc.prems(2) s1 s2(3) s3 by simp
      then obtain es where es: "\<forall>emit :: 'v \<Rightarrow> 's \<Rightarrow> 's tool_result. emits n st3 emit es" "good_output st3 es"
        using Suc.IH [of st3] s3(1) by auto
      have "\<forall>emit :: 'v \<Rightarrow> 's \<Rightarrow> 's tool_result. emits (Suc n) st emit es"
        using es(1) pop reader True
        by (simp add: emits_def Let_def st3_def st2_def earlier_def st1_def)
      moreover have "good_output st es"
        using es(2) s1 s2 s3 by (simp add: good_output_def)
      ultimately show ?thesis by blast
    next
      case False
      have "lanes_left st2 \<le> lanes_left st"
        using read_ahead_left [of push_all "he_timestamp e" st1] s1 by (auto simp: st2_def)
      then have "lanes_left st2 + weight st2 < n" using Suc.prems(2) s1 s2(3) by simp
      then obtain es where es: "\<forall>emit :: 'v \<Rightarrow> 's \<Rightarrow> 's tool_result. emits n st2 emit es" "good_output st2 es"
        using Suc.IH [of st2] s2(2) [OF s1(1)] by auto
      have "\<forall>emit :: 'v \<Rightarrow> 's \<Rightarrow> 's tool_result. emits (Suc n) st emit (payload e # es)"
        using es(1) pop reader False
        by (simp add: emits_def Let_def st2_def earlier_def st1_def t_bind_def split: tool_result.split)
      moreover have "\<forall>x \<in> set es. he_timestamp e \<le> fst x" if st: "all_sorted st"
      proof -
        have "all_sorted st2" "mset es = pending st2"
          using st es(2) s1 s2 by (simp_all add: good_output_def all_sorted_ok)
        moreover have "\<forall>l \<in> set (ms_lanes st2). he_timestamp e \<le> ln_lower_bound l"
          using read_ahead_done by (auto simp: st2_def)
        ultimately show ?thesis
          using emitted_least [of st2 "he_timestamp e"] False
          by (simp add: earlier_def flip: set_mset_mset)
      qed
      then have "good_output st (payload e # es)"
        using es(2) s1 s2 by (simp add: good_output_def)
      ultimately show ?thesis by blast
    qed
  qed
qed simp

end

section \<open>A heap\<close>

definition heap_push_all :: "'v heap_entry list \<Rightarrow> 'v heap_entry list \<Rightarrow> 'v heap_entry list" where
  "heap_push_all es h = es @ h"

fun heap_pop :: "'v heap_entry list \<Rightarrow> ('v heap_entry \<times> 'v heap_entry list) option" where
  "heap_pop [] = None"
| "heap_pop (e # h) =
    (case heap_pop h of
       None \<Rightarrow> Some (e, h)
     | Some (g, h') \<Rightarrow> if heap_entry_cmp e g = Less then Some (g, e # h') else Some (e, h))"

lemma heap_entry_cmp_iff:
  "heap_entry_cmp a b = Less \<longleftrightarrow>
    he_timestamp b < he_timestamp a \<or> he_timestamp b = he_timestamp a \<and> he_reader b < he_reader a"
  "heap_entry_cmp a b = Greater \<longleftrightarrow>
    he_timestamp a < he_timestamp b \<or> he_timestamp a = he_timestamp b \<and> he_reader a < he_reader b"
  "heap_entry_cmp a b = Equal \<longleftrightarrow> heap_entry_eq a b"
  by (auto simp: heap_entry_cmp_def heap_entry_eq_def then_with_def ord_cmp_def)

lemma heap_entry_cmp_trans:
  "heap_entry_cmp y g \<noteq> Greater \<Longrightarrow> heap_entry_cmp x g \<noteq> Less \<Longrightarrow> heap_entry_cmp y x \<noteq> Greater"
  by (simp add: heap_entry_cmp_iff) (metis less_trans not_less_iff_gr_or_eq)

lemma heap_pop_None: "heap_pop h = None \<longleftrightarrow> h = []"
  by (cases h) (auto split: option.split)

lemma heap_pop_Some:
  "heap_pop h = Some (e, h') \<Longrightarrow>
    mset h = add_mset e (mset h') \<and> (\<forall>x \<in> set h. heap_entry_cmp x e \<noteq> Greater)"
proof (induction h arbitrary: e h')
  case (Cons x h)
  show ?case
  proof (cases "heap_pop h")
    case None
    then show ?thesis using Cons.prems by (auto simp: heap_pop_None heap_entry_cmp_iff)
  next
    case (Some gh)
    then obtain g h2 where g: "heap_pop h = Some (g, h2)" by (cases gh) auto
    note IH = Cons.IH [OF g]
    show ?thesis
    proof (cases "heap_entry_cmp x g = Less")
      case True
      then show ?thesis using Cons.prems g IH by auto
    next
      case False
      then have "e = x" "h' = h" using Cons.prems g by auto
      then show ?thesis using IH heap_entry_cmp_trans [OF _ False] by (auto simp: heap_entry_cmp_iff(2))
    qed
  qed
qed simp

interpretation list_heap: merge_heap "[]" heap_push_all heap_pop mset
  by unfold_locales (auto simp: heap_push_all_def heap_pop_None dest: heap_pop_Some)

section \<open>Properties\<close>

definition stream_ok :: "(i64 \<times> 'v) list list \<Rightarrow> bool" where
  "stream_ok s = (\<forall>b \<in> set s. b \<noteq> [] \<and> batch_min b < top)"

lemma streamed_start: "streamed (merge_start h streams) = mset (concat (concat streams))"
  by (induction streams) (simp_all add: merge_start_def)

lemma start_left:
  "lanes_left (merge_start h streams) + length (concat (concat streams)) < merge_fuel streams"
  by (induction streams) (simp_all add: merge_start_def merge_fuel_def lanes_left_def lane_left_def)

lemma start_weight:
  "sum_list (map (\<lambda>l. length (concat (ln_stream l))) (ms_lanes (merge_start h streams))) =
    length (concat (concat streams))"
  by (induction streams) (simp_all add: merge_start_def)

context merge_heap
begin

lemma merge_batches_total:
  "\<exists>es. (\<forall>(emit :: 'v \<Rightarrow> 's \<Rightarrow> 's tool_result) s.
      merge_batches empty_heap push_all pop emit streams s = Some (emit_all emit (map snd es) s)) \<and>
    ((\<forall>s \<in> set streams. stream_ok s) \<longrightarrow> mset es = mset (concat (concat streams)) \<and>
      ((\<forall>s \<in> set streams. sorted (map batch_min s)) \<longrightarrow> sorted (map fst es)))"
proof -
  let ?st = "merge_start empty_heap streams"
  have "counted ?st" by (simp add: counted_def merge_start_def elems_empty)
  moreover have "weight ?st = length (concat (concat streams))"
    unfolding weight_def start_weight by (simp add: merge_start_def elems_empty)
  ultimately obtain es where
    "\<forall>emit :: 'v \<Rightarrow> 's \<Rightarrow> 's tool_result. emits (merge_fuel streams) ?st emit es" "good_output ?st es"
    using merge_loop_total [of ?st "merge_fuel streams"] start_left [of empty_heap streams] by auto
  moreover have "all_ok ?st" if "\<forall>s \<in> set streams. stream_ok s"
    using that by (auto simp: all_ok_def merge_start_def lane_ok_def stream_ok_def)
  moreover have "all_sorted ?st" if "\<forall>s \<in> set streams. stream_ok s \<and> sorted (map batch_min s)"
    using that by (auto simp: all_sorted_def all_ok_def merge_start_def lane_ok_def lane_sorted_def stream_ok_def)
  moreover have "pending ?st = mset (concat (concat streams))"
    using streamed_start [of empty_heap streams] by (simp add: pending_def merge_start_def elems_empty)
  ultimately show ?thesis
    by (intro exI [of _ es]) (auto simp: emits_def merge_batches_def good_output_def)
qed

end

text \<open>C5: the merge sorts.  For every heap that keeps the contract of \<^verbatim>\<open>BinaryHeap\<close>, if no stream
  yields an empty batch or one that starts at \<^verbatim>\<open>i64::MAX\<close>, and the least timestamps of the
  batches of each stream do not decrease, then the packets are emitted in non-decreasing order of
  their timestamps, each exactly once, although a batch may reach far into the next ones.\<close>

theorem merge_sorts:
  assumes "merge_heap empty_heap push_all pop elems"
    and "\<forall>s \<in> set streams. stream_ok s \<and> sorted (map batch_min s)"
  shows "\<exists>es. (\<forall>(emit :: 'v \<Rightarrow> 's \<Rightarrow> 's tool_result) s. merge_batches empty_heap push_all pop emit streams s =
      Some (emit_all emit (map snd es) s)) \<and>
    mset es = mset (concat (concat streams)) \<and> sorted (map fst es)"
  using merge_heap.merge_batches_total [OF assms(1), of streams] assms(2) by meson

lemma i64_of_less_top: "i64_of a < top \<longleftrightarrow> wrap_i64 a \<noteq> 2 ^ 63 - 1"
  by (metis i64_of_top less_top)

definition sample_streams :: "(i64 \<times> nat) list list list" where
  "sample_streams = [[[(i64_of 0, 1), (i64_of 90, 2)], [(i64_of 5, 3)]], [[(i64_of 3, 4)]]]"

theorem merge_sorts_witness:
  "\<exists>es. merge_batches [] heap_push_all heap_pop (\<lambda>v out. TOk (out @ [v])) sample_streams [] =
      Some (emit_all (\<lambda>v out. TOk (out @ [v])) (map snd es) []) \<and>
    mset es = mset (concat (concat sample_streams)) \<and> sorted (map fst es)"
proof -
  have "\<forall>s \<in> set sample_streams. stream_ok s \<and> sorted (map batch_min s)"
    by (simp add: sample_streams_def stream_ok_def batch_min_def wrap_i64_def i64_of_less_top)
  from merge_sorts [where ?'s = "nat list", OF list_heap.merge_heap_axioms this] show ?thesis by metis
qed



text \<open>What the order does not keep.  Ties are not broken by the reader when the packet of the
  lower reader is not read yet, and everything behind a batch that starts at \<^verbatim>\<open>i64::MAX\<close>, or
  behind an empty batch, is dropped.\<close>

theorem merge_limits:
  "merge_batches [] heap_push_all heap_pop (\<lambda>v out. TOk (out @ [v]))
     [[[(i64_of 1, 1)], [(i64_of 5, 2)]], [[(i64_of 5, 3)]]] ([] :: nat list) = Some (TOk [1, 3, 2])"
  "merge_batches [] heap_push_all heap_pop (\<lambda>v out. TOk (out @ [v]))
     [[[(top, 1)], [(top, 2)]], [[], [(i64_of 5, 3)]]] ([] :: nat list) = Some (TOk [1])"
  by (simp_all add: merge_batches_def merge_fuel_def merge_start_def pull_pass_def pull_def batch_entries_def
      read_ahead.simps heap_push_all_def heap_entry_cmp_iff upt_rec wrap_i64_def less_top [symmetric]
      eval_nat_numeral Let_def)

end
