(* ===== verification/Merge_Reader.thy ===== *)
theory Merge_Reader
  imports Merge_Config Merge
begin

text \<open>
  The readers of the merging tool (\<^verbatim>\<open>PacketReader\<close> of \<^verbatim>\<open>tools/maja-mergecap/src/main.rs\<close>): an
  iterator that plays a capture once for every repeat of every start time and yields one batch per
  packet, a copy for every parallel group.  Opening the file again is a parameter, and so is the
  rewriting of a packet's bytes, which leaves its timestamp alone.
\<close>

definition saturate_i64 :: "int \<Rightarrow> int" where
  "saturate_i64 x = max (- (2 ^ 63)) (min (2 ^ 63 - 1) x)"

definition saturating_add_i64 :: "int \<Rightarrow> int \<Rightarrow> int" where
  "saturating_add_i64 a b = saturate_i64 (a + b)"

definition saturating_sub_i64 :: "int \<Rightarrow> int \<Rightarrow> int" where
  "saturating_sub_i64 a b = saturate_i64 (a - b)"

record ('n, 'w) packet_reader =
  pk_file :: "'n input_file"
  pk_reader :: sniffed_reader
  pk_current :: nat
  pk_original_first :: "int option"
  pk_first :: "int option"
  pk_last :: int
  pk_erase_timestamp :: bool
  pk_keep_subsecond :: bool
  pk_repeat_interval :: int
  pk_parallel :: nat
  pk_jitter :: "int list"
  pk_rewriter :: 'w

text \<open>The jitter of the parallel groups; \<^verbatim>\<open>random_range\<close> belongs to the \<^verbatim>\<open>rand\<close> crate.\<close>

fun draw_jitter :: "(nat \<Rightarrow> nat \<Rightarrow> 'r \<Rightarrow> nat \<times> 'r) \<Rightarrow> nat \<Rightarrow> nat list \<Rightarrow> 'r \<Rightarrow> int list" where
  "draw_jitter random_range jitter_ns [] rng = []"
| "draw_jitter random_range jitter_ns (g # groups) rng =
    (if g = 0 \<or> jitter_ns = 0 then 0 # draw_jitter random_range jitter_ns groups rng
     else (case random_range 0 jitter_ns rng of
             (j, rng') \<Rightarrow> wrap_i64 (int j) # draw_jitter random_range jitter_ns groups rng'))"

definition packet_reader_new ::
    "(nat \<Rightarrow> nat \<Rightarrow> 'r \<Rightarrow> nat \<times> 'r) \<Rightarrow> 'r \<Rightarrow> 'n input_file \<Rightarrow> merge_args \<Rightarrow> sniffed_reader \<Rightarrow> 'w \<Rightarrow>
     ('n, 'w) packet_reader" where
  "packet_reader_new random_range rng file args reader rewriter =
    \<lparr>pk_file = file, pk_reader = reader, pk_current = 0, pk_original_first = None, pk_first = None,
     pk_last = 0,
     pk_erase_timestamp = unwrap_or False (ma_erase_timestamp args),
     pk_keep_subsecond = unwrap_or False (ma_keep_subsecond args),
     pk_repeat_interval = repeat_interval_ns file, pk_parallel = parallel file,
     pk_jitter = draw_jitter random_range (parallel_jitter_ns file) [0..<parallel file] rng,
     pk_rewriter = rewriter\<rparr>"

definition reader_link_type :: "('n, 'w) packet_reader \<Rightarrow> link_type" where
  "reader_link_type p =
    (case sniffed_interfaces (pk_reader p) of i # _ \<Rightarrow> if_link_type i | [] \<Rightarrow> LtEthernet)"

text \<open>The timestamp of the first packet of a pass.\<close>

definition first_timestamp :: "('n, 'w) packet_reader \<Rightarrow> int \<Rightarrow> int tool_result" where
  "first_timestamp p timestamp =
    (let repeat = repeat_count (pk_file p) in
     if repeat dvd pk_current p then
       (if repeat = 0 then TPanic
        else
          (case byte_at (start_time (pk_file p)) (pk_current p div repeat) of
             None \<Rightarrow> TPanic
           | Some t \<Rightarrow>
               let start = t * 1000000000 in
               TOk (if pk_erase_timestamp p then
                      (if pk_keep_subsecond p
                       then saturating_add_i64 start (timestamp smod 1000000000) else start)
                    else saturating_add_i64 timestamp start)))
     else TOk (saturating_add_i64 (pk_last p) (pk_repeat_interval p)))"

fun make_items ::
    "(nat \<Rightarrow> packet_record \<Rightarrow> 'w \<Rightarrow> bytes \<times> 'w) \<Rightarrow> int list \<Rightarrow> packet_record \<Rightarrow> nat list \<Rightarrow> 'w \<Rightarrow>
     (packet_record list \<times> 'w) tool_result" where
  "make_items rewrite jitter packet [] w = TOk ([], w)"
| "make_items rewrite jitter packet (g # groups) w =
    (case byte_at jitter g of
       None \<Rightarrow> TPanic
     | Some j \<Rightarrow>
         let item = packet\<lparr>pr_timestamp := saturating_add_i64 (pr_timestamp packet) j\<rparr> in
         (case rewrite g item w of (d, w') \<Rightarrow>
            t_bind (make_items rewrite jitter packet groups w') (\<lambda>(items, w'').
            TOk (item\<lparr>pr_data := d\<rparr> # items, w''))))"

definition reader_yield ::
    "(nat \<Rightarrow> packet_record \<Rightarrow> 'w \<Rightarrow> bytes \<times> 'w) \<Rightarrow> ('n, 'w) packet_reader \<Rightarrow> packet_record \<Rightarrow>
     (('n, 'w) packet_reader \<times> packet_record list) tool_result" where
  "reader_yield rewrite p packet =
    (let timestamp = pr_timestamp packet in
     t_bind
       (case pk_first p of
          Some first \<Rightarrow>
            (case pk_original_first p of
               None \<Rightarrow> TPanic
             | Some original \<Rightarrow>
                 TOk (p, saturating_add_i64 (saturating_sub_i64 timestamp original) first))
        | None \<Rightarrow>
            t_bind (first_timestamp p timestamp) (\<lambda>t.
            TOk (p\<lparr>pk_original_first := Some timestamp, pk_first := Some t\<rparr>, t))) (\<lambda>(p, t).
     t_bind (make_items rewrite (pk_jitter p) (packet\<lparr>pr_timestamp := t\<rparr>) [0..<pk_parallel p]
         (pk_rewriter p)) (\<lambda>(items, w).
     TOk (p\<lparr>pk_last := t, pk_rewriter := w\<rparr>, items))))"

text \<open>\<^verbatim>\<open>Iterator::next\<close>: a failed read is tried again, the end of the file starts the next pass.
  \<^verbatim>\<open>None\<close> of the model is a call that does not return.\<close>

partial_function (option) reader_next ::
    "(nat \<Rightarrow> packet_record \<Rightarrow> 'w \<Rightarrow> bytes \<times> 'w) \<Rightarrow> sniffed_reader cresult \<Rightarrow> ('n, 'w) packet_reader \<Rightarrow>
     (('n, 'w) packet_reader \<times> packet_record list option) tool_result option" where
  "reader_next rewrite open_file p =
    (case sniffed_next_packet (pk_reader p) of
       (r, COk (Some packet)) \<Rightarrow>
         Some (t_bind (reader_yield rewrite (p\<lparr>pk_reader := r\<rparr>) packet)
           (\<lambda>(p, items). TOk (p, Some items)))
     | (r, COk None) \<Rightarrow>
         (let p = p\<lparr>pk_reader := r, pk_current := pk_current p + 1\<rparr> in
          if pk_current p = length (start_time (pk_file p)) * repeat_count (pk_file p)
          then Some (TOk (p, None))
          else
            (case open_file of
               COk r' \<Rightarrow> reader_next rewrite open_file (p\<lparr>pk_reader := r', pk_first := None\<rparr>)
             | CErr _ \<Rightarrow> Some (TOk (p, None))
             | CPanic \<Rightarrow> Some TPanic))
     | (r, CErr _) \<Rightarrow> reader_next rewrite open_file (p\<lparr>pk_reader := r\<rparr>)
     | (_, CPanic) \<Rightarrow> Some TPanic)"

section \<open>What a reader plays\<close>

fun reader_run ::
    "nat \<Rightarrow> (nat \<Rightarrow> packet_record \<Rightarrow> 'w \<Rightarrow> bytes \<times> 'w) \<Rightarrow> sniffed_reader cresult \<Rightarrow> ('n, 'w) packet_reader \<Rightarrow>
     packet_record list list tool_result option" where
  "reader_run 0 rewrite open_file p = None"
| "reader_run (Suc n) rewrite open_file p =
    (case reader_next rewrite open_file p of
       None \<Rightarrow> None
     | Some TPanic \<Rightarrow> Some TPanic
     | Some (TErr e) \<Rightarrow> Some (TErr e)
     | Some (TOk (_, None)) \<Rightarrow> Some (TOk [])
     | Some (TOk (p', Some b)) \<Rightarrow>
         (case reader_run n rewrite open_file p' of
            Some (TOk bs) \<Rightarrow> Some (TOk (b # bs))
          | r \<Rightarrow> r))"

definition pass_start :: "'n input_file \<Rightarrow> bool \<Rightarrow> bool \<Rightarrow> nat \<Rightarrow> int \<Rightarrow> int \<Rightarrow> int" where
  "pass_start f erase keep k x prev =
    (if repeat_count f dvd k then
       (let start = start_time f ! (k div repeat_count f) * 1000000000 in
        if erase then (if keep then saturating_add_i64 start (x smod 1000000000) else start)
        else saturating_add_i64 x start)
     else saturating_add_i64 prev (repeat_interval_ns f))"

text \<open>The timestamps of the passes \<open>ks\<close> over packets of the timestamps \<open>xs\<close>.\<close>

fun timeline :: "'n input_file \<Rightarrow> bool \<Rightarrow> bool \<Rightarrow> int list \<Rightarrow> nat list \<Rightarrow> int \<Rightarrow> int list" where
  "timeline f erase keep xs [] prev = []"
| "timeline f erase keep [] (k # ks) prev = timeline f erase keep [] ks prev"
| "timeline f erase keep (x # xs) (k # ks) prev =
    (let start = pass_start f erase keep k x prev;
         ys = start # map (\<lambda>y. saturating_add_i64 (saturating_sub_i64 y x) start) xs
     in ys @ timeline f erase keep (x # xs) ks (ys ! length xs))"

lemma make_items_ok:
  assumes "\<forall>g \<in> set gs. g < length jitter"
  shows "\<exists>items w'. make_items rewrite jitter packet gs w = TOk (items, w') \<and>
    map pr_timestamp items = map (\<lambda>g. saturating_add_i64 (pr_timestamp packet) (jitter ! g)) gs"
  using assms
proof (induction gs arbitrary: w)
  case (Cons g gs)
  obtain d w1 where w: "rewrite g (packet\<lparr>pr_timestamp := saturating_add_i64 (pr_timestamp packet) (jitter ! g)\<rparr>) w = (d, w1)"
    by fastforce
  obtain items w2 where "make_items rewrite jitter packet gs w1 = TOk (items, w2)"
    "map pr_timestamp items = map (\<lambda>g. saturating_add_i64 (pr_timestamp packet) (jitter ! g)) gs"
    using Cons.IH [of w1] Cons.prems by auto
  then show ?case using Cons.prems w by (simp add: byte_at_def Let_def)
qed simp

text \<open>What does not change while a reader plays.\<close>

definition same_setup :: "('n, 'w) packet_reader \<Rightarrow> ('n, 'w) packet_reader \<Rightarrow> bool" where
  "same_setup p q =
    (pk_file q = pk_file p \<and> pk_erase_timestamp q = pk_erase_timestamp p \<and>
     pk_keep_subsecond q = pk_keep_subsecond p \<and> pk_repeat_interval q = pk_repeat_interval p \<and>
     pk_parallel q = pk_parallel p \<and> pk_jitter q = pk_jitter p)"

definition stamps :: "('n, 'w) packet_reader \<Rightarrow> int list \<Rightarrow> int list list" where
  "stamps p ts = map (\<lambda>t. map (saturating_add_i64 t) (pk_jitter p)) ts"

definition prefixed :: "'a list \<Rightarrow> 'a list tool_result option \<Rightarrow> 'a list tool_result option" where
  "prefixed xs r = (case r of Some (TOk ys) \<Rightarrow> Some (TOk (xs @ ys)) | r \<Rightarrow> r)"

lemma prefixed_simps [simp]:
  "prefixed [] r = r" "prefixed xs (Some (TOk ys)) = Some (TOk (xs @ ys))"
  "prefixed xs (prefixed ys r) = prefixed (xs @ ys) r"
  by (auto simp: prefixed_def split: option.split tool_result.split)

lemma reader_run_yield:
  "reader_next rewrite open_file p = Some (TOk (p', Some b)) \<Longrightarrow>
    reader_run (Suc n) rewrite open_file p = prefixed [b] (reader_run n rewrite open_file p')"
  by (auto simp: prefixed_def split: option.split tool_result.split)

lemma reader_run_cong:
  "reader_next rewrite open_file p = reader_next rewrite open_file q \<Longrightarrow>
    reader_run n rewrite open_file p = reader_run n rewrite open_file q"
  by (cases n) simp_all

lemma reader_next_packet:
  assumes "sniffed_next_packet (pk_reader p) = (r, COk (Some x))"
    and "reader_yield rewrite (p\<lparr>pk_reader := r\<rparr>) x = TOk (q, items)"
  shows "reader_next rewrite open_file p = Some (TOk (q, Some items))"
  using assms by (simp add: reader_next.simps [of rewrite open_file p])

lemma yield_next:
  assumes "pk_first p = Some first" and "pk_original_first p = Some original"
    and "length (pk_jitter p) = pk_parallel p"
    and "t = saturating_add_i64 (saturating_sub_i64 (pr_timestamp x) original) first"
  shows "\<exists>items w. reader_yield rewrite p x = TOk (p\<lparr>pk_last := t, pk_rewriter := w\<rparr>, items) \<and>
    map pr_timestamp items = map (saturating_add_i64 t) (pk_jitter p)"
proof -
  have "\<forall>g \<in> set [0..<pk_parallel p]. g < length (pk_jitter p)" using assms(3) by simp
  from make_items_ok [OF this, of rewrite "x\<lparr>pr_timestamp := t\<rparr>" "pk_rewriter p"]
  obtain items w where i: "make_items rewrite (pk_jitter p) (x\<lparr>pr_timestamp := t\<rparr>) [0..<pk_parallel p] (pk_rewriter p) = TOk (items, w)"
    "map pr_timestamp items = map (\<lambda>g. saturating_add_i64 t (pk_jitter p ! g)) [0..<pk_parallel p]"
    by auto
  have "map (\<lambda>g. saturating_add_i64 t (pk_jitter p ! g)) [0..<pk_parallel p] = map (saturating_add_i64 t) (pk_jitter p)"
    using assms(3) by (intro nth_equalityI) simp_all
  then show ?thesis
    using assms i by (intro exI [of _ items] exI [of _ w]) (simp add: reader_yield_def Let_def)
qed

lemma same_setup_refl [simp]: "same_setup p p"
  by (simp add: same_setup_def)

lemma same_setup_trans: "same_setup p q \<Longrightarrow> same_setup q r \<Longrightarrow> same_setup p r"
  by (simp add: same_setup_def)

lemma stamps_same: "same_setup p q \<Longrightarrow> stamps q ts = stamps p ts"
  by (simp add: stamps_def same_setup_def)

lemma drain_Some_cases:
  assumes "drain n nxt r = (xs, Some (COk ()))"
  shows "(\<exists>r'. nxt r = (r', COk None) \<and> xs = []) \<or>
    (\<exists>r' x ys m. nxt r = (r', COk (Some x)) \<and> xs = x # ys \<and> drain m nxt r' = (ys, Some (COk ())))"
proof (cases n)
  case 0
  then show ?thesis using assms by simp
next
  case (Suc m)
  obtain r' y where y: "nxt r = (r', y)" by fastforce
  then show ?thesis
    using assms Suc by (cases y) (auto split: option.splits prod.splits)
qed

text \<open>The rest of a pass.\<close>

lemma run_pass:
  assumes "drain n sniffed_next_packet (pk_reader p) = (xs, Some (COk ()))"
    and "pk_first p = Some first" and "pk_original_first p = Some original"
    and "length (pk_jitter p) = pk_parallel p"
  shows "\<exists>bs q r. (\<forall>m. reader_run (length xs + m) rewrite open_file p = prefixed bs (reader_run m rewrite open_file q)) \<and>
    sniffed_next_packet (pk_reader q) = (r, COk None) \<and> same_setup p q \<and>
    pk_current q = pk_current p \<and>
    (let ts = map (\<lambda>y. saturating_add_i64 (saturating_sub_i64 (pr_timestamp y) original) first) xs in
     map (map pr_timestamp) bs = stamps p ts \<and> pk_last q = last (pk_last p # ts))"
  using assms
proof (induction xs arbitrary: n p)
  case Nil
  then show ?case using drain_Some_cases [OF Nil.prems(1)] by (auto intro!: exI [of _ "[]"] exI [of _ p] simp: stamps_def)
next
  case (Cons x xs)
  obtain r m where r: "sniffed_next_packet (pk_reader p) = (r, COk (Some x))"
    "drain m sniffed_next_packet r = (xs, Some (COk ()))"
    using drain_Some_cases [OF Cons.prems(1)] by auto
  let ?t = "saturating_add_i64 (saturating_sub_i64 (pr_timestamp x) original) first"
  obtain items w where i: "reader_yield rewrite (p\<lparr>pk_reader := r\<rparr>) x = TOk (p\<lparr>pk_reader := r, pk_last := ?t, pk_rewriter := w\<rparr>, items)"
    "map pr_timestamp items = map (saturating_add_i64 ?t) (pk_jitter p)"
    using yield_next [of "p\<lparr>pk_reader := r\<rparr>" first original ?t x rewrite] Cons.prems by auto
  let ?p = "p\<lparr>pk_reader := r, pk_last := ?t, pk_rewriter := w\<rparr>"
  have nxt: "reader_next rewrite open_file p = Some (TOk (?p, Some items))"
    using reader_next_packet [OF r(1) i(1)] by simp
  obtain bs q r' where q:
    "\<forall>m. reader_run (length xs + m) rewrite open_file ?p = prefixed bs (reader_run m rewrite open_file q)"
    "sniffed_next_packet (pk_reader q) = (r', COk None)" "same_setup ?p q" "pk_current q = pk_current ?p"
    "let ts = map (\<lambda>y. saturating_add_i64 (saturating_sub_i64 (pr_timestamp y) original) first) xs in
     map (map pr_timestamp) bs = stamps ?p ts \<and> pk_last q = last (pk_last ?p # ts)"
    using Cons.IH [of m ?p] r(2) Cons.prems by auto
  have "reader_run (length (x # xs) + m) rewrite open_file p = prefixed (items # bs) (reader_run m rewrite open_file q)" for m
    using reader_run_yield [OF nxt, of "length xs + m"] q(1) by simp
  moreover have "same_setup p q" using q(3) by (simp add: same_setup_def)
  ultimately show ?case
    using q i(2) by (intro exI [of _ "items # bs"] exI [of _ q] exI [of _ r']) (simp add: stamps_def Let_def)
qed

text \<open>A reader that is set up as the tool sets it up, within its passes.\<close>

definition passes :: "'n input_file \<Rightarrow> nat" where
  "passes f = length (start_time f) * repeat_count f"

definition ready :: "('n, 'w) packet_reader \<Rightarrow> bool" where
  "ready p =
    (0 < repeat_count (pk_file p) \<and> pk_repeat_interval p = repeat_interval_ns (pk_file p) \<and>
     length (pk_jitter p) = pk_parallel p)"

lemma ready_same: "same_setup p q \<Longrightarrow> ready p \<Longrightarrow> ready q"
  by (simp add: ready_def same_setup_def)

abbreviation pass_start_of :: "('n, 'w) packet_reader \<Rightarrow> int \<Rightarrow> int" where
  "pass_start_of p x \<equiv>
    pass_start (pk_file p) (pk_erase_timestamp p) (pk_keep_subsecond p) (pk_current p) x (pk_last p)"

lemma first_timestamp_ok:
  assumes "ready p" and "pk_current p < passes (pk_file p)"
  shows "first_timestamp p x = TOk (pass_start_of p x)"
proof -
  have "pk_current p div repeat_count (pk_file p) < length (start_time (pk_file p))"
    using assms by (simp add: ready_def passes_def less_mult_imp_div_less)
  then show ?thesis
    using assms(1) by (auto simp: first_timestamp_def pass_start_def ready_def Let_def byte_at_def)
qed

lemma yield_first:
  assumes "pk_first p = None" and "ready p" and "pk_current p < passes (pk_file p)"
    and "t = pass_start_of p (pr_timestamp x)"
  shows "\<exists>items w. reader_yield rewrite p x =
      TOk (p\<lparr>pk_original_first := Some (pr_timestamp x), pk_first := Some t, pk_last := t, pk_rewriter := w\<rparr>, items) \<and>
    map pr_timestamp items = map (saturating_add_i64 t) (pk_jitter p)"
proof -
  have len: "length (pk_jitter p) = pk_parallel p" using assms(2) by (simp add: ready_def)
  then have "\<forall>g \<in> set [0..<pk_parallel p]. g < length (pk_jitter p)" by simp
  from make_items_ok [OF this, of rewrite "x\<lparr>pr_timestamp := t\<rparr>" "pk_rewriter p"]
  obtain items w where i: "make_items rewrite (pk_jitter p) (x\<lparr>pr_timestamp := t\<rparr>) [0..<pk_parallel p] (pk_rewriter p) = TOk (items, w)"
    "map pr_timestamp items = map (\<lambda>g. saturating_add_i64 t (pk_jitter p ! g)) [0..<pk_parallel p]"
    by auto
  have "map (\<lambda>g. saturating_add_i64 t (pk_jitter p ! g)) [0..<pk_parallel p] = map (saturating_add_i64 t) (pk_jitter p)"
    using len by (intro nth_equalityI) simp_all
  then show ?thesis
    using assms i first_timestamp_ok [OF assms(2,3)]
    by (intro exI [of _ items] exI [of _ w]) (simp add: reader_yield_def Let_def)
qed

lemma end_of_pass:
  assumes "sniffed_next_packet (pk_reader q) = (r, COk None)"
  shows "pk_current q + 1 = passes (pk_file q) \<Longrightarrow> reader_run (Suc m) rewrite (COk r0) q = Some (TOk [])"
    and "pk_current q + 1 \<noteq> passes (pk_file q) \<Longrightarrow>
      reader_run m rewrite (COk r0) q =
      reader_run m rewrite (COk r0) (q\<lparr>pk_current := pk_current q + 1, pk_reader := r0, pk_first := None\<rparr>)"
proof -
  show "reader_run (Suc m) rewrite (COk r0) q = Some (TOk [])" if "pk_current q + 1 = passes (pk_file q)"
    using assms that by (simp add: reader_next.simps [of rewrite "COk r0" q] passes_def Let_def)
  show "reader_run m rewrite (COk r0) q =
      reader_run m rewrite (COk r0) (q\<lparr>pk_current := pk_current q + 1, pk_reader := r0, pk_first := None\<rparr>)"
    if "pk_current q + 1 \<noteq> passes (pk_file q)"
    using assms that
    by (intro reader_run_cong) (simp add: reader_next.simps [of rewrite "COk r0" q] passes_def Let_def)
qed

text \<open>One whole pass.\<close>

definition pass_stamps :: "('n, 'w) packet_reader \<Rightarrow> int list \<Rightarrow> int list" where
  "pass_stamps p xs =
    (case xs of [] \<Rightarrow> []
     | x # ys \<Rightarrow> pass_start_of p x #
         map (\<lambda>y. saturating_add_i64 (saturating_sub_i64 y x) (pass_start_of p x)) ys)"

lemma run_whole_pass:
  assumes "drain n sniffed_next_packet (pk_reader p) = (xs, Some (COk ()))"
    and "pk_first p = None" and "ready p" and "pk_current p < passes (pk_file p)"
  shows "\<exists>bs q r. (\<forall>m. reader_run (length xs + m) rewrite open_file p = prefixed bs (reader_run m rewrite open_file q)) \<and>
    sniffed_next_packet (pk_reader q) = (r, COk None) \<and> same_setup p q \<and> pk_current q = pk_current p \<and>
    map (map pr_timestamp) bs = stamps p (pass_stamps p (map pr_timestamp xs)) \<and>
    pk_last q = last (pk_last p # pass_stamps p (map pr_timestamp xs))"
proof (cases xs)
  case Nil
  then show ?thesis
    using drain_Some_cases [OF assms(1)]
    by (auto intro!: exI [of _ "[]"] exI [of _ p] simp: stamps_def pass_stamps_def)
next
  case (Cons x ys)
  obtain r m where r: "sniffed_next_packet (pk_reader p) = (r, COk (Some x))"
    "drain m sniffed_next_packet r = (ys, Some (COk ()))"
    using drain_Some_cases [OF assms(1)] Cons by auto
  let ?t = "pass_start_of p (pr_timestamp x)"
  obtain items w where i: "reader_yield rewrite (p\<lparr>pk_reader := r\<rparr>) x =
      TOk (p\<lparr>pk_reader := r, pk_original_first := Some (pr_timestamp x), pk_first := Some ?t, pk_last := ?t,
        pk_rewriter := w\<rparr>, items)"
    "map pr_timestamp items = map (saturating_add_i64 ?t) (pk_jitter p)"
    using yield_first [of "p\<lparr>pk_reader := r\<rparr>" ?t x rewrite] assms by (auto simp: ready_def)
  let ?p = "p\<lparr>pk_reader := r, pk_original_first := Some (pr_timestamp x), pk_first := Some ?t, pk_last := ?t,
        pk_rewriter := w\<rparr>"
  have nxt: "reader_next rewrite open_file p = Some (TOk (?p, Some items))"
    using reader_next_packet [OF r(1) i(1)] by simp
  obtain bs q r' where q:
    "\<forall>m. reader_run (length ys + m) rewrite open_file ?p = prefixed bs (reader_run m rewrite open_file q)"
    "sniffed_next_packet (pk_reader q) = (r', COk None)" "same_setup ?p q" "pk_current q = pk_current ?p"
    "let ts = map (\<lambda>y. saturating_add_i64 (saturating_sub_i64 (pr_timestamp y) (pr_timestamp x)) ?t) ys in
     map (map pr_timestamp) bs = stamps ?p ts \<and> pk_last q = last (pk_last ?p # ts)"
    using run_pass [of m ?p ys ?t "pr_timestamp x" rewrite open_file] r(2) assms(3) by (auto simp: ready_def)
  have "reader_run (length xs + m) rewrite open_file p = prefixed (items # bs) (reader_run m rewrite open_file q)" for m
    using reader_run_yield [OF nxt, of "length ys + m"] q(1) Cons by simp
  moreover have "same_setup p q" using q(3) by (simp add: same_setup_def)
  ultimately show ?thesis
    using q i(2) Cons
    by (intro exI [of _ "items # bs"] exI [of _ q] exI [of _ r']) (simp add: stamps_def pass_stamps_def Let_def comp_def)
qed

lemma stamps_append: "stamps p (xs @ ys) = stamps p xs @ stamps p ys"
  by (simp add: stamps_def)

lemma timeline_step:
  "timeline f erase keep xs (k # ks) prev =
    (let ts = (case xs of [] \<Rightarrow> []
       | x # ys \<Rightarrow> pass_start f erase keep k x prev #
           map (\<lambda>y. saturating_add_i64 (saturating_sub_i64 y x) (pass_start f erase keep k x prev)) ys)
     in ts @ timeline f erase keep xs ks (last (prev # ts)))"
  by (cases xs) (simp_all add: Let_def last_conv_nth)

lemma run_passes:
  assumes "drain n sniffed_next_packet r0 = (xs, Some (COk ()))"
    and "pk_reader p = r0" and "pk_first p = None" and "ready p" and "pk_current p < passes (pk_file p)"
  shows "\<exists>m bs. reader_run m rewrite (COk r0) p = Some (TOk bs) \<and>
    map (map pr_timestamp) bs = stamps p (timeline (pk_file p) (pk_erase_timestamp p) (pk_keep_subsecond p)
      (map pr_timestamp xs) [pk_current p..<passes (pk_file p)] (pk_last p))"
  using assms(2-)
proof (induction "passes (pk_file p) - pk_current p" arbitrary: p rule: less_induct)
  case less
  obtain bs q r where q:
    "\<forall>m. reader_run (length xs + m) rewrite (COk r0) p = prefixed bs (reader_run m rewrite (COk r0) q)"
    "sniffed_next_packet (pk_reader q) = (r, COk None)" "same_setup p q" "pk_current q = pk_current p"
    "map (map pr_timestamp) bs = stamps p (pass_stamps p (map pr_timestamp xs))"
    "pk_last q = last (pk_last p # pass_stamps p (map pr_timestamp xs))"
    using run_whole_pass [of n p xs rewrite "COk r0"] assms(1) less.prems by auto
  have same_file: "pk_file q = pk_file p" using q(3) by (simp add: same_setup_def)
  let ?tl = "\<lambda>ks. timeline (pk_file p) (pk_erase_timestamp p) (pk_keep_subsecond p) (map pr_timestamp xs) ks"
  have step: "?tl [pk_current p..<passes (pk_file p)] (pk_last p) =
      pass_stamps p (map pr_timestamp xs) @ ?tl [Suc (pk_current p)..<passes (pk_file p)] (pk_last q)"
    using less.prems(4) q(6) by (simp add: upt_conv_Cons timeline_step pass_stamps_def Let_def)
  show ?case
  proof (cases "pk_current q + 1 = passes (pk_file q)")
    case True
    then have "reader_run (length xs + Suc 0) rewrite (COk r0) p = Some (TOk bs)"
      unfolding spec [OF q(1), of "Suc 0"] end_of_pass(1) [OF q(2) True] by simp
    moreover have "[Suc (pk_current p)..<passes (pk_file p)] = []" using True q(4) same_file by simp
    ultimately show ?thesis using q(5) step by (metis append_Nil2 timeline.simps(1))
  next
    case False
    let ?q = "q\<lparr>pk_current := pk_current q + 1, pk_reader := r0, pk_first := None\<rparr>"
    have "ready ?q" using ready_same [OF q(3) less.prems(3)] by (simp add: ready_def)
    moreover have "passes (pk_file ?q) - pk_current ?q < passes (pk_file p) - pk_current p"
      using less.prems(4) q(4) same_file by (simp add: diff_less_mono2)
    moreover have "pk_current ?q < passes (pk_file ?q)" using less.prems(4) False q(4) same_file by simp
    ultimately obtain m bs' where m: "reader_run m rewrite (COk r0) ?q = Some (TOk bs')"
      "map (map pr_timestamp) bs' = stamps ?q (timeline (pk_file ?q) (pk_erase_timestamp ?q) (pk_keep_subsecond ?q)
        (map pr_timestamp xs) [pk_current ?q..<passes (pk_file ?q)] (pk_last ?q))"
      using less.hyps [of ?q] by auto
    have "reader_run (length xs + m) rewrite (COk r0) p = Some (TOk (bs @ bs'))"
      using q(1) end_of_pass(2) [OF q(2) False, of m rewrite r0] m(1) by simp
    moreover have "map (map pr_timestamp) (bs @ bs') = stamps p (?tl [pk_current p..<passes (pk_file p)] (pk_last p))"
      using q(3,4,5) m(2) step by (simp add: stamps_append) (simp add: same_setup_def stamps_def)
    ultimately show ?thesis by blast
  qed
qed

lemma draw_jitter_length [simp]: "length (draw_jitter random_range jitter_ns gs rng) = length gs"
  by (induction gs arbitrary: rng) (auto split: prod.split)

lemma validate_ready:
  assumes "validate N f = None"
  shows "0 < repeat_count f" and "0 < length (start_time f)" and "0 < parallel f"
  using assms
  by (auto simp: validate_def first_error_None repeat_count_def start_time_def parallel_def unwrap_or_def
      split: option.splits)

lemma run_timeline:
  assumes "validate N f = None" and "drain n sniffed_next_packet r0 = (xs, Some (COk ()))"
  shows "\<exists>m bs. reader_run m rewrite (COk r0) (packet_reader_new random_range rng f args r0 w) = Some (TOk bs) \<and>
    map (map pr_timestamp) bs =
      map (\<lambda>t. map (saturating_add_i64 t)
          (draw_jitter random_range (parallel_jitter_ns f) [0..<parallel f] rng))
        (timeline f (unwrap_or False (ma_erase_timestamp args)) (unwrap_or False (ma_keep_subsecond args))
          (map pr_timestamp xs) [0..<passes f] 0)"
proof -
  let ?p = "packet_reader_new random_range rng f args r0 w"
  have "ready ?p" using validate_ready [OF assms(1)] by (simp add: ready_def packet_reader_new_def)
  moreover have "pk_current ?p < passes (pk_file ?p)"
    using validate_ready [OF assms(1)] by (simp add: packet_reader_new_def passes_def)
  ultimately show ?thesis
    using run_passes [of n r0 xs ?p rewrite] assms(2) by (simp add: packet_reader_new_def stamps_def)
qed


text \<open>A capture of one packet, played twice.\<close>

definition one_packet_reader :: sniffed_reader where
  "one_packet_reader = StreamPcap
    \<lparr>pr_header = \<lparr>ph_magic_number = 0xD4C3B2A1, ph_major_version = 2, ph_minor_version = 4,
       ph_reserved_1 = 0, ph_reserved_2 = 0, ph_snap_len = 65535, ph_additional_info_link_type = 1\<rparr>,
     pr_big_endian = False, pr_nanosecond = False,
     pr_source = [5, 0, 0, 0, 0, 0, 0, 0, 0, 0, 0, 0, 0, 0, 0, 0]\<rparr>"

lemma one_packet_next:
  "\<exists>x r. sniffed_next_packet one_packet_reader = (r, COk (Some x)) \<and> pr_timestamp x = 5000000000 \<and>
    sniffed_next_packet r = (r, COk None)"
  by (simp add: one_packet_reader_def pcap_reader_next_packet_def pcap_read_packet_raw_def slice_def
      read_exact_def pcap_packet_header_parse_def magic_endian_def pcap_endian_def pcap_is_big_endian_def
      magic_defs read_u32_def read_int_def be_nat_def pcap_to_packet_def pcap_is_nanosecond_def)

lemma one_packet_drain:
  "\<exists>x. drain 2 sniffed_next_packet one_packet_reader = ([x], Some (COk ())) \<and> pr_timestamp x = 5000000000"
  using one_packet_next by (auto simp: numeral_2_eq_2)

definition twice :: "(ip_addr \<times> nat) input_file" where
  "twice = input_file_default\<lparr>if_repeat := Some 2\<rparr>"

definition no_args :: merge_args where
  "no_args = \<lparr>ma_erase_timestamp = None, ma_snap_len = None, ma_nanosecond = None,
    ma_keep_subsecond = None, ma_batch_size = None, ma_seed = None, ma_fix_checksum = None\<rparr>"

lemmas twice_simps = twice_def no_args_def input_file_default_def validate_def first_error_None unwrap_or_def
  bail_if_def start_time_def repeat_count_def parallel_def parallel_jitter_ns_def repeat_interval_ns_def exceeds_def
  ip_map_def src_ip_map_def dst_ip_map_def passes_def pass_start_def saturating_add_i64_def saturate_i64_def
  wrap_i64_def

lemma twice_valid: "validate std_nets twice = None"
  by (simp add: twice_simps)


section \<open>Readers and the merge\<close>

lemma saturate_range: "- (2 ^ 63) \<le> saturate_i64 x" "saturate_i64 x \<le> 2 ^ 63 - 1"
  by (auto simp: saturate_i64_def)

lemma saturate_id: "- (2 ^ 63) \<le> x \<Longrightarrow> x \<le> 2 ^ 63 - 1 \<Longrightarrow> saturate_i64 x = x"
  by (auto simp: saturate_i64_def)

lemma saturate_mono: "x \<le> y \<Longrightarrow> saturate_i64 x \<le> saturate_i64 y"
  by (auto simp: saturate_i64_def)

lemma saturating_add_ge: "0 \<le> d \<Longrightarrow> f \<le> 2 ^ 63 - 1 \<Longrightarrow> f \<le> saturating_add_i64 f d"
  by (auto simp: saturating_add_i64_def saturate_i64_def)

definition i32_starts :: "'n input_file \<Rightarrow> bool" where
  "i32_starts f = (\<forall>t \<in> set (start_time f). - (2 ^ 31) \<le> t \<and> t < 2 ^ 31)"

lemma pass_start_range:
  assumes "i32_starts f" and "k < passes f" and "0 < repeat_count f"
  shows "- (2 ^ 63) \<le> pass_start f erase keep k x prev \<and> pass_start f erase keep k x prev \<le> 2 ^ 63 - 1"
proof -
  have "k div repeat_count f < length (start_time f)"
    using assms(2,3) by (simp add: passes_def less_mult_imp_div_less)
  then have "- (2 ^ 31) \<le> start_time f ! (k div repeat_count f)" "start_time f ! (k div repeat_count f) < 2 ^ 31"
    using assms(1) by (auto simp: i32_starts_def)
  then show ?thesis
    using saturate_range by (auto simp: pass_start_def Let_def saturating_add_i64_def)
qed

lemma sorted_pass:
  assumes "sorted (x # xs)" and "start \<le> 2 ^ 63 - 1"
  shows "sorted (start # map (\<lambda>y. saturating_add_i64 (saturating_sub_i64 y x) start) xs)"
proof -
  have "start \<le> saturating_add_i64 (saturating_sub_i64 y x) start" if "x \<le> y" for y
    using that assms(2) saturating_add_ge [of "saturating_sub_i64 y x" start]
    by (simp add: saturating_add_i64_def saturating_sub_i64_def saturate_i64_def add.commute)
  moreover have "saturating_add_i64 (saturating_sub_i64 y x) start \<le> saturating_add_i64 (saturating_sub_i64 z x) start"
    if "y \<le> z" for y z
    using that by (simp add: saturating_add_i64_def saturating_sub_i64_def saturate_mono)
  ultimately show ?thesis using assms(1) by (auto simp: sorted_map sorted_wrt_map intro: sorted_wrt_mono_rel)
qed

lemma sorted_le_last: "sorted xs \<Longrightarrow> t \<in> set xs \<Longrightarrow> t \<le> last (xs :: int list)"
  by (induction xs) auto

text \<open>The repeats of one start time.\<close>

lemma timeline_sorted_aux:
  assumes "0 \<le> repeat_interval_ns f" and "sorted xs" and "\<forall>k \<in> set ks. \<not> repeat_count f dvd k"
    and "prev \<le> 2 ^ 63 - 1"
  shows "sorted (timeline f erase keep xs ks prev) \<and>
    (\<forall>t \<in> set (timeline f erase keep xs ks prev). prev \<le> t)"
  using assms
proof (induction f erase keep xs ks prev rule: timeline.induct)
  case (3 f erase keep x xs k ks prev)
  let ?s = "pass_start f erase keep k x prev"
  let ?ys = "?s # map (\<lambda>y. saturating_add_i64 (saturating_sub_i64 y x) ?s) xs"
  have s: "?s = saturating_add_i64 prev (repeat_interval_ns f)"
    using "3.prems"(3) by (simp add: pass_start_def)
  have le: "prev \<le> ?s" unfolding s using "3.prems"(1,4) by (rule saturating_add_ge)
  have max: "?s \<le> 2 ^ 63 - 1" unfolding s saturating_add_i64_def by (rule saturate_range)
  have srt: "sorted ?ys" using "3.prems"(2) max by (rule sorted_pass)
  have last: "?ys ! length xs = last ?ys" by (simp add: last_conv_nth)
  have "last ?ys \<le> 2 ^ 63 - 1"
    using max saturate_range by (cases xs rule: rev_cases) (simp_all add: saturating_add_i64_def)
  then have IH: "sorted (timeline f erase keep (x # xs) ks (last ?ys))"
    "\<forall>t \<in> set (timeline f erase keep (x # xs) ks (last ?ys)). last ?ys \<le> t"
    using "3.IH" [OF refl refl] "3.prems" last by simp_all
  have "\<forall>t \<in> set ?ys. t \<le> last ?ys"
    using sorted_le_last [OF srt] by blast
  moreover have "\<forall>t \<in> set ?ys. ?s \<le> t" using srt by simp
  ultimately have "sorted (?ys @ timeline f erase keep (x # xs) ks (last ?ys))"
    "\<forall>t \<in> set (?ys @ timeline f erase keep (x # xs) ks (last ?ys)). ?s \<le> t"
    using srt IH by (simp_all only: sorted_append) (auto intro: order_trans)+
  then show ?case using le unfolding timeline.simps Let_def last by (auto intro: order_trans)
qed simp_all

lemma timeline_sorted:
  assumes "validate N f = None" and "length (start_time f) = 1" and "i32_starts f" and "sorted xs"
  shows "sorted (timeline f erase keep xs [0..<passes f] prev)"
proof (cases xs)
  case Nil
  have "timeline f erase keep [] ks prev = []" for ks prev by (induction ks) simp_all
  then show ?thesis using Nil by simp
next
  case (Cons x ys)
  have rep: "0 < repeat_count f" "passes f = repeat_count f"
    using validate_ready [OF assms(1)] assms(2) by (simp_all add: passes_def)
  have interval: "0 \<le> repeat_interval_ns f"
    using assms(1)
    by (auto simp: validate_def first_error_None repeat_interval_ns_def unwrap_or_def exceeds_def wrap_i64_id
        in_i64_def split: option.splits)
  let ?s = "pass_start f erase keep 0 x prev"
  let ?ys = "?s # map (\<lambda>y. saturating_add_i64 (saturating_sub_i64 y x) ?s) ys"
  have max: "?s \<le> 2 ^ 63 - 1"
    using pass_start_range [OF assms(3) _ rep(1), of 0] rep by simp
  have srt: "sorted ?ys" using assms(4) max unfolding Cons by (rule sorted_pass)
  have last: "?ys ! length ys = last ?ys" by (simp add: last_conv_nth)
  have "last ?ys \<le> 2 ^ 63 - 1"
    using max saturate_range by (cases ys rule: rev_cases) (simp_all add: saturating_add_i64_def)
  moreover have "\<forall>k \<in> set [1..<repeat_count f]. \<not> repeat_count f dvd k"
    by (auto dest: dvd_imp_le)
  ultimately have "sorted (timeline f erase keep xs [1..<repeat_count f] (last ?ys)) \<and>
    (\<forall>t \<in> set (timeline f erase keep xs [1..<repeat_count f] (last ?ys)). last ?ys \<le> t)"
    by (intro timeline_sorted_aux [OF interval assms(4)])
  note rest = conjunct1 [OF this] conjunct2 [OF this]
  have "[0..<passes f] = 0 # [1..<repeat_count f]" using rep by (simp add: upt_conv_Cons)
  then have "timeline f erase keep xs [0..<passes f] prev = ?ys @ timeline f erase keep xs [1..<repeat_count f] (last ?ys)"
    using last unfolding Cons by (simp only: timeline.simps Let_def)
  moreover have "sorted (?ys @ timeline f erase keep xs [1..<repeat_count f] (last ?ys))"
  proof -
    have "a \<le> b" if "a \<in> set ?ys" "b \<in> set (timeline f erase keep xs [1..<repeat_count f] (last ?ys))" for a b
      using sorted_le_last [OF srt that(1)] bspec [OF rest(2) that(2)] by (rule order_trans)
    then show ?thesis using srt rest(1) unfolding sorted_append by blast
  qed
  ultimately show ?thesis by (simp only:)
qed

context random_source
begin

lemma jitter_nonneg:
  assumes "jitter_ns \<le> 2 ^ 63 - 1"
  shows "\<forall>j \<in> set (draw_jitter random_range jitter_ns gs rng). 0 \<le> j"
proof (induction gs arbitrary: rng)
  case (Cons g gs)
  obtain x rng' where x: "random_range 0 jitter_ns rng = (x, rng')" by fastforce
  have "0 \<le> wrap_i64 (int x)" if "jitter_ns \<noteq> 0"
    using in_range [OF _ x] that assms by (simp add: wrap_i64_id in_i64_def)
  then show ?case using Cons x by simp
qed simp

end

text \<open>The batches of a reader as the stream the merge reads.\<close>

definition reader_stream :: "packet_record list list \<Rightarrow> (i64 \<times> packet_record) list list" where
  "reader_stream bs = map (map (\<lambda>p. (i64_of (pr_timestamp p), p))) bs"

definition single_start_stream ::
    "'n ipnet \<Rightarrow> (nat \<Rightarrow> nat \<Rightarrow> 'r \<Rightarrow> nat \<times> 'r) \<Rightarrow> (nat \<Rightarrow> packet_record \<Rightarrow> 'w \<Rightarrow> bytes \<times> 'w) \<Rightarrow>
     (i64 \<times> packet_record) list list \<Rightarrow> bool" where
  "single_start_stream N random_range rewrite s =
    (\<exists>f args rng w r0 n xs m bs. validate N f = None \<and> length (start_time f) = 1 \<and> i32_starts f \<and>
       drain n sniffed_next_packet r0 = (xs, Some (COk ())) \<and> sorted (map pr_timestamp xs) \<and>
       reader_run m rewrite (COk r0) (packet_reader_new random_range rng f args r0 w) = Some (TOk bs) \<and>
       s = reader_stream bs)"

lemma reader_run_unique:
  "reader_run m rewrite open_file p = Some a \<Longrightarrow> reader_run n rewrite open_file p = Some b \<Longrightarrow> a = b"
proof (induction m arbitrary: n p a b)
  case (Suc m)
  then obtain k where n: "n = Suc k" by (cases n) auto
  show ?case
  proof (cases "\<exists>p' batch. reader_next rewrite open_file p = Some (TOk (p', Some batch))")
    case True
    then obtain p' batch where y: "reader_next rewrite open_file p = Some (TOk (p', Some batch))" by blast
    have pre: "prefixed [batch] (reader_run m rewrite open_file p') = Some a"
      "prefixed [batch] (reader_run k rewrite open_file p') = Some b"
      using Suc.prems unfolding n reader_run_yield [OF y] by simp_all
    then obtain a' b' where "reader_run m rewrite open_file p' = Some a'" "reader_run k rewrite open_file p' = Some b'"
      by (auto simp: prefixed_def split: option.splits)
    then show ?thesis using Suc.IH pre by force
  next
    case False
    then show ?thesis
      using Suc.prems n by (auto split: option.splits tool_result.splits prod.splits)
  qed
qed simp

lemma timeline_range:
  assumes "i32_starts f" and "0 < repeat_count f" and "\<forall>k \<in> set ks. k < passes f"
  shows "t \<in> set (timeline f erase keep xs ks prev) \<Longrightarrow> - (2 ^ 63) \<le> t \<and> t \<le> 2 ^ 63 - 1"
  using assms
proof (induction f erase keep xs ks prev rule: timeline.induct)
  case (3 f erase keep x xs k ks prev)
  then show ?case
    using pass_start_range [of f k erase keep x prev] saturate_range
    by (auto simp: Let_def saturating_add_i64_def)
qed simp_all

lemma i64_of_mono: "- (2 ^ 63) \<le> x \<Longrightarrow> x \<le> 2 ^ 63 - 1 \<Longrightarrow> - (2 ^ 63) \<le> y \<Longrightarrow> y \<le> 2 ^ 63 - 1 \<Longrightarrow>
    i64_of x \<le> i64_of y \<longleftrightarrow> x \<le> y"
  by (simp add: wrap_i64_id in_i64_def)

lemma batch_min_ge: "\<forall>y \<in> set b. t \<le> fst y \<Longrightarrow> t \<le> batch_min b"
  by (induction b) (auto simp: batch_min_def)

lemma batch_min_head: "\<forall>y \<in> set b. fst x \<le> fst y \<Longrightarrow> batch_min (x # b) = fst x"
  using batch_min_ge [of b "fst x"] by (simp add: batch_min_def min_def)

lemma draw_jitter_first: "draw_jitter random_range j (0 # gs) rng = 0 # draw_jitter random_range j gs rng"
  by simp

text \<open>The batches of one timestamp.\<close>

lemma batch_of_stamps:
  assumes "map pr_timestamp b = map (saturating_add_i64 t) (0 # js)" and "\<forall>j \<in> set js. 0 \<le> j"
    and "- (2 ^ 63) \<le> t" and "t \<le> 2 ^ 63 - 1"
  shows "b \<noteq> [] \<and> batch_min (map (\<lambda>p. (i64_of (pr_timestamp p), p)) b) = i64_of t"
proof -
  obtain p ps where b: "b = p # ps" "pr_timestamp p = t" "map pr_timestamp ps = map (saturating_add_i64 t) js"
    using assms(1,3,4) by (cases b) (auto simp: saturating_add_i64_def saturate_id)
  have "i64_of t \<le> i64_of (pr_timestamp q)" if "q \<in> set ps" for q
  proof -
    have "pr_timestamp q \<in> set (map (saturating_add_i64 t) js)" using that b(3) by (metis image_eqI set_map)
    then obtain j where j: "j \<in> set js" "pr_timestamp q = saturating_add_i64 t j" by auto
    have "t \<le> saturating_add_i64 t j" using j(1) assms(2,4) by (intro saturating_add_ge) auto
    then show ?thesis
      using j(2) assms(3,4) saturate_range [of "t + j"]
      by (simp add: i64_of_mono saturating_add_i64_def del: i64_of_le)
  qed
  then show ?thesis
    using batch_min_head [of "map (\<lambda>p. (i64_of (pr_timestamp p), p)) ps" "(i64_of t, p)"] b by auto
qed

context random_source
begin

lemma reader_stream_ok:
  assumes "single_start_stream N random_range rewrite s" and "\<forall>b \<in> set s. \<forall>(t, p) \<in> set b. t < top"
  shows "stream_ok s \<and> sorted (map batch_min s)"
    and "x \<in> set (concat s) \<Longrightarrow> fst x = i64_of (pr_timestamp (snd x)) \<and>
      - (2 ^ 63) \<le> pr_timestamp (snd x) \<and> pr_timestamp (snd x) \<le> 2 ^ 63 - 1"
proof -
  obtain f args rng w r0 n xs m bs where
    f: "validate N f = None" "length (start_time f) = 1" "i32_starts f" and
    xs: "drain n sniffed_next_packet r0 = (xs, Some (COk ()))" "sorted (map pr_timestamp xs)" and
    run: "reader_run m rewrite (COk r0) (packet_reader_new random_range rng f args r0 w) = Some (TOk bs)" and
    s: "s = reader_stream bs"
    using assms(1) by (auto simp: single_start_stream_def)
  define tl where "tl = timeline f (unwrap_or False (ma_erase_timestamp args))
    (unwrap_or False (ma_keep_subsecond args)) (map pr_timestamp xs) [0..<passes f] 0"
  define js where "js = draw_jitter random_range (parallel_jitter_ns f) [1..<parallel f] rng"
  have J: "draw_jitter random_range (parallel_jitter_ns f) [0..<parallel f] rng = 0 # js"
    using validate_ready(3) [OF f(1)] by (simp add: js_def upt_conv_Cons)
  have bs: "map (map pr_timestamp) bs = map (\<lambda>t. map (saturating_add_i64 t) (0 # js)) tl"
    using run_timeline [OF f(1) xs(1), of rewrite random_range rng args w] reader_run_unique [OF run]
    by (auto simp: J tl_def)
  have "parallel_jitter_ns f \<le> 2 ^ 63 - 1"
    using f(1) by (auto simp: validate_def first_error_None parallel_jitter_ns_def unwrap_or_def exceeds_def
        split: option.splits)
  then have js: "\<forall>j \<in> set js. 0 \<le> j" unfolding js_def by (rule jitter_nonneg)
  have range: "\<forall>t \<in> set tl. - (2 ^ 63) \<le> t \<and> t \<le> 2 ^ 63 - 1"
    unfolding tl_def by (intro ballI timeline_range [OF f(3) validate_ready(1) [OF f(1)]]) simp_all
  have srt: "sorted tl" unfolding tl_def using f xs(2) by (intro timeline_sorted)
  have len: "length bs = length tl" using arg_cong [OF bs, of length] by simp
  have each: "bs ! i \<noteq> [] \<and> batch_min (s ! i) = i64_of (tl ! i)" if "i < length tl" for i
  proof -
    have "map pr_timestamp (bs ! i) = map (saturating_add_i64 (tl ! i)) (0 # js)"
      using arg_cong [OF bs, of "\<lambda>l. l ! i"] that len by simp
    then show ?thesis
      using batch_of_stamps [of "bs ! i" "tl ! i" js] js range that len by (simp add: s reader_stream_def)
  qed
  have mins: "map batch_min s = map i64_of tl"
    using each len by (intro nth_equalityI) (simp_all add: s reader_stream_def)
  have "sorted (map i64_of tl)"
    using srt range by (auto simp: sorted_iff_nth_mono i64_of_mono simp del: i64_of_le)
  moreover have "stream_ok s"
  proof -
    have "b \<noteq> [] \<and> batch_min b < top" if b: "b \<in> set s" for b
    proof -
      obtain i where i: "i < length s" "b = s ! i" using b by (metis in_set_conv_nth)
      then have "b \<noteq> []" using each [of i] len by (simp add: s reader_stream_def)
      moreover obtain t p where tp: "(t, p) \<in> set b" using \<open>b \<noteq> []\<close> by (cases b) auto
      moreover have "t < top" using assms(2) b tp by blast
      ultimately show ?thesis using batch_min_le [OF tp] by (metis fst_conv order.strict_trans1)
    qed
    then show ?thesis by (simp add: stream_ok_def)
  qed
  ultimately show "stream_ok s \<and> sorted (map batch_min s)" using mins by simp
  assume "x \<in> set (concat s)"
  then obtain b p where p: "b \<in> set bs" "p \<in> set b" "x = (i64_of (pr_timestamp p), p)"
    by (auto simp: s reader_stream_def)
  have "map pr_timestamp b \<in> set (map (\<lambda>t. map (saturating_add_i64 t) (0 # js)) tl)"
    using p(1) unfolding bs [symmetric] by simp
  then obtain t where "map pr_timestamp b = map (saturating_add_i64 t) (0 # js)"
    unfolding set_map by (elim imageE)
  then have "pr_timestamp p \<in> set (map (saturating_add_i64 t) (0 # js))"
    using p(2) by (metis image_eqI set_map)
  then obtain j where "pr_timestamp p = saturating_add_i64 t j" by (metis image_iff set_map)
  then show "fst x = i64_of (pr_timestamp (snd x)) \<and>
      - (2 ^ 63) \<le> pr_timestamp (snd x) \<and> pr_timestamp (snd x) \<le> 2 ^ 63 - 1"
    using p(3) saturate_range by (simp add: saturating_add_i64_def)
qed

end

text \<open>C15: merging sorted captures gives a sorted capture.  If every input file has a valid
  configuration with one start time and its capture is in time order, then, however often the files
  repeat, into however many parallel groups they are copied and whatever the jitter, every packet
  copy is emitted once and in time order, as long as no timestamp reaches \<^verbatim>\<open>i64::MAX\<close>.\<close>

theorem merge_of_readers_sorted:
  assumes "merge_heap empty_heap push_all pop elems" and "random_source random_range"
    and "\<forall>s \<in> set streams. single_start_stream N random_range rewrite s \<and>
      (\<forall>b \<in> set s. \<forall>(t, p) \<in> set b. t < top)"
  shows "\<exists>ps. (\<forall>(emit :: packet_record \<Rightarrow> 's \<Rightarrow> 's tool_result) s.
      merge_batches empty_heap push_all pop emit streams s = Some (emit_all emit ps s)) \<and>
    mset ps = mset (map snd (concat (concat streams))) \<and> sorted (map pr_timestamp ps)"
proof -
  note ok = random_source.reader_stream_ok [OF assms(2)]
  have s: "\<forall>s \<in> set streams. stream_ok s \<and> sorted (map batch_min s)" using ok(1) assms(3) by blast
  obtain es where es: "\<forall>(emit :: packet_record \<Rightarrow> 's \<Rightarrow> 's tool_result) s.
      merge_batches empty_heap push_all pop emit streams s = Some (emit_all emit (map snd es) s)"
    and m: "mset es = mset (concat (concat streams))" and srt: "sorted (map fst es)"
    using merge_heap.merge_batches_total [OF assms(1), of streams] s by meson
  have e: "fst x = i64_of (pr_timestamp (snd x)) \<and> - (2 ^ 63) \<le> pr_timestamp (snd x) \<and>
      pr_timestamp (snd x) \<le> 2 ^ 63 - 1" if "x \<in> set es" for x
  proof -
    have "x \<in> set (concat (concat streams))" using that m by (metis set_mset_mset)
    then obtain s where "s \<in> set streams" "x \<in> set (concat s)" by auto
    then show ?thesis using ok(2) assms(3) by blast
  qed
  have "sorted (map pr_timestamp (map snd es))"
    unfolding sorted_iff_nth_mono
  proof (intro allI impI)
    fix i j
    assume ij: "i \<le> j" "j < length (map pr_timestamp (map snd es))"
    then have "fst (es ! i) \<le> fst (es ! j)" using sorted_nth_mono [OF srt ij(1)] by simp
    then show "map pr_timestamp (map snd es) ! i \<le> map pr_timestamp (map snd es) ! j"
      using e [of "es ! i"] e [of "es ! j"] ij by (simp add: i64_of_mono del: i64_of_le)
  qed
  moreover have "mset (map snd es) = mset (map snd (concat (concat streams)))" using m by simp
  ultimately show ?thesis using es by blast
qed

lemma emit_all_collect: "emit_all (\<lambda>p out. TOk (out @ [p])) ps out = TOk (out @ ps)"
  by (induction ps arbitrary: out) simp_all

theorem merge_of_readers_sorted_witness:
  "\<exists>s ps. single_start_stream std_nets low_random (\<lambda>g p (w :: unit). (pr_data p, w)) s \<and> length s = 2 \<and>
    merge_batches [] heap_push_all heap_pop (\<lambda>p out. TOk (out @ [p])) [s, s] [] = Some (TOk ps) \<and>
    sorted (map pr_timestamp ps)"
proof -
  obtain x where x: "drain 2 sniffed_next_packet one_packet_reader = ([x], Some (COk ()))"
    "pr_timestamp x = 5000000000" using one_packet_drain by blast
  have "timeline twice False False [5000000000] [0..<2] 0 = [5000000000, 6000000000]"
    by (simp add: twice_simps upt_rec numeral_2_eq_2)
  then obtain m bs where bs: "reader_run m (\<lambda>g p (w :: unit). (pr_data p, w)) (COk one_packet_reader)
      (packet_reader_new low_random 0 twice no_args one_packet_reader ()) = Some (TOk bs)"
    "map (map pr_timestamp) bs = [[5000000000], [6000000000]]"
    using run_timeline [OF twice_valid x(1), of "\<lambda>g p w. (pr_data p, w)" low_random 0 no_args "()"] x(2)
    by (auto simp: twice_simps)
  let ?s = "reader_stream bs"
  have "length (start_time twice) = 1" "i32_starts twice" by (simp_all add: twice_simps i32_starts_def)
  then have s: "single_start_stream std_nets low_random (\<lambda>g p (w :: unit). (pr_data p, w)) ?s"
    unfolding single_start_stream_def using twice_valid x bs(1)
    by (intro exI [of _ twice] exI [of _ no_args] exI [of _ 0] exI [of _ "()"] exI [of _ one_packet_reader]
        exI [of _ 2] exI [of _ "[x]"] exI [of _ m] exI [of _ bs]) simp
  obtain p q where pq: "bs = [[p], [q]]" "pr_timestamp p = 5000000000" "pr_timestamp q = 6000000000"
    using bs(2) by (auto simp: map_eq_Cons_conv)
  then have "\<forall>b \<in> set ?s. \<forall>(t, p) \<in> set b. t < top"
    by (simp add: reader_stream_def i64_of_less_top wrap_i64_def)
  with s have "\<forall>s \<in> set [?s, ?s]. single_start_stream std_nets low_random (\<lambda>g p (w :: unit). (pr_data p, w)) s \<and>
      (\<forall>b \<in> set s. \<forall>(t, p) \<in> set b. t < top)" by simp
  from merge_of_readers_sorted [where ?'s = "packet_record list", OF list_heap.merge_heap_axioms low.random_source_axioms this]
  obtain ps where "\<forall>(emit :: packet_record \<Rightarrow> packet_record list \<Rightarrow> packet_record list tool_result) z.
      merge_batches [] heap_push_all heap_pop emit [?s, ?s] z = Some (emit_all emit ps z)"
    "sorted (map pr_timestamp ps)" by blast
  then show ?thesis
    using s pq(1) by (intro exI [of _ ?s] exI [of _ ps]) (simp add: emit_all_collect, simp add: reader_stream_def)
qed

end
