(* ===== verification/Flow_Map.thy ===== *)
theory Flow_Map
  imports Merge_Config
begin

text \<open>
  The keyed address mapping of the merging tool (\<^verbatim>\<open>map/entry.rs\<close>, \<^verbatim>\<open>map/flow.rs\<close> and the
  data of \<^verbatim>\<open>map/packet.rs\<close> under \<^verbatim>\<open>tools/maja-mergecap/src\<close>): compiled entries, the
  allocation tables and the target of an address.  The generator of the \<^verbatim>\<open>rand\<close> crate is a
  parameter, a hash map is a map, and the table that several files may share is passed along as a
  part of the state.
\<close>

section \<open>Generators and hashing\<close>

record 'r rand_crate =
  seed_from_u64 :: "64 word \<Rightarrow> 'r"
  random_range :: "nat \<Rightarrow> nat \<Rightarrow> 'r \<Rightarrow> nat \<times> 'r"

definition splitmix64 :: "64 word \<Rightarrow> 64 word" where
  "splitmix64 x =
    (let x = x + 0x9E3779B97F4A7C15;
         z = (x XOR drop_bit 30 x) * 0xBF58476D1CE4E5B9;
         z = (z XOR drop_bit 27 z) * 0x94D049BB133111EB
     in z XOR drop_bit 31 z)"

definition derived_rng :: "'r rand_crate \<Rightarrow> 64 word \<Rightarrow> 64 word \<Rightarrow> 'r" where
  "derived_rng R seed salt = seed_from_u64 R (splitmix64 (seed XOR salt))"

definition map_rng_salt :: "64 word" where
  "map_rng_salt = 0x6a09e667f3bcc908"

definition stable_hash_new :: "64 word \<Rightarrow> 64 word" where
  "stable_hash_new seed = seed XOR 0xcbf29ce484222325"

definition hash_write :: "64 word \<Rightarrow> 64 word \<Rightarrow> 64 word" where
  "hash_write h v = splitmix64 (h XOR (v * 0x100000001b3))"

definition hash_write_u128 :: "nat \<Rightarrow> 64 word \<Rightarrow> 64 word" where
  "hash_write_u128 v h = hash_write (hash_write h (word_of_nat (v div 2 ^ 64))) (word_of_nat v)"

definition hash_finish :: "64 word \<Rightarrow> 64 word" where
  "hash_finish h = splitmix64 h"

section \<open>What identifies an allocation\<close>

record session_id =
  se_family :: family
  se_a :: "nat \<times> 16 word"
  se_b :: "nat \<times> 16 word"
  se_proto :: "8 word"

definition session_id_new ::
    "ip_addr \<Rightarrow> 16 word \<Rightarrow> ip_addr \<Rightarrow> 16 word \<Rightarrow> 8 word \<Rightarrow> session_id" where
  "session_id_new src src_port dst dst_port proto =
    (let s = (addr_to_u128 src, src_port); d = (addr_to_u128 dst, dst_port);
         ab = (if s \<le> d then (s, d) else (d, s))
     in \<lparr>se_family = family_of_addr src, se_a = fst ab, se_b = snd ab, se_proto = proto\<rparr>)"

record frag_key =
  fk_src :: ip_addr
  fk_dst :: ip_addr
  fk_proto :: "8 word"
  fk_id :: "32 word"

record targets =
  tg_src :: "ip_addr option"
  tg_dst :: "ip_addr option"

record packet_info =
  pi_src :: ip_addr
  pi_dst :: ip_addr
  pi_proto :: "8 word"
  pi_src_port :: "16 word"
  pi_dst_port :: "16 word"
  pi_has_ports :: bool
  pi_fragment :: "frag_key option"

definition info_session :: "packet_info \<Rightarrow> session_id option" where
  "info_session i =
    (if pi_has_ports i
     then Some (session_id_new (pi_src i) (pi_src_port i) (pi_dst i) (pi_dst_port i) (pi_proto i))
     else None)"

datatype identity = IdSession session_id | IdFragment frag_key | IdAddress

record alloc_id =
  ai_entry :: nat
  ai_identity :: identity
  ai_addr :: ip_addr

definition identity_of :: "map_key \<Rightarrow> session_id option \<Rightarrow> frag_key option \<Rightarrow> identity" where
  "identity_of key session fragment =
    (case key of
       KeyAddress \<Rightarrow> IdAddress
     | KeySession \<Rightarrow>
         (case (fragment, session) of
            (Some f, _) \<Rightarrow> IdFragment f
          | (None, Some s) \<Rightarrow> IdSession s
          | (None, None) \<Rightarrow> IdAddress))"

definition hash_index :: "64 word \<Rightarrow> nat \<Rightarrow> ip_addr \<Rightarrow> identity \<Rightarrow> nat \<Rightarrow> nat" where
  "hash_index seed e a ident pool_len =
    (let h = hash_write (stable_hash_new seed) (word_of_nat e);
         h = (case ident of
                IdSession s \<Rightarrow>
                  hash_write (hash_write (hash_write_u128 (fst (se_b s)) (hash_write (hash_write_u128 (fst (se_a s)) h)
                    (ucast (snd (se_a s))))) (ucast (snd (se_b s)))) (ucast (se_proto s))
              | IdFragment f \<Rightarrow>
                  hash_write (hash_write (hash_write_u128 (addr_to_u128 (fk_dst f))
                    (hash_write_u128 (addr_to_u128 (fk_src f)) h)) (ucast (fk_proto f))) (ucast (fk_id f))
              | IdAddress \<Rightarrow> hash_write h (- 1))
     in unat (hash_finish (hash_write_u128 (addr_to_u128 a) h)) mod pool_len)"

section \<open>Protocols\<close>

record protocol_set =
  ps_any :: bool
  ps_set :: "nat list"

definition to_ascii_lowercase :: "string \<Rightarrow> string" where
  "to_ascii_lowercase s =
    map (\<lambda>c. let n = of_char c :: nat in if 65 \<le> n \<and> n \<le> 90 then char_of (n + 32) else c) s"

fun add_protocols :: "string list \<Rightarrow> protocol_set \<Rightarrow> string + protocol_set" where
  "add_protocols [] p = Inr p"
| "add_protocols (name # names) p =
    (let n = to_ascii_lowercase name in
     if n = ''any'' \<or> n = ''all'' then add_protocols names (p\<lparr>ps_any := True\<rparr>)
     else
       (case (if n = ''tcp'' then Some 6 else if n = ''udp'' then Some 17 else if n = ''icmp'' then Some 1
              else if n = ''icmpv6'' then Some 58 else parse_unsigned 255 n) of
          Some k \<Rightarrow> add_protocols names (p\<lparr>ps_set := k # ps_set p\<rparr>)
        | None \<Rightarrow> Inl ''unknown protocol''))"

definition protocol_set_compile :: "protocol_spec \<Rightarrow> string + protocol_set" where
  "protocol_set_compile spec =
    (if spec_names spec = [] then Inl ''protocols must not be empty''
     else add_protocols (spec_names spec) \<lparr>ps_any = False, ps_set = []\<rparr>)"

definition protocol_allows :: "protocol_set \<Rightarrow> 8 word \<Rightarrow> bool" where
  "protocol_allows p proto = (ps_any p \<or> unat proto \<in> set (ps_set p))"

section \<open>Compiled entries\<close>

datatype 'n action = ActFixed ip_addr | ActMask 'n | ActPool "'n pool" map_policy

record 'n compiled_entry =
  ce_from :: "'n option"
  ce_action :: "'n action"

definition compile_entry :: "'n ipnet \<Rightarrow> 'n map_entry \<Rightarrow> map_policy \<Rightarrow> string + 'n compiled_entry" where
  "compile_entry N e default_policy =
    (case (entry_shape e, me_to e) of
       (ShapeFixed, TargetIp ip) \<Rightarrow> Inr \<lparr>ce_from = me_from e, ce_action = ActFixed ip\<rparr>
     | (ShapeMask, TargetNet n) \<Rightarrow> Inr \<lparr>ce_from = me_from e, ce_action = ActMask n\<rparr>
     | (ShapePool, TargetNet n) \<Rightarrow>
         Inr \<lparr>ce_from = me_from e,
              ce_action = ActPool (pool_from_nets N [n]) (entry_policy default_policy e)\<rparr>
     | _ \<Rightarrow> Inl ''shape does not fit the target'')"

definition pool_len :: "'n compiled_entry \<Rightarrow> nat" where
  "pool_len e = (case ce_action e of ActPool p _ \<Rightarrow> pool_total p | _ \<Rightarrow> 0)"

text \<open>\<^verbatim>\<open>Reverse\<close> of a prefix length, which is at most 255: the largest first, stably.\<close>

definition sort_entries :: "'n ipnet \<Rightarrow> 'n compiled_entry list \<Rightarrow> 'n compiled_entry list" where
  "sort_entries N es =
    sort_key (\<lambda>e. 255 - (case ce_from e of Some n \<Rightarrow> net_prefix_len N n | None \<Rightarrow> 0)) es"

record 'n flow_cfg =
  fc_key :: map_key
  fc_entries :: "'n compiled_entry list"
  fc_exclude :: "'n list"
  fc_protocols :: protocol_set
  fc_fragments :: bool

definition flow_cfg_compile :: "'n ipnet \<Rightarrow> 'n flow_map \<Rightarrow> string + 'n flow_cfg" where
  "flow_cfg_compile N f =
    (case collect_results (map (\<lambda>e. compile_entry N e (fm_policy f)) (fm_entries f)) of
       Inl e \<Rightarrow> Inl e
     | Inr es \<Rightarrow>
         (case protocol_set_compile (fm_protocols f) of
            Inl e \<Rightarrow> Inl e
          | Inr ps \<Rightarrow>
              Inr \<lparr>fc_key = fm_key f, fc_entries = sort_entries N es, fc_exclude = fm_exclude f,
                   fc_protocols = ps, fc_fragments = fm_fragments f\<rparr>))"

definition has_policy :: "(map_policy \<Rightarrow> bool) \<Rightarrow> 'n compiled_entry \<Rightarrow> bool" where
  "has_policy c e = (case ce_action e of ActPool _ p \<Rightarrow> c p | _ \<Rightarrow> False)"

definition uses_hash :: "'n flow_cfg \<Rightarrow> bool" where
  "uses_hash cfg = list_ex (has_policy (\<lambda>p. p = PolicyHash)) (fc_entries cfg)"

definition cfg_is_stateful :: "'n flow_cfg \<Rightarrow> bool" where
  "cfg_is_stateful cfg = list_ex (has_policy is_stateful) (fc_entries cfg)"

definition in_scope :: "'n ipnet \<Rightarrow> ip_addr \<Rightarrow> 'n compiled_entry \<Rightarrow> bool" where
  "in_scope N a e = (case ce_from e of None \<Rightarrow> True | Some n \<Rightarrow> net_contains N n a)"

definition classify :: "'n ipnet \<Rightarrow> 'n flow_cfg \<Rightarrow> ip_addr \<Rightarrow> nat option" where
  "classify N cfg a =
    (let k = length (takeWhile (\<lambda>e. \<not> in_scope N a e) (fc_entries cfg))
     in if k < length (fc_entries cfg) then Some k else None)"

definition excluded :: "'n ipnet \<Rightarrow> 'n flow_cfg \<Rightarrow> ip_addr \<Rightarrow> bool" where
  "excluded N cfg a = list_ex (\<lambda>n. net_contains N n a) (fc_exclude cfg)"

definition needs_alias :: "'n ipnet \<Rightarrow> 'n flow_cfg \<Rightarrow> packet_info \<Rightarrow> bool" where
  "needs_alias N cfg info =
    list_ex (\<lambda>a. case classify N cfg a of
        Some e \<Rightarrow> has_policy (\<lambda>p. p = PolicyRandom) (fc_entries cfg ! e) | None \<Rightarrow> False)
      [pi_src info, pi_dst info]"

section \<open>Allocation\<close>

record sequence =
  sq_start :: nat
  sq_step :: nat
  sq_drawn :: nat

function gcd_u128 :: "nat \<Rightarrow> nat \<Rightarrow> nat" where
  "gcd_u128 a b = (if b \<noteq> 0 then gcd_u128 b (a mod b) else a)"
  by pat_completeness auto
termination
  by (relation "measure snd") auto

declare gcd_u128.simps [simp del]

definition sequence_new :: "'r rand_crate \<Rightarrow> nat \<Rightarrow> 'r \<Rightarrow> sequence \<times> 'r" where
  "sequence_new R len rng =
    (if len \<le> 1 then (\<lparr>sq_start = 0, sq_step = 1, sq_drawn = 0\<rparr>, rng)
     else if len > 2 ^ 64 - 1 then
       (case random_range R 0 len rng of
          (start, rng) \<Rightarrow> (\<lparr>sq_start = start, sq_step = 1, sq_drawn = 0\<rparr>, rng))
     else
       (case random_range R 1 len rng of
          (offset, rng) \<Rightarrow>
            let step = (case find (\<lambda>step. step \<noteq> 0 \<and> gcd_u128 step len = 1)
                  (map (\<lambda>i. (offset + i) mod len) [1..<len]) of Some s \<Rightarrow> s | None \<Rightarrow> 1)
            in (case random_range R 0 len rng of
                  (start, rng) \<Rightarrow> (\<lparr>sq_start = start, sq_step = step, sq_drawn = 0\<rparr>, rng))))"

text \<open>The next index and whether the pool wrapped around; a modulus of zero panics.\<close>

definition next_index :: "sequence \<Rightarrow> nat \<Rightarrow> (nat \<times> bool \<times> sequence) tool_result" where
  "next_index s len =
    (if len = 0 then TPanic
     else
       TOk (wrapping_add_u128 (sq_start s) ((sq_drawn s mod len * sq_step s) mod 2 ^ 128) mod len,
            len \<le> sq_drawn s, s\<lparr>sq_drawn := wrapping_add_u128 (sq_drawn s) 1\<rparr>))"

record 'r alloc_slot =
  as_table :: "alloc_id \<Rightarrow> ip_addr option"
  as_sequences :: "sequence list"
  as_rng :: 'r
  as_warned_wrap :: "bool list"

fun sequences_new :: "'r rand_crate \<Rightarrow> nat list \<Rightarrow> 'r \<Rightarrow> sequence list \<times> 'r" where
  "sequences_new R [] rng = ([], rng)"
| "sequences_new R (len # lens) rng =
    (case sequence_new R len rng of (s, rng) \<Rightarrow>
     case sequences_new R lens rng of (ss, rng) \<Rightarrow> (s # ss, rng))"

definition alloc_slot_new :: "'r rand_crate \<Rightarrow> 64 word \<Rightarrow> 64 word \<Rightarrow> nat list \<Rightarrow> 'r alloc_slot" where
  "alloc_slot_new R seed salt pool_lens =
    (case sequences_new R pool_lens (derived_rng R seed salt) of
       (ss, rng) \<Rightarrow>
         \<lparr>as_table = Map.empty, as_sequences = ss, as_rng = rng,
          as_warned_wrap = replicate (length pool_lens) False\<rparr>)"

text \<open>Remember the target of a key, if there is one.\<close>

definition remember :: "alloc_id \<Rightarrow> ip_addr option tool_result \<Rightarrow> 'r alloc_slot \<Rightarrow>
    (ip_addr option \<times> 'r alloc_slot) tool_result" where
  "remember i r s =
    t_bind r (\<lambda>t. case t of
        None \<Rightarrow> TOk (None, s)
      | Some a \<Rightarrow> TOk (Some a, s\<lparr>as_table := (as_table s)(i \<mapsto> a)\<rparr>))"

definition sticky :: "'n ipnet \<Rightarrow> 'r rand_crate \<Rightarrow> 'n pool \<Rightarrow> alloc_id \<Rightarrow> 'r alloc_slot \<Rightarrow>
    (ip_addr option \<times> 'r alloc_slot) tool_result" where
  "sticky N R p i s =
    (case as_table s i of
       Some a \<Rightarrow> TOk (Some a, s)
     | None \<Rightarrow>
         (case pool_choose N (random_range R) p (as_rng s) of
            (r, rng) \<Rightarrow> remember i r (s\<lparr>as_rng := rng\<rparr>)))"

definition unique :: "'n ipnet \<Rightarrow> 'n pool \<Rightarrow> alloc_id \<Rightarrow> 'r alloc_slot \<Rightarrow>
    (ip_addr option \<times> 'r alloc_slot) tool_result" where
  "unique N p i s =
    (case as_table s i of
       Some a \<Rightarrow> TOk (Some a, s)
     | None \<Rightarrow>
         (case byte_at (as_sequences s) (ai_entry i) of
            None \<Rightarrow> TPanic
          | Some sq \<Rightarrow>
              t_bind (next_index sq (pool_total p)) (\<lambda>(index, wrapped, sq').
              remember i (addr_at N p index)
                (s\<lparr>as_sequences := (as_sequences s)[ai_entry i := sq'],
                   as_warned_wrap :=
                     (if wrapped then (as_warned_wrap s)[ai_entry i := True] else as_warned_wrap s)\<rparr>))))"

record 'r allocation =
  al_slots :: "'r alloc_slot list"
  al_shared :: bool

definition allocation_new ::
    "'r rand_crate \<Rightarrow> 'n flow_cfg \<Rightarrow> 64 word \<Rightarrow> map_sharing \<Rightarrow> nat \<Rightarrow> 'r allocation" where
  "allocation_new R cfg seed sharing groups =
    (let lens = map pool_len (fc_entries cfg); groups = max groups 1 in
     case sharing of
       Shared \<Rightarrow> \<lparr>al_slots = [alloc_slot_new R seed (map_rng_salt + 1) lens], al_shared = True\<rparr>
     | PerGroup \<Rightarrow>
         \<lparr>al_slots = map (\<lambda>g. alloc_slot_new R seed ((map_rng_salt + word_of_nat g) * 2) lens) [0..<groups],
          al_shared = False\<rparr>)"

definition slot_index :: "'r allocation \<Rightarrow> nat \<Rightarrow> nat" where
  "slot_index al grp = (if al_shared al then 0 else min grp (length (al_slots al) - 1))"

section \<open>The state of a file\<close>

record 'r group_state =
  gr_rng :: 'r
  gr_fragments :: "frag_key \<Rightarrow> targets option"

record ('n, 'r) flow_state =
  fs_cfg :: "'n flow_cfg"
  fs_hash_seed :: "64 word"
  fs_groups :: "'r group_state list"
  fs_allocation :: "'r allocation option"
  fs_warned_unmatched :: bool

definition flow_state_new ::
    "'r rand_crate \<Rightarrow> 'n flow_cfg \<Rightarrow> 64 word \<Rightarrow> 64 word \<Rightarrow> nat \<Rightarrow> map_sharing \<Rightarrow> 'r allocation option \<Rightarrow>
     ('n, 'r) flow_state" where
  "flow_state_new R cfg hash_seed file_seed groups sharing allocation =
    (let groups = max groups 1 in
     \<lparr>fs_cfg = cfg, fs_hash_seed = hash_seed,
      fs_groups = map (\<lambda>g. \<lparr>gr_rng = derived_rng R file_seed (map_rng_salt + word_of_nat g),
        gr_fragments = Map.empty\<rparr>) [0..<groups],
      fs_allocation = option_or allocation
        (if cfg_is_stateful cfg then Some (allocation_new R cfg file_seed sharing groups) else None),
      fs_warned_unmatched = False\<rparr>)"

definition allocate ::
    "'n ipnet \<Rightarrow> 'r rand_crate \<Rightarrow> map_policy \<Rightarrow> 'n pool \<Rightarrow> alloc_id \<Rightarrow> nat \<Rightarrow> ('n, 'r) flow_state \<Rightarrow>
     (ip_addr option \<times> ('n, 'r) flow_state) tool_result" where
  "allocate N R policy p i grp st =
    (case fs_allocation st of
       None \<Rightarrow> TPanic
     | Some al \<Rightarrow>
         (case byte_at (al_slots al) (slot_index al grp) of
            None \<Rightarrow> TPanic
          | Some slot \<Rightarrow>
              t_bind (if policy = PolicySticky then sticky N R p i slot else unique N p i slot)
                (\<lambda>(t, slot').
              TOk (t, st\<lparr>fs_allocation :=
                Some (al\<lparr>al_slots := (al_slots al)[slot_index al grp := slot']\<rparr>)\<rparr>))))"

definition draw_random ::
    "'n ipnet \<Rightarrow> 'r rand_crate \<Rightarrow> 'n pool \<Rightarrow> nat \<Rightarrow> ('n, 'r) flow_state \<Rightarrow>
     (ip_addr option \<times> ('n, 'r) flow_state) tool_result" where
  "draw_random N R p grp st =
    (case byte_at (fs_groups st) grp of
       None \<Rightarrow> TPanic
     | Some g \<Rightarrow>
         (case pool_choose N (random_range R) p (gr_rng g) of
            (r, rng) \<Rightarrow>
              t_bind r (\<lambda>t. TOk (t, st\<lparr>fs_groups := (fs_groups st)[grp := g\<lparr>gr_rng := rng\<rparr>]\<rparr>))))"

definition target_for ::
    "'n ipnet \<Rightarrow> 'r rand_crate \<Rightarrow> nat \<Rightarrow> ip_addr \<Rightarrow> session_id option \<Rightarrow> frag_key option \<Rightarrow>
     ('n, 'r) flow_state \<Rightarrow> (ip_addr option \<times> ('n, 'r) flow_state) tool_result" where
  "target_for N R grp a session fragment st =
    (let cfg = fs_cfg st in
     if excluded N cfg a then TOk (None, st)
     else
       (case classify N cfg a of
          None \<Rightarrow> TOk (None, st\<lparr>fs_warned_unmatched := True\<rparr>)
        | Some e \<Rightarrow>
            (case ce_action (fc_entries cfg ! e) of
               ActFixed ip \<Rightarrow> TOk (if family_of_addr ip = family_of_addr a then Some ip else None, st)
             | ActMask n \<Rightarrow> TOk (mask_map N n a, st)
             | ActPool p policy \<Rightarrow>
                 if pool_total p = 0 then TOk (None, st)
                 else
                   let ident = identity_of (fc_key cfg) session fragment in
                   (case policy of
                      PolicyRandom \<Rightarrow> draw_random N R p grp st
                    | PolicyHash \<Rightarrow>
                        t_bind (addr_at N p (hash_index (fs_hash_seed st) e a ident (pool_total p)))
                          (\<lambda>t. TOk (t, st))
                    | _ \<Rightarrow>
                        allocate N R policy p \<lparr>ai_entry = e, ai_identity = ident, ai_addr = a\<rparr> grp st))))"

definition targets_for ::
    "'n ipnet \<Rightarrow> 'r rand_crate \<Rightarrow> nat \<Rightarrow> packet_info \<Rightarrow> frag_key option \<Rightarrow> ('n, 'r) flow_state \<Rightarrow>
     (targets \<times> ('n, 'r) flow_state) tool_result" where
  "targets_for N R grp info fragment st =
    t_bind (target_for N R grp (pi_src info) (info_session info) fragment st) (\<lambda>(s, st).
    t_bind (target_for N R grp (pi_dst info) (info_session info) fragment st) (\<lambda>(d, st).
    TOk (\<lparr>tg_src = s, tg_dst = d\<rparr>, st)))"

definition packet_targets ::
    "'n ipnet \<Rightarrow> 'r rand_crate \<Rightarrow> nat \<Rightarrow> packet_info \<Rightarrow> ('n, 'r) flow_state \<Rightarrow>
     (targets \<times> ('n, 'r) flow_state) tool_result" where
  "packet_targets N R grp info st =
    (case (if fc_fragments (fs_cfg st) then pi_fragment info else None) of
       None \<Rightarrow> targets_for N R grp info None st
     | Some fragment \<Rightarrow>
         if \<not> needs_alias N (fs_cfg st) info then targets_for N R grp info (Some fragment) st
         else
           (case byte_at (fs_groups st) grp of
              None \<Rightarrow> TPanic
            | Some g \<Rightarrow>
                (case gr_fragments g fragment of
                   Some t \<Rightarrow> TOk (t, st)
                 | None \<Rightarrow>
                     t_bind (targets_for N R grp info (Some fragment) st) (\<lambda>(t, st).
                     case byte_at (fs_groups st) grp of
                       None \<Rightarrow> TPanic
                     | Some g \<Rightarrow>
                         TOk (t, st\<lparr>fs_groups := (fs_groups st)
                           [grp := g\<lparr>gr_fragments := (gr_fragments g)(fragment \<mapsto> t)\<rparr>]\<rparr>)))))"

section \<open>The walk of a pool visits every index once\<close>

lemma gcd_u128_eq: "gcd_u128 a b = gcd a b"
proof (induction a b rule: gcd_u128.induct)
  case (1 a b)
  show ?case
  proof (cases "b = 0")
    case False
    then show ?thesis using 1 by (simp add: gcd_u128.simps [of a b] gcd_red_nat [of a b])
  qed (simp add: gcd_u128.simps)
qed

definition draw_index :: "sequence \<Rightarrow> nat \<Rightarrow> nat \<Rightarrow> nat" where
  "draw_index s len k = wrapping_add_u128 (sq_start s) ((k mod len * sq_step s) mod 2 ^ 128) mod len"

definition good_walk :: "nat \<Rightarrow> sequence \<Rightarrow> bool" where
  "good_walk len s =
    (sq_start s < max len 1 \<and> sq_drawn s = 0 \<and> coprime (sq_step s) len \<and>
     (if len \<le> 2 ^ 64 - 1 then sq_step s < 2 ^ 64 else sq_step s = 1))"

lemma pool_total_single: "pool_total (pool_from_nets N [n]) = host_count N n"
  using host_count_le [of N n] by (simp add: pool_from_nets_def saturating_add_u128_def)

lemma find_Some_in: "find P xs = Some x \<Longrightarrow> x \<in> set xs \<and> P x"
  by (induction xs) (auto split: if_splits)

lemma sequence_new_walk:
  assumes "random_source (random_range R)" and "sequence_new R len rng = (s, rng')"
  shows "good_walk len s"
proof -
  note range = random_source.in_range [OF assms(1)]
  consider "len \<le> 1" | "1 < len" "2 ^ 64 - 1 < len" | "1 < len" "len \<le> 2 ^ 64 - 1" by linarith
  then show ?thesis
  proof cases
    case 1
    then show ?thesis using assms(2) by (auto simp: sequence_new_def good_walk_def)
  next
    case 2
    then show ?thesis
      using assms(2) range [of 0 len] by (auto simp: sequence_new_def good_walk_def split: prod.splits)
  next
    case 3
    obtain offset r1 where o1: "random_range R 1 len rng = (offset, r1)" by fastforce
    obtain start r2 where o2: "random_range R 0 len r1 = (start, r2)" by fastforce
    let ?find = "find (\<lambda>step. step \<noteq> 0 \<and> gcd_u128 step len = 1) (map (\<lambda>i. (offset + i) mod len) [1..<len])"
    have s: "s = \<lparr>sq_start = start, sq_step = (case ?find of Some s \<Rightarrow> s | None \<Rightarrow> 1), sq_drawn = 0\<rparr>"
      using assms(2) 3 o1 o2 by (simp add: sequence_new_def Let_def)
    have "start < len" using range [OF _ o2] 3 by simp
    moreover have "coprime (case ?find of Some s \<Rightarrow> s | None \<Rightarrow> 1) len \<and>
        (case ?find of Some s \<Rightarrow> s | None \<Rightarrow> 1) < 2 ^ 64"
    proof (cases ?find)
      case (Some x)
      then obtain i where i: "x = (offset + i) mod len" "gcd_u128 x len = 1"
        using find_Some_in [OF Some] by auto
      have "x < len" using i(1) 3 by simp
      then show ?thesis using Some i(2) 3 by (simp add: gcd_u128_eq coprime_iff_gcd_eq_1)
    qed simp
    ultimately show ?thesis using 3 by (simp add: good_walk_def s)
  qed
qed

lemma draw_index_exact:
  assumes "good_walk len s" and "len \<le> 2 ^ 127" and "k < len"
  shows "draw_index s len k = (sq_start s + k * sq_step s) mod len"
proof -
  have start: "sq_start s < len" using assms by (auto simp: good_walk_def max_def split: if_splits)
  have "sq_start s + k * sq_step s < 2 ^ 128"
  proof (cases "len \<le> 2 ^ 64 - 1")
    case True
    then have "k \<le> 2 ^ 64 - 2" "sq_step s \<le> 2 ^ 64 - 1" using assms by (auto simp: good_walk_def)
    then have "k * sq_step s \<le> (2 ^ 64 - 2) * (2 ^ 64 - 1)" by (rule mult_le_mono)
    then show ?thesis using start True by simp
  next
    case False
    then have "sq_step s = 1" using assms(1) by (simp add: good_walk_def)
    then show ?thesis using start assms(2,3) by simp
  qed
  then show ?thesis using assms(3) by (simp add: draw_index_def wrapping_add_u128_def)
qed

lemma draw_index_inj:
  assumes "good_walk len s" and "len \<le> 2 ^ 127"
  shows "inj_on (draw_index s len) {..<len}"
proof -
  have wlog: "k = l" if "draw_index s len k = draw_index s len l" "k < len" "l < len" "l \<le> k" for k l
  proof -
    have "(sq_start s + k * sq_step s) mod len = (sq_start s + l * sq_step s) mod len"
      using that draw_index_exact [OF assms] by simp
    moreover have "sq_start s + l * sq_step s \<le> sq_start s + k * sq_step s" using that(4) by simp
    ultimately have "len dvd (sq_start s + k * sq_step s) - (sq_start s + l * sq_step s)"
      by (simp add: mod_eq_dvd_iff_nat)
    then have "len dvd (k - l) * sq_step s" by (simp add: diff_mult_distrib)
    moreover have "coprime len (sq_step s)" using assms(1) by (simp add: good_walk_def coprime_commute)
    ultimately have "len dvd k - l" by (simp add: coprime_dvd_mult_left_iff)
    then show ?thesis using that(2-4) by (auto dest: dvd_imp_le)
  qed
  show ?thesis
    by (rule inj_onI) (metis lessThan_iff nat_le_linear wlog)
qed

section \<open>Unique targets\<close>

text \<open>A sequence of requests to one table, each for the pool of its entry.\<close>

fun unique_all :: "'n ipnet \<Rightarrow> 'n list \<Rightarrow> alloc_id list \<Rightarrow> 'r alloc_slot \<Rightarrow>
    (ip_addr option list \<times> 'r alloc_slot) tool_result" where
  "unique_all N nets [] s = TOk ([], s)"
| "unique_all N nets (i # is) s =
    t_bind (unique N (pool_from_nets N [nets ! ai_entry i]) i s) (\<lambda>(t, s).
    t_bind (unique_all N nets is s) (\<lambda>(ts, s). TOk (t # ts, s)))"

definition slot_inv :: "'n ipnet \<Rightarrow> 'n list \<Rightarrow> sequence list \<Rightarrow> (nat \<Rightarrow> alloc_id list) \<Rightarrow> 'r alloc_slot \<Rightarrow> bool" where
  "slot_inv N nets sqs ks s =
    (length (as_sequences s) = length nets \<and>
     (\<forall>e < length nets.
        distinct (ks e) \<and> set (ks e) = {i. ai_entry i = e \<and> as_table s i \<noteq> None} \<and>
        as_sequences s ! e = (sqs ! e)\<lparr>sq_drawn := length (ks e) mod 2 ^ 128\<rparr> \<and>
        (\<forall>j < length (ks e).
           addr_at N (pool_from_nets N [nets ! e])
             (draw_index (sqs ! e) (pool_total (pool_from_nets N [nets ! e])) (j mod 2 ^ 128)) =
           TOk (as_table s (ks e ! j)))))"

context ip_nets
begin

lemma unique_step:
  assumes "slot_inv N nets sqs ks s" and "ai_entry i < length nets"
  shows "\<exists>a s' ks'. unique N (pool_from_nets N [nets ! ai_entry i]) i s = TOk (Some a, s') \<and>
    slot_inv N nets sqs ks' s' \<and> as_table s' i = Some a \<and> a \<in> hosts N (nets ! ai_entry i) \<and>
    (\<forall>k. as_table s k \<noteq> None \<longrightarrow> as_table s' k = as_table s k) \<and>
    (\<forall>k. as_table s' k \<noteq> None \<longrightarrow> k = i \<or> as_table s k \<noteq> None)"
proof -
  let ?e = "ai_entry i" and ?p = "pool_from_nets N [nets ! ai_entry i]"
  have total: "0 < pool_total ?p" by (rule pool_total_pos) simp
  have host: "\<exists>a \<in> hosts N (nets ! ?e). addr_at N ?p k = TOk (Some a)" for k
    using addr_at_in_hosts [of "[nets ! ?e]" k] by simp
  show ?thesis
  proof (cases "as_table s i")
    case (Some a)
    then have "i \<in> set (ks ?e)" using assms by (auto simp: slot_inv_def)
    then obtain j where j: "j < length (ks ?e)" "ks ?e ! j = i" by (auto simp: in_set_conv_nth)
    then have "a \<in> hosts N (nets ! ?e)"
      using assms host Some unfolding slot_inv_def by (metis option.inject tool_result.inject(1))
    then show ?thesis using Some assms(1) by (intro exI [of _ a] exI [of _ s] exI [of _ ks]) (simp add: unique_def)
  next
    case None
    let ?d = "length (ks ?e) mod 2 ^ 128"
    have sq: "byte_at (as_sequences s) ?e = Some ((sqs ! ?e)\<lparr>sq_drawn := ?d\<rparr>)"
      using assms by (simp add: slot_inv_def byte_at_def)
    obtain a where a: "a \<in> hosts N (nets ! ?e)"
      "addr_at N ?p (draw_index (sqs ! ?e) (pool_total ?p) ?d) = TOk (Some a)" using host by blast
    let ?sq = "(sqs ! ?e)\<lparr>sq_drawn := wrapping_add_u128 ?d 1\<rparr>"
    obtain wrapped where nxt: "next_index ((sqs ! ?e)\<lparr>sq_drawn := ?d\<rparr>) (pool_total ?p) =
        TOk (draw_index (sqs ! ?e) (pool_total ?p) ?d, wrapped, ?sq)"
      using total by (simp add: next_index_def draw_index_def)
    let ?s = "s\<lparr>as_table := (as_table s)(i \<mapsto> a), as_sequences := (as_sequences s)[?e := ?sq],
      as_warned_wrap := (if wrapped then (as_warned_wrap s)[?e := True] else as_warned_wrap s)\<rparr>"
    have u: "unique N ?p i s = TOk (Some a, ?s)"
      using None sq nxt a(2) by (simp add: unique_def remember_def)
    let ?ks = "ks(?e := ks ?e @ [i])"
    have new: "i \<notin> set (ks ?e)" using assms None by (auto simp: slot_inv_def)
    have drawn: "wrapping_add_u128 ?d 1 = length (ks ?e @ [i]) mod 2 ^ 128"
      by (simp add: wrapping_add_u128_def mod_Suc_eq)
    have old: "as_table ?s (ks x ! j) = as_table s (ks x ! j)" if "x < length nets" "j < length (ks x)" for x j
    proof -
      have "ks x ! j \<in> set (ks x)" using that(2) by simp
      then have "as_table s (ks x ! j) \<noteq> None" using assms(1) that(1) by (auto simp: slot_inv_def)
      then show ?thesis using None by auto
    qed
    have "slot_inv N nets sqs ?ks ?s"
      unfolding slot_inv_def
    proof (intro conjI allI impI)
      show "length (as_sequences ?s) = length nets" using assms(1) by (simp add: slot_inv_def)
      fix x assume x: "x < length nets"
      have "distinct (ks x)" using assms(1) x by (simp add: slot_inv_def)
      then show "distinct (?ks x)" using new by auto
      show "set (?ks x) = {k. ai_entry k = x \<and> as_table ?s k \<noteq> None}"
        using assms(1) x by (auto simp: slot_inv_def)
      show "as_sequences ?s ! x = (sqs ! x)\<lparr>sq_drawn := length (?ks x) mod 2 ^ 128\<rparr>"
        using assms x drawn by (simp add: slot_inv_def nth_list_update)
      fix j assume j: "j < length (?ks x)"
      show "addr_at N (pool_from_nets N [nets ! x])
          (draw_index (sqs ! x) (pool_total (pool_from_nets N [nets ! x])) (j mod 2 ^ 128)) =
          TOk (as_table ?s (?ks x ! j))"
      proof (cases "x = ?e \<and> j = length (ks ?e)")
        case True
        then show ?thesis using a(2) by simp
      next
        case False
        then have "j < length (ks x)" "?ks x ! j = ks x ! j" using j by (auto simp: nth_append split: if_splits)
        then show ?thesis using assms(1) x old [OF x] by (simp add: slot_inv_def)
      qed
    qed
    then show ?thesis
      using u a(1) None by (intro exI [of _ a] exI [of _ ?s] exI [of _ ?ks]) simp
  qed
qed

lemma unique_all_run:
  assumes "slot_inv N nets sqs ks s" and "\<forall>i \<in> set is. ai_entry i < length nets"
  shows "\<exists>ts s' ks'. unique_all N nets is s = TOk (ts, s') \<and> slot_inv N nets sqs ks' s' \<and>
    ts = map (as_table s') is \<and> (\<forall>i \<in> set is. \<exists>a \<in> hosts N (nets ! ai_entry i). as_table s' i = Some a) \<and>
    (\<forall>k. as_table s k \<noteq> None \<longrightarrow> as_table s' k = as_table s k) \<and>
    (\<forall>k. as_table s' k \<noteq> None \<longrightarrow> k \<in> set is \<or> as_table s k \<noteq> None)"
  using assms
proof (induction "is" arbitrary: ks s)
  case Nil
  then show ?case by (intro exI [of _ "[]"] exI [of _ s] exI [of _ ks]) simp
next
  case (Cons i "is")
  obtain a s1 ks1 where 1: "unique N (pool_from_nets N [nets ! ai_entry i]) i s = TOk (Some a, s1)"
    "slot_inv N nets sqs ks1 s1" "as_table s1 i = Some a" "a \<in> hosts N (nets ! ai_entry i)"
    "\<forall>k. as_table s k \<noteq> None \<longrightarrow> as_table s1 k = as_table s k"
    "\<forall>k. as_table s1 k \<noteq> None \<longrightarrow> k = i \<or> as_table s k \<noteq> None"
    using unique_step [OF Cons.prems(1)] Cons.prems(2) by (metis list.set_intros(1))
  obtain ts s2 ks2 where 2: "unique_all N nets is s1 = TOk (ts, s2)" "slot_inv N nets sqs ks2 s2"
    "ts = map (as_table s2) is" "\<forall>i \<in> set is. \<exists>a \<in> hosts N (nets ! ai_entry i). as_table s2 i = Some a"
    "\<forall>k. as_table s1 k \<noteq> None \<longrightarrow> as_table s2 k = as_table s1 k"
    "\<forall>k. as_table s2 k \<noteq> None \<longrightarrow> k \<in> set is \<or> as_table s1 k \<noteq> None"
    using Cons.IH [OF 1(2)] Cons.prems(2) by auto
  have "as_table s2 i = Some a" using 1(3) 2(5) by auto
  then have "Some a # ts = map (as_table s2) (i # is)" using 2(3) by simp
  moreover have "\<forall>k. as_table s k \<noteq> None \<longrightarrow> as_table s2 k = as_table s k" using 1(5) 2(5) by metis
  moreover have "\<forall>k. as_table s2 k \<noteq> None \<longrightarrow> k \<in> set (i # is) \<or> as_table s k \<noteq> None"
    using 1(6) 2(6) by (metis list.set_intros)
  moreover have "\<forall>j \<in> set (i # is). \<exists>a \<in> hosts N (nets ! ai_entry j). as_table s2 j = Some a"
    using 1(4) 2(4) \<open>as_table s2 i = Some a\<close> by auto
  ultimately show ?case
    using 1(1) 2(1,2) by (intro exI [of _ "Some a # ts"] exI [of _ s2] exI [of _ ks2]) simp
qed

lemma unique_slot_inj:
  assumes "slot_inv N nets sqs ks s" and "e < length nets" and "good_walk (host_count N (nets ! e)) (sqs ! e)"
    and "host_count N (nets ! e) \<le> 2 ^ 127" and "length (ks e) \<le> host_count N (nets ! e)"
  shows "inj_on (as_table s) (set (ks e))"
proof -
  let ?p = "pool_from_nets N [nets ! e]" and ?c = "host_count N (nets ! e)"
  have bij: "inj_on (addr_at N ?p) {..<?c}"
    using pool_bij [of "[nets ! e]"] host_count_le [of N "nets ! e"]
    by (simp add: disjoint_nets_def bij_betw_def pool_total_single)
  have draws: "draw_index (sqs ! e) ?c j < ?c" for j
    using host_count_pos [of N "nets ! e"] by (simp add: draw_index_def)
  have pos: "j mod 2 ^ 128 = j" if "j < length (ks e)" for j using that assms(4,5) by simp
  have eq: "addr_at N ?p (draw_index (sqs ! e) ?c j) = TOk (as_table s (ks e ! j))" if "j < length (ks e)" for j
    using assms(1,2) that pos [OF that] unfolding slot_inv_def pool_total_single by metis
  have "j = l" if jl: "j < length (ks e)" "l < length (ks e)" "as_table s (ks e ! j) = as_table s (ks e ! l)" for j l
  proof -
    have "draw_index (sqs ! e) ?c j = draw_index (sqs ! e) ?c l"
      using bij eq [OF jl(1)] eq [OF jl(2)] jl(3) draws by (simp add: inj_on_def)
    then show ?thesis using draw_index_inj [OF assms(3,4)] jl(1,2) assms(5) by (simp add: inj_on_def)
  qed
  then show ?thesis by (intro inj_onI) (metis in_set_conv_nth)
qed

end

lemma sequences_new_walks:
  assumes "random_source (random_range R)" and "sequences_new R lens rng = (ss, rng')"
  shows "length ss = length lens \<and> (\<forall>e < length lens. good_walk (lens ! e) (ss ! e))"
  using assms(2)
proof (induction lens arbitrary: rng ss rng')
  case (Cons len lens)
  obtain s r1 ss' r2 where 1: "sequence_new R len rng = (s, r1)" "sequences_new R lens r1 = (ss', r2)"
    by (metis prod.exhaust)
  then have "ss = s # ss'" using Cons.prems by simp
  then show ?case
    using Cons.IH [OF 1(2)] sequence_new_walk [OF assms(1) 1(1)] by (auto simp: nth_Cons split: nat.splits)
qed simp

lemma alloc_slot_new_inv:
  assumes "random_source (random_range R)"
  obtains sqs where "slot_inv N nets sqs (\<lambda>_. []) (alloc_slot_new R seed salt (map (host_count N) nets))"
    "\<forall>e < length nets. good_walk (host_count N (nets ! e)) (sqs ! e)"
proof -
  obtain ss r where ss: "sequences_new R (map (host_count N) nets) (derived_rng R seed salt) = (ss, r)"
    by fastforce
  note w = sequences_new_walks [OF assms ss]
  have "ss ! e = (ss ! e)\<lparr>sq_drawn := 0\<rparr>" if "e < length nets" for e
    using w that by (simp add: good_walk_def)
  then have "slot_inv N nets ss (\<lambda>_. []) (alloc_slot_new R seed salt (map (host_count N) nets))"
    using w by (simp add: slot_inv_def alloc_slot_new_def ss)
  then show thesis using that w by simp
qed


text \<open>A generator that answers the lower bound and counts its calls from the seed.\<close>

definition low_crate :: "nat rand_crate" where
  "low_crate = \<lparr>seed_from_u64 = unat, random_range = low_random\<rparr>"

definition six_hosts :: "ip_addr \<times> nat" where
  "six_hosts = (V4 0x0A000000, 29)"

lemma six_hosts_count: "host_count std_nets six_hosts = 6"
  by (simp add: six_hosts_def host_count_def std_host_bits std_host_bits_def family_bits_def family_of_addr_def)
    (simp add: std_nets_def family_of_addr_def)


end
