(* ===== verification/Envelope.thy ===== *)
theory Envelope
  imports Packet Flow_Map Checksum
begin

text \<open>
  The outermost IP packet of a parsed packet, as the merging tool reads and rewrites it
  (\<^verbatim>\<open>map/packet.rs\<close> under \<^verbatim>\<open>tools/maja-mergecap/src\<close>), over the viewers of IPv4, IPv6, its
  routing header, TCP, UDP and ICMPv6 (\<^verbatim>\<open>src/packet/layer\<close>).  A viewer is the bytes of its layer; a
  field outside of them is an index panic.
\<close>

section \<open>Viewers of a packet\<close>

definition fetch :: "'a option \<Rightarrow> 'a tool_result" where
  "fetch x = (case x of Some v \<Rightarrow> TOk v | None \<Rightarrow> TPanic)"

lemma fetch_simps [simp]: "fetch (Some v) = TOk v" "fetch None = TPanic"
  by (simp_all add: fetch_def)

definition layer_view :: "layer \<Rightarrow> packet \<Rightarrow> bytes tool_result" where
  "layer_view l pkt = fetch (layer_bytes l (pkt_bytes pkt))"

definition nth_layer_viewer :: "packet \<Rightarrow> proto \<Rightarrow> int \<Rightarrow> bytes option tool_result" where
  "nth_layer_viewer pkt p index =
    (case nth_layer_bytes pkt p index of
       None \<Rightarrow> TOk None
     | Some b \<Rightarrow> t_bind (fetch b) (\<lambda>b. TOk (Some b)))"

text \<open>A mutable viewer: what is done with it, as a function on the bytes of the layer, and the
  packet with those bytes written back.\<close>

definition with_viewer_mut ::
    "packet \<Rightarrow> proto \<Rightarrow> int \<Rightarrow> (bytes \<Rightarrow> ('a \<times> bytes) tool_result) \<Rightarrow> ('a option \<times> packet) tool_result" where
  "with_viewer_mut pkt p index f =
    (case nth_layer_range pkt p index of
       None \<Rightarrow> TOk (None, pkt)
     | Some (lo, hi) \<Rightarrow>
         t_bind (fetch (slice (pkt_bytes pkt) lo hi)) (\<lambda>b.
         t_bind (f b) (\<lambda>(x, b').
         TOk (Some x, pkt\<lparr>pkt_bytes := take lo (pkt_bytes pkt) @ b' @ drop hi (pkt_bytes pkt)\<rparr>))))"

definition setting :: "(bytes \<Rightarrow> bytes tool_result) \<Rightarrow> bytes \<Rightarrow> (unit \<times> bytes) tool_result" where
  "setting setters b = t_bind (setters b) (\<lambda>b'. TOk ((), b'))"

definition nth_layer_viewer_mut ::
    "packet \<Rightarrow> proto \<Rightarrow> int \<Rightarrow> (bytes \<Rightarrow> bytes tool_result) \<Rightarrow> packet tool_result" where
  "nth_layer_viewer_mut pkt p index setters =
    t_bind (with_viewer_mut pkt p index (setting setters)) (\<lambda>(_, pkt). TOk pkt)"

section \<open>Fields\<close>

definition ipv4_flags :: "bytes \<Rightarrow> 8 word option" where
  "ipv4_flags hdr = view_raw 6 7 (FSpec 0xE0 5) hdr"

definition ipv4_identification :: "bytes \<Rightarrow> 16 word option" where
  "ipv4_identification hdr = view_raw 4 6 whole hdr"

definition ipv4_src :: "bytes \<Rightarrow> 32 word option" where
  "ipv4_src hdr = view_raw 12 16 whole hdr"

definition ipv4_dst :: "bytes \<Rightarrow> 32 word option" where
  "ipv4_dst hdr = view_raw 16 20 whole hdr"

definition ipv4_set_src :: "32 word \<Rightarrow> bytes \<Rightarrow> bytes tool_result" where
  "ipv4_set_src a hdr = fetch (view_set 12 16 whole a hdr)"

definition ipv4_set_dst :: "32 word \<Rightarrow> bytes \<Rightarrow> bytes tool_result" where
  "ipv4_set_dst a hdr = fetch (view_set 16 20 whole a hdr)"

definition ipv4_set_checksum :: "16 word \<Rightarrow> bytes \<Rightarrow> bytes tool_result" where
  "ipv4_set_checksum v hdr = fetch (view_set 10 12 whole v hdr)"

definition ipv4_calculate_checksum :: "bytes \<Rightarrow> 16 word tool_result" where
  "ipv4_calculate_checksum hdr =
    t_bind (fetch (ipv4_header_len hdr)) (\<lambda>n.
    TOk (internet_checksum_zeroing (take (min n (length hdr)) hdr) (10, 12)))"

definition ipv6_src :: "bytes \<Rightarrow> 128 word option" where
  "ipv6_src hdr = view_raw 8 24 whole hdr"

definition ipv6_dst :: "bytes \<Rightarrow> 128 word option" where
  "ipv6_dst hdr = view_raw 24 40 whole hdr"

definition ipv6_set_src :: "128 word \<Rightarrow> bytes \<Rightarrow> bytes tool_result" where
  "ipv6_set_src a hdr = fetch (view_set 8 24 whole a hdr)"

definition ipv6_set_dst :: "128 word \<Rightarrow> bytes \<Rightarrow> bytes tool_result" where
  "ipv6_set_dst a hdr = fetch (view_set 24 40 whole a hdr)"

definition frag_identification :: "bytes \<Rightarrow> 32 word option" where
  "frag_identification hdr = view_raw 4 8 whole hdr"

definition route_type :: "bytes \<Rightarrow> 8 word option" where
  "route_type hdr = view_raw 2 3 whole hdr"

definition route_segments_left :: "bytes \<Rightarrow> 8 word option" where
  "route_segments_left hdr = view_raw 3 4 whole hdr"

definition route_data :: "bytes \<Rightarrow> bytes option" where
  "route_data hdr = slice hdr 4 (length hdr)"

text \<open>The complete addresses at the start of a slice.\<close>

fun route_addrs :: "bytes \<Rightarrow> 128 word list" where
  "route_addrs bs = (if 16 \<le> length bs then word_of_nat (be_nat (take 16 bs)) # route_addrs (drop 16 bs) else [])"

declare route_addrs.simps [simp del]

definition type0_addrs :: "bytes \<Rightarrow> 128 word list option" where
  "type0_addrs data = (if 4 \<le> length data then Some (route_addrs (drop 4 data)) else None)"

definition srh_segment_list_len :: "bytes \<Rightarrow> nat option" where
  "srh_segment_list_len data =
    map_option (\<lambda>last_entry :: 8 word. min ((unat last_entry + 1) * 16)
        (length data - 4 - (length data - 4) mod 16)) (view_raw 0 1 whole data)"

definition srh_segments :: "bytes \<Rightarrow> 128 word list option tool_result" where
  "srh_segments data =
    (if 4 \<le> length data
     then t_bind (fetch (srh_segment_list_len data)) (\<lambda>n.
          t_bind (fetch (slice data 4 (4 + n))) (\<lambda>s. TOk (Some (route_addrs s))))
     else TOk None)"

section \<open>The outermost IP packet\<close>

datatype ip_family = IpFamilyV4 | IpFamilyV6

definition outer_ip_family :: "packet \<Rightarrow> ip_family option" where
  "outer_ip_family pkt =
    (case (nth_layer pkt Ipv4 (- 1), nth_layer pkt Ipv6 (- 1)) of
       (Some ipv4, Some ipv6) \<Rightarrow>
         Some (if layer_offset ipv4 < layer_offset ipv6 then IpFamilyV4 else IpFamilyV6)
     | (Some _, None) \<Rightarrow> Some IpFamilyV4
     | (None, Some _) \<Rightarrow> Some IpFamilyV6
     | (None, None) \<Rightarrow> None)"

definition outer_ipv4 :: "packet \<Rightarrow> bytes option tool_result" where
  "outer_ipv4 pkt = nth_layer_viewer pkt Ipv4 (- 1)"

definition outer_ipv6 :: "packet \<Rightarrow> bytes option tool_result" where
  "outer_ipv6 pkt = nth_layer_viewer pkt Ipv6 (- 1)"

definition outer_ipv4_mut ::
    "packet \<Rightarrow> (bytes \<Rightarrow> ('a \<times> bytes) tool_result) \<Rightarrow> ('a option \<times> packet) tool_result" where
  "outer_ipv4_mut pkt = with_viewer_mut pkt Ipv4 (- 1)"

definition outer_ipv6_mut ::
    "packet \<Rightarrow> (bytes \<Rightarrow> ('a \<times> bytes) tool_result) \<Rightarrow> ('a option \<times> packet) tool_result" where
  "outer_ipv6_mut pkt = with_viewer_mut pkt Ipv6 (- 1)"

definition is_chain_layer :: "layer \<Rightarrow> bool" where
  "is_chain_layer l =
    (layer_is l Ipv6Hopopt \<or> layer_is l Ipv6DestOpts \<or> layer_is l Ipv6Route \<or> layer_is l Ipv6Frag \<or>
     layer_is l Ah \<or> layer_is l Ipv6Mobility \<or> layer_is l Ipv6Hip \<or> layer_is l Ipv6Shim6)"

text \<open>The layers of \<^verbatim>\<open>chain_range\<close>, behind the first IPv6 layer.\<close>

definition chain_layers :: "packet \<Rightarrow> layer list option" where
  "chain_layers pkt =
    (case dropWhile (\<lambda>l. \<not> layer_is l Ipv6) (pkt_layers pkt) of
       [] \<Rightarrow> None
     | _ # behind \<Rightarrow> Some (takeWhile is_chain_layer behind))"

fun walk_chain :: "packet \<Rightarrow> layer list \<Rightarrow> 8 word \<Rightarrow> 8 word tool_result" where
  "walk_chain pkt [] nh = TOk nh"
| "walk_chain pkt (l # ls) nh =
    t_bind (layer_view l pkt) (\<lambda>b. t_bind (fetch (byte_at b 0)) (\<lambda>nh. walk_chain pkt ls nh))"

definition next_header :: "packet \<Rightarrow> 8 word option tool_result" where
  "next_header pkt =
    (case find (\<lambda>l. layer_is l Ipv6) (pkt_layers pkt) of
       None \<Rightarrow> TOk None
     | Some ipv6 \<Rightarrow>
         t_bind (layer_view ipv6 pkt) (\<lambda>b.
         t_bind (fetch (ipv6_next_header b)) (\<lambda>nh.
         case chain_layers pkt of
           None \<Rightarrow> TOk None
         | Some ls \<Rightarrow> t_bind (walk_chain pkt ls nh) (\<lambda>nh. TOk (Some nh)))))"

definition chain_viewer :: "packet \<Rightarrow> proto \<Rightarrow> bytes option tool_result" where
  "chain_viewer pkt p =
    (case chain_layers pkt of
       None \<Rightarrow> TOk None
     | Some ls \<Rightarrow>
         (case find (\<lambda>l. layer_is l p) ls of
            None \<Rightarrow> TOk None
          | Some l \<Rightarrow> t_bind (layer_view l pkt) (\<lambda>b. TOk (Some b))))"

definition outer_fragment :: "packet \<Rightarrow> bytes option tool_result" where
  "outer_fragment pkt = chain_viewer pkt Ipv6Frag"

definition outer_transport :: "packet \<Rightarrow> 8 word option tool_result" where
  "outer_transport pkt =
    (if outer_ip_family pkt = Some IpFamilyV4
     then t_bind (outer_ipv4 pkt) (\<lambda>ipv4. case ipv4 of
            None \<Rightarrow> TOk None
          | Some hdr \<Rightarrow> t_bind (fetch (ipv4_protocol hdr)) (\<lambda>p. TOk (Some p)))
     else next_header pkt)"

section \<open>What the mapping reads\<close>

definition layer_ports :: "packet \<Rightarrow> proto \<Rightarrow> (bytes \<Rightarrow> 16 word option) \<Rightarrow> (bytes \<Rightarrow> 16 word option) \<Rightarrow>
    (16 word \<times> 16 word \<times> bool) tool_result" where
  "layer_ports pkt p src dst =
    t_bind (nth_layer_viewer pkt p (- 1)) (\<lambda>v. case v of
      None \<Rightarrow> TOk (0, 0, False)
    | Some hdr \<Rightarrow>
        t_bind (fetch (src hdr)) (\<lambda>s. t_bind (fetch (dst hdr)) (\<lambda>d. TOk (s, d, True))))"

definition packet_ports :: "packet \<Rightarrow> (16 word \<times> 16 word \<times> bool) tool_result" where
  "packet_ports pkt =
    t_bind (outer_transport pkt) (\<lambda>t.
      if t = Some ip_tcp then layer_ports pkt Tcp tcp_src_port tcp_dst_port
      else if t = Some ip_udp then layer_ports pkt Udp udp_src_port udp_dst_port
      else TOk (0, 0, False))"

definition from_ipv4 :: "packet \<Rightarrow> bytes \<Rightarrow> packet_info tool_result" where
  "from_ipv4 pkt ipv4 =
    t_bind (packet_ports pkt) (\<lambda>(src_port, dst_port, has_ports).
    t_bind (fetch (ipv4_flags ipv4)) (\<lambda>flags.
    t_bind (fetch (ipv4_fragment_offset ipv4)) (\<lambda>fragment_offset.
    t_bind (fetch (ipv4_src ipv4)) (\<lambda>src.
    t_bind (fetch (ipv4_dst ipv4)) (\<lambda>dst.
    t_bind (fetch (ipv4_protocol ipv4)) (\<lambda>proto.
    t_bind (if fragment_offset \<noteq> 0 \<or> flags AND 1 \<noteq> 0
            then t_bind (fetch (ipv4_identification ipv4)) (\<lambda>i.
              TOk (Some \<lparr>fk_src = V4 src, fk_dst = V4 dst, fk_proto = proto, fk_id = ucast i\<rparr>))
            else TOk None) (\<lambda>fragment.
    TOk \<lparr>pi_src = V4 src, pi_dst = V4 dst, pi_proto = proto, pi_src_port = src_port,
         pi_dst_port = dst_port, pi_has_ports = has_ports, pi_fragment = fragment\<rparr>)))))))"

definition from_ipv6 :: "packet \<Rightarrow> bytes \<Rightarrow> packet_info tool_result" where
  "from_ipv6 pkt ipv6 =
    t_bind (packet_ports pkt) (\<lambda>(src_port, dst_port, has_ports).
    t_bind (fetch (ipv6_src ipv6)) (\<lambda>src.
    t_bind (fetch (ipv6_dst ipv6)) (\<lambda>dst.
    t_bind (t_bind (next_header pkt) (\<lambda>nh. case nh of
              Some p \<Rightarrow> TOk p | None \<Rightarrow> fetch (ipv6_next_header ipv6))) (\<lambda>proto.
    t_bind (t_bind (outer_fragment pkt) (\<lambda>f. case f of
              None \<Rightarrow> TOk None
            | Some frag \<Rightarrow>
                t_bind (fetch (ext_next_header frag)) (\<lambda>p.
                t_bind (fetch (frag_identification frag)) (\<lambda>i.
                TOk (Some \<lparr>fk_src = V6 src, fk_dst = V6 dst, fk_proto = p, fk_id = i\<rparr>))))) (\<lambda>fragment.
    TOk \<lparr>pi_src = V6 src, pi_dst = V6 dst, pi_proto = proto, pi_src_port = src_port,
         pi_dst_port = dst_port, pi_has_ports = has_ports, pi_fragment = fragment\<rparr>)))))"

definition packet_info_read :: "packet \<Rightarrow> packet_info option tool_result" where
  "packet_info_read pkt =
    (case outer_ip_family pkt of
       None \<Rightarrow> TOk None
     | Some IpFamilyV4 \<Rightarrow>
         t_bind (outer_ipv4 pkt) (\<lambda>v. case v of
           None \<Rightarrow> TOk None
         | Some hdr \<Rightarrow> t_bind (from_ipv4 pkt hdr) (\<lambda>i. TOk (Some i)))
     | Some IpFamilyV6 \<Rightarrow>
         t_bind (outer_ipv6 pkt) (\<lambda>v. case v of
           None \<Rightarrow> TOk None
         | Some hdr \<Rightarrow> t_bind (from_ipv6 pkt hdr) (\<lambda>i. TOk (Some i))))"

section \<open>What the mapping writes\<close>

definition set_ipv4_addrs :: "targets \<Rightarrow> bytes \<Rightarrow> bytes tool_result" where
  "set_ipv4_addrs t hdr =
    t_bind (case tg_src t of Some (V4 a) \<Rightarrow> ipv4_set_src a hdr | _ \<Rightarrow> TOk hdr) (\<lambda>hdr.
    case tg_dst t of Some (V4 a) \<Rightarrow> ipv4_set_dst a hdr | _ \<Rightarrow> TOk hdr)"

definition set_ipv6_addrs :: "targets \<Rightarrow> bytes \<Rightarrow> bytes tool_result" where
  "set_ipv6_addrs t hdr =
    t_bind (case tg_src t of Some (V6 a) \<Rightarrow> ipv6_set_src a hdr | _ \<Rightarrow> TOk hdr) (\<lambda>hdr.
    case tg_dst t of Some (V6 a) \<Rightarrow> ipv6_set_dst a hdr | _ \<Rightarrow> TOk hdr)"

definition apply_targets :: "packet \<Rightarrow> targets \<Rightarrow> packet tool_result" where
  "apply_targets pkt t =
    (case outer_ip_family pkt of
       None \<Rightarrow> TOk pkt
     | Some IpFamilyV4 \<Rightarrow> t_bind (outer_ipv4_mut pkt (setting (set_ipv4_addrs t))) (\<lambda>(_, pkt). TOk pkt)
     | Some IpFamilyV6 \<Rightarrow> t_bind (outer_ipv6_mut pkt (setting (set_ipv6_addrs t))) (\<lambda>(_, pkt). TOk pkt))"

section \<open>The transport segment\<close>

definition ip_bounds :: "packet \<Rightarrow> (nat \<times> nat \<times> nat) option tool_result" where
  "ip_bounds pkt =
    (case outer_ip_family pkt of
       None \<Rightarrow> TOk None
     | Some IpFamilyV4 \<Rightarrow>
         t_bind (outer_ipv4 pkt) (\<lambda>v. case v of
           None \<Rightarrow> TOk None
         | Some hdr \<Rightarrow>
             t_bind (fetch (ipv4_header_len hdr)) (\<lambda>header_len.
             t_bind (fetch (ipv4_total_length hdr)) (\<lambda>tl.
             let total_length = unat tl in
             if total_length \<noteq> 0 \<and> total_length < header_len then TOk None
             else TOk (map_option (\<lambda>(start, _). (start, header_len, total_length - header_len))
               (nth_layer_range pkt Ipv4 (- 1))))))
     | Some IpFamilyV6 \<Rightarrow>
         t_bind (outer_ipv6 pkt) (\<lambda>v. case v of
           None \<Rightarrow> TOk None
         | Some hdr \<Rightarrow>
             t_bind (fetch (ipv6_payload_length hdr)) (\<lambda>pl.
             TOk (map_option (\<lambda>(start, _). (start, 40, unat pl)) (nth_layer_range pkt Ipv6 (- 1))))))"

definition transport_layer :: "8 word \<Rightarrow> proto option" where
  "transport_layer p =
    (if p = ip_tcp then Some Tcp else if p = ip_udp then Some Udp
     else if p = ip_ipv6_icmp then Some Icmpv6 else None)"

definition transport_segment :: "packet \<Rightarrow> bytes option tool_result" where
  "transport_segment pkt =
    t_bind (ip_bounds pkt) (\<lambda>bounds. case bounds of
      None \<Rightarrow> TOk None
    | Some (ip_offset, header_len, payload_len) \<Rightarrow>
        t_bind (outer_transport pkt) (\<lambda>t.
        case Option.bind (Option.bind t transport_layer) (\<lambda>q. nth_layer_range pkt q (- 1)) of
          None \<Rightarrow> TOk None
        | Some (l4_offset, _) \<Rightarrow>
            if l4_offset < ip_offset + header_len then TOk None
            else
              let end' = (if payload_len = 0 then length (pkt_bytes pkt)
                          else ip_offset + header_len + payload_len)
              in TOk (slice (pkt_bytes pkt) l4_offset end')))"

end
