(* ===== verification/Flow_Rewrite.thy ===== *)
theory Flow_Rewrite
  imports Flow_Map Packet
begin

text \<open>
  The keyed address mapping applied to packets: what the targets of a validated \<^verbatim>\<open>flow_map\<close>
  (\<^verbatim>\<open>tools/maja-mergecap/src/map/flow.rs\<close>) are, whatever the policies, the tables and the generator
  do.
\<close>

section \<open>Targets of a validated configuration\<close>

text \<open>What a compiled entry of a validated configuration looks like.\<close>

definition sound_entry :: "'n ipnet \<Rightarrow> 'n compiled_entry \<Rightarrow> bool" where
  "sound_entry N e =
    (\<exists>n. ce_from e = Some n \<and>
       (case ce_action e of
          ActFixed ip \<Rightarrow> family_of_addr ip = net_family N n
        | ActMask m \<Rightarrow> net_family N m = net_family N n
        | ActPool p _ \<Rightarrow> \<exists>m. p = pool_from_nets N [m] \<and> net_family N m = net_family N n))"

definition gives :: "'n ipnet \<Rightarrow> 'n compiled_entry \<Rightarrow> ip_addr \<Rightarrow> ip_addr \<Rightarrow> bool" where
  "gives N e a b =
    (case ce_action e of
       ActFixed ip \<Rightarrow> b = ip
     | ActMask n \<Rightarrow> mask_map N n a = Some b
     | ActPool p _ \<Rightarrow> \<exists>k. addr_at N p k = TOk (Some b))"

definition good_target :: "'n ipnet \<Rightarrow> 'n flow_cfg \<Rightarrow> ip_addr \<Rightarrow> ip_addr option \<Rightarrow> bool" where
  "good_target N cfg a t =
    (if excluded N cfg a then t = None
     else case classify N cfg a of
            None \<Rightarrow> t = None
          | Some e \<Rightarrow> \<exists>b. t = Some b \<and> gives N (fc_entries cfg ! e) a b)"

definition sound_slot :: "'n ipnet \<Rightarrow> 'n flow_cfg \<Rightarrow> 'r alloc_slot \<Rightarrow> bool" where
  "sound_slot N cfg s =
    (length (as_sequences s) = length (fc_entries cfg) \<and>
     (\<forall>i b. as_table s i = Some b \<longrightarrow> gives N (fc_entries cfg ! ai_entry i) (ai_addr i) b))"

definition sound_group :: "'n ipnet \<Rightarrow> 'n flow_cfg \<Rightarrow> 'r group_state \<Rightarrow> bool" where
  "sound_group N cfg g =
    (\<forall>f t. gr_fragments g f = Some t \<longrightarrow>
       good_target N cfg (fk_src f) (tg_src t) \<and> good_target N cfg (fk_dst f) (tg_dst t))"

definition sound_state :: "'n ipnet \<Rightarrow> 'n flow_cfg \<Rightarrow> nat \<Rightarrow> ('n, 'r) flow_state \<Rightarrow> bool" where
  "sound_state N cfg groups st =
    (fs_cfg st = cfg \<and> length (fs_groups st) = groups \<and>
     (\<forall>g \<in> set (fs_groups st). sound_group N cfg g) \<and>
     (case fs_allocation st of
        None \<Rightarrow> \<not> cfg_is_stateful cfg
      | Some al \<Rightarrow> al_slots al \<noteq> [] \<and> (\<forall>s \<in> set (al_slots al). sound_slot N cfg s)))"

lemma takeWhile_less: "length (takeWhile P xs) < length xs \<longleftrightarrow> (\<exists>x \<in> set xs. \<not> P x)"
  by (induction xs) auto

lemma classify_None: "classify N cfg a = None \<longleftrightarrow> (\<forall>e \<in> set (fc_entries cfg). \<not> in_scope N a e)"
  by (simp add: classify_def Let_def takeWhile_less)

lemma classify_Some:
  "classify N cfg a = Some e \<Longrightarrow> e < length (fc_entries cfg) \<and> in_scope N a (fc_entries cfg ! e)"
  using nth_length_takeWhile [of "\<lambda>e. \<not> in_scope N a e" "fc_entries cfg"]
  by (auto simp: classify_def Let_def split: if_splits)

lemma sound_state_update:
  assumes "sound_state N cfg groups st" and "byte_at (fs_groups st) grp = Some g" and "sound_group N cfg g'"
  shows "sound_state N cfg groups (st\<lparr>fs_groups := (fs_groups st)[grp := g']\<rparr>)"
  using assms set_update_subset_insert [of "fs_groups st" grp g'] by (auto simp: sound_state_def)

context ip_nets
begin

lemma aligned_family: "net_contains N n a \<Longrightarrow> family_of_addr a = net_family N n"
  by (simp add: contains aligned_def)

lemma mask_map_aligned:
  assumes "net_family N m = family_of_addr a"
  shows "\<exists>b. mask_map N m a = Some b \<and> net_contains N m b"
proof -
  let ?h = "host_bits N m"
  have net: "family_of_addr (net_network N m) = family_of_addr a" using network_family assms by simp
  have le: "?h \<le> family_bits (family_of_addr a)" using assms by (simp add: host_bits_def)
  have mask: "net_hostmask N m = to_addr (family_of_addr a) (2 ^ ?h - 1)" using hostmask assms by simp
  show ?thesis
  proof (cases a)
    case (V4 x)
    then obtain y where y: "net_network N m = V4 y" using net by (cases "net_network N m") (auto simp: family_of_addr_def)
    have h: "word_of_nat (2 ^ ?h - 1) = (mask ?h :: 32 word)" by (simp add: mask_eq_exp_minus_1)
    have "drop_bit ?h (y OR (x AND mask ?h)) = drop_bit ?h y"
      by (rule bit_word_eqI) (auto simp: bit_simps)
    then have "unat (y OR (x AND mask ?h)) div 2 ^ ?h = unat y div 2 ^ ?h"
      by (metis drop_bit_eq_div unat_drop_bit_eq)
    then show ?thesis
      using V4 y h mask assms
      by (auto simp: mask_map_def contains aligned_def to_addr_def net_base_def addr_to_u128_def family_of_addr_def)
  next
    case (V6 x)
    then obtain y where y: "net_network N m = V6 y" using net by (cases "net_network N m") (auto simp: family_of_addr_def)
    have h: "word_of_nat (2 ^ ?h - 1) = (mask ?h :: 128 word)" by (simp add: mask_eq_exp_minus_1)
    have "drop_bit ?h (y OR (x AND mask ?h)) = drop_bit ?h y"
      by (rule bit_word_eqI) (auto simp: bit_simps)
    then have "unat (y OR (x AND mask ?h)) div 2 ^ ?h = unat y div 2 ^ ?h"
      by (metis drop_bit_eq_div unat_drop_bit_eq)
    then show ?thesis
      using V6 y h mask assms
      by (auto simp: mask_map_def contains aligned_def to_addr_def net_base_def addr_to_u128_def family_of_addr_def)
  qed
qed

lemma sticky_sound:
  assumes "sound_slot N cfg s" and "ce_action (fc_entries cfg ! ai_entry i) = ActPool p pol"
    and "p = pool_from_nets N [m]"
  shows "\<exists>b s'. sticky N R p i s = TOk (Some b, s') \<and> sound_slot N cfg s' \<and>
    gives N (fc_entries cfg ! ai_entry i) (ai_addr i) b"
proof (cases "as_table s i")
  case None
  obtain k rng where k: "random_range R 0 (pool_total p) (as_rng s) = (k, rng)" by fastforce
  obtain b where b: "addr_at N p k = TOk (Some b)" using addr_at_in_hosts [of "[m]" k] assms(3) by auto
  have "pool_choose N (random_range R) p (as_rng s) = (TOk (Some b), rng)"
    using k b pool_total_pos [of "[m]" N] assms(3) by (simp add: pool_choose_def)
  then show ?thesis using None assms(1,2) b by (auto simp: sticky_def remember_def sound_slot_def gives_def)
qed (use assms(1) in \<open>auto simp: sticky_def sound_slot_def\<close>)

lemma unique_sound:
  assumes "sound_slot N cfg s" and "ce_action (fc_entries cfg ! ai_entry i) = ActPool p pol"
    and "p = pool_from_nets N [m]" and "ai_entry i < length (fc_entries cfg)"
  shows "\<exists>b s'. unique N p i s = TOk (Some b, s') \<and> sound_slot N cfg s' \<and>
    gives N (fc_entries cfg ! ai_entry i) (ai_addr i) b"
proof (cases "as_table s i")
  case None
  have sq: "byte_at (as_sequences s) (ai_entry i) = Some (as_sequences s ! ai_entry i)"
    using assms(1,4) by (simp add: sound_slot_def byte_at_def)
  have "0 < pool_total p" using pool_total_pos [of "[m]" N] assms(3) by simp
  then obtain k w sq' where k: "next_index (as_sequences s ! ai_entry i) (pool_total p) = TOk (k, w, sq')"
    by (simp add: next_index_def)
  obtain b where b: "addr_at N p k = TOk (Some b)" using addr_at_in_hosts [of "[m]" k] assms(3) by auto
  show ?thesis
    using None assms(1,2) sq k b by (auto simp: unique_def remember_def sound_slot_def gives_def)
qed (use assms(1) in \<open>auto simp: unique_def sound_slot_def\<close>)

lemma allocate_sound:
  assumes st: "sound_state N cfg groups st" and e: "e < length (fc_entries cfg)"
    and act: "ce_action (fc_entries cfg ! e) = ActPool p pol" "p = pool_from_nets N [m]" "is_stateful pol"
  shows "\<exists>b st'. allocate N R pol p \<lparr>ai_entry = e, ai_identity = ident, ai_addr = a\<rparr> grp st = TOk (Some b, st') \<and>
    sound_state N cfg groups st' \<and> gives N (fc_entries cfg ! e) a b"
proof -
  let ?i = "\<lparr>ai_entry = e, ai_identity = ident, ai_addr = a\<rparr>"
  have "cfg_is_stateful cfg"
    using e act(1,3) by (auto simp: cfg_is_stateful_def has_policy_def list_ex_length)
  then obtain al where al: "fs_allocation st = Some al" "al_slots al \<noteq> []" "\<forall>s \<in> set (al_slots al). sound_slot N cfg s"
    using st by (auto simp: sound_state_def split: option.splits)
  have k: "slot_index al grp < length (al_slots al)" using al(2) by (simp add: slot_index_def min_def flip: length_greater_0_conv) linarith
  have slot: "sound_slot N cfg (al_slots al ! slot_index al grp)" using al(3) k by simp
  obtain b s' where s': "(if pol = PolicySticky then sticky N R p ?i (al_slots al ! slot_index al grp)
      else unique N p ?i (al_slots al ! slot_index al grp)) = TOk (Some b, s')"
    "sound_slot N cfg s'" "gives N (fc_entries cfg ! e) a b"
    using sticky_sound [OF slot, of ?i p pol m R] unique_sound [OF slot, of ?i p pol m] e act
    by (cases "pol = PolicySticky") force+
  have "\<forall>s \<in> set ((al_slots al)[slot_index al grp := s']). sound_slot N cfg s"
    using al(3) s'(2) set_update_subset_insert [of "al_slots al" "slot_index al grp" s'] by blast
  then show ?thesis
    using st al(1,2) k s' by (auto simp: allocate_def sound_state_def)
qed

lemma draw_random_sound:
  assumes "sound_state N cfg groups st" and "grp < groups" and "p = pool_from_nets N [m]"
  shows "\<exists>b st'. draw_random N R p grp st = TOk (Some b, st') \<and> sound_state N cfg groups st' \<and>
    (\<exists>k. addr_at N p k = TOk (Some b))"
proof -
  obtain g where g: "byte_at (fs_groups st) grp = Some g" "sound_group N cfg g"
    using assms(1,2) by (auto simp: sound_state_def)
  obtain k rng where k: "random_range R 0 (pool_total p) (gr_rng g) = (k, rng)" by fastforce
  obtain b where b: "addr_at N p k = TOk (Some b)" using addr_at_in_hosts [of "[m]" k] assms(3) by auto
  have "pool_choose N (random_range R) p (gr_rng g) = (TOk (Some b), rng)"
    using k b pool_total_pos [of "[m]" N] assms(3) by (simp add: pool_choose_def)
  moreover have "sound_state N cfg groups (st\<lparr>fs_groups := (fs_groups st)[grp := g\<lparr>gr_rng := rng\<rparr>]\<rparr>)"
    using sound_state_update [OF assms(1) g(1)] g(2) by (simp add: sound_group_def)
  ultimately show ?thesis using g(1) b by (auto simp: draw_random_def)
qed

lemma target_for_sound:
  assumes st: "sound_state N cfg groups st" and grp: "grp < groups"
    and entries: "\<forall>e \<in> set (fc_entries cfg). sound_entry N e"
  shows "\<exists>t st'. target_for N R grp a session fragment st = TOk (t, st') \<and> sound_state N cfg groups st' \<and>
    good_target N cfg a t"
proof -
  have cfg: "fs_cfg st = cfg" using st by (simp add: sound_state_def)
  have warned: "sound_state N cfg groups (st\<lparr>fs_warned_unmatched := w\<rparr>)" for w using st by (simp add: sound_state_def)
  show ?thesis
  proof (cases "excluded N cfg a \<or> classify N cfg a = None")
    case True
    then show ?thesis using st warned cfg by (auto simp: target_for_def good_target_def)
  next
    case False
    then obtain e where e: "classify N cfg a = Some e" by auto
    have len: "e < length (fc_entries cfg)" using classify_Some [OF e] by simp
    have scope: "in_scope N a (fc_entries cfg ! e)" using classify_Some [OF e] by simp
    obtain n where n: "ce_from (fc_entries cfg ! e) = Some n" using entries nth_mem [OF len] by (auto simp: sound_entry_def)
    have fam: "family_of_addr a = net_family N n" using scope n by (simp add: in_scope_def aligned_family)
    have sound: "sound_entry N (fc_entries cfg ! e)" using entries len by simp
    have good: "good_target N cfg a (Some b)" if "gives N (fc_entries cfg ! e) a b" for b
      using that e False by (simp add: good_target_def)
    show ?thesis
    proof (cases "ce_action (fc_entries cfg ! e)")
      case (ActFixed ip)
      then have "target_for N R grp a session fragment st = TOk (Some ip, st)"
        using False cfg e n sound fam by (simp add: target_for_def sound_entry_def)
      then show ?thesis using st good ActFixed by (simp add: gives_def)
    next
      case (ActMask m)
      then obtain b where "mask_map N m a = Some b"
        using sound n fam mask_map_aligned [of m a] by (auto simp: sound_entry_def)
      then show ?thesis using False cfg e ActMask st good by (simp add: target_for_def gives_def)
    next
      case (ActPool p pol)
      then obtain m where m: "p = pool_from_nets N [m]" using sound n by (auto simp: sound_entry_def)
      have pos: "pool_total p \<noteq> 0" using pool_total_pos [of "[m]" N] m by simp
      have gives: "gives N (fc_entries cfg ! e) a b" if "addr_at N p k = TOk (Some b)" for b k
        using that ActPool by (auto simp: gives_def)
      show ?thesis
      proof (cases pol)
        case PolicyRandom
        then show ?thesis
          using False cfg e ActPool pos draw_random_sound [OF st grp m, of R] gives good
          by (auto simp: target_for_def)
      next
        case PolicyHash
        obtain b where "addr_at N p (hash_index (fs_hash_seed st) e a (identity_of (fc_key cfg) session fragment)
            (pool_total p)) = TOk (Some b)"
          using addr_at_in_hosts [of "[m]"] m by fastforce
        then show ?thesis
          using False cfg e ActPool pos gives good PolicyHash st by (auto simp: target_for_def)
      next
        case PolicySticky
        then show ?thesis
          using False cfg e ActPool pos good allocate_sound [OF st len ActPool m, of R _ a grp]
          by (fastforce simp: target_for_def is_stateful_def)
      next
        case PolicyUnique
        then show ?thesis
          using False cfg e ActPool pos good allocate_sound [OF st len ActPool m, of R _ a grp]
          by (fastforce simp: target_for_def is_stateful_def)
      qed
    qed
  qed
qed

lemma targets_for_sound:
  assumes "sound_state N cfg groups st" and "grp < groups" and "\<forall>e \<in> set (fc_entries cfg). sound_entry N e"
  shows "\<exists>t st'. targets_for N R grp info fragment st = TOk (t, st') \<and> sound_state N cfg groups st' \<and>
    good_target N cfg (pi_src info) (tg_src t) \<and> good_target N cfg (pi_dst info) (tg_dst t)"
proof -
  obtain s st1 where 1: "target_for N R grp (pi_src info) (info_session info) fragment st = TOk (s, st1)"
    "sound_state N cfg groups st1" "good_target N cfg (pi_src info) s"
    using target_for_sound [OF assms] by blast
  obtain d st2 where 2: "target_for N R grp (pi_dst info) (info_session info) fragment st1 = TOk (d, st2)"
    "sound_state N cfg groups st2" "good_target N cfg (pi_dst info) d"
    using target_for_sound [OF 1(2) assms(2,3)] by blast
  show ?thesis using 1 2 by (simp add: targets_for_def)
qed

lemma packet_targets_sound:
  assumes st: "sound_state N cfg groups st" and grp: "grp < groups"
    and entries: "\<forall>e \<in> set (fc_entries cfg). sound_entry N e"
    and frag: "\<forall>f. pi_fragment info = Some f \<longrightarrow> fk_src f = pi_src info \<and> fk_dst f = pi_dst info"
  shows "\<exists>t st'. packet_targets N R grp info st = TOk (t, st') \<and> sound_state N cfg groups st' \<and>
    good_target N cfg (pi_src info) (tg_src t) \<and> good_target N cfg (pi_dst info) (tg_dst t)"
proof (cases "if fc_fragments (fs_cfg st) then pi_fragment info else None")
  case None
  then show ?thesis using targets_for_sound [OF st grp entries] by (auto simp: packet_targets_def)
next
  case (Some f)
  then have f: "fk_src f = pi_src info" "fk_dst f = pi_dst info" using frag by (auto split: if_splits)
  show ?thesis
  proof (cases "needs_alias N (fs_cfg st) info")
    case False
    then show ?thesis using Some targets_for_sound [OF st grp entries] by (auto simp: packet_targets_def)
  next
    case True
    obtain g where g: "byte_at (fs_groups st) grp = Some g" "sound_group N cfg g"
      using st grp by (auto simp: sound_state_def)
    show ?thesis
    proof (cases "gr_fragments g f")
      case (Some t)
      have "good_target N cfg (fk_src f) (tg_src t) \<and> good_target N cfg (fk_dst f) (tg_dst t)"
        using g(2) Some unfolding sound_group_def by blast
      then show ?thesis
        using True g(1) st f Some \<open>(if _ then _ else _) = Some f\<close> by (simp add: packet_targets_def)
    next
      case None
      obtain t st1 where 1: "targets_for N R grp info (Some f) st = TOk (t, st1)" "sound_state N cfg groups st1"
        "good_target N cfg (pi_src info) (tg_src t)" "good_target N cfg (pi_dst info) (tg_dst t)"
        using targets_for_sound [OF st grp entries] by blast
      obtain g1 where g1: "byte_at (fs_groups st1) grp = Some g1" "sound_group N cfg g1"
        using 1(2) grp by (auto simp: sound_state_def)
      have "sound_group N cfg (g1\<lparr>gr_fragments := (gr_fragments g1)(f \<mapsto> t)\<rparr>)"
        using g1(2) 1(3,4) f by (auto simp: sound_group_def)
      then show ?thesis
        using True Some None g g1(1) 1 sound_state_update [OF 1(2) g1(1)]
        by (auto simp: packet_targets_def)
    qed
  qed
qed

end

text \<open>The packets of a file, each with its group.\<close>

fun targets_run :: "'n ipnet \<Rightarrow> 'r rand_crate \<Rightarrow> (nat \<times> packet_info) list \<Rightarrow> ('n, 'r) flow_state \<Rightarrow>
    (targets list \<times> ('n, 'r) flow_state) tool_result" where
  "targets_run N R [] st = TOk ([], st)"
| "targets_run N R ((grp, info) # rest) st =
    t_bind (packet_targets N R grp info st) (\<lambda>(t, st).
    t_bind (targets_run N R rest st) (\<lambda>(ts, st). TOk (t # ts, st)))"

definition consistent_info :: "packet_info \<Rightarrow> bool" where
  "consistent_info info =
    (\<forall>f. pi_fragment info = Some f \<longrightarrow> fk_src f = pi_src info \<and> fk_dst f = pi_dst info)"

lemma targets_run_sound:
  assumes "ip_nets N" and "\<forall>e \<in> set (fc_entries cfg). sound_entry N e"
    and "sound_state N cfg groups st" and "\<forall>(grp, info) \<in> set ps. grp < groups \<and> consistent_info info"
  shows "\<exists>ts st'. targets_run N R ps st = TOk (ts, st') \<and>
    list_all2 (\<lambda>(_, info) t. good_target N cfg (pi_src info) (tg_src t) \<and> good_target N cfg (pi_dst info) (tg_dst t)) ps ts"
  using assms(3,4)
proof (induction ps arbitrary: st)
  case (Cons p ps)
  obtain grp info where p: "p = (grp, info)" by fastforce
  obtain t st1 where 1: "packet_targets N R grp info st = TOk (t, st1)" "sound_state N cfg groups st1"
    "good_target N cfg (pi_src info) (tg_src t)" "good_target N cfg (pi_dst info) (tg_dst t)"
    using ip_nets.packet_targets_sound [OF assms(1) Cons.prems(1) _ assms(2), of grp info R] Cons.prems(2) p
    by (auto simp: consistent_info_def)
  obtain ts st2 where "targets_run N R ps st1 = TOk (ts, st2)"
    "list_all2 (\<lambda>(_, info) t. good_target N cfg (pi_src info) (tg_src t) \<and> good_target N cfg (pi_dst info) (tg_dst t)) ps ts"
    using Cons.IH [OF 1(2)] Cons.prems(2) by auto
  then show ?case using 1 p by simp
qed simp

lemma sequences_new_length: "sequences_new R lens rng = (ss, rng') \<Longrightarrow> length ss = length lens"
  by (induction lens arbitrary: rng ss rng') (auto split: prod.splits)

lemma alloc_slot_new_sound: "sound_slot N cfg (alloc_slot_new R seed salt (map pool_len (fc_entries cfg)))"
  by (auto simp: alloc_slot_new_def sound_slot_def dest: sequences_new_length split: prod.splits)

lemma flow_state_new_sound:
  "sound_state N cfg (max groups 1) (flow_state_new R cfg hash_seed file_seed groups sharing None)"
proof -
  have "sound_group N cfg \<lparr>gr_rng = r, gr_fragments = Map.empty\<rparr>" for r by (simp add: sound_group_def)
  then show ?thesis
    by (auto simp: flow_state_new_def sound_state_def allocation_new_def Let_def option_or_def alloc_slot_new_sound
        split: map_sharing.splits)
qed

section \<open>What validation and compilation establish\<close>

lemma collect_results_map: "collect_results (map Inr xs) = Inr xs"
  by (induction xs) simp_all

lemma collect_results_Inr: "collect_results rs = Inr xs \<longleftrightarrow> rs = map Inr xs"
proof
  show "collect_results rs = Inr xs \<Longrightarrow> rs = map Inr xs"
    by (induction rs arbitrary: xs) (auto split: sum.splits)
qed (simp add: collect_results_map)

lemma compile_entry_from: "compile_entry N e d = Inr ce \<Longrightarrow> ce_from ce = me_from e"
  by (auto simp: compile_entry_def split: map_shape.splits target.splits)

lemma compiled_entries:
  assumes "flow_cfg_compile N f = Inr cfg"
  obtains es where "map (\<lambda>e. compile_entry N e (fm_policy f)) (fm_entries f) = map Inr es"
    "fc_entries cfg = sort_entries N es" "fc_exclude cfg = fm_exclude f" "length es = length (fm_entries f)"
proof -
  obtain es where "map (\<lambda>e. compile_entry N e (fm_policy f)) (fm_entries f) = map Inr es"
    "fc_entries cfg = sort_entries N es" "fc_exclude cfg = fm_exclude f"
    using assms by (auto simp: flow_cfg_compile_def collect_results_Inr split: sum.splits)
  then show thesis using that by (metis length_map)
qed

lemma compiled_iff:
  assumes "flow_cfg_compile N f = Inr cfg"
  shows "ce \<in> set (fc_entries cfg) \<longleftrightarrow> (\<exists>e \<in> set (fm_entries f). compile_entry N e (fm_policy f) = Inr ce)"
proof -
  obtain es where es: "map (\<lambda>e. compile_entry N e (fm_policy f)) (fm_entries f) = map Inr es"
    "fc_entries cfg = sort_entries N es" by (rule compiled_entries [OF assms])
  have "ce \<in> set es \<longleftrightarrow> (Inr ce :: string + _) \<in> set (map Inr es)" by auto
  also have "\<dots> \<longleftrightarrow> Inr ce \<in> set (map (\<lambda>e. compile_entry N e (fm_policy f)) (fm_entries f))" unfolding es(1) ..
  also have "\<dots> \<longleftrightarrow> (\<exists>e \<in> set (fm_entries f). compile_entry N e (fm_policy f) = Inr ce)" by (auto simp: eq_commute)
  finally show ?thesis using es(2) by (simp add: sort_entries_def)
qed

context ip_nets
begin

lemma target_net_family: "net_family N (target_net N (TargetIp ip)) = family_of_addr ip"
  using network_family [of "net_from N ip"] from_addr [of ip] by (simp add: target_net_def)

lemma check_entry_sound:
  assumes "check_entry N e ctx = None" and "me_from e = Some n" and "compile_entry N e d = Inr ce"
  shows "sound_entry N ce \<and>
    (\<forall>a b. gives N ce a b \<and> net_contains N n a \<longrightarrow> family_of_addr b = family_of_addr a \<and>
      (case me_to e of TargetIp ip \<Rightarrow> b = ip | TargetNet m \<Rightarrow> net_contains N m b))"
proof -
  have fam: "net_family N n = net_family N (target_net N (me_to e))"
    using assms(1,2) unfolding check_entry_def first_error_None by (simp add: same_family_def)
  have mask: "net_contains N m b \<and> family_of_addr b = net_family N m"
    if "mask_map N m a = Some b" "net_family N m = family_of_addr a" for m a b
    using mask_map_aligned [of m a] that by (auto dest: aligned_family)
  have pool: "net_contains N m b \<and> family_of_addr b = net_family N m"
    if "addr_at N (pool_from_nets N [m]) k = TOk (Some b)" for m k b
    using addr_at_in_hosts [of "[m]" k] that by (auto simp: hosts_def dest: aligned_family)
  show ?thesis
  proof (cases "me_to e")
    case (TargetIp ip)
    then have "ce = \<lparr>ce_from = Some n, ce_action = ActFixed ip\<rparr>"
      using assms(2,3) by (auto simp: compile_entry_def split: map_shape.splits)
    then show ?thesis
      using TargetIp fam target_net_family [of ip] by (auto simp: sound_entry_def gives_def aligned_family)
  next
    case (TargetNet m)
    then consider "ce = \<lparr>ce_from = Some n, ce_action = ActMask m\<rparr>"
      | "ce = \<lparr>ce_from = Some n, ce_action = ActPool (pool_from_nets N [m]) (entry_policy d e)\<rparr>"
      using assms(2,3) by (auto simp: compile_entry_def split: map_shape.splits)
    then show ?thesis
    proof cases
      case 1
      then show ?thesis
        using TargetNet fam mask
        by (auto simp: sound_entry_def gives_def target_net_def dest!: aligned_family)
    next
      case 2
      then show ?thesis
        using TargetNet fam pool
        by (auto simp: sound_entry_def gives_def target_net_def dest!: aligned_family)
    qed
  qed
qed

lemma compiled_sound:
  assumes "check_flow_map N f = None" and "flow_cfg_compile N f = Inr cfg"
    and "\<forall>e \<in> set (fm_entries f). me_from e \<noteq> None" and "ce \<in> set (fc_entries cfg)"
  obtains e n where "e \<in> set (fm_entries f)" "me_from e = Some n" "ce_from ce = Some n" "sound_entry N ce"
    "\<And>a b. gives N ce a b \<Longrightarrow> net_contains N n a \<Longrightarrow> family_of_addr b = family_of_addr a \<and>
      (case me_to e of TargetIp ip \<Rightarrow> b = ip | TargetNet m \<Rightarrow> net_contains N m b)"
proof -
  obtain e where e: "e \<in> set (fm_entries f)" "compile_entry N e (fm_policy f) = Inr ce"
    using assms(4) compiled_iff [OF assms(2)] by blast
  then obtain n where n: "me_from e = Some n" using assms(3) by auto
  have "check_entry N e ContextFlow = None"
    using assms(1) e(1) unfolding check_flow_map_def Let_def first_error_None by simp
  note sound = check_entry_sound [OF this n e(2)]
  have "ce_from ce = Some n" using compile_entry_from [OF e(2)] n by simp
  then show thesis using that [OF e(1) n] sound by blast
qed

end

text \<open>The target of an address, stated on the configuration alone.\<close>

definition target_allowed :: "'n ipnet \<Rightarrow> 'n flow_map \<Rightarrow> ip_addr \<Rightarrow> ip_addr option \<Rightarrow> bool" where
  "target_allowed N f a t =
    (case t of
       None \<Rightarrow> (\<exists>n \<in> set (fm_exclude f). net_contains N n a) \<or>
         (\<forall>e \<in> set (fm_entries f). \<forall>n. me_from e = Some n \<longrightarrow> \<not> net_contains N n a)
     | Some b \<Rightarrow>
         family_of_addr b = family_of_addr a \<and> (\<forall>n \<in> set (fm_exclude f). \<not> net_contains N n a) \<and>
         (\<exists>e \<in> set (fm_entries f). \<exists>n. me_from e = Some n \<and> net_contains N n a \<and>
           (\<forall>e' \<in> set (fm_entries f). \<forall>n'. me_from e' = Some n' \<and> net_contains N n' a \<longrightarrow>
             net_prefix_len N n' \<le> net_prefix_len N n) \<and>
           (case me_to e of TargetIp ip \<Rightarrow> b = ip | TargetNet m \<Rightarrow> net_contains N m b)))"

lemma classify_sorted:
  assumes "classify N cfg a = Some e" and "sorted (map k (fc_entries cfg))"
    and "ce \<in> set (fc_entries cfg)" and "in_scope N a ce"
  shows "k (fc_entries cfg ! e) \<le> k ce"
proof -
  have e: "e = length (takeWhile (\<lambda>e. \<not> in_scope N a e) (fc_entries cfg))"
    using assms(1) by (auto simp: classify_def Let_def split: if_splits)
  obtain j where j: "j < length (fc_entries cfg)" "ce = fc_entries cfg ! j" using assms(3) by (auto simp: in_set_conv_nth)
  have "\<not> j < e"
  proof
    assume "j < e"
    then have "ce \<in> set (takeWhile (\<lambda>e. \<not> in_scope N a e) (fc_entries cfg))"
      unfolding e j(2) by (metis nth_mem takeWhile_nth)
    then show False using assms(4) by (auto dest: set_takeWhileD)
  qed
  then show ?thesis using sorted_nth_mono [OF assms(2), of e j] j by simp
qed

lemma good_target_allowed:
  assumes "ip_nets N" and "check_flow_map N f = None" and "flow_cfg_compile N f = Inr cfg"
    and "\<forall>e \<in> set (fm_entries f). me_from e \<noteq> None" and "good_target N cfg a t"
  shows "target_allowed N f a t"
proof -
  obtain es where es: "fc_entries cfg = sort_entries N es" "fc_exclude cfg = fm_exclude f"
    by (rule compiled_entries [OF assms(3)])
  have excl: "excluded N cfg a \<longleftrightarrow> (\<exists>n \<in> set (fm_exclude f). net_contains N n a)"
    by (simp add: excluded_def es(2) list_ex_iff)
  have matches: "\<exists>ce \<in> set (fc_entries cfg). ce_from ce = Some n"
    if "e \<in> set (fm_entries f)" "me_from e = Some n" for e n
  proof -
    obtain es where "map (\<lambda>e. compile_entry N e (fm_policy f)) (fm_entries f) = map Inr es"
      by (rule compiled_entries [OF assms(3)])
    then have "compile_entry N e (fm_policy f) \<in> set (map Inr es)" using that(1) by (metis image_eqI set_map)
    then obtain ce where "compile_entry N e (fm_policy f) = Inr ce" by auto
    then show ?thesis using compiled_iff [OF assms(3)] that compile_entry_from by metis
  qed
  show ?thesis
  proof (cases "excluded N cfg a")
    case True
    then show ?thesis using assms(5) excl by (simp add: good_target_def target_allowed_def)
  next
    case notex: False
    show ?thesis
    proof (cases "classify N cfg a")
      case None
      then have "\<forall>ce \<in> set (fc_entries cfg). \<not> in_scope N a ce"
        by (simp add: classify_None)
      then have "\<forall>e \<in> set (fm_entries f). \<forall>n. me_from e = Some n \<longrightarrow> \<not> net_contains N n a"
        using matches by (fastforce simp: in_scope_def)
      then show ?thesis using assms(5) notex None by (simp add: good_target_def target_allowed_def)
    next
      case (Some k)
      let ?ce = "fc_entries cfg ! k"
      have k: "?ce \<in> set (fc_entries cfg)" "in_scope N a ?ce" using classify_Some [OF Some] by auto
      obtain b where b: "t = Some b" "gives N ?ce a b" using assms(5) notex Some by (auto simp: good_target_def)
      obtain e n where e: "e \<in> set (fm_entries f)" "me_from e = Some n" "ce_from ?ce = Some n"
        "\<And>a b. gives N ?ce a b \<Longrightarrow> net_contains N n a \<Longrightarrow> family_of_addr b = family_of_addr a \<and>
          (case me_to e of TargetIp ip \<Rightarrow> b = ip | TargetNet m \<Rightarrow> net_contains N m b)"
        using ip_nets.compiled_sound [OF assms(1,2,3,4) k(1)] by metis
      have n: "net_contains N n a" using k(2) e(3) by (simp add: in_scope_def)
      let ?key = "\<lambda>e. 255 - (case ce_from e of Some n \<Rightarrow> net_prefix_len N n | None \<Rightarrow> 0)"
      have sorted: "sorted (map ?key (fc_entries cfg))" by (simp add: es(1) sort_entries_def)
      have "net_prefix_len N n' \<le> net_prefix_len N n"
        if "e' \<in> set (fm_entries f)" "me_from e' = Some n'" "net_contains N n' a" for e' n'
      proof -
        from matches [OF that(1,2)] obtain ce where ce: "ce \<in> set (fc_entries cfg)" "ce_from ce = Some n'" by blast
        have "?key ?ce \<le> ?key ce"
          using classify_sorted [OF Some sorted ce(1)] ce(2) that(3) by (simp add: in_scope_def)
        moreover have "net_prefix_len N n' \<le> 128"
          using ip_nets.prefix_bound [OF assms(1)] family_bits_le le_trans by blast
        ultimately show ?thesis using ce(2) e(3) by simp
      qed
      then show ?thesis
        using b e(1,2) e(4) [OF b(2) n] n notex excl by (auto simp: target_allowed_def)
    qed
  qed
qed


definition lan_to_lab :: "(ip_addr \<times> nat) flow_map" where
  "lan_to_lab = (default_flow_map [])\<lparr>fm_entries :=
    [\<lparr>me_from = Some (V4 0x0A000000, 8), me_to = TargetNet six_hosts, me_shape = None, me_policy = None\<rparr>]\<rparr>"

definition lan_packet :: packet_info where
  "lan_packet = \<lparr>pi_src = V4 0x0A010203, pi_dst = V4 0x08080808, pi_proto = 6, pi_src_port = 1000,
     pi_dst_port = 80, pi_has_ports = True, pi_fragment = None\<rparr>"

lemma lan_to_lab_ok:
  "check_flow_map std_nets lan_to_lab = None" "\<exists>cfg. flow_cfg_compile std_nets lan_to_lab = Inr cfg"
proof -
  show "check_flow_map std_nets lan_to_lab = None"
    unfolding check_flow_map_def Let_def first_error_None
    by (simp add: lan_to_lab_def default_flow_map_def catch_alls_def check_entry_def entry_shape_def
        same_family_def bail_if_def target_net_def six_hosts_def is_net_def std_nets_def family_of_addr_def)
  have "protocol_set_compile default_tcp_udp = Inr \<lparr>ps_any = False, ps_set = [17, 6]\<rparr>" by code_simp
  then show "\<exists>cfg. flow_cfg_compile std_nets lan_to_lab = Inr cfg"
    by (simp add: lan_to_lab_def default_flow_map_def flow_cfg_compile_def compile_entry_def entry_shape_def)
qed


text \<open>Entries without a \<^verbatim>\<open>from\<close> network are different.  Validation accepts one of them per family, and
  a comment of \<^verbatim>\<open>target_for\<close> says that a target of the other family cannot happen for a validated
  entry, but \<^verbatim>\<open>classify\<close> does not look at the family: the first of them answers for every address,
  so an entry for all IPv6 addresses behind one for all IPv4 addresses is never used.\<close>

definition two_catch_alls :: "(ip_addr \<times> nat) flow_map" where
  "two_catch_alls = (default_flow_map [])\<lparr>fm_entries := map (\<lambda>t.
     \<lparr>me_from = None, me_to = TargetIp t, me_shape = None, me_policy = None\<rparr>) [V4 1, V6 1]\<rparr>"

theorem second_catch_all_unused:
  "check_flow_map std_nets two_catch_alls = None \<and>
   (\<exists>cfg. flow_cfg_compile std_nets two_catch_alls = Inr cfg \<and>
     (\<forall>x. target_for std_nets low_crate 0 (V6 x) None None (flow_state_new low_crate cfg 7 1 1 PerGroup None) =
       TOk (None, flow_state_new low_crate cfg 7 1 1 PerGroup None)))"
proof
  show "check_flow_map std_nets two_catch_alls = None"
    unfolding check_flow_map_def Let_def first_error_None
    by (simp add: two_catch_alls_def default_flow_map_def catch_alls_def check_entry_def entry_shape_def
        same_family_def bail_if_def target_net_def is_net_def std_nets_def family_of_addr_def)
  let ?cfg = "\<lparr>fc_key = KeySession, fc_entries = map (\<lambda>t. \<lparr>ce_from = None, ce_action = ActFixed t\<rparr>) [V4 1, V6 1],
    fc_exclude = [], fc_protocols = \<lparr>ps_any = False, ps_set = [17, 6]\<rparr>, fc_fragments = True\<rparr> :: (ip_addr \<times> nat) flow_cfg"
  have "protocol_set_compile default_tcp_udp = Inr \<lparr>ps_any = False, ps_set = [17, 6]\<rparr>" by code_simp
  then have "flow_cfg_compile std_nets two_catch_alls = Inr ?cfg"
    by (simp add: two_catch_alls_def default_flow_map_def flow_cfg_compile_def compile_entry_def entry_shape_def
        sort_entries_def)
  moreover have "target_for std_nets low_crate 0 (V6 x) None None (flow_state_new low_crate ?cfg 7 1 1 PerGroup None) =
      TOk (None, flow_state_new low_crate ?cfg 7 1 1 PerGroup None)" for x
    by (simp add: target_for_def Let_def flow_state_new_def excluded_def classify_def in_scope_def family_of_addr_def)
  ultimately show "\<exists>cfg. flow_cfg_compile std_nets two_catch_alls = Inr cfg \<and>
     (\<forall>x. target_for std_nets low_crate 0 (V6 x) None None (flow_state_new low_crate cfg 7 1 1 PerGroup None) =
       TOk (None, flow_state_new low_crate cfg 7 1 1 PerGroup None))" by blast
qed

end
