(* ===== verification/Rewriter.thy ===== *)
theory Rewriter
  imports Envelope Flow_Rewrite
begin

text \<open>
  The rewriting of a packet by the merging tool (\<^verbatim>\<open>map.rs\<close>, \<^verbatim>\<open>map/entry.rs\<close> and
  \<^verbatim>\<open>FlowState::rewrite\<close> of \<^verbatim>\<open>map/flow.rs\<close>): the direct maps, the keyed map, and the checksums an
  address change invalidates.  Warnings are not modelled.
\<close>

text \<open>\<^verbatim>\<open>let Some(x) = e else { return d }\<close>.\<close>

definition let_some :: "'a option tool_result \<Rightarrow> 'b \<Rightarrow> ('a \<Rightarrow> 'b tool_result) \<Rightarrow> 'b tool_result" where
  "let_some r d k = t_bind r (\<lambda>x. case x of None \<Rightarrow> TOk d | Some x \<Rightarrow> k x)"

section \<open>Checksums of the transport\<close>

definition ipv4_octets :: "32 word \<Rightarrow> bytes" where
  "ipv4_octets a = be_bytes 4 (unat a)"

definition ipv6_octets :: "128 word \<Rightarrow> bytes" where
  "ipv6_octets a = be_bytes 16 (unat a)"

definition tcp_calculate_checksum_ipv4 :: "bytes \<Rightarrow> 32 word \<Rightarrow> 32 word \<Rightarrow> 16 word" where
  "tcp_calculate_checksum_ipv4 seg src dst =
    ipv4_transport_checksum_zeroing (ipv4_octets src) (ipv4_octets dst) 6 seg (16, 18)"

definition tcp_calculate_checksum_ipv6 :: "bytes \<Rightarrow> 128 word \<Rightarrow> 128 word \<Rightarrow> 16 word" where
  "tcp_calculate_checksum_ipv6 seg src dst =
    ipv6_transport_checksum_zeroing (ipv6_octets src) (ipv6_octets dst) 6 seg (16, 18)"

definition udp_length :: "bytes \<Rightarrow> 16 word option" where
  "udp_length hdr = view_raw 4 6 whole hdr"

definition udp_checksum :: "bytes \<Rightarrow> 16 word option" where
  "udp_checksum hdr = view_raw 6 8 whole hdr"

definition udp_calculate_checksum_ipv4 :: "bytes \<Rightarrow> 32 word \<Rightarrow> 32 word \<Rightarrow> 16 word tool_result" where
  "udp_calculate_checksum_ipv4 seg src dst =
    t_bind (fetch (udp_length seg)) (\<lambda>len.
    let checksum = ipv4_transport_checksum_zeroing (ipv4_octets src) (ipv4_octets dst) 17
          (take (min (unat len) (length seg)) seg) (6, 8)
    in TOk (if checksum = 0 then 0xffff else checksum))"

definition udp_calculate_checksum_ipv6 :: "bytes \<Rightarrow> 128 word \<Rightarrow> 128 word \<Rightarrow> 16 word tool_result" where
  "udp_calculate_checksum_ipv6 seg src dst =
    t_bind (fetch (udp_length seg)) (\<lambda>len.
    let checksum = ipv6_transport_checksum_zeroing (ipv6_octets src) (ipv6_octets dst) 17
          (take (min (unat len) (length seg)) seg) (6, 8)
    in TOk (if checksum = 0 then 0xffff else checksum))"

definition icmpv6_calculate_checksum_ipv6 :: "bytes \<Rightarrow> 128 word \<Rightarrow> 128 word \<Rightarrow> 16 word" where
  "icmpv6_calculate_checksum_ipv6 seg src dst =
    ipv6_transport_checksum_zeroing (ipv6_octets src) (ipv6_octets dst) 58 seg (2, 4)"

definition tcp_set_checksum :: "16 word \<Rightarrow> bytes \<Rightarrow> bytes tool_result" where
  "tcp_set_checksum v hdr = fetch (view_set 16 18 whole v hdr)"

definition udp_set_checksum :: "16 word \<Rightarrow> bytes \<Rightarrow> bytes tool_result" where
  "udp_set_checksum v hdr = fetch (view_set 6 8 whole v hdr)"

definition icmpv6_set_checksum :: "16 word \<Rightarrow> bytes \<Rightarrow> bytes tool_result" where
  "icmpv6_set_checksum v hdr = fetch (view_set 2 4 whole v hdr)"

text \<open>The destination of the pseudo header; \<^verbatim>\<open>None\<close> leaves the transport checksum alone.\<close>

definition pseudo_header_dst :: "packet \<Rightarrow> 128 word \<Rightarrow> 128 word option tool_result" where
  "pseudo_header_dst pkt dst =
    t_bind (chain_viewer pkt Ipv6Route) (\<lambda>v. case v of
      None \<Rightarrow> TOk (Some dst)
    | Some route \<Rightarrow>
        t_bind (fetch (route_segments_left route)) (\<lambda>left.
        if left = 0 then TOk (Some dst)
        else
          t_bind (fetch (route_type route)) (\<lambda>ty.
          t_bind (if ty = 0
                  then t_bind (fetch (route_data route)) (\<lambda>data. TOk
                    (Option.bind (type0_addrs data) (\<lambda>as. if as = [] then None else Some (last as))))
                  else TOk None) (\<lambda>final.
          case final of
            Some a \<Rightarrow> TOk (Some a)
          | None \<Rightarrow>
              (if ty = 4
               then t_bind (fetch (route_data route)) (\<lambda>data.
                    t_bind (srh_segments data) (\<lambda>s.
                    TOk (Option.bind s (\<lambda>as. if as = [] then None else Some (hd as)))))
               else TOk None)))))"

section \<open>Fixing the checksums\<close>

definition fix_ipv4_transport :: "packet \<Rightarrow> packet tool_result" where
  "fix_ipv4_transport pkt =
    let_some (outer_transport pkt) pkt (\<lambda>protocol.
    let_some (outer_ipv4 pkt) pkt (\<lambda>ipv4.
    t_bind (fetch (ipv4_src ipv4)) (\<lambda>src.
    t_bind (fetch (ipv4_dst ipv4)) (\<lambda>dst.
    if protocol = ip_tcp then
      let_some (transport_segment pkt) pkt (\<lambda>segment.
      nth_layer_viewer_mut pkt Tcp (- 1) (tcp_set_checksum (tcp_calculate_checksum_ipv4 segment src dst)))
    else if protocol = ip_udp then
      t_bind (nth_layer_viewer pkt Udp (- 1)) (\<lambda>udp.
      t_bind (case udp of
                None \<Rightarrow> TOk False
              | Some hdr \<Rightarrow> t_bind (fetch (udp_checksum hdr)) (\<lambda>c. TOk (c = 0))) (\<lambda>disabled.
      if disabled then TOk pkt
      else
        let_some (transport_segment pkt) pkt (\<lambda>segment.
        t_bind (udp_calculate_checksum_ipv4 segment src dst) (\<lambda>checksum.
        nth_layer_viewer_mut pkt Udp (- 1) (udp_set_checksum checksum)))))
    else TOk pkt))))"

definition fix_ipv4_header :: "bytes \<Rightarrow> bytes tool_result" where
  "fix_ipv4_header hdr = t_bind (ipv4_calculate_checksum hdr) (\<lambda>c. ipv4_set_checksum c hdr)"

definition fix_ipv4_checksums :: "packet \<Rightarrow> packet tool_result" where
  "fix_ipv4_checksums pkt =
    t_bind (outer_ipv4_mut pkt (setting fix_ipv4_header)) (\<lambda>(_, pkt).
    t_bind (packet_info_read pkt) (\<lambda>info.
    if (case info of Some i \<Rightarrow> pi_fragment i \<noteq> None | None \<Rightarrow> False) then TOk pkt
    else fix_ipv4_transport pkt))"

definition fix_ipv6_checksums :: "packet \<Rightarrow> packet tool_result" where
  "fix_ipv6_checksums pkt =
    t_bind (outer_fragment pkt) (\<lambda>fragment.
    if fragment \<noteq> None then TOk pkt
    else
      let_some (outer_transport pkt) pkt (\<lambda>protocol.
      let_some (outer_ipv6 pkt) pkt (\<lambda>ipv6.
      t_bind (fetch (ipv6_src ipv6)) (\<lambda>src.
      t_bind (fetch (ipv6_dst ipv6)) (\<lambda>dst.
      let_some (pseudo_header_dst pkt dst) pkt (\<lambda>dst.
      let_some (transport_segment pkt) pkt (\<lambda>segment.
      if protocol = ip_tcp then
        nth_layer_viewer_mut pkt Tcp (- 1) (tcp_set_checksum (tcp_calculate_checksum_ipv6 segment src dst))
      else if protocol = ip_udp then
        t_bind (udp_calculate_checksum_ipv6 segment src dst) (\<lambda>checksum.
        nth_layer_viewer_mut pkt Udp (- 1) (udp_set_checksum checksum))
      else if protocol = ip_ipv6_icmp then
        nth_layer_viewer_mut pkt Icmpv6 (- 1)
          (icmpv6_set_checksum (icmpv6_calculate_checksum_ipv6 segment src dst))
      else TOk pkt)))))))"

definition fix_checksums :: "packet \<Rightarrow> packet tool_result" where
  "fix_checksums pkt =
    (case outer_ip_family pkt of
       Some IpFamilyV4 \<Rightarrow> fix_ipv4_checksums pkt
     | Some IpFamilyV6 \<Rightarrow> fix_ipv6_checksums pkt
     | None \<Rightarrow> TOk pkt)"

section \<open>Direct maps\<close>

record 'n direction_map =
  dm_rules :: "'n compiled_entry list"
  dm_merged :: "'n pool \<times> 'n pool"

record ('n, 'r) direct_maps =
  dr_src :: "'n direction_map"
  dr_dst :: "'n direction_map"
  dr_rng :: 'r

definition direction_map_new :: "'n ipnet \<Rightarrow> 'n map_entry list \<Rightarrow> string + 'n direction_map" where
  "direction_map_new N entries =
    (case collect_results (map (\<lambda>e. compile_entry N e PolicyRandom) entries) of
       Inl e \<Rightarrow> Inl e
     | Inr compiled \<Rightarrow>
         let nets = map (\<lambda>e. target_net N (me_to e)) (filter (\<lambda>e. me_from e = None) entries)
         in Inr \<lparr>dm_rules = sort_entries N (filter (\<lambda>c. ce_from c \<noteq> None) compiled),
                 dm_merged = (pool_from_nets N (filter (\<lambda>n. net_family N n = FamilyV4) nets),
                              pool_from_nets N (filter (\<lambda>n. net_family N n = FamilyV6) nets))\<rparr>)"

definition direct_maps_new ::
    "'n ipnet \<Rightarrow> 'n map_entry list \<Rightarrow> 'n map_entry list \<Rightarrow> 'n map_entry list \<Rightarrow> 'r \<Rightarrow>
     string + ('n, 'r) direct_maps" where
  "direct_maps_new N src_map both_map dst_map rng =
    (case direction_map_new N (src_map @ both_map) of
       Inl e \<Rightarrow> Inl e
     | Inr s \<Rightarrow>
         (case direction_map_new N (dst_map @ both_map) of
            Inl e \<Rightarrow> Inl e
          | Inr d \<Rightarrow> Inr \<lparr>dr_src = s, dr_dst = d, dr_rng = rng\<rparr>))"

definition direction_target ::
    "'n ipnet \<Rightarrow> 'r rand_crate \<Rightarrow> 'n direction_map \<Rightarrow> ip_addr \<Rightarrow> 'r \<Rightarrow> ip_addr option tool_result \<times> 'r" where
  "direction_target N R m a rng =
    (case find (\<lambda>rule. case ce_from rule of Some n \<Rightarrow> net_contains N n a | None \<Rightarrow> False) (dm_rules m) of
       Some rule \<Rightarrow>
         (case ce_action rule of
            ActFixed ip \<Rightarrow> (TOk (Some ip), rng)
          | ActMask n \<Rightarrow> (TOk (mask_map N n a), rng)
          | ActPool p _ \<Rightarrow> pool_choose N (random_range R) p rng)
     | None \<Rightarrow>
         pool_choose N (random_range R)
           (case family_of_addr a of FamilyV4 \<Rightarrow> fst (dm_merged m) | FamilyV6 \<Rightarrow> snd (dm_merged m)) rng)"

text \<open>One address of a header: its target, written if it is of the family of the header.\<close>

definition direct_ipv4_addr ::
    "'n ipnet \<Rightarrow> 'r rand_crate \<Rightarrow> 'n direction_map \<Rightarrow> 32 word option \<Rightarrow> (32 word \<Rightarrow> bytes \<Rightarrow> bytes tool_result) \<Rightarrow>
     bytes \<Rightarrow> 'r \<Rightarrow> ((bool \<times> 'r) \<times> bytes) tool_result" where
  "direct_ipv4_addr N R m addr setter hdr rng =
    t_bind (fetch addr) (\<lambda>a.
    case direction_target N R m (V4 a) rng of
      (r, rng) \<Rightarrow> t_bind r (\<lambda>t. case t of
        Some (V4 ip) \<Rightarrow> t_bind (setter ip hdr) (\<lambda>hdr. TOk ((True, rng), hdr))
      | _ \<Rightarrow> TOk ((False, rng), hdr)))"

definition direct_ipv6_addr ::
    "'n ipnet \<Rightarrow> 'r rand_crate \<Rightarrow> 'n direction_map \<Rightarrow> 128 word option \<Rightarrow> (128 word \<Rightarrow> bytes \<Rightarrow> bytes tool_result) \<Rightarrow>
     bytes \<Rightarrow> 'r \<Rightarrow> ((bool \<times> 'r) \<times> bytes) tool_result" where
  "direct_ipv6_addr N R m addr setter hdr rng =
    t_bind (fetch addr) (\<lambda>a.
    case direction_target N R m (V6 a) rng of
      (r, rng) \<Rightarrow> t_bind r (\<lambda>t. case t of
        Some (V6 ip) \<Rightarrow> t_bind (setter ip hdr) (\<lambda>hdr. TOk ((True, rng), hdr))
      | _ \<Rightarrow> TOk ((False, rng), hdr)))"

definition direct_ipv4 ::
    "'n ipnet \<Rightarrow> 'r rand_crate \<Rightarrow> ('n, 'r) direct_maps \<Rightarrow> bytes \<Rightarrow> ((bool \<times> 'r) \<times> bytes) tool_result" where
  "direct_ipv4 N R d hdr =
    t_bind (direct_ipv4_addr N R (dr_src d) (ipv4_src hdr) ipv4_set_src hdr (dr_rng d)) (\<lambda>((c, rng), hdr).
    t_bind (direct_ipv4_addr N R (dr_dst d) (ipv4_dst hdr) ipv4_set_dst hdr rng) (\<lambda>((c', rng), hdr).
    TOk ((c \<or> c', rng), hdr)))"

definition direct_ipv6 ::
    "'n ipnet \<Rightarrow> 'r rand_crate \<Rightarrow> ('n, 'r) direct_maps \<Rightarrow> bytes \<Rightarrow> ((bool \<times> 'r) \<times> bytes) tool_result" where
  "direct_ipv6 N R d hdr =
    t_bind (direct_ipv6_addr N R (dr_src d) (ipv6_src hdr) ipv6_set_src hdr (dr_rng d)) (\<lambda>((c, rng), hdr).
    t_bind (direct_ipv6_addr N R (dr_dst d) (ipv6_dst hdr) ipv6_set_dst hdr rng) (\<lambda>((c', rng), hdr).
    TOk ((c \<or> c', rng), hdr)))"

definition direct_rewrite ::
    "'n ipnet \<Rightarrow> 'r rand_crate \<Rightarrow> packet \<Rightarrow> ('n, 'r) direct_maps \<Rightarrow>
     (bool \<times> packet \<times> ('n, 'r) direct_maps) tool_result" where
  "direct_rewrite N R pkt d =
    t_bind (case outer_ip_family pkt of
              Some IpFamilyV4 \<Rightarrow> outer_ipv4_mut pkt (direct_ipv4 N R d)
            | Some IpFamilyV6 \<Rightarrow> outer_ipv6_mut pkt (direct_ipv6 N R d)
            | None \<Rightarrow> TOk (None, pkt)) (\<lambda>(x, pkt).
    case x of
      None \<Rightarrow> TOk (False, pkt, d)
    | Some (changed, rng) \<Rightarrow> TOk (changed, pkt, d\<lparr>dr_rng := rng\<rparr>))"

section \<open>The rewriter\<close>

definition flow_rewrite ::
    "'n ipnet \<Rightarrow> 'r rand_crate \<Rightarrow> nat \<Rightarrow> packet \<Rightarrow> ('n, 'r) flow_state \<Rightarrow>
     (bool \<times> packet \<times> ('n, 'r) flow_state) tool_result" where
  "flow_rewrite N R grp pkt st =
    t_bind (packet_info_read pkt) (\<lambda>info. case info of
      None \<Rightarrow> TOk (False, pkt, st)
    | Some i \<Rightarrow>
        if \<not> protocol_allows (fc_protocols (fs_cfg st)) (pi_proto i) then TOk (False, pkt, st)
        else
          t_bind (packet_targets N R grp i st) (\<lambda>(t, st).
          t_bind (apply_targets pkt t) (\<lambda>pkt.
          TOk (tg_src t \<noteq> None \<or> tg_dst t \<noteq> None, pkt, st))))"

record ('n, 'r) rewriter =
  rw_direct :: "('n, 'r) direct_maps option"
  rw_flow :: "('n, 'r) flow_state option"
  rw_fix_checksum :: bool

definition rewriter_is_active :: "('n, 'r) rewriter \<Rightarrow> bool" where
  "rewriter_is_active w = (rw_direct w \<noteq> None \<or> rw_flow w \<noteq> None)"

definition rewrite_packet ::
    "'n ipnet \<Rightarrow> 'r rand_crate \<Rightarrow> nat \<Rightarrow> packet \<Rightarrow> ('n, 'r) rewriter \<Rightarrow>
     (bool \<times> packet \<times> ('n, 'r) rewriter) tool_result" where
  "rewrite_packet N R grp pkt w =
    t_bind (case rw_direct w of
              None \<Rightarrow> TOk (False, pkt, w)
            | Some d \<Rightarrow> t_bind (direct_rewrite N R pkt d) (\<lambda>(c, pkt, d).
                TOk (c, pkt, w\<lparr>rw_direct := Some d\<rparr>))) (\<lambda>(changed, pkt, w).
    t_bind (case rw_flow w of
              None \<Rightarrow> TOk (changed, pkt, w)
            | Some f \<Rightarrow> t_bind (flow_rewrite N R grp pkt f) (\<lambda>(c, pkt, f).
                TOk (changed \<or> c, pkt, w\<lparr>rw_flow := Some f\<rparr>))) (\<lambda>(changed, pkt, w).
    if changed \<and> rw_fix_checksum w
    then t_bind (fix_checksums pkt) (\<lambda>pkt. TOk (changed, pkt, w))
    else TOk (changed, pkt, w)))"

section \<open>A file\<close>

text \<open>\<^verbatim>\<open>Rewriter::new\<close>; the tables that the files of a run share (\<^verbatim>\<open>MapRuntime\<close>) are a parameter.\<close>

definition rewriter_new ::
    "'n ipnet \<Rightarrow> 'r rand_crate \<Rightarrow> ('n flow_map \<Rightarrow> 'n flow_cfg \<Rightarrow> string + 'r allocation) \<Rightarrow> 'n input_file \<Rightarrow>
     64 word \<Rightarrow> 64 word \<Rightarrow> nat \<Rightarrow> bool \<Rightarrow> string + ('n, 'r) rewriter" where
  "rewriter_new N R global_allocation f file_seed global_seed groups fix_checksum =
    (let flow = (case if_flow_map f of
           None \<Rightarrow> Inr None
         | Some flow \<Rightarrow>
             (case flow_cfg_compile N flow of
                Inl e \<Rightarrow> Inl e
              | Inr cfg \<Rightarrow>
                  (case (case fm_alloc_scope flow of
                           ScopeFile \<Rightarrow> Inr None
                         | ScopeGlobal \<Rightarrow> map_sum id Some (global_allocation flow cfg)) of
                     Inl e \<Rightarrow> Inl e
                   | Inr allocation \<Rightarrow>
                       Inr (Some (flow_state_new R cfg global_seed file_seed groups (flow_sharing flow) allocation)))))
     in case flow of
          Inl e \<Rightarrow> Inl e
        | Inr flow \<Rightarrow>
            (case (if ip_map f \<noteq> [] \<or> src_ip_map f \<noteq> [] \<or> dst_ip_map f \<noteq> []
                   then map_sum id Some (direct_maps_new N (src_ip_map f) (ip_map f) (dst_ip_map f)
                     (derived_rng R file_seed map_rng_salt))
                   else Inr None) of
               Inl e \<Rightarrow> Inl e
             | Inr direct \<Rightarrow>
                 Inr \<lparr>rw_direct = direct, rw_flow = flow, rw_fix_checksum = fix_checksum\<rparr>))"

text \<open>An item of the packet reader: parsed by its link type, rewritten if a mapping is configured.\<close>

definition parsed_item :: "(parsers \<Rightarrow> nat \<Rightarrow> parse_fn) \<Rightarrow> registry \<Rightarrow> link_type \<Rightarrow> bytes \<Rightarrow> packet" where
  "parsed_item ext reg lt data = fst (try_parse_with_link_type ext reg lt default_options (new_packet data))"

definition rewrite_item ::
    "(parsers \<Rightarrow> nat \<Rightarrow> parse_fn) \<Rightarrow> registry \<Rightarrow> 'n ipnet \<Rightarrow> 'r rand_crate \<Rightarrow> nat \<Rightarrow> link_type \<times> bytes \<Rightarrow>
     ('n, 'r) rewriter \<Rightarrow> (bytes \<times> ('n, 'r) rewriter) tool_result" where
  "rewrite_item ext reg N R grp item w =
    (case item of (lt, data) \<Rightarrow>
       if \<not> rewriter_is_active w then TOk (data, w)
       else
         t_bind (rewrite_packet N R grp (parsed_item ext reg lt data) w) (\<lambda>(_, pkt, w).
         TOk (pkt_bytes pkt, w)))"

fun rewrite_items ::
    "(parsers \<Rightarrow> nat \<Rightarrow> parse_fn) \<Rightarrow> registry \<Rightarrow> 'n ipnet \<Rightarrow> 'r rand_crate \<Rightarrow> (nat \<times> link_type \<times> bytes) list \<Rightarrow>
     ('n, 'r) rewriter \<Rightarrow> (bytes list \<times> ('n, 'r) rewriter) tool_result" where
  "rewrite_items ext reg N R [] w = TOk ([], w)"
| "rewrite_items ext reg N R ((grp, item) # items) w =
    t_bind (rewrite_item ext reg N R grp item w) (\<lambda>(data, w).
    t_bind (rewrite_items ext reg N R items w) (\<lambda>(ds, w). TOk (data # ds, w)))"

end
