(* ===== verification/Rewriter_Sound.thy ===== *)
theory Rewriter_Sound
  imports Rewriter
begin

text \<open>
  What rewriting a parsed packet does: it does not panic but for one shape of packet, it changes the
  addresses and the checksums of the outermost packet only, and the checksums it writes verify.
\<close>

section \<open>Writing a part of a byte sequence\<close>

definition splice :: "bytes \<Rightarrow> nat \<Rightarrow> bytes \<Rightarrow> bytes" where
  "splice bs p new = take p bs @ new @ drop (p + length new) bs"

lemma splice_length [simp]: "p + length new \<le> length bs \<Longrightarrow> length (splice bs p new) = length bs"
  by (simp add: splice_def)

lemma splice_nth:
  "p + length new \<le> length bs \<Longrightarrow> i < length bs \<Longrightarrow>
    splice bs p new ! i = (if p \<le> i \<and> i < p + length new then new ! (i - p) else bs ! i)"
  by (auto simp: splice_def nth_append min_def)

lemma take_drop_eqI:
  assumes "length xs = length ys" and "\<And>i. lo \<le> i \<Longrightarrow> i < lo + n \<Longrightarrow> i < length xs \<Longrightarrow> xs ! i = ys ! i"
  shows "take n (drop lo xs) = take n (drop lo ys)"
  using assms by (intro nth_equalityI) auto

lemma slice_eqI:
  assumes "length xs = length ys" and "\<And>i. lo \<le> i \<Longrightarrow> i < hi \<Longrightarrow> i < length xs \<Longrightarrow> xs ! i = ys ! i"
  shows "slice xs lo hi = slice ys lo hi"
  using assms take_drop_eqI [of xs ys lo "hi - lo"] by (auto simp: slice_def)

lemma view_raw_eqI:
  assumes "length xs = length ys" and "\<And>i. lo \<le> i \<Longrightarrow> i < hi \<Longrightarrow> i < length xs \<Longrightarrow> xs ! i = ys ! i"
  shows "view_raw lo hi f xs = view_raw lo hi f ys"
  using slice_eqI [OF assms] by (simp add: view_raw_def)

lemma view_set_splice:
  assumes "LENGTH('u::len) = 8 * n" and "lo + n \<le> length bs"
  shows "view_set lo (lo + n) whole (v :: 'u word) bs = Some (splice bs lo (be_bytes n (unat v)))"
  using view_set_eq [OF assms, of whole v] by (simp add: merge_spec_def whole_def splice_def)

lemma view_raw_splice:
  assumes "LENGTH('u::len) = 8 * n" and "lo + n \<le> length bs"
  shows "view_raw lo (lo + n) whole (splice bs lo (be_bytes n (unat v))) = Some (v :: 'u word)"
proof -
  have "take n (drop lo (splice bs lo (be_bytes n (unat v)))) = be_bytes n (unat v)"
    using assms(2) by (simp add: splice_def)
  moreover have "unat v < 256 ^ n" using unsigned_less [of v] assms(1) by (simp add: power_mult)
  ultimately show ?thesis
    using view_raw_eq [OF assms(1), of lo "splice bs lo (be_bytes n (unat v))" whole] assms(2)
    by (simp add: be_nat_be_bytes apply_spec_def whole_def)
qed

section \<open>Layers of a parsed packet\<close>

definition shape :: "packet \<Rightarrow> bool" where
  "shape pkt = (laid_out 0 (length (pkt_bytes pkt)) (pkt_layers pkt) \<and> within_ip (pkt_bytes pkt) (pkt_layers pkt))"

definition lbytes :: "layer \<Rightarrow> packet \<Rightarrow> bytes" where
  "lbytes l pkt = take (layer_len l) (drop (layer_offset l) (pkt_bytes pkt))"

lemma lbytes_nth:
  assumes "layer_offset l \<le> i" and "i < layer_offset l + layer_len l"
    and "layer_offset l + layer_len l \<le> length (pkt_bytes pkt)"
  shows "lbytes l pkt ! (i - layer_offset l) = pkt_bytes pkt ! i"
  using assms by (simp add: lbytes_def)

lemma shape_layer:
  assumes "shape pkt" and "l \<in> set (pkt_layers pkt)"
  shows "layer_offset l + layer_len l \<le> length (pkt_bytes pkt)" "header_min (layer_protocol l) \<le> layer_len l"
    "length (lbytes l pkt) = layer_len l" "layer_view l pkt = TOk (lbytes l pkt)"
proof -
  show "layer_offset l + layer_len l \<le> length (pkt_bytes pkt)" "header_min (layer_protocol l) \<le> layer_len l"
    using assms laid_out_in_range unfolding shape_def by blast+
  then show "length (lbytes l pkt) = layer_len l" "layer_view l pkt = TOk (lbytes l pkt)"
    by (simp_all add: lbytes_def layer_view_def layer_bytes_def layer_range_def)
qed

lemma laid_out_disjoint:
  assumes "laid_out lo hi ls" and "k \<in> set ls" and "l \<in> set ls" and "k \<noteq> l"
  shows "layer_offset k + layer_len k \<le> layer_offset l \<or> layer_offset l + layer_len l \<le> layer_offset k"
  using assms
proof (induction ls arbitrary: lo)
  case (Cons m ls)
  then show ?case using laid_out_in_range [of "layer_offset m + layer_len m" hi ls] by auto
qed simp

lemma nth_layer_Some:
  "nth_layer pkt p i = Some l \<Longrightarrow> l \<in> set (pkt_layers pkt) \<and> layer_protocol l = p"
  by (auto dest!: nth_layer_mem simp: matching_layers_def layer_is_def)

lemma nth_layer_viewer_eq:
  assumes "shape pkt"
  shows "nth_layer_viewer pkt p i = TOk (map_option (\<lambda>l. lbytes l pkt) (nth_layer pkt p i))"
proof (cases "nth_layer pkt p i")
  case (Some l)
  then have "layer_view l pkt = TOk (lbytes l pkt)" using assms nth_layer_Some shape_layer(4) by blast
  then show ?thesis using Some by (simp add: nth_layer_viewer_def nth_layer_bytes_def layer_view_def)
qed (simp add: nth_layer_viewer_def nth_layer_bytes_def)

lemma with_viewer_mut_eq:
  assumes "shape pkt" and "nth_layer pkt p i = Some l" and "f (lbytes l pkt) = TOk (x, b)"
    and "length b = layer_len l"
  shows "with_viewer_mut pkt p i f = TOk (Some x, pkt\<lparr>pkt_bytes := splice (pkt_bytes pkt) (layer_offset l) b\<rparr>)"
  using assms shape_layer(1) [OF assms(1), of l] nth_layer_Some [OF assms(2)]
  by (simp add: with_viewer_mut_def nth_layer_range_def layer_range_def lbytes_def splice_def)

lemma with_viewer_mut_None: "nth_layer pkt p i = None \<Longrightarrow> with_viewer_mut pkt p i f = TOk (None, pkt)"
  by (simp add: with_viewer_mut_def nth_layer_range_def)

section \<open>What may change\<close>

definition writable :: "proto \<Rightarrow> nat \<times> nat" where
  "writable p =
    (case p of Ipv4 \<Rightarrow> (10, 20) | Ipv6 \<Rightarrow> (8, 40) | Tcp \<Rightarrow> (16, 18) | Udp \<Rightarrow> (6, 8) | Icmpv6 \<Rightarrow> (2, 4) | _ \<Rightarrow> (0, 0))"

text \<open>The bytes of the addresses and the checksums of the outermost headers.\<close>

definition touched :: "packet \<Rightarrow> proto \<Rightarrow> bool" where
  "touched pkt p =
    ((p = Ipv4 \<longrightarrow> outer_ip_family pkt = Some IpFamilyV4) \<and> (p = Ipv6 \<longrightarrow> outer_ip_family pkt = Some IpFamilyV6))"

definition rewritable :: "packet \<Rightarrow> nat \<Rightarrow> bool" where
  "rewritable pkt i =
    (\<exists>p l. touched pkt p \<and> nth_layer pkt p (- 1) = Some l \<and> layer_offset l + fst (writable p) \<le> i \<and>
       i < layer_offset l + snd (writable p))"

definition framed :: "packet \<Rightarrow> packet \<Rightarrow> bool" where
  "framed pkt pkt' =
    (pkt_layers pkt' = pkt_layers pkt \<and> length (pkt_bytes pkt') = length (pkt_bytes pkt) \<and>
     (\<forall>i < length (pkt_bytes pkt). \<not> rewritable pkt i \<longrightarrow> pkt_bytes pkt' ! i = pkt_bytes pkt ! i))"

lemma nth_layer_layers: "pkt_layers pkt' = pkt_layers pkt \<Longrightarrow> nth_layer pkt' = nth_layer pkt"
  by (intro ext) (simp add: nth_layer_def matching_layers_def)

lemma framed_refl [simp]: "framed pkt pkt"
  by (simp add: framed_def)

lemma framed_trans: "framed a b \<Longrightarrow> framed b c \<Longrightarrow> framed a c"
  using nth_layer_layers [of b a] by (auto simp: framed_def rewritable_def touched_def outer_ip_family_def)

lemma framed_nth_layer: "framed pkt pkt' \<Longrightarrow> nth_layer pkt' = nth_layer pkt"
  by (rule nth_layer_layers) (simp add: framed_def)

lemma framed_family: "framed pkt pkt' \<Longrightarrow> outer_ip_family pkt' = outer_ip_family pkt"
  by (simp add: outer_ip_family_def framed_nth_layer)

lemma writable_bounds: "snd (writable p) \<le> header_min p"
  by (cases p) (simp_all add: writable_def)

text \<open>Bytes of a layer in front of its writable part, and behind it, stay.\<close>

lemma framed_byte:
  assumes "shape pkt" and "framed pkt pkt'" and "l \<in> set (pkt_layers pkt)" and "j < layer_len l"
    and "j < fst (writable (layer_protocol l)) \<or> snd (writable (layer_protocol l)) \<le> j"
  shows "lbytes l pkt' ! j = lbytes l pkt ! j"
proof -
  note l = shape_layer(1,2) [OF assms(1,3)]
  have "\<not> rewritable pkt (layer_offset l + j)"
  proof
    assume "rewritable pkt (layer_offset l + j)"
    then obtain p k where k: "nth_layer pkt p (- 1) = Some k" "layer_offset k + fst (writable p) \<le> layer_offset l + j"
      "layer_offset l + j < layer_offset k + snd (writable p)" by (auto simp: rewritable_def)
    have kp: "k \<in> set (pkt_layers pkt)" "layer_protocol k = p" using nth_layer_Some [OF k(1)] by auto
    have "snd (writable p) \<le> layer_len k" using shape_layer(2) [OF assms(1) kp(1)] writable_bounds [of p] kp(2) by simp
    then have "k = l"
      using laid_out_disjoint [of 0 _ "pkt_layers pkt" k l] assms(1,3,4) kp(1) k(2,3) by (force simp: shape_def)
    then show False using k(2,3) kp(2) assms(5) by auto
  qed
  then have "pkt_bytes pkt' ! (layer_offset l + j) = pkt_bytes pkt ! (layer_offset l + j)"
    using assms(2,4) l(1) by (simp add: framed_def)
  moreover have "length (pkt_bytes pkt') = length (pkt_bytes pkt)" using assms(2) by (simp add: framed_def)
  ultimately show ?thesis using assms(4) l(1) by (simp add: lbytes_def)
qed

lemma framed_field:
  assumes "shape pkt" and "framed pkt pkt'" and "l \<in> set (pkt_layers pkt)"
    and "hi \<le> fst (writable (layer_protocol l)) \<or> snd (writable (layer_protocol l)) \<le> lo"
  shows "view_raw lo hi f (lbytes l pkt') = view_raw lo hi f (lbytes l pkt)"
proof (rule view_raw_eqI)
  show "length (lbytes l pkt') = length (lbytes l pkt)"
    using assms(2) by (simp add: lbytes_def framed_def)
  show "lbytes l pkt' ! i = lbytes l pkt ! i" if "lo \<le> i" "i < hi" "i < length (lbytes l pkt')" for i
    using framed_byte [OF assms(1-3), of i] that assms(4) by (auto simp: lbytes_def)
qed

lemma framed_lbytes:
  assumes "shape pkt" and "framed pkt pkt'" and "l \<in> set (pkt_layers pkt)"
    and "writable (layer_protocol l) = (0, 0)"
  shows "lbytes l pkt' = lbytes l pkt"
  using framed_byte [OF assms(1-3)] assms(2,4) by (intro nth_equalityI) (auto simp: lbytes_def framed_def)

lemma ip_end_framed:
  assumes "shape pkt" and "framed pkt pkt'" and "l \<in> set (pkt_layers pkt)"
  shows "ip_end (pkt_bytes pkt') l = ip_end (pkt_bytes pkt) l"
proof -
  have same: "take 2 (drop (layer_offset l + i) (pkt_bytes pkt')) = take 2 (drop (layer_offset l + i) (pkt_bytes pkt))"
    if "i + 2 \<le> fst (writable (layer_protocol l))" "i + 2 \<le> layer_len l" for i
  proof (rule take_drop_eqI)
    show "length (pkt_bytes pkt') = length (pkt_bytes pkt)" using assms(2) by (simp add: framed_def)
    fix j assume j: "layer_offset l + i \<le> j" "j < layer_offset l + i + 2" "j < length (pkt_bytes pkt')"
    then have "j - layer_offset l < layer_len l" "j - layer_offset l < fst (writable (layer_protocol l))"
      using that by linarith+
    then have "lbytes l pkt' ! (j - layer_offset l) = lbytes l pkt ! (j - layer_offset l)"
      using framed_byte [OF assms, of "j - layer_offset l"] by blast
    moreover have "layer_offset l \<le> j" "j < layer_offset l + layer_len l" using j that by linarith+
    ultimately show "pkt_bytes pkt' ! j = pkt_bytes pkt ! j"
      using lbytes_nth [of l j pkt] lbytes_nth [of l j pkt'] shape_layer(1) [OF assms(1,3)] assms(2)
      by (simp add: framed_def)
  qed
  have "header_min (layer_protocol l) \<le> layer_len l" by (rule shape_layer(2) [OF assms(1,3)])
  then show ?thesis
    using same [of 2] same [of 4] by (cases "layer_protocol l") (simp_all add: ip_end_def layer_is_def writable_def)
qed

lemma within_ip_cong: "(\<And>l. l \<in> set ls \<Longrightarrow> ip_end bs' l = ip_end bs l) \<Longrightarrow> within_ip bs' ls = within_ip bs ls"
  by (induction ls) simp_all

lemma framed_shape: "shape pkt \<Longrightarrow> framed pkt pkt' \<Longrightarrow> shape pkt'"
  using ip_end_framed [of pkt pkt'] within_ip_cong [of "pkt_layers pkt" "pkt_bytes pkt'" "pkt_bytes pkt"]
  by (simp add: shape_def framed_def)

text \<open>Writing the writable part of an outermost header.\<close>

lemma splice_framed:
  assumes "shape pkt" and "nth_layer pkt p (- 1) = Some l" and "length b = layer_len l" and "touched pkt p"
    and "\<And>j. j < layer_len l \<Longrightarrow> j < fst (writable p) \<or> snd (writable p) \<le> j \<Longrightarrow> b ! j = lbytes l pkt ! j"
  shows "framed pkt (pkt\<lparr>pkt_bytes := splice (pkt_bytes pkt) (layer_offset l) b\<rparr>)"
proof -
  have l: "l \<in> set (pkt_layers pkt)" using nth_layer_Some [OF assms(2)] by simp
  have fits: "layer_offset l + length b \<le> length (pkt_bytes pkt)" using shape_layer(1) [OF assms(1) l] assms(3) by simp
  have "splice (pkt_bytes pkt) (layer_offset l) b ! i = pkt_bytes pkt ! i"
    if "i < length (pkt_bytes pkt)" "\<not> rewritable pkt i" for i
  proof (cases "layer_offset l \<le> i \<and> i < layer_offset l + layer_len l")
    case True
    then have "i - layer_offset l < fst (writable p) \<or> snd (writable p) \<le> i - layer_offset l"
    proof -
      have "\<not> (layer_offset l + fst (writable p) \<le> i \<and> i < layer_offset l + snd (writable p))"
        using that(2) assms(2,4) unfolding rewritable_def by blast
      then show ?thesis using True by linarith
    qed
    then have "b ! (i - layer_offset l) = lbytes l pkt ! (i - layer_offset l)" using assms(5) True by auto
    then show ?thesis using True that(1) fits assms(3) lbytes_nth [of l i pkt] by (simp add: splice_nth)
  next
    case False
    then show ?thesis using that(1) fits assms(3) by (auto simp: splice_nth)
  qed
  then show ?thesis using fits by (simp add: framed_def)
qed

lemma lbytes_splice:
  assumes "shape pkt" and "l \<in> set (pkt_layers pkt)" and "length b = layer_len l"
  shows "lbytes l (pkt\<lparr>pkt_bytes := splice (pkt_bytes pkt) (layer_offset l) b\<rparr>) = b"
  using shape_layer(1) [OF assms(1,2)] assms(3) by (simp add: lbytes_def splice_def)

section \<open>Reads do not panic\<close>

lemma nth_layer_first: "nth_layer pkt p (- 1) = find (\<lambda>l. layer_is l p) (pkt_layers pkt)"
proof -
  have "find P xs = (case filter P xs of [] \<Rightarrow> None | x # _ \<Rightarrow> Some x)" for P :: "layer \<Rightarrow> bool" and xs
    by (induction xs) simp_all
  then have "byte_at (filter P xs) 0 = find P xs" for P :: "layer \<Rightarrow> bool" and xs
    by (cases "filter P xs") (simp_all add: byte_at_def)
  then show ?thesis by (simp add: nth_layer_def matching_layers_def)
qed

lemma header_fields_some:
  "20 \<le> length b \<Longrightarrow> \<exists>v. ipv4_flags b = Some v"
  "20 \<le> length b \<Longrightarrow> \<exists>v. ipv4_identification b = Some v"
  "20 \<le> length b \<Longrightarrow> \<exists>v. ipv4_src b = Some v"
  "20 \<le> length b \<Longrightarrow> \<exists>v. ipv4_dst b = Some v"
  "40 \<le> length b \<Longrightarrow> \<exists>v. ipv6_src b = Some v"
  "40 \<le> length b \<Longrightarrow> \<exists>v. ipv6_dst b = Some v"
  "8 \<le> length b \<Longrightarrow> \<exists>v. frag_identification b = Some v"
  "8 \<le> length b \<Longrightarrow> \<exists>v. udp_length b = Some v"
  "8 \<le> length b \<Longrightarrow> \<exists>v. udp_checksum b = Some v"
  "4 \<le> length b \<Longrightarrow> \<exists>v. route_segments_left b = Some v"
  "4 \<le> length b \<Longrightarrow> \<exists>v. route_type b = Some v"
  by (simp_all add: ipv4_flags_def ipv4_identification_def ipv4_src_def ipv4_dst_def ipv6_src_def ipv6_dst_def
      frag_identification_def udp_length_def udp_checksum_def route_segments_left_def route_type_def)

definition returns :: "('a \<Rightarrow> bool) \<Rightarrow> 'a tool_result \<Rightarrow> bool" where
  "returns P r = (\<exists>x. r = TOk x \<and> P x)"

lemma returns_TOk [simp]: "returns P (TOk x) = P x"
  by (simp add: returns_def)

lemma returns_bind: "returns Q r \<Longrightarrow> (\<And>x. r = TOk x \<Longrightarrow> Q x \<Longrightarrow> returns P (k x)) \<Longrightarrow> returns P (t_bind r k)"
  by (auto simp: returns_def)

lemma returns_fetch: "\<exists>v. x = Some v \<Longrightarrow> returns (\<lambda>v. x = Some v) (fetch x)"
  by auto

lemma returns_mono: "returns Q r \<Longrightarrow> (\<And>x. Q x \<Longrightarrow> P x) \<Longrightarrow> returns P r"
  by (auto simp: returns_def)

lemma returns_let_some:
  "returns Q r \<Longrightarrow> P d \<Longrightarrow> (\<And>x. r = TOk (Some x) \<Longrightarrow> Q (Some x) \<Longrightarrow> returns P (k x)) \<Longrightarrow>
    returns P (let_some r d k)"
  by (auto simp: let_some_def returns_def split: option.split)

lemma viewer_returns:
  assumes "shape pkt"
  shows "returns (\<lambda>v. \<forall>b. v = Some b \<longrightarrow> (\<exists>l. nth_layer pkt p i = Some l \<and> b = lbytes l pkt \<and> header_min p \<le> length b))
    (nth_layer_viewer pkt p i)"
proof (cases "nth_layer pkt p i")
  case (Some l)
  then show ?thesis
    using nth_layer_viewer_eq [OF assms, of p i] shape_layer(2,3) [OF assms, of l] nth_layer_Some [OF Some] by simp
qed (use nth_layer_viewer_eq [OF assms, of p i] in simp)

lemma chain_layers_subset: "chain_layers pkt = Some ls \<Longrightarrow> set ls \<subseteq> set (pkt_layers pkt)"
  by (auto simp: chain_layers_def split: list.splits dest!: set_takeWhileD)
    (metis in_set_dropD list.set_intros(2) dropWhile_eq_drop)

lemma walk_chain_returns:
  "shape pkt \<Longrightarrow> set ls \<subseteq> set (pkt_layers pkt) \<Longrightarrow> returns (\<lambda>_. True) (walk_chain pkt ls nh)"
proof (induction ls arbitrary: nh)
  case (Cons l ls)
  have "0 < length (lbytes l pkt)"
    using shape_layer(2,3) [OF Cons.prems(1), of l] Cons.prems(2) less_le_trans [OF header_min_pos] by auto
  then show ?case using Cons shape_layer(4) [OF Cons.prems(1), of l] by simp
qed simp

lemma next_header_returns:
  assumes "shape pkt"
  shows "returns (\<lambda>v. v = None \<longleftrightarrow> nth_layer pkt Ipv6 (- 1) = None) (next_header pkt)"
proof (cases "find (\<lambda>l. layer_is l Ipv6) (pkt_layers pkt)")
  case (Some l)
  then have l: "l \<in> set (pkt_layers pkt)" "layer_protocol l = Ipv6"
    using nth_layer_Some [of pkt Ipv6 "- 1" l] by (simp_all add: nth_layer_first)
  have "\<exists>v. ipv6_next_header (lbytes l pkt) = Some v"
    using shape_layer(2,3) [OF assms l(1)] l(2) by (intro network_fields_some(5)) simp
  then obtain nh where nh: "ipv6_next_header (lbytes l pkt) = Some nh" by blast
  have "dropWhile (\<lambda>l. \<not> layer_is l Ipv6) (pkt_layers pkt) \<noteq> []"
    using l by (auto simp: layer_is_def)
  then obtain ls where ls: "chain_layers pkt = Some ls"
    by (cases "dropWhile (\<lambda>l. \<not> layer_is l Ipv6) (pkt_layers pkt)") (simp_all add: chain_layers_def)
  obtain v where "walk_chain pkt ls nh = TOk v"
    using walk_chain_returns [OF assms chain_layers_subset [OF ls], of nh] by (auto simp: returns_def)
  then show ?thesis using Some nh ls shape_layer(4) [OF assms l(1)] by (simp add: next_header_def nth_layer_first)
qed (simp add: next_header_def nth_layer_first)

lemma chain_viewer_returns:
  assumes "shape pkt"
  shows "returns (\<lambda>v. \<forall>b. v = Some b \<longrightarrow> (\<exists>l \<in> set (pkt_layers pkt). layer_protocol l = p \<and> b = lbytes l pkt \<and>
    header_min p \<le> length b)) (chain_viewer pkt p)"
proof (cases "chain_layers pkt")
  case (Some ls)
  show ?thesis
  proof (cases "find (\<lambda>l. layer_is l p) ls")
    case found: (Some l)
    then have l: "l \<in> set (pkt_layers pkt)" "layer_protocol l = p"
      using chain_layers_subset [OF Some] by (auto simp: find_Some_iff layer_is_def)
    then show ?thesis
      using Some found shape_layer(2-4) [OF assms l(1)] by (auto simp: chain_viewer_def)
  qed (simp add: chain_viewer_def Some)
qed (simp add: chain_viewer_def)

lemma outer_transport_returns: "shape pkt \<Longrightarrow> returns (\<lambda>_. True) (outer_transport pkt)"
proof (cases "outer_ip_family pkt = Some IpFamilyV4")
  case True
  assume pkt: "shape pkt"
  show ?thesis
    unfolding outer_transport_def if_P [OF True] outer_ipv4_def
  proof (rule returns_bind [OF viewer_returns [OF pkt]], goal_cases)
    case (1 v)
    show ?case
    proof (cases v)
      case (Some b)
      then have "20 \<le> length b" using 1(2) by fastforce
      then obtain q where "ipv4_protocol b = Some q" using network_fields_some(3) by blast
      then show ?thesis using Some by simp
    qed simp
  qed
next
  case False
  assume "shape pkt"
  then show ?thesis
    unfolding outer_transport_def if_not_P [OF False] by (intro returns_mono [OF next_header_returns] TrueI)
qed

lemma layer_ports_returns:
  assumes "shape pkt" and "\<And>b. header_min p \<le> length b \<Longrightarrow> \<exists>v. src b = Some v"
    and "\<And>b. header_min p \<le> length b \<Longrightarrow> \<exists>v. dst b = Some v"
  shows "returns (\<lambda>_. True) (layer_ports pkt p src dst)"
  unfolding layer_ports_def
proof (rule returns_bind [OF viewer_returns [OF assms(1)]], goal_cases)
  case (1 v)
  show ?case
  proof (cases v)
    case (Some b)
    then have "header_min p \<le> length b" using 1(2) by blast
    then obtain s d where "src b = Some s" "dst b = Some d" using assms(2,3) by blast
    then show ?thesis using Some by simp
  qed simp
qed

lemma packet_ports_returns: "shape pkt \<Longrightarrow> returns (\<lambda>_. True) (packet_ports pkt)"
  unfolding packet_ports_def
  by (rule returns_bind [OF outer_transport_returns])
    (auto intro!: layer_ports_returns ports_some)

lemma viewer_cases:
  assumes "shape pkt"
    and "nth_layer pkt p i = None \<Longrightarrow> returns P (k None)"
    and "\<And>l. nth_layer pkt p i = Some l \<Longrightarrow> header_min p \<le> length (lbytes l pkt) \<Longrightarrow> returns P (k (Some (lbytes l pkt)))"
  shows "returns P (t_bind (nth_layer_viewer pkt p i) k)"
proof (cases "nth_layer pkt p i")
  case (Some l)
  have "header_min p \<le> length (lbytes l pkt)"
    using shape_layer(2,3) [OF assms(1), of l] nth_layer_Some [OF Some] by simp
  then show ?thesis using assms(3) [OF Some] nth_layer_viewer_eq [OF assms(1), of p i] Some by simp
qed (use assms(2) nth_layer_viewer_eq [OF assms(1), of p i] in simp)

lemma from_ipv4_returns:
  assumes "shape pkt" and "20 \<le> length b"
  shows "returns consistent_info (from_ipv4 pkt b)"
proof -
  obtain ports where "packet_ports pkt = TOk ports" using packet_ports_returns [OF assms(1)] by (auto simp: returns_def)
  moreover obtain flags where "ipv4_flags b = Some flags" using header_fields_some(1) [OF assms(2)] by blast
  moreover obtain fo where "ipv4_fragment_offset b = Some fo" using network_fields_some(2) [OF assms(2)] by blast
  moreover obtain src where "ipv4_src b = Some src" using header_fields_some(3) [OF assms(2)] by blast
  moreover obtain dst where "ipv4_dst b = Some dst" using header_fields_some(4) [OF assms(2)] by blast
  moreover obtain q where "ipv4_protocol b = Some q" using network_fields_some(3) [OF assms(2)] by blast
  moreover obtain i where "ipv4_identification b = Some i" using header_fields_some(2) [OF assms(2)] by blast
  ultimately show ?thesis by (cases ports) (simp add: from_ipv4_def consistent_info_def)
qed

lemma from_ipv6_returns:
  assumes "shape pkt" and "40 \<le> length b"
  shows "returns consistent_info (from_ipv6 pkt b)"
proof -
  obtain ports where ports: "packet_ports pkt = TOk ports" using packet_ports_returns [OF assms(1)] by (auto simp: returns_def)
  obtain src where src: "ipv6_src b = Some src" using header_fields_some(5) [OF assms(2)] by blast
  obtain dst where dst: "ipv6_dst b = Some dst" using header_fields_some(6) [OF assms(2)] by blast
  obtain q where q: "ipv6_next_header b = Some q" using network_fields_some(5) [OF assms(2)] by blast
  obtain nh where nh: "next_header pkt = TOk nh" using next_header_returns [OF assms(1)] by (auto simp: returns_def)
  obtain v where v: "outer_fragment pkt = TOk v" "\<forall>b. v = Some b \<longrightarrow> 8 \<le> length b"
    using chain_viewer_returns [OF assms(1), of Ipv6Frag] by (auto simp: returns_def outer_fragment_def)
  show ?thesis
  proof (cases v)
    case None
    then show ?thesis using ports src dst q nh v(1)
      by (cases ports; cases nh) (simp_all add: from_ipv6_def consistent_info_def)
  next
    case (Some f)
    then have f: "8 \<le> length f" using v(2) by simp
    obtain i where i: "frag_identification f = Some i" using header_fields_some(7) [OF f] by blast
    obtain n where n: "ext_next_header f = Some n" using network_fields_some(6) [of f] f by fastforce
    show ?thesis using ports src dst q nh v(1) Some i n
      by (cases ports; cases nh) (simp_all add: from_ipv6_def consistent_info_def)
  qed
qed

lemma packet_info_returns:
  assumes "shape pkt"
  shows "returns (\<lambda>i. \<forall>x. i = Some x \<longrightarrow> consistent_info x) (packet_info_read pkt)"
proof (cases "outer_ip_family pkt")
  case (Some fam)
  show ?thesis
  proof (cases fam)
    case IpFamilyV4
    then show ?thesis
      using Some from_ipv4_returns [OF assms]
      by (auto simp: packet_info_read_def outer_ipv4_def returns_def intro!: viewer_cases [OF assms, unfolded returns_def]
          split: option.split) fastforce
  next
    case IpFamilyV6
    then show ?thesis
      using Some from_ipv6_returns [OF assms]
      by (auto simp: packet_info_read_def outer_ipv6_def returns_def intro!: viewer_cases [OF assms, unfolded returns_def]
          split: option.split) fastforce
  qed
qed (simp add: packet_info_read_def)

section \<open>Writes stay in the frame\<close>

definition edits :: "nat \<times> nat \<Rightarrow> bytes \<Rightarrow> bytes \<Rightarrow> bool" where
  "edits w b b' =
    (length b' = length b \<and> (\<forall>j < length b. j < fst w \<or> snd w \<le> j \<longrightarrow> b' ! j = b ! j))"

lemma edits_refl [simp]: "edits w b b"
  by (simp add: edits_def)

lemma edits_trans: "edits w a b \<Longrightarrow> edits w b c \<Longrightarrow> edits w a c"
  by (simp add: edits_def)

lemma edits_splice:
  "fst w \<le> lo \<Longrightarrow> lo + length new \<le> snd w \<Longrightarrow> lo + length new \<le> length b \<Longrightarrow> edits w b (splice b lo new)"
  by (auto simp: edits_def splice_nth)

lemma setter_edits:
  assumes "LENGTH('u::len) = 8 * n" and "lo + n \<le> length b" and "fst w \<le> lo" and "lo + n \<le> snd w"
  shows "returns (edits w b) (fetch (view_set lo (lo + n) whole (v :: 'u word) b))"
  using edits_splice [of w lo "be_bytes n (unat v)" b] assms by (simp add: view_set_splice)

lemma write_returns:
  assumes "shape pkt" and "touched pkt p" and "\<And>b. header_min p \<le> length b \<Longrightarrow> returns (\<lambda>(_, b'). edits (writable p) b b') (f b)"
  shows "returns (\<lambda>(x, pkt'). framed pkt pkt' \<and> (x = None \<longrightarrow> pkt' = pkt)) (with_viewer_mut pkt p (- 1) f)"
proof (cases "nth_layer pkt p (- 1)")
  case (Some l)
  have len: "header_min p \<le> length (lbytes l pkt)" "length (lbytes l pkt) = layer_len l"
    using shape_layer(2,3) [OF assms(1), of l] nth_layer_Some [OF Some] by simp_all
  obtain x b where b: "f (lbytes l pkt) = TOk (x, b)" "edits (writable p) (lbytes l pkt) b"
    using assms(3) [OF len(1)] by (auto simp: returns_def)
  have same: "length b = layer_len l" using b(2) len(2) by (simp add: edits_def)
  moreover have "framed pkt (pkt\<lparr>pkt_bytes := splice (pkt_bytes pkt) (layer_offset l) b\<rparr>)"
    using b(2) len(2) same assms(2) by (intro splice_framed [OF assms(1) Some]) (auto simp: edits_def)
  ultimately show ?thesis
    using with_viewer_mut_eq [where f = f and l = l and x = x and b = b, OF assms(1) Some b(1)] by simp
qed (simp add: with_viewer_mut_None)

lemma viewer_mut_returns:
  assumes "shape pkt" and "touched pkt p" and "\<And>b. header_min p \<le> length b \<Longrightarrow> returns (edits (writable p) b) (g b)"
  shows "returns (framed pkt) (nth_layer_viewer_mut pkt p (- 1) g)"
  unfolding nth_layer_viewer_mut_def
proof (rule returns_bind [OF write_returns [OF assms(1,2)]], goal_cases)
  case (1 b)
  then show ?case using assms(3) [of b] by (auto simp: setting_def returns_def)
qed auto

lemma set_addrs_edits:
  "20 \<le> length b \<Longrightarrow> returns (edits (10, 20) b) (set_ipv4_addrs t b)"
  "40 \<le> length c \<Longrightarrow> returns (edits (8, 40) c) (set_ipv6_addrs t c)"
proof -
  have v4: "20 \<le> length b \<Longrightarrow> returns (edits (10, 20) b) (ipv4_set_src a b)"
    "20 \<le> length b \<Longrightarrow> returns (edits (10, 20) b) (ipv4_set_dst a b)" for a b
    using setter_edits [of 4 12 b "(10, 20)" a] setter_edits [of 4 16 b "(10, 20)" a]
    by (simp_all add: ipv4_set_src_def ipv4_set_dst_def)
  have v6: "40 \<le> length b \<Longrightarrow> returns (edits (8, 40) b) (ipv6_set_src a b)"
    "40 \<le> length b \<Longrightarrow> returns (edits (8, 40) b) (ipv6_set_dst a b)" for a b
    using setter_edits [of 16 8 b "(8, 40)" a] setter_edits [of 16 24 b "(8, 40)" a]
    by (simp_all add: ipv6_set_src_def ipv6_set_dst_def)
  show "20 \<le> length b \<Longrightarrow> returns (edits (10, 20) b) (set_ipv4_addrs t b)"
    unfolding set_ipv4_addrs_def
    by (rule returns_bind [where Q = "edits (10, 20) b"])
      (auto split: option.split ip_addr.split intro: v4 returns_mono [OF v4(2)] edits_trans simp: edits_def)
  show "40 \<le> length c \<Longrightarrow> returns (edits (8, 40) c) (set_ipv6_addrs t c)"
    unfolding set_ipv6_addrs_def
    by (rule returns_bind [where Q = "edits (8, 40) c"])
      (auto split: option.split ip_addr.split intro: v6 returns_mono [OF v6(2)] edits_trans simp: edits_def)
qed

section \<open>The transport segment\<close>

lemma within_ip_behind:
  assumes "within_ip bs ls" and "laid_out lo hi ls" and "k \<in> set ls" and "l \<in> set ls"
    and "layer_offset k < layer_offset l" and "ip_end bs k = Some e" and "\<not> layer_is l Raw"
  shows "layer_offset l + layer_len l \<le> e"
  using assms
proof (induction ls arbitrary: lo)
  case (Cons m ls)
  show ?case
  proof (cases "k \<in> set ls \<and> l \<in> set ls")
    case False
    have "layer_offset m + layer_len m \<le> layer_offset x" if "x \<in> set ls" for x
      using Cons.prems(2) laid_out_in_range [of "layer_offset m + layer_len m" hi ls x] that by simp
    then have "k = m" and "l \<in> set ls" using False Cons.prems(3-5) by fastforce+
    then show ?thesis using Cons.prems(1,6,7) by (auto simp: stays_in_def)
  next
    case True
    then show ?thesis using Cons.IH Cons.prems by auto
  qed
qed simp

lemma nth_layer_range_eq:
  "nth_layer pkt p i = Some l \<Longrightarrow> nth_layer_range pkt p i = Some (layer_offset l, layer_offset l + layer_len l)"
  by (simp add: nth_layer_range_def layer_range_def)

text \<open>The bounds are those the header in front declares.\<close>

definition declared_bounds :: "packet \<Rightarrow> nat \<times> nat \<times> nat \<Rightarrow> bool" where
  "declared_bounds pkt v =
    (case v of (off, h, n) \<Rightarrow> \<exists>k \<in> set (pkt_layers pkt). off = layer_offset k \<and>
       (layer_protocol k = Ipv4 \<or> layer_protocol k = Ipv6) \<and>
       (if n = 0 then \<forall>e. ip_end (pkt_bytes pkt) k = Some e \<longrightarrow> e = off + h
        else ip_end (pkt_bytes pkt) k = Some (off + h + n)))"

lemma ipv4_declared:
  assumes "shape pkt" and "nth_layer pkt Ipv4 i = Some l" and "ipv4_total_length (lbytes l pkt) = Some tot"
    and "\<not> (unat tot \<noteq> 0 \<and> unat tot < h)"
  shows "declared_bounds pkt (layer_offset l, h, unat tot - h)"
proof -
  have l: "l \<in> set (pkt_layers pkt)" "layer_protocol l = Ipv4" using nth_layer_Some [OF assms(2)] by auto
  have "ip_end (pkt_bytes pkt) l = (if unat tot = 0 then None else Some (layer_offset l + unat tot))"
    using ipv4_end [OF _ _ _ assms(3), of "layer_len l" "layer_offset l" "pkt_bytes pkt"] shape_layer [OF assms(1) l(1)] l(2)
    by (cases l) (simp add: lbytes_def)
  then show ?thesis
    unfolding declared_bounds_def prod.case using l assms(4) by (intro bexI [of _ l]) auto
qed

lemma ipv6_declared:
  assumes "shape pkt" and "nth_layer pkt Ipv6 i = Some l" and "ipv6_payload_length (lbytes l pkt) = Some pl"
  shows "declared_bounds pkt (layer_offset l, 40, unat pl)"
proof -
  have l: "l \<in> set (pkt_layers pkt)" "layer_protocol l = Ipv6" using nth_layer_Some [OF assms(2)] by auto
  have "ip_end (pkt_bytes pkt) l = (if unat pl = 0 then None else Some (layer_offset l + 40 + unat pl))"
    using ipv6_end [OF _ _ _ assms(3), of "layer_len l" "layer_offset l" "pkt_bytes pkt"] shape_layer [OF assms(1) l(1)] l(2)
    by (cases l) (simp add: lbytes_def)
  then show ?thesis using l by (auto simp: declared_bounds_def)
qed

lemma ip_bounds_returns:
  assumes "shape pkt"
  shows "returns (\<lambda>v. \<forall>x. v = Some x \<longrightarrow> declared_bounds pkt x) (ip_bounds pkt)"
proof (cases "outer_ip_family pkt")
  case (Some fam)
  show ?thesis
  proof (cases fam)
    case IpFamilyV4
    have "returns (\<lambda>v. \<forall>x. v = Some x \<longrightarrow> declared_bounds pkt x)
      (t_bind (fetch (ipv4_header_len b)) (\<lambda>header_len.
             t_bind (fetch (ipv4_total_length b)) (\<lambda>tot.
             let total_length = unat tot in
             if total_length \<noteq> 0 \<and> total_length < header_len then TOk None
             else TOk (map_option (\<lambda>(start, _). (start, header_len, total_length - header_len))
               (nth_layer_range pkt Ipv4 (- 1))))))"
      if l: "nth_layer pkt Ipv4 (- 1) = Some l" and b: "b = lbytes l pkt" "20 \<le> length b" for l b
    proof -
      obtain h where h: "ipv4_header_len b = Some h" using b(2) by (fastforce simp: ipv4_header_len_def)
      obtain tot where tot: "ipv4_total_length b = Some tot" using network_fields_some(1) [OF b(2)] by blast
      show ?thesis
        using ipv4_declared [OF assms l, of tot h] h tot b(1) by (simp add: nth_layer_range_eq [OF l] Let_def)
    qed
    then show ?thesis
      unfolding ip_bounds_def Some IpFamilyV4 option.case ip_family.case outer_ipv4_def
      by (intro viewer_cases [OF assms]) simp_all
  next
    case IpFamilyV6
    have "returns (\<lambda>v. \<forall>x. v = Some x \<longrightarrow> declared_bounds pkt x)
      (t_bind (fetch (ipv6_payload_length b)) (\<lambda>pl.
             TOk (map_option (\<lambda>(start, _). (start, 40, unat pl)) (nth_layer_range pkt Ipv6 (- 1)))))"
      if l: "nth_layer pkt Ipv6 (- 1) = Some l" and b: "b = lbytes l pkt" "40 \<le> length b" for l b
    proof -
      obtain pl where pl: "ipv6_payload_length b = Some pl" using network_fields_some(4) [OF b(2)] by blast
      show ?thesis
        using ipv6_declared [OF assms l, of pl] pl b(1) by (auto simp: nth_layer_range_eq [OF l])
    qed
    then show ?thesis
      unfolding ip_bounds_def Some IpFamilyV6 option.case ip_family.case outer_ipv6_def
      by (intro viewer_cases [OF assms]) simp_all
  qed
qed (simp add: ip_bounds_def)

lemma declared_segment:
  assumes "shape pkt" and "declared_bounds pkt (off, h, n)" and "l \<in> set (pkt_layers pkt)"
    and "layer_protocol l \<in> {Tcp, Udp, Icmpv6}" and "off + h \<le> layer_offset l"
  shows "layer_offset l + layer_len l \<le> (if n = 0 then length (pkt_bytes pkt) else off + h + n)"
proof -
  obtain k where k: "k \<in> set (pkt_layers pkt)" "off = layer_offset k" "layer_protocol k = Ipv4 \<or> layer_protocol k = Ipv6"
    "if n = 0 then \<forall>e. ip_end (pkt_bytes pkt) k = Some e \<longrightarrow> e = off + h
      else ip_end (pkt_bytes pkt) k = Some (off + h + n)"
    using assms(2) by (auto simp: declared_bounds_def)
  have "0 < layer_len l" using shape_layer(2) [OF assms(1,3)] less_le_trans [OF header_min_pos] by blast
  moreover have "0 < layer_len k" using shape_layer(2) [OF assms(1) k(1)] less_le_trans [OF header_min_pos] by blast
  moreover have "k \<noteq> l" using k(3) assms(4) by auto
  ultimately have "layer_offset k < layer_offset l"
    using laid_out_disjoint [OF _ k(1) assms(3)] assms(1,5) k(2) by (fastforce simp: shape_def)
  then have "layer_offset l + layer_len l \<le> e" if "ip_end (pkt_bytes pkt) k = Some e" for e
    using within_ip_behind [OF _ _ k(1) assms(3) _ that] assms(1,4) by (auto simp: shape_def layer_is_def)
  then show ?thesis using k(4) shape_layer(1) [OF assms(1,3)] by (auto split: if_splits)
qed

lemma transport_segment_returns:
  assumes "shape pkt" and "outer_transport pkt = TOk (Some q)"
  shows "returns (\<lambda>s. \<forall>b. s = Some b \<longrightarrow> (\<exists>p l e. transport_layer q = Some p \<and> nth_layer pkt p (- 1) = Some l \<and>
    layer_offset l + layer_len l \<le> e \<and> slice (pkt_bytes pkt) (layer_offset l) e = Some b)) (transport_segment pkt)"
  unfolding transport_segment_def
proof (rule returns_bind [OF ip_bounds_returns [OF assms(1)]], goal_cases)
  case (1 bounds)
  show ?case
  proof (cases bounds)
    case (Some v)
    obtain off h n where v: "v = (off, h, n)" by (cases v) auto
    have declared: "declared_bounds pkt (off, h, n)" using 1(2) Some v by simp
    show ?thesis
    proof (cases "Option.bind (transport_layer q) (\<lambda>p. nth_layer pkt p (- 1))")
      case found: (Some l)
      then obtain p where p: "transport_layer q = Some p" "nth_layer pkt p (- 1) = Some l" by (auto simp: bind_eq_Some_conv)
      have "layer_protocol l \<in> {Tcp, Udp, Icmpv6}" "l \<in> set (pkt_layers pkt)"
        using p nth_layer_Some [OF p(2)] by (auto simp: transport_layer_def split: if_splits)
      then show ?thesis
        using declared_segment [OF assms(1) declared, of l] Some v p assms(2) nth_layer_range_eq [OF p(2)]
        by (auto simp: Let_def)
    next
      case None
      then have "Option.bind (transport_layer q) (\<lambda>p. nth_layer_range pkt p (- 1)) = None"
        by (auto simp: bind_eq_None_conv nth_layer_range_def split: option.split)
      then show ?thesis using Some v assms(2) by simp
    qed
  qed simp
qed

section \<open>Fixing the checksums\<close>

text \<open>The one shape that panics: a routing header the capture cut behind its first two or three
  bytes, in an IPv6 packet that is no fragment.\<close>

definition cut_route :: "packet \<Rightarrow> bool" where
  "cut_route pkt =
    (outer_ip_family pkt = Some IpFamilyV6 \<and> chain_viewer pkt Ipv6Frag = TOk None \<and>
     (case chain_viewer pkt Ipv6Route of TOk (Some b) \<Rightarrow> length b < 4 | _ \<Rightarrow> False))"

lemma srh_segments_returns: "returns (\<lambda>_. True) (srh_segments data)"
proof (cases "4 \<le> length data")
  case True
  obtain v where "view_raw 0 1 whole data = Some (v :: 8 word)"
    using True view_raw_in_range [of 0 1 data whole, where ?'u = 8] by fastforce
  then obtain n where n: "srh_segment_list_len data = Some n" "n \<le> length data - 4"
    by (auto simp: srh_segment_list_len_def)
  then have "\<exists>s. slice data 4 (4 + n) = Some s" using True by (simp add: slice_def)
  then obtain s where "slice data 4 (4 + n) = Some s" by blast
  then show ?thesis using True n(1) by (simp add: srh_segments_def)
qed (simp add: srh_segments_def)

lemma pseudo_header_dst_returns:
  assumes "chain_viewer pkt Ipv6Route = TOk v" and "\<forall>b. v = Some b \<longrightarrow> 4 \<le> length b"
  shows "returns (\<lambda>_. True) (pseudo_header_dst pkt dst)"
proof (cases v)
  case (Some b)
  then have b: "4 \<le> length b" using assms(2) by simp
  obtain left where left: "route_segments_left b = Some left" using header_fields_some(10) [OF b] by blast
  obtain ty where ty: "route_type b = Some ty" using header_fields_some(11) [OF b] by blast
  obtain data where data: "route_data b = Some data" using b by (auto simp: route_data_def slice_def)
  obtain s where s: "srh_segments data = TOk s" using srh_segments_returns [of data] by (auto simp: returns_def)
  show ?thesis
    using assms(1) Some left ty data s by (auto simp: pseudo_header_dst_def split: option.split)
qed (use assms in \<open>simp add: pseudo_header_dst_def\<close>)

lemma pseudo_header_dst_panics:
  assumes "chain_viewer pkt Ipv6Route = TOk (Some b)" and "length b < 4"
  shows "pseudo_header_dst pkt dst = TPanic"
  using assms by (simp add: pseudo_header_dst_def route_segments_left_def view_raw_def slice_def)

lemma checksum_setters_edit:
  "20 \<le> length b \<Longrightarrow> returns (edits (16, 18) b) (tcp_set_checksum v b)"
  "8 \<le> length b \<Longrightarrow> returns (edits (6, 8) b) (udp_set_checksum v b)"
  "4 \<le> length b \<Longrightarrow> returns (edits (2, 4) b) (icmpv6_set_checksum v b)"
  "20 \<le> length b \<Longrightarrow> returns (edits (10, 20) b) (ipv4_set_checksum v b)"
  using setter_edits [of 2 16 b "(16, 18)" v] setter_edits [of 2 6 b "(6, 8)" v] setter_edits [of 2 2 b "(2, 4)" v]
    setter_edits [of 2 10 b "(10, 20)" v]
  by (simp_all add: tcp_set_checksum_def udp_set_checksum_def icmpv6_set_checksum_def ipv4_set_checksum_def)

lemma transport_write_returns:
  assumes "shape pkt"
  shows "returns (framed pkt) (nth_layer_viewer_mut pkt Tcp (- 1) (tcp_set_checksum v))"
    "returns (framed pkt) (nth_layer_viewer_mut pkt Udp (- 1) (udp_set_checksum v))"
    "returns (framed pkt) (nth_layer_viewer_mut pkt Icmpv6 (- 1) (icmpv6_set_checksum v))"
  by (rule viewer_mut_returns [OF assms]; simp add: writable_def touched_def checksum_setters_edit)+

lemma fix_ipv4_header_edits: "20 \<le> length b \<Longrightarrow> returns (edits (10, 20) b) (fix_ipv4_header b)"
proof -
  assume b: "20 \<le> length b"
  then obtain h where "ipv4_header_len b = Some h" by (fastforce simp: ipv4_header_len_def)
  then show ?thesis
    using checksum_setters_edit(4) [OF b] by (simp add: fix_ipv4_header_def ipv4_calculate_checksum_def)
qed

lemma udp_segment_returns:
  assumes "8 \<le> length b"
  shows "returns (\<lambda>_. True) (udp_calculate_checksum_ipv4 b src dst)"
    "returns (\<lambda>_. True) (udp_calculate_checksum_ipv6 b src' dst')"
proof -
  obtain n where "udp_length b = Some n" using header_fields_some(8) [OF assms] by blast
  then show "returns (\<lambda>_. True) (udp_calculate_checksum_ipv4 b src dst)"
    "returns (\<lambda>_. True) (udp_calculate_checksum_ipv6 b src' dst')"
    by (simp_all add: udp_calculate_checksum_ipv4_def udp_calculate_checksum_ipv6_def Let_def)
qed

lemma segment_length:
  assumes "shape pkt" and "nth_layer pkt p (- 1) = Some l" and "layer_offset l + layer_len l \<le> e"
    and "slice (pkt_bytes pkt) (layer_offset l) e = Some b"
  shows "header_min p \<le> length b"
  using assms shape_layer(2) [OF assms(1), of l] nth_layer_Some [OF assms(2)]
  by (auto simp: slice_def split: if_splits)

lemma segment_cases:
  assumes "shape pkt" and "outer_transport pkt = TOk (Some q)" and "P d"
    and "\<And>p b. transport_layer q = Some p \<Longrightarrow> header_min p \<le> length b \<Longrightarrow> returns P (k b)"
  shows "returns P (let_some (transport_segment pkt) d k)"
proof (rule returns_let_some [OF transport_segment_returns [OF assms(1,2)]], rule assms(3), goal_cases)
  case (1 b)
  then obtain p l e where "transport_layer q = Some p" "nth_layer pkt p (- 1) = Some l"
    "layer_offset l + layer_len l \<le> e" "slice (pkt_bytes pkt) (layer_offset l) e = Some b" by blast
  then show ?case using assms(4) segment_length [OF assms(1)] by blast
qed

lemma udp_write_returns:
  assumes "shape pkt" and "8 \<le> length b"
  shows "returns (framed pkt) (t_bind (udp_calculate_checksum_ipv4 b src dst) (\<lambda>c.
      nth_layer_viewer_mut pkt Udp (- 1) (udp_set_checksum c)))"
    "returns (framed pkt) (t_bind (udp_calculate_checksum_ipv6 b src' dst') (\<lambda>c.
      nth_layer_viewer_mut pkt Udp (- 1) (udp_set_checksum c)))"
  by (rule returns_bind [OF udp_segment_returns(1) [OF assms(2)]], rule transport_write_returns(2) [OF assms(1)],
      rule returns_bind [OF udp_segment_returns(2) [OF assms(2)]], rule transport_write_returns(2) [OF assms(1)])

lemma ip_protocols [simp]:
  "ip_tcp \<noteq> ip_udp" "ip_tcp \<noteq> ip_ipv6_icmp" "ip_udp \<noteq> ip_tcp" "ip_udp \<noteq> ip_ipv6_icmp" "ip_ipv6_icmp \<noteq> ip_tcp"
  "ip_ipv6_icmp \<noteq> ip_udp"
  by (simp_all add: ip_tcp_def ip_udp_def ip_ipv6_icmp_def)

lemma fix_ipv4_udp_returns:
  assumes "shape pkt" and "outer_transport pkt = TOk (Some ip_udp)"
  shows "returns (framed pkt) (t_bind (nth_layer_viewer pkt Udp (- 1)) (\<lambda>udp.
      t_bind (case udp of
                None \<Rightarrow> TOk False
              | Some hdr \<Rightarrow> t_bind (fetch (udp_checksum hdr)) (\<lambda>c. TOk (c = 0))) (\<lambda>disabled.
      if disabled then TOk pkt
      else
        let_some (transport_segment pkt) pkt (\<lambda>segment.
        t_bind (udp_calculate_checksum_ipv4 segment src dst) (\<lambda>checksum.
        nth_layer_viewer_mut pkt Udp (- 1) (udp_set_checksum checksum))))))"
proof -
  have fixing: "returns (framed pkt) (let_some (transport_segment pkt) pkt (\<lambda>segment.
        t_bind (udp_calculate_checksum_ipv4 segment src dst) (\<lambda>checksum.
        nth_layer_viewer_mut pkt Udp (- 1) (udp_set_checksum checksum))))"
    by (rule segment_cases [OF assms], rule framed_refl, rule udp_write_returns(1) [OF assms(1)])
      (auto simp: transport_layer_def)
  show ?thesis
  proof (rule viewer_cases [OF assms(1)], goal_cases)
    case (2 l)
    then have "8 \<le> length (lbytes l pkt)" by simp
    then obtain c where "udp_checksum (lbytes l pkt) = Some c" using header_fields_some(9) by blast
    then show ?case using fixing by simp
  qed (use fixing in simp)
qed

lemma fix_ipv4_transport_returns:
  assumes "shape pkt"
  shows "returns (framed pkt) (fix_ipv4_transport pkt)"
  unfolding fix_ipv4_transport_def
proof (rule returns_let_some [OF outer_transport_returns [OF assms]], goal_cases)
  case (2 q)
  show ?case
  proof (rule returns_let_some, unfold outer_ipv4_def, rule viewer_returns [OF assms], goal_cases)
    case (2 b)
    then have b: "20 \<le> length b" by fastforce
    obtain src where src: "ipv4_src b = Some src" using header_fields_some(3) [OF b] by blast
    obtain dst where dst: "ipv4_dst b = Some dst" using header_fields_some(4) [OF b] by blast
    consider "q = ip_tcp" | "q = ip_udp" | "q \<noteq> ip_tcp" "q \<noteq> ip_udp" by blast
    then show ?case
    proof cases
      case 1
      then show ?thesis
        using src dst segment_cases [OF assms, of q "framed pkt" pkt] transport_write_returns(1) [OF assms]
          \<open>outer_transport pkt = TOk (Some q)\<close> by simp
    next
      case 2
      then show ?thesis using src dst fix_ipv4_udp_returns [OF assms] \<open>outer_transport pkt = TOk (Some q)\<close> by simp
    qed (simp add: src dst)
  qed simp
qed simp

lemma fix_ipv4_checksums_returns:
  assumes "shape pkt" and "outer_ip_family pkt = Some IpFamilyV4"
  shows "returns (framed pkt) (fix_ipv4_checksums pkt)"
proof -
  have "returns (framed pkt) (nth_layer_viewer_mut pkt Ipv4 (- 1) fix_ipv4_header)"
    by (rule viewer_mut_returns [OF assms(1)]) (simp_all add: writable_def touched_def assms(2) fix_ipv4_header_edits)
  then obtain x pkt1 where 1: "outer_ipv4_mut pkt (setting fix_ipv4_header) = TOk (x, pkt1)" "framed pkt pkt1"
    by (auto simp: nth_layer_viewer_mut_def returns_def outer_ipv4_mut_def t_bind_TOk)
  note shape1 = framed_shape [OF assms(1) 1(2)]
  obtain info where info: "packet_info_read pkt1 = TOk info" using packet_info_returns [OF shape1] by (auto simp: returns_def)
  obtain pkt2 where "fix_ipv4_transport pkt1 = TOk pkt2" "framed pkt1 pkt2"
    using fix_ipv4_transport_returns [OF shape1] by (auto simp: returns_def)
  then show ?thesis using 1 info framed_trans by (auto simp: fix_ipv4_checksums_def)
qed

text \<open>The chain of extension headers is not written.\<close>

lemma chain_viewer_framed:
  assumes "shape pkt" and "framed pkt pkt'" and "writable p = (0, 0)"
  shows "chain_viewer pkt' p = chain_viewer pkt p"
proof -
  have layers: "chain_layers pkt' = chain_layers pkt" using assms(2) by (simp add: chain_layers_def framed_def)
  have "layer_view l pkt' = layer_view l pkt" if "chain_layers pkt = Some ls" "find (\<lambda>l. layer_is l p) ls = Some l" for ls l
  proof -
    have l: "l \<in> set (pkt_layers pkt)" "layer_protocol l = p"
      using that chain_layers_subset [OF that(1)] by (auto simp: find_Some_iff layer_is_def)
    then have "l \<in> set (pkt_layers pkt')" using assms(2) by (simp add: framed_def)
    then show ?thesis
      using shape_layer(4) [OF assms(1) l(1)] shape_layer(4) [OF framed_shape [OF assms(1,2)]]
        framed_lbytes [OF assms(1,2) l(1)] l(2) assms(3) by simp
  qed
  then show ?thesis by (auto simp: chain_viewer_def layers split: option.split)
qed

lemma cut_route_framed: "shape pkt \<Longrightarrow> framed pkt pkt' \<Longrightarrow> cut_route pkt' = cut_route pkt"
  using framed_family [of pkt pkt'] chain_viewer_framed [of pkt pkt' Ipv6Frag] chain_viewer_framed [of pkt pkt' Ipv6Route]
  by (simp add: cut_route_def writable_def)

lemma ipv6_transport_returns:
  assumes "shape pkt" and "outer_transport pkt = TOk (Some q)"
  shows "returns (framed pkt) (let_some (transport_segment pkt) pkt (\<lambda>segment.
      if q = ip_tcp then
        nth_layer_viewer_mut pkt Tcp (- 1) (tcp_set_checksum (tcp_calculate_checksum_ipv6 segment src dst))
      else if q = ip_udp then
        t_bind (udp_calculate_checksum_ipv6 segment src dst) (\<lambda>checksum.
        nth_layer_viewer_mut pkt Udp (- 1) (udp_set_checksum checksum))
      else if q = ip_ipv6_icmp then
        nth_layer_viewer_mut pkt Icmpv6 (- 1)
          (icmpv6_set_checksum (icmpv6_calculate_checksum_ipv6 segment src dst))
      else TOk pkt))"
proof (rule segment_cases [OF assms], rule framed_refl, goal_cases)
  case (1 p b)
  then show ?case
    using transport_write_returns [OF assms(1)] udp_write_returns(2) [OF assms(1), of b]
    by (auto simp: transport_layer_def split: if_splits)
qed

lemma fix_ipv6_checksums_returns:
  assumes "shape pkt" and "outer_ip_family pkt = Some IpFamilyV6"
  shows "if cut_route pkt then fix_ipv6_checksums pkt = TPanic
    else returns (framed pkt) (fix_ipv6_checksums pkt)"
proof -
  obtain f where f: "chain_viewer pkt Ipv6Frag = TOk f"
    using chain_viewer_returns [OF assms(1)] by (auto simp: returns_def)
  obtain v where v: "chain_viewer pkt Ipv6Route = TOk v"
    using chain_viewer_returns [OF assms(1)] by (auto simp: returns_def)
  obtain l where l: "nth_layer pkt Ipv6 (- 1) = Some l"
    using assms(2) by (auto simp: outer_ip_family_def split: option.splits if_splits)
  have ipv6: "outer_ipv6 pkt = TOk (Some (lbytes l pkt))" "40 \<le> length (lbytes l pkt)"
    using nth_layer_viewer_eq [OF assms(1), of Ipv6 "- 1"] l shape_layer(2,3) [OF assms(1), of l] nth_layer_Some [OF l]
    by (simp_all add: outer_ipv6_def)
  obtain q where q: "outer_transport pkt = TOk (Some q)"
    using next_header_returns [OF assms(1)] l assms(2) by (auto simp: returns_def outer_transport_def)
  obtain src where src: "ipv6_src (lbytes l pkt) = Some src" using header_fields_some(5) [OF ipv6(2)] by blast
  obtain dst where dst: "ipv6_dst (lbytes l pkt) = Some dst" using header_fields_some(6) [OF ipv6(2)] by blast
  show ?thesis
  proof (cases "f = None")
    case True
    note known = f v ipv6(1) q src dst True
    show ?thesis
    proof (cases "cut_route pkt")
      case True
      then obtain b where "v = Some b" "length b < 4" using v by (auto simp: cut_route_def split: option.splits)
      then have "pseudo_header_dst pkt dst = TPanic" using pseudo_header_dst_panics v by blast
      then show ?thesis using True known by (simp add: fix_ipv6_checksums_def outer_fragment_def let_some_def)
    next
      case False
      then have "\<forall>b. v = Some b \<longrightarrow> 4 \<le> length b" using known assms(2) by (auto simp: cut_route_def)
      then obtain d where d: "pseudo_header_dst pkt dst = TOk d"
        using pseudo_header_dst_returns [OF v] by (auto simp: returns_def)
      show ?thesis
        using False known d ipv6_transport_returns [OF assms(1) q]
        by (cases d) (simp_all add: fix_ipv6_checksums_def outer_fragment_def let_some_def)
    qed
  qed (use f in \<open>auto simp: fix_ipv6_checksums_def outer_fragment_def cut_route_def\<close>)
qed

lemma fix_checksums_returns:
  assumes "shape pkt"
  shows "if cut_route pkt then fix_checksums pkt = TPanic else returns (framed pkt) (fix_checksums pkt)"
proof (cases "outer_ip_family pkt")
  case (Some fam)
  then show ?thesis
    using fix_ipv4_checksums_returns [OF assms] fix_ipv6_checksums_returns [OF assms]
    by (cases fam) (auto simp: fix_checksums_def cut_route_def)
qed (simp add: fix_checksums_def cut_route_def)

section \<open>Writing the addresses\<close>

lemma splice_same: "off + n \<le> length bs \<Longrightarrow> splice bs off (take n (drop off bs)) = bs"
  by (rule nth_equalityI) (auto simp: splice_nth)

lemma mutated_returns:
  assumes "shape pkt" and "touched pkt p"
    and "\<And>b. header_min p \<le> length b \<Longrightarrow> returns (\<lambda>(x, b'). edits (writable p) b b' \<and> (kept x \<longrightarrow> b' = b)) (f b)"
  shows "returns (\<lambda>(x, pkt'). framed pkt pkt' \<and> ((case x of None \<Rightarrow> True | Some y \<Rightarrow> kept y) \<longrightarrow> pkt' = pkt))
    (with_viewer_mut pkt p (- 1) f)"
proof (cases "nth_layer pkt p (- 1)")
  case (Some l)
  have l: "l \<in> set (pkt_layers pkt)" "layer_protocol l = p" using nth_layer_Some [OF Some] by auto
  have len: "header_min p \<le> length (lbytes l pkt)" "length (lbytes l pkt) = layer_len l"
    using shape_layer(2,3) [OF assms(1) l(1)] l(2) by simp_all
  obtain x b where b: "f (lbytes l pkt) = TOk (x, b)" "edits (writable p) (lbytes l pkt) b" "kept x \<longrightarrow> b = lbytes l pkt"
    using assms(3) [OF len(1)] by (auto simp: returns_def)
  have "length b = layer_len l" using b(2) len(2) by (simp add: edits_def)
  then have r: "with_viewer_mut pkt p (- 1) f =
      TOk (Some x, pkt\<lparr>pkt_bytes := splice (pkt_bytes pkt) (layer_offset l) b\<rparr>)"
    using with_viewer_mut_eq [where f = f and l = l and x = x and b = b, OF assms(1) Some b(1)] by simp
  have "framed pkt (pkt\<lparr>pkt_bytes := splice (pkt_bytes pkt) (layer_offset l) b\<rparr>)"
    using write_returns [OF assms(1,2), of f] assms(3) r by (fastforce simp: returns_def)
  moreover have "splice (pkt_bytes pkt) (layer_offset l) (lbytes l pkt) = pkt_bytes pkt"
    using splice_same shape_layer(1) [OF assms(1) l(1)] by (simp add: lbytes_def)
  ultimately show ?thesis using r b(3) by auto
qed (simp add: with_viewer_mut_None)

lemma outer_touched:
  "outer_ip_family pkt = Some IpFamilyV4 \<Longrightarrow> touched pkt Ipv4" "outer_ip_family pkt = Some IpFamilyV6 \<Longrightarrow> touched pkt Ipv6"
  by (simp_all add: touched_def)

lemma set_addrs_none:
  "tg_src t = None \<Longrightarrow> tg_dst t = None \<Longrightarrow> set_ipv4_addrs t b = TOk b"
  "tg_src t = None \<Longrightarrow> tg_dst t = None \<Longrightarrow> set_ipv6_addrs t b = TOk b"
  by (simp_all add: set_ipv4_addrs_def set_ipv6_addrs_def)

lemma apply_targets_returns:
  assumes "shape pkt"
  shows "returns (\<lambda>pkt'. framed pkt pkt' \<and> (tg_src t = None \<and> tg_dst t = None \<longrightarrow> pkt' = pkt)) (apply_targets pkt t)"
proof -
  have v4: "returns (\<lambda>(x, b'). edits (writable Ipv4) b b' \<and> (tg_src t = None \<and> tg_dst t = None \<longrightarrow> b' = b))
      (setting (set_ipv4_addrs t) b)" if "header_min Ipv4 \<le> length b" for b
    using that set_addrs_edits(1) [of b t] set_addrs_none(1) [of t b] by (auto simp: returns_def setting_def writable_def)
  have v6: "returns (\<lambda>(x, b'). edits (writable Ipv6) b b' \<and> (tg_src t = None \<and> tg_dst t = None \<longrightarrow> b' = b))
      (setting (set_ipv6_addrs t) b)" if "header_min Ipv6 \<le> length b" for b
    using that set_addrs_edits(2) [of b t] set_addrs_none(2) [of t b] by (auto simp: returns_def setting_def writable_def)
  show ?thesis
  proof (cases "outer_ip_family pkt")
    case (Some fam)
    then show ?thesis
      using mutated_returns [OF assms outer_touched(1), of "\<lambda>_. tg_src t = None \<and> tg_dst t = None"] v4
        mutated_returns [OF assms outer_touched(2), of "\<lambda>_. tg_src t = None \<and> tg_dst t = None"] v6
      by (cases fam) (fastforce simp: apply_targets_def outer_ipv4_mut_def outer_ipv6_mut_def returns_def
          split: option.splits)+
  qed (simp add: apply_targets_def)
qed

section \<open>The direct maps\<close>

definition sound_action :: "'n ipnet \<Rightarrow> 'n action \<Rightarrow> bool" where
  "sound_action N act = (\<forall>p pol. act = ActPool p pol \<longrightarrow> (\<exists>ns. p = pool_from_nets N ns))"

definition sound_direction :: "'n ipnet \<Rightarrow> 'n direction_map \<Rightarrow> bool" where
  "sound_direction N m =
    ((\<forall>e \<in> set (dm_rules m). sound_action N (ce_action e)) \<and>
     (\<exists>ns. fst (dm_merged m) = pool_from_nets N ns) \<and> (\<exists>ns. snd (dm_merged m) = pool_from_nets N ns))"

definition sound_direct :: "'n ipnet \<Rightarrow> ('n, 'r) direct_maps \<Rightarrow> bool" where
  "sound_direct N d = (sound_direction N (dr_src d) \<and> sound_direction N (dr_dst d))"

lemma compile_entry_sound: "compile_entry N e d = Inr ce \<Longrightarrow> sound_action N (ce_action ce)"
  by (auto simp: compile_entry_def sound_action_def split: map_shape.splits target.splits)

lemma direction_map_new_sound:
  assumes "direction_map_new N es = Inr m"
  shows "sound_direction N m"
proof -
  obtain compiled where c: "map (\<lambda>e. compile_entry N e PolicyRandom) es = map Inr compiled"
    "dm_rules m = sort_entries N (filter (\<lambda>c. ce_from c \<noteq> None) compiled)"
    using assms by (auto simp: direction_map_new_def collect_results_Inr Let_def split: sum.splits)
  have "sound_action N (ce_action ce)" if "ce \<in> set compiled" for ce
  proof -
    have "(Inr ce :: string + _) \<in> set (map Inr compiled)" using that by auto
    then have "Inr ce \<in> set (map (\<lambda>e. compile_entry N e PolicyRandom) es)" using c(1) by simp
    then show ?thesis using compile_entry_sound by (metis (no_types, lifting) imageE image_set)
  qed
  then show ?thesis
    using assms c(2) by (auto simp: direction_map_new_def sound_direction_def sort_entries_def Let_def split: sum.splits)
qed

lemma direct_maps_new_sound: "direct_maps_new N s b d rng = Inr m \<Longrightarrow> sound_direct N m"
  by (auto simp: direct_maps_new_def sound_direct_def direction_map_new_sound split: sum.splits)

lemma pool_choose_returns:
  assumes "ip_nets N" and "p = pool_from_nets N ns"
  shows "\<exists>t rng'. pool_choose N f p rng = (TOk t, rng')"
proof (cases "ns = []")
  case False
  obtain k rng' where k: "f 0 (pool_total p) rng = (k, rng')" by fastforce
  obtain a where "addr_at N p k = TOk (Some a)"
    using ip_nets.addr_at_in_hosts [OF assms(1) False, of k] assms(2) by auto
  then show ?thesis using k by (simp add: pool_choose_def)
qed (simp add: assms(2) pool_choose_def pool_from_nets_def Let_def)

lemma direction_target_returns:
  assumes "ip_nets N" and "sound_direction N m"
  shows "\<exists>t rng'. direction_target N R m a rng = (TOk t, rng')"
proof (cases "find (\<lambda>rule. case ce_from rule of Some n \<Rightarrow> net_contains N n a | None \<Rightarrow> False) (dm_rules m)")
  case None
  then show ?thesis
    using pool_choose_returns [OF assms(1)] assms(2)
    by (cases "family_of_addr a") (auto simp: direction_target_def sound_direction_def)
next
  case (Some e)
  then have "e \<in> set (dm_rules m)" by (auto simp: find_Some_iff)
  then have sound: "sound_action N (ce_action e)" using assms(2) by (simp add: sound_direction_def)
  show ?thesis
  proof (cases "ce_action e")
    case (ActPool p pol)
    then obtain ns where "p = pool_from_nets N ns" using sound by (auto simp: sound_action_def)
    then show ?thesis using Some ActPool pool_choose_returns [OF assms(1)] by (simp add: direction_target_def)
  qed (use Some in \<open>simp_all add: direction_target_def\<close>)
qed

text \<open>What one address does to a header.\<close>

definition step_edits :: "nat \<times> nat \<Rightarrow> bytes \<Rightarrow> ((bool \<times> 'r) \<times> bytes) \<Rightarrow> bool" where
  "step_edits w hdr x = (case x of ((c, _), hdr') \<Rightarrow> edits w hdr hdr' \<and> (\<not> c \<longrightarrow> hdr' = hdr))"

lemma direct_ipv4_addr_returns:
  assumes "ip_nets N" and "sound_direction N m" and "\<exists>a. addr = Some a"
    and "\<And>ip. returns (edits w hdr) (setter ip hdr)"
  shows "returns (step_edits w hdr) (direct_ipv4_addr N R m addr setter hdr rng)"
proof -
  obtain a where a: "addr = Some a" using assms(3) by blast
  obtain t rng' where t: "direction_target N R m (V4 a) rng = (TOk t, rng')"
    using direction_target_returns [OF assms(1,2), of R "V4 a" rng] by blast
  have "\<exists>b. setter ip hdr = TOk b \<and> edits w hdr b" for ip using assms(4) [of ip] by (simp add: returns_def)
  then obtain b where "setter ip hdr = TOk (b ip)" "edits w hdr (b ip)" for ip by metis
  then show ?thesis using a t by (auto simp: direct_ipv4_addr_def step_edits_def split: option.split ip_addr.split)
qed

lemma direct_ipv6_addr_returns:
  assumes "ip_nets N" and "sound_direction N m" and "\<exists>a. addr = Some a"
    and "\<And>ip. returns (edits w hdr) (setter ip hdr)"
  shows "returns (step_edits w hdr) (direct_ipv6_addr N R m addr setter hdr rng)"
proof -
  obtain a where a: "addr = Some a" using assms(3) by blast
  obtain t rng' where t: "direction_target N R m (V6 a) rng = (TOk t, rng')"
    using direction_target_returns [OF assms(1,2), of R "V6 a" rng] by blast
  have "\<exists>b. setter ip hdr = TOk b \<and> edits w hdr b" for ip using assms(4) [of ip] by (simp add: returns_def)
  then obtain b where "setter ip hdr = TOk (b ip)" "edits w hdr (b ip)" for ip by metis
  then show ?thesis using a t by (auto simp: direct_ipv6_addr_def step_edits_def split: option.split ip_addr.split)
qed

lemma addr_setters_edit:
  "20 \<le> length b \<Longrightarrow> returns (edits (10, 20) b) (ipv4_set_src a b)"
  "20 \<le> length b \<Longrightarrow> returns (edits (10, 20) b) (ipv4_set_dst a b)"
  "40 \<le> length b \<Longrightarrow> returns (edits (8, 40) b) (ipv6_set_src a' b)"
  "40 \<le> length b \<Longrightarrow> returns (edits (8, 40) b) (ipv6_set_dst a' b)"
  using setter_edits [of 4 12 b "(10, 20)" a] setter_edits [of 4 16 b "(10, 20)" a]
    setter_edits [of 16 8 b "(8, 40)" a'] setter_edits [of 16 24 b "(8, 40)" a']
  by (simp_all add: ipv4_set_src_def ipv4_set_dst_def ipv6_set_src_def ipv6_set_dst_def)

lemma direct_header_returns:
  assumes "ip_nets N" and "sound_direct N d"
  shows "20 \<le> length b \<Longrightarrow> returns (step_edits (10, 20) b) (direct_ipv4 N R d b)"
    "40 \<le> length c \<Longrightarrow> returns (step_edits (8, 40) c) (direct_ipv6 N R d c)"
proof -
  have dir: "sound_direction N (dr_src d)" "sound_direction N (dr_dst d)" using assms(2) by (simp_all add: sound_direct_def)
  assume len: "20 \<le> length b"
  show "returns (step_edits (10, 20) b) (direct_ipv4 N R d b)"
    unfolding direct_ipv4_def
  proof (rule returns_bind [OF direct_ipv4_addr_returns [OF assms(1) dir(1)]], rule header_fields_some(3) [OF len],
      rule addr_setters_edit(1) [OF len], goal_cases)
    case (1 x)
    obtain c rng h where x: "x = ((c, rng), h)" by (metis surj_pair)
    have h: "edits (10, 20) b h" "\<not> c \<longrightarrow> h = b" using 1(2) x by (simp_all add: step_edits_def)
    then have len': "20 \<le> length h" using len by (simp add: edits_def)
    show ?case
      unfolding x prod.case
      by (rule returns_bind [OF direct_ipv4_addr_returns [OF assms(1) dir(2)]], rule header_fields_some(4) [OF len'],
          rule addr_setters_edit(2) [OF len']) (use h in \<open>auto simp: step_edits_def intro: edits_trans\<close>)
  qed
next
  have dir: "sound_direction N (dr_src d)" "sound_direction N (dr_dst d)" using assms(2) by (simp_all add: sound_direct_def)
  assume len: "40 \<le> length c"
  show "returns (step_edits (8, 40) c) (direct_ipv6 N R d c)"
    unfolding direct_ipv6_def
  proof (rule returns_bind [OF direct_ipv6_addr_returns [OF assms(1) dir(1)]], rule header_fields_some(5) [OF len],
      rule addr_setters_edit(3) [OF len], goal_cases)
    case (1 x)
    obtain c' rng h where x: "x = ((c', rng), h)" by (metis surj_pair)
    have h: "edits (8, 40) c h" "\<not> c' \<longrightarrow> h = c" using 1(2) x by (simp_all add: step_edits_def)
    then have len': "40 \<le> length h" using len by (simp add: edits_def)
    show ?case
      unfolding x prod.case
      by (rule returns_bind [OF direct_ipv6_addr_returns [OF assms(1) dir(2)]], rule header_fields_some(6) [OF len'],
          rule addr_setters_edit(4) [OF len']) (use h in \<open>auto simp: step_edits_def intro: edits_trans\<close>)
  qed
qed

lemma direct_rewrite_returns:
  assumes "ip_nets N" and "sound_direct N d" and "shape pkt"
  shows "returns (\<lambda>(c, pkt', d'). framed pkt pkt' \<and> (\<not> c \<longrightarrow> pkt' = pkt) \<and> sound_direct N d')
    (direct_rewrite N R pkt d)"
proof -
  have finish: "returns (\<lambda>(c, pkt', d'). framed pkt pkt' \<and> (\<not> c \<longrightarrow> pkt' = pkt) \<and> sound_direct N d')
      (t_bind r (\<lambda>(x, pkt). case x of
        None \<Rightarrow> TOk (False, pkt, d) | Some (changed, rng) \<Rightarrow> TOk (changed, pkt, d\<lparr>dr_rng := rng\<rparr>)))"
    if "returns (\<lambda>(x, pkt'). framed pkt pkt' \<and> ((case x of None \<Rightarrow> True | Some (c, rng) \<Rightarrow> \<not> c) \<longrightarrow> pkt' = pkt)) r" for r
  proof (rule returns_bind [OF that], goal_cases)
    case (1 y)
    obtain x p where y: "y = (x, p)" by fastforce
    show ?case using 1(2) assms(2) unfolding y by (cases x) (auto simp: sound_direct_def)
  qed
  have mono: "returns (\<lambda>(x, b'). edits w b b' \<and> ((case x of (c, rng) \<Rightarrow> \<not> c) \<longrightarrow> b' = b)) r"
    if "returns (step_edits w b) r" for w b and r :: "((bool \<times> 'b) \<times> bytes) tool_result"
    by (rule returns_mono [OF that]) (auto simp: step_edits_def)
  show ?thesis
  proof (cases "outer_ip_family pkt")
    case (Some fam)
    show ?thesis
    proof (cases fam)
      case IpFamilyV4
      then have "touched pkt Ipv4" using Some outer_touched(1) by simp
      then show ?thesis
        unfolding direct_rewrite_def Some IpFamilyV4 option.case ip_family.case outer_ipv4_mut_def
        by (intro finish mutated_returns [OF assms(3), where kept = "\<lambda>(c, rng). \<not> c"] mono)
          (simp_all add: writable_def direct_header_returns [OF assms(1,2)])
    next
      case IpFamilyV6
      then have "touched pkt Ipv6" using Some outer_touched(2) by simp
      then show ?thesis
        unfolding direct_rewrite_def Some IpFamilyV6 option.case ip_family.case outer_ipv6_mut_def
        by (intro finish mutated_returns [OF assms(3), where kept = "\<lambda>(c, rng). \<not> c"] mono)
          (simp_all add: writable_def direct_header_returns [OF assms(1,2)])
    qed
  qed (simp add: direct_rewrite_def assms(2))
qed

section \<open>The rewriter\<close>

definition sound_rewriter :: "'n ipnet \<Rightarrow> 'n flow_cfg \<Rightarrow> nat \<Rightarrow> ('n, 'r) rewriter \<Rightarrow> bool" where
  "sound_rewriter N cfg groups w =
    ((\<forall>d. rw_direct w = Some d \<longrightarrow> sound_direct N d) \<and>
     (\<forall>st. rw_flow w = Some st \<longrightarrow> sound_state N cfg groups st \<and> (\<forall>e \<in> set (fc_entries cfg). sound_entry N e)))"

lemma flow_rewrite_returns:
  assumes "ip_nets N" and "sound_state N cfg groups st" and "\<forall>e \<in> set (fc_entries cfg). sound_entry N e"
    and "grp < groups" and "shape pkt"
  shows "returns (\<lambda>(c, pkt', st'). framed pkt pkt' \<and> (\<not> c \<longrightarrow> pkt' = pkt) \<and> sound_state N cfg groups st')
    (flow_rewrite N R grp pkt st)"
proof -
  obtain info where info: "packet_info_read pkt = TOk info" "\<forall>x. info = Some x \<longrightarrow> consistent_info x"
    using packet_info_returns [OF assms(5)] by (auto simp: returns_def)
  show ?thesis
  proof (cases info)
    case (Some i)
    then have "\<forall>f. pi_fragment i = Some f \<longrightarrow> fk_src f = pi_src i \<and> fk_dst f = pi_dst i"
      using info(2) by (simp add: consistent_info_def)
    then obtain t st1 where t: "packet_targets N R grp i st = TOk (t, st1)" "sound_state N cfg groups st1"
      using ip_nets.packet_targets_sound [OF assms(1,2,4,3), of i R] by auto
    obtain pkt1 where "apply_targets pkt t = TOk pkt1" "framed pkt pkt1"
      "tg_src t = None \<and> tg_dst t = None \<longrightarrow> pkt1 = pkt"
      using apply_targets_returns [OF assms(5), of t] by (auto simp: returns_def)
    then show ?thesis using info Some t assms(2) by (simp add: flow_rewrite_def)
  qed (simp add: flow_rewrite_def info assms(2))
qed

text \<open>One packet.  It panics exactly if an address changed, checksums are to be fixed, and the
  routing header is cut.\<close>

lemma rewrite_packet_cases:
  assumes "ip_nets N" and "sound_rewriter N cfg groups w" and "grp < groups" and "shape pkt"
  obtains (panic) "rewrite_packet N R grp pkt w = TPanic" "rw_fix_checksum w" "cut_route pkt"
  | (rewritten) changed pkt' w' where "rewrite_packet N R grp pkt w = TOk (changed, pkt', w')" "framed pkt pkt'"
    "\<not> changed \<Longrightarrow> pkt' = pkt" "sound_rewriter N cfg groups w'" "rw_fix_checksum w' = rw_fix_checksum w"
    "changed \<Longrightarrow> rw_fix_checksum w \<Longrightarrow> \<not> cut_route pkt"
proof -
  have "\<exists>c pkt1 w1. (case rw_direct w of
              None \<Rightarrow> TOk (False, pkt, w)
            | Some d \<Rightarrow> t_bind (direct_rewrite N R pkt d) (\<lambda>(c, pkt, d).
                TOk (c, pkt, w\<lparr>rw_direct := Some d\<rparr>))) = TOk (c, pkt1, w1) \<and>
      framed pkt pkt1 \<and> (\<not> c \<longrightarrow> pkt1 = pkt) \<and> sound_rewriter N cfg groups w1 \<and> rw_flow w1 = rw_flow w \<and>
      rw_fix_checksum w1 = rw_fix_checksum w"
  proof (cases "rw_direct w")
    case (Some d)
    then have "sound_direct N d" using assms(2) by (simp add: sound_rewriter_def)
    from direct_rewrite_returns [OF assms(1) this assms(4), of R]
    obtain c p d1 where "direct_rewrite N R pkt d = TOk (c, p, d1)" "framed pkt p" "\<not> c \<longrightarrow> p = pkt" "sound_direct N d1"
      by (auto simp: returns_def)
    then show ?thesis using Some assms(2) by (simp add: sound_rewriter_def)
  qed (use assms(2) in \<open>auto intro: exI [of _ False]\<close>)
  then obtain c pkt1 w1 where 1: "(case rw_direct w of
              None \<Rightarrow> TOk (False, pkt, w)
            | Some d \<Rightarrow> t_bind (direct_rewrite N R pkt d) (\<lambda>(c, pkt, d).
                TOk (c, pkt, w\<lparr>rw_direct := Some d\<rparr>))) = TOk (c, pkt1, w1)"
      "framed pkt pkt1" "\<not> c \<longrightarrow> pkt1 = pkt" "sound_rewriter N cfg groups w1" "rw_fix_checksum w1 = rw_fix_checksum w"
    by blast
  note shape1 = framed_shape [OF assms(4) 1(2)]
  have "\<exists>c2 pkt2 w2. (case rw_flow w1 of
              None \<Rightarrow> TOk (c, pkt1, w1)
            | Some f \<Rightarrow> t_bind (flow_rewrite N R grp pkt1 f) (\<lambda>(c', pkt, f).
                TOk (c \<or> c', pkt, w1\<lparr>rw_flow := Some f\<rparr>))) = TOk (c2, pkt2, w2) \<and>
      framed pkt1 pkt2 \<and> (\<not> c2 \<longrightarrow> pkt2 = pkt) \<and> sound_rewriter N cfg groups w2 \<and>
      rw_fix_checksum w2 = rw_fix_checksum w"
  proof (cases "rw_flow w1")
    case (Some st)
    then have st: "sound_state N cfg groups st" "\<forall>e \<in> set (fc_entries cfg). sound_entry N e"
      using 1(4) by (simp_all add: sound_rewriter_def)
    obtain c' p st1 where "flow_rewrite N R grp pkt1 st = TOk (c', p, st1)" "framed pkt1 p" "\<not> c' \<longrightarrow> p = pkt1"
      "sound_state N cfg groups st1"
      using flow_rewrite_returns [OF assms(1) st assms(3) shape1, of R] by (auto simp: returns_def)
    then show ?thesis using Some 1(3-5) by (simp add: sound_rewriter_def)
  qed (use 1 in simp)
  then obtain c2 pkt2 w2 where 2: "(case rw_flow w1 of
              None \<Rightarrow> TOk (c, pkt1, w1)
            | Some f \<Rightarrow> t_bind (flow_rewrite N R grp pkt1 f) (\<lambda>(c', pkt, f).
                TOk (c \<or> c', pkt, w1\<lparr>rw_flow := Some f\<rparr>))) = TOk (c2, pkt2, w2)"
      "framed pkt1 pkt2" "\<not> c2 \<longrightarrow> pkt2 = pkt" "sound_rewriter N cfg groups w2" "rw_fix_checksum w2 = rw_fix_checksum w"
    by blast
  have r: "rewrite_packet N R grp pkt w =
      (if c2 \<and> rw_fix_checksum w then t_bind (fix_checksums pkt2) (\<lambda>pkt. TOk (c2, pkt, w2)) else TOk (c2, pkt2, w2))"
    using 1(1) 2(1,5) by (simp add: rewrite_packet_def)
  have framed2: "framed pkt pkt2" using framed_trans 1(2) 2(2) by blast
  note fixed = fix_checksums_returns [OF framed_shape [OF assms(4) framed2]]
  have cut: "cut_route pkt2 = cut_route pkt" by (rule cut_route_framed [OF assms(4) framed2])
  show thesis
  proof (cases "c2 \<and> rw_fix_checksum w")
    case True
    show thesis
    proof (cases "cut_route pkt")
      case cut_pkt: True
      then show thesis using panic r True fixed cut by simp
    next
      case False
      then obtain pkt3 where "fix_checksums pkt2 = TOk pkt3" "framed pkt2 pkt3"
        using fixed cut by (auto simp: returns_def)
      then show thesis using rewritten [of True pkt3 w2] r True 2(4,5) framed_trans [OF framed2] False by simp
    qed
  next
    case False
    then show thesis using rewritten [of c2 pkt2 w2] r framed2 2(3-5) by auto
  qed
qed


lemma rewriter_new_sound:
  assumes "ip_nets N" and "rewriter_new N R global f file_seed global_seed groups fix_checksum = Inr w"
    and "\<forall>flow. if_flow_map f = Some flow \<longrightarrow> check_flow_map N flow = None \<and> fm_alloc_scope flow = ScopeFile \<and>
      (\<forall>e \<in> set (fm_entries flow). me_from e \<noteq> None)"
  shows "\<exists>cfg. sound_rewriter N cfg (max groups 1) w" and "rw_fix_checksum w = fix_checksum"
proof -
  obtain direct flow where w: "w = \<lparr>rw_direct = direct, rw_flow = flow, rw_fix_checksum = fix_checksum\<rparr>"
    "(if ip_map f \<noteq> [] \<or> src_ip_map f \<noteq> [] \<or> dst_ip_map f \<noteq> []
      then map_sum id Some (direct_maps_new N (src_ip_map f) (ip_map f) (dst_ip_map f)
        (derived_rng R file_seed map_rng_salt)) else Inr None) = Inr direct"
    using assms(2) by (fastforce simp: rewriter_new_def Let_def split: sum.splits)
  have direct: "sound_direct N d" if "direct = Some d" for d
    using w(2) that
    by (cases "direct_maps_new N (src_ip_map f) (ip_map f) (dst_ip_map f) (derived_rng R file_seed map_rng_salt)")
      (auto dest: direct_maps_new_sound split: if_splits)
  show "rw_fix_checksum w = fix_checksum" using w(1) by simp
  show "\<exists>cfg. sound_rewriter N cfg (max groups 1) w"
  proof (cases "if_flow_map f")
    case None
    then have "flow = None" using assms(2) w(1) by (auto simp: rewriter_new_def Let_def split: sum.splits)
    then show ?thesis using w(1) direct by (simp add: sound_rewriter_def)
  next
    case (Some fm)
    then have fm: "check_flow_map N fm = None" "fm_alloc_scope fm = ScopeFile" "\<forall>e \<in> set (fm_entries fm). me_from e \<noteq> None"
      using assms(3) by simp_all
    obtain cfg where cfg: "flow_cfg_compile N fm = Inr cfg"
      "flow = Some (flow_state_new R cfg global_seed file_seed groups (flow_sharing fm) None)"
      using assms(2) w(1) Some fm(2) by (auto simp: rewriter_new_def Let_def split: sum.splits)
    have "\<forall>ce \<in> set (fc_entries cfg). sound_entry N ce"
      using ip_nets.compiled_sound [OF assms(1) fm(1) cfg(1) fm(3)] by metis
    then show ?thesis
      using w(1) direct cfg(2) flow_state_new_sound [of N cfg groups R]
      by (intro exI [of _ cfg]) (auto simp: sound_rewriter_def)
  qed
qed

lemma parsed_item_shape: "extension ext \<Longrightarrow> shape (parsed_item ext reg lt data)"
  by (erule link_type_root_ok [where reg = reg and lt = lt and opts = default_options and pkt = "new_packet data"])
    (auto simp: shape_def parsed_item_def new_packet_def elim!: parse_ok_new)

lemma parsed_item_bytes: "extension ext \<Longrightarrow> pkt_bytes (parsed_item ext reg lt data) = data"
  by (erule link_type_root_ok [where reg = reg and lt = lt and opts = default_options and pkt = "new_packet data"])
    (auto simp: parsed_item_def new_packet_def)

text \<open>What rewriting may do to the bytes of an item.\<close>

definition item_rewritten :: "(parsers \<Rightarrow> nat \<Rightarrow> parse_fn) \<Rightarrow> registry \<Rightarrow> nat \<times> link_type \<times> bytes \<Rightarrow> bytes \<Rightarrow> bool" where
  "item_rewritten ext reg item out =
    (case item of (_, lt, data) \<Rightarrow>
       let pkt = parsed_item ext reg lt data in
       length out = length data \<and> (\<forall>i < length data. \<not> rewritable pkt i \<longrightarrow> out ! i = data ! i))"

lemma rewrite_items_cases:
  assumes "extension ext" and "ip_nets N" and "sound_rewriter N cfg groups w"
    and "\<forall>(grp, _) \<in> set items. grp < groups"
  shows "case rewrite_items ext reg N R items w of
      TOk (outs, _) \<Rightarrow> list_all2 (item_rewritten ext reg) items outs
    | TPanic \<Rightarrow> rw_fix_checksum w \<and> (\<exists>(_, lt, data) \<in> set items. cut_route (parsed_item ext reg lt data))
    | TErr _ \<Rightarrow> False"
  using assms(3,4)
proof (induction items arbitrary: w)
  case (Cons item items)
  obtain grp lt data where item: "item = (grp, lt, data)" by (cases item) auto
  have grp: "grp < groups" using Cons.prems(2) item by simp
  note shape = parsed_item_shape [OF assms(1), of reg lt data] and data = parsed_item_bytes [OF assms(1), of reg lt data]
  have tail: "case rewrite_items ext reg N R items w' of
      TOk (outs, _) \<Rightarrow> list_all2 (item_rewritten ext reg) items outs
    | TPanic \<Rightarrow> rw_fix_checksum w' \<and> (\<exists>(_, lt, data) \<in> set items. cut_route (parsed_item ext reg lt data))
    | TErr _ \<Rightarrow> False" if "sound_rewriter N cfg groups w'" for w'
    using Cons.IH [OF that] Cons.prems(2) by simp
  show ?case
  proof (cases "rewriter_is_active w")
    case False
    have "item_rewritten ext reg item data" using item by (simp add: item_rewritten_def Let_def)
    then show ?thesis
      using False tail [OF Cons.prems(1)] item by (auto simp: rewrite_item_def split: tool_result.splits)
  next
    case True
    show ?thesis
    proof (rule rewrite_packet_cases [OF assms(2) Cons.prems(1) grp shape, of R], goal_cases)
      case 1
      then show ?thesis using True item by (auto simp: rewrite_item_def)
    next
      case rewritten: (2 changed pkt' w')
      have "item_rewritten ext reg item (pkt_bytes pkt')"
        using rewritten(2) data item by (simp add: item_rewritten_def framed_def Let_def)
      then show ?thesis
        using True item rewritten(1,5) tail [OF rewritten(4)]
        by (auto simp: rewrite_item_def split: tool_result.splits)
    qed
  qed
qed simp


definition lan_file :: "(ip_addr \<times> nat) input_file" where
  "lan_file = input_file_default\<lparr>if_flow_map := Some lan_to_lab\<rparr>"


section \<open>The frame that panics\<close>

text \<open>An IPv6 packet to \<^verbatim>\<open>2001:db8::2\<close> whose routing header a capture length of 42 bytes cuts.\<close>

definition cut_frame :: bytes where
  "cut_frame = [0x60, 0, 0, 0, 0, 24, 43, 64,
     0x20, 1, 13, 0xb8, 0, 0, 0, 0, 0, 0, 0, 0, 0, 0, 0, 1, 0x20, 1, 13, 0xb8, 0, 0, 0, 0, 0, 0, 0, 0, 0, 0, 0, 2, 6, 2]"

definition cut_layers :: "layer list" where
  "cut_layers = [\<lparr>layer_protocol = Ipv6, layer_offset = 0, layer_len = 40\<rparr>,
     \<lparr>layer_protocol = Ipv6Route, layer_offset = 40, layer_len = 2\<rparr>]"

lemma cut_frame_ipv6:
  "ipv6_parse new_registry (parse_proto ext new_registry (Suc n)) (new_context cut_frame default_options []) 0 =
    (new_context cut_frame default_options cut_layers, Done)"
  by (simp add: ipv6_parse_def cut_frame_def cut_layers_def eval_context eval_fields ipv6_next_header_def
      ipv6_payload_length_def ipv6_dispatch_def ip_protocol_defs parse_child_def parse_child_with_def parse_body_def
      ipv6_route_parse_def parse_ext_header_def ext_header_len_def ext_next_header_def ctx_rest_def)

lemma cut_item: "parsed_item ext new_registry LtIpv6 cut_frame = \<lparr>pkt_bytes = cut_frame, pkt_layers = cut_layers\<rparr>"
proof -
  obtain n where n: "root_fuel (new_packet cut_frame) = Suc (Suc n)"
    by (simp add: root_fuel_def new_packet_def cut_frame_def)
  have "can_push_layer (new_context cut_frame default_options [])"
    by (simp add: can_push_layer_def new_context_def default_options_def)
  then have "parse_at (parse_proto ext new_registry (Suc (Suc n))) Ipv6 (new_context cut_frame default_options []) 0 =
      (new_context cut_frame default_options cut_layers, Done)"
    using cut_frame_ipv6 [of ext n] by (simp add: parse_at_def parse_body_def)
  moreover have "ctx_layers (new_context cut_frame default_options cut_layers) = cut_layers" by (simp add: new_context_def)
  ultimately show ?thesis
    using n by (simp add: parsed_item_def try_parse_with_link_type_def new_packet_def)
qed

lemma cut_item_route: "cut_route (parsed_item ext new_registry LtIpv6 cut_frame)"
  unfolding cut_item
  by (simp add: cut_route_def outer_ip_family_def nth_layer_first cut_layers_def layer_is_def chain_viewer_def
      chain_layers_def is_chain_layer_def layer_view_def layer_bytes_def layer_range_def slice_def cut_frame_def)

definition v6_file :: "(ip_addr \<times> nat) input_file" where
  "v6_file = input_file_default\<lparr>if_src_ip_map := Some
     [\<lparr>me_from = Some (V6 0, 0), me_to = TargetIp (V6 7), me_shape = None, me_policy = None\<rparr>]\<rparr>"

lemma v6_direct:
  obtains m where
    "direct_maps_new std_nets (src_ip_map v6_file) (ip_map v6_file) (dst_ip_map v6_file) rng = Inr m"
    "dm_rules (dr_src m) = [\<lparr>ce_from = Some (V6 0, 0), ce_action = ActFixed (V6 7)\<rparr>]"
    "dr_dst m = \<lparr>dm_rules = [], dm_merged = (pool_from_nets std_nets [], pool_from_nets std_nets [])\<rparr>"
proof -
  have "\<exists>m. direct_maps_new std_nets (src_ip_map v6_file) (ip_map v6_file) (dst_ip_map v6_file) rng = Inr m \<and>
      dm_rules (dr_src m) = [\<lparr>ce_from = Some (V6 0, 0), ce_action = ActFixed (V6 7)\<rparr>] \<and>
      dr_dst m = \<lparr>dm_rules = [], dm_merged = (pool_from_nets std_nets [], pool_from_nets std_nets [])\<rparr>"
    by (simp add: direct_maps_new_def direction_map_new_def v6_file_def ip_map_def src_ip_map_def dst_ip_map_def
        unwrap_or_def input_file_default_def compile_entry_def entry_shape_def Let_def sort_entries_def)
  then show thesis using that by blast
qed

text \<open>The rewriter of \<^verbatim>\<open>v6_file\<close> replaces the source address of the frame, and then panics.\<close>

theorem cut_route_panics:
  "\<exists>w. rewriter_new std_nets low_crate global v6_file 1 1 1 True = Inr w \<and>
    rewrite_items ext new_registry std_nets low_crate [(0, LtIpv6, cut_frame)] w = TPanic"
proof -
  let ?pkt = "\<lparr>pkt_bytes = cut_frame, pkt_layers = cut_layers\<rparr>" and
    ?l = "\<lparr>layer_protocol = Ipv6, layer_offset = 0, layer_len = 40\<rparr>"
  obtain m where m: "direct_maps_new std_nets (src_ip_map v6_file) (ip_map v6_file) (dst_ip_map v6_file)
        (derived_rng low_crate 1 map_rng_salt) = Inr m"
      "dm_rules (dr_src m) = [\<lparr>ce_from = Some (V6 0, 0), ce_action = ActFixed (V6 7)\<rparr>]"
      "dr_dst m = \<lparr>dm_rules = [], dm_merged = (pool_from_nets std_nets [], pool_from_nets std_nets [])\<rparr>"
    by (rule v6_direct)
  let ?w = "\<lparr>rw_direct = Some m, rw_flow = None, rw_fix_checksum = True\<rparr>"
  have w: "rewriter_new std_nets low_crate global v6_file 1 1 1 True = Inr ?w"
    using m(1) by (simp add: rewriter_new_def v6_file_def input_file_default_def ip_map_def src_ip_map_def
        dst_ip_map_def unwrap_or_def)
  have shape: "shape ?pkt"
    using parsed_item_shape [OF failing_child.extension_axioms, of new_registry LtIpv6 cut_frame] by (simp add: cut_item)
  have fam: "outer_ip_family ?pkt = Some IpFamilyV6"
    using cut_item_route [of failing_child_parse] by (simp add: cut_item cut_route_def)
  have "\<exists>rng h. direct_ipv6 std_nets low_crate m b = TOk ((True, rng), h) \<and> length h = length b"
    if len: "40 \<le> length b" for b
  proof -
    obtain a where "ipv6_src b = Some a" using header_fields_some(5) [OF len] by blast
    moreover obtain h where h: "ipv6_set_src 7 b = TOk h" "edits (8, 40) b h"
      using addr_setters_edit(3) [OF len, of 7] by (auto simp: returns_def)
    moreover have "40 \<le> length h" using len h(2) by (simp add: edits_def)
    moreover from this obtain d where "ipv6_dst h = Some d" using header_fields_some(6) by blast
    moreover have "net_contains std_nets (V6 0, 0) (V6 a)"
      using unsigned_less [of a, where ?'a = nat]
      by (simp add: std_nets_def family_of_addr_def addr_to_u128_def std_host_bits_def family_bits_def)
    ultimately show ?thesis
      using m(2,3) h(2) by (simp add: edits_def direct_ipv6_def direct_ipv6_addr_def direction_target_def
          family_of_addr_def pool_choose_def pool_from_nets_def)
  qed
  moreover have "40 \<le> length (lbytes ?l ?pkt)" by (simp add: lbytes_def cut_frame_def)
  ultimately obtain rng h where h: "direct_ipv6 std_nets low_crate m (lbytes ?l ?pkt) = TOk ((True, rng), h)"
    "length h = length (lbytes ?l ?pkt)" by blast
  have l: "nth_layer ?pkt Ipv6 (- 1) = Some ?l" by (simp add: nth_layer_first cut_layers_def layer_is_def)
  have "length h = layer_len ?l" using h(2) by (simp add: lbytes_def cut_frame_def)
  from with_viewer_mut_eq [where f = "direct_ipv6 std_nets low_crate m" and l = ?l and x = "(True, rng)" and b = h,
      OF shape l h(1) this]
  have "\<exists>pkt d. direct_rewrite std_nets low_crate ?pkt m = TOk (True, pkt, d)"
    by (simp add: direct_rewrite_def fam outer_ipv6_mut_def)
  then obtain pkt d where pkt: "direct_rewrite std_nets low_crate ?pkt m = TOk (True, pkt, d)" by blast
  have framed: "framed ?pkt pkt"
    using direct_rewrite_returns [OF std.ip_nets_axioms direct_maps_new_sound [OF m(1)] shape, of low_crate]
    unfolding pkt by simp
  have "cut_route pkt"
    using cut_route_framed [OF shape framed] cut_item_route [of failing_child_parse] unfolding cut_item by simp
  then have "fix_checksums pkt = TPanic" using fix_checksums_returns [OF framed_shape [OF shape framed]] by simp
  then have "rewrite_items ext new_registry std_nets low_crate [(0, LtIpv6, cut_frame)] ?w = TPanic"
    using pkt by (simp add: rewrite_item_def rewriter_is_active_def rewrite_packet_def cut_item)
  then show ?thesis using w by blast
qed

end
