(* ===== verification/Rewriter_Checksum.thy ===== *)
theory Rewriter_Checksum
  imports Rewriter_Sound
begin

text \<open>
  The checksums that the merging tool writes are the ones its viewers validate.
\<close>

section \<open>Validation\<close>

definition ipv4_checksum :: "bytes \<Rightarrow> 16 word option" where
  "ipv4_checksum hdr = view_raw 10 12 whole hdr"

definition tcp_checksum :: "bytes \<Rightarrow> 16 word option" where
  "tcp_checksum hdr = view_raw 16 18 whole hdr"

definition icmpv6_checksum :: "bytes \<Rightarrow> 16 word option" where
  "icmpv6_checksum hdr = view_raw 2 4 whole hdr"

definition ipv4_validate_checksum :: "bytes \<Rightarrow> bool tool_result" where
  "ipv4_validate_checksum hdr =
    t_bind (fetch (ipv4_checksum hdr)) (\<lambda>c. t_bind (ipv4_calculate_checksum hdr) (\<lambda>d. TOk (c = d)))"

definition tcp_validate_checksum_ipv4 :: "bytes \<Rightarrow> 32 word \<Rightarrow> 32 word \<Rightarrow> bool tool_result" where
  "tcp_validate_checksum_ipv4 seg src dst =
    t_bind (fetch (tcp_checksum seg)) (\<lambda>c. TOk (c = tcp_calculate_checksum_ipv4 seg src dst))"

definition tcp_validate_checksum_ipv6 :: "bytes \<Rightarrow> 128 word \<Rightarrow> 128 word \<Rightarrow> bool tool_result" where
  "tcp_validate_checksum_ipv6 seg src dst =
    t_bind (fetch (tcp_checksum seg)) (\<lambda>c. TOk (c = tcp_calculate_checksum_ipv6 seg src dst))"

definition udp_validate_checksum_ipv4 :: "bytes \<Rightarrow> 32 word \<Rightarrow> 32 word \<Rightarrow> bool tool_result" where
  "udp_validate_checksum_ipv4 seg src dst =
    t_bind (fetch (udp_checksum seg)) (\<lambda>c.
      if c = 0 then TOk True
      else t_bind (udp_calculate_checksum_ipv4 seg src dst) (\<lambda>d. TOk (c = d)))"

definition udp_validate_checksum_ipv6 :: "bytes \<Rightarrow> 128 word \<Rightarrow> 128 word \<Rightarrow> bool tool_result" where
  "udp_validate_checksum_ipv6 seg src dst =
    t_bind (fetch (udp_checksum seg)) (\<lambda>c.
    t_bind (udp_calculate_checksum_ipv6 seg src dst) (\<lambda>d. TOk (c = d)))"

definition icmpv6_validate_checksum_ipv6 :: "bytes \<Rightarrow> 128 word \<Rightarrow> 128 word \<Rightarrow> bool tool_result" where
  "icmpv6_validate_checksum_ipv6 seg src dst =
    t_bind (fetch (icmpv6_checksum seg)) (\<lambda>c. TOk (c = icmpv6_calculate_checksum_ipv6 seg src dst))"

section \<open>A checksum does not depend on its own bytes\<close>

lemma zero_range_cong:
  assumes "length a = length b" and "\<And>i. i < length a \<Longrightarrow> \<not> in_range z i \<Longrightarrow> a ! i = b ! i"
  shows "zero_range a z = zero_range b z"
  using assms by (intro nth_equalityI) simp_all

lemma zeroing_cong:
  assumes "zero_range a z = zero_range b z"
  shows "internet_checksum_zeroing a z = internet_checksum_zeroing b z"
    "ipv4_transport_checksum_zeroing src dst p a z = ipv4_transport_checksum_zeroing src dst p b z"
    "ipv6_transport_checksum_zeroing src dst p a z = ipv6_transport_checksum_zeroing src dst p b z"
proof -
  have "length a = length b" using assms by (metis zero_range_length)
  then show "internet_checksum_zeroing a z = internet_checksum_zeroing b z"
    "ipv4_transport_checksum_zeroing src dst p a z = ipv4_transport_checksum_zeroing src dst p b z"
    "ipv6_transport_checksum_zeroing src dst p a z = ipv6_transport_checksum_zeroing src dst p b z"
    using assms by (simp_all add: transport_checksum_defs add_words_zeroing_eq Let_def)
qed

abbreviation patched :: "bytes \<Rightarrow> nat \<Rightarrow> 16 word \<Rightarrow> bytes" where
  "patched b k c \<equiv> splice b k (be_bytes 2 (unat c))"

lemma zero_range_patched:
  "k + 2 \<le> length b \<Longrightarrow> zero_range (take n (patched b k c)) (k, k + 2) = zero_range (take n b) (k, k + 2)"
  by (rule zero_range_cong) (auto simp: splice_nth in_range_def)

lemma patched_length [simp]: "k + 2 \<le> length b \<Longrightarrow> length (patched b k c) = length b"
  by (simp add: splice_length)

lemma patched_read: "k + 2 \<le> length b \<Longrightarrow> view_raw k (k + 2) whole (patched b k c) = Some c"
  using view_raw_splice [of 2 k b c] by simp

lemma patched_field:
  assumes "k + 2 \<le> length b" and "hi \<le> k \<or> k + 2 \<le> lo"
  shows "view_raw lo hi f (patched b k c) = view_raw lo hi f b"
  using assms by (intro view_raw_eqI) (auto simp: splice_nth)

lemma ipv4_patched_valid:
  assumes "20 \<le> length b" and "ipv4_calculate_checksum b = TOk c"
  shows "ipv4_validate_checksum (patched b 10 c) = TOk True"
proof -
  have len: "ipv4_header_len (patched b 10 c) = ipv4_header_len b"
    using assms(1) by (simp add: ipv4_header_len_def patched_field)
  have z: "zero_range (take n (patched b 10 c)) (10, 12) = zero_range (take n b) (10, 12)" for n
    using zero_range_patched [of 10 b n c] assms(1) by simp
  have "ipv4_calculate_checksum (patched b 10 c) = TOk c"
    using assms len zeroing_cong(1) [OF z] by (auto simp: ipv4_calculate_checksum_def t_bind_TOk)
  moreover have "ipv4_checksum (patched b 10 c) = Some c"
    using patched_read [of 10 b c] assms(1) by (simp add: ipv4_checksum_def)
  ultimately show ?thesis by (simp add: ipv4_validate_checksum_def)
qed

lemma tcp_patched_valid:
  assumes "20 \<le> length b"
  shows "tcp_validate_checksum_ipv4 (patched b 16 (tcp_calculate_checksum_ipv4 b src dst)) src dst = TOk True"
    "tcp_validate_checksum_ipv6 (patched b 16 (tcp_calculate_checksum_ipv6 b src' dst')) src' dst' = TOk True"
proof -
  have z: "zero_range (patched b 16 c) (16, 18) = zero_range b (16, 18)" for c
    using zero_range_patched [of 16 b "length b" c] assms by simp
  show "tcp_validate_checksum_ipv4 (patched b 16 (tcp_calculate_checksum_ipv4 b src dst)) src dst = TOk True"
    "tcp_validate_checksum_ipv6 (patched b 16 (tcp_calculate_checksum_ipv6 b src' dst')) src' dst' = TOk True"
    using patched_read [of 16 b] assms zeroing_cong [OF z]
    by (simp_all add: tcp_validate_checksum_ipv4_def tcp_validate_checksum_ipv6_def tcp_checksum_def
        tcp_calculate_checksum_ipv4_def tcp_calculate_checksum_ipv6_def)
qed

lemma icmpv6_patched_valid:
  assumes "4 \<le> length b"
  shows "icmpv6_validate_checksum_ipv6 (patched b 2 (icmpv6_calculate_checksum_ipv6 b src dst)) src dst = TOk True"
proof -
  have z: "zero_range (patched b 2 c) (2, 4) = zero_range b (2, 4)" for c
    using zero_range_patched [of 2 b "length b" c] assms by simp
  show ?thesis
    using patched_read [of 2 b] assms zeroing_cong [OF z]
    by (simp add: icmpv6_validate_checksum_ipv6_def icmpv6_checksum_def icmpv6_calculate_checksum_ipv6_def)
qed

lemma udp_patched_valid:
  assumes "8 \<le> length b"
  shows "udp_calculate_checksum_ipv4 b src dst = TOk c \<Longrightarrow>
      udp_validate_checksum_ipv4 (patched b 6 c) src dst = TOk True"
    "udp_calculate_checksum_ipv6 b src' dst' = TOk c \<Longrightarrow>
      udp_validate_checksum_ipv6 (patched b 6 c) src' dst' = TOk True"
proof -
  have len: "udp_length (patched b 6 c) = udp_length b"
    using assms by (simp add: udp_length_def patched_field)
  have z: "zero_range (take n (patched b 6 c)) (6, 8) = zero_range (take n b) (6, 8)" for n
    using zero_range_patched [of 6 b n c] assms by simp
  have read: "udp_checksum (patched b 6 c) = Some c"
    using patched_read [of 6 b c] assms by (simp add: udp_checksum_def)
  have same: "udp_calculate_checksum_ipv4 (patched b 6 c) src dst = udp_calculate_checksum_ipv4 b src dst"
    "udp_calculate_checksum_ipv6 (patched b 6 c) src' dst' = udp_calculate_checksum_ipv6 b src' dst'"
    using assms zeroing_cong [OF z]
    by (simp_all add: udp_calculate_checksum_ipv4_def udp_calculate_checksum_ipv6_def len)
  show "udp_calculate_checksum_ipv4 b src dst = TOk c \<Longrightarrow>
      udp_validate_checksum_ipv4 (patched b 6 c) src dst = TOk True"
    "udp_calculate_checksum_ipv6 b src' dst' = TOk c \<Longrightarrow>
      udp_validate_checksum_ipv6 (patched b 6 c) src' dst' = TOk True"
    using read same by (simp_all add: udp_validate_checksum_ipv4_def udp_validate_checksum_ipv6_def)
qed

section \<open>Reads that the writes leave alone\<close>

lemma viewer_framed:
  "shape pkt \<Longrightarrow> framed pkt pkt' \<Longrightarrow>
    nth_layer_viewer pkt' p i = TOk (map_option (\<lambda>l. lbytes l pkt') (nth_layer pkt p i))"
  using nth_layer_viewer_eq [OF framed_shape, of pkt pkt' p i] framed_nth_layer [of pkt pkt'] by simp

lemma framed_ipv4_fields:
  assumes "shape pkt" and "framed pkt pkt'" and "nth_layer pkt Ipv4 i = Some l"
  shows "ipv4_header_len (lbytes l pkt') = ipv4_header_len (lbytes l pkt)"
    "ipv4_total_length (lbytes l pkt') = ipv4_total_length (lbytes l pkt)"
    "ipv4_protocol (lbytes l pkt') = ipv4_protocol (lbytes l pkt)"
    "ipv4_flags (lbytes l pkt') = ipv4_flags (lbytes l pkt)"
    "ipv4_fragment_offset (lbytes l pkt') = ipv4_fragment_offset (lbytes l pkt)"
  using nth_layer_Some [OF assms(3)]
  by (simp_all add: framed_field [OF assms(1,2)] writable_def ipv4_header_len_def ipv4_total_length_def ipv4_protocol_def ipv4_flags_def
      ipv4_fragment_offset_def)

lemma framed_ipv6_fields:
  assumes "shape pkt" and "framed pkt pkt'" and "l \<in> set (pkt_layers pkt)" and "layer_protocol l = Ipv6"
  shows "ipv6_payload_length (lbytes l pkt') = ipv6_payload_length (lbytes l pkt)"
    "ipv6_next_header (lbytes l pkt') = ipv6_next_header (lbytes l pkt)"
  using assms(4) by (simp_all add: framed_field [OF assms(1-3)] writable_def ipv6_payload_length_def ipv6_next_header_def)

lemma range_framed: "framed pkt pkt' \<Longrightarrow> nth_layer_range pkt' = nth_layer_range pkt"
  using framed_nth_layer [of pkt pkt'] by (intro ext) (simp add: nth_layer_range_def)

lemma ip_bounds_framed:
  assumes "shape pkt" and "framed pkt pkt'"
  shows "ip_bounds pkt' = ip_bounds pkt"
proof -
  note same = framed_family [OF assms(2)] range_framed [OF assms(2)] viewer_framed [OF assms]
    nth_layer_viewer_eq [OF assms(1)]
  show ?thesis
    unfolding ip_bounds_def outer_ipv4_def outer_ipv6_def same
    using framed_ipv4_fields [OF assms, of "- 1"] framed_ipv6_fields [OF assms] nth_layer_Some [of pkt Ipv6 "- 1"]
    by (auto split: option.split ip_family.split)
qed

lemma chain_layer_writable: "is_chain_layer l \<Longrightarrow> writable (layer_protocol l) = (0, 0)"
  by (auto simp: is_chain_layer_def layer_is_def writable_def)

lemma chain_layers_chain: "chain_layers pkt = Some ls \<Longrightarrow> l \<in> set ls \<Longrightarrow> is_chain_layer l"
  by (auto simp: chain_layers_def split: list.splits dest: set_takeWhileD)

lemma walk_chain_cong:
  "(\<And>l. l \<in> set ls \<Longrightarrow> layer_view l pkt' = layer_view l pkt) \<Longrightarrow> walk_chain pkt' ls nh = walk_chain pkt ls nh"
proof (induction ls arbitrary: nh)
  case (Cons l ls)
  have "walk_chain pkt' ls = walk_chain pkt ls" using Cons by (intro ext) simp
  then show ?case using Cons.prems [of l] by simp
qed simp

lemma layer_view_framed:
  assumes "shape pkt" and "framed pkt pkt'" and "l \<in> set (pkt_layers pkt)"
  shows "layer_view l pkt' = TOk (lbytes l pkt')"
  using shape_layer(4) [OF framed_shape [OF assms(1,2)], of l] assms(2,3) by (simp add: framed_def)

lemma next_header_framed:
  assumes "shape pkt" and "framed pkt pkt'"
  shows "next_header pkt' = next_header pkt"
proof -
  have layers: "pkt_layers pkt' = pkt_layers pkt" "chain_layers pkt' = chain_layers pkt"
    using assms(2) by (simp_all add: chain_layers_def framed_def)
  have chain: "walk_chain pkt' ls nh = walk_chain pkt ls nh" if "chain_layers pkt = Some ls" for ls nh
  proof (rule walk_chain_cong)
    fix l assume l: "l \<in> set ls"
    then have "l \<in> set (pkt_layers pkt)" using chain_layers_subset [OF that] by blast
    then show "layer_view l pkt' = layer_view l pkt"
      using layer_view_framed [OF assms] shape_layer(4) [OF assms(1)] framed_lbytes [OF assms]
        chain_layer_writable [OF chain_layers_chain [OF that l]] by simp
  qed
  show ?thesis
  proof (cases "find (\<lambda>l. layer_is l Ipv6) (pkt_layers pkt)")
    case (Some l)
    then have l: "l \<in> set (pkt_layers pkt)" "layer_protocol l = Ipv6" by (auto simp: find_Some_iff layer_is_def)
    then show ?thesis
      using Some layer_view_framed [OF assms l(1)] shape_layer(4) [OF assms(1) l(1)] framed_ipv6_fields(2) [OF assms l] chain
      by (cases "chain_layers pkt") (simp_all add: next_header_def layers)
  qed (simp add: next_header_def layers)
qed

lemma outer_transport_framed:
  assumes "shape pkt" and "framed pkt pkt'"
  shows "outer_transport pkt' = outer_transport pkt"
  using framed_ipv4_fields(3) [OF assms, of "- 1"]
  by (auto simp: outer_transport_def framed_family [OF assms(2)] next_header_framed [OF assms] outer_ipv4_def
      viewer_framed [OF assms] nth_layer_viewer_eq [OF assms(1)] split: option.split)

section \<open>Writing a checksum\<close>

definition patch_layer :: "layer \<Rightarrow> nat \<Rightarrow> 16 word \<Rightarrow> packet \<Rightarrow> packet" where
  "patch_layer l k c pkt = pkt\<lparr>pkt_bytes := patched (pkt_bytes pkt) (layer_offset l + k) c\<rparr>"

lemma splice_splice:
  "off + n \<le> length bs \<Longrightarrow> k + length new \<le> n \<Longrightarrow>
    splice bs off (splice (take n (drop off bs)) k new) = splice bs (off + k) new"
  by (rule nth_equalityI) (auto simp: splice_nth)

lemma patch_write:
  assumes "shape pkt" and "nth_layer pkt p (- 1) = Some l" and "k + 2 \<le> layer_len l"
  shows "nth_layer_viewer_mut pkt p (- 1) (\<lambda>b. fetch (view_set k (k + 2) whole c b)) = TOk (patch_layer l k c pkt)"
proof -
  have l: "l \<in> set (pkt_layers pkt)" using nth_layer_Some [OF assms(2)] by simp
  have len: "length (lbytes l pkt) = layer_len l" "layer_offset l + layer_len l \<le> length (pkt_bytes pkt)"
    using shape_layer(1,3) [OF assms(1) l] by simp_all
  let ?f = "setting (\<lambda>b. fetch (view_set k (k + 2) whole c b))" and ?b = "patched (lbytes l pkt) k c"
  have "?f (lbytes l pkt) = TOk ((), ?b)"
    using view_set_splice [of 2 k "lbytes l pkt" c] assms(3) len(1) by (simp add: setting_def)
  moreover have "length ?b = layer_len l" using assms(3) len(1) by simp
  ultimately have "with_viewer_mut pkt p (- 1) ?f =
      TOk (Some (), pkt\<lparr>pkt_bytes := splice (pkt_bytes pkt) (layer_offset l) ?b\<rparr>)"
    using with_viewer_mut_eq [where f = ?f and l = l and x = "()" and b = ?b, OF assms(1,2)] by blast
  moreover have "splice (pkt_bytes pkt) (layer_offset l) ?b = patched (pkt_bytes pkt) (layer_offset l + k) c"
    unfolding lbytes_def by (rule splice_splice) (use assms(3) len in simp_all)
  ultimately show ?thesis by (simp add: nth_layer_viewer_mut_def patch_layer_def)
qed

lemma patch_lbytes:
  assumes "shape pkt" and "l \<in> set (pkt_layers pkt)" and "k + 2 \<le> layer_len l"
  shows "lbytes l (patch_layer l k c pkt) = patched (lbytes l pkt) k c"
    "m \<in> set (pkt_layers pkt) \<Longrightarrow> m \<noteq> l \<Longrightarrow> lbytes m (patch_layer l k c pkt) = lbytes m pkt"
proof -
  have len: "layer_offset l + layer_len l \<le> length (pkt_bytes pkt)" by (rule shape_layer(1) [OF assms(1,2)])
  show "lbytes l (patch_layer l k c pkt) = patched (lbytes l pkt) k c"
    using len assms(3) by (intro nth_equalityI) (auto simp: lbytes_def patch_layer_def splice_nth)
  assume m: "m \<in> set (pkt_layers pkt)" "m \<noteq> l"
  have "layer_offset m + layer_len m \<le> layer_offset l \<or> layer_offset l + layer_len l \<le> layer_offset m"
    using laid_out_disjoint [OF _ m(1) assms(2) m(2)] assms(1) by (auto simp: shape_def)
  then show "lbytes m (patch_layer l k c pkt) = lbytes m pkt"
    unfolding lbytes_def patch_layer_def using len assms(3) by (intro take_drop_eqI) (auto simp: splice_nth)
qed

lemma patch_slice:
  assumes "layer_offset l + k + 2 \<le> e" and "slice (pkt_bytes pkt) (layer_offset l) e = Some seg"
  shows "slice (pkt_bytes (patch_layer l k c pkt)) (layer_offset l) e = Some (patched seg k c)"
proof -
  have e: "e \<le> length (pkt_bytes pkt)" "seg = take (e - layer_offset l) (drop (layer_offset l) (pkt_bytes pkt))"
    using assms by (auto simp: slice_def split: if_splits)
  have "take (e - layer_offset l) (drop (layer_offset l) (pkt_bytes (patch_layer l k c pkt))) = patched seg k c"
    using e assms(1) by (intro nth_equalityI) (auto simp: patch_layer_def splice_nth)
  then show ?thesis using e(1) assms(1) by (simp add: slice_def patch_layer_def)
qed

text \<open>The segment of a packet, and what writing its checksum does to the packet.\<close>

lemma segment_split:
  assumes "shape pkt" and "outer_transport pkt = TOk (Some q)"
  obtains (none) "transport_segment pkt = TOk None"
  | (some) p m seg e where "transport_segment pkt = TOk (Some seg)" "transport_layer q = Some p"
    "nth_layer pkt p (- 1) = Some m" "layer_offset m + layer_len m \<le> e"
    "slice (pkt_bytes pkt) (layer_offset m) e = Some seg" "header_min p \<le> length seg"
proof -
  obtain s where s: "transport_segment pkt = TOk s"
    "\<forall>b. s = Some b \<longrightarrow> (\<exists>p l e. transport_layer q = Some p \<and> nth_layer pkt p (- 1) = Some l \<and>
      layer_offset l + layer_len l \<le> e \<and> slice (pkt_bytes pkt) (layer_offset l) e = Some b)"
    using transport_segment_returns [OF assms] by (auto simp: returns_def)
  show thesis
  proof (cases s)
    case None
    then show thesis using none s(1) by simp
  next
    case (Some seg)
    then obtain p m e where m: "transport_layer q = Some p" "nth_layer pkt p (- 1) = Some m"
      "layer_offset m + layer_len m \<le> e" "slice (pkt_bytes pkt) (layer_offset m) e = Some seg" using s(2) by blast
    then show thesis using some s(1) Some segment_length [OF assms(1) m(2-4)] by simp
  qed
qed

lemma patch_framed:
  assumes "shape pkt" and "nth_layer pkt p (- 1) = Some l" and "touched pkt p"
    and "fst (writable p) \<le> k" and "k + 2 \<le> snd (writable p)"
  shows "framed pkt (patch_layer l k c pkt)"
proof -
  have len: "k + 2 \<le> layer_len l"
    using shape_layer(2) [OF assms(1), of l] nth_layer_Some [OF assms(2)] writable_bounds [of p] assms(5) by simp
  have l: "layer_offset l + layer_len l \<le> length (pkt_bytes pkt)"
    using shape_layer(1) [OF assms(1), of l] nth_layer_Some [OF assms(2)] by simp
  have "rewritable pkt i" if "layer_offset l + k \<le> i" "i < layer_offset l + k + 2" for i
    unfolding rewritable_def using assms(2-5) that by (intro exI [of _ p] exI [of _ l]) linarith
  then show ?thesis using l len by (auto simp: framed_def patch_layer_def splice_nth)
qed

lemma segment_patched:
  assumes "shape pkt" and "outer_transport pkt = TOk (Some q)" and "transport_segment pkt = TOk (Some seg)"
    and "transport_layer q = Some p" and "nth_layer pkt p (- 1) = Some m" and "header_min p \<le> length seg"
    and "writable p = (k, k + 2)"
  shows "framed pkt (patch_layer m k c pkt)" "transport_segment (patch_layer m k c pkt) = TOk (Some (patched seg k c))"
proof -
  let ?pkt' = "patch_layer m k c pkt"
  have p: "p \<noteq> Ipv4" "p \<noteq> Ipv6" using assms(4) by (auto simp: transport_layer_def split: if_splits)
  show framed: "framed pkt ?pkt'"
    by (rule patch_framed [OF assms(1,5)]) (use assms(7) p in \<open>simp_all add: touched_def\<close>)
  have k: "k + 2 \<le> length seg" using assms(6,7) writable_bounds [of p] by simp
  have range: "nth_layer_range pkt p (- 1) = Some (layer_offset m, layer_offset m + layer_len m)"
    by (rule nth_layer_range_eq [OF assms(5)])
  obtain off h n where b: "ip_bounds pkt = TOk (Some (off, h, n))"
    using assms(3) by (auto simp: transport_segment_def t_bind_TOk split: option.splits)
  let ?e = "if n = 0 then length (pkt_bytes pkt) else off + h + n"
  have seg: "\<not> layer_offset m < off + h" "slice (pkt_bytes pkt) (layer_offset m) ?e = Some seg"
    using assms(2-4) b range by (auto simp: transport_segment_def Let_def split: if_splits)
  have "length (pkt_bytes ?pkt') = length (pkt_bytes pkt)" using framed by (simp add: framed_def)
  moreover have "layer_offset m + k + 2 \<le> ?e" using seg(2) k by (auto simp: slice_def split: if_splits)
  moreover have "length (patched seg k c) = ?e - layer_offset m"
    using patched_length [OF k, of c] seg(2) by (auto simp: slice_def min_def split: if_splits)
  ultimately show "transport_segment ?pkt' = TOk (Some (patched seg k c))"
    using patch_slice [of m k ?e pkt seg c] seg b assms(2,4) range
    by (simp add: transport_segment_def ip_bounds_framed [OF assms(1) framed] outer_transport_framed [OF assms(1) framed]
        range_framed [OF framed] Let_def split: if_splits)
qed

section \<open>Valid packets\<close>

definition header_valid :: "packet \<Rightarrow> bool" where
  "header_valid pkt =
    (outer_ip_family pkt = Some IpFamilyV4 \<longrightarrow>
       (\<forall>hdr. outer_ipv4 pkt = TOk (Some hdr) \<longrightarrow> ipv4_validate_checksum hdr = TOk True))"

definition segment_valid :: "packet \<Rightarrow> 8 word \<Rightarrow> bytes \<Rightarrow> bool" where
  "segment_valid pkt q seg =
    (case outer_ip_family pkt of
       None \<Rightarrow> True
     | Some IpFamilyV4 \<Rightarrow>
         (\<forall>hdr src dst. outer_ipv4 pkt = TOk (Some hdr) \<and> ipv4_src hdr = Some src \<and> ipv4_dst hdr = Some dst \<longrightarrow>
            (q = ip_tcp \<longrightarrow> tcp_validate_checksum_ipv4 seg src dst = TOk True) \<and>
            (q = ip_udp \<longrightarrow> udp_validate_checksum_ipv4 seg src dst = TOk True))
     | Some IpFamilyV6 \<Rightarrow>
         (\<forall>hdr src dst final. outer_ipv6 pkt = TOk (Some hdr) \<and> ipv6_src hdr = Some src \<and> ipv6_dst hdr = Some dst \<and>
              pseudo_header_dst pkt dst = TOk (Some final) \<longrightarrow>
            (q = ip_tcp \<longrightarrow> tcp_validate_checksum_ipv6 seg src final = TOk True) \<and>
            (q = ip_udp \<longrightarrow> udp_validate_checksum_ipv6 seg src final = TOk True) \<and>
            (q = ip_ipv6_icmp \<longrightarrow> icmpv6_validate_checksum_ipv6 seg src final = TOk True)))"

text \<open>The checksum of the transport segment of the outermost packet, if that is TCP, UDP or ICMPv6 over
  IPv6, and all of it is captured.\<close>

definition transport_valid :: "packet \<Rightarrow> bool" where
  "transport_valid pkt =
    (\<forall>q seg. outer_transport pkt = TOk (Some q) \<and> transport_segment pkt = TOk (Some seg) \<longrightarrow> segment_valid pkt q seg)"

definition is_fragment :: "packet \<Rightarrow> bool" where
  "is_fragment pkt =
    (case outer_ip_family pkt of
       None \<Rightarrow> False
     | Some IpFamilyV4 \<Rightarrow> (case packet_info_read pkt of TOk (Some i) \<Rightarrow> pi_fragment i \<noteq> None | _ \<Rightarrow> False)
     | Some IpFamilyV6 \<Rightarrow> outer_fragment pkt \<noteq> TOk None)"

lemma outer_ipv4_layer:
  assumes "shape pkt" and "outer_ip_family pkt = Some IpFamilyV4"
  obtains l where "nth_layer pkt Ipv4 (- 1) = Some l" "l \<in> set (pkt_layers pkt)" "layer_protocol l = Ipv4"
    "20 \<le> length (lbytes l pkt)" "outer_ipv4 pkt = TOk (Some (lbytes l pkt))"
proof -
  obtain l where l: "nth_layer pkt Ipv4 (- 1) = Some l"
    using assms(2) by (auto simp: outer_ip_family_def split: option.splits if_splits)
  then show thesis
    using that nth_layer_Some [OF l] shape_layer(2,3) [OF assms(1), of l] nth_layer_viewer_eq [OF assms(1)]
    by (simp add: outer_ipv4_def)
qed

lemma outer_ipv6_layer:
  assumes "shape pkt" and "outer_ip_family pkt = Some IpFamilyV6"
  obtains l where "nth_layer pkt Ipv6 (- 1) = Some l" "l \<in> set (pkt_layers pkt)" "layer_protocol l = Ipv6"
    "40 \<le> length (lbytes l pkt)" "outer_ipv6 pkt = TOk (Some (lbytes l pkt))"
proof -
  obtain l where l: "nth_layer pkt Ipv6 (- 1) = Some l"
    using assms(2) by (auto simp: outer_ip_family_def split: option.splits if_splits)
  then show thesis
    using that nth_layer_Some [OF l] shape_layer(2,3) [OF assms(1), of l] nth_layer_viewer_eq [OF assms(1)]
    by (simp add: outer_ipv6_def)
qed

lemma ipv4_fragment_iff:
  assumes "shape pkt" and "outer_ip_family pkt = Some IpFamilyV4" and "nth_layer pkt Ipv4 (- 1) = Some l"
  shows "is_fragment pkt \<longleftrightarrow>
    (ipv4_fragment_offset (lbytes l pkt) \<noteq> Some 0 \<or> map_option (\<lambda>f. f AND 1) (ipv4_flags (lbytes l pkt)) \<noteq> Some 0)"
proof -
  have b: "20 \<le> length (lbytes l pkt)" "outer_ipv4 pkt = TOk (Some (lbytes l pkt))"
    using outer_ipv4_layer [OF assms(1,2)] assms(3) by (metis option.inject)+
  obtain ports where ports: "packet_ports pkt = TOk ports" using packet_ports_returns [OF assms(1)] by (auto simp: returns_def)
  obtain flags where flags: "ipv4_flags (lbytes l pkt) = Some flags" using header_fields_some(1) [OF b(1)] by blast
  obtain fo where fo: "ipv4_fragment_offset (lbytes l pkt) = Some fo" using network_fields_some(2) [OF b(1)] by blast
  obtain src where src: "ipv4_src (lbytes l pkt) = Some src" using header_fields_some(3) [OF b(1)] by blast
  obtain dst where dst: "ipv4_dst (lbytes l pkt) = Some dst" using header_fields_some(4) [OF b(1)] by blast
  obtain q where q: "ipv4_protocol (lbytes l pkt) = Some q" using network_fields_some(3) [OF b(1)] by blast
  obtain i where i: "ipv4_identification (lbytes l pkt) = Some i" using header_fields_some(2) [OF b(1)] by blast
  show ?thesis
    by (cases ports) (simp add: is_fragment_def packet_info_read_def assms(2) b(2) from_ipv4_def ports flags fo src dst q i)
qed

lemma is_fragment_framed:
  assumes "shape pkt" and "framed pkt pkt'"
  shows "is_fragment pkt' = is_fragment pkt"
proof (cases "outer_ip_family pkt")
  case (Some fam)
  note fam' = framed_family [OF assms(2)]
  show ?thesis
  proof (cases fam)
    case IpFamilyV4
    obtain l where l: "nth_layer pkt Ipv4 (- 1) = Some l"
      using outer_ipv4_layer [OF assms(1)] Some IpFamilyV4 by blast
    then have "nth_layer pkt' Ipv4 (- 1) = Some l" using framed_nth_layer [OF assms(2)] by simp
    then show ?thesis
      using ipv4_fragment_iff [OF framed_shape [OF assms], of l] ipv4_fragment_iff [OF assms(1) _ l]
        framed_ipv4_fields(4,5) [OF assms l] Some IpFamilyV4 fam' by simp
  next
    case IpFamilyV6
    have "outer_fragment pkt' = outer_fragment pkt"
      using chain_viewer_framed [OF assms, of Ipv6Frag] by (simp add: outer_fragment_def writable_def)
    then show ?thesis using Some IpFamilyV6 fam' by (simp add: is_fragment_def)
  qed
qed (simp add: is_fragment_def framed_family [OF assms(2)])

section \<open>Fixing makes packets valid\<close>

lemma no_segment_valid:
  "outer_transport pkt = TOk (Some q) \<Longrightarrow> transport_segment pkt = TOk None \<Longrightarrow> transport_valid pkt"
  "outer_transport pkt = TOk None \<Longrightarrow> transport_valid pkt"
  by (simp_all add: transport_valid_def)

lemma patched_valid:
  assumes "shape pkt" and "outer_transport pkt = TOk (Some q)" and "transport_segment pkt = TOk (Some seg)"
    and "transport_layer q = Some p" and "nth_layer pkt p (- 1) = Some m" and "header_min p \<le> length seg"
    and "writable p = (k, k + 2)" and "segment_valid (patch_layer m k c pkt) q (patched seg k c)"
  shows "transport_valid (patch_layer m k c pkt)"
proof -
  note patch = segment_patched [OF assms(1-7), of c]
  have "outer_transport (patch_layer m k c pkt) = TOk (Some q)"
    using outer_transport_framed [OF assms(1) patch(1)] assms(2) by simp
  then show ?thesis using patch(2) assms(8) by (simp add: transport_valid_def)
qed

lemma patched_outer:
  assumes "shape pkt" and "framed pkt (patch_layer m k c pkt)" and "m \<in> set (pkt_layers pkt)" and "k + 2 \<le> layer_len m"
    and "nth_layer pkt p (- 1) = Some l" and "layer_protocol m \<noteq> p"
  shows "nth_layer_viewer (patch_layer m k c pkt) p (- 1) = TOk (Some (lbytes l pkt))"
  using viewer_framed [OF assms(1,2), of p "- 1"] patch_lbytes(2) [OF assms(1,3,4), of l c] nth_layer_Some [OF assms(5)]
    assms(5,6) by auto

lemma view_raw_prefix: "hi \<le> n \<Longrightarrow> n \<le> length b \<Longrightarrow> view_raw lo hi f (take n b) = view_raw lo hi f b"
  by (simp add: view_raw_def slice_def drop_take min_def)

lemma segment_prefix:
  assumes "shape pkt" and "m \<in> set (pkt_layers pkt)" and "layer_offset m + layer_len m \<le> e"
    and "slice (pkt_bytes pkt) (layer_offset m) e = Some seg"
  shows "lbytes m pkt = take (layer_len m) seg" "layer_len m \<le> length seg"
  using assms by (auto simp: slice_def lbytes_def min_def split: if_splits)

lemma fix_ipv4_transport_valid:
  assumes "shape pkt" and "outer_ip_family pkt = Some IpFamilyV4" and "nth_layer pkt Ipv4 (- 1) = Some l"
    and "fix_ipv4_transport pkt = TOk pkt'"
  shows "transport_valid pkt'" "lbytes l pkt' = lbytes l pkt"
proof -
  have hdr: "outer_ipv4 pkt = TOk (Some (lbytes l pkt))" "20 \<le> length (lbytes l pkt)"
    using outer_ipv4_layer [OF assms(1,2)] assms(3) by (metis option.inject)+
  obtain q where q: "outer_transport pkt = TOk (Some q)"
    using network_fields_some(3) [OF hdr(2)] by (auto simp: outer_transport_def assms(2) hdr(1))
  obtain src where src: "ipv4_src (lbytes l pkt) = Some src" using header_fields_some(3) [OF hdr(2)] by blast
  obtain dst where dst: "ipv4_dst (lbytes l pkt) = Some dst" using header_fields_some(4) [OF hdr(2)] by blast
  note known = q hdr(1) src dst
  have written: "transport_valid pkt' \<and> lbytes l pkt' = lbytes l pkt"
    if pkt': "pkt' = patch_layer m k c pkt" and seg: "transport_segment pkt = TOk (Some seg)"
      and m: "transport_layer q = Some p" "nth_layer pkt p (- 1) = Some m" "header_min p \<le> length seg"
      and w: "writable p = (k, k + 2)"
      and valid: "(q = ip_tcp \<longrightarrow> tcp_validate_checksum_ipv4 (patched seg k c) src dst = TOk True) \<and>
        (q = ip_udp \<longrightarrow> udp_validate_checksum_ipv4 (patched seg k c) src dst = TOk True)" for m k c seg p
  proof -
    note mp = nth_layer_Some [OF m(2)]
    have len: "k + 2 \<le> layer_len m" using shape_layer(2) [OF assms(1), of m] mp w writable_bounds [of p] by simp
    have other: "p \<noteq> Ipv4" using m(1) by (auto simp: transport_layer_def split: if_splits)
    note framed = segment_patched(1) [OF assms(1) q seg m w, of c]
    have same: "lbytes l (patch_layer m k c pkt) = lbytes l pkt"
      using patch_lbytes(2) [OF assms(1) _ len, of l c] mp other nth_layer_Some [OF assms(3)] by blast
    have "outer_ipv4 (patch_layer m k c pkt) = TOk (Some (lbytes l pkt))"
      using patched_outer [OF assms(1) framed _ len assms(3)] mp other by (simp add: outer_ipv4_def)
    then have "segment_valid (patch_layer m k c pkt) q (patched seg k c)"
      using valid src dst framed_family [OF framed] assms(2) by (simp add: segment_valid_def)
    then show ?thesis using patched_valid [OF assms(1) q seg m w] same pkt' by simp
  qed
  have "transport_valid pkt' \<and> lbytes l pkt' = lbytes l pkt"
  proof (rule segment_split [OF assms(1) q], goal_cases)
    case 1
    then have "pkt' = pkt"
      using assms(4) known by (auto simp: fix_ipv4_transport_def let_some_def t_bind_TOk split: if_splits)
    then show ?case using no_segment_valid(1) [OF q 1] by simp
  next
    case (2 p m seg e)
    note m = nth_layer_Some [OF 2(3)]
    have len: "header_min p \<le> layer_len m" using shape_layer(2) [OF assms(1), of m] m by simp
    consider "q = ip_tcp" | "q = ip_udp" | "q \<noteq> ip_tcp" "q \<noteq> ip_udp" by blast
    then show ?case
    proof cases
      case 1
      then have p: "p = Tcp" using 2(2) by (simp add: transport_layer_def)
      have "fix_ipv4_transport pkt = TOk (patch_layer m 16 (tcp_calculate_checksum_ipv4 seg src dst) pkt)"
        using known 1 2(1) patch_write [OF assms(1), of Tcp m 16 "tcp_calculate_checksum_ipv4 seg src dst"] 2(3) p len
        by (simp add: fix_ipv4_transport_def let_some_def tcp_set_checksum_def [abs_def])
      then show ?thesis
        using written [OF _ 2(1,2,3,6), of 16] assms(4) p tcp_patched_valid(1) [of seg src dst] 2(6) 1
        by (simp add: writable_def)
    next
      case 3
      then have "pkt' = pkt" using assms(4) known by (simp add: fix_ipv4_transport_def let_some_def)
      then show ?thesis using 3 q assms(2) by (auto simp: transport_valid_def segment_valid_def)
    next
      case udp: 2
      then have p: "p = Udp" using 2(2) by (simp add: transport_layer_def ip_protocol_defs)
      have viewer: "nth_layer_viewer pkt Udp (- 1) = TOk (Some (lbytes m pkt))"
        using nth_layer_viewer_eq [OF assms(1)] 2(3) p by simp
      obtain old where old: "udp_checksum (lbytes m pkt) = Some old"
        using header_fields_some(9) [of "lbytes m pkt"] shape_layer(3) [OF assms(1), of m] m len p by auto
      obtain c where c: "udp_calculate_checksum_ipv4 seg src dst = TOk c"
        using udp_segment_returns(1) [of seg src dst] 2(6) p by (auto simp: returns_def)
      show ?thesis
      proof (cases "old = 0")
        case True
        note prefix = segment_prefix [OF assms(1) _ 2(4,5)]
        have "udp_checksum (take (layer_len m) seg) = udp_checksum seg"
          using prefix(2) m len p by (simp add: udp_checksum_def view_raw_prefix)
        then have "udp_checksum seg = Some 0" using old True prefix(1) m by simp
        then have "udp_validate_checksum_ipv4 seg src dst = TOk True" by (simp add: udp_validate_checksum_ipv4_def)
        then have "transport_valid pkt"
          using udp q 2(1) known assms(2) by (auto simp: transport_valid_def segment_valid_def)
        moreover have "pkt' = pkt"
          using assms(4) known udp viewer old True by (simp add: fix_ipv4_transport_def let_some_def)
        ultimately show ?thesis by simp
      next
        case False
        have "fix_ipv4_transport pkt = TOk (patch_layer m 6 c pkt)"
          using known udp 2(1) viewer old False c patch_write [OF assms(1), of Udp m 6 c] 2(3) p len
          by (simp add: fix_ipv4_transport_def let_some_def udp_set_checksum_def [abs_def])
        then show ?thesis
          using written [OF _ 2(1,2,3,6), of 6 c] assms(4) p udp_patched_valid(1) [OF _ c] 2(6) udp
          by (simp add: writable_def)
      qed
    qed
  qed
  then show "transport_valid pkt'" "lbytes l pkt' = lbytes l pkt" by simp_all
qed

lemma fix_ipv4_checksums_valid:
  assumes "shape pkt" and "outer_ip_family pkt = Some IpFamilyV4" and "fix_ipv4_checksums pkt = TOk pkt'"
  shows "header_valid pkt'" "\<not> is_fragment pkt \<Longrightarrow> transport_valid pkt'"
proof -
  obtain l where l: "nth_layer pkt Ipv4 (- 1) = Some l" "l \<in> set (pkt_layers pkt)" "layer_protocol l = Ipv4"
    "20 \<le> length (lbytes l pkt)" "outer_ipv4 pkt = TOk (Some (lbytes l pkt))"
    using outer_ipv4_layer [OF assms(1,2)] by blast
  have len: "20 \<le> layer_len l" using shape_layer(2) [OF assms(1) l(2)] l(3) by simp
  obtain h where "ipv4_header_len (lbytes l pkt) = Some h" using l(4) by (fastforce simp: ipv4_header_len_def)
  then obtain c where c: "ipv4_calculate_checksum (lbytes l pkt) = TOk c" by (simp add: ipv4_calculate_checksum_def)
  let ?pkt1 = "patch_layer l 10 c pkt"
  have framed1: "framed pkt ?pkt1"
    by (rule patch_framed [OF assms(1) l(1)]) (simp_all add: touched_def assms(2) writable_def)
  have b1: "lbytes l ?pkt1 = patched (lbytes l pkt) 10 c"
    using patch_lbytes(1) [OF assms(1) l(2)] len by simp
  have "fix_ipv4_header (lbytes l pkt) = TOk (patched (lbytes l pkt) 10 c)"
    using c view_set_splice [of 2 10 "lbytes l pkt" c] l(4) by (simp add: fix_ipv4_header_def ipv4_set_checksum_def)
  moreover have "length (patched (lbytes l pkt) 10 c) = layer_len l"
    using l(4) shape_layer(3) [OF assms(1) l(2)] by simp
  ultimately have "outer_ipv4_mut pkt (setting fix_ipv4_header) =
      TOk (Some (), pkt\<lparr>pkt_bytes := splice (pkt_bytes pkt) (layer_offset l) (patched (lbytes l pkt) 10 c)\<rparr>)"
    using with_viewer_mut_eq [where f = "setting fix_ipv4_header" and l = l and x = "()" and
        b = "patched (lbytes l pkt) 10 c", OF assms(1) l(1)]
    by (simp add: setting_def outer_ipv4_mut_def)
  moreover have "splice (pkt_bytes pkt) (layer_offset l) (patched (lbytes l pkt) 10 c) =
      patched (pkt_bytes pkt) (layer_offset l + 10) c"
    unfolding lbytes_def by (rule splice_splice) (use len shape_layer(1) [OF assms(1) l(2)] in simp_all)
  ultimately have stored: "outer_ipv4_mut pkt (setting fix_ipv4_header) = TOk (Some (), ?pkt1)"
    by (simp add: patch_layer_def)
  note shape1 = framed_shape [OF assms(1) framed1]
  have l1: "nth_layer ?pkt1 Ipv4 (- 1) = Some l" using framed_nth_layer [OF framed1] l(1) by simp
  have fam1: "outer_ip_family ?pkt1 = Some IpFamilyV4" using framed_family [OF framed1] assms(2) by simp
  obtain info where info: "packet_info_read ?pkt1 = TOk info" using packet_info_returns [OF shape1] by (auto simp: returns_def)
  have frag: "is_fragment pkt \<longleftrightarrow> (case info of Some i \<Rightarrow> pi_fragment i \<noteq> None | None \<Rightarrow> False)"
    using is_fragment_framed [OF assms(1) framed1] fam1 info by (auto simp: is_fragment_def split: option.split)
  have r: "(if is_fragment pkt then TOk ?pkt1 else fix_ipv4_transport ?pkt1) = TOk pkt'"
    using assms(3) stored info frag by (simp add: fix_ipv4_checksums_def)
  have "lbytes l pkt' = lbytes l ?pkt1"
    using r fix_ipv4_transport_valid(2) [OF shape1 fam1 l1] by (auto split: if_splits)
  moreover have framed': "framed ?pkt1 pkt'"
    using r fix_ipv4_transport_returns [OF shape1] by (auto simp: returns_def split: if_splits)
  ultimately have "outer_ipv4 pkt' = TOk (Some (patched (lbytes l pkt) 10 c))"
    using viewer_framed [OF shape1 framed'] l1 b1 by (simp add: outer_ipv4_def)
  then show "header_valid pkt'" using ipv4_patched_valid [OF l(4) c] by (simp add: header_valid_def)
  show "transport_valid pkt'" if "\<not> is_fragment pkt"
    using r that fix_ipv4_transport_valid(1) [OF shape1 fam1 l1] by simp
qed

lemma pseudo_header_dst_framed:
  assumes "shape pkt" and "framed pkt pkt'"
  shows "pseudo_header_dst pkt' dst = pseudo_header_dst pkt dst"
  using chain_viewer_framed [OF assms, of Ipv6Route] by (simp add: pseudo_header_dst_def writable_def)

lemma fix_ipv6_checksums_valid:
  assumes "shape pkt" and "outer_ip_family pkt = Some IpFamilyV6" and "fix_ipv6_checksums pkt = TOk pkt'"
    and "\<not> is_fragment pkt"
  shows "transport_valid pkt'"
proof -
  obtain l where l: "nth_layer pkt Ipv6 (- 1) = Some l" "l \<in> set (pkt_layers pkt)" "layer_protocol l = Ipv6"
    "40 \<le> length (lbytes l pkt)" "outer_ipv6 pkt = TOk (Some (lbytes l pkt))"
    using outer_ipv6_layer [OF assms(1,2)] by blast
  obtain q where q: "outer_transport pkt = TOk (Some q)"
    using next_header_returns [OF assms(1)] l assms(2) by (auto simp: returns_def outer_transport_def)
  obtain src where src: "ipv6_src (lbytes l pkt) = Some src" using header_fields_some(5) [OF l(4)] by blast
  obtain dst where dst: "ipv6_dst (lbytes l pkt) = Some dst" using header_fields_some(6) [OF l(4)] by blast
  have "outer_fragment pkt = TOk None" using assms(2,4) by (simp add: is_fragment_def)
  note known = this q l(5) src dst
  obtain d where d: "pseudo_header_dst pkt dst = TOk d"
    using assms(3) known by (auto simp: fix_ipv6_checksums_def let_some_def t_bind_TOk)
  show ?thesis
  proof (rule segment_split [OF assms(1) q], goal_cases)
    case 1
    then have "pkt' = pkt"
      using assms(3) known d by (auto simp: fix_ipv6_checksums_def let_some_def split: option.splits)
    then show ?case using no_segment_valid(1) [OF q 1] by simp
  next
    case (2 p m seg e)
    note m = nth_layer_Some [OF 2(3)]
    have len: "header_min p \<le> layer_len m" using shape_layer(2) [OF assms(1), of m] m by simp
    have other: "p \<noteq> Ipv6" using 2(2) by (auto simp: transport_layer_def split: if_splits)
    show ?thesis
    proof (cases d)
      case None
      then have "pkt' = pkt" using assms(3) known d by (simp add: fix_ipv6_checksums_def let_some_def)
      then show ?thesis
        using None d q 2(1) known assms(2) by (auto simp: transport_valid_def segment_valid_def)
    next
      case (Some final)
      have written: "transport_valid pkt'"
        if pkt': "pkt' = patch_layer m k c pkt" and w: "writable p = (k, k + 2)"
          and valid: "(q = ip_tcp \<longrightarrow> tcp_validate_checksum_ipv6 (patched seg k c) src final = TOk True) \<and>
            (q = ip_udp \<longrightarrow> udp_validate_checksum_ipv6 (patched seg k c) src final = TOk True) \<and>
            (q = ip_ipv6_icmp \<longrightarrow> icmpv6_validate_checksum_ipv6 (patched seg k c) src final = TOk True)" for k c
      proof -
        have fits: "k + 2 \<le> layer_len m" using len w writable_bounds [of p] by simp
        note framed = segment_patched(1) [OF assms(1) q 2(1,2,3,6) w, of c]
        have "outer_ipv6 (patch_layer m k c pkt) = TOk (Some (lbytes l pkt))"
          using patched_outer [OF assms(1) framed _ fits l(1)] m other by (simp add: outer_ipv6_def)
        then have "segment_valid (patch_layer m k c pkt) q (patched seg k c)"
          using valid src dst framed_family [OF framed] assms(2) d Some pseudo_header_dst_framed [OF assms(1) framed]
          by (simp add: segment_valid_def)
        then show ?thesis using patched_valid [OF assms(1) q 2(1,2,3,6) w] pkt' by simp
      qed
      have run: "(if q = ip_tcp then
            nth_layer_viewer_mut pkt Tcp (- 1) (tcp_set_checksum (tcp_calculate_checksum_ipv6 seg src final))
          else if q = ip_udp then
            t_bind (udp_calculate_checksum_ipv6 seg src final) (\<lambda>checksum.
            nth_layer_viewer_mut pkt Udp (- 1) (udp_set_checksum checksum))
          else if q = ip_ipv6_icmp then
            nth_layer_viewer_mut pkt Icmpv6 (- 1)
              (icmpv6_set_checksum (icmpv6_calculate_checksum_ipv6 seg src final))
          else TOk pkt) = TOk pkt'"
        using assms(3) known d Some 2(1) by (simp add: fix_ipv6_checksums_def let_some_def)
      consider "q = ip_tcp" "p = Tcp" | "q = ip_udp" "p = Udp" | "q = ip_ipv6_icmp" "p = Icmpv6"
        using 2(2) by (auto simp: transport_layer_def split: if_splits)
      then show ?thesis
      proof cases
        case 1
        have "pkt' = patch_layer m 16 (tcp_calculate_checksum_ipv6 seg src final) pkt"
          using run 1 2(3) len patch_write [OF assms(1), of Tcp m 16 "tcp_calculate_checksum_ipv6 seg src final"]
          by (simp add: tcp_set_checksum_def [abs_def])
        then show ?thesis
          using written tcp_patched_valid(2) [of seg src final] 2(6) 1 by (simp add: writable_def)
      next
        case udp: 2
        obtain c where c: "udp_calculate_checksum_ipv6 seg src final = TOk c"
          using udp_segment_returns(2) [of seg src final] 2(6) udp by (auto simp: returns_def)
        have "pkt' = patch_layer m 6 c pkt"
          using run udp c 2(3) len patch_write [OF assms(1), of Udp m 6 c] by (simp add: udp_set_checksum_def [abs_def])
        then show ?thesis
          using written udp_patched_valid(2) [OF _ c] 2(6) udp by (simp add: writable_def)
      next
        case 3
        have "pkt' = patch_layer m 2 (icmpv6_calculate_checksum_ipv6 seg src final) pkt"
          using run 3 2(3) len patch_write [OF assms(1), of Icmpv6 m 2 "icmpv6_calculate_checksum_ipv6 seg src final"]
          by (simp add: icmpv6_set_checksum_def [abs_def])
        then show ?thesis
          using written icmpv6_patched_valid [of seg src final] 2(6) 3 by (simp add: writable_def)
      qed
    qed
  qed
qed

text \<open>C3: the checksums an address change invalidates are repaired.  When fixing the checksums of a
  packet whose layers are laid out as every parse leaves them returns, the IPv4 header of the
  outermost packet passes its own validation, and unless the packet is a fragment so does its TCP,
  UDP or ICMPv6 segment against the pseudo header of RFC 9293, 768 and 8200, with the final
  destination of a routing header; nothing else than the framed bytes changed.\<close>

theorem fix_checksums_verify:
  assumes "shape pkt" and "fix_checksums pkt = TOk pkt'"
  shows "framed pkt pkt' \<and> header_valid pkt' \<and> (\<not> is_fragment pkt \<longrightarrow> transport_valid pkt')"
proof -
  have framed: "framed pkt pkt'"
    using fix_checksums_returns [OF assms(1)] assms(2) by (simp split: if_splits)
  show ?thesis
  proof (cases "outer_ip_family pkt")
    case None
    then have "outer_ip_family pkt' = None" using framed_family [OF framed] by simp
    then show ?thesis using framed by (simp add: header_valid_def transport_valid_def segment_valid_def)
  next
    case (Some fam)
    show ?thesis
    proof (cases fam)
      case IpFamilyV4
      then show ?thesis
        using framed Some assms fix_ipv4_checksums_valid [OF assms(1)] by (simp add: fix_checksums_def)
    next
      case IpFamilyV6
      then show ?thesis
        using framed Some assms fix_ipv6_checksums_valid [OF assms(1)] framed_family [OF framed]
        by (simp add: fix_checksums_def header_valid_def)
    qed
  qed
qed

text \<open>A UDP datagram of 30 bytes with checksums that do not verify.\<close>

definition udp_packet :: packet where
  "udp_packet = \<lparr>pkt_bytes = [0x45, 0, 0, 30, 0, 1, 0, 0, 64, 17, 0, 0, 10, 0, 0, 1, 10, 0, 0, 2,
       0x12, 0x34, 0, 53, 0, 10, 1, 2, 7, 7],
     pkt_layers = [\<lparr>layer_protocol = Ipv4, layer_offset = 0, layer_len = 20\<rparr>,
       \<lparr>layer_protocol = Udp, layer_offset = 20, layer_len = 8\<rparr>,
       \<lparr>layer_protocol = Raw, layer_offset = 28, layer_len = 2\<rparr>]\<rparr>"

theorem fix_checksums_verify_witness:
  "shape udp_packet \<and> (\<exists>pkt'. fix_checksums udp_packet = TOk pkt' \<and> framed udp_packet pkt' \<and>
    header_valid pkt' \<and> (\<not> is_fragment udp_packet \<longrightarrow> transport_valid pkt'))"
proof -
  have shape: "shape udp_packet"
    by (simp add: udp_packet_def shape_def ip_end_def layer_is_def stays_in_def be_nat_Cons)
  have "\<not> cut_route udp_packet"
    by (simp add: cut_route_def outer_ip_family_def nth_layer_first udp_packet_def layer_is_def)
  then obtain pkt' where "fix_checksums udp_packet = TOk pkt'"
    using fix_checksums_returns [OF shape] by (auto simp: returns_def)
  then show ?thesis using shape fix_checksums_verify [OF shape] by blast
qed

end
