(* ===== verification/Flow_Meter.thy ===== *)
theory Flow_Meter
  imports Rewriter Merge_Reader "HOL-Library.List_Lexorder" "HOL-Library.Char_ord"
begin

text \<open>
  The flow feature extractor (\<^verbatim>\<open>flow.rs\<close> and the loop of \<^verbatim>\<open>main.rs\<close> under
  \<^verbatim>\<open>tools/maja-cicflowmeter/src\<close>): packets of TCP and UDP conversations, the features a flow
  accumulates, and the generator that opens, closes and reports flows.  Counters are kept at their
  64 bits, where an addition wraps.  The primitive operations of \<^verbatim>\<open>f64\<close> and the formatting of
  addresses, numbers and instants are parameters.
\<close>

section \<open>Floating point and formatting\<close>

record 'f floats =
  f_of_int :: "int \<Rightarrow> 'f"
  f_to_u64 :: "'f \<Rightarrow> 64 word"
  f_sub :: "'f \<Rightarrow> 'f \<Rightarrow> 'f"
  f_div :: "'f \<Rightarrow> 'f \<Rightarrow> 'f"
  f_powi :: "'f \<Rightarrow> int \<Rightarrow> 'f"
  f_sqrt :: "'f \<Rightarrow> 'f"
  f_sum :: "'f list \<Rightarrow> 'f"
  f_min :: "'f \<Rightarrow> 'f \<Rightarrow> 'f"
  f_max :: "'f \<Rightarrow> 'f \<Rightarrow> 'f"
  f_le :: "'f \<Rightarrow> 'f \<Rightarrow> bool"
  f_less :: "'f \<Rightarrow> 'f \<Rightarrow> bool"
  f_eq :: "'f \<Rightarrow> 'f \<Rightarrow> bool"
  f_is_finite :: "'f \<Rightarrow> bool"
  show_f64 :: "'f \<Rightarrow> string"
  show_int :: "int \<Rightarrow> string"
  show_addr :: "ip_addr \<Rightarrow> string"
  show_instant :: "int \<Rightarrow> string option"

definition fmt :: "'f floats \<Rightarrow> 'f \<Rightarrow> string" where
  "fmt F v =
    (if f_eq F v (f_of_int F 0) then ''0''
     else if f_is_finite F v then show_f64 F v
     else ''0'')"

definition format_timestamp :: "'f floats \<Rightarrow> int \<Rightarrow> string" where
  "format_timestamp F t = (case show_instant F t of Some s \<Rightarrow> s | None \<Rightarrow> ''1970-01-01T00:00:00Z'')"

definition ns_to_micros :: "'f floats \<Rightarrow> int \<Rightarrow> 'f" where
  "ns_to_micros F v = f_div F (f_of_int F (max v 0)) (f_of_int F 1000)"

section \<open>Packets of a conversation\<close>

definition tcp_flags :: "bytes \<Rightarrow> 8 word option" where
  "tcp_flags hdr = view_raw 13 14 whole hdr"

definition tcp_window_size :: "bytes \<Rightarrow> 16 word option" where
  "tcp_window_size hdr = view_raw 14 16 whole hdr"

definition flag_fin :: "8 word" where "flag_fin = 0x01"

definition flag_syn :: "8 word" where "flag_syn = 0x02"

definition flag_rst :: "8 word" where "flag_rst = 0x04"

definition flag_psh :: "8 word" where "flag_psh = 0x08"

definition flag_ack :: "8 word" where "flag_ack = 0x10"

definition flag_urg :: "8 word" where "flag_urg = 0x20"

definition flag_ece :: "8 word" where "flag_ece = 0x40"

definition flag_cwr :: "8 word" where "flag_cwr = 0x80"

definition contains_flag :: "8 word \<Rightarrow> 8 word \<Rightarrow> bool" where
  "contains_flag flags flag = (flags AND flag = flag)"

record flow_packet =
  fp_timestamp :: int
  fp_src_ip :: ip_addr
  fp_dst_ip :: ip_addr
  fp_src_port :: "16 word"
  fp_dst_port :: "16 word"
  fp_protocol :: "8 word"
  fp_payload_bytes :: "64 word"
  fp_header_bytes :: "64 word"
  fp_tcp_flags :: "8 word"
  fp_tcp_window :: "16 word"

text \<open>The innermost TCP or UDP layer, and the layers in front of it.\<close>

definition find_transport :: "layer list \<Rightarrow> (layer \<times> layer list) option" where
  "find_transport ls =
    (case dropWhile (\<lambda>l. \<not> (layer_is l Tcp \<or> layer_is l Udp)) (rev ls) of
       [] \<Rightarrow> None
     | l # before \<Rightarrow> Some (l, rev before))"

definition find_network :: "layer list \<Rightarrow> layer option" where
  "find_network ls = find (\<lambda>l. layer_is l Ipv4 \<or> layer_is l Ipv6) (rev ls)"

definition network_of :: "packet \<Rightarrow> layer \<Rightarrow> (ip_addr \<times> ip_addr \<times> nat) tool_result" where
  "network_of pkt l =
    t_bind (layer_view l pkt) (\<lambda>ip.
    if layer_is l Ipv4 then
      t_bind (fetch (ipv4_total_length ip)) (\<lambda>total_length.
      t_bind (fetch (ipv4_src ip)) (\<lambda>src.
      t_bind (fetch (ipv4_dst ip)) (\<lambda>dst.
      TOk (V4 src, V4 dst,
        min (saturating_add (layer_offset l) (unat total_length)) (length (pkt_bytes pkt))))))
    else
      t_bind (fetch (ipv6_payload_length ip)) (\<lambda>payload_length.
      t_bind (fetch (ipv6_src ip)) (\<lambda>src.
      t_bind (fetch (ipv6_dst ip)) (\<lambda>dst.
      TOk (V6 src, V6 dst,
        min (saturating_add (layer_offset l) (saturating_add 40 (unat payload_length)))
          (length (pkt_bytes pkt)))))))"

definition tcp_flow_packet ::
    "int \<Rightarrow> packet \<Rightarrow> layer \<Rightarrow> ip_addr \<Rightarrow> ip_addr \<Rightarrow> nat \<Rightarrow> flow_packet tool_result" where
  "tcp_flow_packet ts pkt l src dst ip_limit =
    t_bind (layer_view l pkt) (\<lambda>tcp.
    t_bind (fetch (tcp_src_port tcp)) (\<lambda>src_port.
    t_bind (fetch (tcp_dst_port tcp)) (\<lambda>dst_port.
    t_bind (fetch (tcp_header_len tcp)) (\<lambda>header_len.
    t_bind (fetch (tcp_flags tcp)) (\<lambda>flags.
    t_bind (fetch (tcp_window_size tcp)) (\<lambda>window.
    TOk \<lparr>fp_timestamp = ts, fp_src_ip = src, fp_dst_ip = dst, fp_src_port = src_port,
      fp_dst_port = dst_port, fp_protocol = 6,
      fp_payload_bytes = word_of_nat (ip_limit - (layer_offset l + layer_len l)),
      fp_header_bytes = word_of_nat header_len, fp_tcp_flags = flags, fp_tcp_window = window\<rparr>))))))"

definition udp_flow_packet ::
    "int \<Rightarrow> packet \<Rightarrow> layer \<Rightarrow> ip_addr \<Rightarrow> ip_addr \<Rightarrow> nat \<Rightarrow> flow_packet tool_result" where
  "udp_flow_packet ts pkt l src dst ip_limit =
    t_bind (layer_view l pkt) (\<lambda>udp.
    t_bind (fetch (udp_length udp)) (\<lambda>len.
    let datagram_len = min (unat len) (ip_limit - layer_offset l) in
    t_bind (fetch (udp_src_port udp)) (\<lambda>src_port.
    t_bind (fetch (udp_dst_port udp)) (\<lambda>dst_port.
    TOk \<lparr>fp_timestamp = ts, fp_src_ip = src, fp_dst_ip = dst, fp_src_port = src_port,
      fp_dst_port = dst_port, fp_protocol = 17, fp_payload_bytes = word_of_nat (datagram_len - 8),
      fp_header_bytes = 8, fp_tcp_flags = 0, fp_tcp_window = 0\<rparr>))))"

text \<open>The outer result is that of the call, the inner one \<^verbatim>\<open>Result<Option<FlowPacket>, ParseError>\<close>.\<close>

definition from_record ::
    "(parsers \<Rightarrow> nat \<Rightarrow> parse_fn) \<Rightarrow> registry \<Rightarrow> packet_record \<Rightarrow> (parse_error + flow_packet option) tool_result" where
  "from_record ext reg r =
    (case try_parse_with_link_type ext reg (pr_link_type r) default_options (new_packet (pr_data r)) of
       (pkt, Done) \<Rightarrow>
         (case find_transport (pkt_layers pkt) of
            None \<Rightarrow> TOk (Inr None)
          | Some (transport, before) \<Rightarrow>
              (case find_network before of
                 None \<Rightarrow> TOk (Inr None)
               | Some network \<Rightarrow>
                   t_bind (network_of pkt network) (\<lambda>(src, dst, ip_limit).
                   t_bind (if layer_is transport Tcp
                           then tcp_flow_packet (pr_timestamp r) pkt transport src dst ip_limit
                           else udp_flow_packet (pr_timestamp r) pkt transport src dst ip_limit) (\<lambda>p.
                   TOk (Inr (Some p))))))
     | (_, Failed e) \<Rightarrow> TOk (Inl e)
     | _ \<Rightarrow> TPanic)"

record flow_key =
  key_left_ip :: ip_addr
  key_left_port :: "16 word"
  key_right_ip :: ip_addr
  key_right_port :: "16 word"
  key_protocol :: "8 word"

definition key_from_packet :: "flow_packet \<Rightarrow> flow_key" where
  "key_from_packet p =
    (let left = (fp_src_ip p, fp_src_port p);
         right = (fp_dst_ip p, fp_dst_port p);
         (left, right) = (if left \<le> right then (left, right) else (right, left))
     in \<lparr>key_left_ip = fst left, key_left_port = snd left, key_right_ip = fst right,
         key_right_port = snd right, key_protocol = fp_protocol p\<rparr>)"

section \<open>Statistics\<close>

type_synonym 'f statistics = "'f list"

definition stat_reduce :: "('f \<Rightarrow> 'f \<Rightarrow> 'f) \<Rightarrow> 'f \<Rightarrow> 'f statistics \<Rightarrow> 'f" where
  "stat_reduce f d vs = (case vs of [] \<Rightarrow> d | v # vs \<Rightarrow> foldl f v vs)"

definition stat_min :: "'f floats \<Rightarrow> 'f statistics \<Rightarrow> 'f" where
  "stat_min F vs = stat_reduce (f_min F) (f_of_int F 0) vs"

definition stat_max :: "'f floats \<Rightarrow> 'f statistics \<Rightarrow> 'f" where
  "stat_max F vs = stat_reduce (f_max F) (f_of_int F 0) vs"

definition stat_mean :: "'f floats \<Rightarrow> 'f statistics \<Rightarrow> 'f" where
  "stat_mean F vs = (if vs = [] then f_of_int F 0 else f_div F (f_sum F vs) (f_of_int F (int (length vs))))"

definition stat_variance :: "'f floats \<Rightarrow> 'f statistics \<Rightarrow> 'f" where
  "stat_variance F vs =
    (if length vs < 2 then f_of_int F 0
     else f_div F (f_sum F (map (\<lambda>v. f_powi F (f_sub F v (stat_mean F vs)) 2) vs))
            (f_of_int F (int (length vs - 1))))"

definition stat_stddev :: "'f floats \<Rightarrow> 'f statistics \<Rightarrow> 'f" where
  "stat_stddev F vs = f_sqrt F (stat_variance F vs)"

record 'f sample =
  sm_timestamp :: int
  sm_payload_bytes :: 'f
  sm_flags :: "8 word"

definition stats_for :: "'f floats \<Rightarrow> 'f sample list \<Rightarrow> 'f \<times> 'f \<times> 'f \<times> 'f" where
  "stats_for F ss =
    (let vs = map sm_payload_bytes ss in (stat_mean F vs, stat_min F vs, stat_max F vs, stat_stddev F vs))"

definition stat_values :: "'f floats \<Rightarrow> 'f statistics \<Rightarrow> bool \<Rightarrow> 'f \<times> 'f \<times> 'f \<times> 'f \<times> 'f" where
  "stat_values F vs enabled =
    (let z = f_of_int F 0 in
     if \<not> enabled \<or> length vs = 0 then (z, z, z, z, z)
     else (stat_mean F vs, stat_min F vs, stat_max F vs, stat_stddev F vs, f_sum F vs))"

definition total_bytes_of :: "'f floats \<Rightarrow> 'f sample list \<Rightarrow> 'f" where
  "total_bytes_of F ss = f_sum F (map sm_payload_bytes ss)"

section \<open>Bulk transfers\<close>

record bulk_state =
  bk_start :: "int option"
  bk_last :: "int option"
  bk_packet_count :: "64 word"
  bk_size :: "64 word"
  bk_states :: "64 word"
  bk_total_packets :: "64 word"
  bk_total_bytes :: "64 word"
  bk_duration :: int

definition bulk_default :: bulk_state where
  "bulk_default =
    \<lparr>bk_start = None, bk_last = None, bk_packet_count = 0, bk_size = 0, bk_states = 0,
     bk_total_packets = 0, bk_total_bytes = 0, bk_duration = 0\<rparr>"

definition bulk_count :: "int \<Rightarrow> 64 word \<Rightarrow> bulk_state \<Rightarrow> bulk_state" where
  "bulk_count timestamp bytes_now b =
    (let b = b\<lparr>bk_packet_count := bk_packet_count b + 1, bk_size := bk_size b + bytes_now\<rparr>;
         b = (if bk_packet_count b = 4 then
                b\<lparr>bk_states := bk_states b + 1,
                  bk_total_packets := bk_total_packets b + bk_packet_count b,
                  bk_total_bytes := bk_total_bytes b + bk_size b,
                  bk_duration := wrap_i64 (bk_duration b + wrap_i64 (timestamp -
                    (case bk_start b of Some s \<Rightarrow> s | None \<Rightarrow> timestamp)))\<rparr>
              else if bk_packet_count b > 4 then
                b\<lparr>bk_total_packets := bk_total_packets b + 1,
                  bk_total_bytes := bk_total_bytes b + bytes_now,
                  bk_duration := wrap_i64 (bk_duration b + wrap_i64 (timestamp -
                    (case bk_last b of Some l \<Rightarrow> l | None \<Rightarrow> timestamp)))\<rparr>
              else b)
     in b\<lparr>bk_last := Some timestamp\<rparr>)"

definition bulk_add :: "'f floats \<Rightarrow> 'f sample \<Rightarrow> int option \<Rightarrow> bulk_state \<Rightarrow> bulk_state" where
  "bulk_add F s other_last b =
    (if f_le F (sm_payload_bytes s) (f_of_int F 0) then b
     else
       let timestamp = sm_timestamp s; bytes_now = f_to_u64 F (sm_payload_bytes s);
           b = (case (other_last, bk_start b) of
                  (Some other, Some start) \<Rightarrow> if other > start then b\<lparr>bk_start := None\<rparr> else b
                | _ \<Rightarrow> b)
       in if bk_start b = None \<or>
             (case bk_last b of Some t0 \<Rightarrow> saturating_sub_i64 timestamp t0 > 1000000000 | None \<Rightarrow> False)
          then b\<lparr>bk_start := Some timestamp, bk_last := Some timestamp, bk_packet_count := 1, bk_size := bytes_now\<rparr>
          else bulk_count timestamp bytes_now b)"

definition bulk_avg_bytes :: "'f floats \<Rightarrow> bulk_state \<Rightarrow> 'f" where
  "bulk_avg_bytes F b =
    (if bk_states b = 0 then f_of_int F 0
     else f_div F (f_of_int F (uint (bk_total_bytes b))) (f_of_int F (uint (bk_states b))))"

definition bulk_avg_packets :: "'f floats \<Rightarrow> bulk_state \<Rightarrow> 'f" where
  "bulk_avg_packets F b =
    (if bk_states b = 0 then f_of_int F 0
     else f_div F (f_of_int F (uint (bk_total_packets b))) (f_of_int F (uint (bk_states b))))"

definition bulk_avg_rate :: "'f floats \<Rightarrow> bulk_state \<Rightarrow> 'f" where
  "bulk_avg_rate F b =
    (if bk_duration b \<le> 0 then f_of_int F 0
     else f_div F (f_of_int F (uint (bk_total_bytes b)))
            (f_div F (f_of_int F (bk_duration b)) (f_of_int F 1000000000)))"

section \<open>Flows\<close>

record 'f flow =
  fl_first :: flow_packet
  fl_last_timestamp :: int
  fl_activity_timeout_ns :: int
  fl_forward :: "'f sample list"
  fl_backward :: "'f sample list"
  fl_flow_lengths :: "'f statistics"
  fl_flow_iat :: "'f statistics"
  fl_forward_iat :: "'f statistics"
  fl_backward_iat :: "'f statistics"
  fl_active :: "'f statistics"
  fl_idle :: "'f statistics"
  fl_active_start :: int
  fl_active_end :: int
  fl_forward_headers :: "64 word"
  fl_backward_headers :: "64 word"
  fl_flag_counts :: "64 word list"
  fl_forward_psh :: "64 word"
  fl_backward_psh :: "64 word"
  fl_forward_urg :: "64 word"
  fl_backward_urg :: "64 word"
  fl_initial_forward_window :: "16 word"
  fl_initial_backward_window :: "16 word"
  fl_active_forward_data :: "64 word"
  fl_min_forward_segment :: "64 word"
  fl_last_forward :: "int option"
  fl_last_backward :: "int option"
  fl_subflows :: "64 word"
  fl_forward_bulk :: bulk_state
  fl_backward_bulk :: bulk_state

definition is_forward :: "'f flow \<Rightarrow> flow_packet \<Rightarrow> bool" where
  "is_forward fl p =
    (fp_src_ip p = fp_src_ip (fl_first fl) \<and> fp_dst_ip p = fp_dst_ip (fl_first fl) \<and>
     fp_src_port p = fp_src_port (fl_first fl) \<and> fp_dst_port p = fp_dst_port (fl_first fl))"

definition check_flags :: "8 word \<Rightarrow> 64 word list \<Rightarrow> 64 word list" where
  "check_flags flags counts =
    map2 (\<lambda>flag count. if contains_flag flags flag then count + 1 else count)
      [flag_fin, flag_syn, flag_rst, flag_psh, flag_ack, flag_urg, flag_cwr, flag_ece] counts"

definition count_if :: "bool \<Rightarrow> 64 word \<Rightarrow> 64 word" where
  "count_if b n = (if b then n + 1 else n)"

text \<open>The part of \<^verbatim>\<open>add\<close> that looks at the gap since the packet before.\<close>

definition flow_gap :: "'f floats \<Rightarrow> flow_packet \<Rightarrow> 'f flow \<Rightarrow> 'f flow" where
  "flow_gap F p fl =
    (let gap = saturating_sub_i64 (fp_timestamp p) (fl_last_timestamp fl) in
     if fl_forward fl \<noteq> [] \<or> fl_backward fl \<noteq> [] then
       let fl = fl\<lparr>fl_flow_iat := fl_flow_iat fl @ [ns_to_micros F gap],
                  fl_subflows := count_if (gap > 1000000000) (fl_subflows fl)\<rparr>
       in if gap > fl_activity_timeout_ns fl
          then fl\<lparr>fl_active :=
                    (if fl_active_end fl > fl_active_start fl
                     then fl_active fl @ [ns_to_micros F (wrap_i64 (fl_active_end fl - fl_active_start fl))]
                     else fl_active fl),
                  fl_idle := fl_idle fl @ [ns_to_micros F gap],
                  fl_active_start := fp_timestamp p\<rparr>
          else fl
     else fl)"

definition flow_forward :: "'f floats \<Rightarrow> flow_packet \<Rightarrow> 'f sample \<Rightarrow> 'f flow \<Rightarrow> 'f flow" where
  "flow_forward F p s fl =
    (let fl = (case fl_last_forward fl of
           Some t0 \<Rightarrow> fl\<lparr>fl_forward_iat :=
             fl_forward_iat fl @ [ns_to_micros F (saturating_sub_i64 (fp_timestamp p) t0)]\<rparr>
         | None \<Rightarrow> fl);
         fl = (if fl_forward fl = [] then fl\<lparr>fl_initial_forward_window := fp_tcp_window p,
                 fl_min_forward_segment := fp_header_bytes p\<rparr> else fl)
     in fl\<lparr>fl_last_forward := Some (fp_timestamp p),
           fl_forward_headers := fl_forward_headers fl + fp_header_bytes p,
           fl_active_forward_data := count_if (fp_payload_bytes p > 0) (fl_active_forward_data fl),
           fl_forward_psh := count_if (contains_flag (fp_tcp_flags p) flag_psh) (fl_forward_psh fl),
           fl_forward_urg := count_if (contains_flag (fp_tcp_flags p) flag_urg) (fl_forward_urg fl),
           fl_min_forward_segment :=
             (if fl_min_forward_segment fl = 0 then fp_header_bytes p
              else min (fl_min_forward_segment fl) (fp_header_bytes p)),
           fl_forward_bulk := bulk_add F s (fl_last_backward fl) (fl_forward_bulk fl),
           fl_forward := fl_forward fl @ [s]\<rparr>)"

definition flow_backward :: "'f floats \<Rightarrow> flow_packet \<Rightarrow> 'f sample \<Rightarrow> 'f flow \<Rightarrow> 'f flow" where
  "flow_backward F p s fl =
    (let fl = (case fl_last_backward fl of
           Some t0 \<Rightarrow> fl\<lparr>fl_backward_iat :=
             fl_backward_iat fl @ [ns_to_micros F (saturating_sub_i64 (fp_timestamp p) t0)]\<rparr>
         | None \<Rightarrow> fl);
         fl = (if fl_backward fl = [] then fl\<lparr>fl_initial_backward_window := fp_tcp_window p\<rparr> else fl)
     in fl\<lparr>fl_last_backward := Some (fp_timestamp p),
           fl_backward_headers := fl_backward_headers fl + fp_header_bytes p,
           fl_backward_psh := count_if (contains_flag (fp_tcp_flags p) flag_psh) (fl_backward_psh fl),
           fl_backward_urg := count_if (contains_flag (fp_tcp_flags p) flag_urg) (fl_backward_urg fl),
           fl_backward_bulk := bulk_add F s (fl_last_forward fl) (fl_backward_bulk fl),
           fl_backward := fl_backward fl @ [s]\<rparr>)"

definition flow_add :: "'f floats \<Rightarrow> flow_packet \<Rightarrow> 'f flow \<Rightarrow> 'f flow" where
  "flow_add F p fl =
    (let s = \<lparr>sm_timestamp = fp_timestamp p, sm_payload_bytes = f_of_int F (uint (fp_payload_bytes p)),
              sm_flags = fp_tcp_flags p\<rparr>;
         fl' = flow_gap F p fl;
         fl' = fl'\<lparr>fl_active_end := fp_timestamp p, fl_last_timestamp := fp_timestamp p,
                  fl_flow_lengths := fl_flow_lengths fl' @ [sm_payload_bytes s],
                  fl_flag_counts := check_flags (fp_tcp_flags p) (fl_flag_counts fl')\<rparr>
     in if is_forward fl p then flow_forward F p s fl' else flow_backward F p s fl')"

definition flow_new :: "'f floats \<Rightarrow> flow_packet \<Rightarrow> int \<Rightarrow> 'f flow" where
  "flow_new F p activity_timeout_ns =
    flow_add F p
      \<lparr>fl_first = p, fl_last_timestamp = fp_timestamp p, fl_activity_timeout_ns = activity_timeout_ns,
       fl_forward = [], fl_backward = [], fl_flow_lengths = [], fl_flow_iat = [], fl_forward_iat = [],
       fl_backward_iat = [], fl_active = [], fl_idle = [], fl_active_start = fp_timestamp p,
       fl_active_end = fp_timestamp p, fl_forward_headers = 0, fl_backward_headers = 0,
       fl_flag_counts = replicate 8 0, fl_forward_psh = 0, fl_backward_psh = 0, fl_forward_urg = 0,
       fl_backward_urg = 0, fl_initial_forward_window = 0, fl_initial_backward_window = 0,
       fl_active_forward_data = 0, fl_min_forward_segment = 0, fl_last_forward = None,
       fl_last_backward = None, fl_subflows = 1, fl_forward_bulk = bulk_default,
       fl_backward_bulk = bulk_default\<rparr>"

definition has_both_fin :: "'f flow \<Rightarrow> bool" where
  "has_both_fin fl =
    (fl_flag_counts fl ! 0 > 0 \<and>
     list_ex (\<lambda>s. contains_flag (sm_flags s) flag_fin) (fl_forward fl) \<and>
     list_ex (\<lambda>s. contains_flag (sm_flags s) flag_fin) (fl_backward fl))"

section \<open>Rows\<close>

definition cicflowmeter_header :: "string list" where
  "cicflowmeter_header =
    [''Flow ID'', ''Src IP'', ''Src Port'', ''Dst IP'', ''Dst Port'', ''Protocol'', ''Timestamp'',
     ''Flow Duration'', ''Total Fwd Packet'', ''Total Bwd packets'', ''Total Length of Fwd Packet'',
     ''Total Length of Bwd Packet'', ''Fwd Packet Length Max'', ''Fwd Packet Length Min'',
     ''Fwd Packet Length Mean'', ''Fwd Packet Length Std'', ''Bwd Packet Length Max'',
     ''Bwd Packet Length Min'', ''Bwd Packet Length Mean'', ''Bwd Packet Length Std'', ''Flow Bytes/s'',
     ''Flow Packets/s'', ''Flow IAT Mean'', ''Flow IAT Std'', ''Flow IAT Max'', ''Flow IAT Min'',
     ''Fwd IAT Total'', ''Fwd IAT Mean'', ''Fwd IAT Std'', ''Fwd IAT Max'', ''Fwd IAT Min'',
     ''Bwd IAT Total'', ''Bwd IAT Mean'', ''Bwd IAT Std'', ''Bwd IAT Max'', ''Bwd IAT Min'',
     ''Fwd PSH Flags'', ''Bwd PSH Flags'', ''Fwd URG Flags'', ''Bwd URG Flags'', ''Fwd Header Length'',
     ''Bwd Header Length'', ''Fwd Packets/s'', ''Bwd Packets/s'', ''Packet Length Min'',
     ''Packet Length Max'', ''Packet Length Mean'', ''Packet Length Std'', ''Packet Length Variance'',
     ''FIN Flag Count'', ''SYN Flag Count'', ''RST Flag Count'', ''PSH Flag Count'', ''ACK Flag Count'',
     ''URG Flag Count'', ''CWR Flag Count'', ''ECE Flag Count'', ''Down/Up Ratio'',
     ''Average Packet Size'', ''Fwd Segment Size Avg'', ''Bwd Segment Size Avg'', ''Fwd Header Length.1'',
     ''Fwd Bytes/Bulk Avg'', ''Fwd Packet/Bulk Avg'', ''Fwd Bulk Rate Avg'', ''Bwd Bytes/Bulk Avg'',
     ''Bwd Packet/Bulk Avg'', ''Bwd Bulk Rate Avg'', ''Subflow Fwd Packets'', ''Subflow Fwd Bytes'',
     ''Subflow Bwd Packets'', ''Subflow Bwd Bytes'', ''FWD Init Win Bytes'', ''Bwd Init Win Bytes'',
     ''Fwd Act Data Pkts'', ''Fwd Seg Size Min'', ''Active Mean'', ''Active Std'', ''Active Max'',
     ''Active Min'', ''Idle Mean'', ''Idle Std'', ''Idle Max'', ''Idle Min'', ''Label'']"

definition flow_finish :: "'f floats \<Rightarrow> string \<Rightarrow> 'f flow \<Rightarrow> string list" where
  "flow_finish F label fl =
    (let active_stats = (if fl_active_end fl > fl_active_start fl
           then fl_active fl @ [ns_to_micros F (wrap_i64 (fl_active_end fl - fl_active_start fl))]
           else fl_active fl);
         first = fl_first fl;
         duration_ns = saturating_sub_i64 (fl_last_timestamp fl) (fp_timestamp first);
         duration_us = max duration_ns 0 div 1000;
         duration_s = f_div F (f_of_int F duration_ns) (f_of_int F 1000000000);
         fwd = fl_forward fl; bwd = fl_backward fl;
         packet_count = length fwd + length bwd;
         zero = f_of_int F 0;
         f64 = (\<lambda>n. f_of_int F (int n));
         total_bytes = f_sum F (fl_flow_lengths fl);
         (fwd_mean, fwd_min, fwd_max, fwd_std) = stats_for F fwd;
         (bwd_mean, bwd_min, bwd_max, bwd_std) = stats_for F bwd;
         (fi_mean, fi_min, fi_max, fi_std, fi_sum) = stat_values F (fl_forward_iat fl) (length fwd > 1);
         (bi_mean, bi_min, bi_max, bi_std, bi_sum) = stat_values F (fl_backward_iat fl) (length bwd > 1);
         (iat_mean, iat_min, iat_max, iat_std, _) = stat_values F (fl_flow_iat fl) True;
         (ac_mean, ac_min, ac_max, ac_std, _) = stat_values F active_stats True;
         (id_mean, id_min, id_max, id_std, _) = stat_values F (fl_idle fl) True;
         rate = (\<lambda>v. if f_less F zero duration_s then f_div F v duration_s else zero);
         u64 = (\<lambda>w :: 64 word. show_int F (uint w));
         u16 = (\<lambda>w :: 16 word. show_int F (uint w));
         lens = fl_flow_lengths fl; counts = fl_flag_counts fl;
         fb = fl_forward_bulk fl; bb = fl_backward_bulk fl;
         per_subflow = (\<lambda>v. if fl_subflows fl = 0 then zero
           else f_div F v (f_of_int F (uint (fl_subflows fl))))
     in [show_addr F (fp_src_ip first) @ ''-'' @ show_addr F (fp_dst_ip first) @ ''-'' @
           u16 (fp_src_port first) @ ''-'' @ u16 (fp_dst_port first) @ ''-'' @
           show_int F (uint (fp_protocol first)),
         show_addr F (fp_src_ip first), u16 (fp_src_port first), show_addr F (fp_dst_ip first),
         u16 (fp_dst_port first), show_int F (uint (fp_protocol first)),
         format_timestamp F (fp_timestamp first), show_int F duration_us,
         show_int F (int (length fwd)), show_int F (int (length bwd)),
         fmt F (total_bytes_of F fwd), fmt F (total_bytes_of F bwd),
         fmt F fwd_max, fmt F fwd_min, fmt F fwd_mean, fmt F fwd_std,
         fmt F bwd_max, fmt F bwd_min, fmt F bwd_mean, fmt F bwd_std,
         fmt F (rate total_bytes), fmt F (rate (f64 packet_count)),
         fmt F iat_mean, fmt F iat_std, fmt F iat_max, fmt F iat_min,
         fmt F fi_sum, fmt F fi_mean, fmt F fi_std, fmt F fi_max, fmt F fi_min,
         fmt F bi_sum, fmt F bi_mean, fmt F bi_std, fmt F bi_max, fmt F bi_min,
         u64 (fl_forward_psh fl), u64 (fl_backward_psh fl), u64 (fl_forward_urg fl), u64 (fl_backward_urg fl),
         u64 (fl_forward_headers fl), u64 (fl_backward_headers fl),
         fmt F (rate (f64 (length fwd))), fmt F (rate (f64 (length bwd))),
         fmt F (stat_min F lens), fmt F (stat_max F lens), fmt F (stat_mean F lens),
         fmt F (stat_stddev F lens), fmt F (stat_variance F lens),
         u64 (counts ! 0), u64 (counts ! 1), u64 (counts ! 2), u64 (counts ! 3),
         u64 (counts ! 4), u64 (counts ! 5), u64 (counts ! 6), u64 (counts ! 7),
         fmt F (if fwd = [] then zero else f_div F (f64 (length bwd)) (f64 (length fwd))),
         fmt F (if packet_count = 0 then zero else f_div F total_bytes (f64 packet_count)),
         fmt F (if fwd = [] then zero else f_div F (total_bytes_of F fwd) (f64 (length fwd))),
         fmt F (if bwd = [] then zero else f_div F (total_bytes_of F bwd) (f64 (length bwd))),
         u64 (fl_forward_headers fl),
         fmt F (bulk_avg_bytes F fb), fmt F (bulk_avg_packets F fb), fmt F (bulk_avg_rate F fb),
         fmt F (bulk_avg_bytes F bb), fmt F (bulk_avg_packets F bb), fmt F (bulk_avg_rate F bb),
         fmt F (per_subflow (f64 (length fwd))), fmt F (per_subflow (total_bytes_of F fwd)),
         fmt F (per_subflow (f64 (length bwd))), fmt F (per_subflow (total_bytes_of F bwd)),
         u16 (fl_initial_forward_window fl), u16 (fl_initial_backward_window fl),
         u64 (fl_active_forward_data fl), u64 (fl_min_forward_segment fl),
         fmt F ac_mean, fmt F ac_std, fmt F ac_max, fmt F ac_min,
         fmt F id_mean, fmt F id_std, fmt F id_max, fmt F id_min,
         label])"

definition csv_quote :: "string \<Rightarrow> string" where
  "csv_quote v =
    (if list_ex (\<lambda>c. c \<in> {CHR '','', CHR 0x22, CHR 0x0A, CHR 0x0D}) v
     then [CHR 0x22] @ concat (map (\<lambda>c. if c = CHR 0x22 then [CHR 0x22, CHR 0x22] else [c]) v) @ [CHR 0x22]
     else v)"

fun join_comma :: "string list \<Rightarrow> string" where
  "join_comma [] = []"
| "join_comma [v] = v"
| "join_comma (v # w # vs) = v @ CHR '','' # join_comma (w # vs)"

definition to_csv :: "string list \<Rightarrow> string" where
  "to_csv values = join_comma (map csv_quote values)"

section \<open>The generator\<close>

record 'f flow_generator =
  fg_flows :: "flow_key \<Rightarrow> 'f flow option"
  fg_flow_timeout_ns :: int
  fg_activity_timeout_ns :: int

definition generator_new :: "int \<Rightarrow> int \<Rightarrow> 'f flow_generator" where
  "generator_new flow_timeout_ns activity_timeout_ns =
    \<lparr>fg_flows = Map.empty, fg_flow_timeout_ns = flow_timeout_ns,
     fg_activity_timeout_ns = activity_timeout_ns\<rparr>"

definition generator_default :: "'f flow_generator" where
  "generator_default = generator_new 120000000000 5000000000"

definition report :: "'f floats \<Rightarrow> string \<Rightarrow> 'f flow \<Rightarrow> string list list" where
  "report F label fl =
    (if length (fl_forward fl) + length (fl_backward fl) > 1 then [flow_finish F label fl] else [])"

definition generator_add ::
    "'f floats \<Rightarrow> string \<Rightarrow> flow_packet \<Rightarrow> 'f flow_generator \<Rightarrow> string list list \<times> 'f flow_generator" where
  "generator_add F label p g =
    (let key = key_from_packet p;
         found = fg_flows g key;
         g = g\<lparr>fg_flows := (fg_flows g)(key := None)\<rparr>;
         (completed, found) =
           (case found of
              Some existing \<Rightarrow>
                if saturating_sub_i64 (fp_timestamp p) (fl_last_timestamp existing) > fg_flow_timeout_ns g
                then (report F label existing, None)
                else ([], Some existing)
            | None \<Rightarrow> ([], None))
     in case found of
          Some existing \<Rightarrow>
            let is_rst = contains_flag (fp_tcp_flags p) flag_rst;
                existing = flow_add F p existing
            in if is_rst \<or> has_both_fin existing
               then (completed @ report F label existing, g)
               else (completed, g\<lparr>fg_flows := (fg_flows g)(key \<mapsto> existing)\<rparr>)
        | None \<Rightarrow>
            (completed, g\<lparr>fg_flows := (fg_flows g)(key \<mapsto> flow_new F p (fg_activity_timeout_ns g))\<rparr>))"

text \<open>\<^verbatim>\<open>entries\<close> is the order in which the hash map yields the open flows.\<close>

definition generator_finish ::
    "'f floats \<Rightarrow> string \<Rightarrow> (flow_key \<times> 'f flow) list \<Rightarrow> string list list" where
  "generator_finish F label entries =
    sort_key (\<lambda>row. (row ! 6, row ! 0)) (concat (map (\<lambda>(_, fl). report F label fl) entries))"

section \<open>A capture file\<close>

fun meter_records ::
    "(parsers \<Rightarrow> nat \<Rightarrow> parse_fn) \<Rightarrow> registry \<Rightarrow> 'f floats \<Rightarrow> string \<Rightarrow> packet_record list \<Rightarrow> 'f flow_generator \<Rightarrow>
     (string list \<times> 'f flow_generator) tool_result" where
  "meter_records ext reg F label [] g = TOk ([], g)"
| "meter_records ext reg F label (r # rs) g =
    t_bind (from_record ext reg r) (\<lambda>res.
    let (rows, g) = (case res of
          Inr (Some p) \<Rightarrow> generator_add F label p g
        | _ \<Rightarrow> ([], g));
        written = map to_csv (filter (\<lambda>row. length row = length cicflowmeter_header) rows)
    in t_bind (meter_records ext reg F label rs g) (\<lambda>(more, g). TOk (written @ more, g)))"

end
