(* ===== verification/Flow_Meter_Sound.thy ===== *)
theory Flow_Meter_Sound
  imports Flow_Meter Rewriter_Sound "HOL-Library.Multiset"
begin

text \<open>
  What the flow feature extractor reports: the packets of a conversation, cut where the code closes a
  flow, and rows that a CSV reader gets back field by field.
\<close>

section \<open>A flow is its packets\<close>

definition flow_of :: "'f floats \<Rightarrow> int \<Rightarrow> flow_packet list \<Rightarrow> 'f flow" where
  "flow_of F act ps = foldl (\<lambda>fl p. flow_add F p fl) (flow_new F (hd ps) act) (tl ps)"

definition sample_of :: "'f floats \<Rightarrow> flow_packet \<Rightarrow> 'f sample" where
  "sample_of F p =
    \<lparr>sm_timestamp = fp_timestamp p, sm_payload_bytes = f_of_int F (uint (fp_payload_bytes p)),
     sm_flags = fp_tcp_flags p\<rparr>"

definition same_direction :: "flow_packet \<Rightarrow> flow_packet \<Rightarrow> bool" where
  "same_direction first p =
    (fp_src_ip p = fp_src_ip first \<and> fp_dst_ip p = fp_dst_ip first \<and>
     fp_src_port p = fp_src_port first \<and> fp_dst_port p = fp_dst_port first)"

lemma count_if_eq: "count_if b n = n + of_bool b"
  by (simp add: count_if_def)

text \<open>What one packet does to the fields that the generator looks at.\<close>

lemma flow_gap_keeps [simp]:
  "fl_first (flow_gap F p fl) = fl_first fl" "fl_forward (flow_gap F p fl) = fl_forward fl"
  "fl_backward (flow_gap F p fl) = fl_backward fl" "fl_flag_counts (flow_gap F p fl) = fl_flag_counts fl"
  "fl_flow_lengths (flow_gap F p fl) = fl_flow_lengths fl"
  by (simp_all add: flow_gap_def Let_def)

lemma flow_forward_keeps [simp]:
  "fl_first (flow_forward F p s fl) = fl_first fl" "fl_forward (flow_forward F p s fl) = fl_forward fl @ [s]"
  "fl_backward (flow_forward F p s fl) = fl_backward fl" "fl_flag_counts (flow_forward F p s fl) = fl_flag_counts fl"
  "fl_last_timestamp (flow_forward F p s fl) = fl_last_timestamp fl"
  by (simp_all add: flow_forward_def Let_def split: option.split)

lemma flow_backward_keeps [simp]:
  "fl_first (flow_backward F p s fl) = fl_first fl" "fl_forward (flow_backward F p s fl) = fl_forward fl"
  "fl_backward (flow_backward F p s fl) = fl_backward fl @ [s]"
  "fl_flag_counts (flow_backward F p s fl) = fl_flag_counts fl"
  "fl_last_timestamp (flow_backward F p s fl) = fl_last_timestamp fl"
  by (simp_all add: flow_backward_def Let_def split: option.split)

lemma is_forward_iff: "is_forward fl p = same_direction (fl_first fl) p"
  by (simp add: is_forward_def same_direction_def)

lemma flow_add_fields:
  "fl_first (flow_add F p fl) = fl_first fl"
  "fl_last_timestamp (flow_add F p fl) = fp_timestamp p"
  "fl_flag_counts (flow_add F p fl) = check_flags (fp_tcp_flags p) (fl_flag_counts fl)"
  "fl_forward (flow_add F p fl) =
    fl_forward fl @ (if same_direction (fl_first fl) p then [sample_of F p] else [])"
  "fl_backward (flow_add F p fl) =
    fl_backward fl @ (if same_direction (fl_first fl) p then [] else [sample_of F p])"
  by (simp_all add: flow_add_def Let_def is_forward_iff sample_of_def)

lemma flow_of_single: "flow_of F act [p] = flow_new F p act"
  by (simp add: flow_of_def)

lemma flow_of_snoc: "ps \<noteq> [] \<Longrightarrow> flow_of F act (ps @ [p]) = flow_add F p (flow_of F act ps)"
  by (simp add: flow_of_def)

lemma same_direction_refl [simp]: "same_direction p p"
  by (simp add: same_direction_def)

lemma flow_of_fields:
  assumes "ps \<noteq> []"
  shows "fl_first (flow_of F act ps) = hd ps"
    "fl_last_timestamp (flow_of F act ps) = fp_timestamp (last ps)"
    "fl_forward (flow_of F act ps) = map (sample_of F) (filter (same_direction (hd ps)) ps)"
    "fl_backward (flow_of F act ps) = map (sample_of F) (filter (\<lambda>p. \<not> same_direction (hd ps) p) ps)"
    "length (fl_flag_counts (flow_of F act ps)) = 8"
    "fl_flag_counts (flow_of F act ps) ! 0 =
      word_of_nat (length (filter (\<lambda>p. contains_flag (fp_tcp_flags p) flag_fin) ps))"
  using assms
proof (induction ps rule: rev_nonempty_induct)
  case (single p)
  note new = flow_of_single flow_new_def flow_add_fields
  { case 1 show ?case by (simp add: new) }
  { case 2 show ?case by (simp add: new) }
  { case 3 show ?case by (simp add: new) }
  { case 4 show ?case by (simp add: new) }
  { case 5 show ?case by (simp add: new check_flags_def) }
  { case 6 show ?case by (simp add: new check_flags_def eval_nat_numeral) }
next
  case (snoc p ps)
  then have ne: "ps \<noteq> []" by simp
  note step = flow_of_snoc [OF ne] flow_add_fields
  { case 1 show ?case using snoc ne by (simp add: step) }
  { case 2 show ?case by (simp add: step ne) }
  { case 3 show ?case using snoc ne by (simp add: step) }
  { case 4 show ?case using snoc ne by (simp add: step) }
  { case 5 show ?case using snoc ne by (simp add: step check_flags_def) }
  { case 6 show ?case
      using snoc ne by (cases "fl_flag_counts (flow_of F act ps)") (simp_all add: step check_flags_def) }
qed

text \<open>Both sides have sent a FIN.\<close>

definition both_fin :: "flow_packet list \<Rightarrow> bool" where
  "both_fin ps =
    ((\<exists>p \<in> set ps. contains_flag (fp_tcp_flags p) flag_fin \<and> same_direction (hd ps) p) \<and>
     (\<exists>p \<in> set ps. contains_flag (fp_tcp_flags p) flag_fin \<and> \<not> same_direction (hd ps) p))"

lemma has_both_fin_iff:
  assumes "ps \<noteq> []" and "length ps < 2 ^ 64"
  shows "has_both_fin (flow_of F act ps) \<longleftrightarrow> both_fin ps"
proof -
  let ?fin = "filter (\<lambda>p. contains_flag (fp_tcp_flags p) flag_fin) ps"
  have "length ?fin < 2 ^ LENGTH(64)" using le_less_trans [OF length_filter_le assms(2)] by simp
  then have "unat (word_of_nat (length ?fin) :: 64 word) = length ?fin" by (intro unat_of_nat_less) simp
  then have "0 < fl_flag_counts (flow_of F act ps) ! 0 \<longleftrightarrow> ?fin \<noteq> []"
    unfolding flow_of_fields(6) [OF assms(1)] word_less_nat_alt by simp
  moreover have "list_ex (\<lambda>s. contains_flag (sm_flags s) flag_fin) (map (sample_of F) qs) \<longleftrightarrow>
      (\<exists>p \<in> set qs. contains_flag (fp_tcp_flags p) flag_fin)" for qs
    by (auto simp: list_ex_iff sample_of_def)
  ultimately show ?thesis
    using assms(1) by (auto simp: has_both_fin_def flow_of_fields both_fin_def filter_empty_conv)
qed

lemma report_of:
  assumes "ps \<noteq> []"
  shows "report F label (flow_of F act ps) = (if length ps > 1 then [flow_finish F label (flow_of F act ps)] else [])"
proof -
  have "length (filter (same_direction (hd ps)) ps) + length (filter (\<lambda>p. \<not> same_direction (hd ps) p) ps) = length ps"
    by (rule sum_length_filter_compl)
  then show ?thesis using assms by (simp add: report_def flow_of_fields)
qed

section \<open>Cutting a conversation\<close>

text \<open>
  The packets of one conversation, cut into flows: a flow ends in front of a packet that comes more
  than the timeout after the one before, and behind a packet, other than its first, that is a reset
  or completes the FINs of both sides.
\<close>

fun conversations :: "int \<Rightarrow> flow_packet list \<Rightarrow> flow_packet list \<Rightarrow> flow_packet list list" where
  "conversations timeout cur [] = (if cur = [] then [] else [cur])"
| "conversations timeout cur (p # ps) =
    (if cur = [] then conversations timeout [p] ps
     else if saturating_sub_i64 (fp_timestamp p) (fp_timestamp (last cur)) > timeout
       then cur # conversations timeout [p] ps
     else if contains_flag (fp_tcp_flags p) flag_rst \<or> both_fin (cur @ [p])
       then (cur @ [p]) # conversations timeout [] ps
     else conversations timeout (cur @ [p]) ps)"

lemma conversations_concat: "concat (conversations timeout cur ps) = cur @ ps"
  by (induction timeout cur ps rule: conversations.induct) simp_all

lemma conversations_nonempty: "c \<in> set (conversations timeout cur ps) \<Longrightarrow> c \<noteq> []"
  by (induction timeout cur ps rule: conversations.induct) (auto split: if_splits)

definition conversation_rows :: "'f floats \<Rightarrow> string \<Rightarrow> int \<Rightarrow> flow_packet list list \<Rightarrow> string list list" where
  "conversation_rows F label act cs = map (\<lambda>c. flow_finish F label (flow_of F act c)) (filter (\<lambda>c. length c > 1) cs)"

lemma conversation_rows_simps [simp]:
  "conversation_rows F label act [] = []"
  "conversation_rows F label act (c # cs) =
    (if length c > 1 then [flow_finish F label (flow_of F act c)] else []) @ conversation_rows F label act cs"
  by (simp_all add: conversation_rows_def)

section \<open>The generator\<close>

fun generator_run ::
    "'f floats \<Rightarrow> string \<Rightarrow> flow_packet list \<Rightarrow> 'f flow_generator \<Rightarrow> string list list \<times> 'f flow_generator" where
  "generator_run F label [] g = ([], g)"
| "generator_run F label (p # ps) g =
    (case generator_add F label p g of
       (rows, g) \<Rightarrow> (case generator_run F label ps g of (others, g) \<Rightarrow> (rows @ others, g)))"

text \<open>The open flows are the packets of every conversation since its last flow ended.\<close>

definition tracks :: "'f floats \<Rightarrow> 'f flow_generator \<Rightarrow> (flow_key \<Rightarrow> flow_packet list) \<Rightarrow> bool" where
  "tracks F g cur =
    (\<forall>k. fg_flows g k = (if cur k = [] then None else Some (flow_of F (fg_activity_timeout_ns g) (cur k))))"

lemma generator_add_tracks:
  assumes "tracks F g cur" and "length (cur (key_from_packet p)) + 1 < 2 ^ 64"
  shows "\<exists>rows g' cur'. generator_add F label p g = (rows, g') \<and> tracks F g' cur' \<and>
    fg_flow_timeout_ns g' = fg_flow_timeout_ns g \<and> fg_activity_timeout_ns g' = fg_activity_timeout_ns g \<and>
    (\<forall>k. k \<noteq> key_from_packet p \<longrightarrow> cur' k = cur k) \<and>
    length (cur' (key_from_packet p)) \<le> length (cur (key_from_packet p)) + 1 \<and>
    (\<forall>ps. conversation_rows F label (fg_activity_timeout_ns g)
        (conversations (fg_flow_timeout_ns g) (cur (key_from_packet p)) (p # ps)) =
      rows @ conversation_rows F label (fg_activity_timeout_ns g)
        (conversations (fg_flow_timeout_ns g) (cur' (key_from_packet p)) ps))"
proof -
  let ?k = "key_from_packet p" and ?A = "fg_activity_timeout_ns g" and ?T = "fg_flow_timeout_ns g"
  let ?c = "cur ?k"
  have found: "fg_flows g ?k = (if ?c = [] then None else Some (flow_of F ?A ?c))" using assms(1) by (simp add: tracks_def)
  consider (new) "?c = []"
    | (timeout) "?c \<noteq> []" "saturating_sub_i64 (fp_timestamp p) (fp_timestamp (last ?c)) > ?T"
    | (closed) "?c \<noteq> []" "\<not> saturating_sub_i64 (fp_timestamp p) (fp_timestamp (last ?c)) > ?T"
      "contains_flag (fp_tcp_flags p) flag_rst \<or> both_fin (?c @ [p])"
    | (going) "?c \<noteq> []" "\<not> saturating_sub_i64 (fp_timestamp p) (fp_timestamp (last ?c)) > ?T"
      "\<not> (contains_flag (fp_tcp_flags p) flag_rst \<or> both_fin (?c @ [p]))" by blast
  then show ?thesis
  proof cases
    case new
    then show ?thesis
      using found assms(1)
      by (intro exI [of _ "[]"] exI [of _ "snd (generator_add F label p g)"] exI [of _ "cur(?k := [p])"])
        (auto simp: generator_add_def Let_def tracks_def flow_of_single)
  next
    case timeout
    then show ?thesis
      using found assms(1) report_of [OF timeout(1), of F label ?A]
      by (intro exI [of _ "report F label (flow_of F ?A ?c)"] exI [of _ "snd (generator_add F label p g)"]
          exI [of _ "cur(?k := [p])"])
        (auto simp: generator_add_def Let_def tracks_def flow_of_single flow_of_fields)
  next
    case closed
    have fin: "has_both_fin (flow_of F ?A (?c @ [p])) = both_fin (?c @ [p])"
      using has_both_fin_iff [of "?c @ [p]" F ?A] assms(2) by simp
    show ?thesis
      using closed found assms(1) fin report_of [of "?c @ [p]" F label ?A] flow_of_snoc [OF closed(1), of F ?A p]
      by (intro exI [of _ "report F label (flow_of F ?A (?c @ [p]))"] exI [of _ "snd (generator_add F label p g)"]
          exI [of _ "cur(?k := [])"])
        (auto simp: generator_add_def Let_def tracks_def flow_of_fields)
  next
    case going
    have fin: "has_both_fin (flow_of F ?A (?c @ [p])) = both_fin (?c @ [p])"
      using has_both_fin_iff [of "?c @ [p]" F ?A] assms(2) by simp
    show ?thesis
      using going found assms(1) fin flow_of_snoc [OF going(1), of F ?A p]
      by (intro exI [of _ "[]"] exI [of _ "snd (generator_add F label p g)"] exI [of _ "cur(?k := ?c @ [p])"])
        (auto simp: generator_add_def Let_def tracks_def flow_of_fields)
  qed
qed

lemma mset_entries:
  assumes "distinct (map fst es)" and "finite K" and "fst ` set es \<subseteq> K"
  shows "mset (concat (map (\<lambda>(_, fl). h fl) es)) =
    (\<Sum>k \<in> K. case map_of es k of None \<Rightarrow> {#} | Some fl \<Rightarrow> mset (h fl))"
  using assms
proof (induction es)
  case (Cons e es)
  obtain k0 fl where e: "e = (k0, fl)" by fastforce
  have K: "k0 \<in> K" "K = insert k0 (K - {k0})" using Cons.prems(3) e by auto
  have fresh: "map_of es k0 = None" using Cons.prems(1) e by (simp add: map_of_eq_None_iff)
  have "mset (concat (map (\<lambda>(_, fl). h fl) es)) =
      (\<Sum>k \<in> K. case map_of es k of None \<Rightarrow> {#} | Some fl \<Rightarrow> mset (h fl))"
    using Cons by (simp add: e)
  also have "\<dots> = (\<Sum>k \<in> K - {k0}. case map_of es k of None \<Rightarrow> {#} | Some fl \<Rightarrow> mset (h fl))"
    using sum.remove [OF Cons.prems(2) K(1), of "\<lambda>k. case map_of es k of None \<Rightarrow> {#} | Some fl \<Rightarrow> mset (h fl)"] fresh
    by simp
  also have "\<dots> = (\<Sum>k \<in> K - {k0}. case map_of (e # es) k of None \<Rightarrow> {#} | Some fl \<Rightarrow> mset (h fl))"
    by (intro sum.cong refl) (simp add: e)
  finally have "mset (concat (map (\<lambda>(_, fl). h fl) es)) =
      (\<Sum>k \<in> K - {k0}. case map_of (e # es) k of None \<Rightarrow> {#} | Some fl \<Rightarrow> mset (h fl))" .
  then show ?case
    using sum.remove [OF Cons.prems(2) K(1), of "\<lambda>k. case map_of (e # es) k of None \<Rightarrow> {#} | Some fl \<Rightarrow> mset (h fl)"]
    by (simp add: e)
qed simp

lemma conversation_rows_append:
  "conversation_rows F label act (cs @ ds) = conversation_rows F label act cs @ conversation_rows F label act ds"
  by (simp add: conversation_rows_def)

lemma generator_run_rows:
  assumes "tracks F g cur" and "\<forall>k. length (cur k) + length ps < 2 ^ 64" and "finite K"
    and "\<forall>p \<in> set ps. key_from_packet p \<in> K" and "\<forall>k. cur k \<noteq> [] \<longrightarrow> k \<in> K"
    and "generator_run F label ps g = (rows, g')"
    and "distinct (map fst entries)" and "map_of entries = fg_flows g'"
  shows "mset rows + mset (generator_finish F label entries) =
    (\<Sum>k \<in> K. mset (conversation_rows F label (fg_activity_timeout_ns g)
      (conversations (fg_flow_timeout_ns g) (cur k) (filter (\<lambda>p. key_from_packet p = k) ps))))"
  using assms(1,2,4-6)
proof (induction ps arbitrary: g cur rows)
  case Nil
  then have g: "rows = []" "g' = g" by simp_all
  have "fst ` set entries \<subseteq> K"
  proof
    fix k assume "k \<in> fst ` set entries"
    then obtain fl where "(k, fl) \<in> set entries" by auto
    then have "fg_flows g k = Some fl" using map_of_is_SomeI [OF assms(7)] assms(8) g by simp
    then show "k \<in> K" using Nil(1,4) by (simp add: tracks_def split: if_splits)
  qed
  then have "mset (generator_finish F label entries) =
      (\<Sum>k \<in> K. case map_of entries k of None \<Rightarrow> {#} | Some fl \<Rightarrow> mset (report F label fl))"
    using mset_entries [OF assms(7,3)] by (simp add: generator_finish_def)
  also have "\<dots> = (\<Sum>k \<in> K. mset (conversation_rows F label (fg_activity_timeout_ns g)
      (conversations (fg_flow_timeout_ns g) (cur k) [])))"
    using Nil(1) assms(8) g by (intro sum.cong refl) (auto simp: tracks_def report_of)
  finally show ?case using g by simp
next
  case (Cons p ps)
  let ?k = "key_from_packet p" and ?A = "fg_activity_timeout_ns g" and ?T = "fg_flow_timeout_ns g"
  let ?rows = "\<lambda>cur ps k. mset (conversation_rows F label ?A (conversations ?T (cur k) (filter (\<lambda>p. key_from_packet p = k) ps)))"
  have "length (cur ?k) + 1 < 2 ^ 64" using Cons.prems(2) by (metis add_mono_thms_linordered_semiring(2) le_add2 le_less_trans length_Cons plus_1_eq_Suc add.commute le_add1)
  from generator_add_tracks [OF Cons.prems(1) this] obtain rows1 g1 cur1 where
    add: "generator_add F label p g = (rows1, g1)" and g1: "tracks F g1 cur1" "fg_flow_timeout_ns g1 = ?T"
      "fg_activity_timeout_ns g1 = ?A"
    and other: "\<forall>k. k \<noteq> ?k \<longrightarrow> cur1 k = cur k" and len: "length (cur1 ?k) \<le> length (cur ?k) + 1"
    and cut: "\<forall>ps. conversation_rows F label ?A (conversations ?T (cur ?k) (p # ps)) =
      rows1 @ conversation_rows F label ?A (conversations ?T (cur1 ?k) ps)" by blast
  obtain rows2 where run: "generator_run F label ps g1 = (rows2, g')" "rows = rows1 @ rows2"
    using Cons.prems(5) add by (auto split: prod.splits)
  have K: "?k \<in> K" using Cons.prems(3) by simp
  have bound: "\<forall>k. length (cur1 k) + length ps < 2 ^ 64"
  proof
    fix k
    have "length (cur1 k) \<le> length (cur k) + 1" using other len by (cases "k = ?k") simp_all
    then show "length (cur1 k) + length ps < 2 ^ 64" using Cons.prems(2) [rule_format, of k] by simp
  qed
  have dom: "\<forall>k. cur1 k \<noteq> [] \<longrightarrow> k \<in> K" using Cons.prems(4) other K by metis
  have "mset rows2 + mset (generator_finish F label entries) = (\<Sum>k \<in> K. ?rows cur1 ps k)"
    using Cons.IH [OF g1(1) bound _ dom run(1)] Cons.prems(3) g1(2,3) by simp
  also have "\<dots> = ?rows cur1 ps ?k + (\<Sum>k \<in> K - {?k}. ?rows cur1 ps k)"
    by (rule sum.remove [OF assms(3) K])
  also have "(\<Sum>k \<in> K - {?k}. ?rows cur1 ps k) = (\<Sum>k \<in> K - {?k}. ?rows cur (p # ps) k)"
    using other by (intro sum.cong refl) auto
  finally have "mset rows1 + (mset rows2 + mset (generator_finish F label entries)) =
      (mset rows1 + ?rows cur1 ps ?k) + (\<Sum>k \<in> K - {?k}. ?rows cur (p # ps) k)" by (simp add: ac_simps)
  also have "mset rows1 + ?rows cur1 ps ?k = ?rows cur (p # ps) ?k"
    using cut by simp
  also have "?rows cur (p # ps) ?k + (\<Sum>k \<in> K - {?k}. ?rows cur (p # ps) k) = (\<Sum>k \<in> K. ?rows cur (p # ps) k)"
    by (rule sum.remove [OF assms(3) K, symmetric])
  finally show ?case using run(2) by (simp add: ac_simps)
qed

section \<open>A CSV reader\<close>

text \<open>One record of RFC 4180: a field in quotes may hold commas, line breaks and doubled quotes.\<close>

datatype csv_mode = FieldStart | Plain | Quoted | QuoteInQuoted

fun csv_read :: "csv_mode \<Rightarrow> string \<Rightarrow> string \<Rightarrow> string list" where
  "csv_read m acc [] = [acc]"
| "csv_read FieldStart acc (c # cs) =
    (if c = CHR 0x22 then csv_read Quoted acc cs
     else if c = CHR '','' then acc # csv_read FieldStart [] cs
     else csv_read Plain (acc @ [c]) cs)"
| "csv_read Plain acc (c # cs) =
    (if c = CHR '','' then acc # csv_read FieldStart [] cs else csv_read Plain (acc @ [c]) cs)"
| "csv_read Quoted acc (c # cs) =
    (if c = CHR 0x22 then csv_read QuoteInQuoted acc cs else csv_read Quoted (acc @ [c]) cs)"
| "csv_read QuoteInQuoted acc (c # cs) =
    (if c = CHR 0x22 then csv_read Quoted (acc @ [c]) cs
     else if c = CHR '','' then acc # csv_read FieldStart [] cs
     else csv_read Plain (acc @ [c]) cs)"

definition csv_fields :: "string \<Rightarrow> string list" where
  "csv_fields s = csv_read FieldStart [] s"

definition special :: "char \<Rightarrow> bool" where
  "special c = (c \<in> {CHR '','', CHR 0x22, CHR 0x0A, CHR 0x0D})"

lemma csv_read_plain:
  "\<forall>c \<in> set v. \<not> special c \<Longrightarrow>
    csv_read Plain acc (v @ cs) = csv_read Plain (acc @ v) cs"
  by (induction v arbitrary: acc) (auto simp: special_def)

lemma csv_read_quoted:
  "csv_read Quoted acc (concat (map (\<lambda>c. if c = CHR 0x22 then [CHR 0x22, CHR 0x22] else [c]) v) @ cs) =
    csv_read Quoted (acc @ v) cs"
  by (induction v arbitrary: acc) simp_all

text \<open>A quoted field, behind which the record ends or goes on with a comma.\<close>

lemma csv_read_field:
  "csv_read FieldStart [] (csv_quote v) = [v]"
  "csv_read FieldStart [] (csv_quote v @ CHR '','' # cs) = v # csv_read FieldStart [] cs"
proof -
  have plain: "csv_read FieldStart [] (v @ cs) = csv_read Plain v cs"
    if "v \<noteq> []" "\<forall>c \<in> set v. \<not> special c" for v cs
    using that csv_read_plain [of "tl v" "[hd v]" cs] by (cases v) (auto simp: special_def)
  show "csv_read FieldStart [] (csv_quote v) = [v]"
    using plain [of v "[]"] csv_read_quoted [of "[]" v "[CHR 0x22]"]
    by (cases "v = []") (auto simp: csv_quote_def list_ex_iff special_def)
  show "csv_read FieldStart [] (csv_quote v @ CHR '','' # cs) = v # csv_read FieldStart [] cs"
    using plain [of v "CHR '','' # cs"] csv_read_quoted [of "[]" v "CHR 0x22 # CHR '','' # cs"]
    by (cases "v = []") (auto simp: csv_quote_def list_ex_iff special_def)
qed

lemma csv_fields_to_csv: "vs \<noteq> [] \<Longrightarrow> csv_fields (to_csv vs) = vs"
proof (induction vs rule: induct_list012)
  case (2 v)
  then show ?case by (simp add: csv_fields_def to_csv_def csv_read_field)
next
  case (3 v w vs)
  then show ?case by (simp add: csv_fields_def to_csv_def csv_read_field)
qed simp

lemma length_let: "(\<And>x. length (f x) = n) \<Longrightarrow> length (Let t f) = n"
  by simp

lemma length_case_prod: "(\<And>a b. length (f a b) = n) \<Longrightarrow> length (case t of (a, b) \<Rightarrow> f a b) = n"
  by (simp split: prod.split)

lemma flow_finish_length: "length (flow_finish F label fl) = length cicflowmeter_header"
  unfolding flow_finish_def by (intro length_let length_case_prod) (simp add: cicflowmeter_header_def)

section \<open>Reading a record\<close>

lemma find_transport_mem:
  "find_transport ls = Some (l, before) \<Longrightarrow>
    l \<in> set ls \<and> (layer_protocol l = Tcp \<or> layer_protocol l = Udp) \<and> set before \<subseteq> set ls"
proof -
  let ?P = "\<lambda>l. \<not> (layer_is l Tcp \<or> layer_is l Udp)"
  assume "find_transport ls = Some (l, before)"
  then have d: "dropWhile ?P (rev ls) = l # rev before" by (auto simp: find_transport_def split: list.splits)
  then have "\<not> ?P l" by (metis dropWhile_eq_Cons_conv)
  moreover have "set (l # rev before) \<subseteq> set ls" using set_dropWhileD [of _ ?P "rev ls"] unfolding d by auto
  ultimately show ?thesis by (auto simp: layer_is_def)
qed

lemma find_network_mem:
  "find_network ls = Some l \<Longrightarrow> l \<in> set ls \<and> (layer_protocol l = Ipv4 \<or> layer_protocol l = Ipv6)"
  by (auto simp: find_network_def find_Some_iff layer_is_def) (metis length_rev nth_mem set_rev)+

lemma network_of_returns:
  assumes "shape pkt" and "l \<in> set (pkt_layers pkt)" and "layer_protocol l = Ipv4 \<or> layer_protocol l = Ipv6"
  shows "returns (\<lambda>(_, _, n). n \<le> length (pkt_bytes pkt)) (network_of pkt l)"
proof -
  note l = shape_layer [OF assms(1,2)]
  show ?thesis
  proof (cases "layer_protocol l = Ipv4")
    case True
    then have b: "20 \<le> length (lbytes l pkt)" using l by simp
    obtain t s d where "ipv4_total_length (lbytes l pkt) = Some t" "ipv4_src (lbytes l pkt) = Some s"
      "ipv4_dst (lbytes l pkt) = Some d"
      using network_fields_some(1) [OF b] header_fields_some(3,4) [OF b] by blast
    then show ?thesis using True l(4) by (simp add: network_of_def layer_is_def)
  next
    case False
    then have b: "40 \<le> length (lbytes l pkt)" using l assms(3) by simp
    obtain t s d where "ipv6_payload_length (lbytes l pkt) = Some t" "ipv6_src (lbytes l pkt) = Some s"
      "ipv6_dst (lbytes l pkt) = Some d"
      using network_fields_some(4) [OF b] header_fields_some(5,6) [OF b] by blast
    then show ?thesis using False l(4) by (simp add: network_of_def layer_is_def)
  qed
qed

definition packet_bounded :: "packet_record \<Rightarrow> flow_packet \<Rightarrow> bool" where
  "packet_bounded r p =
    (fp_timestamp p = pr_timestamp r \<and> fp_protocol p \<in> {6, 17} \<and> unat (fp_payload_bytes p) \<le> length (pr_data r))"

lemma unat_word_le: "unat (word_of_nat n :: 'a::len word) \<le> n"
  by (simp add: unsigned_of_nat take_bit_nat_less_eq_self)

lemma tcp_fields_some:
  "20 \<le> length b \<Longrightarrow> \<exists>n. tcp_header_len b = Some n"
  "20 \<le> length b \<Longrightarrow> \<exists>n. tcp_flags b = Some n"
  "20 \<le> length b \<Longrightarrow> \<exists>n. tcp_window_size b = Some n"
  by (simp_all add: tcp_header_len_def tcp_flags_def tcp_window_size_def)

lemma flow_packet_returns:
  assumes "shape pkt" and "l \<in> set (pkt_layers pkt)" and "n \<le> length (pkt_bytes pkt)"
  shows "layer_protocol l = Tcp \<Longrightarrow>
      returns (\<lambda>p. fp_timestamp p = ts \<and> fp_protocol p \<in> {6, 17} \<and> unat (fp_payload_bytes p) \<le> length (pkt_bytes pkt))
        (tcp_flow_packet ts pkt l src dst n)"
    "layer_protocol l = Udp \<Longrightarrow>
      returns (\<lambda>p. fp_timestamp p = ts \<and> fp_protocol p \<in> {6, 17} \<and> unat (fp_payload_bytes p) \<le> length (pkt_bytes pkt))
        (udp_flow_packet ts pkt l src dst n)"
proof -
  note l = shape_layer [OF assms(1,2)]
  have le: "unat (word_of_nat (m - k) :: 64 word) \<le> length (pkt_bytes pkt)" if "m \<le> n" for m k
    using unat_word_le [of "m - k", where ?'a = 64] that assms(3) by linarith
  {
    assume "layer_protocol l = Tcp"
    then have b: "20 \<le> length (lbytes l pkt)" using l by simp
    obtain s d h fl w where "tcp_src_port (lbytes l pkt) = Some s" "tcp_dst_port (lbytes l pkt) = Some d"
      "tcp_header_len (lbytes l pkt) = Some h" "tcp_flags (lbytes l pkt) = Some fl" "tcp_window_size (lbytes l pkt) = Some w"
      using ports_some(1,2) [of "lbytes l pkt"] tcp_fields_some [OF b] b by fastforce
    then show "returns (\<lambda>p. fp_timestamp p = ts \<and> fp_protocol p \<in> {6, 17} \<and>
        unat (fp_payload_bytes p) \<le> length (pkt_bytes pkt)) (tcp_flow_packet ts pkt l src dst n)"
      using l(4) le [of n] by (simp add: tcp_flow_packet_def)
  }
  {
    assume "layer_protocol l = Udp"
    then have b: "8 \<le> length (lbytes l pkt)" using l by simp
    obtain s d h where "udp_src_port (lbytes l pkt) = Some s" "udp_dst_port (lbytes l pkt) = Some d"
      "udp_length (lbytes l pkt) = Some h"
      using ports_some(3,4) [of "lbytes l pkt"] header_fields_some(8) [OF b] b by fastforce
    then show "returns (\<lambda>p. fp_timestamp p = ts \<and> fp_protocol p \<in> {6, 17} \<and>
        unat (fp_payload_bytes p) \<le> length (pkt_bytes pkt)) (udp_flow_packet ts pkt l src dst n)"
      using l(4) le [of "min (unat h) (n - layer_offset l)" 8] diff_le_self [of n "layer_offset l"]
      by (simp add: udp_flow_packet_def Let_def min.coboundedI2)
  }
qed

lemma from_record_returns:
  assumes "extension ext"
  shows "returns (\<lambda>res. \<forall>p. res = Inr (Some p) \<longrightarrow> packet_bounded r p) (from_record ext reg r)"
proof -
  let ?new = "new_packet (pr_data r)"
  obtain c' out where run: "try_parse_with_link_type ext reg (pr_link_type r) default_options ?new =
      (?new\<lparr>pkt_layers := ctx_layers c'\<rparr>, out)"
    and ok: "parse_ok (new_context (pkt_bytes ?new) default_options (pkt_layers ?new)) 0 (c', out)"
    by (rule link_type_root_ok [OF assms])
  define pkt where "pkt = ?new\<lparr>pkt_layers := ctx_layers c'\<rparr>"
  have shape: "shape pkt" and out: "out = Done \<or> (\<exists>e. out = Failed e)"
    using ok by (auto simp: pkt_def shape_def new_packet_def elim!: parse_ok_new)
  have data: "pkt_bytes pkt = pr_data r" by (simp add: pkt_def new_packet_def)
  note run = run [folded pkt_def]
  show ?thesis
  proof (cases "out = Done")
    case False
    then show ?thesis using out run by (auto simp: from_record_def)
  next
    case finished: True
    show ?thesis
    proof (cases "find_transport (pkt_layers pkt)")
      case None
      then show ?thesis using run finished by (simp add: from_record_def)
    next
      case (Some tb)
      obtain l before where tb: "find_transport (pkt_layers pkt) = Some (l, before)" using Some by (cases tb) simp
      note l = find_transport_mem [OF tb]
      show ?thesis
      proof (cases "find_network before")
        case None
        then show ?thesis using run finished tb by (simp add: from_record_def)
      next
        case (Some k)
        then have k: "k \<in> set (pkt_layers pkt)" "layer_protocol k = Ipv4 \<or> layer_protocol k = Ipv6"
          using find_network_mem [OF Some] l by auto
        obtain s d n where n: "network_of pkt k = TOk (s, d, n)" "n \<le> length (pkt_bytes pkt)"
          using network_of_returns [OF shape k] by (auto simp: returns_def)
        have "returns (\<lambda>p. packet_bounded r p)
            (if layer_is l Tcp then tcp_flow_packet (pr_timestamp r) pkt l s d n
             else udp_flow_packet (pr_timestamp r) pkt l s d n)"
          using flow_packet_returns [OF shape _ n(2), of l] l data by (auto simp: packet_bounded_def layer_is_def)
        then show ?thesis
          using run finished tb Some n(1) by (auto simp: from_record_def returns_def split: if_splits)
      qed
    qed
  qed
qed

section \<open>Properties\<close>


definition sample_record :: packet_record where
  "sample_record = \<lparr>pr_timestamp = 7, pr_original_length = 60, pr_data = replicate 60 0x45, pr_link_type = LtIpv4\<rparr>"


text \<open>C7: the generator cuts every conversation on its own.  Over any interleaving of fewer than
  \<open>2^64\<close> packets, the rows it reports while it reads and at the end are, as a multiset, those of
  cutting the packets of each conversation by themselves: in front of a packet later than the
  timeout, behind a reset and behind the second side's FIN; flows of one packet are left out.  The
  cuts lose and reorder no packet of the conversation.  The order in which the hash map yields the
  open flows at the end does not matter.\<close>

theorem generator_cuts_conversations:
  assumes "length ps < 2 ^ 64" and "generator_run F label ps (generator_new timeout activity) = (rows, g)"
    and "distinct (map fst entries)" and "map_of entries = fg_flows g"
  shows "mset (rows @ generator_finish F label entries) =
      (\<Sum>k \<in> key_from_packet ` set ps. mset (conversation_rows F label activity
        (conversations timeout [] (filter (\<lambda>p. key_from_packet p = k) ps)))) \<and>
    (\<forall>k. concat (conversations timeout [] (filter (\<lambda>p. key_from_packet p = k) ps)) =
      filter (\<lambda>p. key_from_packet p = k) ps)"
proof -
  have "tracks F (generator_new timeout activity) (\<lambda>_. [])" by (simp add: tracks_def generator_new_def)
  from generator_run_rows [OF this _ _ _ _ assms(2-4), of "key_from_packet ` set ps"] assms(1)
  show ?thesis by (simp add: generator_new_def conversations_concat)
qed

text \<open>A toy instance of the number operations, and two packets of a connection that is reset.\<close>

definition int_floats :: "int floats" where
  "int_floats = \<lparr>f_of_int = id, f_to_u64 = word_of_int, f_sub = (-), f_div = (div), f_powi = (\<lambda>a n. a ^ nat n),
     f_sqrt = id, f_sum = sum_list, f_min = min, f_max = max, f_le = (\<le>), f_less = (<), f_eq = (=),
     f_is_finite = (\<lambda>_. True), show_f64 = (\<lambda>_. ''n''), show_int = (\<lambda>_. ''n''), show_addr = (\<lambda>_. ''a''),
     show_instant = (\<lambda>_. None)\<rparr>"

definition sample_flow_packet :: "int \<Rightarrow> 8 word \<Rightarrow> flow_packet" where
  "sample_flow_packet ts flags = \<lparr>fp_timestamp = ts, fp_src_ip = V4 0x0A000001, fp_dst_ip = V4 0x0A000002,
     fp_src_port = 1234, fp_dst_port = 80, fp_protocol = 6, fp_payload_bytes = 10, fp_header_bytes = 20,
     fp_tcp_flags = flags, fp_tcp_window = 4096\<rparr>"

theorem generator_cuts_conversations_witness:
  "\<exists>rows g. generator_run int_floats ''x'' [sample_flow_packet 0 2, sample_flow_packet 5 4] (generator_new 10 5) = (rows, g) \<and>
    mset (rows @ generator_finish int_floats ''x'' []) =
      (\<Sum>k \<in> key_from_packet ` set [sample_flow_packet 0 2, sample_flow_packet 5 4].
        mset (conversation_rows int_floats ''x'' 5 (conversations 10 []
          (filter (\<lambda>p. key_from_packet p = k) [sample_flow_packet 0 2, sample_flow_packet 5 4]))))"
proof -
  let ?ps = "[sample_flow_packet 0 2, sample_flow_packet 5 4]"
  obtain rows g where run: "generator_run int_floats ''x'' ?ps (generator_new 10 5) = (rows, g)" by fastforce
  have key: "key_from_packet (sample_flow_packet a b) = key_from_packet (sample_flow_packet 0 2)" for a b
    by (simp add: key_from_packet_def sample_flow_packet_def)
  have flags: "fp_tcp_flags (sample_flow_packet 5 4) = 4" "fp_timestamp (sample_flow_packet a b) = a" for a b
    by (simp_all add: sample_flow_packet_def)
  have new: "fl_last_timestamp (flow_new int_floats (sample_flow_packet 0 2) 5) = 0"
    by (simp add: flow_new_def flow_add_fields flags)
  have "fg_flows g = Map.empty"
    using run key [of 5 4]
    by (auto simp: generator_add_def generator_new_def Let_def flags new contains_flag_def flag_rst_def
        saturating_sub_i64_def saturate_i64_def)
  then have "map_of [] = fg_flows g" by simp
  from generator_cuts_conversations [OF _ run _ this] run show ?thesis by auto
qed

text \<open>C35: a CSV reader gets back what was written.  Every row has one value for every column of the
  header, and reading the line of a row by RFC 4180 gives its values, whatever quotes, commas and
  line breaks the label and the formatted addresses hold.\<close>

theorem rows_read_back:
  "length (flow_finish F label fl) = length cicflowmeter_header \<and>
   csv_fields (to_csv (flow_finish F label fl)) = flow_finish F label fl \<and>
   csv_fields (join_comma cicflowmeter_header) = cicflowmeter_header"
proof -
  have "flow_finish F label fl \<noteq> []"
    using flow_finish_length [of F label fl] by (auto simp: cicflowmeter_header_def)
  moreover have "map csv_quote cicflowmeter_header = cicflowmeter_header"
    by (simp add: cicflowmeter_header_def csv_quote_def)
  moreover have "cicflowmeter_header \<noteq> []" by (simp add: cicflowmeter_header_def)
  ultimately show ?thesis
    using csv_fields_to_csv [of cicflowmeter_header] csv_fields_to_csv [of "flow_finish F label fl"]
    by (simp add: flow_finish_length to_csv_def)
qed

end
