(* ===== verification/Craft.thy ===== *)
theory Craft
  imports Rewriter_Checksum
begin

text \<open>
  Packet crafting: stacks of craft layers, measured from the innermost layer to the outermost and
  written in place into one buffer (\<^verbatim>\<open>src/packet/craft.rs\<close>), and the builders of Ethernet,
  IPv4, UDP, TCP, ICMP echo messages and raw payloads (the files \<^verbatim>\<open>craft.rs\<close> under
  \<^verbatim>\<open>src/packet/layer\<close>).  A type that implements the trait \<^verbatim>\<open>CraftLayer\<close> is a record of
  its methods, so a stack may hold layers of other crates.  The result of
  \<^verbatim>\<open>std::any::type_name\<close>, which only names a layer in error messages, is the path of the type.
\<close>

section \<open>Errors\<close>

datatype craft_error =
    LengthOverflow string string nat nat
  | InvalidLength string string nat nat
  | InvalidField string string nat string
  | RawMustBeTerminal
  | EmptyStack

datatype 'a craft_result = CrOk 'a | CrErr craft_error | CrPanic

definition cr_bind :: "'a craft_result \<Rightarrow> ('a \<Rightarrow> 'b craft_result) \<Rightarrow> 'b craft_result" where
  "cr_bind r k = (case r of CrOk x \<Rightarrow> k x | CrErr e \<Rightarrow> CrErr e | CrPanic \<Rightarrow> CrPanic)"

lemma cr_bind_simps [simp]:
  "cr_bind (CrOk x) k = k x" "cr_bind (CrErr e) k = CrErr e" "cr_bind CrPanic k = CrPanic"
  by (simp_all add: cr_bind_def)

lemma cr_bind_CrOk: "cr_bind r k = CrOk y \<longleftrightarrow> (\<exists>x. r = CrOk x \<and> k x = CrOk y)"
  by (cases r) simp_all

lemma cr_bind_CrPanic: "cr_bind r k = CrPanic \<longleftrightarrow> r = CrPanic \<or> (\<exists>x. r = CrOk x \<and> k x = CrPanic)"
  by (cases r) simp_all

text \<open>What panics in a checked operation or on a field outside its header.\<close>

definition craft_fetch :: "'a option \<Rightarrow> 'a craft_result" where
  "craft_fetch x = (case x of Some v \<Rightarrow> CrOk v | None \<Rightarrow> CrPanic)"

lemma craft_fetch_simps [simp]: "craft_fetch (Some v) = CrOk v" "craft_fetch None = CrPanic"
  by (simp_all add: craft_fetch_def)

definition of_tool :: "'a tool_result \<Rightarrow> 'a craft_result" where
  "of_tool r = (case r of TOk x \<Rightarrow> CrOk x | _ \<Rightarrow> CrPanic)"

definition checked_u16_len :: "string \<Rightarrow> string \<Rightarrow> nat \<Rightarrow> 16 word craft_result" where
  "checked_u16_len protocol field len =
    (if len < 2 ^ 16 then CrOk (word_of_nat len) else CrErr (LengthOverflow protocol field len 0xFFFF))"

definition checked_add_len :: "string \<Rightarrow> string \<Rightarrow> nat \<Rightarrow> nat \<Rightarrow> nat craft_result" where
  "checked_add_len protocol field lhs rhs =
    (case checked_add lhs rhs of
       Some n \<Rightarrow> CrOk n
     | None \<Rightarrow> CrErr (LengthOverflow protocol field lhs (usize_max - rhs)))"

section \<open>Craft layers\<close>

record ipv4_craft_context =
  ic_src :: "32 word"
  ic_dst :: "32 word"

record craft_context =
  cc_ipv4 :: "ipv4_craft_context option"

definition default_context :: craft_context where
  "default_context = \<lparr>cc_ipv4 = None\<rparr>"

definition with_ipv4 :: "craft_context \<Rightarrow> 32 word \<Rightarrow> 32 word \<Rightarrow> craft_context" where
  "with_ipv4 ctx src dst = ctx\<lparr>cc_ipv4 := Some \<lparr>ic_src = src, ic_dst = dst\<rparr>\<rparr>"

record craft_child_plan =
  cp_protocol :: proto
  cp_len :: nat

record craft_child =
  ch_protocol :: proto
  ch_offset :: nat
  ch_len :: nat

record craft_plan =
  pl_layer_len :: nat
  pl_total_len :: nat

record craft_layer =
  cl_name :: string
  cl_protocol :: proto
  cl_child_context :: "craft_context \<Rightarrow> craft_context"
  cl_measure :: "craft_context \<Rightarrow> craft_child_plan option \<Rightarrow> craft_plan craft_result"
  cl_write :: "craft_context \<Rightarrow> craft_plan \<Rightarrow> craft_child option \<Rightarrow> bytes \<Rightarrow> bytes craft_result"

type_synonym packet_stack = "craft_layer list"

record measured_layer =
  ml_protocol :: proto
  ml_plan :: craft_plan
  ml_context :: craft_context
  ml_offset :: nat

section \<open>Measuring\<close>

fun craft_contexts :: "craft_context \<Rightarrow> packet_stack \<Rightarrow> craft_context list" where
  "craft_contexts ctx [] = []"
| "craft_contexts ctx (l # ls) = ctx # craft_contexts (cl_child_context l ctx) ls"

definition validate_plan :: "craft_layer \<Rightarrow> craft_plan \<Rightarrow> craft_child_plan option \<Rightarrow> unit craft_result" where
  "validate_plan l plan child =
    (if pl_total_len plan < pl_layer_len plan
     then CrErr (InvalidLength (cl_name l) ''total_len'' (pl_total_len plan) (pl_layer_len plan))
     else
       (case child of
          None \<Rightarrow> CrOk ()
        | Some c \<Rightarrow>
            cr_bind (checked_add_len (cl_name l) ''child_end'' (pl_layer_len plan) (cp_len c)) (\<lambda>child_end.
            if child_end > pl_total_len plan
            then CrErr (InvalidLength (cl_name l) ''total_len'' (pl_total_len plan) child_end)
            else CrOk ())))"

definition child_plan_of :: "measured_layer list \<Rightarrow> craft_child_plan option" where
  "child_plan_of ms =
    (case ms of [] \<Rightarrow> None
     | m # _ \<Rightarrow> Some \<lparr>cp_protocol = ml_protocol m, cp_len = pl_total_len (ml_plan m)\<rparr>)"

text \<open>The loop runs over the stack in reverse; its result is reversed back.\<close>

fun measure_layers :: "(craft_layer \<times> craft_context) list \<Rightarrow> measured_layer list craft_result" where
  "measure_layers [] = CrOk []"
| "measure_layers ((l, ctx) # rest) =
    cr_bind (measure_layers rest) (\<lambda>ms.
    cr_bind (cl_measure l ctx (child_plan_of ms)) (\<lambda>plan.
    cr_bind (validate_plan l plan (child_plan_of ms)) (\<lambda>_.
    CrOk (\<lparr>ml_protocol = cl_protocol l, ml_plan = plan, ml_context = ctx, ml_offset = 0\<rparr> # ms))))"

fun set_layer_offsets :: "nat \<Rightarrow> measured_layer list \<Rightarrow> measured_layer list craft_result" where
  "set_layer_offsets offset [] = CrOk []"
| "set_layer_offsets offset (m # ms) =
    cr_bind (checked_add_len ''packet'' ''offset'' offset (pl_layer_len (ml_plan m))) (\<lambda>offset'.
    cr_bind (set_layer_offsets offset' ms) (\<lambda>ms.
    CrOk (m\<lparr>ml_offset := offset\<rparr> # ms)))"

definition measure_stack :: "packet_stack \<Rightarrow> measured_layer list craft_result" where
  "measure_stack stack =
    cr_bind (measure_layers (zip stack (craft_contexts default_context stack))) (set_layer_offsets 0)"

section \<open>Writing\<close>

text \<open>A write into a part of the buffer.\<close>

definition write_within :: "nat \<Rightarrow> nat \<Rightarrow> (bytes \<Rightarrow> bytes craft_result) \<Rightarrow> bytes \<Rightarrow> bytes craft_result" where
  "write_within lo hi f bs =
    cr_bind (craft_fetch (slice bs lo hi)) (\<lambda>s. cr_bind (f s) (\<lambda>s'. CrOk (take lo bs @ s' @ drop hi bs)))"

definition child_of :: "craft_plan \<Rightarrow> measured_layer list \<Rightarrow> craft_child option" where
  "child_of plan ms =
    (case ms of [] \<Rightarrow> None
     | m # _ \<Rightarrow> Some \<lparr>ch_protocol = ml_protocol m, ch_offset = pl_layer_len plan,
                     ch_len = pl_total_len (ml_plan m)\<rparr>)"

fun write_measured :: "packet_stack \<Rightarrow> measured_layer list \<Rightarrow> bytes \<Rightarrow> bytes craft_result" where
  "write_measured (l # ls) (m # ms) bs =
    cr_bind (write_measured ls ms bs) (\<lambda>bs.
    cr_bind (checked_add_len (cl_name l) ''total_len'' (ml_offset m) (pl_total_len (ml_plan m))) (\<lambda>end'.
    write_within (ml_offset m) end'
      (cl_write l (ml_context m) (ml_plan m) (child_of (ml_plan m) ms)) bs))"
| "write_measured _ _ bs = CrOk bs"

definition collect_layers :: "measured_layer list \<Rightarrow> layer list" where
  "collect_layers ms =
    map (\<lambda>m. \<lparr>layer_protocol = ml_protocol m, layer_offset = ml_offset m,
              layer_len = pl_layer_len (ml_plan m)\<rparr>) ms"

definition stack_to_bytes :: "packet_stack \<Rightarrow> bytes craft_result" where
  "stack_to_bytes stack =
    (if stack = [] then CrErr EmptyStack
     else
       cr_bind (measure_stack stack) (\<lambda>measured.
       write_measured stack measured (replicate (pl_total_len (ml_plan (measured ! 0))) 0)))"

definition stack_build :: "packet_stack \<Rightarrow> packet craft_result" where
  "stack_build stack =
    (if stack = [] then CrErr EmptyStack
     else
       cr_bind (measure_stack stack) (\<lambda>measured.
       cr_bind (write_measured stack measured (replicate (pl_total_len (ml_plan (measured ! 0))) 0)) (\<lambda>bs.
       CrOk \<lparr>pkt_bytes = bs, pkt_layers = collect_layers measured\<rparr>)))"

section \<open>Builders\<close>

text \<open>A header is written by a sequence of setters of its mutable viewer.\<close>

fun set_fields :: "(bytes \<Rightarrow> bytes option) list \<Rightarrow> bytes \<Rightarrow> bytes option" where
  "set_fields [] hdr = Some hdr"
| "set_fields (f # fs) hdr = Option.bind (f hdr) (set_fields fs)"

definition or_else :: "'a option \<Rightarrow> 'a \<Rightarrow> 'a" where
  "or_else x d = (case x of Some v \<Rightarrow> v | None \<Rightarrow> d)"

definition child_len :: "craft_child_plan option \<Rightarrow> nat" where
  "child_len child = (case child of None \<Rightarrow> 0 | Some c \<Rightarrow> cp_len c)"

definition child_is :: "craft_child option \<Rightarrow> proto \<Rightarrow> bool" where
  "child_is child p = (case child of None \<Rightarrow> False | Some c \<Rightarrow> ch_protocol c = p)"

subsection \<open>Ethernet\<close>

record eth_builder =
  eb_src :: "48 word option"
  eb_dst :: "48 word option"
  eb_eth_type :: "eth_type option"

definition eth_builder_new :: eth_builder where
  "eth_builder_new = \<lparr>eb_src = None, eb_dst = None, eb_eth_type = None\<rparr>"

definition eth_measure :: "craft_context \<Rightarrow> craft_child_plan option \<Rightarrow> craft_plan craft_result" where
  "eth_measure ctx child =
    cr_bind (checked_add_len ''eth'' ''total_len'' 14 (child_len child)) (\<lambda>total_len.
    CrOk \<lparr>pl_layer_len = 14, pl_total_len = total_len\<rparr>)"

definition eth_write ::
    "eth_builder \<Rightarrow> craft_context \<Rightarrow> craft_plan \<Rightarrow> craft_child option \<Rightarrow> bytes \<Rightarrow> bytes craft_result" where
  "eth_write b ctx plan child =
    (let ty = or_else (eb_eth_type b) (if child_is child Ipv4 then EtIpv4 else EtReserverd 0)
     in write_within 0 14 (\<lambda>hdr. craft_fetch (set_fields
          [view_set 0 6 whole (or_else (eb_dst b) 0),
           view_set 6 12 whole (or_else (eb_src b) 0),
           view_set 12 14 whole (eth_type_into ty)] hdr)))"

definition eth_layer :: "eth_builder \<Rightarrow> craft_layer" where
  "eth_layer b =
    \<lparr>cl_name = ''maja::packet::layer::eth::craft::EthBuilder'', cl_protocol = Eth,
     cl_child_context = (\<lambda>ctx. ctx), cl_measure = eth_measure, cl_write = eth_write b\<rparr>"

subsection \<open>Raw payload\<close>

definition raw_measure :: "bytes \<Rightarrow> craft_context \<Rightarrow> craft_child_plan option \<Rightarrow> craft_plan craft_result" where
  "raw_measure payload ctx child =
    (if child \<noteq> None then CrErr RawMustBeTerminal
     else CrOk \<lparr>pl_layer_len = length payload, pl_total_len = length payload\<rparr>)"

definition raw_write ::
    "bytes \<Rightarrow> craft_context \<Rightarrow> craft_plan \<Rightarrow> craft_child option \<Rightarrow> bytes \<Rightarrow> bytes craft_result" where
  "raw_write payload ctx plan child bs = (if length bs = length payload then CrOk payload else CrPanic)"

definition raw_layer :: "bytes \<Rightarrow> craft_layer" where
  "raw_layer payload =
    \<lparr>cl_name = ''maja::packet::layer::raw::craft::RawBuilder'', cl_protocol = Raw,
     cl_child_context = (\<lambda>ctx. ctx), cl_measure = raw_measure payload, cl_write = raw_write payload\<rparr>"

subsection \<open>Header lengths with options\<close>

text \<open>
  \<^verbatim>\<open>measure_header_len\<close> of the IPv4 and the TCP builder, which differ in the names in their
  errors only.  The number of words is cast to \<^verbatim>\<open>u8\<close> before it is checked.
\<close>

definition next_multiple_of_4 :: "nat \<Rightarrow> nat" where
  "next_multiple_of_4 n = (n + 3) div 4 * 4"

definition measure_header_len ::
    "string \<Rightarrow> string \<Rightarrow> string \<Rightarrow> 8 word option \<Rightarrow> bytes \<Rightarrow> nat craft_result" where
  "measure_header_len protocol field reason words options =
    cr_bind (checked_add_len protocol field 20 (next_multiple_of_4 (length options))) (\<lambda>min_header_len.
    let ihl = or_else words (word_of_nat (min_header_len div 4)) in
    if ihl < 5 then CrErr (InvalidField protocol field (unat ihl) reason)
    else if ihl > 15 then CrErr (LengthOverflow protocol field (unat ihl) 15)
    else
      let header_len = unat ihl * 4 in
      if header_len < min_header_len then CrErr (InvalidLength protocol field header_len min_header_len)
      else CrOk header_len)"

text \<open>\<^verbatim>\<open>bytes[20..20 + options.len()].copy_from_slice(&options)\<close>.\<close>

definition write_options :: "bytes \<Rightarrow> bytes \<Rightarrow> bytes craft_result" where
  "write_options options = write_within 20 (20 + length options) (\<lambda>_. CrOk options)"

text \<open>\<^verbatim>\<open>Some(length)\<close> must be the measured length; \<^verbatim>\<open>None\<close> is the measured length if it fits.\<close>

definition explicit_length :: "string \<Rightarrow> string \<Rightarrow> 16 word option \<Rightarrow> nat \<Rightarrow> nat craft_result" where
  "explicit_length protocol field explicit generated =
    (case explicit of
       Some len \<Rightarrow>
         if unat len = generated then CrOk (unat len)
         else CrErr (InvalidField protocol field (unat len)
           ''must match generated header plus child length; use raw!(...) to add payload bytes'')
     | None \<Rightarrow> cr_bind (checked_u16_len protocol field generated) (\<lambda>len. CrOk (unat len)))"

subsection \<open>IPv4\<close>

record ipv4_builder =
  ib_ihl :: "8 word option"
  ib_dscp :: "8 word option"
  ib_ecn :: "8 word option"
  ib_total_length :: "16 word option"
  ib_identification :: "16 word option"
  ib_flags :: "8 word option"
  ib_fragment_offset :: "16 word option"
  ib_ttl :: "8 word option"
  ib_protocol :: "ip_protocol option"
  ib_checksum :: "16 word option"
  ib_src :: "32 word option"
  ib_dst :: "32 word option"
  ib_options :: bytes

definition ipv4_builder_new :: ipv4_builder where
  "ipv4_builder_new =
    \<lparr>ib_ihl = None, ib_dscp = None, ib_ecn = None, ib_total_length = None, ib_identification = None,
     ib_flags = None, ib_fragment_offset = None, ib_ttl = None, ib_protocol = None, ib_checksum = None,
     ib_src = None, ib_dst = None, ib_options = []\<rparr>"

definition effective_src :: "ipv4_builder \<Rightarrow> 32 word" where
  "effective_src b = or_else (ib_src b) 0"

definition effective_dst :: "ipv4_builder \<Rightarrow> 32 word" where
  "effective_dst b = or_else (ib_dst b) 0"

definition ipv4_measure_header_len :: "ipv4_builder \<Rightarrow> nat craft_result" where
  "ipv4_measure_header_len b =
    measure_header_len ''ipv4'' ''ihl'' ''IHL must be at least 5'' (ib_ihl b) (ib_options b)"

definition ipv4_measure ::
    "ipv4_builder \<Rightarrow> craft_context \<Rightarrow> craft_child_plan option \<Rightarrow> craft_plan craft_result" where
  "ipv4_measure b ctx child =
    cr_bind (ipv4_measure_header_len b) (\<lambda>header_len.
    cr_bind (checked_add_len ''ipv4'' ''total_length'' header_len (child_len child)) (\<lambda>generated.
    cr_bind (explicit_length ''ipv4'' ''total_length'' (ib_total_length b) generated) (\<lambda>total_length.
    CrOk \<lparr>pl_layer_len = header_len, pl_total_len = total_length\<rparr>)))"

definition ipv4_fields :: "ipv4_builder \<Rightarrow> nat \<Rightarrow> 16 word \<Rightarrow> ip_protocol \<Rightarrow> (bytes \<Rightarrow> bytes option) list" where
  "ipv4_fields b header_len total_length protocol =
    [view_set 0 1 (FSpec 0xF0 4) (4 :: 8 word),
     view_set 0 1 (FSpec 0x0F 0) (word_of_nat (header_len div 4) :: 8 word),
     view_set 1 2 (FSpec 0xFC 2) (or_else (ib_dscp b) 0),
     view_set 1 2 (FSpec 0x03 0) (or_else (ib_ecn b) 0),
     view_set 2 4 whole total_length,
     view_set 4 6 whole (or_else (ib_identification b) 0),
     view_set 6 7 (FSpec 0xE0 5) (or_else (ib_flags b) 0),
     view_set 6 8 (FSpec 0x1FFF 0) (or_else (ib_fragment_offset b) 0),
     view_set 8 9 whole (or_else (ib_ttl b) 64),
     view_set 9 10 (FSpec 0xFF 0) protocol,
     view_set 10 12 whole (0 :: 16 word),
     view_set 12 16 whole (effective_src b),
     view_set 16 20 whole (effective_dst b)]"

definition ipv4_write ::
    "ipv4_builder \<Rightarrow> craft_context \<Rightarrow> craft_plan \<Rightarrow> craft_child option \<Rightarrow> bytes \<Rightarrow> bytes craft_result" where
  "ipv4_write b ctx plan child bs =
    (let header_len = pl_layer_len plan in
     cr_bind (checked_u16_len ''ipv4'' ''total_length'' (pl_total_len plan)) (\<lambda>total_length.
     let protocol = or_else (ib_protocol b)
           (if child_is child Icmp then ip_icmp else if child_is child Tcp then ip_tcp
            else if child_is child Udp then ip_udp else 255) in
     cr_bind (write_options (ib_options b) bs) (\<lambda>bs.
     cr_bind (write_within 0 header_len
       (\<lambda>hdr. craft_fetch (set_fields (ipv4_fields b header_len total_length protocol) hdr)) bs) (\<lambda>bs.
     cr_bind (case ib_checksum b of
                Some c \<Rightarrow> CrOk c
              | None \<Rightarrow> cr_bind (craft_fetch (slice bs 0 header_len)) (\<lambda>hdr.
                  of_tool (ipv4_calculate_checksum hdr))) (\<lambda>checksum.
     write_within 0 header_len (\<lambda>hdr. of_tool (ipv4_set_checksum checksum hdr)) bs)))))"

definition ipv4_layer :: "ipv4_builder \<Rightarrow> craft_layer" where
  "ipv4_layer b =
    \<lparr>cl_name = ''maja::packet::layer::ip::v4::craft::Ipv4Builder'', cl_protocol = Ipv4,
     cl_child_context = (\<lambda>ctx. with_ipv4 ctx (effective_src b) (effective_dst b)),
     cl_measure = ipv4_measure b, cl_write = ipv4_write b\<rparr>"

subsection \<open>UDP\<close>

record udp_builder =
  ub_src_port :: "16 word option"
  ub_dst_port :: "16 word option"
  ub_length :: "16 word option"
  ub_checksum :: "16 word option"

definition udp_builder_new :: udp_builder where
  "udp_builder_new = \<lparr>ub_src_port = None, ub_dst_port = None, ub_length = None, ub_checksum = None\<rparr>"

definition udp_measure ::
    "udp_builder \<Rightarrow> craft_context \<Rightarrow> craft_child_plan option \<Rightarrow> craft_plan craft_result" where
  "udp_measure b ctx child =
    cr_bind (checked_add_len ''udp'' ''length'' 8 (child_len child)) (\<lambda>generated.
    cr_bind (explicit_length ''udp'' ''length'' (ub_length b) generated) (\<lambda>len.
    CrOk \<lparr>pl_layer_len = 8, pl_total_len = len\<rparr>))"

definition udp_fields :: "udp_builder \<Rightarrow> 16 word \<Rightarrow> (bytes \<Rightarrow> bytes option) list" where
  "udp_fields b len =
    [view_set 0 2 whole (or_else (ub_src_port b) 0),
     view_set 2 4 whole (or_else (ub_dst_port b) 0),
     view_set 4 6 whole len,
     view_set 6 8 whole (0 :: 16 word)]"

definition udp_write ::
    "udp_builder \<Rightarrow> craft_context \<Rightarrow> craft_plan \<Rightarrow> craft_child option \<Rightarrow> bytes \<Rightarrow> bytes craft_result" where
  "udp_write b ctx plan child bs =
    cr_bind (checked_u16_len ''udp'' ''length'' (pl_total_len plan)) (\<lambda>len.
    cr_bind (write_within 0 8 (\<lambda>hdr. craft_fetch (set_fields (udp_fields b len) hdr)) bs) (\<lambda>bs.
    cr_bind (case ub_checksum b of
               Some c \<Rightarrow> CrOk c
             | None \<Rightarrow>
                 (case cc_ipv4 ctx of
                    Some ip \<Rightarrow> of_tool (udp_calculate_checksum_ipv4 bs (ic_src ip) (ic_dst ip))
                  | None \<Rightarrow> CrOk 0)) (\<lambda>checksum.
    write_within 0 8 (\<lambda>hdr. of_tool (udp_set_checksum checksum hdr)) bs)))"

definition udp_layer :: "udp_builder \<Rightarrow> craft_layer" where
  "udp_layer b =
    \<lparr>cl_name = ''maja::packet::layer::udp::craft::UdpBuilder'', cl_protocol = Udp,
     cl_child_context = (\<lambda>ctx. ctx), cl_measure = udp_measure b, cl_write = udp_write b\<rparr>"

subsection \<open>TCP\<close>

record tcp_builder =
  tb_src_port :: "16 word option"
  tb_dst_port :: "16 word option"
  tb_seq_num :: "32 word option"
  tb_ack_num :: "32 word option"
  tb_data_offset :: "8 word option"
  tb_flags :: "8 word option"
  tb_window_size :: "16 word option"
  tb_checksum :: "16 word option"
  tb_urgent_pointer :: "16 word option"
  tb_options :: bytes

definition tcp_builder_new :: tcp_builder where
  "tcp_builder_new =
    \<lparr>tb_src_port = None, tb_dst_port = None, tb_seq_num = None, tb_ack_num = None, tb_data_offset = None,
     tb_flags = None, tb_window_size = None, tb_checksum = None, tb_urgent_pointer = None, tb_options = []\<rparr>"

definition tcp_measure_header_len :: "tcp_builder \<Rightarrow> nat craft_result" where
  "tcp_measure_header_len b =
    measure_header_len ''tcp'' ''data_offset'' ''data offset must be at least 5'' (tb_data_offset b) (tb_options b)"

definition tcp_measure ::
    "tcp_builder \<Rightarrow> craft_context \<Rightarrow> craft_child_plan option \<Rightarrow> craft_plan craft_result" where
  "tcp_measure b ctx child =
    cr_bind (tcp_measure_header_len b) (\<lambda>header_len.
    cr_bind (checked_add_len ''tcp'' ''segment_len'' header_len (child_len child)) (\<lambda>segment_len.
    cr_bind (checked_u16_len ''tcp'' ''ipv4_pseudo_length'' segment_len) (\<lambda>_.
    CrOk \<lparr>pl_layer_len = header_len, pl_total_len = segment_len\<rparr>)))"

definition tcp_fields :: "tcp_builder \<Rightarrow> nat \<Rightarrow> (bytes \<Rightarrow> bytes option) list" where
  "tcp_fields b header_len =
    [view_set 0 2 whole (or_else (tb_src_port b) 0),
     view_set 2 4 whole (or_else (tb_dst_port b) 0),
     view_set 4 8 whole (or_else (tb_seq_num b) 0),
     view_set 8 12 whole (or_else (tb_ack_num b) 0),
     view_set 12 13 (FSpec 0xF0 4) (word_of_nat (header_len div 4) :: 8 word),
     view_set 13 14 whole (or_else (tb_flags b) 0),
     view_set 14 16 whole (or_else (tb_window_size b) 64),
     view_set 16 18 whole (0 :: 16 word),
     view_set 18 20 whole (or_else (tb_urgent_pointer b) 0)]"

definition tcp_write ::
    "tcp_builder \<Rightarrow> craft_context \<Rightarrow> craft_plan \<Rightarrow> craft_child option \<Rightarrow> bytes \<Rightarrow> bytes craft_result" where
  "tcp_write b ctx plan child bs =
    (let header_len = pl_layer_len plan in
     cr_bind (write_options (tb_options b) bs) (\<lambda>bs.
     cr_bind (write_within 0 header_len (\<lambda>hdr. craft_fetch (set_fields (tcp_fields b header_len) hdr)) bs) (\<lambda>bs.
     cr_bind (case tb_checksum b of
                Some c \<Rightarrow> CrOk c
              | None \<Rightarrow>
                  (case cc_ipv4 ctx of
                     Some ip \<Rightarrow> CrOk (tcp_calculate_checksum_ipv4 bs (ic_src ip) (ic_dst ip))
                   | None \<Rightarrow> CrOk 0)) (\<lambda>checksum.
     write_within 0 header_len (\<lambda>hdr. of_tool (tcp_set_checksum checksum hdr)) bs))))"

definition tcp_layer :: "tcp_builder \<Rightarrow> craft_layer" where
  "tcp_layer b =
    \<lparr>cl_name = ''maja::packet::layer::tcp::craft::TcpBuilder'', cl_protocol = Tcp,
     cl_child_context = (\<lambda>ctx. ctx), cl_measure = tcp_measure b, cl_write = tcp_write b\<rparr>"

subsection \<open>ICMP echo\<close>

text \<open>The type of an ICMP message is its code; the enum has a variant for every code.\<close>

definition icmp_echo_reply :: "8 word" where "icmp_echo_reply = 0"

definition icmp_echo_request :: "8 word" where "icmp_echo_request = 8"

record icmp_echo_builder =
  mb_message_type :: "8 word"
  mb_code :: "8 word option"
  mb_checksum :: "16 word option"
  mb_identifier :: "16 word option"
  mb_sequence :: "16 word option"

definition icmp_echo_builder_new :: icmp_echo_builder where
  "icmp_echo_builder_new =
    \<lparr>mb_message_type = icmp_echo_request, mb_code = None, mb_checksum = None, mb_identifier = None,
     mb_sequence = None\<rparr>"

definition icmp_checksum :: "bytes \<Rightarrow> 16 word option" where
  "icmp_checksum msg = view_raw 2 4 whole msg"

definition icmp_calculate_checksum :: "bytes \<Rightarrow> 16 word" where
  "icmp_calculate_checksum msg = internet_checksum_zeroing msg (2, 4)"

definition icmp_validate_checksum :: "bytes \<Rightarrow> bool tool_result" where
  "icmp_validate_checksum msg =
    t_bind (fetch (icmp_checksum msg)) (\<lambda>c. TOk (c = icmp_calculate_checksum msg))"

definition validate_message_type :: "icmp_echo_builder \<Rightarrow> unit craft_result" where
  "validate_message_type b =
    (if mb_message_type b = icmp_echo_request \<or> mb_message_type b = icmp_echo_reply then CrOk ()
     else CrErr (InvalidField ''icmp'' ''type'' (unat (mb_message_type b))
       ''IcmpEchoBuilder only supports echo request and echo reply messages''))"

definition icmp_echo_measure ::
    "icmp_echo_builder \<Rightarrow> craft_context \<Rightarrow> craft_child_plan option \<Rightarrow> craft_plan craft_result" where
  "icmp_echo_measure b ctx child =
    cr_bind (validate_message_type b) (\<lambda>_.
    cr_bind (checked_add_len ''icmp'' ''total_len'' 8 (child_len child)) (\<lambda>total_len.
    CrOk \<lparr>pl_layer_len = 8, pl_total_len = total_len\<rparr>))"

definition icmp_echo_fields :: "icmp_echo_builder \<Rightarrow> (bytes \<Rightarrow> bytes option) list" where
  "icmp_echo_fields b =
    [view_set 0 1 whole (mb_message_type b),
     view_set 1 2 whole (or_else (mb_code b) 0),
     view_set 2 4 whole (0 :: 16 word),
     view_set 4 6 whole (or_else (mb_identifier b) 0),
     view_set 6 8 whole (or_else (mb_sequence b) 0)]"

definition icmp_echo_write ::
    "icmp_echo_builder \<Rightarrow> craft_context \<Rightarrow> craft_plan \<Rightarrow> craft_child option \<Rightarrow> bytes \<Rightarrow> bytes craft_result" where
  "icmp_echo_write b ctx plan child bs =
    cr_bind (write_within 0 8 (\<lambda>hdr. craft_fetch (set_fields (icmp_echo_fields b) hdr)) bs) (\<lambda>bs.
    let checksum = or_else (mb_checksum b) (icmp_calculate_checksum bs)
    in write_within 0 8 (\<lambda>hdr. craft_fetch (view_set 2 4 whole checksum hdr)) bs)"

definition icmp_echo_layer :: "icmp_echo_builder \<Rightarrow> craft_layer" where
  "icmp_echo_layer b =
    \<lparr>cl_name = ''maja::packet::layer::icmp::echo::craft::IcmpEchoBuilder'', cl_protocol = Icmp,
     cl_child_context = (\<lambda>ctx. ctx), cl_measure = icmp_echo_measure b, cl_write = icmp_echo_write b\<rparr>"

subsection \<open>The builders of the library\<close>

datatype builder =
    EthB eth_builder | Ipv4B ipv4_builder | UdpB udp_builder | TcpB tcp_builder
  | IcmpEchoB icmp_echo_builder | RawB bytes

fun builder_layer :: "builder \<Rightarrow> craft_layer" where
  "builder_layer (EthB b) = eth_layer b"
| "builder_layer (Ipv4B b) = ipv4_layer b"
| "builder_layer (UdpB b) = udp_layer b"
| "builder_layer (TcpB b) = tcp_layer b"
| "builder_layer (IcmpEchoB b) = icmp_echo_layer b"
| "builder_layer (RawB payload) = raw_layer payload"

section \<open>Composing a packet\<close>

text \<open>The setters of the builders; a macro such as \<^verbatim>\<open>ipv4!(src: a, dst: b)\<close> chains them on a new builder.
  \<^verbatim>\<open>options\<close> and \<^verbatim>\<open>copy_from\<close> append to what is there.\<close>

definition eth_builder_src :: "48 word \<Rightarrow> eth_builder \<Rightarrow> eth_builder" where
  "eth_builder_src x b = b\<lparr>eb_src := Some x\<rparr>"

definition eth_builder_dst :: "48 word \<Rightarrow> eth_builder \<Rightarrow> eth_builder" where
  "eth_builder_dst x b = b\<lparr>eb_dst := Some x\<rparr>"

definition eth_builder_eth_type :: "eth_type \<Rightarrow> eth_builder \<Rightarrow> eth_builder" where
  "eth_builder_eth_type x b = b\<lparr>eb_eth_type := Some x\<rparr>"

definition raw_builder_new :: bytes where "raw_builder_new = []"

definition raw_builder_copy_from :: "bytes \<Rightarrow> bytes \<Rightarrow> bytes" where
  "raw_builder_copy_from bs payload = payload @ bs"

definition ipv4_builder_ihl :: "8 word \<Rightarrow> ipv4_builder \<Rightarrow> ipv4_builder" where
  "ipv4_builder_ihl x b = b\<lparr>ib_ihl := Some x\<rparr>"

definition ipv4_builder_dscp :: "8 word \<Rightarrow> ipv4_builder \<Rightarrow> ipv4_builder" where
  "ipv4_builder_dscp x b = b\<lparr>ib_dscp := Some x\<rparr>"

definition ipv4_builder_ecn :: "8 word \<Rightarrow> ipv4_builder \<Rightarrow> ipv4_builder" where
  "ipv4_builder_ecn x b = b\<lparr>ib_ecn := Some x\<rparr>"

definition ipv4_builder_total_length :: "16 word \<Rightarrow> ipv4_builder \<Rightarrow> ipv4_builder" where
  "ipv4_builder_total_length x b = b\<lparr>ib_total_length := Some x\<rparr>"

definition ipv4_builder_identification :: "16 word \<Rightarrow> ipv4_builder \<Rightarrow> ipv4_builder" where
  "ipv4_builder_identification x b = b\<lparr>ib_identification := Some x\<rparr>"

definition ipv4_builder_flags :: "8 word \<Rightarrow> ipv4_builder \<Rightarrow> ipv4_builder" where
  "ipv4_builder_flags x b = b\<lparr>ib_flags := Some x\<rparr>"

definition ipv4_builder_fragment_offset :: "16 word \<Rightarrow> ipv4_builder \<Rightarrow> ipv4_builder" where
  "ipv4_builder_fragment_offset x b = b\<lparr>ib_fragment_offset := Some x\<rparr>"

definition ipv4_builder_ttl :: "8 word \<Rightarrow> ipv4_builder \<Rightarrow> ipv4_builder" where
  "ipv4_builder_ttl x b = b\<lparr>ib_ttl := Some x\<rparr>"

definition ipv4_builder_protocol :: "ip_protocol \<Rightarrow> ipv4_builder \<Rightarrow> ipv4_builder" where
  "ipv4_builder_protocol x b = b\<lparr>ib_protocol := Some x\<rparr>"

definition ipv4_builder_checksum :: "16 word \<Rightarrow> ipv4_builder \<Rightarrow> ipv4_builder" where
  "ipv4_builder_checksum x b = b\<lparr>ib_checksum := Some x\<rparr>"

definition ipv4_builder_src :: "32 word \<Rightarrow> ipv4_builder \<Rightarrow> ipv4_builder" where
  "ipv4_builder_src x b = b\<lparr>ib_src := Some x\<rparr>"

definition ipv4_builder_dst :: "32 word \<Rightarrow> ipv4_builder \<Rightarrow> ipv4_builder" where
  "ipv4_builder_dst x b = b\<lparr>ib_dst := Some x\<rparr>"

definition ipv4_builder_options :: "bytes \<Rightarrow> ipv4_builder \<Rightarrow> ipv4_builder" where
  "ipv4_builder_options bs b = b\<lparr>ib_options := ib_options b @ bs\<rparr>"

definition udp_builder_src_port :: "16 word \<Rightarrow> udp_builder \<Rightarrow> udp_builder" where
  "udp_builder_src_port x b = b\<lparr>ub_src_port := Some x\<rparr>"

definition udp_builder_dst_port :: "16 word \<Rightarrow> udp_builder \<Rightarrow> udp_builder" where
  "udp_builder_dst_port x b = b\<lparr>ub_dst_port := Some x\<rparr>"

definition udp_builder_length :: "16 word \<Rightarrow> udp_builder \<Rightarrow> udp_builder" where
  "udp_builder_length x b = b\<lparr>ub_length := Some x\<rparr>"

definition udp_builder_checksum :: "16 word \<Rightarrow> udp_builder \<Rightarrow> udp_builder" where
  "udp_builder_checksum x b = b\<lparr>ub_checksum := Some x\<rparr>"

definition tcp_builder_src_port :: "16 word \<Rightarrow> tcp_builder \<Rightarrow> tcp_builder" where
  "tcp_builder_src_port x b = b\<lparr>tb_src_port := Some x\<rparr>"

definition tcp_builder_dst_port :: "16 word \<Rightarrow> tcp_builder \<Rightarrow> tcp_builder" where
  "tcp_builder_dst_port x b = b\<lparr>tb_dst_port := Some x\<rparr>"

definition tcp_builder_seq_num :: "32 word \<Rightarrow> tcp_builder \<Rightarrow> tcp_builder" where
  "tcp_builder_seq_num x b = b\<lparr>tb_seq_num := Some x\<rparr>"

definition tcp_builder_ack_num :: "32 word \<Rightarrow> tcp_builder \<Rightarrow> tcp_builder" where
  "tcp_builder_ack_num x b = b\<lparr>tb_ack_num := Some x\<rparr>"

definition tcp_builder_data_offset :: "8 word \<Rightarrow> tcp_builder \<Rightarrow> tcp_builder" where
  "tcp_builder_data_offset x b = b\<lparr>tb_data_offset := Some x\<rparr>"

definition tcp_builder_flags :: "8 word \<Rightarrow> tcp_builder \<Rightarrow> tcp_builder" where
  "tcp_builder_flags x b = b\<lparr>tb_flags := Some x\<rparr>"

definition tcp_builder_window_size :: "16 word \<Rightarrow> tcp_builder \<Rightarrow> tcp_builder" where
  "tcp_builder_window_size x b = b\<lparr>tb_window_size := Some x\<rparr>"

definition tcp_builder_checksum :: "16 word \<Rightarrow> tcp_builder \<Rightarrow> tcp_builder" where
  "tcp_builder_checksum x b = b\<lparr>tb_checksum := Some x\<rparr>"

definition tcp_builder_urgent_pointer :: "16 word \<Rightarrow> tcp_builder \<Rightarrow> tcp_builder" where
  "tcp_builder_urgent_pointer x b = b\<lparr>tb_urgent_pointer := Some x\<rparr>"

definition tcp_builder_options :: "bytes \<Rightarrow> tcp_builder \<Rightarrow> tcp_builder" where
  "tcp_builder_options bs b = b\<lparr>tb_options := tb_options b @ bs\<rparr>"

definition icmp_echo_builder_message_type :: "8 word \<Rightarrow> icmp_echo_builder \<Rightarrow> icmp_echo_builder" where
  "icmp_echo_builder_message_type t b = b\<lparr>mb_message_type := t\<rparr>"

definition icmp_echo_builder_request :: "icmp_echo_builder \<Rightarrow> icmp_echo_builder" where
  "icmp_echo_builder_request b = b\<lparr>mb_message_type := icmp_echo_request\<rparr>"

definition icmp_echo_builder_reply :: "icmp_echo_builder \<Rightarrow> icmp_echo_builder" where
  "icmp_echo_builder_reply b = b\<lparr>mb_message_type := icmp_echo_reply\<rparr>"

definition icmp_echo_builder_code :: "8 word \<Rightarrow> icmp_echo_builder \<Rightarrow> icmp_echo_builder" where
  "icmp_echo_builder_code x b = b\<lparr>mb_code := Some x\<rparr>"

definition icmp_echo_builder_checksum :: "16 word \<Rightarrow> icmp_echo_builder \<Rightarrow> icmp_echo_builder" where
  "icmp_echo_builder_checksum x b = b\<lparr>mb_checksum := Some x\<rparr>"

definition icmp_echo_builder_identifier :: "16 word \<Rightarrow> icmp_echo_builder \<Rightarrow> icmp_echo_builder" where
  "icmp_echo_builder_identifier x b = b\<lparr>mb_identifier := Some x\<rparr>"

definition icmp_echo_builder_sequence :: "16 word \<Rightarrow> icmp_echo_builder \<Rightarrow> icmp_echo_builder" where
  "icmp_echo_builder_sequence x b = b\<lparr>mb_sequence := Some x\<rparr>"

text \<open>
  Stacks are put together from the outside inwards: \<^verbatim>\<open>a / b / c\<close> starts a stack with the
  layers \<open>a\<close> and \<open>b\<close> and pushes \<open>c\<close>.
\<close>

definition packet_stack_new :: packet_stack where
  "packet_stack_new = []"

definition push_layer_onto :: "packet_stack \<Rightarrow> craft_layer \<Rightarrow> packet_stack" where
  "push_layer_onto stack l = stack @ [l]"

definition stack_from_layer :: "craft_layer \<Rightarrow> packet_stack" where
  "stack_from_layer l = push_layer_onto packet_stack_new l"

definition stack_div :: "packet_stack \<Rightarrow> craft_layer \<Rightarrow> packet_stack" where
  "stack_div stack l = push_layer_onto stack l"

definition layer_div :: "craft_layer \<Rightarrow> craft_layer \<Rightarrow> packet_stack" where
  "layer_div l r = stack_div (stack_from_layer l) r"

definition layer_build :: "craft_layer \<Rightarrow> packet craft_result" where
  "layer_build l = stack_build (stack_from_layer l)"

text \<open>The bytes of a child in those of its layer.\<close>

definition craft_child_bytes :: "craft_child \<Rightarrow> bytes \<Rightarrow> bytes craft_result" where
  "craft_child_bytes c bs = craft_fetch (slice bs (ch_offset c) (ch_offset c + ch_len c))"

definition craft_child_bytes_mut :: "craft_child \<Rightarrow> (bytes \<Rightarrow> bytes craft_result) \<Rightarrow> bytes \<Rightarrow> bytes craft_result" where
  "craft_child_bytes_mut c f bs = write_within (ch_offset c) (ch_offset c + ch_len c) f bs"

lemma stack_of_divisions:
  "foldl stack_div (layer_div a b) ls = a # b # ls"
proof (induction ls rule: rev_induct)
  case (snoc x xs)
  then show ?case by (simp add: stack_div_def push_layer_onto_def)
qed (simp add: layer_div_def stack_div_def stack_from_layer_def push_layer_onto_def packet_stack_new_def)

end
