(* ===== verification/Craft_Sound.thy ===== *)
theory Craft_Sound
  imports Craft
begin

text \<open>
  Crafting is sound: the two passes over one buffer build what building every layer around its inner
  packet builds, the layers tile the packet, and the checksums that are filled in validate.
\<close>

section \<open>Writing a header\<close>

text \<open>A write of a header of \<open>n\<close> bytes changes nothing behind it.\<close>

definition header_write :: "nat \<Rightarrow> (bytes \<Rightarrow> bytes option) \<Rightarrow> bool" where
  "header_write n f =
    (\<forall>hdr. n \<le> length hdr \<longrightarrow> (\<exists>hdr'. f hdr = Some hdr' \<and> length hdr' = length hdr))"

lemma header_writeE:
  assumes "header_write n f" and "n \<le> length hdr"
  obtains hdr' where "f hdr = Some hdr'" and "length hdr' = length hdr"
  using assms by (auto simp: header_write_def)

lemma header_write_view_set:
  assumes "LENGTH('u::len) = 8 * (hi - lo)" and "lo \<le> hi" and "hi \<le> n"
  shows "header_write n (view_set lo hi f (v :: 'u word))"
  unfolding header_write_def
proof (intro allI impI)
  fix hdr :: bytes assume "n \<le> length hdr"
  then have hi: "lo + (hi - lo) \<le> length hdr" "lo + (hi - lo) = hi" using assms by simp_all
  obtain hdr' where "view_set lo hi f v hdr = Some hdr'"
    using view_set_eq [OF assms(1) hi(1), of f v] hi(2) by simp
  then show "\<exists>hdr'. view_set lo hi f v hdr = Some hdr' \<and> length hdr' = length hdr"
    using view_set_length [OF assms(1) hi(1), of f v hdr'] hi(2) by simp
qed

lemma header_write_set_fields: "\<forall>f \<in> set fs. header_write n f \<Longrightarrow> header_write n (set_fields fs)"
proof (induction fs)
  case (Cons f fs)
  have "\<exists>hdr'. set_fields (f # fs) hdr = Some hdr' \<and> length hdr' = length hdr" if len: "n \<le> length hdr" for hdr
  proof -
    have "header_write n f" "header_write n (set_fields fs)" using Cons by simp_all
    moreover obtain h where h: "f hdr = Some h" "length h = length hdr"
      using header_writeE [OF calculation(1) len] .
    ultimately obtain h' where "set_fields fs h = Some h'" "length h' = length h"
      using header_writeE [of n "set_fields fs" h] len by metis
    then show ?thesis using h by simp
  qed
  then show ?case by (simp add: header_write_def)
qed (simp add: header_write_def)

lemma write_within_header:
  assumes "n \<le> length bs" and "f (take n bs) = CrOk hdr"
  shows "write_within 0 n f bs = CrOk (hdr @ drop n bs)"
  using assms by (simp add: write_within_def)

lemma fields_write:
  assumes "header_write m (set_fields fs)" and "m \<le> n" and "n \<le> length bs"
  obtains hdr where "length hdr = n" and "set_fields fs (take n bs) = Some hdr"
    and "write_within 0 n (\<lambda>hdr. craft_fetch (set_fields fs hdr)) bs = CrOk (hdr @ drop n bs)"
proof -
  obtain hdr where hdr: "set_fields fs (take n bs) = Some hdr" "length hdr = n"
    using header_writeE [OF assms(1), of "take n bs"] assms(2,3) by auto
  then show ?thesis using that write_within_header [OF assms(3), of "\<lambda>hdr. craft_fetch (set_fields fs hdr)" hdr] by simp
qed

lemma ipv4_fields_write: "header_write 20 (set_fields (ipv4_fields b h len p))"
  by (rule header_write_set_fields) (auto simp: ipv4_fields_def intro!: header_write_view_set)

lemma udp_fields_write: "header_write 8 (set_fields (udp_fields b len))"
  by (rule header_write_set_fields) (auto simp: udp_fields_def intro!: header_write_view_set)

lemma tcp_fields_write: "header_write 20 (set_fields (tcp_fields b h))"
  by (rule header_write_set_fields) (auto simp: tcp_fields_def intro!: header_write_view_set)

lemma icmp_fields_write: "header_write 8 (set_fields (icmp_echo_fields b))"
  by (rule header_write_set_fields) (auto simp: icmp_echo_fields_def intro!: header_write_view_set)

lemma write_options_header:
  assumes "20 + length options \<le> n" and "n \<le> length bs"
  shows "\<exists>hdr. length hdr = n \<and> write_options options bs = CrOk (hdr @ drop n bs)"
proof -
  let ?o = "length options"
  have "drop (20 + ?o) bs = take (n - (20 + ?o)) (drop (20 + ?o) bs) @ drop n bs"
    using assms by (metis append_take_drop_id drop_drop le_add_diff_inverse2)
  then have "write_options options bs
      = CrOk ((take 20 bs @ options @ take (n - (20 + ?o)) (drop (20 + ?o) bs)) @ drop n bs)"
    using assms by (simp add: write_options_def write_within_def)
  moreover have "length (take 20 bs @ options @ take (n - (20 + ?o)) (drop (20 + ?o) bs)) = n"
    using assms by simp
  ultimately show ?thesis by blast
qed

text \<open>The checksum, written last.\<close>

lemma checksum_write:
  assumes "k + 2 \<le> n" and "length hdr = n"
  shows "view_set k (k + 2) whole c hdr = Some (patched hdr k c)"
    "patched hdr k c @ rest = patched (hdr @ rest) k c" "length (patched hdr k c) = n"
  using assms view_set_splice [of 2 k hdr c] by (simp_all add: splice_def)

section \<open>What a measured layer writes\<close>

lemma next_multiple_of_4_ge: "n \<le> next_multiple_of_4 n"
  unfolding next_multiple_of_4_def by presburger

lemma measure_header_len_bounds:
  assumes "measure_header_len p f r words options = CrOk n"
  shows "20 + length options \<le> n" "n \<le> 60" "n mod 4 = 0" "unat (word_of_nat (n div 4) :: byte) * 4 = n"
proof -
  obtain ihl :: byte where n: "n = unat ihl * 4" "\<not> ihl < 5" "\<not> 15 < ihl"
    and min: "20 + next_multiple_of_4 (length options) \<le> n"
    using assms
    by (auto simp: measure_header_len_def checked_add_len_def Let_def cr_bind_CrOk
        split: option.splits if_splits)
  have "unat ihl \<le> 15" using n(3) by (simp add: word_less_nat_alt)
  then show "n \<le> 60" "n mod 4 = 0" "unat (word_of_nat (n div 4) :: byte) * 4 = n" using n(1) by simp_all
  show "20 + length options \<le> n" using min next_multiple_of_4_ge [of "length options"] by simp
qed

lemma checked_add_len_CrOk: "checked_add_len p f a b = CrOk n \<longleftrightarrow> n = a + b \<and> a + b \<le> usize_max"
  by (auto simp: checked_add_len_def split: option.splits) (simp_all add: checked_add_def split: if_splits)

lemma checked_u16_len_CrOk: "checked_u16_len p f n = CrOk w \<longleftrightarrow> n < 65536 \<and> w = word_of_nat n"
  by (auto simp: checked_u16_len_def)

lemma unat_16_lt [simp]: "unat (w :: 16 word) < 65536"
  using unsigned_less [of w] by simp

lemma explicit_length_CrOk: "explicit_length p f e g = CrOk n \<Longrightarrow> n = g \<and> g < 65536"
  by (auto simp: explicit_length_def cr_bind_CrOk checked_u16_len_CrOk unat_of_nat_less
      split: option.splits if_splits)

lemma ipv4_measure_CrOk:
  assumes "ipv4_measure b ctx child = CrOk plan"
  shows "20 + length (ib_options b) \<le> pl_layer_len plan" "pl_layer_len plan \<le> 60"
    "unat (word_of_nat (pl_layer_len plan div 4) :: byte) * 4 = pl_layer_len plan"
    "pl_total_len plan = pl_layer_len plan + child_len child" "pl_total_len plan < 65536"
  using assms measure_header_len_bounds explicit_length_CrOk
  by (fastforce simp: ipv4_measure_def ipv4_measure_header_len_def cr_bind_CrOk checked_add_len_CrOk)+

lemma udp_measure_CrOk:
  assumes "udp_measure b ctx child = CrOk plan"
  shows "pl_layer_len plan = 8" "pl_total_len plan = 8 + child_len child" "pl_total_len plan < 65536"
  using assms explicit_length_CrOk
  by (fastforce simp: udp_measure_def cr_bind_CrOk checked_add_len_CrOk)+

lemma tcp_measure_CrOk:
  assumes "tcp_measure b ctx child = CrOk plan"
  shows "20 + length (tb_options b) \<le> pl_layer_len plan" "pl_layer_len plan \<le> 60"
    "unat (word_of_nat (pl_layer_len plan div 4) :: byte) * 4 = pl_layer_len plan"
    "pl_total_len plan = pl_layer_len plan + child_len child" "pl_total_len plan < 65536"
  using assms measure_header_len_bounds
  by (fastforce simp: tcp_measure_def tcp_measure_header_len_def cr_bind_CrOk checked_add_len_CrOk
      checked_u16_len_CrOk)+

lemma eth_writes:
  assumes "14 \<le> length bs"
  obtains hdr where "length hdr = 14" and "eth_write b ctx plan child bs = CrOk (hdr @ drop 14 bs)"
    and "set_fields
          [view_set 0 6 whole (or_else (eb_dst b) 0), view_set 6 12 whole (or_else (eb_src b) 0),
           view_set 12 14 whole (eth_type_into (or_else (eb_eth_type b)
             (if child_is child Ipv4 then EtIpv4 else EtReserverd 0)))] (take 14 bs) = Some hdr"
proof -
  let ?fs = "[view_set 0 6 whole (or_else (eb_dst b) 0), view_set 6 12 whole (or_else (eb_src b) 0),
           view_set 12 14 whole (eth_type_into (or_else (eb_eth_type b)
             (if child_is child Ipv4 then EtIpv4 else EtReserverd 0)))]"
  have "header_write 14 (set_fields ?fs)"
    by (rule header_write_set_fields) (auto intro!: header_write_view_set)
  from fields_write [OF this _ assms] obtain hdr where "length hdr = 14"
      "set_fields ?fs (take 14 bs) = Some hdr"
      "write_within 0 14 (\<lambda>hdr. craft_fetch (set_fields ?fs hdr)) bs = CrOk (hdr @ drop 14 bs)"
    by auto
  then show ?thesis using that [of hdr] by (simp only: eth_write_def Let_def)
qed

lemma ipv4_writes:
  assumes plan: "ipv4_measure b ctx cp = CrOk plan" and len: "length bs = pl_total_len plan"
  obtains hdr0 hdr c where "length hdr = pl_layer_len plan" and "length hdr0 = pl_layer_len plan"
    and "set_fields (ipv4_fields b (pl_layer_len plan) (word_of_nat (pl_total_len plan))
      (or_else (ib_protocol b)
        (if child_is child Icmp then ip_icmp else if child_is child Tcp then ip_tcp
         else if child_is child Udp then ip_udp else 255))) hdr0 = Some hdr"
    and "ib_checksum b = None \<Longrightarrow> ipv4_calculate_checksum hdr = TOk c"
    and "ipv4_write b ctx plan child bs = CrOk (patched hdr 10 c @ drop (pl_layer_len plan) bs)"
proof -
  let ?n = "pl_layer_len plan"
  let ?fs = "ipv4_fields b ?n (word_of_nat (pl_total_len plan))
      (or_else (ib_protocol b)
        (if child_is child Icmp then ip_icmp else if child_is child Tcp then ip_tcp
         else if child_is child Udp then ip_udp else 255))"
  note m = ipv4_measure_CrOk [OF plan]
  have n: "20 \<le> ?n" "?n \<le> length bs" using m len by simp_all
  obtain hdr0 where hdr0: "length hdr0 = ?n" "write_options (ib_options b) bs = CrOk (hdr0 @ drop ?n bs)"
    using write_options_header [OF m(1) n(2)] by blast
  have "?n \<le> length (hdr0 @ drop ?n bs)" using hdr0 by simp
  then obtain hdr where "length hdr = ?n" "set_fields ?fs (take ?n (hdr0 @ drop ?n bs)) = Some hdr"
      "write_within 0 ?n (\<lambda>hdr. craft_fetch (set_fields ?fs hdr)) (hdr0 @ drop ?n bs)
        = CrOk (hdr @ drop ?n (hdr0 @ drop ?n bs))"
    using fields_write [OF ipv4_fields_write n(1)] by blast
  then have hdr: "length hdr = ?n" "set_fields ?fs hdr0 = Some hdr"
      "write_within 0 ?n (\<lambda>hdr. craft_fetch (set_fields ?fs hdr)) (hdr0 @ drop ?n bs) = CrOk (hdr @ drop ?n bs)"
    using hdr0(1) by simp_all
  obtain calc where calc: "ipv4_calculate_checksum hdr = TOk calc"
  proof -
    have "\<exists>v. (view_raw 0 1 (FSpec 0x0F 0) hdr :: byte option) = Some v"
      using n(1) hdr(1) by (intro view_raw_in_range) simp_all
    then show ?thesis using that by (auto simp: ipv4_calculate_checksum_def ipv4_header_len_def)
  qed
  define c where "c = or_else (ib_checksum b) calc"
  have "write_within 0 ?n (\<lambda>hdr. of_tool (ipv4_set_checksum c hdr)) (hdr @ drop ?n bs)
      = CrOk (patched hdr 10 c @ drop ?n bs)"
    using n(1) hdr(1) checksum_write(1) [of 10 ?n hdr c]
    by (simp add: write_within_def ipv4_set_checksum_def of_tool_def)
  moreover have "slice (hdr @ drop ?n bs) 0 ?n = Some hdr" using hdr(1) by simp
  ultimately have "ipv4_write b ctx plan child bs = CrOk (patched hdr 10 c @ drop ?n bs)"
    using hdr(3) hdr0(2) m(5) calc
    by (cases "ib_checksum b")
      (simp_all add: ipv4_write_def Let_def checked_u16_len_def c_def or_else_def of_tool_def)
  moreover have "ib_checksum b = None \<Longrightarrow> ipv4_calculate_checksum hdr = TOk c"
    using calc by (simp add: c_def or_else_def)
  ultimately show ?thesis by (intro that [OF hdr(1) hdr0(1) hdr(2)])
qed

lemma udp_writes:
  assumes plan: "udp_measure b ctx cp = CrOk plan" and len: "length bs = pl_total_len plan"
  obtains hdr c where "length hdr = 8" and "set_fields (udp_fields b (word_of_nat (length bs))) (take 8 bs) = Some hdr"
    and "ub_checksum b = None \<Longrightarrow>
      (case cc_ipv4 ctx of
         Some ip \<Rightarrow> udp_calculate_checksum_ipv4 (hdr @ drop 8 bs) (ic_src ip) (ic_dst ip) = TOk c
       | None \<Rightarrow> c = 0)"
    and "udp_write b ctx plan child bs = CrOk (patched hdr 6 c @ drop 8 bs)"
proof -
  let ?fs = "udp_fields b (word_of_nat (length bs))"
  note m = udp_measure_CrOk [OF plan]
  have n: "8 \<le> length bs" using m len by simp
  from udp_fields_write order_refl n obtain hdr where hdr: "length hdr = 8"
      "set_fields ?fs (take 8 bs) = Some hdr"
      "write_within 0 8 (\<lambda>hdr. craft_fetch (set_fields ?fs hdr)) bs = CrOk (hdr @ drop 8 bs)"
    by (rule fields_write)
  obtain calc where calc: "case cc_ipv4 ctx of
         Some ip \<Rightarrow> udp_calculate_checksum_ipv4 (hdr @ drop 8 bs) (ic_src ip) (ic_dst ip) = TOk calc
       | None \<Rightarrow> calc = 0"
  proof (cases "cc_ipv4 ctx")
    case (Some ip)
    have "\<exists>v. (view_raw 4 6 whole (hdr @ drop 8 bs) :: 16 word option) = Some v"
      using hdr(1) by (intro view_raw_in_range) simp_all
    then show ?thesis using that Some by (auto simp: udp_calculate_checksum_ipv4_def udp_length_def Let_def)
  qed (use that in simp)
  define c where "c = or_else (ub_checksum b) calc"
  have "write_within 0 8 (\<lambda>hdr. of_tool (udp_set_checksum c hdr)) (hdr @ drop 8 bs)
      = CrOk (patched hdr 6 c @ drop 8 bs)"
    using hdr(1) checksum_write(1) [of 6 8 hdr c]
    by (simp add: write_within_def udp_set_checksum_def of_tool_def)
  then have "udp_write b ctx plan child bs = CrOk (patched hdr 6 c @ drop 8 bs)"
    using hdr(3) m(3) calc len
    by (cases "ub_checksum b"; cases "cc_ipv4 ctx")
      (simp_all add: udp_write_def Let_def checked_u16_len_def c_def or_else_def of_tool_def)
  moreover have "ub_checksum b = None \<Longrightarrow>
      (case cc_ipv4 ctx of
         Some ip \<Rightarrow> udp_calculate_checksum_ipv4 (hdr @ drop 8 bs) (ic_src ip) (ic_dst ip) = TOk c
       | None \<Rightarrow> c = 0)"
    using calc by (auto simp: c_def or_else_def split: option.splits)
  ultimately show ?thesis by (intro that [OF hdr(1,2)])
qed

lemma tcp_writes:
  assumes plan: "tcp_measure b ctx cp = CrOk plan" and len: "length bs = pl_total_len plan"
  obtains hdr0 hdr c where "length hdr = pl_layer_len plan" and "length hdr0 = pl_layer_len plan"
    and "set_fields (tcp_fields b (pl_layer_len plan)) hdr0 = Some hdr"
    and "tb_checksum b = None \<Longrightarrow>
      c = (case cc_ipv4 ctx of
         Some ip \<Rightarrow> tcp_calculate_checksum_ipv4 (hdr @ drop (pl_layer_len plan) bs) (ic_src ip) (ic_dst ip)
       | None \<Rightarrow> 0)"
    and "tcp_write b ctx plan child bs = CrOk (patched hdr 16 c @ drop (pl_layer_len plan) bs)"
proof -
  let ?n = "pl_layer_len plan"
  let ?fs = "tcp_fields b ?n"
  note m = tcp_measure_CrOk [OF plan]
  have n: "20 \<le> ?n" "?n \<le> length bs" using m len by simp_all
  obtain hdr0 where hdr0: "length hdr0 = ?n" "write_options (tb_options b) bs = CrOk (hdr0 @ drop ?n bs)"
    using write_options_header [OF m(1) n(2)] by blast
  have "?n \<le> length (hdr0 @ drop ?n bs)" using hdr0 by simp
  then obtain hdr where "length hdr = ?n" "set_fields ?fs (take ?n (hdr0 @ drop ?n bs)) = Some hdr"
      "write_within 0 ?n (\<lambda>hdr. craft_fetch (set_fields ?fs hdr)) (hdr0 @ drop ?n bs)
        = CrOk (hdr @ drop ?n (hdr0 @ drop ?n bs))"
    using fields_write [OF tcp_fields_write n(1)] by blast
  then have hdr: "length hdr = ?n" "set_fields ?fs hdr0 = Some hdr"
      "write_within 0 ?n (\<lambda>hdr. craft_fetch (set_fields ?fs hdr)) (hdr0 @ drop ?n bs) = CrOk (hdr @ drop ?n bs)"
    using hdr0(1) by simp_all
  define c where "c = or_else (tb_checksum b) (case cc_ipv4 ctx of
         Some ip \<Rightarrow> tcp_calculate_checksum_ipv4 (hdr @ drop ?n bs) (ic_src ip) (ic_dst ip)
       | None \<Rightarrow> 0)"
  have "write_within 0 ?n (\<lambda>hdr. of_tool (tcp_set_checksum c hdr)) (hdr @ drop ?n bs)
      = CrOk (patched hdr 16 c @ drop ?n bs)"
    using n(1) hdr(1) checksum_write(1) [of 16 ?n hdr c]
    by (simp add: write_within_def tcp_set_checksum_def of_tool_def)
  then have "tcp_write b ctx plan child bs = CrOk (patched hdr 16 c @ drop ?n bs)"
    using hdr(3) hdr0(2)
    by (cases "tb_checksum b"; cases "cc_ipv4 ctx") (simp_all add: tcp_write_def Let_def c_def or_else_def)
  moreover have "tb_checksum b = None \<Longrightarrow>
      c = (case cc_ipv4 ctx of
         Some ip \<Rightarrow> tcp_calculate_checksum_ipv4 (hdr @ drop ?n bs) (ic_src ip) (ic_dst ip)
       | None \<Rightarrow> 0)"
    by (simp add: c_def or_else_def)
  ultimately show ?thesis by (intro that [OF hdr(1) hdr0(1) hdr(2)])
qed

lemma icmp_echo_writes:
  assumes "8 \<le> length bs"
  obtains hdr where "length hdr = 8"
    and "icmp_echo_write b ctx plan child bs =
      CrOk (patched hdr 2 (or_else (mb_checksum b) (icmp_calculate_checksum (hdr @ drop 8 bs))) @ drop 8 bs)"
proof -
  from icmp_fields_write order_refl assms obtain hdr where hdr: "length hdr = 8"
      "write_within 0 8 (\<lambda>hdr. craft_fetch (set_fields (icmp_echo_fields b) hdr)) bs = CrOk (hdr @ drop 8 bs)"
    by (rule fields_write)
  have "write_within 0 8 (\<lambda>hdr. craft_fetch (view_set 2 4 whole c hdr)) (hdr @ drop 8 bs)
      = CrOk (patched hdr 2 c @ drop 8 bs)" for c :: "16 word"
    using hdr(1) checksum_write(1) [of 2 8 hdr c] by (simp add: write_within_def)
  then show ?thesis using that [OF hdr(1)] hdr(2) by (simp add: icmp_echo_write_def Let_def)
qed

section \<open>The contract of a craft layer\<close>

text \<open>
  The shape of the buffer while a layer is written: its inner packet is complete behind its header.
  A layer keeps the contract if its plan reserves exactly its header and the inner packet, and writing
  it fills the header and leaves the inner packet alone.
\<close>

locale craftable_layer =
  fixes l :: craft_layer
  assumes measure_total: "cl_measure l ctx cp = CrOk plan \<Longrightarrow>
      pl_total_len plan = pl_layer_len plan + child_len cp"
    and measure_bound: "cl_measure l ctx (Some c) = CrOk plan \<Longrightarrow> pl_total_len plan \<le> usize_max"
    and measure_returns: "cl_measure l ctx cp \<noteq> CrPanic"
    and write_header: "cl_measure l ctx cp = CrOk plan \<Longrightarrow> length bs = pl_total_len plan \<Longrightarrow>
      \<exists>hdr. length hdr = pl_layer_len plan \<and> cl_write l ctx plan child bs = CrOk (hdr @ drop (pl_layer_len plan) bs)"
begin

lemma validate_plan_ok:
  assumes "cl_measure l ctx cp = CrOk plan"
  shows "validate_plan l plan cp = CrOk ()"
  using measure_total [OF assms] measure_bound [of ctx _ plan] assms
  by (cases cp) (auto simp: validate_plan_def child_len_def checked_add_len_def checked_add_def)

lemma write_length:
  assumes "cl_measure l ctx cp = CrOk plan" and "length bs = pl_total_len plan"
  obtains bs' where "cl_write l ctx plan child bs = CrOk bs'" and "length bs' = length bs"
    and "drop (pl_layer_len plan) bs' = drop (pl_layer_len plan) bs"
proof -
  obtain hdr where "length hdr = pl_layer_len plan"
      "cl_write l ctx plan child bs = CrOk (hdr @ drop (pl_layer_len plan) bs)"
    using write_header [OF assms] by blast
  then show ?thesis
    using that [of "hdr @ drop (pl_layer_len plan) bs"] assms(2) measure_total [OF assms(1)] by simp
qed

end

interpretation eth: craftable_layer "eth_layer b" for b
proof unfold_locales
  fix ctx cp plan and bs :: bytes and child
  assume plan: "cl_measure (eth_layer b) ctx cp = CrOk plan"
  then have p: "pl_layer_len plan = 14" "pl_total_len plan = 14 + child_len cp"
    by (auto simp: eth_layer_def eth_measure_def cr_bind_CrOk checked_add_len_CrOk)
  then show "pl_total_len plan = pl_layer_len plan + child_len cp" by simp
  assume len: "length bs = pl_total_len plan"
  then have "14 \<le> length bs" using p by simp
  then obtain hdr where "length hdr = 14" "eth_write b ctx plan child bs = CrOk (hdr @ drop 14 bs)"
    by (rule eth_writes)
  then show "\<exists>hdr. length hdr = pl_layer_len plan \<and>
      cl_write (eth_layer b) ctx plan child bs = CrOk (hdr @ drop (pl_layer_len plan) bs)"
    using p by (auto simp: eth_layer_def)
next
  fix ctx c plan assume "cl_measure (eth_layer b) ctx (Some c) = CrOk plan"
  then show "pl_total_len plan \<le> usize_max"
    by (auto simp: eth_layer_def eth_measure_def cr_bind_CrOk checked_add_len_CrOk)
qed (simp add: eth_layer_def eth_measure_def cr_bind_CrPanic checked_add_len_def split: option.split)

interpretation ipv4: craftable_layer "ipv4_layer b" for b
proof unfold_locales
  fix ctx cp plan and bs :: bytes and child
  assume "cl_measure (ipv4_layer b) ctx cp = CrOk plan"
  then have plan: "ipv4_measure b ctx cp = CrOk plan" by (simp add: ipv4_layer_def)
  then show "pl_total_len plan = pl_layer_len plan + child_len cp" by (rule ipv4_measure_CrOk)
  assume len: "length bs = pl_total_len plan"
  from plan len obtain hdr c where "length hdr = pl_layer_len plan"
      "ipv4_write b ctx plan child bs = CrOk (patched hdr 10 c @ drop (pl_layer_len plan) bs)"
    by (rule ipv4_writes)
  then show "\<exists>hdr. length hdr = pl_layer_len plan \<and>
      cl_write (ipv4_layer b) ctx plan child bs = CrOk (hdr @ drop (pl_layer_len plan) bs)"
    using checksum_write(3) [of 10 "pl_layer_len plan" hdr c] ipv4_measure_CrOk(1) [OF plan]
    by (auto simp: ipv4_layer_def)
next
  fix ctx c plan assume "cl_measure (ipv4_layer b) ctx (Some c) = CrOk plan"
  then show "pl_total_len plan \<le> usize_max"
    using ipv4_measure_CrOk(5) [of b ctx "Some c" plan] by (simp add: ipv4_layer_def usize_max_def)
qed (auto simp: ipv4_layer_def ipv4_measure_def ipv4_measure_header_len_def measure_header_len_def Let_def
    cr_bind_CrPanic checked_add_len_def explicit_length_def checked_u16_len_def split: option.splits if_splits)

interpretation udp: craftable_layer "udp_layer b" for b
proof unfold_locales
  fix ctx cp plan and bs :: bytes and child
  assume "cl_measure (udp_layer b) ctx cp = CrOk plan"
  then have plan: "udp_measure b ctx cp = CrOk plan" by (simp add: udp_layer_def)
  note m = udp_measure_CrOk [OF plan]
  then show "pl_total_len plan = pl_layer_len plan + child_len cp" by simp
  assume len: "length bs = pl_total_len plan"
  from plan len obtain hdr c where "length hdr = 8"
      "udp_write b ctx plan child bs = CrOk (patched hdr 6 c @ drop 8 bs)"
    by (rule udp_writes)
  then show "\<exists>hdr. length hdr = pl_layer_len plan \<and>
      cl_write (udp_layer b) ctx plan child bs = CrOk (hdr @ drop (pl_layer_len plan) bs)"
    using checksum_write(3) [of 6 8 hdr c] m by (auto simp: udp_layer_def)
next
  fix ctx c plan assume "cl_measure (udp_layer b) ctx (Some c) = CrOk plan"
  then show "pl_total_len plan \<le> usize_max"
    using udp_measure_CrOk(3) [of b ctx "Some c" plan] by (simp add: udp_layer_def usize_max_def)
qed (auto simp: udp_layer_def udp_measure_def cr_bind_CrPanic checked_add_len_def explicit_length_def
    checked_u16_len_def split: option.splits if_splits)

interpretation tcp: craftable_layer "tcp_layer b" for b
proof unfold_locales
  fix ctx cp plan and bs :: bytes and child
  assume "cl_measure (tcp_layer b) ctx cp = CrOk plan"
  then have plan: "tcp_measure b ctx cp = CrOk plan" by (simp add: tcp_layer_def)
  then show "pl_total_len plan = pl_layer_len plan + child_len cp" by (rule tcp_measure_CrOk)
  assume len: "length bs = pl_total_len plan"
  from plan len obtain hdr c where "length hdr = pl_layer_len plan"
      "tcp_write b ctx plan child bs = CrOk (patched hdr 16 c @ drop (pl_layer_len plan) bs)"
    by (rule tcp_writes)
  then show "\<exists>hdr. length hdr = pl_layer_len plan \<and>
      cl_write (tcp_layer b) ctx plan child bs = CrOk (hdr @ drop (pl_layer_len plan) bs)"
    using checksum_write(3) [of 16 "pl_layer_len plan" hdr c] tcp_measure_CrOk(1) [OF plan]
    by (auto simp: tcp_layer_def)
next
  fix ctx c plan assume "cl_measure (tcp_layer b) ctx (Some c) = CrOk plan"
  then show "pl_total_len plan \<le> usize_max"
    using tcp_measure_CrOk(5) [of b ctx "Some c" plan] by (simp add: tcp_layer_def usize_max_def)
qed (auto simp: tcp_layer_def tcp_measure_def tcp_measure_header_len_def measure_header_len_def Let_def
    cr_bind_CrPanic checked_add_len_def checked_u16_len_def split: option.splits if_splits)

interpretation icmp_echo: craftable_layer "icmp_echo_layer b" for b
proof unfold_locales
  fix ctx cp plan and bs :: bytes and child
  assume plan: "cl_measure (icmp_echo_layer b) ctx cp = CrOk plan"
  then have p: "pl_layer_len plan = 8" "pl_total_len plan = 8 + child_len cp"
    by (auto simp: icmp_echo_layer_def icmp_echo_measure_def cr_bind_CrOk checked_add_len_CrOk)
  then show "pl_total_len plan = pl_layer_len plan + child_len cp" by simp
  assume len: "length bs = pl_total_len plan"
  then have "8 \<le> length bs" using p by simp
  then obtain hdr where "length hdr = 8" "icmp_echo_write b ctx plan child bs =
      CrOk (patched hdr 2 (or_else (mb_checksum b) (icmp_calculate_checksum (hdr @ drop 8 bs))) @ drop 8 bs)"
    by (rule icmp_echo_writes)
  then show "\<exists>hdr. length hdr = pl_layer_len plan \<and>
      cl_write (icmp_echo_layer b) ctx plan child bs = CrOk (hdr @ drop (pl_layer_len plan) bs)"
    using p checksum_write(3) [of 2 8 hdr] by (auto simp: icmp_echo_layer_def)
next
  fix ctx c plan assume "cl_measure (icmp_echo_layer b) ctx (Some c) = CrOk plan"
  then show "pl_total_len plan \<le> usize_max"
    by (auto simp: icmp_echo_layer_def icmp_echo_measure_def cr_bind_CrOk checked_add_len_CrOk)
qed (auto simp: icmp_echo_layer_def icmp_echo_measure_def validate_message_type_def cr_bind_CrPanic
    checked_add_len_def split: option.splits if_splits)

interpretation raw: craftable_layer "raw_layer payload" for payload
  by unfold_locales
    (auto simp: raw_layer_def raw_measure_def raw_write_def child_len_def split: if_splits)

lemma builder_craftable: "craftable_layer (builder_layer b)"
  by (cases b)
    (simp_all add: eth.craftable_layer_axioms ipv4.craftable_layer_axioms udp.craftable_layer_axioms
      tcp.craftable_layer_axioms icmp_echo.craftable_layer_axioms raw.craftable_layer_axioms)

section \<open>Building in place\<close>

text \<open>
  The reference: every layer is built around the finished packet of the layers inside it, in a buffer
  of its own.
\<close>

definition shift_layer :: "nat \<Rightarrow> layer \<Rightarrow> layer" where
  "shift_layer n l = l\<lparr>layer_offset := layer_offset l + n\<rparr>"

definition inner_plan :: "packet \<Rightarrow> craft_child_plan option" where
  "inner_plan pkt =
    (case pkt_layers pkt of [] \<Rightarrow> None
     | x # _ \<Rightarrow> Some \<lparr>cp_protocol = layer_protocol x, cp_len = length (pkt_bytes pkt)\<rparr>)"

definition inner_child :: "nat \<Rightarrow> packet \<Rightarrow> craft_child option" where
  "inner_child n pkt =
    (case pkt_layers pkt of [] \<Rightarrow> None
     | x # _ \<Rightarrow> Some \<lparr>ch_protocol = layer_protocol x, ch_offset = n, ch_len = length (pkt_bytes pkt)\<rparr>)"

fun nested_build :: "craft_context \<Rightarrow> packet_stack \<Rightarrow> packet craft_result" where
  "nested_build ctx [] = CrOk \<lparr>pkt_bytes = [], pkt_layers = []\<rparr>"
| "nested_build ctx (l # ls) =
    cr_bind (nested_build (cl_child_context l ctx) ls) (\<lambda>inner.
    cr_bind (cl_measure l ctx (inner_plan inner)) (\<lambda>plan.
    let n = pl_layer_len plan in
    cr_bind (cl_write l ctx plan (inner_child n inner) (replicate n 0 @ pkt_bytes inner)) (\<lambda>bs.
    CrOk \<lparr>pkt_bytes = bs,
          pkt_layers = \<lparr>layer_protocol = cl_protocol l, layer_offset = 0, layer_len = n\<rparr>
            # map (shift_layer n) (pkt_layers inner)\<rparr>)))"

definition span :: "measured_layer list \<Rightarrow> nat" where
  "span ms = (case ms of [] \<Rightarrow> 0 | m # _ \<Rightarrow> pl_total_len (ml_plan m))"

fun with_offsets :: "nat \<Rightarrow> measured_layer list \<Rightarrow> measured_layer list" where
  "with_offsets n [] = []"
| "with_offsets n (m # ms) = m\<lparr>ml_offset := n\<rparr> # with_offsets (n + pl_layer_len (ml_plan m)) ms"

fun stacked :: "measured_layer list \<Rightarrow> bool" where
  "stacked [] = True"
| "stacked (m # ms) = (span (m # ms) = pl_layer_len (ml_plan m) + span ms \<and> stacked ms)"

lemma set_layer_offsets_eq:
  "stacked ms \<Longrightarrow> n + span ms \<le> usize_max \<Longrightarrow> set_layer_offsets n ms = CrOk (with_offsets n ms)"
proof (induction ms arbitrary: n)
  case (Cons m ms)
  then have "set_layer_offsets (n + pl_layer_len (ml_plan m)) ms = CrOk (with_offsets (n + pl_layer_len (ml_plan m)) ms)"
    by simp
  moreover have "checked_add_len p f n (pl_layer_len (ml_plan m)) = CrOk (n + pl_layer_len (ml_plan m))" for p f
    using Cons.prems by (simp add: checked_add_len_CrOk)
  ultimately show ?case by simp
qed simp

lemma child_of_with_offsets: "child_of plan (with_offsets n ms) = child_of plan ms"
  by (cases ms) (simp_all add: child_of_def)

lemma collect_layers_shift: "collect_layers (with_offsets (k + n) ms) = map (shift_layer n) (collect_layers (with_offsets k ms))"
proof (induction ms arbitrary: k)
  case (Cons m ms)
  have "with_offsets (k + n + pl_layer_len (ml_plan m)) ms = with_offsets (k + pl_layer_len (ml_plan m) + n) ms"
    by (simp add: ac_simps)
  then show ?case
    using Cons.IH [of "k + pl_layer_len (ml_plan m)"]
    by (simp add: collect_layers_def shift_layer_def)
qed (simp add: collect_layers_def)

lemma with_offsets_length [simp]: "length (with_offsets n ms) = length ms"
  by (induction ms arbitrary: n) simp_all

text \<open>The measuring pass and the writing pass against the reference.\<close>

definition built :: "packet_stack \<Rightarrow> measured_layer list \<Rightarrow> packet \<Rightarrow> bool" where
  "built ls ms pkt =
    (length ms = length ls \<and> stacked ms \<and> length (pkt_bytes pkt) = span ms \<and>
     pkt_layers pkt = collect_layers (with_offsets 0 ms) \<and>
     (\<forall>pre. length pre + span ms \<le> usize_max \<longrightarrow>
       write_measured ls (with_offsets (length pre) ms) (pre @ replicate (span ms) 0) = CrOk (pre @ pkt_bytes pkt)))"

lemma built_plans:
  assumes "built ls ms pkt"
  shows "inner_plan pkt = child_plan_of ms" "inner_child (pl_layer_len plan) pkt = child_of plan ms"
    "child_len (child_plan_of ms) = span ms"
  using assms
  by (cases ms; simp add: built_def inner_plan_def inner_child_def child_plan_of_def child_of_def
      collect_layers_def span_def child_len_def)+

lemma built_Cons:
  assumes l: "craftable_layer l" and inner: "built ls ms pkt"
    and plan: "cl_measure l ctx (child_plan_of ms) = CrOk plan"
  defines "n \<equiv> pl_layer_len plan"
  defines "m \<equiv> \<lparr>ml_protocol = cl_protocol l, ml_plan = plan, ml_context = ctx, ml_offset = 0\<rparr>"
  shows "\<exists>bs. cl_write l ctx plan (inner_child n pkt) (replicate n 0 @ pkt_bytes pkt) = CrOk bs \<and>
    built (l # ls) (m # ms)
      \<lparr>pkt_bytes = bs, pkt_layers = \<lparr>layer_protocol = cl_protocol l, layer_offset = 0, layer_len = n\<rparr>
         # map (shift_layer n) (pkt_layers pkt)\<rparr>"
proof -
  note i = inner [unfolded built_def]
  have total: "pl_total_len plan = n + span ms"
    using craftable_layer.measure_total [OF l plan] built_plans(3) [OF inner] by (simp add: n_def)
  have len: "length (replicate n 0 @ pkt_bytes pkt) = pl_total_len plan" using i total by simp
  obtain hdr where hdr: "length hdr = n"
      "cl_write l ctx plan (inner_child n pkt) (replicate n 0 @ pkt_bytes pkt) = CrOk (hdr @ pkt_bytes pkt)"
    using craftable_layer.write_header [OF l plan len, of "inner_child n pkt"] by (auto simp: n_def)
  have "write_measured (l # ls) (with_offsets (length pre) (m # ms)) (pre @ replicate (span (m # ms)) 0)
      = CrOk (pre @ hdr @ pkt_bytes pkt)" if fits: "length pre + span (m # ms) \<le> usize_max" for pre
  proof -
    have s: "span (m # ms) = n + span ms" by (simp add: span_def m_def total)
    have "write_measured ls (with_offsets (length (pre @ replicate n 0)) ms)
        ((pre @ replicate n 0) @ replicate (span ms) 0) = CrOk ((pre @ replicate n 0) @ pkt_bytes pkt)"
      using i fits s by (intro i [THEN conjunct2, THEN conjunct2, THEN conjunct2, THEN conjunct2, rule_format]) simp
    then have "write_measured ls (with_offsets (length pre + n) ms) (pre @ replicate (span (m # ms)) 0)
        = CrOk (pre @ replicate n 0 @ pkt_bytes pkt)"
      by (simp add: s replicate_add)
    moreover have "checked_add_len p f (length pre) (pl_total_len plan) = CrOk (length pre + pl_total_len plan)" for p f
      using fits by (simp add: checked_add_len_CrOk span_def m_def)
    moreover have "cl_write l ctx plan (child_of plan ms) (replicate n 0 @ pkt_bytes pkt) = CrOk (hdr @ pkt_bytes pkt)"
      using hdr(2) built_plans(2) [OF inner, of plan] by (simp add: n_def)
    ultimately show ?thesis
      using i total
      by (simp add: m_def n_def child_of_with_offsets write_within_def slice_def)
  qed
  moreover have "length (hdr @ pkt_bytes pkt) = span (m # ms)" "stacked (m # ms)" "length (m # ms) = length (l # ls)"
    using hdr(1) i total by (simp_all add: span_def m_def n_def)
  moreover have "collect_layers (with_offsets 0 (m # ms))
      = \<lparr>layer_protocol = cl_protocol l, layer_offset = 0, layer_len = n\<rparr> # map (shift_layer n) (pkt_layers pkt)"
    using i collect_layers_shift [of 0 n ms] by (simp add: collect_layers_def m_def n_def)
  ultimately have "built (l # ls) (m # ms)
      \<lparr>pkt_bytes = hdr @ pkt_bytes pkt, pkt_layers = \<lparr>layer_protocol = cl_protocol l, layer_offset = 0, layer_len = n\<rparr>
         # map (shift_layer n) (pkt_layers pkt)\<rparr>"
    by (simp add: built_def)
  then show ?thesis using hdr(2) by blast
qed

text \<open>The measuring pass fails exactly as the reference does, and else both build the same.\<close>

lemma measure_nested:
  assumes "\<forall>l \<in> set ls. craftable_layer l"
  shows "case measure_layers (zip ls (craft_contexts ctx ls)) of
      CrOk ms \<Rightarrow> \<exists>pkt. nested_build ctx ls = CrOk pkt \<and> built ls ms pkt
    | CrErr e \<Rightarrow> nested_build ctx ls = CrErr e
    | CrPanic \<Rightarrow> False"
  using assms
proof (induction ls arbitrary: ctx)
  case (Cons l ls)
  have l: "craftable_layer l" using Cons.prems by simp
  note IH = Cons.IH [of "cl_child_context l ctx"]
  show ?case
  proof (cases "measure_layers (zip ls (craft_contexts (cl_child_context l ctx) ls))")
    case (CrOk ms)
    then obtain pkt where pkt: "nested_build (cl_child_context l ctx) ls = CrOk pkt" "built ls ms pkt"
      using IH Cons.prems by auto
    show ?thesis
    proof (cases "cl_measure l ctx (child_plan_of ms)")
      case (CrOk plan)
      from built_Cons [OF l pkt(2) this] obtain bs where
        "cl_write l ctx plan (inner_child (pl_layer_len plan) pkt) (replicate (pl_layer_len plan) 0 @ pkt_bytes pkt) = CrOk bs"
        "built (l # ls) (\<lparr>ml_protocol = cl_protocol l, ml_plan = plan, ml_context = ctx, ml_offset = 0\<rparr> # ms)
          \<lparr>pkt_bytes = bs, pkt_layers = \<lparr>layer_protocol = cl_protocol l, layer_offset = 0, layer_len = pl_layer_len plan\<rparr>
             # map (shift_layer (pl_layer_len plan)) (pkt_layers pkt)\<rparr>"
        by blast
      then show ?thesis
        using \<open>measure_layers (zip ls (craft_contexts (cl_child_context l ctx) ls)) = CrOk ms\<close> pkt(1) CrOk
          craftable_layer.validate_plan_ok [OF l CrOk] built_plans(1) [OF pkt(2)]
        by (simp add: Let_def)
    qed (use \<open>measure_layers (zip ls (craft_contexts (cl_child_context l ctx) ls)) = CrOk ms\<close> pkt
          built_plans(1) [OF pkt(2)] craftable_layer.measure_returns [OF l] in simp_all)
  qed (use IH Cons.prems in simp_all)
qed (simp add: built_def span_def collect_layers_def)

lemma build_nested:
  assumes "stack \<noteq> []" and "\<forall>l \<in> set stack. craftable_layer l"
    and "\<And>pkt. nested_build default_context stack = CrOk pkt \<Longrightarrow> length (pkt_bytes pkt) \<le> usize_max"
  shows "stack_build stack = nested_build default_context stack"
    "stack_to_bytes stack = cr_bind (nested_build default_context stack) (\<lambda>pkt. CrOk (pkt_bytes pkt))"
proof -
  have "stack_build stack = nested_build default_context stack \<and>
    stack_to_bytes stack = cr_bind (nested_build default_context stack) (\<lambda>pkt. CrOk (pkt_bytes pkt))"
  proof (cases "measure_layers (zip stack (craft_contexts default_context stack))")
    case (CrOk ms)
    then obtain pkt where pkt: "nested_build default_context stack = CrOk pkt" "built stack ms pkt"
      using measure_nested [OF assms(2), of default_context] by auto
    note b = pkt(2) [unfolded built_def]
    have fits: "0 + span ms \<le> usize_max" using assms(3) [OF pkt(1)] b by simp
    then have "set_layer_offsets 0 ms = CrOk (with_offsets 0 ms)" using b set_layer_offsets_eq by blast
    moreover obtain m ms' where "ms = m # ms'" using b assms(1) by (cases ms) auto
    moreover have "write_measured stack (with_offsets 0 ms) (replicate (span ms) 0) = CrOk (pkt_bytes pkt)"
      using b [THEN conjunct2, THEN conjunct2, THEN conjunct2, THEN conjunct2, rule_format, of "[]"] fits by simp
    ultimately show ?thesis
      using CrOk assms(1) pkt(1) b
      by (simp add: stack_build_def stack_to_bytes_def measure_stack_def span_def)
  qed (use measure_nested [OF assms(2), of default_context] assms(1) in
      \<open>simp_all add: stack_build_def stack_to_bytes_def measure_stack_def\<close>)
  then show "stack_build stack = nested_build default_context stack"
    "stack_to_bytes stack = cr_bind (nested_build default_context stack) (\<lambda>pkt. CrOk (pkt_bytes pkt))"
    by simp_all
qed

section \<open>Properties of crafted packets\<close>

lemma measure_small:
  assumes "cl_measure (builder_layer b) ctx cp = CrOk plan"
  shows "pl_total_len plan \<le> usize_max \<or> (\<exists>p. b = RawB p \<and> cp = None \<and> pl_total_len plan = length p)"
proof (cases cp)
  case None
  then show ?thesis
    using assms ipv4_measure_CrOk(2,4) [of _ ctx None plan] udp_measure_CrOk(2) [of _ ctx None plan]
      tcp_measure_CrOk(2,4) [of _ ctx None plan]
    by (cases b)
      (fastforce simp: eth_layer_def eth_measure_def ipv4_layer_def udp_layer_def tcp_layer_def icmp_echo_layer_def
        icmp_echo_measure_def raw_layer_def raw_measure_def cr_bind_CrOk checked_add_len_CrOk child_len_def
        usize_max_def)+
next
  case (Some c)
  then show ?thesis using assms craftable_layer.measure_bound [OF builder_craftable] by blast
qed

text \<open>One step of the reference, for a layer that keeps the contract.\<close>

lemma nested_build_ConsE:
  assumes "nested_build ctx (l # ls) = CrOk pkt" and "craftable_layer l"
    and len: "\<And>inner. nested_build (cl_child_context l ctx) ls = CrOk inner \<Longrightarrow>
      child_len (inner_plan inner) = length (pkt_bytes inner)"
  obtains inner plan hdr where "nested_build (cl_child_context l ctx) ls = CrOk inner"
    and "cl_measure l ctx (inner_plan inner) = CrOk plan"
    and "cl_write l ctx plan (inner_child (pl_layer_len plan) inner) (replicate (pl_layer_len plan) 0 @ pkt_bytes inner)
      = CrOk (hdr @ pkt_bytes inner)"
    and "length hdr = pl_layer_len plan"
    and "length (replicate (pl_layer_len plan) 0 @ pkt_bytes inner) = pl_total_len plan"
    and "pkt = \<lparr>pkt_bytes = hdr @ pkt_bytes inner,
      pkt_layers = \<lparr>layer_protocol = cl_protocol l, layer_offset = 0, layer_len = pl_layer_len plan\<rparr>
        # map (shift_layer (pl_layer_len plan)) (pkt_layers inner)\<rparr>"
proof -
  obtain inner plan bs where run: "nested_build (cl_child_context l ctx) ls = CrOk inner"
      "cl_measure l ctx (inner_plan inner) = CrOk plan"
      "cl_write l ctx plan (inner_child (pl_layer_len plan) inner) (replicate (pl_layer_len plan) 0 @ pkt_bytes inner)
        = CrOk bs"
      "pkt = \<lparr>pkt_bytes = bs, pkt_layers = \<lparr>layer_protocol = cl_protocol l, layer_offset = 0, layer_len = pl_layer_len plan\<rparr>
        # map (shift_layer (pl_layer_len plan)) (pkt_layers inner)\<rparr>"
    using assms(1) by (auto simp: cr_bind_CrOk Let_def)
  have total: "length (replicate (pl_layer_len plan) 0 @ pkt_bytes inner) = pl_total_len plan"
    using craftable_layer.measure_total [OF assms(2) run(2)] len [OF run(1)] by simp
  from craftable_layer.write_header [OF assms(2) run(2) total, of "inner_child (pl_layer_len plan) inner"]
  obtain hdr where "length hdr = pl_layer_len plan" "bs = hdr @ pkt_bytes inner" using run(3) by auto
  then show ?thesis using that [of inner plan hdr] run total by simp
qed

definition tiles :: "packet \<Rightarrow> bool" where
  "tiles pkt =
    (sum_list (map layer_len (pkt_layers pkt)) = length (pkt_bytes pkt) \<and>
     (\<forall>i < length (pkt_layers pkt).
        layer_offset (pkt_layers pkt ! i) = sum_list (map layer_len (take i (pkt_layers pkt)))))"

lemma tiles_inner_plan: "tiles pkt \<Longrightarrow> child_len (inner_plan pkt) = length (pkt_bytes pkt)"
  by (cases "pkt_layers pkt") (simp_all add: tiles_def inner_plan_def child_len_def)

lemma shift_layer_simps [simp]:
  "layer_len (shift_layer n l) = layer_len l" "layer_protocol (shift_layer n l) = layer_protocol l"
  "layer_offset (shift_layer n l) = layer_offset l + n"
  by (simp_all add: shift_layer_def)

lemma nested_build_tiles:
  assumes "nested_build ctx ls = CrOk pkt" and "\<forall>l \<in> set ls. craftable_layer l"
  shows "tiles pkt \<and> map layer_protocol (pkt_layers pkt) = map cl_protocol ls"
  using assms
proof (induction ls arbitrary: ctx pkt)
  case (Cons l ls)
  have IH: "tiles inner \<and> map layer_protocol (pkt_layers inner) = map cl_protocol ls"
    if "nested_build (cl_child_context l ctx) ls = CrOk inner" for inner
    using Cons.IH [OF that] Cons.prems(2) by simp
  have l: "craftable_layer l" using Cons.prems(2) by simp
  have len: "child_len (inner_plan inner) = length (pkt_bytes inner)"
    if "nested_build (cl_child_context l ctx) ls = CrOk inner" for inner
    using IH [OF that] tiles_inner_plan by blast
  show ?case
  proof (rule nested_build_ConsE [OF Cons.prems(1) l])
    fix inner plan hdr
    assume i: "nested_build (cl_child_context l ctx) ls = CrOk inner"
      and hdr: "length hdr = pl_layer_len plan"
      and pkt: "pkt = \<lparr>pkt_bytes = hdr @ pkt_bytes inner,
        pkt_layers = \<lparr>layer_protocol = cl_protocol l, layer_offset = 0, layer_len = pl_layer_len plan\<rparr>
          # map (shift_layer (pl_layer_len plan)) (pkt_layers inner)\<rparr>"
    have "layer_offset (pkt_layers pkt ! k) = sum_list (map layer_len (take k (pkt_layers pkt)))"
      if "k < length (pkt_layers pkt)" for k
      using that IH [OF i] by (cases k) (auto simp: pkt tiles_def take_map comp_def)
    then show ?thesis using IH [OF i] hdr by (simp add: pkt tiles_def comp_def)
  qed (rule len)
qed (simp add: tiles_def)

lemma nested_stepE:
  assumes "nested_build ctx (map builder_layer (b # bs)) = CrOk pkt"
  obtains inner plan hdr where "nested_build (cl_child_context (builder_layer b) ctx) (map builder_layer bs) = CrOk inner"
    and "cl_measure (builder_layer b) ctx (inner_plan inner) = CrOk plan"
    and "cl_write (builder_layer b) ctx plan (inner_child (pl_layer_len plan) inner)
      (replicate (pl_layer_len plan) 0 @ pkt_bytes inner) = CrOk (hdr @ pkt_bytes inner)"
    and "length hdr = pl_layer_len plan"
    and "length (replicate (pl_layer_len plan) 0 @ pkt_bytes inner) = pl_total_len plan"
    and "pkt = \<lparr>pkt_bytes = hdr @ pkt_bytes inner,
      pkt_layers = \<lparr>layer_protocol = cl_protocol (builder_layer b), layer_offset = 0, layer_len = pl_layer_len plan\<rparr>
        # map (shift_layer (pl_layer_len plan)) (pkt_layers inner)\<rparr>"
proof (rule nested_build_ConsE [of ctx "builder_layer b" "map builder_layer bs" pkt, OF _ builder_craftable])
  show "nested_build ctx (builder_layer b # map builder_layer bs) = CrOk pkt" using assms by simp
  fix inner assume "nested_build (cl_child_context (builder_layer b) ctx) (map builder_layer bs) = CrOk inner"
  then show "child_len (inner_plan inner) = length (pkt_bytes inner)"
    using nested_build_tiles [of _ "map builder_layer bs" inner] builder_craftable tiles_inner_plan by fastforce
qed (rule that)

text \<open>Whatever is built was built by the reference.\<close>

lemma nested_build_small:
  assumes "nested_build ctx (map builder_layer bs) = CrOk pkt" and "\<And>p. bs \<noteq> [RawB p] \<or> length p \<le> usize_max"
  shows "length (pkt_bytes pkt) \<le> usize_max"
proof (cases bs)
  case (Cons b rest)
  have ok: "\<forall>l \<in> set (map builder_layer rest). craftable_layer l" using builder_craftable by auto
  obtain inner plan hdr where
      i: "nested_build (cl_child_context (builder_layer b) ctx) (map builder_layer rest) = CrOk inner"
    and plan: "cl_measure (builder_layer b) ctx (inner_plan inner) = CrOk plan"
    and len: "length (replicate (pl_layer_len plan) 0 @ pkt_bytes inner) = pl_total_len plan"
    and hdr: "length hdr = pl_layer_len plan"
    and pkt: "pkt_bytes pkt = hdr @ pkt_bytes inner"
  proof (rule nested_stepE [OF assms(1) [unfolded Cons]])
  qed (rule that, simp_all)
  have "length (pkt_bytes pkt) = pl_total_len plan" using len hdr by (simp add: pkt)
  moreover have "inner_plan inner = None \<Longrightarrow> rest = []"
    using nested_build_tiles [OF i ok] by (cases rest) (auto simp: inner_plan_def split: list.splits)
  ultimately show ?thesis using measure_small [OF plan] assms(2) Cons by auto
qed (use assms(1) in auto)

lemma stack_build_nested:
  assumes "stack_build (map builder_layer bs) = CrOk pkt"
  shows "bs \<noteq> []" "nested_build default_context (map builder_layer bs) = CrOk pkt"
proof -
  show ne: "bs \<noteq> []" using assms by (auto simp: stack_build_def)
  have "bs \<noteq> [RawB p] \<or> length p \<le> usize_max" for p
    using assms
    by (auto simp: stack_build_def measure_stack_def raw_layer_def raw_measure_def validate_plan_def cr_bind_CrOk
        checked_add_len_CrOk child_plan_of_def)
  then show "nested_build default_context (map builder_layer bs) = CrOk pkt"
    using build_nested(1) [of "map builder_layer bs"] nested_build_small ne assms builder_craftable by fastforce
qed

section \<open>Checksums\<close>

text \<open>
  The checksum of every layer whose builder does not give one.  A TCP or UDP layer is covered together
  with what it carries and with the addresses of the innermost IPv4 layer around it; without one, the
  checksum stays zero.
\<close>

fun checksums_hold :: "ipv4_craft_context option \<Rightarrow> builder list \<Rightarrow> nat list \<Rightarrow> bytes \<Rightarrow> bool" where
  "checksums_hold ip (b # bs) (n # ns) data =
    ((case b of
        Ipv4B v \<Rightarrow> ib_checksum v = None \<longrightarrow> ipv4_validate_checksum (take n data) = TOk True
      | UdpB u \<Rightarrow> ub_checksum u = None \<longrightarrow>
          (case ip of
             Some a \<Rightarrow> udp_validate_checksum_ipv4 data (ic_src a) (ic_dst a) = TOk True
           | None \<Rightarrow> udp_checksum data = Some 0)
      | TcpB t \<Rightarrow> tb_checksum t = None \<longrightarrow>
          (case ip of
             Some a \<Rightarrow> tcp_validate_checksum_ipv4 data (ic_src a) (ic_dst a) = TOk True
           | None \<Rightarrow> tcp_checksum data = Some 0)
      | IcmpEchoB m \<Rightarrow> mb_checksum m = None \<longrightarrow> icmp_validate_checksum data = TOk True
      | _ \<Rightarrow> True) \<and>
     checksums_hold
       (case b of Ipv4B v \<Rightarrow> Some \<lparr>ic_src = effective_src v, ic_dst = effective_dst v\<rparr> | _ \<Rightarrow> ip)
       bs ns (drop n data))"
| "checksums_hold ip bs ns data = (bs = [] \<and> ns = [])"

lemma icmp_patched_valid:
  assumes "4 \<le> length b"
  shows "icmp_validate_checksum (patched b 2 (icmp_calculate_checksum b)) = TOk True"
proof -
  have z: "zero_range (patched b 2 c) (2, 4) = zero_range b (2, 4)" for c
    using zero_range_patched [of 2 b "length b" c] assms by simp
  show ?thesis
    using patched_read [of 2 b] assms zeroing_cong [OF z]
    by (simp add: icmp_validate_checksum_def icmp_checksum_def icmp_calculate_checksum_def)
qed

lemma patched_append: "k + 2 \<le> length hdr \<Longrightarrow> patched hdr k c @ rest = patched (hdr @ rest) k c"
  by (simp add: splice_def)

lemma nested_checksums:
  assumes "nested_build ctx (map builder_layer bs) = CrOk pkt"
  shows "checksums_hold (cc_ipv4 ctx) bs (map layer_len (pkt_layers pkt)) (pkt_bytes pkt)"
  using assms
proof (induction bs arbitrary: ctx pkt)
  case (Cons b bs)
  show ?case
  proof (rule nested_stepE [OF Cons.prems])
    fix inner :: packet and plan :: craft_plan and hdr
    let ?n = "pl_layer_len plan"
    let ?data = "replicate ?n 0 @ pkt_bytes inner"
    assume i: "nested_build (cl_child_context (builder_layer b) ctx) (map builder_layer bs) = CrOk inner"
      and plan: "cl_measure (builder_layer b) ctx (inner_plan inner) = CrOk plan"
      and run: "cl_write (builder_layer b) ctx plan (inner_child ?n inner) ?data = CrOk (hdr @ pkt_bytes inner)"
      and hdr: "length hdr = ?n" and total: "length ?data = pl_total_len plan"
      and pkt: "pkt = \<lparr>pkt_bytes = hdr @ pkt_bytes inner,
        pkt_layers = \<lparr>layer_protocol = cl_protocol (builder_layer b), layer_offset = 0, layer_len = ?n\<rparr>
          # map (shift_layer ?n) (pkt_layers inner)\<rparr>"
    note IH = Cons.IH [OF i]
    have lens: "map layer_len (pkt_layers pkt) = ?n # map layer_len (pkt_layers inner)"
      and dropped: "drop ?n (pkt_bytes pkt) = pkt_bytes inner" and taken: "take ?n (pkt_bytes pkt) = hdr"
      using hdr by (simp_all add: pkt comp_def)
    show ?thesis
    proof (cases b)
      case (Ipv4B v)
      have m: "ipv4_measure v ctx (inner_plan inner) = CrOk plan" using plan Ipv4B by (simp add: ipv4_layer_def)
      obtain h c where h: "length h = ?n" "ib_checksum v = None \<Longrightarrow> ipv4_calculate_checksum h = TOk c"
          "ipv4_write v ctx plan (inner_child ?n inner) ?data = CrOk (patched h 10 c @ drop ?n ?data)"
        by (rule ipv4_writes [OF m total, of "inner_child ?n inner"]) (rule that)
      have "hdr = patched h 10 c"
        using run h(1,3) hdr ipv4_measure_CrOk(1) [OF m] Ipv4B by (auto simp: ipv4_layer_def)
      then show ?thesis
        using IH h(1,2) Ipv4B ipv4_patched_valid [of h c] ipv4_measure_CrOk(1) [OF m]
        by (simp add: lens dropped taken ipv4_layer_def with_ipv4_def)
    next
      case (UdpB u)
      have m: "udp_measure u ctx (inner_plan inner) = CrOk plan" using plan UdpB by (simp add: udp_layer_def)
      have n: "?n = 8" by (rule udp_measure_CrOk [OF m])
      obtain h c where h: "length h = 8"
          "ub_checksum u = None \<Longrightarrow>
            (case cc_ipv4 ctx of
               Some ip \<Rightarrow> udp_calculate_checksum_ipv4 (h @ drop 8 ?data) (ic_src ip) (ic_dst ip) = TOk c
             | None \<Rightarrow> c = 0)"
          "udp_write u ctx plan (inner_child ?n inner) ?data = CrOk (patched h 6 c @ drop 8 ?data)"
        by (rule udp_writes [OF m total, of "inner_child ?n inner"]) (rule that)
      have "hdr = patched h 6 c" using run h(1,3) hdr n UdpB by (auto simp: udp_layer_def)
      then have data: "pkt_bytes pkt = patched (h @ pkt_bytes inner) 6 c" using h(1) by (simp add: pkt patched_append)
      have "udp_checksum (pkt_bytes pkt) = Some c"
        using h(1) patched_read [of 6 "h @ pkt_bytes inner" c] by (simp add: data udp_checksum_def)
      then have "ub_checksum u = None \<Longrightarrow>
          (case cc_ipv4 ctx of
             Some a \<Rightarrow> udp_validate_checksum_ipv4 (pkt_bytes pkt) (ic_src a) (ic_dst a) = TOk True
           | None \<Rightarrow> udp_checksum (pkt_bytes pkt) = Some 0)"
        using h(1,2) udp_patched_valid(1) [of "h @ pkt_bytes inner"] n by (cases "cc_ipv4 ctx") (simp_all add: data)
      then show ?thesis using IH UdpB by (simp add: lens dropped udp_layer_def)
    next
      case (TcpB t)
      have m: "tcp_measure t ctx (inner_plan inner) = CrOk plan" using plan TcpB by (simp add: tcp_layer_def)
      have n: "20 \<le> ?n" using tcp_measure_CrOk(1) [OF m] by simp
      obtain h c where h: "length h = ?n"
          "tb_checksum t = None \<Longrightarrow>
            c = (case cc_ipv4 ctx of
               Some ip \<Rightarrow> tcp_calculate_checksum_ipv4 (h @ drop ?n ?data) (ic_src ip) (ic_dst ip)
             | None \<Rightarrow> 0)"
          "tcp_write t ctx plan (inner_child ?n inner) ?data = CrOk (patched h 16 c @ drop ?n ?data)"
        by (rule tcp_writes [OF m total, of "inner_child ?n inner"]) (rule that)
      have "hdr = patched h 16 c" using run h(1,3) hdr n TcpB by (auto simp: tcp_layer_def)
      then have data: "pkt_bytes pkt = patched (h @ pkt_bytes inner) 16 c" using h(1) n by (simp add: pkt patched_append)
      have "tcp_checksum (pkt_bytes pkt) = Some c"
        using h(1) n patched_read [of 16 "h @ pkt_bytes inner" c] by (simp add: data tcp_checksum_def)
      then have "tb_checksum t = None \<Longrightarrow>
          (case cc_ipv4 ctx of
             Some a \<Rightarrow> tcp_validate_checksum_ipv4 (pkt_bytes pkt) (ic_src a) (ic_dst a) = TOk True
           | None \<Rightarrow> tcp_checksum (pkt_bytes pkt) = Some 0)"
        using h(1,2) tcp_patched_valid(1) [of "h @ pkt_bytes inner"] n by (cases "cc_ipv4 ctx") (simp_all add: data)
      then show ?thesis using IH TcpB by (simp add: lens dropped tcp_layer_def)
    next
      case (IcmpEchoB e)
      have n: "?n = 8" using plan IcmpEchoB
        by (auto simp: icmp_echo_layer_def icmp_echo_measure_def cr_bind_CrOk)
      have "8 \<le> length ?data" using n by simp
      then obtain h where h: "length h = 8"
          "icmp_echo_write e ctx plan (inner_child ?n inner) ?data =
            CrOk (patched h 2 (or_else (mb_checksum e) (icmp_calculate_checksum (h @ drop 8 ?data))) @ drop 8 ?data)"
        by (rule icmp_echo_writes)
      let ?c = "or_else (mb_checksum e) (icmp_calculate_checksum (h @ pkt_bytes inner))"
      have "hdr = patched h 2 ?c" using run h hdr n IcmpEchoB by (auto simp: icmp_echo_layer_def)
      then have "pkt_bytes pkt = patched (h @ pkt_bytes inner) 2 ?c" using h(1) by (simp add: pkt patched_append)
      then have "mb_checksum e = None \<Longrightarrow> icmp_validate_checksum (pkt_bytes pkt) = TOk True"
        using h(1) icmp_patched_valid [of "h @ pkt_bytes inner"] by (simp add: or_else_def)
      then show ?thesis using IH IcmpEchoB by (simp add: lens dropped icmp_echo_layer_def)
    qed (use IH in \<open>simp_all add: lens dropped eth_layer_def raw_layer_def\<close>)
  qed
qed simp

text \<open>C8: crafting in place is nested crafting.  Measuring the whole stack first and writing all layers
  from the innermost one outwards into one buffer builds the packet, or returns the error, that building
  every layer around the finished packet inside it does, for every stack of the library's builders with
  every combination of explicit fields.  It does not panic, \<^verbatim>\<open>to_bytes\<close> returns the same bytes, and
  the layers of a packet tile it in the order of the stack.\<close>

theorem crafts_in_place:
  assumes "bs \<noteq> []" and "\<forall>p. RawB p \<in> set bs \<longrightarrow> length p \<le> usize_max"
  shows "stack_build (map builder_layer bs) = nested_build default_context (map builder_layer bs) \<and>
    stack_to_bytes (map builder_layer bs) =
      cr_bind (stack_build (map builder_layer bs)) (\<lambda>pkt. CrOk (pkt_bytes pkt)) \<and>
    (case stack_build (map builder_layer bs) of
       CrOk pkt \<Rightarrow> tiles pkt \<and> map layer_protocol (pkt_layers pkt) = map (cl_protocol \<circ> builder_layer) bs
     | CrErr e \<Rightarrow> True
     | CrPanic \<Rightarrow> False)"
proof -
  let ?stack = "map builder_layer bs"
  have ok: "\<forall>l \<in> set ?stack. craftable_layer l" using builder_craftable by auto
  have "bs \<noteq> [RawB p] \<or> length p \<le> usize_max" for p using assms(2) by auto
  then have fits: "length (pkt_bytes pkt) \<le> usize_max" if "nested_build default_context ?stack = CrOk pkt" for pkt
    using nested_build_small [OF that] by blast
  have ne: "?stack \<noteq> []" using assms(1) by simp
  note same = build_nested [OF ne ok fits]
  have "nested_build default_context ?stack \<noteq> CrPanic"
    using measure_nested [OF ok, of default_context] by (auto split: craft_result.splits)
  then show ?thesis
    using same nested_build_tiles [OF _ ok, of default_context]
    by (auto split: craft_result.split)
qed

theorem crafts_in_place_witness:
  "stack_build (map builder_layer [UdpB udp_builder_new, RawB [1, 2, 3]]) =
    nested_build default_context (map builder_layer [UdpB udp_builder_new, RawB [1, 2, 3]])"
  by (rule crafts_in_place [THEN conjunct1]) (simp_all add: usize_max_def)

text \<open>C9: the checksums that crafting fills in validate.  In every packet that is built, the checksum of
  each IPv4 header, of each TCP segment or UDP datagram over the pseudo header of the IPv4 layer around
  it, and of each ICMP message validates, unless the builder was given another one.\<close>

theorem crafted_checksums_hold:
  assumes "stack_build (map builder_layer bs) = CrOk pkt"
  shows "checksums_hold None bs (map layer_len (pkt_layers pkt)) (pkt_bytes pkt)"
  using nested_checksums [OF stack_build_nested(2) [OF assms]] by (simp add: default_context_def)

text \<open>A stack that measures within the address space is built.\<close>

lemma stack_builds:
  assumes "bs \<noteq> []"
    and "case measure_layers (zip (map builder_layer bs) (craft_contexts default_context (map builder_layer bs))) of
      CrOk ms \<Rightarrow> span ms \<le> usize_max | _ \<Rightarrow> False"
  shows "\<exists>pkt. stack_build (map builder_layer bs) = CrOk pkt"
proof -
  obtain ms where ms: "span ms \<le> usize_max"
      "measure_layers (zip (map builder_layer bs) (craft_contexts default_context (map builder_layer bs))) = CrOk ms"
    using assms(2) by (auto split: craft_result.splits)
  have craftable: "\<forall>l \<in> set (map builder_layer bs). craftable_layer l" by (auto simp: builder_craftable)
  then obtain pkt where pkt: "nested_build default_context (map builder_layer bs) = CrOk pkt" "built (map builder_layer bs) ms pkt"
    using measure_nested [OF craftable, of default_context] ms(2) by auto
  then have "length (pkt_bytes pkt) \<le> usize_max" using ms(1) by (simp add: built_def)
  then show ?thesis using build_nested(1) [OF _ craftable] pkt(1) assms(1) by simp
qed

definition sample_stack :: "builder list" where
  "sample_stack =
    [EthB eth_builder_new, Ipv4B ipv4_builder_new, UdpB (udp_builder_dst_port 4660 udp_builder_new), RawB (raw_builder_copy_from [1, 2, 3] raw_builder_new)]"

lemma sample_measures:
  "eth_measure ctx (Some \<lparr>cp_protocol = p, cp_len = 31\<rparr>) = CrOk \<lparr>pl_layer_len = 14, pl_total_len = 45\<rparr>"
  "ipv4_measure ipv4_builder_new ctx (Some \<lparr>cp_protocol = p, cp_len = 11\<rparr>) =
    CrOk \<lparr>pl_layer_len = 20, pl_total_len = 31\<rparr>"
  "udp_measure (udp_builder_dst_port 4660 udp_builder_new) ctx (Some \<lparr>cp_protocol = p, cp_len = 3\<rparr>) =
    CrOk \<lparr>pl_layer_len = 8, pl_total_len = 11\<rparr>"
  "raw_measure (raw_builder_copy_from [1, 2, 3] raw_builder_new) ctx None = CrOk \<lparr>pl_layer_len = 3, pl_total_len = 3\<rparr>"
  by (simp_all add: eth_measure_def ipv4_measure_def ipv4_measure_header_len_def udp_measure_def raw_measure_def
      ipv4_builder_new_def udp_builder_new_def udp_builder_dst_port_def raw_builder_new_def
      raw_builder_copy_from_def measure_header_len_def next_multiple_of_4_def explicit_length_def
      checked_add_len_def checked_add_def checked_u16_len_def child_len_def or_else_def usize_max_def)

lemma sample_builds: "\<exists>pkt. stack_build (map builder_layer sample_stack) = CrOk pkt"
proof (rule stack_builds)
  show "case measure_layers (zip (map builder_layer sample_stack)
        (craft_contexts default_context (map builder_layer sample_stack))) of
      CrOk ms \<Rightarrow> span ms \<le> usize_max | _ \<Rightarrow> False"
    by (simp add: sample_stack_def eth_layer_def ipv4_layer_def udp_layer_def raw_layer_def sample_measures
        validate_plan_def child_plan_of_def checked_add_len_def checked_add_def span_def usize_max_def)
qed (simp add: sample_stack_def)

theorem crafted_checksums_hold_witness:
  "\<exists>pkt. stack_build (map builder_layer sample_stack) = CrOk pkt \<and>
    checksums_hold None sample_stack (map layer_len (pkt_layers pkt)) (pkt_bytes pkt)"
proof -
  obtain pkt where pkt: "stack_build (map builder_layer sample_stack) = CrOk pkt" using sample_builds by blast
  show ?thesis using pkt crafted_checksums_hold [OF pkt] by blast
qed

end
