(* ===== verification/Craft_Parse.thy ===== *)
theory Craft_Parse
  imports Craft_Sound
begin

text \<open>
  Crafting and parsing agree: what a crafted TCP or UDP packet records as its layers is what parsing
  its bytes finds.
\<close>

section \<open>Fields of a written header\<close>

definition keeps :: "nat \<Rightarrow> nat \<Rightarrow> (bytes \<Rightarrow> bytes option) \<Rightarrow> bool" where
  "keeps lo hi g =
    (\<forall>hdr hdr'. g hdr = Some hdr' \<longrightarrow> length hdr' = length hdr \<and>
       (\<forall>i. lo \<le> i \<longrightarrow> i < hi \<longrightarrow> i < length hdr \<longrightarrow> hdr' ! i = hdr ! i))"

lemma keeps_view_set:
  assumes "LENGTH('u::len) = 8 * (hi' - lo')" and "lo' \<le> hi'" and "hi \<le> lo' \<or> hi' \<le> lo"
  shows "keeps lo hi (view_set lo' hi' f (v :: 'u word))"
  unfolding keeps_def
proof (intro allI impI)
  fix hdr hdr' assume set: "view_set lo' hi' f v hdr = Some hdr'"
  then have "lo' + (hi' - lo') \<le> length hdr" "lo' + (hi' - lo') = hi'"
    using assms(2) by (auto simp: view_set_def slice_def split: if_splits)
  note eq = view_set_eq [OF assms(1) this(1), of f v, unfolded this(2)] and len = this
  show "length hdr' = length hdr \<and> (\<forall>i. lo \<le> i \<longrightarrow> i < hi \<longrightarrow> i < length hdr \<longrightarrow> hdr' ! i = hdr ! i)"
    using set eq len assms(2,3) by (auto simp: nth_append min_def)
qed

lemma keeps_set_fields: "\<forall>g \<in> set fs. keeps lo hi g \<Longrightarrow> keeps lo hi (set_fields fs)"
proof (induction fs)
  case (Cons g fs)
  have "keeps lo hi g" "keeps lo hi (set_fields fs)" using Cons by simp_all
  then show ?case unfolding keeps_def by (simp split: bind_splits)
qed (simp add: keeps_def)

lemma keeps_view_raw:
  "keeps lo hi g \<Longrightarrow> g hdr = Some hdr' \<Longrightarrow> view_raw lo hi f hdr' = view_raw lo hi f hdr"
  by (rule view_raw_eqI) (auto simp: keeps_def)

lemma view_set_read:
  assumes "LENGTH('u::len) = 8 * (hi - lo)" and "hi - lo \<le> 8" and "view_set lo hi f (v :: 'u word) hdr = Some hdr'"
  shows "view_raw lo hi f hdr' = Some (v AND drop_bit (fs_shift f) (ucast (fs_mask f)))"
proof -
  have len: "lo + (hi - lo) \<le> length hdr" and hi: "lo + (hi - lo) = hi"
    using assms(3) by (auto simp: view_set_def slice_def split: if_splits)
  let ?p = "merge_spec f (word_of_nat (be_nat (take (hi - lo) (drop lo hdr)))) v"
  have hdr': "hdr' = take lo hdr @ be_bytes (hi - lo) (unat ?p) @ drop hi hdr"
    using view_set_eq [OF assms(1) len, of f v] assms(3) hi by simp
  have len': "lo + (hi - lo) \<le> length hdr'" using len by (simp add: hdr')
  have "unat ?p < 256 ^ (hi - lo)" using unsigned_less [of ?p] assms(1) by (simp add: power_mult)
  moreover have "take (hi - lo) (drop lo hdr') = be_bytes (hi - lo) (unat ?p)" using len by (simp add: hdr')
  ultimately have "word_of_nat (be_nat (take (hi - lo) (drop lo hdr'))) = ?p"
    by (simp add: be_nat_be_bytes)
  then show ?thesis
    using view_raw_eq [OF assms(1) len', of f] apply_merge [of f _ v] assms(1,2) hi by simp
qed

text \<open>The \<open>k\<close>-th field of a header that later fields do not overlap.\<close>

lemma set_fields_split:
  "k < length fs \<Longrightarrow> set_fields fs hdr =
    Option.bind (Option.bind (set_fields (take k fs) hdr) (fs ! k)) (set_fields (drop (Suc k) fs))"
proof (induction fs arbitrary: k hdr)
  case (Cons f fs)
  then show ?case by (cases k) (simp_all split: bind_splits)
qed simp

lemma field_written:
  assumes "set_fields fs hdr = Some hdr'" and "k < length fs" and "fs ! k = view_set lo hi f (v :: 'u::len word)"
    and "\<forall>g \<in> set (drop (Suc k) fs). keeps lo hi g"
    and "LENGTH('u) = 8 * (hi - lo)" and "hi - lo \<le> 8"
  shows "view_raw lo hi f hdr' = Some (v AND drop_bit (fs_shift f) (ucast (fs_mask f)))"
proof -
  obtain h1 h2 where "view_set lo hi f v h1 = Some h2" "set_fields (drop (Suc k) fs) h2 = Some hdr'"
    using assms(1,3) set_fields_split [OF assms(2), of hdr] by (auto split: bind_splits)
  then show ?thesis
    using view_set_read [OF assms(5,6)] keeps_view_raw [OF keeps_set_fields [OF assms(4)]] by metis
qed

lemma whole_mask [simp]: "(v :: 'u::len word) AND drop_bit (fs_shift whole) (ucast (fs_mask whole)) = v"
  if "LENGTH('u) \<le> 64"
  using that by (simp add: whole_def ucast_minus_one)

lemma eth_type_written:
  assumes "set_fields [view_set 0 6 whole (d :: 48 word), view_set 6 12 whole (s :: 48 word),
      view_set 12 14 whole (eth_type_into ty)] hdr0 = Some hdr"
  shows "eth_eth_type hdr = Some (eth_type_from (eth_type_into ty))"
  using field_written [OF assms, of 2 12 14 whole "eth_type_into ty"] by (simp add: eth_eth_type_def)

lemma low_nibble: "(w :: byte) AND 0x0F = w" if "unat w \<le> 15"
proof (rule unsigned_word_eqI [where 'a = nat])
  have "w AND 0x0F = take_bit 4 w" by (simp add: take_bit_eq_mask mask_eq_exp_minus_1)
  then show "unat (w AND 0x0F) = unat w"
    using that by (simp add: unsigned_take_bit_eq take_bit_nat_eq_self)
qed

lemma ipv4_written:
  assumes set: "set_fields (ipv4_fields b n len p) hdr0 = Some hdr"
    and n: "unat (word_of_nat (n div 4) :: byte) * 4 = n" "n \<le> 60"
  shows "ipv4_header_len hdr = Some n" "ipv4_total_length hdr = Some len"
    "ipv4_fragment_offset hdr = Some (or_else (ib_fragment_offset b) 0 AND 0x1FFF)"
    "ipv4_protocol hdr = Some p"
proof -
  note keep = keeps_view_set
  have "unat (word_of_nat (n div 4) :: byte) \<le> 15" using n by linarith
  note nib = low_nibble [OF this]
  have "view_raw 0 1 (FSpec 0x0F 0) hdr = Some ((word_of_nat (n div 4) :: byte) AND drop_bit (fs_shift (FSpec 0x0F 0)) (ucast (fs_mask (FSpec 0x0F 0))))"
    by (rule field_written [OF set, of 1]) (auto simp: ipv4_fields_def intro!: keep)
  then show "ipv4_header_len hdr = Some n" using nib n(1) by (simp add: ipv4_header_len_def)
  have "view_raw 2 4 whole hdr = Some (len AND drop_bit (fs_shift whole) (ucast (fs_mask whole)))"
    by (rule field_written [OF set, of 4]) (auto simp: ipv4_fields_def intro!: keep)
  then show "ipv4_total_length hdr = Some len" by (simp add: ipv4_total_length_def)
  have "view_raw 6 8 (FSpec 0x1FFF 0) hdr = Some (or_else (ib_fragment_offset b) 0 AND drop_bit (fs_shift (FSpec 0x1FFF 0)) (ucast (fs_mask (FSpec 0x1FFF 0))))"
    by (rule field_written [OF set, of 7]) (auto simp: ipv4_fields_def intro!: keep)
  then show "ipv4_fragment_offset hdr = Some (or_else (ib_fragment_offset b) 0 AND 0x1FFF)"
    by (simp add: ipv4_fragment_offset_def)
  have "view_raw 9 10 (FSpec 0xFF 0) hdr = Some (p AND drop_bit (fs_shift (FSpec 0xFF 0)) (ucast (fs_mask (FSpec 0xFF 0))))"
    by (rule field_written [OF set, of 9]) (auto simp: ipv4_fields_def intro!: keep)
  moreover have "p AND 0xFF = p"
  proof -
    have "(0xFF :: byte) = - 1" by simp
    then show ?thesis by (simp only: and.right_neutral)
  qed
  ultimately show "ipv4_protocol hdr = Some p" by (simp add: ipv4_protocol_def)
qed

lemma udp_written:
  assumes set: "set_fields (udp_fields b len) hdr0 = Some hdr"
  shows "udp_src_port hdr = Some (or_else (ub_src_port b) 0)" "udp_dst_port hdr = Some (or_else (ub_dst_port b) 0)"
proof -
  have "view_raw 0 2 whole hdr = Some (or_else (ub_src_port b) 0 AND drop_bit (fs_shift whole) (ucast (fs_mask whole)))"
    by (rule field_written [OF set, of 0]) (auto simp: udp_fields_def intro!: keeps_view_set)
  then show "udp_src_port hdr = Some (or_else (ub_src_port b) 0)" by (simp add: udp_src_port_def)
  have "view_raw 2 4 whole hdr = Some (or_else (ub_dst_port b) 0 AND drop_bit (fs_shift whole) (ucast (fs_mask whole)))"
    by (rule field_written [OF set, of 1]) (auto simp: udp_fields_def intro!: keeps_view_set)
  then show "udp_dst_port hdr = Some (or_else (ub_dst_port b) 0)" by (simp add: udp_dst_port_def)
qed

lemma high_nibble: "(w :: byte) AND drop_bit 4 0xF0 = w" if "unat w \<le> 15"
  using low_nibble [OF that] by simp

lemma tcp_written:
  assumes set: "set_fields (tcp_fields b n) hdr0 = Some hdr"
    and n: "unat (word_of_nat (n div 4) :: byte) * 4 = n" "n \<le> 60"
  shows "tcp_src_port hdr = Some (or_else (tb_src_port b) 0)" "tcp_dst_port hdr = Some (or_else (tb_dst_port b) 0)"
    "tcp_header_len hdr = Some n"
proof -
  have "view_raw 0 2 whole hdr = Some (or_else (tb_src_port b) 0 AND drop_bit (fs_shift whole) (ucast (fs_mask whole)))"
    by (rule field_written [OF set, of 0]) (auto simp: tcp_fields_def intro!: keeps_view_set)
  then show "tcp_src_port hdr = Some (or_else (tb_src_port b) 0)" by (simp add: tcp_src_port_def)
  have "view_raw 2 4 whole hdr = Some (or_else (tb_dst_port b) 0 AND drop_bit (fs_shift whole) (ucast (fs_mask whole)))"
    by (rule field_written [OF set, of 1]) (auto simp: tcp_fields_def intro!: keeps_view_set)
  then show "tcp_dst_port hdr = Some (or_else (tb_dst_port b) 0)" by (simp add: tcp_dst_port_def)
  have "unat (word_of_nat (n div 4) :: byte) \<le> 15" using n by linarith
  note nib = high_nibble [OF this]
  have "view_raw 12 13 (FSpec 0xF0 4) hdr = Some ((word_of_nat (n div 4) :: byte) AND drop_bit (fs_shift (FSpec 0xF0 4)) (ucast (fs_mask (FSpec 0xF0 4))))"
    by (rule field_written [OF set, of 4]) (auto simp: tcp_fields_def intro!: keeps_view_set)
  then show "tcp_header_len hdr = Some n" using nib n(1) by (simp add: tcp_header_len_def)
qed

section \<open>The parsers on a crafted packet\<close>

abbreviation ctx_at :: "bytes \<Rightarrow> nat option \<Rightarrow> layer list \<Rightarrow> parse_context" where
  "ctx_at data e ls \<equiv>
    \<lparr>ctx_bytes = data, ctx_declared_end = e, ctx_options = default_options, ctx_layers = ls\<rparr>"

definition raw_tail :: "nat \<Rightarrow> nat \<Rightarrow> layer list" where
  "raw_tail off n = (if n = 0 then [] else [\<lparr>layer_protocol = Raw, layer_offset = off, layer_len = n\<rparr>])"

lemma ctx_end_at: "ctx_end (ctx_at data e ls) = (case e of None \<Rightarrow> length data | Some x \<Rightarrow> min x (length data))"
  by (cases e) (simp_all add: ctx_end_def)

lemma parse_raw_tail:
  assumes "off + n = ctx_end (ctx_at data e (ls @ [x]))" and "layer_protocol x \<noteq> Raw"
  shows "parse_raw (ctx_at data e (ls @ [x])) off = ctx_at data e (ls @ [x] @ raw_tail off n)"
  using assms by (auto simp: parse_raw_def checked_sub_def raw_tail_def layer_is_def append_layer_def)

text \<open>Ports that no parser and no entry of the registry claims.\<close>

fun plain_transport :: "registry \<Rightarrow> builder \<Rightarrow> bool" where
  "plain_transport reg (UdpB u) =
    (let src = or_else (ub_src_port u) 0; dst = or_else (ub_dst_port u) 0 in
     src \<notin> {53, 67, 68, 123} \<and> dst \<notin> {53, 67, 68, 123, 4789} \<and>
     reg (Udp, unat src) = None \<and> reg (Udp, unat dst) = None)"
| "plain_transport reg (TcpB t) =
    (let src = or_else (tb_src_port t) 0; dst = or_else (tb_dst_port t) 0 in
     \<not> is_tls_service_port src \<and> \<not> is_tls_service_port dst \<and>
     reg (Tcp, unat src) = None \<and> reg (Tcp, unat dst) = None)"
| "plain_transport reg _ = False"

lemma udp_parse_crafted:
  assumes "plain_transport reg (UdpB u)" and "slice data off (off + 8) = Some hdr"
    and "udp_src_port hdr = Some (or_else (ub_src_port u) 0)" and "udp_dst_port hdr = Some (or_else (ub_dst_port u) 0)"
    and e: "off + 8 + n = ctx_end (ctx_at data e ls)" and "length data \<le> usize_max"
  shows "udp_parse reg run (ctx_at data e ls) off =
    (ctx_at data e (ls @ \<lparr>layer_protocol = Udp, layer_offset = off, layer_len = 8\<rparr> # raw_tail (off + 8) n), Done)"
proof -
  have "off + 8 + n = ctx_end (ctx_at data e (ls @ [\<lparr>layer_protocol = Udp, layer_offset = off, layer_len = 8\<rparr>]))"
    using e by (simp add: ctx_end_at)
  from parse_raw_tail [OF this] have raw:
    "parse_raw (ctx_at data e (ls @ [\<lparr>layer_protocol = Udp, layer_offset = off, layer_len = 8\<rparr>])) (off + 8)
      = ctx_at data e (ls @ \<lparr>layer_protocol = Udp, layer_offset = off, layer_len = 8\<rparr> # raw_tail (off + 8) n)"
    by simp
  have "off + 8 \<le> usize_max" "off + 8 \<le> ctx_end (ctx_at data e ls)"
    using assms(2,6) e by (auto simp: slice_def split: if_splits)
  then have "require (ctx_at data e ls) Udp off 8 = Inr hdr"
    using assms(2) by (simp add: require_def checked_add_def)
  then show ?thesis
    using assms(1,3,4) raw
    by (simp add: udp_parse_def requiring_def reading_def push_layer_def can_push_layer_def append_layer_def
        default_options_def Let_def parse_by_port_def)
qed

lemma tcp_parse_crafted:
  assumes "plain_transport reg (TcpB t)" and "slice data off (off + 20) = Some min_hdr"
    and "slice data off (off + h) = Some hdr"
    and "tcp_header_len min_hdr = Some h" and "20 \<le> h"
    and "tcp_src_port hdr = Some (or_else (tb_src_port t) 0)" and "tcp_dst_port hdr = Some (or_else (tb_dst_port t) 0)"
    and e: "off + h + n = ctx_end (ctx_at data e ls)" and "length data \<le> usize_max"
  shows "tcp_parse reg run (ctx_at data e ls) off =
    (ctx_at data e (ls @ \<lparr>layer_protocol = Tcp, layer_offset = off, layer_len = h\<rparr> # raw_tail (off + h) n), Done)"
proof -
  have "off + h + n = ctx_end (ctx_at data e (ls @ [\<lparr>layer_protocol = Tcp, layer_offset = off, layer_len = h\<rparr>]))"
    using e by (simp add: ctx_end_at)
  from parse_raw_tail [OF this] have raw:
    "parse_raw (ctx_at data e (ls @ [\<lparr>layer_protocol = Tcp, layer_offset = off, layer_len = h\<rparr>])) (off + h)
      = ctx_at data e (ls @ \<lparr>layer_protocol = Tcp, layer_offset = off, layer_len = h\<rparr> # raw_tail (off + h) n)"
    by simp
  have "off + h \<le> usize_max" "off + h \<le> ctx_end (ctx_at data e ls)"
    using assms(3,9) e by (auto simp: slice_def split: if_splits)
  then have "require (ctx_at data e ls) Tcp off 20 = Inr min_hdr" "require (ctx_at data e ls) Tcp off h = Inr hdr"
    using assms(2,3,5) by (simp_all add: require_def checked_add_def)
  then show ?thesis
    using assms(1,4-7) raw
    by (simp add: tcp_parse_def requiring_def reading_def push_layer_def can_push_layer_def append_layer_def
        default_options_def Let_def parse_by_port_def)
qed

lemma ipv4_parse_crafted:
  assumes "slice data off (off + 20) = Some min_hdr" and "slice data off (off + h) = Some hdr"
    and "ipv4_header_len min_hdr = Some h" and "20 \<le> h"
    and "ipv4_total_length hdr = Some len" and "unat len = h + n" and "length data = off + h + n"
    and "ipv4_fragment_offset hdr = Some 0" and "ipv4_protocol hdr = Some p" and "length data \<le> usize_max"
    and child: "ipv4_dispatch reg run p
      (ctx_at data (Some (off + (h + n))) (ls @ [\<lparr>layer_protocol = Ipv4, layer_offset = off, layer_len = h\<rparr>])) (off + h)
      = (ctx_at data (Some (off + (h + n))) ls', Done)"
  shows "ipv4_parse reg run (ctx_at data None ls) off = (ctx_at data None ls', Done)"
proof -
  have "require (ctx_at data None ls) Ipv4 off 20 = Inr min_hdr" "require (ctx_at data None ls) Ipv4 off h = Inr hdr"
    using assms(1,2,4,7,10) by (simp_all add: require_def checked_add_def ctx_end_at)
  moreover have "saturating_add off (h + n) = off + (h + n)" using assms(7,10) by (simp add: saturating_add_def)
  moreover have "parse_raw (ctx_at data None ls') (off + (h + n)) = ctx_at data None ls'"
    using assms(7) by (simp add: parse_raw_def checked_sub_def ctx_end_at)
  ultimately show ?thesis
    using assms(3-6,8,9) child
    by (simp add: ipv4_parse_def requiring_def reading_def push_layer_def can_push_layer_def append_layer_def
        default_options_def Let_def parse_bounded_def narrow_end_def ipv4_children_def and_then_def)
qed

lemma eth_parse_crafted:
  assumes "slice data 0 14 = Some hdr" and "eth_eth_type hdr = Some EtIpv4" and "length data \<le> usize_max"
    and child: "run Ipv4 (ctx_at data None [\<lparr>layer_protocol = Eth, layer_offset = 0, layer_len = 14\<rparr>]) 14
      = (ctx_at data None ls', Done)"
  shows "eth_parse reg run (ctx_at data None []) 0 = (ctx_at data None ls', Done)"
proof -
  have "14 \<le> length data" using assms(1) by (auto simp: slice_def split: if_splits)
  then have "require (ctx_at data None []) Eth 0 14 = Inr hdr"
    using assms(1,3) by (simp add: require_def checked_add_def ctx_end_at)
  then show ?thesis
    using assms(2) child
    by (simp add: eth_parse_def requiring_def reading_def push_layer_def can_push_layer_def append_layer_def
        default_options_def Let_def parse_child_def parse_child_with_def)
qed

section \<open>The headers of a crafted packet\<close>

lemma all_craftable: "\<forall>l \<in> set (map builder_layer bs). craftable_layer l"
  using builder_craftable by auto

lemma nested_raw:
  "nested_build ctx (map builder_layer [RawB payload]) =
    CrOk \<lparr>pkt_bytes = payload, pkt_layers = [\<lparr>layer_protocol = Raw, layer_offset = 0, layer_len = length payload\<rparr>]\<rparr>"
  by (simp add: raw_layer_def raw_measure_def raw_write_def inner_plan_def)

definition transport_header :: "builder \<Rightarrow> bytes \<Rightarrow> bool" where
  "transport_header t th =
    (case t of
        UdpB u \<Rightarrow> length th = 8 \<and> udp_src_port th = Some (or_else (ub_src_port u) 0) \<and>
          udp_dst_port th = Some (or_else (ub_dst_port u) 0)
      | TcpB b \<Rightarrow> 20 \<le> length th \<and> tcp_header_len th = Some (length th) \<and>
          tcp_src_port th = Some (or_else (tb_src_port b) 0) \<and> tcp_dst_port th = Some (or_else (tb_dst_port b) 0)
      | _ \<Rightarrow> False)"

lemma nested_transport:
  assumes run: "nested_build ctx (map builder_layer [t, RawB payload]) = CrOk pkt" and "plain_transport reg t"
  obtains th where "transport_header t th"
    and "pkt = \<lparr>pkt_bytes = th @ payload, pkt_layers =
      [\<lparr>layer_protocol = cl_protocol (builder_layer t), layer_offset = 0, layer_len = length th\<rparr>,
       \<lparr>layer_protocol = Raw, layer_offset = length th, layer_len = length payload\<rparr>]\<rparr>"
proof (rule nested_stepE [OF run])
  fix inner :: packet and plan :: craft_plan and hdr
  let ?n = "pl_layer_len plan"
  let ?data = "replicate ?n 0 @ pkt_bytes inner"
  assume i: "nested_build (cl_child_context (builder_layer t) ctx) (map builder_layer [RawB payload]) = CrOk inner"
    and plan: "cl_measure (builder_layer t) ctx (inner_plan inner) = CrOk plan"
    and wrote: "cl_write (builder_layer t) ctx plan (inner_child ?n inner) ?data = CrOk (hdr @ pkt_bytes inner)"
    and hdr: "length hdr = ?n" and total: "length ?data = pl_total_len plan"
    and pkt: "pkt = \<lparr>pkt_bytes = hdr @ pkt_bytes inner,
      pkt_layers = \<lparr>layer_protocol = cl_protocol (builder_layer t), layer_offset = 0, layer_len = ?n\<rparr>
        # map (shift_layer ?n) (pkt_layers inner)\<rparr>"
  have "transport_header t hdr"
  proof (cases t)
    case (UdpB u)
    have m: "udp_measure u ctx (inner_plan inner) = CrOk plan" using plan UdpB by (simp add: udp_layer_def)
    have n: "?n = 8" by (rule udp_measure_CrOk [OF m])
    obtain h c where h: "length h = 8" "set_fields (udp_fields u (word_of_nat (length ?data))) (take 8 ?data) = Some h"
        "udp_write u ctx plan (inner_child ?n inner) ?data = CrOk (patched h 6 c @ drop 8 ?data)"
      by (rule udp_writes [OF m total, of "inner_child ?n inner"]) (rule that)
    have "hdr = patched h 6 c" using wrote h(1,3) hdr n UdpB by (auto simp: udp_layer_def)
    then show ?thesis
      using udp_written [OF h(2)] h(1) UdpB
      by (simp add: transport_header_def udp_src_port_def udp_dst_port_def patched_field)
  next
    case (TcpB b)
    have m: "tcp_measure b ctx (inner_plan inner) = CrOk plan" using plan TcpB by (simp add: tcp_layer_def)
    note n = tcp_measure_CrOk [OF m]
    obtain h0 h c where h: "length h = ?n" "set_fields (tcp_fields b ?n) h0 = Some h"
        "tcp_write b ctx plan (inner_child ?n inner) ?data = CrOk (patched h 16 c @ drop ?n ?data)"
      by (rule tcp_writes [OF m total, of "inner_child ?n inner"]) (rule that)
    have "hdr = patched h 16 c" using wrote h(1,3) hdr n TcpB by (auto simp: tcp_layer_def)
    then show ?thesis
      using tcp_written [OF h(2) n(3,2)] h(1) n(1) TcpB
      by (simp add: transport_header_def tcp_src_port_def tcp_dst_port_def tcp_header_len_def patched_field)
  qed (use assms(2) in simp_all)
  moreover have "inner = \<lparr>pkt_bytes = payload,
      pkt_layers = [\<lparr>layer_protocol = Raw, layer_offset = 0, layer_len = length payload\<rparr>]\<rparr>"
    using i unfolding nested_raw by simp
  ultimately show ?thesis using that [of hdr] pkt hdr by (simp add: shift_layer_def)
qed

lemma nested_ipv4:
  assumes run: "nested_build ctx (map builder_layer (Ipv4B v # t # rest)) = CrOk pkt"
  obtains inner vh where
      "nested_build (cl_child_context (ipv4_layer v) ctx) (map builder_layer (t # rest)) = CrOk inner"
    and "pkt = \<lparr>pkt_bytes = vh @ pkt_bytes inner,
      pkt_layers = \<lparr>layer_protocol = Ipv4, layer_offset = 0, layer_len = length vh\<rparr>
        # map (shift_layer (length vh)) (pkt_layers inner)\<rparr>"
    and "20 \<le> length vh" and "length vh + length (pkt_bytes inner) < 65536"
    and "ipv4_header_len vh = Some (length vh)"
    and "ipv4_total_length vh = Some (word_of_nat (length vh + length (pkt_bytes inner)))"
    and "ipv4_fragment_offset vh = Some (or_else (ib_fragment_offset v) 0 AND 0x1FFF)"
    and "ipv4_protocol vh = Some (or_else (ib_protocol v)
      (let p = cl_protocol (builder_layer t) in
       if p = Icmp then ip_icmp else if p = Tcp then ip_tcp else if p = Udp then ip_udp else 255))"
proof (rule nested_stepE [OF run])
  fix inner :: packet and plan :: craft_plan and hdr
  let ?n = "pl_layer_len plan"
  let ?data = "replicate ?n 0 @ pkt_bytes inner"
  assume i: "nested_build (cl_child_context (builder_layer (Ipv4B v)) ctx) (map builder_layer (t # rest)) = CrOk inner"
    and plan: "cl_measure (builder_layer (Ipv4B v)) ctx (inner_plan inner) = CrOk plan"
    and wrote: "cl_write (builder_layer (Ipv4B v)) ctx plan (inner_child ?n inner) ?data = CrOk (hdr @ pkt_bytes inner)"
    and hdr: "length hdr = ?n" and total: "length ?data = pl_total_len plan"
    and pkt: "pkt = \<lparr>pkt_bytes = hdr @ pkt_bytes inner,
      pkt_layers = \<lparr>layer_protocol = cl_protocol (builder_layer (Ipv4B v)), layer_offset = 0, layer_len = ?n\<rparr>
        # map (shift_layer ?n) (pkt_layers inner)\<rparr>"
  have m: "ipv4_measure v ctx (inner_plan inner) = CrOk plan" using plan by (simp add: ipv4_layer_def)
  note n = ipv4_measure_CrOk [OF m]
  have child: "child_is (inner_child ?n inner) q = (cl_protocol (builder_layer t) = q)" for q
    using nested_build_tiles [OF i all_craftable]
    by (cases "pkt_layers inner") (auto simp: inner_child_def child_is_def)
  obtain h0 h c where h: "length h = ?n"
      "set_fields (ipv4_fields v ?n (word_of_nat (pl_total_len plan))
        (or_else (ib_protocol v)
          (if child_is (inner_child ?n inner) Icmp then ip_icmp else if child_is (inner_child ?n inner) Tcp then ip_tcp
           else if child_is (inner_child ?n inner) Udp then ip_udp else 255))) h0 = Some h"
      "ipv4_write v ctx plan (inner_child ?n inner) ?data = CrOk (patched h 10 c @ drop ?n ?data)"
    by (rule ipv4_writes [OF m total, of "inner_child ?n inner"]) (rule that)
  have "hdr = patched h 10 c" using wrote h(1,3) hdr n by (auto simp: ipv4_layer_def)
  then have "ipv4_header_len hdr = Some ?n" "ipv4_total_length hdr = Some (word_of_nat (pl_total_len plan))"
    "ipv4_fragment_offset hdr = Some (or_else (ib_fragment_offset v) 0 AND 0x1FFF)"
    "ipv4_protocol hdr = Some (or_else (ib_protocol v)
      (let p = cl_protocol (builder_layer t) in
       if p = Icmp then ip_icmp else if p = Tcp then ip_tcp else if p = Udp then ip_udp else 255))"
    using ipv4_written [OF h(2) n(3,2)] h(1) n(1)
    by (simp_all add: ipv4_header_len_def ipv4_total_length_def ipv4_fragment_offset_def ipv4_protocol_def
        patched_field child Let_def)
  then show ?thesis
    using that [of inner hdr] i pkt hdr n total by (simp add: ipv4_layer_def Let_def)
qed

lemma nested_eth:
  assumes run: "nested_build ctx (map builder_layer (EthB e # Ipv4B v # rest)) = CrOk pkt"
  obtains inner eh where
      "nested_build ctx (map builder_layer (Ipv4B v # rest)) = CrOk inner"
    and "pkt = \<lparr>pkt_bytes = eh @ pkt_bytes inner,
      pkt_layers = \<lparr>layer_protocol = Eth, layer_offset = 0, layer_len = 14\<rparr>
        # map (shift_layer 14) (pkt_layers inner)\<rparr>"
    and "length eh = 14"
    and "eth_eth_type eh = Some (eth_type_from (eth_type_into (or_else (eb_eth_type e) EtIpv4)))"
proof (rule nested_stepE [OF run])
  fix inner :: packet and plan :: craft_plan and hdr
  let ?n = "pl_layer_len plan"
  let ?data = "replicate ?n 0 @ pkt_bytes inner"
  assume i: "nested_build (cl_child_context (builder_layer (EthB e)) ctx) (map builder_layer (Ipv4B v # rest)) = CrOk inner"
    and plan: "cl_measure (builder_layer (EthB e)) ctx (inner_plan inner) = CrOk plan"
    and wrote: "cl_write (builder_layer (EthB e)) ctx plan (inner_child ?n inner) ?data = CrOk (hdr @ pkt_bytes inner)"
    and hdr: "length hdr = ?n"
    and pkt: "pkt = \<lparr>pkt_bytes = hdr @ pkt_bytes inner,
      pkt_layers = \<lparr>layer_protocol = cl_protocol (builder_layer (EthB e)), layer_offset = 0, layer_len = ?n\<rparr>
        # map (shift_layer ?n) (pkt_layers inner)\<rparr>"
  have n: "?n = 14" using plan by (auto simp: eth_layer_def eth_measure_def cr_bind_CrOk)
  have child: "child_is (inner_child ?n inner) Ipv4"
    using nested_build_tiles [OF i all_craftable]
    by (cases "pkt_layers inner") (auto simp: inner_child_def child_is_def ipv4_layer_def)
  have "14 \<le> length ?data" using n by simp
  then obtain h where h: "length h = 14" "eth_write e ctx plan (inner_child ?n inner) ?data = CrOk (h @ drop 14 ?data)"
      "set_fields
          [view_set 0 6 whole (or_else (eb_dst e) 0), view_set 6 12 whole (or_else (eb_src e) 0),
           view_set 12 14 whole (eth_type_into (or_else (eb_eth_type e)
             (if child_is (inner_child ?n inner) Ipv4 then EtIpv4 else EtReserverd 0)))] (take 14 ?data) = Some h"
    by (rule eth_writes [of ?data e ctx plan "inner_child ?n inner"])
  have "hdr = h" using wrote h(1,2) hdr n by (auto simp: eth_layer_def)
  moreover have "eth_eth_type h = Some (eth_type_from (eth_type_into (or_else (eb_eth_type e) EtIpv4)))"
    using eth_type_written [OF h(3)] child by simp
  ultimately show ?thesis
    using that [of inner hdr] i pkt hdr n h(1) by (simp add: eth_layer_def)
qed

section \<open>Parsing what was crafted\<close>

lemma slice_prefix:
  assumes "slice data off (off + length th) = Some th" and "k \<le> length th"
  shows "slice data off (off + k) = Some (take k th)"
proof -
  have "take (length th) (drop off data) = th" "off + length th \<le> length data"
    using assms(1) by (auto simp: slice_def split: if_splits)
  moreover have "take k (take (length th) (drop off data)) = take k (drop off data)"
    using assms(2) by (simp add: min_def)
  ultimately show ?thesis using assms(2) by simp
qed

lemma unat_of_nat16: "k < 65536 \<Longrightarrow> unat (word_of_nat k :: 16 word) = k"
  by (simp add: unat_of_nat take_bit_nat_eq_self)

lemma parse_transport_crafted:
  assumes "transport_header t th" and "plain_transport reg t" and "slice data off (off + length th) = Some th"
    and "off + length th + n = ctx_end (ctx_at data e ls)" and "length data \<le> usize_max"
  shows "parse_proto ext reg (Suc k) (cl_protocol (builder_layer t)) (ctx_at data e ls) off =
    (ctx_at data e (ls @ \<lparr>layer_protocol = cl_protocol (builder_layer t), layer_offset = off, layer_len = length th\<rparr>
       # raw_tail (off + length th) n), Done)"
proof (cases t)
  case (UdpB u)
  then show ?thesis
    using assms udp_parse_crafted [of reg u data off th n e ls]
    by (simp add: transport_header_def udp_layer_def parse_body_def)
next
  case (TcpB b)
  then have th: "20 \<le> length th" "tcp_header_len th = Some (length th)"
    "tcp_src_port th = Some (or_else (tb_src_port b) 0)" "tcp_dst_port th = Some (or_else (tb_dst_port b) 0)"
    using assms(1) by (simp_all add: transport_header_def)
  have "take (Suc 0) (drop 12 (take 20 th)) = take (Suc 0) (drop 12 th)" by (simp add: drop_take)
  then have th':  "tcp_header_len (take 20 th) = Some (length th)"
    using th(1,2) by (simp add: tcp_header_len_def view_raw_def slice_def)
  have pre: "slice data off (off + 20) = Some (take 20 th)"
    using assms(3) th(1) by (rule slice_prefix)
  show ?thesis
    using TcpB assms th th' pre tcp_parse_crafted [of reg b data off "take 20 th" "length th" th n e ls]
    by (simp add: tcp_layer_def parse_body_def)
qed (use assms(1) in \<open>simp_all add: transport_header_def\<close>)

definition transport_entry :: "builder \<Rightarrow> bytes \<Rightarrow> bytes \<Rightarrow> layer" where
  "transport_entry t vh th =
    \<lparr>layer_protocol = cl_protocol (builder_layer t), layer_offset = 14 + length vh, layer_len = length th\<rparr>"

definition outer_entries :: "bytes \<Rightarrow> layer list" where
  "outer_entries vh =
    [\<lparr>layer_protocol = Eth, layer_offset = 0, layer_len = 14\<rparr>,
     \<lparr>layer_protocol = Ipv4, layer_offset = 14, layer_len = length vh\<rparr>]"

text \<open>The headers of a packet crafted from an Ethernet, an IPv4, a transport and a raw layer.\<close>

definition crafted_headers :: "ipv4_builder \<Rightarrow> builder \<Rightarrow> bytes \<Rightarrow> bytes \<Rightarrow> bytes \<Rightarrow> bytes \<Rightarrow> bool" where
  "crafted_headers v t payload eh vh th =
    (length eh = 14 \<and> eth_eth_type eh = Some EtIpv4 \<and>
     20 \<le> length vh \<and> length vh + (length th + length payload) < 65536 \<and> ipv4_header_len vh = Some (length vh) \<and>
     ipv4_total_length vh = Some (word_of_nat (length vh + (length th + length payload))) \<and>
     ipv4_fragment_offset vh = Some (or_else (ib_fragment_offset v) 0 AND 0x1FFF) \<and>
     ipv4_protocol vh = Some (or_else (ib_protocol v) (if cl_protocol (builder_layer t) = Tcp then ip_tcp else ip_udp)) \<and>
     transport_header t th)"

lemma transport_header_proto: "transport_header t th \<Longrightarrow> cl_protocol (builder_layer t) \<in> {Udp, Tcp} \<and> 0 < length th"
  by (cases t) (auto simp: transport_header_def udp_layer_def tcp_layer_def)

lemma crafted_headersE:
  assumes "stack_build (map builder_layer [EthB e, Ipv4B v, t, RawB payload]) = CrOk pkt"
    and "plain_transport reg t" and "or_else (eb_eth_type e) EtIpv4 = EtIpv4"
  obtains eh vh th where "crafted_headers v t payload eh vh th"
    "pkt = \<lparr>pkt_bytes = eh @ vh @ th @ payload, pkt_layers = outer_entries vh @
      [transport_entry t vh th,
       \<lparr>layer_protocol = Raw, layer_offset = 14 + length vh + length th, layer_len = length payload\<rparr>]\<rparr>"
proof -
  obtain ip eh where ip: "nested_build default_context (map builder_layer [Ipv4B v, t, RawB payload]) = CrOk ip"
    and pkt: "pkt = \<lparr>pkt_bytes = eh @ pkt_bytes ip,
      pkt_layers = \<lparr>layer_protocol = Eth, layer_offset = 0, layer_len = 14\<rparr> # map (shift_layer 14) (pkt_layers ip)\<rparr>"
    and eh: "length eh = 14" "eth_eth_type eh = Some EtIpv4"
    by (rule nested_eth [OF stack_build_nested(2) [OF assms(1)]]) (use assms(3) in \<open>simp add: eth_type_from_def\<close>)
  obtain seg vh where seg: "nested_build (cl_child_context (ipv4_layer v) default_context)
        (map builder_layer [t, RawB payload]) = CrOk seg"
    and ip_eq: "ip = \<lparr>pkt_bytes = vh @ pkt_bytes seg,
      pkt_layers = \<lparr>layer_protocol = Ipv4, layer_offset = 0, layer_len = length vh\<rparr>
        # map (shift_layer (length vh)) (pkt_layers seg)\<rparr>"
    and vh: "20 \<le> length vh" "length vh + length (pkt_bytes seg) < 65536" "ipv4_header_len vh = Some (length vh)"
      "ipv4_total_length vh = Some (word_of_nat (length vh + length (pkt_bytes seg)))"
      "ipv4_fragment_offset vh = Some (or_else (ib_fragment_offset v) 0 AND 0x1FFF)"
      "ipv4_protocol vh = Some (or_else (ib_protocol v) (let p = cl_protocol (builder_layer t) in
         if p = Icmp then ip_icmp else if p = Tcp then ip_tcp else if p = Udp then ip_udp else 255))"
    by (rule nested_ipv4 [OF ip])
  obtain th where th: "transport_header t th"
    and seg_eq: "seg = \<lparr>pkt_bytes = th @ payload, pkt_layers =
      [\<lparr>layer_protocol = cl_protocol (builder_layer t), layer_offset = 0, layer_len = length th\<rparr>,
       \<lparr>layer_protocol = Raw, layer_offset = length th, layer_len = length payload\<rparr>]\<rparr>"
    by (rule nested_transport [OF seg assms(2)])
  have len: "length (pkt_bytes seg) = length th + length payload" using seg_eq by simp
  have "crafted_headers v t payload eh vh th"
    using eh vh [unfolded len] th transport_header_proto [OF th] by (auto simp: crafted_headers_def Let_def)
  then show ?thesis
    by (rule that) (simp add: pkt ip_eq seg_eq shift_layer_def outer_entries_def transport_entry_def)
qed

lemma parse_crafted_headers:
  assumes hdrs: "crafted_headers v t payload eh vh th" and plain: "plain_transport reg t"
    and v: "ib_protocol v = None" "or_else (ib_fragment_offset v) 0 = 0"
  defines "data \<equiv> eh @ vh @ th @ payload"
  defines "ls \<equiv> outer_entries vh @ transport_entry t vh th # raw_tail (14 + length vh + length th) (length payload)"
  shows "eth_parse reg (parse_proto ext reg (Suc (Suc k))) (ctx_at data None []) 0 = (ctx_at data None ls, Done)"
proof -
  let ?n = "length vh" and ?m = "length th + length payload"
  let ?eth = "\<lparr>layer_protocol = Eth, layer_offset = 0, layer_len = 14\<rparr>"
  let ?proto = "if cl_protocol (builder_layer t) = Tcp then ip_tcp else ip_udp"
  note h = hdrs [unfolded crafted_headers_def]
  have eh: "length eh = 14" and th: "transport_header t th"
    and vh: "20 \<le> length vh" "ipv4_header_len vh = Some (length vh)" using h by simp_all
  note proto = transport_header_proto [OF th]
  have big: "length data \<le> usize_max" using h by (simp add: data_def usize_max_def)
  have trans: "parse_proto ext reg (Suc k) (cl_protocol (builder_layer t))
      (ctx_at data (Some (14 + (?n + ?m))) (outer_entries vh)) (14 + ?n) = (ctx_at data (Some (14 + (?n + ?m))) ls, Done)"
    using parse_transport_crafted [OF th plain, of data "14 + ?n" "length payload" "Some (14 + (?n + ?m))"
        "outer_entries vh" ext k] big eh
    by (simp add: ctx_end_at data_def ls_def transport_entry_def)
  have disp: "ipv4_dispatch reg (parse_proto ext reg (Suc k)) ?proto
      (ctx_at data (Some (14 + (?n + ?m))) ([?eth] @ [\<lparr>layer_protocol = Ipv4, layer_offset = 14, layer_len = ?n\<rparr>]))
      (14 + ?n) = (ctx_at data (Some (14 + (?n + ?m))) ls, Done)"
    using trans proto
    by (auto simp: ipv4_dispatch_def parse_child_def parse_child_with_def can_push_layer_def default_options_def
        ip_tcp_def ip_udp_def ip_icmp_def ip_igmp_def ip_gre_def outer_entries_def)
  have "ipv4_parse reg (parse_proto ext reg (Suc k)) (ctx_at data None [?eth]) 14 = (ctx_at data None ls, Done)"
  proof (rule ipv4_parse_crafted [where h = ?n and n = ?m and min_hdr = "take 20 vh" and hdr = vh and
        len = "word_of_nat (?n + ?m)",
        OF _ _ _ _ _ _ _ _ _ big disp])
    show "ipv4_header_len (take 20 vh) = Some ?n"
      using vh by (simp add: ipv4_header_len_def view_raw_def slice_def)
    show "unat (word_of_nat (?n + ?m) :: 16 word) = ?n + ?m" using h by (intro unat_of_nat16) simp
    show "ipv4_protocol vh = Some ?proto" using h v(1) by (simp add: or_else_def)
  qed (use h v(2) in \<open>simp_all add: data_def\<close>)
  then show ?thesis
    using h by (intro eth_parse_crafted [where hdr = eh, OF _ _ big]) (simp_all add: data_def parse_body_def)
qed

text \<open>C10: crafting and parsing agree.  The packet that is crafted from an Ethernet, an IPv4, a TCP or UDP
  and a raw layer parses, without an error, to itself: the same layers at the same places, whatever
  addresses, ports that no application parser claims, options and other explicit fields the builders
  have.  An empty payload is recorded by crafting and not by parsing.\<close>

theorem crafted_packet_parses:
  assumes "stack_build (map builder_layer [EthB e, Ipv4B v, t, RawB payload]) = CrOk pkt"
    and "plain_transport reg t"
    and "or_else (eb_eth_type e) EtIpv4 = EtIpv4" and "ib_protocol v = None"
    and "or_else (ib_fragment_offset v) 0 = 0"
  shows "try_parse ext reg Eth default_options (new_packet (pkt_bytes pkt)) =
    (pkt\<lparr>pkt_layers := filter (\<lambda>l. 0 < layer_len l) (pkt_layers pkt)\<rparr>, Done)"
proof -
  obtain eh vh th where hdrs: "crafted_headers v t payload eh vh th"
    and pkt: "pkt = \<lparr>pkt_bytes = eh @ vh @ th @ payload, pkt_layers = outer_entries vh @
      [transport_entry t vh th,
       \<lparr>layer_protocol = Raw, layer_offset = 14 + length vh + length th, layer_len = length payload\<rparr>]\<rparr>"
    by (rule crafted_headersE [OF assms(1-3)])
  note parsed = parse_crafted_headers [OF hdrs assms(2,4,5), of ext "length (pkt_bytes pkt) - 2"]
  have "0 < length vh" "0 < length th" "length (eh @ vh @ th @ payload) = Suc (Suc (length (eh @ vh @ th @ payload) - 2))"
    using hdrs transport_header_proto [of t th] by (auto simp: crafted_headers_def)
  then show ?thesis
    using parsed
    by (auto simp: pkt try_parse_def Let_def root_fuel_def new_packet_def new_context_def parse_at_def can_push_layer_def
        default_options_def parse_body_def raw_tail_def outer_entries_def transport_entry_def)
qed

theorem crafted_packet_parses_witness:
  "\<exists>pkt. stack_build (map builder_layer sample_stack) = CrOk pkt \<and>
    try_parse (\<lambda>_ _ c _. (c, Done)) (\<lambda>_. None) Eth default_options (new_packet (pkt_bytes pkt)) =
      (pkt\<lparr>pkt_layers := filter (\<lambda>l. 0 < layer_len l) (pkt_layers pkt)\<rparr>, Done)"
proof -
  obtain pkt where pkt: "stack_build (map builder_layer sample_stack) = CrOk pkt" using sample_builds by blast
  moreover have "try_parse (\<lambda>_ _ c _. (c, Done)) (\<lambda>_. None) Eth default_options (new_packet (pkt_bytes pkt)) =
      (pkt\<lparr>pkt_layers := filter (\<lambda>l. 0 < layer_len l) (pkt_layers pkt)\<rparr>, Done)"
    by (rule crafted_packet_parses [OF pkt [unfolded sample_stack_def]])
      (simp_all add: or_else_def eth_builder_new_def ipv4_builder_new_def udp_builder_new_def udp_builder_dst_port_def)
  ultimately show ?thesis by blast
qed

end
