(* ===== verification/Splitcap.thy ===== *)
theory Splitcap
  imports Rewriter_Sound
begin

text \<open>
  The splitting tool (\<^verbatim>\<open>tools/maja-splitcap/src/main.rs\<close>): the packets of a capture are grouped by
  a flow identifier and every selected flow is written to a PCAP file of its own, in one pass that keeps
  the packets in memory or in two passes that keep counts and open writers.  A \<^verbatim>\<open>HashMap\<close> is the
  list of its entries, and the order in which it is iterated, which its random state decides, is a
  parameter: any reordering of its keys.  The output directory maps file names to contents.  The
  command line, progress bars, logging and the printing of the summary are not modelled.
\<close>

section \<open>Flow identifiers and file names\<close>

datatype split_granularity =
    GrSrcIp | GrDstIp | GrTuple2 | GrTuple2Sym | GrTuple3 | GrTuple3Sym | GrTuple4 | GrTuple4Sym
  | GrTuple5 | GrTuple5Sym

datatype split_flow_id = SplitSymmetric flow_id | SplitAsymmetric flow_id

record flow_info =
  fi_src_ip :: ip_addr
  fi_dst_ip :: ip_addr
  fi_protocol :: ip_protocol
  fi_src_port :: "16 word"
  fi_dst_port :: "16 word"

fun split_from_info :: "split_granularity \<Rightarrow> flow_info \<Rightarrow> split_flow_id" where
  "split_from_info GrSrcIp i = SplitAsymmetric (flow_of_ip False (fi_src_ip i))"
| "split_from_info GrDstIp i = SplitAsymmetric (flow_of_ip False (fi_dst_ip i))"
| "split_from_info GrTuple2 i = SplitAsymmetric (flow_of_tuple2 False (fi_src_ip i) (fi_dst_ip i))"
| "split_from_info GrTuple2Sym i = SplitSymmetric (flow_of_tuple2 True (fi_src_ip i) (fi_dst_ip i))"
| "split_from_info GrTuple3 i =
    SplitAsymmetric (flow_of_tuple3 False (fi_src_ip i) (fi_dst_ip i) (fi_protocol i))"
| "split_from_info GrTuple3Sym i =
    SplitSymmetric (flow_of_tuple3 True (fi_src_ip i) (fi_dst_ip i) (fi_protocol i))"
| "split_from_info GrTuple4 i =
    SplitAsymmetric (flow_of_tuple4 False (fi_src_ip i) (fi_dst_ip i) (fi_src_port i) (fi_dst_port i))"
| "split_from_info GrTuple4Sym i =
    SplitSymmetric (flow_of_tuple4 True (fi_src_ip i) (fi_dst_ip i) (fi_src_port i) (fi_dst_port i))"
| "split_from_info GrTuple5 i =
    SplitAsymmetric (flow_of_tuple5 False (fi_src_ip i) (fi_dst_ip i) (fi_src_port i) (fi_dst_port i)
      (fi_protocol i))"
| "split_from_info GrTuple5Sym i =
    SplitSymmetric (flow_of_tuple5 True (fi_src_ip i) (fi_dst_ip i) (fi_src_port i) (fi_dst_port i)
      (fi_protocol i))"

text \<open>The names of the IP protocols: the derived \<^verbatim>\<open>Display\<close> prints the name of the variant.\<close>

definition ip_protocol_names :: "string list" where
  "ip_protocol_names =
   [''Hopopt'', ''Icmp'', ''Igmp'', ''Ggp'', ''Ipv4'', ''St'', ''Tcp'', ''Cbt'', ''Egp'', ''Igp'',
    ''BbnRccMon'', ''NvpII'', ''Pup'', ''Argus'', ''Emcon'', ''Xnet'', ''Chaos'', ''Udp'', ''Mux'',
    ''DcnMeas'', ''Hmp'', ''Prm'', ''XnsIdp'', ''Trunk1'', ''Trunk2'', ''Leaf1'', ''Leaf2'', ''Rdp'',
    ''Irtp'', ''IsoTp4'', ''Netblt'', ''MfeNsp'', ''MeritInp'', ''Dccp'', ''ThreePc'', ''Idpr'', ''Xtp'',
    ''Ddp'', ''IdprCmtp'', ''TpPlusPlus'', ''Il'', ''Ipv6'', ''Sdrp'', ''Ipv6Route'', ''Ipv6Frag'',
    ''Idrp'', ''Rsvp'', ''Gre'', ''Dsr'', ''Bna'', ''Esp'', ''Ah'', ''INlsp'', ''Swipe'', ''Narp'',
    ''Mobile'', ''Tlsp'', ''Skip'', ''Ipv6Icmp'', ''Ipv6NoNxt'', ''Ipv6Opts'', ''AnyHostInternalProtocol'',
    ''Cftp'', ''AnyLocalNetwork'', ''SatExpak'', ''Kryptolan'', ''Rvd'', ''Ippc'',
    ''AnyDistributedFileSystem'', ''SatMon'', ''Visa'', ''Ipcv'', ''Cpnx'', ''Cphb'', ''Wsn'', ''Pvp'',
    ''BrSatMon'', ''SunNd'', ''WbMon'', ''WbExpak'', ''IsoIp'', ''Vmtp'', ''SecureVmtp'', ''Vines'',
    ''Iptm'', ''NsfnetIgp'', ''Dgp'', ''Tcf'', ''Eigrp'', ''Ospfigp'', ''SpriteRpc'', ''Larp'', ''Mtp'',
    ''Ax25'', ''IpIp'', ''Micp'', ''SccSp'', ''Etherip'', ''Encap'', ''AnyPrivateEncryptionScheme'',
    ''Gmtp'', ''Ifmp'', ''Pnni'', ''Pim'', ''Aris'', ''Scps'', ''Qnx'', ''AN'', ''IpComp'', ''Snp'',
    ''CompaqPeer'', ''IpxInIp'', ''Vrrp'', ''Pgm'', ''Any0HopProtocol'', ''L2tp'', ''Ddx'', ''Iatp'',
    ''Stp'', ''Srp'', ''Uti'', ''Smp'', ''Sm'', ''Ptp'', ''IsisOverIpv4'', ''Fire'', ''Crtp'', ''Crudp'',
    ''Sscopmce'', ''Iplt'', ''Sps'', ''Pipe'', ''Sctp'', ''Fc'', ''RsvpE2eIgnore'', ''MobilityHeader'',
    ''UdpLite'', ''MplsInIp'', ''Manet'', ''Hip'', ''Shim6'', ''Wesp'', ''Rohc'', ''Ethernet'', ''Aggfrag'',
    ''Nsh'']"

definition show_protocol :: "ip_protocol \<Rightarrow> string" where
  "show_protocol p =
    (if unat p < length ip_protocol_names then ip_protocol_names ! unat p else ''Reserved'')"

fun show_dec :: "nat \<Rightarrow> string" where
  "show_dec n =
    (if n < 10 then [''0123456789'' ! n] else show_dec (n div 10) @ [''0123456789'' ! (n mod 10)])"

declare show_dec.simps [simp del]

text \<open>\<^verbatim>\<open>Display\<close> of \<^verbatim>\<open>IpAddr\<close>; the form of an IPv6 address is a parameter.\<close>

definition show_ipv4 :: "32 word \<Rightarrow> string" where
  "show_ipv4 a =
    show_dec (unat (drop_bit 24 a)) @ ''.'' @ show_dec (unat (drop_bit 16 a AND 255)) @ ''.''
    @ show_dec (unat (drop_bit 8 a AND 255)) @ ''.'' @ show_dec (unat (a AND 255))"

fun show_ip :: "(128 word \<Rightarrow> string) \<Rightarrow> ip_addr \<Rightarrow> string" where
  "show_ip show_v6 (V4 a) = show_ipv4 a"
| "show_ip show_v6 (V6 a) = show_v6 a"

fun flow_id_filename :: "(128 word \<Rightarrow> string) \<Rightarrow> flow_id \<Rightarrow> string" where
  "flow_id_filename v6 (FlowIp ip) = show_ip v6 ip @ ''.pcap''"
| "flow_id_filename v6 (Tuple2 ip1 ip2) = show_ip v6 ip1 @ ''_'' @ show_ip v6 ip2 @ ''.pcap''"
| "flow_id_filename v6 (Tuple3 ip1 ip2 protocol) =
    show_ip v6 ip1 @ ''_'' @ show_ip v6 ip2 @ ''_'' @ show_protocol protocol @ ''.pcap''"
| "flow_id_filename v6 (Tuple4 ip1 ip2 port1 port2) =
    show_ip v6 ip1 @ '':'' @ show_dec (unat port1) @ ''_'' @ show_ip v6 ip2 @ '':'' @ show_dec (unat port2)
    @ ''.pcap''"
| "flow_id_filename v6 (Tuple5 ip1 ip2 port1 port2 protocol) =
    show_ip v6 ip1 @ '':'' @ show_dec (unat port1) @ ''_'' @ show_ip v6 ip2 @ '':'' @ show_dec (unat port2)
    @ ''_'' @ show_protocol protocol @ ''.pcap''"

fun to_filename :: "(128 word \<Rightarrow> string) \<Rightarrow> split_flow_id \<Rightarrow> string" where
  "to_filename v6 (SplitSymmetric f) = flow_id_filename v6 f"
| "to_filename v6 (SplitAsymmetric f) = flow_id_filename v6 f"

section \<open>The flow of a packet\<close>

definition layer_viewer :: "packet \<Rightarrow> proto \<Rightarrow> bytes option tool_result" where
  "layer_viewer pkt p = nth_layer_viewer pkt p 0"

definition viewer_ports ::
    "(bytes \<Rightarrow> 16 word option) \<Rightarrow> (bytes \<Rightarrow> 16 word option) \<Rightarrow> bytes \<Rightarrow> (16 word \<times> 16 word) tool_result" where
  "viewer_ports src dst hdr =
    t_bind (fetch (src hdr)) (\<lambda>s. t_bind (fetch (dst hdr)) (\<lambda>d. TOk (s, d)))"

definition split_ports :: "packet \<Rightarrow> (16 word \<times> 16 word) tool_result" where
  "split_ports pkt =
    t_bind (layer_viewer pkt Tcp) (\<lambda>tcp. case tcp of
      Some hdr \<Rightarrow> viewer_ports tcp_src_port tcp_dst_port hdr
    | None \<Rightarrow>
        t_bind (layer_viewer pkt Udp) (\<lambda>udp. case udp of
          Some hdr \<Rightarrow> viewer_ports udp_src_port udp_dst_port hdr
        | None \<Rightarrow> TOk (0, 0)))"

definition process_packet ::
    "(parsers \<Rightarrow> nat \<Rightarrow> parse_fn) \<Rightarrow> registry \<Rightarrow> packet_record \<Rightarrow> flow_info option tool_result" where
  "process_packet ext reg r =
    (case try_parse_with_link_type ext reg (pr_link_type r) default_options (new_packet (pr_data r)) of
       (pkt, Done) \<Rightarrow>
         t_bind (layer_viewer pkt Ipv4) (\<lambda>v. case v of
           None \<Rightarrow> TOk None
         | Some ipv4 \<Rightarrow>
             t_bind (fetch (ipv4_protocol ipv4)) (\<lambda>protocol.
             t_bind (split_ports pkt) (\<lambda>(src_port, dst_port).
             t_bind (fetch (ipv4_src ipv4)) (\<lambda>src.
             t_bind (fetch (ipv4_dst ipv4)) (\<lambda>dst.
             TOk (Some \<lparr>fi_src_ip = V4 src, fi_dst_ip = V4 dst, fi_protocol = protocol,
                       fi_src_port = src_port, fi_dst_port = dst_port\<rparr>))))))
     | (_, Failed e) \<Rightarrow> TOk None
     | _ \<Rightarrow> TPanic)"

section \<open>Reading the capture\<close>

fun sniffed_left :: "sniffed_reader \<Rightarrow> nat" where
  "sniffed_left (StreamPcap r) = length (pr_source r)"
| "sniffed_left (StreamPcapng r) = length (ng_source r)"

lemma pcap_next_shrinks:
  "pcap_reader_next_packet r = (r', COk (Some x)) \<Longrightarrow> length (pr_source r') < length (pr_source r)"
  by (auto simp: pcap_reader_next_packet_def pcap_read_packet_raw_def read_exact_Some c_bind_COk
      split: prod.splits option.splits cresult.splits)

lemma pcapng_next_shrinks:
  "pcapng_next_packet r = (r', COk (Some x)) \<Longrightarrow> length (ng_source r') < length (ng_source r)"
proof (induction "length (ng_source r)" arbitrary: r rule: less_induct)
  case (less r0)
  obtain r1 res where read: "read_next_block r0 = (r1, res)" by fastforce
  show ?case
  proof (cases "\<exists>bt block. res = COk (Some (bt, block))")
    case True
    then obtain bt block where res: "res = COk (Some (bt, block))" by blast
    have len: "length (ng_source r1) < length (ng_source r0)" using read_next_block_shrinks [of r0 r1] read res by fastforce
    have IH: "length (ng_source r') < length (ng_source r0)"
      if "pcapng_next_packet r2 = (r', COk (Some x))" "ng_source r2 = ng_source r1" for r2
      using less.hyps [of r2] that len by simp
    note step = less.prems [unfolded pcapng_next_packet.simps [of r0] read res, simplified]
    show ?thesis
    proof (cases bt)
      case BtSectionHeader
      then show ?thesis
        using step by (auto split: cresult.splits intro: IH)
    next
      case BtInterfaceDescription
      then show ?thesis
        using step by (auto split: cresult.splits intro: IH)
    qed (use step len in \<open>auto intro: IH\<close>)
  qed (use less.prems read in \<open>auto simp: pcapng_next_packet.simps [of r0] split: cresult.splits option.splits\<close>)
qed

lemma sniffed_next_shrinks:
  "sniffed_next_packet r = (r', COk (Some x)) \<Longrightarrow> sniffed_left r' < sniffed_left r"
  by (cases r) (auto simp: apfst_def map_prod_def split: prod.splits dest: pcap_next_shrinks pcapng_next_shrinks)

text \<open>The loop over \<^verbatim>\<open>next_packet()?\<close>: the packets, and the reader at the end with its interfaces.\<close>

function read_records :: "sniffed_reader \<Rightarrow> (packet_record list \<times> sniffed_reader) cresult" where
  "read_records r =
    (case sniffed_next_packet r of
       (r', COk (Some x)) \<Rightarrow> c_bind (read_records r') (\<lambda>(xs, r''). COk (x # xs, r''))
     | (r', COk None) \<Rightarrow> COk ([], r')
     | (_, CErr e) \<Rightarrow> CErr e
     | (_, CPanic) \<Rightarrow> CPanic)"
  by pat_completeness auto
termination
  by (relation "measure sniffed_left") (auto dest: sniffed_next_shrinks [OF sym])

declare read_records.simps [simp del]

section \<open>Grouping\<close>

text \<open>\<^verbatim>\<open>entry(k).or_default()\<close> followed by an update of the value.\<close>

fun entry_or :: "'v \<Rightarrow> ('v \<Rightarrow> 'v) \<Rightarrow> 'k \<Rightarrow> ('k \<times> 'v) list \<Rightarrow> ('k \<times> 'v) list" where
  "entry_or d f k [] = [(k, f d)]"
| "entry_or d f k ((k', v) # m) = (if k = k' then (k', f v) # m else (k', v) # entry_or d f k m)"

text \<open>\<^verbatim>\<open>into_iter()\<close>: the entries in the order of the map.\<close>

definition into_iter :: "('k list \<Rightarrow> 'k list) \<Rightarrow> ('k \<times> 'v) list \<Rightarrow> ('k \<times> 'v) list" where
  "into_iter ord m = map (\<lambda>k. (k, the (map_of m k))) (ord (map fst m))"

record split_totals =
  st_packets :: nat
  st_skipped :: nat

fun collect_flows ::
    "(parsers \<Rightarrow> nat \<Rightarrow> parse_fn) \<Rightarrow> registry \<Rightarrow> split_granularity \<Rightarrow> packet_record list \<Rightarrow>
     (split_flow_id \<times> packet_record list) list \<times> split_totals \<Rightarrow>
     ((split_flow_id \<times> packet_record list) list \<times> split_totals) tool_result" where
  "collect_flows ext reg g [] s = TOk s"
| "collect_flows ext reg g (r # rs) (flows, t) =
    (let t = t\<lparr>st_packets := st_packets t + 1\<rparr> in
     t_bind (process_packet ext reg r) (\<lambda>info. case info of
       None \<Rightarrow> collect_flows ext reg g rs (flows, t\<lparr>st_skipped := st_skipped t + 1\<rparr>)
     | Some i \<Rightarrow> collect_flows ext reg g rs (entry_or [] (\<lambda>ps. ps @ [r]) (split_from_info g i) flows, t)))"

fun count_flows ::
    "(parsers \<Rightarrow> nat \<Rightarrow> parse_fn) \<Rightarrow> registry \<Rightarrow> split_granularity \<Rightarrow> packet_record list \<Rightarrow>
     (split_flow_id \<times> nat) list \<times> split_totals \<Rightarrow> ((split_flow_id \<times> nat) list \<times> split_totals) tool_result" where
  "count_flows ext reg g [] s = TOk s"
| "count_flows ext reg g (r # rs) (counts, t) =
    (let t = t\<lparr>st_packets := st_packets t + 1\<rparr> in
     t_bind (process_packet ext reg r) (\<lambda>info. case info of
       None \<Rightarrow> count_flows ext reg g rs (counts, t\<lparr>st_skipped := st_skipped t + 1\<rparr>)
     | Some i \<Rightarrow> count_flows ext reg g rs (entry_or 0 (\<lambda>n. n + 1) (split_from_info g i) counts, t)))"

text \<open>\<^verbatim>\<open>sort_by_key(Reverse(..))\<close> is stable; a number of flows of 0 selects all.\<close>

definition sort_descending :: "('a \<Rightarrow> nat) \<Rightarrow> 'a list \<Rightarrow> 'a list" where
  "sort_descending f xs = sort_key (\<lambda>x. - int (f x)) xs"

definition select_flows :: "nat \<Rightarrow> ('v \<Rightarrow> nat) \<Rightarrow> ('k \<times> 'v) list \<Rightarrow> ('k \<times> 'v) list" where
  "select_flows number f flows =
    (let sorted_flows = sort_descending (\<lambda>x. f (snd x)) flows
     in if 0 < number then take number sorted_flows else sorted_flows)"

section \<open>Writing\<close>

record output_pcap_config =
  oc_snap_len :: "32 word"
  oc_nanosecond :: bool

record split_args =
  sa_granularity :: split_granularity
  sa_number :: nat
  sa_two_pass :: bool
  sa_snap_len :: "32 word option"
  sa_nanosecond :: "bool option"

definition output_pcap_config_of :: "sniffed_reader \<Rightarrow> split_args \<Rightarrow> output_pcap_config" where
  "output_pcap_config_of r args =
    (let ifs = sniffed_interfaces r in
     \<lparr>oc_snap_len = (case sa_snap_len args of Some n \<Rightarrow> n
        | None \<Rightarrow> (case ifs of i # _ \<Rightarrow> if_snap_len i | [] \<Rightarrow> 65535)),
      oc_nanosecond = (case sa_nanosecond args of Some b \<Rightarrow> b
        | None \<Rightarrow> (case r of
             StreamPcap p \<Rightarrow> pr_nanosecond p
           | StreamPcapng _ \<Rightarrow> list_ex (\<lambda>i. if_resolution i = PowerOfTen 9) ifs))\<rparr>)"

text \<open>The writer of a new file; what it has written is its output.\<close>

definition split_writer :: "link_type \<Rightarrow> output_pcap_config \<Rightarrow> pcap_writer" where
  "split_writer lt config = pcap_writer_new [] False (oc_nanosecond config) (oc_snap_len config) lt"

fun write_packets :: "pcap_writer \<Rightarrow> packet_record list \<Rightarrow> pcap_writer tool_result" where
  "write_packets w [] = TOk w"
| "write_packets w (p # ps) = t_bind (of_capture (pcap_write_packet w p)) (\<lambda>w. write_packets w ps)"

type_synonym directory = "string \<rightharpoonup> bytes"

record split_summary =
  sm_packets :: nat
  sm_written :: nat
  sm_skipped :: nat
  sm_flows :: nat
  sm_top :: "(split_flow_id \<times> nat) list"

fun write_flows ::
    "(128 word \<Rightarrow> string) \<Rightarrow> output_pcap_config \<Rightarrow> (split_flow_id \<times> packet_record list) list \<Rightarrow>
     directory \<times> nat \<Rightarrow> (directory \<times> nat) tool_result" where
  "write_flows v6 config [] s = TOk s"
| "write_flows v6 config ((k, ps) # flows) (dir, written) =
    (case ps of
       [] \<Rightarrow> write_flows v6 config flows (dir, written)
     | first # _ \<Rightarrow>
         t_bind (write_packets (split_writer (pr_link_type first) config) ps) (\<lambda>w.
         write_flows v6 config flows (dir(to_filename v6 k \<mapsto> pw_out w), written + length ps)))"

definition single_pass_split ::
    "(parsers \<Rightarrow> nat \<Rightarrow> parse_fn) \<Rightarrow> registry \<Rightarrow> (128 word \<Rightarrow> string) \<Rightarrow> (split_flow_id list \<Rightarrow> split_flow_id list) \<Rightarrow>
     split_args \<Rightarrow> sniffed_reader \<Rightarrow> directory \<Rightarrow> (directory \<times> split_summary) tool_result" where
  "single_pass_split ext reg v6 ord args reader dir =
    t_bind (of_capture (read_records reader)) (\<lambda>(rs, reader).
    t_bind (collect_flows ext reg (sa_granularity args) rs ([], \<lparr>st_packets = 0, st_skipped = 0\<rparr>)) (\<lambda>(flows, t).
    let config = output_pcap_config_of reader args;
        selected = select_flows (sa_number args) length (into_iter ord flows)
    in t_bind (write_flows v6 config selected (dir, 0)) (\<lambda>(dir, written).
       TOk (dir, \<lparr>sm_packets = st_packets t, sm_written = written, sm_skipped = st_skipped t,
                  sm_flows = length selected,
                  sm_top = map (\<lambda>(k, ps). (k, length ps)) (take 10 selected)\<rparr>))))"

text \<open>The second pass: one open writer for every selected flow that has occurred.\<close>

record extraction =
  ex_writers :: "(split_flow_id \<times> pcap_writer) list"
  ex_counts :: "(split_flow_id \<times> nat) list"
  ex_written :: nat

fun extract_flows ::
    "(parsers \<Rightarrow> nat \<Rightarrow> parse_fn) \<Rightarrow> registry \<Rightarrow> split_granularity \<Rightarrow> output_pcap_config \<Rightarrow> split_flow_id set \<Rightarrow>
     packet_record list \<Rightarrow> extraction \<Rightarrow> extraction tool_result" where
  "extract_flows ext reg g config selected [] s = TOk s"
| "extract_flows ext reg g config selected (r # rs) s =
    t_bind (process_packet ext reg r) (\<lambda>info. case info of
      None \<Rightarrow> extract_flows ext reg g config selected rs s
    | Some i \<Rightarrow>
        let k = split_from_info g i in
        if k \<notin> selected then extract_flows ext reg g config selected rs s
        else
          let w = (case map_of (ex_writers s) k of Some w \<Rightarrow> w | None \<Rightarrow> split_writer (pr_link_type r) config) in
          t_bind (of_capture (pcap_write_packet w r)) (\<lambda>w.
          extract_flows ext reg g config selected rs
            \<lparr>ex_writers = entry_or w (\<lambda>_. w) k (ex_writers s),
             ex_counts = entry_or 0 (\<lambda>n. n + 1) k (ex_counts s),
             ex_written = ex_written s + 1\<rparr>))"

text \<open>
  The files at the end.  Writers of different flows with one file name write over each other through
  handles and buffers of their own; what they leave behind is a parameter.
\<close>

definition flush_writers ::
    "(128 word \<Rightarrow> string) \<Rightarrow> (bytes list \<Rightarrow> bytes) \<Rightarrow> (split_flow_id \<times> pcap_writer) list \<Rightarrow> directory \<Rightarrow> directory" where
  "flush_writers v6 clash writers dir =
    (\<lambda>name. case filter (\<lambda>x. to_filename v6 (fst x) = name) writers of
       [] \<Rightarrow> dir name
     | [x] \<Rightarrow> Some (pw_out (snd x))
     | xs \<Rightarrow> Some (clash (map (pw_out \<circ> snd) xs)))"

definition two_pass_split ::
    "(parsers \<Rightarrow> nat \<Rightarrow> parse_fn) \<Rightarrow> registry \<Rightarrow> (128 word \<Rightarrow> string) \<Rightarrow> (split_flow_id list \<Rightarrow> split_flow_id list) \<Rightarrow>
     (split_flow_id list \<Rightarrow> split_flow_id list) \<Rightarrow> (bytes list \<Rightarrow> bytes) \<Rightarrow> split_args \<Rightarrow> bytes \<Rightarrow> directory \<Rightarrow>
     (directory \<times> split_summary) tool_result" where
  "two_pass_split ext reg v6 ord ord' clash args src dir =
    t_bind (of_capture (sniffed_reader_new src)) (\<lambda>reader.
    t_bind (of_capture (read_records reader)) (\<lambda>(rs, reader).
    t_bind (count_flows ext reg (sa_granularity args) rs ([], \<lparr>st_packets = 0, st_skipped = 0\<rparr>)) (\<lambda>(counts, t).
    let config = output_pcap_config_of reader args;
        selected = fst ` set (select_flows (sa_number args) (\<lambda>n. n) (into_iter ord counts))
    in t_bind (of_capture (sniffed_reader_new src)) (\<lambda>reader.
       t_bind (of_capture (read_records reader)) (\<lambda>(rs, reader).
       t_bind (extract_flows ext reg (sa_granularity args) config selected rs
           \<lparr>ex_writers = [], ex_counts = [], ex_written = 0\<rparr>) (\<lambda>x.
       TOk (flush_writers v6 clash (ex_writers x) dir,
            \<lparr>sm_packets = st_packets t, sm_written = ex_written x, sm_skipped = st_skipped t,
             sm_flows = card selected,
             sm_top = take 10 (sort_descending snd (into_iter ord' (ex_counts x)))\<rparr>)))))))"

text \<open>\<^verbatim>\<open>main\<close>.\<close>

definition splitcap ::
    "(parsers \<Rightarrow> nat \<Rightarrow> parse_fn) \<Rightarrow> registry \<Rightarrow> (128 word \<Rightarrow> string) \<Rightarrow> (split_flow_id list \<Rightarrow> split_flow_id list) \<Rightarrow>
     (split_flow_id list \<Rightarrow> split_flow_id list) \<Rightarrow> (bytes list \<Rightarrow> bytes) \<Rightarrow> split_args \<Rightarrow> bytes \<Rightarrow> directory \<Rightarrow>
     (directory \<times> split_summary) tool_result" where
  "splitcap ext reg v6 ord ord' clash args src dir =
    t_bind (of_capture (sniffed_reader_new src)) (\<lambda>reader.
    if sa_two_pass args then two_pass_split ext reg v6 ord ord' clash args src dir
    else single_pass_split ext reg v6 ord args reader dir)"

end
