(* ===== verification/Splitcap_Sound.thy ===== *)
theory Splitcap_Sound
  imports Splitcap "HOL-Library.Multiset"
begin

text \<open>
  Splitting is sound: file names tell flows apart, both modes write exactly the packets of the selected
  flows, and what they write reads back.
\<close>

section \<open>File names\<close>

lemma append_sep_eq:
  "c \<notin> set a \<Longrightarrow> c \<notin> set a' \<Longrightarrow> a @ c # b = a' @ c # b' \<longleftrightarrow> a = a' \<and> b = b'"
  by (induction a arbitrary: a'; case_tac a') auto

lemma unat_eq: "unat a = unat b \<longleftrightarrow> a = b"
  by (rule word_unat_eq_iff [symmetric])

definition digits :: "char set" where
  "digits = set ''0123456789''"

definition digit_value :: "char \<Rightarrow> nat" where
  "digit_value c = length (takeWhile (\<lambda>d. d \<noteq> c) ''0123456789'')"

lemma digit_char:
  assumes "n < 10"
  shows "''0123456789'' ! n \<in> digits" "digit_value (''0123456789'' ! n) = n"
proof -
  have "n \<in> {0, 1, 2, 3, 4, 5, 6, 7, 8, 9}" using assms by auto
  then show "''0123456789'' ! n \<in> digits" "digit_value (''0123456789'' ! n) = n"
    by (auto simp: digits_def digit_value_def)
qed

lemma show_dec_digits: "set (show_dec n) \<subseteq> digits"
proof (induction n rule: show_dec.induct)
  case (1 n)
  then show ?case using digit_char(1) [of n] digit_char(1) [of "n mod 10"] by (subst show_dec.simps) simp
qed

lemma show_dec_value: "foldl (\<lambda>v c. 10 * v + digit_value c) 0 (show_dec n) = n"
proof (induction n rule: show_dec.induct)
  case (1 n)
  then show ?case using digit_char(2) [of n] digit_char(2) [of "n mod 10"] by (subst show_dec.simps) simp
qed

lemma show_dec_inj [simp]: "show_dec m = show_dec n \<longleftrightarrow> m = n"
  using show_dec_value by metis

lemma octets_eq:
  assumes "drop_bit 24 a = drop_bit 24 (b :: 32 word)" and "drop_bit 16 a AND 255 = drop_bit 16 b AND 255"
    and "drop_bit 8 a AND 255 = drop_bit 8 b AND 255" and "a AND 255 = b AND 255"
  shows "a = b"
proof (rule bit_word_eqI)
  fix n assume n: "n < LENGTH(32)"
  define i where "i = n mod 8"
  have i: "i < 8" by (simp add: i_def)
  have low: "bit (255 :: 32 word) i" using i bit_mask_iff [of 8 i, where ?'a = "32 word"] by (simp add: mask_eq_exp_minus_1)
  have eqs: "bit (drop_bit 24 a) i = bit (drop_bit 24 b) i"
    "bit (drop_bit 16 a AND 255) i = bit (drop_bit 16 b AND 255) i"
    "bit (drop_bit 8 a AND 255) i = bit (drop_bit 8 b AND 255) i" "bit (a AND 255) i = bit (b AND 255) i"
    using assms by simp_all
  have "n < 32" using n by simp
  then have "n = i \<or> n = 8 + i \<or> n = 16 + i \<or> n = 24 + i" using i_def by presburger
  then show "bit a n = bit b n" using eqs low by (auto simp: bit_drop_bit_eq bit_and_iff add.commute)
qed

lemma no_seps:
  "CHR ''.'' \<notin> set (show_dec n)" "CHR ''_'' \<notin> set (show_dec n)" "CHR '':'' \<notin> set (show_dec n)"
  using show_dec_digits [of n] by (auto simp: digits_def)

lemma show_ipv4_seps: "CHR ''_'' \<notin> set (show_ipv4 a)" "CHR '':'' \<notin> set (show_ipv4 a)"
  by (simp_all add: show_ipv4_def no_seps)

lemma show_ipv4_inj [simp]: "show_ipv4 a = show_ipv4 b \<longleftrightarrow> a = b"
proof
  assume "show_ipv4 a = show_ipv4 b"
  then have "drop_bit 24 a = drop_bit 24 b \<and> drop_bit 16 a AND 255 = drop_bit 16 b AND 255 \<and>
      drop_bit 8 a AND 255 = drop_bit 8 b AND 255 \<and> a AND 255 = b AND 255"
    by (simp only: show_ipv4_def append_Cons append_Nil append_sep_eq [OF no_seps(1) no_seps(1)] show_dec_inj unat_eq)
  then show "a = b" by (blast intro: octets_eq)
qed simp

lemma protocol_names_distinct: "distinct ip_protocol_names"
  by code_simp

lemma protocol_names_length: "length ip_protocol_names = 146"
  by (simp add: ip_protocol_names_def)

lemma show_protocol_inj: "unat p < 146 \<Longrightarrow> unat q < 146 \<Longrightarrow> show_protocol p = show_protocol q \<longleftrightarrow> p = q"
  using nth_eq_iff_index_eq [OF protocol_names_distinct, of "unat p" "unat q"]
  by (simp add: show_protocol_def protocol_names_length unat_eq)

section \<open>The flow of a packet\<close>

lemma viewer_ports_returns: "4 \<le> length b \<Longrightarrow> returns (\<lambda>_. True) (viewer_ports tcp_src_port tcp_dst_port b)"
    "4 \<le> length b \<Longrightarrow> returns (\<lambda>_. True) (viewer_ports udp_src_port udp_dst_port b)"
  using ports_some [of b] by (auto simp: viewer_ports_def)

lemma split_ports_returns:
  assumes "shape pkt"
  shows "returns (\<lambda>_. True) (split_ports pkt)"
  unfolding split_ports_def layer_viewer_def
  by (rule viewer_cases [OF assms], simp, rule viewer_cases [OF assms]) (auto intro!: viewer_ports_returns)

definition ipv4_info :: "flow_info \<Rightarrow> bool" where
  "ipv4_info i = (\<exists>a b. fi_src_ip i = V4 a \<and> fi_dst_ip i = V4 b)"

lemma process_packet_returns:
  assumes "extension ext"
  shows "returns (\<lambda>res. \<forall>i. res = Some i \<longrightarrow> ipv4_info i) (process_packet ext reg r)"
proof -
  let ?new = "new_packet (pr_data r)"
  obtain c' out where run: "try_parse_with_link_type ext reg (pr_link_type r) default_options ?new =
      (?new\<lparr>pkt_layers := ctx_layers c'\<rparr>, out)"
    and ok: "parse_ok (new_context (pkt_bytes ?new) default_options (pkt_layers ?new)) 0 (c', out)"
    by (rule link_type_root_ok [OF assms])
  define pkt where "pkt = ?new\<lparr>pkt_layers := ctx_layers c'\<rparr>"
  note run = run [folded pkt_def]
  have shape: "shape pkt" and out: "out = Done \<or> (\<exists>e. out = Failed e)"
    using ok by (auto simp: pkt_def shape_def new_packet_def elim!: parse_ok_new)
  show ?thesis
  proof (cases "out = Done")
    case True
    have "process_packet ext reg r = t_bind (nth_layer_viewer pkt Ipv4 0) (\<lambda>v. case v of
           None \<Rightarrow> TOk None
         | Some ipv4 \<Rightarrow>
             t_bind (fetch (ipv4_protocol ipv4)) (\<lambda>protocol.
             t_bind (split_ports pkt) (\<lambda>(src_port, dst_port).
             t_bind (fetch (ipv4_src ipv4)) (\<lambda>src.
             t_bind (fetch (ipv4_dst ipv4)) (\<lambda>dst.
             TOk (Some \<lparr>fi_src_ip = V4 src, fi_dst_ip = V4 dst, fi_protocol = protocol,
                       fi_src_port = src_port, fi_dst_port = dst_port\<rparr>))))))" (is "_ = t_bind _ ?k")
      using run True by (simp add: process_packet_def layer_viewer_def)
    moreover have "returns (\<lambda>res. \<forall>i. res = Some i \<longrightarrow> ipv4_info i) (?k (Some b))" if len: "20 \<le> length b" for b
    proof -
      obtain p s d where "ipv4_protocol b = Some p" "ipv4_src b = Some s" "ipv4_dst b = Some d"
        using network_fields_some(3) [OF len] header_fields_some(3,4) [OF len] by auto
      moreover obtain ports where "split_ports pkt = TOk ports"
        using split_ports_returns [OF shape] by (auto simp: returns_def)
      ultimately show ?thesis by (cases ports) (simp add: ipv4_info_def)
    qed
    ultimately show ?thesis using viewer_cases [OF shape, of Ipv4 0 _ ?k] by simp
  qed (use out run in \<open>auto simp: process_packet_def\<close>)
qed

definition flow_key ::
    "(parsers \<Rightarrow> nat \<Rightarrow> parse_fn) \<Rightarrow> registry \<Rightarrow> split_granularity \<Rightarrow> packet_record \<Rightarrow> split_flow_id option" where
  "flow_key ext reg g r =
    (case process_packet ext reg r of TOk (Some i) \<Rightarrow> Some (split_from_info g i) | _ \<Rightarrow> None)"

lemma process_packet_cases:
  assumes "extension ext"
  obtains "process_packet ext reg r = TOk None" "flow_key ext reg g r = None"
  | i where "process_packet ext reg r = TOk (Some i)" "flow_key ext reg g r = Some (split_from_info g i)" "ipv4_info i"
proof -
  obtain x where "process_packet ext reg r = TOk x" "\<forall>i. x = Some i \<longrightarrow> ipv4_info i"
    using process_packet_returns [OF assms, of reg r] by (auto simp: returns_def)
  then show ?thesis using that by (cases x) (auto simp: flow_key_def)
qed

section \<open>Tables\<close>

text \<open>
  A table tallies a sequence of packets: it has one entry for every key that occurs, and the entry is
  what \<open>h\<close> makes of the packets with that key, in order.
\<close>

definition of_key :: "('r \<Rightarrow> 'k option) \<Rightarrow> 'r list \<Rightarrow> 'k \<Rightarrow> 'r list" where
  "of_key key rs k = filter (\<lambda>r. key r = Some k) rs"

definition keys_of :: "('r \<Rightarrow> 'k option) \<Rightarrow> 'r list \<Rightarrow> 'k set" where
  "keys_of key rs = {k. Some k \<in> key ` set rs}"

definition tally :: "('r \<Rightarrow> 'k option) \<Rightarrow> ('r list \<Rightarrow> 'v) \<Rightarrow> 'r list \<Rightarrow> ('k \<times> 'v) list \<Rightarrow> bool" where
  "tally key h rs m =
    (distinct (map fst m) \<and> fst ` set m = keys_of key rs \<and> (\<forall>(k, v) \<in> set m. v = h (of_key key rs k)))"

lemma of_key_simps [simp]:
  "of_key key [] k = []"
  "of_key key (rs @ [r]) k = of_key key rs k @ (if key r = Some k then [r] else [])"
  by (simp_all add: of_key_def)

lemma keys_of_simps [simp]:
  "keys_of key [] = {}"
  "keys_of key (rs @ [r]) = (case key r of None \<Rightarrow> keys_of key rs | Some k \<Rightarrow> insert k (keys_of key rs))"
  by (auto simp: keys_of_def split: option.splits)

lemma of_key_Nil_iff: "of_key key rs k = [] \<longleftrightarrow> k \<notin> keys_of key rs"
  by (force simp: of_key_def keys_of_def filter_empty_conv)

lemma finite_keys_of [simp]: "finite (keys_of key rs)"
  by (induction rs rule: rev_induct) (auto split: option.splits)

lemma entry_or_keys: "fst ` set (entry_or d f k m) = insert k (fst ` set m)"
  by (induction d f k m rule: entry_or.induct) (simp_all add: insert_commute)

lemma entry_or_distinct: "distinct (map fst m) \<Longrightarrow> distinct (map fst (entry_or d f k m))"
proof (induction m)
  case (Cons x m)
  then show ?case
    using entry_or_keys [of d f k m] by (cases x) (auto simp: image_iff)
qed simp

lemma entry_or_mem:
  assumes "(k', v) \<in> set (entry_or d f k m)" and "distinct (map fst m)"
  shows "k' \<noteq> k \<and> (k', v) \<in> set m \<or> k' = k \<and> v = f (case map_of m k of Some v \<Rightarrow> v | None \<Rightarrow> d)"
  using assms by (induction m) (auto split: if_splits simp: rev_image_eqI)

lemma tally_lookup: "tally key h rs m \<Longrightarrow> map_of m k = (if k \<in> keys_of key rs then Some (h (of_key key rs k)) else None)"
proof (cases "map_of m k")
  case None
  then show "tally key h rs m \<Longrightarrow> ?thesis" by (auto simp: tally_def map_of_eq_None_iff)
next
  case (Some v)
  then show "tally key h rs m \<Longrightarrow> ?thesis" by (force simp: tally_def dest: map_of_SomeD)
qed

lemma tally_mem:
  assumes "tally key h rs m" and "(k, v) \<in> set m"
  shows "v = h (of_key key rs k)" "k \<in> keys_of key rs"
proof -
  note t = assms(1) [unfolded tally_def]
  show "v = h (of_key key rs k)"
    using bspec [OF t [THEN conjunct2, THEN conjunct2] assms(2)] by (simp only: prod.case)
  show "k \<in> keys_of key rs"
    unfolding t [THEN conjunct2, THEN conjunct1, symmetric] by (rule image_eqI [OF _ assms(2)]) simp
qed

lemma tally_empty [simp]: "tally key h [] []"
  by (simp add: tally_def)

lemma tally_skip: "tally key h rs m \<Longrightarrow> key r = None \<Longrightarrow> tally key h (rs @ [r]) m"
  by (simp add: tally_def)

lemma tally_entry:
  assumes "tally key h rs m" and "key r = Some k"
    and "f (if k \<in> keys_of key rs then h (of_key key rs k) else d) = h (of_key key rs k @ [r])"
  shows "tally key h (rs @ [r]) (entry_or d f k m)"
  unfolding tally_def
proof (intro conjI ballI)
  note t = assms(1) [unfolded tally_def]
  show "distinct (map fst (entry_or d f k m))" 
    by (rule entry_or_distinct [OF t [THEN conjunct1]])
  show "fst ` set (entry_or d f k m) = keys_of key (rs @ [r])" 
    using t [THEN conjunct2, THEN conjunct1] assms(2) by (simp add: entry_or_keys)
  fix x assume "x \<in> set (entry_or d f k m)"
  then obtain k' v where x: "x = (k', v)" "(k', v) \<in> set (entry_or d f k m)" by (metis surj_pair)
  have "distinct (map fst m)" using t by (rule conjunct1)
  from entry_or_mem [OF x(2) this] show "case x of (k', v) \<Rightarrow> v = h (of_key key (rs @ [r]) k')"
  proof
    assume "k' \<noteq> k \<and> (k', v) \<in> set m"
    then show ?thesis using t assms(2) x(1) by auto
  next
    assume "k' = k \<and> v = f (case map_of m k of Some v \<Rightarrow> v | None \<Rightarrow> d)"
    then show ?thesis using tally_lookup [OF assms(1), of k] assms(2,3) x(1) by (auto split: if_splits)
  qed
qed

text \<open>The order in which a table is iterated.\<close>

definition reorders :: "('k list \<Rightarrow> 'k list) \<Rightarrow> bool" where
  "reorders ord = (\<forall>ks. mset (ord ks) = mset ks)"

lemma tally_into_iter:
  assumes "tally key h rs m" and "reorders ord"
  shows "tally key h rs (into_iter ord m)"
proof -
  have perm: "mset (ord (map fst m)) = mset (map fst m)" using assms(2) by (simp add: reorders_def)
  have d: "distinct (map fst m)" and k: "fst ` set m = keys_of key rs" using assms(1) by (simp_all add: tally_def)
  have "map fst (into_iter ord m) = ord (map fst m)" by (simp add: into_iter_def comp_def)
  moreover have "distinct (ord (map fst m))" using perm d by (metis mset_eq_imp_distinct_iff)
  moreover have set: "set (ord (map fst m)) = keys_of key rs" using perm k by (metis list.set_map mset_eq_setD)
  ultimately show ?thesis
    using tally_lookup [OF assms(1)] set unfolding tally_def by (auto simp: into_iter_def image_image)
qed

section \<open>Selection\<close>

definition selection :: "('r \<Rightarrow> 'k option) \<Rightarrow> 'r list \<Rightarrow> nat \<Rightarrow> 'k list \<Rightarrow> bool" where
  "selection key rs n ks =
    (distinct ks \<and> set ks \<subseteq> keys_of key rs \<and>
     length ks = (if n = 0 then card (keys_of key rs) else min n (card (keys_of key rs))) \<and>
     (\<forall>k \<in> set ks. \<forall>k' \<in> keys_of key rs - set ks. length (of_key key rs k') \<le> length (of_key key rs k)))"

lemma take_dominates:
  assumes "sorted (map f xs)" and "x \<in> set (take n xs)" and "y \<in> set (drop n xs)"
  shows "f x \<le> f y"
proof -
  have "sorted (map f (take n xs) @ map f (drop n xs))" using assms(1) by (simp flip: map_append)
  then show ?thesis using assms(2,3) by (simp only: sorted_append) auto
qed

lemma select_flows_selection:
  assumes "tally key h rs m" and "\<And>ps. f (h ps) = length ps"
  shows "selection key rs n (map fst (select_flows n f m))" "set (select_flows n f m) \<subseteq> set m"
proof -
  note t = assms(1) [unfolded tally_def]
  let ?s = "sort_descending (\<lambda>x. f (snd x)) m"
  have perm: "mset ?s = mset m" by (simp add: sort_descending_def)
  then have set: "set ?s = set m" and len: "length ?s = length m" by (metis mset_eq_setD, metis size_mset)
  have "mset (map fst ?s) = mset (map fst m)" using perm by (metis mset_map)
  then have dist: "distinct (map fst ?s)" using t by (metis mset_eq_imp_distinct_iff)
  have card: "length m = card (keys_of key rs)" using t by (metis distinct_card length_map list.set_map)
  define n' where "n' = (if n = 0 then length m else n)"
  have sel: "select_flows n f m = take n' ?s" using len by (simp add: select_flows_def n'_def)
  show "set (select_flows n f m) \<subseteq> set m" using set set_take_subset [of n' ?s] sel by simp
  have weight: "f v = length (of_key key rs k)" if "(k, v) \<in> set ?s" for k v
    using that set t assms(2) by fastforce
  have "length (of_key key rs k') \<le> length (of_key key rs k)"
    if k: "k \<in> fst ` set (take n' ?s)" and k': "k' \<in> keys_of key rs" "k' \<notin> fst ` set (take n' ?s)" for k k'
  proof -
    obtain v where v: "(k, v) \<in> set (take n' ?s)" using k by auto
    have "k' \<in> fst ` set ?s" using k'(1) t set by simp
    then obtain v' where v': "(k', v') \<in> set ?s" by auto
    then have "(k', v') \<in> set (drop n' ?s)"
      using k'(2) by (metis Un_iff append_take_drop_id fst_conv image_eqI set_append)
    then have "- int (f (snd (k, v))) \<le> - int (f (snd (k', v')))"
      using v by (intro take_dominates [where f = "\<lambda>x. - int (f (snd x))" and xs = ?s])
        (simp_all add: sort_descending_def)
    then show ?thesis using weight [OF v'] weight [of k v] in_set_takeD [OF v] by simp
  qed
  moreover have "fst ` set (take n' ?s) \<subseteq> keys_of key rs"
    using set_take_subset [of n' ?s] set t by auto
  moreover have "distinct (map fst (take n' ?s))" using dist by (metis distinct_take take_map)
  moreover have "length (take n' ?s) = (if n = 0 then card (keys_of key rs) else min n (card (keys_of key rs)))"
    using len card by (simp add: n'_def min_def)
  ultimately show "selection key rs n (map fst (select_flows n f m))"
    unfolding selection_def sel by auto
qed

lemma selection_unique:
  assumes "selection key rs n ks" and "selection key rs n ks'"
    and "n = 0 \<or> inj_on (\<lambda>k. length (of_key key rs k)) (keys_of key rs)"
  shows "set ks = set ks'"
proof (rule ccontr)
  assume ne: "set ks \<noteq> set ks'"
  have card: "card (set ks) = card (set ks')" and sub: "set ks \<subseteq> keys_of key rs" "set ks' \<subseteq> keys_of key rs"
    using assms(1,2) by (simp_all add: selection_def distinct_card)
  have n: "n \<noteq> 0"
  proof
    assume "n = 0"
    then have "set ks = keys_of key rs" "set ks' = keys_of key rs"
      using assms(1,2) sub by (simp_all add: selection_def distinct_card card_subset_eq)
    then show False using ne by simp
  qed
  have "\<not> set ks \<subseteq> set ks'" "\<not> set ks' \<subseteq> set ks"
    using card ne card_subset_eq [of "set ks'" "set ks"] card_subset_eq [of "set ks" "set ks'"] by auto
  then obtain k k' where k: "k \<in> set ks" "k \<notin> set ks'" "k' \<in> set ks'" "k' \<notin> set ks" by blast
  then have in_keys: "k \<in> keys_of key rs - set ks'" "k' \<in> keys_of key rs - set ks" using sub by auto
  have "length (of_key key rs k') \<le> length (of_key key rs k)"
    using assms(1) in_keys(2) k(1) unfolding selection_def by blast
  moreover have "length (of_key key rs k) \<le> length (of_key key rs k')"
    using assms(2) in_keys(1) k(3) unfolding selection_def by blast
  ultimately have "length (of_key key rs k) = length (of_key key rs k')" by simp
  moreover have "inj_on (\<lambda>k. length (of_key key rs k)) (keys_of key rs)" using assms(3) n by simp
  ultimately have "k = k'" using in_keys by (auto dest: inj_onD)
  then show False using k by simp
qed

section \<open>The loops\<close>

definition skipped :: "('r \<Rightarrow> 'k option) \<Rightarrow> 'r list \<Rightarrow> nat" where
  "skipped key rs = length (filter (\<lambda>r. key r = None) rs)"

lemma skipped_simps [simp]:
  "skipped key [] = 0" "skipped key (r # rs) = (if key r = None then 1 else 0) + skipped key rs"
  by (simp_all add: skipped_def)

lemma collect_flows_tally:
  assumes "extension ext" and "tally (flow_key ext reg g) (\<lambda>ps. ps) prev m"
  shows "\<exists>m'. collect_flows ext reg g rs (m, t) =
      TOk (m', \<lparr>st_packets = st_packets t + length rs, st_skipped = st_skipped t + skipped (flow_key ext reg g) rs\<rparr>) \<and>
    tally (flow_key ext reg g) (\<lambda>ps. ps) (prev @ rs) m'"
  using assms(2)
proof (induction rs arbitrary: prev m t)
  case (Cons r rs)
  show ?case
  proof (cases rule: process_packet_cases [OF assms(1), of reg r g])
    case 1
    then show ?thesis
      using Cons.IH [OF tally_skip [OF Cons.prems 1(2)],
          of "t\<lparr>st_packets := st_packets t + 1, st_skipped := st_skipped t + 1\<rparr>"] by simp
  next
    case (2 i)
    have "tally (flow_key ext reg g) (\<lambda>ps. ps) (prev @ [r]) (entry_or [] (\<lambda>ps. ps @ [r]) (split_from_info g i) m)"
      by (rule tally_entry [OF Cons.prems 2(2)]) (use of_key_Nil_iff in force)
    from Cons.IH [OF this, of "t\<lparr>st_packets := st_packets t + 1\<rparr>"] show ?thesis using 2 by simp
  qed
qed simp

lemma count_flows_tally:
  assumes "extension ext" and "tally (flow_key ext reg g) length prev m"
  shows "\<exists>m'. count_flows ext reg g rs (m, t) =
      TOk (m', \<lparr>st_packets = st_packets t + length rs, st_skipped = st_skipped t + skipped (flow_key ext reg g) rs\<rparr>) \<and>
    tally (flow_key ext reg g) length (prev @ rs) m'"
  using assms(2)
proof (induction rs arbitrary: prev m t)
  case (Cons r rs)
  show ?case
  proof (cases rule: process_packet_cases [OF assms(1), of reg r g])
    case 1
    then show ?thesis
      using Cons.IH [OF tally_skip [OF Cons.prems 1(2)],
          of "t\<lparr>st_packets := st_packets t + 1, st_skipped := st_skipped t + 1\<rparr>"] by simp
  next
    case (2 i)
    have "tally (flow_key ext reg g) length (prev @ [r]) (entry_or 0 (\<lambda>n. n + 1) (split_from_info g i) m)"
      by (rule tally_entry [OF Cons.prems 2(2)])
        (use of_key_Nil_iff [of "flow_key ext reg g" prev "split_from_info g i"] in auto)
    from Cons.IH [OF this, of "t\<lparr>st_packets := st_packets t + 1\<rparr>"] show ?thesis using 2 by simp
  qed
qed simp

section \<open>The files\<close>

definition written_record :: "output_pcap_config \<Rightarrow> packet_record \<Rightarrow> pcap_packet_header \<times> bytes" where
  "written_record config p = (pcap_header_of (oc_nanosecond config) p, pr_data p)"

definition flow_body :: "output_pcap_config \<Rightarrow> packet_record list \<Rightarrow> bytes" where
  "flow_body config ps =
    concat (map (\<lambda>p. pcap_encode Little (pcap_clip (oc_snap_len config) (written_record config p))) ps)"

definition flow_writer :: "output_pcap_config \<Rightarrow> packet_record list \<Rightarrow> pcap_writer" where
  "flow_writer config ps =
    (let w = split_writer (pr_link_type (hd ps)) config in w\<lparr>pw_out := pw_out w @ flow_body config ps\<rparr>)"

text \<open>The file of a flow reads back: its packets in order, cut to the snapshot length.\<close>

definition holds_packets :: "output_pcap_config \<Rightarrow> packet_record list \<Rightarrow> bytes \<Rightarrow> bool" where
  "holds_packets config ps file =
    (\<exists>r xs. pcap_slice_reader_new file = COk r \<and> pcap_slice_read_all r = (xs, COk ()) \<and>
       link_type_into (pcap_link_type (ps_header r)) = link_type_into (pr_link_type (hd ps)) \<and>
       map (\<lambda>x. (rec_header x, rec_data x)) xs = map (\<lambda>p. pcap_clip (oc_snap_len config) (written_record config p)) ps)"

lemma split_writer_simps [simp]:
  "pw_big_endian (split_writer lt config) = False" "pw_nanosecond (split_writer lt config) = oc_nanosecond config"
  "ph_snap_len (pw_header (split_writer lt config)) = oc_snap_len config"
  by (simp_all add: split_writer_def)

lemma write_packet_eq:
  "pw_big_endian w = False \<Longrightarrow> pw_nanosecond w = oc_nanosecond config \<Longrightarrow> ph_snap_len (pw_header w) = oc_snap_len config \<Longrightarrow>
    pcap_write_packet w p = COk (w\<lparr>pw_out := pw_out w @ flow_body config [p]\<rparr>)"
  by (simp add: pcap_write_packet_def pcap_write_raw_eq flow_body_def written_record_def)

lemma flow_body_append: "flow_body config (ps @ qs) = flow_body config ps @ flow_body config qs"
  by (simp add: flow_body_def)

lemma write_packets_eq:
  assumes "pw_big_endian w = False" and "pw_nanosecond w = oc_nanosecond config"
    and "ph_snap_len (pw_header w) = oc_snap_len config"
  shows "write_packets w ps = TOk (w\<lparr>pw_out := pw_out w @ flow_body config ps\<rparr>)"
  using assms
proof (induction ps arbitrary: w)
  case (Cons p ps)
  then show ?case
    using flow_body_append [of config "[p]" ps] by (simp add: write_packet_eq [OF Cons.prems] of_capture_def)
qed (simp add: flow_body_def)

lemma flow_writer_holds: "holds_packets config ps (pw_out (flow_writer config ps))"
proof -
  let ?w = "split_writer (pr_link_type (hd ps)) config"
  let ?r = "\<lparr>ps_header = pw_header ?w, ps_data = pw_out (flow_writer config ps), ps_pos = 24\<rparr>"
  have magic: "magic_endian (ph_magic_number (pw_header ?w)) = Some Little"
    using magic_endian_writer [where be = False] by (simp add: split_writer_def)
  have out: "pw_out (flow_writer config ps) = pcap_header_bytes Little (pw_header ?w) @ flow_body config ps"
    by (simp add: flow_writer_def split_writer_def Let_def)
  have "pcap_slice_reader_new (pw_out (flow_writer config ps)) = COk ?r"
    using pcap_header_parse_bytes [OF magic] out by (simp add: pcap_slice_reader_new_def)
  moreover have "\<exists>xs. pcap_slice_read_all ?r = (xs, COk ()) \<and>
      map (\<lambda>x. (rec_header x, rec_data x)) xs = map (pcap_clip (oc_snap_len config)) (map (written_record config) ps)"
    by (rule pcap_read_all_encoded [where e = Little])
      (use pcap_endian_magic [OF magic] out in \<open>simp_all add: flow_body_def comp_def\<close>)
  moreover have "ucast (ucast v AND (0xFFFF :: 32 word)) = (v :: 16 word)" for v
  proof -
    have "bit (0xFFFF :: 32 word) n" if "n < 16" for n
      using that bit_mask_iff [of 16 n, where ?'a = "32 word"] by (simp add: mask_eq_exp_minus_1)
    then show ?thesis by (intro bit_word_eqI) (simp add: bit_and_iff bit_ucast_iff)
  qed
  then have "link_type_into (pcap_link_type (pw_header ?w)) = link_type_into (pr_link_type (hd ps))"
    by (simp add: split_writer_def pcap_writer_new_def pcap_link_type_def Let_def)
  ultimately show ?thesis unfolding holds_packets_def by (auto simp: comp_def)
qed

lemma write_flows_files:
  assumes "\<forall>(k, ps) \<in> set flows. ps \<noteq> []" and "inj_on (to_filename v6) (fst ` set flows)"
    and "distinct (map fst flows)"
  shows "\<exists>dir'. write_flows v6 config flows (dir, written) =
      TOk (dir', written + (\<Sum>x\<leftarrow>flows. length (snd x))) \<and>
    (\<forall>(k, ps) \<in> set flows. dir' (to_filename v6 k) = Some (pw_out (flow_writer config ps))) \<and>
    (\<forall>name. name \<notin> to_filename v6 ` fst ` set flows \<longrightarrow> dir' name = dir name)"
  using assms
proof (induction flows arbitrary: dir written)
  case (Cons x flows)
  obtain k p ps where x: "x = (k, p # ps)" using Cons.prems(1) by (cases x; cases "snd x") auto
  let ?w = "split_writer (pr_link_type p) config"
  have w: "write_packets ?w (p # ps) = TOk (flow_writer config (p # ps))"
    by (subst write_packets_eq) (simp_all add: flow_writer_def Let_def)
  have apart: "to_filename v6 k \<notin> to_filename v6 ` fst ` set flows"
    using Cons.prems(2,3) x by (auto simp: inj_on_def)
  have rest: "\<forall>(k, ps) \<in> set flows. ps \<noteq> []" "inj_on (to_filename v6) (fst ` set flows)" "distinct (map fst flows)"
    using Cons.prems by auto
  obtain dir' where dir': "write_flows v6 config flows
        (dir(to_filename v6 k \<mapsto> pw_out (flow_writer config (p # ps))), written + length (p # ps)) =
      TOk (dir', written + length (p # ps) + (\<Sum>x\<leftarrow>flows. length (snd x)))"
    "\<forall>(k, ps) \<in> set flows. dir' (to_filename v6 k) = Some (pw_out (flow_writer config ps))"
    "\<forall>name. name \<notin> to_filename v6 ` fst ` set flows \<longrightarrow>
      dir' name = (dir(to_filename v6 k \<mapsto> pw_out (flow_writer config (p # ps)))) name"
    using Cons.IH [OF rest, of "dir(to_filename v6 k \<mapsto> pw_out (flow_writer config (p # ps)))" "written + length (p # ps)"]
    by (elim exE conjE) (rule that)
  moreover have "dir' (to_filename v6 k) = Some (pw_out (flow_writer config (p # ps)))"
    using dir'(3) apart by simp
  ultimately show ?case using w x apart by (intro exI [of _ dir']) auto
qed simp

definition selected_key :: "('r \<Rightarrow> 'k option) \<Rightarrow> 'k set \<Rightarrow> 'r \<Rightarrow> 'k option" where
  "selected_key key sel r = (case key r of Some k \<Rightarrow> if k \<in> sel then Some k else None | None \<Rightarrow> None)"

lemma selected_key_Some: "selected_key key sel r = Some k \<longleftrightarrow> key r = Some k \<and> k \<in> sel"
  by (auto simp: selected_key_def split: option.splits if_splits)

lemma keys_of_iff: "k \<in> keys_of key rs \<longleftrightarrow> (\<exists>r \<in> set rs. key r = Some k)"
  by (force simp: keys_of_def)

lemma of_selected_key: "k \<in> sel \<Longrightarrow> of_key (selected_key key sel) rs k = of_key key rs k"
  by (simp add: of_key_def selected_key_Some)

lemma keys_of_selected: "sel \<subseteq> keys_of key rs \<Longrightarrow> keys_of (selected_key key sel) rs = sel"
  by (auto simp: keys_of_iff selected_key_Some)

lemma extract_flows_tally:
  assumes "extension ext"
    and "tally (selected_key (flow_key ext reg g) sel) (flow_writer config) prev (ex_writers s)"
    and "tally (selected_key (flow_key ext reg g) sel) length prev (ex_counts s)"
  shows "\<exists>x. extract_flows ext reg g config sel rs s = TOk x \<and>
    tally (selected_key (flow_key ext reg g) sel) (flow_writer config) (prev @ rs) (ex_writers x) \<and>
    tally (selected_key (flow_key ext reg g) sel) length (prev @ rs) (ex_counts x) \<and>
    ex_written x = ex_written s + length (filter (\<lambda>r. selected_key (flow_key ext reg g) sel r \<noteq> None) rs)"
  using assms(2,3)
proof (induction rs arbitrary: prev s)
  case (Cons r rs)
  let ?key = "selected_key (flow_key ext reg g) sel"
  show ?case
  proof (cases "?key r")
    case None
    have "extract_flows ext reg g config sel (r # rs) s = extract_flows ext reg g config sel rs s"
      by (cases rule: process_packet_cases [OF assms(1), of reg r g])
        (use None in \<open>auto simp: selected_key_def split: if_splits\<close>)
    then show ?thesis
      using Cons.IH [OF tally_skip [OF Cons.prems(1) None] tally_skip [OF Cons.prems(2) None]] None by simp
  next
    case (Some k)
    then obtain i where i: "process_packet ext reg r = TOk (Some i)" "split_from_info g i = k" "k \<in> sel"
      by (cases rule: process_packet_cases [OF assms(1), of reg r g])
        (auto simp: selected_key_def split: if_splits)
    define w where "w = (case map_of (ex_writers s) k of Some w \<Rightarrow> w | None \<Rightarrow> split_writer (pr_link_type r) config)"
    have w: "w = (if of_key ?key prev k = [] then split_writer (pr_link_type r) config
        else flow_writer config (of_key ?key prev k))"
      using tally_lookup [OF Cons.prems(1), of k] of_key_Nil_iff [of ?key prev k] by (simp add: w_def)
    have written: "pcap_write_packet w r = COk (flow_writer config (of_key ?key prev k @ [r]))"
      by (cases "of_key ?key prev k")
        (subst write_packet_eq, use flow_body_append [of config "of_key ?key prev k" "[r]"] in
          \<open>simp_all add: w flow_writer_def Let_def\<close>)+
    let ?s = "\<lparr>ex_writers = entry_or (flow_writer config (of_key ?key prev k @ [r]))
          (\<lambda>_. flow_writer config (of_key ?key prev k @ [r])) k (ex_writers s),
        ex_counts = entry_or 0 (\<lambda>n. n + 1) k (ex_counts s), ex_written = ex_written s + 1\<rparr>"
    have "extract_flows ext reg g config sel (r # rs) s = extract_flows ext reg g config sel rs ?s"
      using i written by (simp add: w_def [symmetric] of_capture_def)
    moreover have "tally ?key (flow_writer config) (prev @ [r]) (ex_writers ?s)"
      using tally_entry [OF Cons.prems(1) Some] by simp
    moreover have "tally ?key length (prev @ [r]) (ex_counts ?s)"
      using tally_entry [OF Cons.prems(2) Some, of "\<lambda>n. n + 1" 0] of_key_Nil_iff [of ?key prev k] by auto
    ultimately show ?thesis using Cons.IH [of "prev @ [r]" ?s] Some by simp
  qed
qed simp

lemma flush_writers_files:
  assumes "distinct (map fst ws)" and "inj_on (to_filename v6) (fst ` set ws)"
  shows "(k, w) \<in> set ws \<Longrightarrow> flush_writers v6 clash ws dir (to_filename v6 k) = Some (pw_out w)"
    "name \<notin> to_filename v6 ` fst ` set ws \<Longrightarrow> flush_writers v6 clash ws dir name = dir name"
proof -
  assume "name \<notin> to_filename v6 ` fst ` set ws"
  then have "filter (\<lambda>x. to_filename v6 (fst x) = name) ws = []" by (auto simp: filter_empty_conv)
  then show "flush_writers v6 clash ws dir name = dir name" by (simp add: flush_writers_def)
next
  assume kw: "(k, w) \<in> set ws"
  have "filter (\<lambda>x. to_filename v6 (fst x) = to_filename v6 k) ws = [(k, w)]"
    using kw assms
  proof (induction ws)
    case (Cons y ys)
    show ?case
    proof (cases "y = (k, w)")
      case True
      then have "\<forall>x \<in> set ys. to_filename v6 (fst x) \<noteq> to_filename v6 k"
        using Cons.prems(2,3) by (fastforce simp: inj_on_def)
      then show ?thesis using True by (simp add: filter_empty_conv)
    next
      case False
      then have "(k, w) \<in> set ys" using Cons.prems(1) by simp
      moreover have "to_filename v6 (fst y) \<noteq> to_filename v6 k"
        using Cons.prems(2,3) calculation by (fastforce simp: inj_on_def)
      ultimately show ?thesis using Cons.IH Cons.prems(2,3) by (simp add: inj_on_def)
    qed
  qed simp
  then show "flush_writers v6 clash ws dir (to_filename v6 k) = Some (pw_out w)" by (simp add: flush_writers_def)
qed

section \<open>Names of flows\<close>

definition names_protocol :: "split_granularity \<Rightarrow> bool" where
  "names_protocol g = (g \<in> {GrTuple3, GrTuple3Sym, GrTuple5, GrTuple5Sym})"

definition named :: "split_granularity \<Rightarrow> flow_info \<Rightarrow> bool" where
  "named g i = (names_protocol g \<longrightarrow> unat (fi_protocol i) < 146)"

lemma filename_inj:
  "flow_id_filename v6 (FlowIp (V4 a)) = flow_id_filename v6 (FlowIp (V4 a')) \<longleftrightarrow> a = a'"
  "flow_id_filename v6 (Tuple2 (V4 a) (V4 b)) = flow_id_filename v6 (Tuple2 (V4 a') (V4 b')) \<longleftrightarrow> a = a' \<and> b = b'"
  "unat k < 146 \<Longrightarrow> unat k' < 146 \<Longrightarrow>
    flow_id_filename v6 (Tuple3 (V4 a) (V4 b) k) = flow_id_filename v6 (Tuple3 (V4 a') (V4 b') k') \<longleftrightarrow>
      a = a' \<and> b = b' \<and> k = k'"
  "flow_id_filename v6 (Tuple4 (V4 a) (V4 b) p q) = flow_id_filename v6 (Tuple4 (V4 a') (V4 b') p' q') \<longleftrightarrow>
    a = a' \<and> b = b' \<and> p = p' \<and> q = q'"
  "unat k < 146 \<Longrightarrow> unat k' < 146 \<Longrightarrow>
    flow_id_filename v6 (Tuple5 (V4 a) (V4 b) p q k) = flow_id_filename v6 (Tuple5 (V4 a') (V4 b') p' q' k') \<longleftrightarrow>
      a = a' \<and> b = b' \<and> p = p' \<and> q = q' \<and> k = k'"
  by (auto simp: append_sep_eq no_seps show_ipv4_seps unat_eq show_protocol_inj)

lemma split_names_inj:
  assumes "ipv4_info i" and "ipv4_info j" and "named g i" and "named g j"
    and "to_filename v6 (split_from_info g i) = to_filename v6 (split_from_info g j)"
  shows "split_from_info g i = split_from_info g j"
proof -
  obtain a b a' b' where ips: "fi_src_ip i = V4 a" "fi_dst_ip i = V4 b" "fi_src_ip j = V4 a'" "fi_dst_ip j = V4 b'"
    using assms(1,2) by (auto simp: ipv4_info_def)
  note defs = flow_of_ip_def flow_of_tuple2_def flow_of_tuple3_def flow_of_tuple4_def flow_of_tuple5_def
  show ?thesis
    using assms(3-5) ips
    by (cases g) (auto simp: defs named_def names_protocol_def filename_inj simp del: flow_id_filename.simps split: if_splits)
qed

text \<open>Two flows of protocols without a name of their own are written to one file.\<close>

lemma reserved_protocols_collide:
  "to_filename v6 (split_from_info GrTuple5Sym \<lparr>fi_src_ip = a, fi_dst_ip = b, fi_protocol = 253, fi_src_port = p, fi_dst_port = q\<rparr>) =
    to_filename v6 (split_from_info GrTuple5Sym \<lparr>fi_src_ip = a, fi_dst_ip = b, fi_protocol = 254, fi_src_port = p, fi_dst_port = q\<rparr>)"
  by (simp add: flow_of_tuple5_def show_protocol_def protocol_names_length)

section \<open>Splitting\<close>

text \<open>What splitting a capture is to leave behind: a file for every selected flow, and its summary.\<close>

definition all_named ::
    "(parsers \<Rightarrow> nat \<Rightarrow> parse_fn) \<Rightarrow> registry \<Rightarrow> split_granularity \<Rightarrow> packet_record list \<Rightarrow> bool" where
  "all_named ext reg g rs = (\<forall>r \<in> set rs. \<forall>i. process_packet ext reg r = TOk (Some i) \<longrightarrow> named g i)"

definition split_into ::
    "(128 word \<Rightarrow> string) \<Rightarrow> output_pcap_config \<Rightarrow> (packet_record \<Rightarrow> split_flow_id option) \<Rightarrow> packet_record list \<Rightarrow>
     split_flow_id list \<Rightarrow> directory \<Rightarrow> directory \<Rightarrow> bool" where
  "split_into v6 config key rs ks dir dir' =
    ((\<forall>k \<in> set ks. dir' (to_filename v6 k) = Some (pw_out (flow_writer config (of_key key rs k)))) \<and>
     (\<forall>name. name \<notin> to_filename v6 ` set ks \<longrightarrow> dir' name = dir name))"

definition summarised ::
    "(packet_record \<Rightarrow> split_flow_id option) \<Rightarrow> packet_record list \<Rightarrow> split_flow_id list \<Rightarrow> split_summary \<Rightarrow> bool" where
  "summarised key rs ks sm =
    (sm_packets sm = length rs \<and> sm_skipped sm = skipped key rs \<and> sm_flows sm = length ks \<and>
     sm_written sm = (\<Sum>k\<leftarrow>ks. length (of_key key rs k)))"

lemma names_inj_on:
  assumes "extension ext" and "all_named ext reg g rs"
  shows "inj_on (to_filename v6) (keys_of (flow_key ext reg g) rs)"
proof (rule inj_onI)
  fix k k' assume k: "k \<in> keys_of (flow_key ext reg g) rs" "k' \<in> keys_of (flow_key ext reg g) rs"
    and eq: "to_filename v6 k = to_filename v6 k'"
  have info: "\<exists>i. split_from_info g i = k \<and> ipv4_info i \<and> named g i" if key: "k \<in> keys_of (flow_key ext reg g) rs" for k
  proof -
    obtain r where r: "r \<in> set rs" "flow_key ext reg g r = Some k" using key by (auto simp: keys_of_iff)
    then show ?thesis
      using assms(2) by (cases rule: process_packet_cases [OF assms(1), of reg r g]) (auto simp: all_named_def)
  qed
  show "k = k'" using info [OF k(1)] info [OF k(2)] eq split_names_inj by blast
qed

lemma sum_of_key: "distinct ks \<Longrightarrow> (\<Sum>k\<leftarrow>ks. length (if x = Some k then [r] else [])) =
    (case x of Some k \<Rightarrow> (if k \<in> set ks then 1 else 0) | None \<Rightarrow> (0 :: nat))"
  by (induction ks) (auto split: option.splits)

lemma selection_written:
  assumes "distinct ks"
  shows "length (filter (\<lambda>r. selected_key key (set ks) r \<noteq> None) rs) = (\<Sum>k\<leftarrow>ks. length (of_key key rs k))"
proof (induction rs rule: rev_induct)
  case (snoc r rs)
  have "(\<Sum>k\<leftarrow>ks. length (of_key key (rs @ [r]) k)) =
      (\<Sum>k\<leftarrow>ks. length (of_key key rs k)) + (\<Sum>k\<leftarrow>ks. length (if key r = Some k then [r] else []))"
    by (simp add: sum_list_addf)
  then show ?case
    using snoc sum_of_key [OF assms, of "key r" r] by (auto simp: selected_key_def split: option.splits)
qed (simp add: comp_def)

text \<open>Both modes write the files of a selection.\<close>

lemma single_pass_splits:
  assumes "extension ext" and "reorders ord" and "all_named ext reg (sa_granularity args) rs"
    and "read_records r0 = COk (rs, r1)"
  shows "\<exists>ks dir' sm. single_pass_split ext reg v6 ord args r0 dir = TOk (dir', sm) \<and>
    selection (flow_key ext reg (sa_granularity args)) rs (sa_number args) ks \<and>
    split_into v6 (output_pcap_config_of r1 args) (flow_key ext reg (sa_granularity args)) rs ks dir dir' \<and>
    summarised (flow_key ext reg (sa_granularity args)) rs ks sm"
proof -
  let ?key = "flow_key ext reg (sa_granularity args)" and ?config = "output_pcap_config_of r1 args"
  obtain m where m: "collect_flows ext reg (sa_granularity args) rs ([], \<lparr>st_packets = 0, st_skipped = 0\<rparr>) =
      TOk (m, \<lparr>st_packets = length rs, st_skipped = skipped ?key rs\<rparr>)" "tally ?key (\<lambda>ps. ps) rs m"
    using collect_flows_tally [OF assms(1), of reg "sa_granularity args" "[]" "[]" rs "\<lparr>st_packets = 0, st_skipped = 0\<rparr>"]
    by auto
  note t = tally_into_iter [OF m(2) assms(2)]
  let ?sel = "select_flows (sa_number args) length (into_iter ord m)"
  note sel = select_flows_selection [OF t, of length "sa_number args", simplified]
  let ?ks = "map fst ?sel"
  have keys: "set ?ks \<subseteq> keys_of ?key rs" "distinct ?ks" using sel(1) by (auto simp: selection_def)
  have entry: "ps = of_key ?key rs k \<and> ps \<noteq> []" if "(k, ps) \<in> set ?sel" for k ps
    using tally_mem [OF t subsetD [OF sel(2) that]] keys(1) of_key_Nil_iff [of ?key rs k] by simp
  have "inj_on (to_filename v6) (fst ` set ?sel)"
    using inj_on_subset [OF names_inj_on [OF assms(1,3)]] keys(1) by auto
  then obtain dir' where dir': "write_flows v6 ?config ?sel (dir, 0) = TOk (dir', 0 + (\<Sum>x\<leftarrow>?sel. length (snd x)))"
      "\<forall>(k, ps) \<in> set ?sel. dir' (to_filename v6 k) = Some (pw_out (flow_writer ?config ps))"
      "\<forall>name. name \<notin> to_filename v6 ` fst ` set ?sel \<longrightarrow> dir' name = dir name"
    using write_flows_files [of ?sel v6 ?config dir 0] entry keys(2) by auto
  have "split_into v6 ?config ?key rs ?ks dir dir'"
    using dir'(2,3) entry by (force simp: split_into_def)
  moreover have "(\<Sum>x\<leftarrow>?sel. length (snd x)) = (\<Sum>k\<leftarrow>?ks. length (of_key ?key rs k))"
    using entry by (auto simp: comp_def intro!: arg_cong [where f = sum_list] map_cong)
  ultimately show ?thesis
    using m(1) assms(4) dir'(1) sel(1)
    by (auto simp: single_pass_split_def of_capture_def Let_def summarised_def)
qed

lemma two_pass_splits:
  assumes "extension ext" and "reorders ord" and "all_named ext reg (sa_granularity args) rs"
    and "sniffed_reader_new src = COk r0" and "read_records r0 = COk (rs, r1)"
  shows "\<exists>ks dir' sm. two_pass_split ext reg v6 ord ord' clash args src dir = TOk (dir', sm) \<and>
    selection (flow_key ext reg (sa_granularity args)) rs (sa_number args) ks \<and>
    split_into v6 (output_pcap_config_of r1 args) (flow_key ext reg (sa_granularity args)) rs ks dir dir' \<and>
    summarised (flow_key ext reg (sa_granularity args)) rs ks sm"
proof -
  let ?key = "flow_key ext reg (sa_granularity args)" and ?config = "output_pcap_config_of r1 args"
  obtain m where m: "count_flows ext reg (sa_granularity args) rs ([], \<lparr>st_packets = 0, st_skipped = 0\<rparr>) =
      TOk (m, \<lparr>st_packets = length rs, st_skipped = skipped ?key rs\<rparr>)" "tally ?key length rs m"
    using count_flows_tally [OF assms(1), of reg "sa_granularity args" "[]" "[]" rs "\<lparr>st_packets = 0, st_skipped = 0\<rparr>"]
    by auto
  note t = tally_into_iter [OF m(2) assms(2)]
  let ?ks = "map fst (select_flows (sa_number args) (\<lambda>n. n) (into_iter ord m))"
  note sel = select_flows_selection [OF t, of "\<lambda>n. n" "sa_number args", simplified]
  have keys: "set ?ks \<subseteq> keys_of ?key rs" "distinct ?ks" using sel(1) by (auto simp: selection_def)
  have set: "fst ` set (select_flows (sa_number args) (\<lambda>n. n) (into_iter ord m)) = set ?ks" by simp
  let ?sel = "selected_key ?key (set ?ks)"
  obtain x where x: "extract_flows ext reg (sa_granularity args) ?config (set ?ks) rs
      \<lparr>ex_writers = [], ex_counts = [], ex_written = 0\<rparr> = TOk x"
    "tally ?sel (flow_writer ?config) rs (ex_writers x)"
    "ex_written x = length (filter (\<lambda>r. ?sel r \<noteq> None) rs)"
    using extract_flows_tally [OF assms(1), of reg "sa_granularity args" "set ?ks" ?config "[]"
        "\<lparr>ex_writers = [], ex_counts = [], ex_written = 0\<rparr>" rs] by auto
  have ws: "distinct (map fst (ex_writers x))" "fst ` set (ex_writers x) = set ?ks"
      "\<forall>(k, w) \<in> set (ex_writers x). w = flow_writer ?config (of_key ?sel rs k)"
    using x(2) keys_of_selected [OF keys(1)] by (simp_all add: tally_def)
  have inj: "inj_on (to_filename v6) (fst ` set (ex_writers x))"
    using inj_on_subset [OF names_inj_on [OF assms(1,3)] keys(1)] ws(2) by simp
  let ?dir' = "flush_writers v6 clash (ex_writers x) dir"
  have "?dir' (to_filename v6 k) = Some (pw_out (flow_writer ?config (of_key ?key rs k)))" if k: "k \<in> set ?ks" for k
  proof -
    obtain w where "(k, w) \<in> set (ex_writers x)" using k ws(2) by (metis fst_conv imageE surj_pair)
    then show ?thesis
      using flush_writers_files(1) [OF ws(1) inj] ws(3) of_selected_key [OF k, of ?key rs] by fastforce
  qed
  then have "split_into v6 ?config ?key rs ?ks dir ?dir'"
    using flush_writers_files(2) [OF ws(1) inj] ws(2) by (simp add: split_into_def)
  moreover have "card (set ?ks) = length ?ks" using keys(2) by (rule distinct_card)
  moreover have "two_pass_split ext reg v6 ord ord' clash args src dir = TOk (?dir',
      \<lparr>sm_packets = length rs, sm_written = ex_written x, sm_skipped = skipped ?key rs, sm_flows = card (set ?ks),
       sm_top = take 10 (sort_descending snd (into_iter ord' (ex_counts x)))\<rparr>)"
    unfolding two_pass_split_def assms(4,5) of_capture_def cresult.case t_bind_simps prod.case m(1) Let_def set x(1) by simp
  ultimately show ?thesis
    using x(3) sel(1) selection_written [OF keys(2), of ?key rs]
    by (intro exI [of _ ?ks] exI conjI) (assumption | simp add: summarised_def)+
qed

text \<open>C11: splitting writes every selected flow to a file of its own, in either mode.  On a capture that
  is read to its end, splitting does not fail; it selects the given number of largest flows (all of them
  for 0), whatever the order of the hash maps; the file of each selected flow reads back as exactly the
  packets of that flow in capture order, cut to the snapshot length; no other file is touched; and the
  summary counts the packets read, skipped and written.  The hypothesis that all protocols have names of
  their own matters only if the file names include the protocol.\<close>

theorem split_writes_flows:
  assumes "extension ext" and "reorders ord" and "sniffed_reader_new src = COk r0"
    and "read_records r0 = COk (rs, r1)" and "all_named ext reg (sa_granularity args) rs"
  shows "\<exists>ks dir' sm. splitcap ext reg v6 ord ord' clash args src dir = TOk (dir', sm) \<and>
    selection (flow_key ext reg (sa_granularity args)) rs (sa_number args) ks \<and>
    (\<forall>k \<in> set ks. \<exists>file. dir' (to_filename v6 k) = Some file \<and>
       holds_packets (output_pcap_config_of r1 args) (of_key (flow_key ext reg (sa_granularity args)) rs k) file) \<and>
    (\<forall>name. name \<notin> to_filename v6 ` set ks \<longrightarrow> dir' name = dir name) \<and>
    summarised (flow_key ext reg (sa_granularity args)) rs ks sm"
proof (cases "sa_two_pass args")
  case True
  obtain ks dir' sm where "two_pass_split ext reg v6 ord ord' clash args src dir = TOk (dir', sm)"
    "selection (flow_key ext reg (sa_granularity args)) rs (sa_number args) ks"
    "split_into v6 (output_pcap_config_of r1 args) (flow_key ext reg (sa_granularity args)) rs ks dir dir'"
    "summarised (flow_key ext reg (sa_granularity args)) rs ks sm"
    using two_pass_splits [OF assms(1,2,5,3,4)] by blast
  then show ?thesis
    using True assms(3) flow_writer_holds
    by (intro exI [of _ ks] exI [of _ dir'] exI [of _ sm]) (simp add: splitcap_def of_capture_def split_into_def)
next
  case False
  obtain ks dir' sm where "single_pass_split ext reg v6 ord args r0 dir = TOk (dir', sm)"
    "selection (flow_key ext reg (sa_granularity args)) rs (sa_number args) ks"
    "split_into v6 (output_pcap_config_of r1 args) (flow_key ext reg (sa_granularity args)) rs ks dir dir'"
    "summarised (flow_key ext reg (sa_granularity args)) rs ks sm"
    using single_pass_splits [OF assms(1,2,5,4)] by blast
  then show ?thesis
    using False assms(3) flow_writer_holds
    by (intro exI [of _ ks] exI [of _ dir'] exI [of _ sm]) (simp add: splitcap_def of_capture_def split_into_def)
qed

definition split_sample :: bytes where
  "split_sample =
    [0xd4, 0xc3, 0xb2, 0xa1, 2, 0, 4, 0, 0, 0, 0, 0, 0, 0, 0, 0, 0xff, 0xff, 0, 0, 228, 0, 0, 0,
     1, 0, 0, 0, 0, 0, 0, 0, 20, 0, 0, 0, 20, 0, 0, 0,
     0x45, 0, 0, 20, 0, 0, 0, 0, 64, 253, 0, 0, 10, 0, 0, 1, 10, 0, 0, 2]"

definition split_sample_args :: split_args where
  "split_sample_args =
    \<lparr>sa_granularity = GrTuple2Sym, sa_number = 0, sa_two_pass = False, sa_snap_len = None, sa_nanosecond = None\<rparr>"

definition split_sample_reader :: "bytes \<Rightarrow> sniffed_reader" where
  "split_sample_reader src = StreamPcap
    \<lparr>pr_header = \<lparr>ph_magic_number = 0xD4C3B2A1, ph_major_version = 2, ph_minor_version = 4,
       ph_reserved_1 = 0, ph_reserved_2 = 0, ph_snap_len = 65535, ph_additional_info_link_type = 228\<rparr>,
     pr_big_endian = False, pr_nanosecond = False, pr_source = src\<rparr>"

lemma split_sample_next:
  "\<exists>r. sniffed_next_packet (split_sample_reader (drop 24 split_sample)) = (split_sample_reader [], COk (Some r))"
  "sniffed_next_packet (split_sample_reader []) = (split_sample_reader [], COk None)"
  by (simp_all add: split_sample_reader_def split_sample_def pcap_reader_next_packet_def pcap_read_packet_raw_def
      slice_def read_exact_def pcap_packet_header_parse_def magic_endian_def pcap_endian_def pcap_is_big_endian_def
      magic_defs read_u32_def read_int_def be_nat_def)

lemma split_sample_reads:
  "\<exists>r0 r r1. sniffed_reader_new split_sample = COk r0 \<and> read_records r0 = COk ([r], r1)"
proof -
  have "sniffed_reader_new split_sample = COk (split_sample_reader (drop 24 split_sample))"
    by (simp add: sniffed_reader_new_def split_sample_def split_sample_reader_def read_exact_def slice_def
        from_magic_bytes_def be_nat_def magic_defs pcap_reader_new_def pcap_header_parse_def magic_endian_def
        read_u32_def read_u16_def read_int_def pcap_is_nanosecond_def pcap_is_big_endian_def)
  moreover obtain r where r: "sniffed_next_packet (split_sample_reader (drop 24 split_sample)) = (split_sample_reader [], COk (Some r))"
    using split_sample_next(1) by blast
  have "read_records (split_sample_reader []) = COk ([], split_sample_reader [])"
    by (subst read_records.simps) (simp only: split_sample_next(2) prod.case cresult.case option.case)
  then have "read_records (split_sample_reader (drop 24 split_sample)) = COk ([r], split_sample_reader [])"
    by (subst read_records.simps) (simp only: r prod.case cresult.case option.case c_bind_simps)
  ultimately show ?thesis by blast
qed

lemma split_sample_named: "all_named ext reg (sa_granularity split_sample_args) rs"
  by (simp add: all_named_def named_def names_protocol_def split_sample_args_def)

theorem split_writes_flows_witness:
  "\<exists>dir' sm. splitcap failing_child_parse new_registry (\<lambda>_. []) rev rev concat split_sample_args split_sample Map.empty =
    TOk (dir', sm) \<and> sm_packets sm = 1"
proof -
  obtain r0 r r1 where r: "sniffed_reader_new split_sample = COk r0" "read_records r0 = COk ([r], r1)"
    using split_sample_reads by blast
  have "reorders rev" by (simp add: reorders_def)
  from split_writes_flows [OF failing_child.extension_axioms this r split_sample_named,
      of new_registry "\<lambda>_. []" rev concat Map.empty]
  obtain ks dir' sm where
    "splitcap failing_child_parse new_registry (\<lambda>_. []) rev rev concat split_sample_args split_sample Map.empty = TOk (dir', sm)"
    "summarised (flow_key failing_child_parse new_registry (sa_granularity split_sample_args)) [r] ks sm" by blast
  then show ?thesis by (intro exI [of _ dir'] exI [of _ sm]) (simp add: summarised_def)
qed

text \<open>C12: the two modes agree.  If all flows are written, or no two flows have the same number of
  packets, splitting in one pass and in two passes leaves the same files behind and counts the same
  packets, whatever the orders of their hash maps.\<close>

theorem split_modes_agree:
  assumes "extension ext" and "reorders ord" and "reorders ord2" and "sniffed_reader_new src = COk r0"
    and "read_records r0 = COk (rs, r1)" and "all_named ext reg (sa_granularity args) rs"
    and "sa_number args = 0 \<or>
      inj_on (\<lambda>k. length (of_key (flow_key ext reg (sa_granularity args)) rs k)) (keys_of (flow_key ext reg (sa_granularity args)) rs)"
  shows "\<exists>dir' sm sm'.
    splitcap ext reg v6 ord ord' clash (args\<lparr>sa_two_pass := False\<rparr>) src dir = TOk (dir', sm) \<and>
    splitcap ext reg v6 ord2 ord2' clash (args\<lparr>sa_two_pass := True\<rparr>) src dir = TOk (dir', sm') \<and>
    sm\<lparr>sm_top := []\<rparr> = sm'\<lparr>sm_top := []\<rparr>"
proof -
  let ?one = "args\<lparr>sa_two_pass := False\<rparr>" and ?two = "args\<lparr>sa_two_pass := True\<rparr>"
  let ?key = "flow_key ext reg (sa_granularity args)" and ?config = "output_pcap_config_of r1 args"
  have config: "output_pcap_config_of r1 ?one = ?config" "output_pcap_config_of r1 ?two = ?config"
    by (simp_all add: output_pcap_config_of_def)
  obtain ks dir1 sm where one: "single_pass_split ext reg v6 ord ?one r0 dir = TOk (dir1, sm)"
    "selection ?key rs (sa_number args) ks" "split_into v6 ?config ?key rs ks dir dir1" "summarised ?key rs ks sm"
    using single_pass_splits [of ext ord reg ?one, OF assms(1,2) _ assms(5), of v6 dir] assms(6) config by auto
  obtain ks' dir2 sm' where two: "two_pass_split ext reg v6 ord2 ord2' clash ?two src dir = TOk (dir2, sm')"
    "selection ?key rs (sa_number args) ks'" "split_into v6 ?config ?key rs ks' dir dir2" "summarised ?key rs ks' sm'"
    using two_pass_splits [of ext ord2 reg ?two, OF assms(1,3) _ assms(4,5), of v6 ord2' clash dir] assms(6) config by auto
  have set: "set ks = set ks'" by (rule selection_unique [OF one(2) two(2) assms(7)])
  have dist: "distinct ks" "distinct ks'" using one(2) two(2) by (simp_all add: selection_def)
  have "dir1 name = dir2 name" for name
    using one(3) two(3) set by (cases "name \<in> to_filename v6 ` set ks") (auto simp: split_into_def)
  then have "dir1 = dir2" by (rule ext)
  moreover have "length ks = length ks'" using set dist by (metis distinct_card)
  moreover have "(\<Sum>k\<leftarrow>ks. length (of_key ?key rs k)) = (\<Sum>k\<leftarrow>ks'. length (of_key ?key rs k))"
    using set dist by (simp add: sum_list_distinct_conv_sum_set)
  ultimately show ?thesis
    using one(1,4) two(1,4) assms(4) by (auto simp: splitcap_def of_capture_def summarised_def)
qed

theorem split_modes_agree_witness:
  "\<exists>dir' sm sm'.
    splitcap failing_child_parse new_registry (\<lambda>_. []) rev rev concat
      (split_sample_args\<lparr>sa_two_pass := False\<rparr>) split_sample Map.empty = TOk (dir', sm) \<and>
    splitcap failing_child_parse new_registry (\<lambda>_. []) id id concat
      (split_sample_args\<lparr>sa_two_pass := True\<rparr>) split_sample Map.empty = TOk (dir', sm') \<and>
    sm\<lparr>sm_top := []\<rparr> = sm'\<lparr>sm_top := []\<rparr>"
proof -
  obtain r0 r r1 where r: "sniffed_reader_new split_sample = COk r0" "read_records r0 = COk ([r], r1)"
    using split_sample_reads by blast
  have "reorders rev" "reorders id" by (simp_all add: reorders_def)
  from split_modes_agree [OF failing_child.extension_axioms this r split_sample_named] show ?thesis
    by (simp add: split_sample_args_def)
qed

text \<open>A capture whose first interface states no limit (a snapshot length of 0) is split into files without bytes.\<close>

lemma unlimited_snap_len_empties:
  assumes "sa_snap_len args = None" and "sniffed_interfaces r = i # is'" and "if_snap_len i = 0"
  shows "snd (pcap_clip (oc_snap_len (output_pcap_config_of r args)) x) = []"
  using assms by (cases x) (simp add: output_pcap_config_of_def pcap_clip_def Let_def)

end
