(* ===== verification/Options.thy ===== *)
theory Options
  imports Envelope
begin

text \<open>
  Iterators over options: TCP (\<^verbatim>\<open>src/packet/layer/tcp/option.rs\<close> and its submodules), IPv4
  (\<^verbatim>\<open>src/packet/layer/ip/v4/option.rs\<close> and its submodules), IPv6
  (\<^verbatim>\<open>src/packet/layer/ip/v6/ext/option.rs\<close>) and DHCP
  (\<^verbatim>\<open>src/packet/layer/dhcp/option.rs\<close>).  The state of an iterator is its cursor.  The
  enumerations of option kinds have a catch-all variant, so a kind is its byte.
\<close>

unbundle bit_operations_syntax

section \<open>Cursors\<close>

record option_cursor =
  oc_bytes :: bytes
  oc_offset :: nat
  oc_done :: bool

definition cursor_new :: "bytes \<Rightarrow> option_cursor" where
  "cursor_new bs = \<lparr>oc_bytes = bs, oc_offset = 0, oc_done = False\<rparr>"

text \<open>\<^verbatim>\<open>&bytes[a..b]\<close> and \<^verbatim>\<open>from_be_bytes\<close> of the bytes from \<open>lo\<close> on.\<close>

definition part :: "bytes \<Rightarrow> nat \<Rightarrow> nat \<Rightarrow> bytes tool_result" where
  "part bs a b = fetch (slice bs a b)"

definition be_word :: "nat \<Rightarrow> bytes \<Rightarrow> 'w::len word" where
  "be_word lo data = word_of_nat (be_nat (take (LENGTH('w) div 8) (drop lo data)))"

section \<open>TCP\<close>

datatype tcp_option =
    TcpEndOfOptions
  | TcpNoOperation
  | TcpOption byte byte bytes
  | TcpMalformed byte bytes

definition tcp_options_next :: "option_cursor \<Rightarrow> (option_cursor \<times> tcp_option option) tool_result" where
  "tcp_options_next c =
    (if oc_done c \<or> oc_offset c \<ge> length (oc_bytes c) then TOk (c, None)
     else
       let start = oc_offset c in
       t_bind (fetch (byte_at (oc_bytes c) start)) (\<lambda>kind.
       if kind = 0 then TOk (c\<lparr>oc_offset := start + 1, oc_done := True\<rparr>, Some TcpEndOfOptions)
       else if kind = 1 then TOk (c\<lparr>oc_offset := start + 1\<rparr>, Some TcpNoOperation)
       else
         (case byte_at (oc_bytes c) (start + 1) of
            None \<Rightarrow>
              t_bind (part (oc_bytes c) start (length (oc_bytes c))) (\<lambda>rest.
              TOk (c\<lparr>oc_done := True\<rparr>, Some (TcpMalformed kind rest)))
          | Some len \<Rightarrow>
              if unat len < 2 \<or> start + unat len > length (oc_bytes c) then
                t_bind (part (oc_bytes c) start (length (oc_bytes c))) (\<lambda>rest.
                TOk (c\<lparr>oc_done := True\<rparr>, Some (TcpMalformed kind rest)))
              else
                t_bind (part (oc_bytes c) (start + 2) (start + unat len)) (\<lambda>data.
                TOk (c\<lparr>oc_offset := start + unat len\<rparr>, Some (TcpOption kind len data))))))"

fun tcp_option_kind :: "tcp_option \<Rightarrow> byte option" where
  "tcp_option_kind TcpEndOfOptions = Some 0"
| "tcp_option_kind TcpNoOperation = Some 1"
| "tcp_option_kind (TcpOption kind len data) = Some kind"
| "tcp_option_kind (TcpMalformed kind bs) = Some kind"

fun tcp_option_len :: "tcp_option \<Rightarrow> byte option" where
  "tcp_option_len TcpEndOfOptions = Some 1"
| "tcp_option_len TcpNoOperation = Some 1"
| "tcp_option_len (TcpOption kind len data) = Some len"
| "tcp_option_len (TcpMalformed kind bs) = None"

fun tcp_option_is_empty :: "tcp_option \<Rightarrow> bool" where
  "tcp_option_is_empty TcpEndOfOptions = True"
| "tcp_option_is_empty TcpNoOperation = True"
| "tcp_option_is_empty (TcpOption kind len data) = (data = [])"
| "tcp_option_is_empty (TcpMalformed kind bs) = (bs = [])"

fun tcp_option_data :: "tcp_option \<Rightarrow> bytes option" where
  "tcp_option_data (TcpOption kind len data) = Some data"
| "tcp_option_data _ = None"

fun tcp_raw_for_kind :: "byte \<Rightarrow> tcp_option \<Rightarrow> bytes option" where
  "tcp_raw_for_kind expected (TcpOption kind len data) = (if kind = expected then Some data else None)"
| "tcp_raw_for_kind expected _ = None"

fun tcp_fixed_u16 :: "byte \<Rightarrow> tcp_option \<Rightarrow> 16 word option" where
  "tcp_fixed_u16 expected (TcpOption kind len data) =
    (if kind = expected \<and> length data = 2 then Some (be_word 0 data) else None)"
| "tcp_fixed_u16 expected _ = None"

definition maximum_segment_size :: "tcp_option \<Rightarrow> 16 word option" where
  "maximum_segment_size opt = tcp_fixed_u16 2 opt"

fun window_scale :: "tcp_option \<Rightarrow> byte option" where
  "window_scale (TcpOption kind len data) = (if kind = 3 \<and> length data = 1 then Some (data ! 0) else None)"
| "window_scale _ = None"

fun sack_permitted :: "tcp_option \<Rightarrow> bool" where
  "sack_permitted (TcpOption kind len data) = (kind = 4 \<and> data = [])"
| "sack_permitted _ = False"

record tcp_sack_block =
  sb_left_edge :: "32 word"
  sb_right_edge :: "32 word"

definition sack_blocks_parse :: "bytes \<Rightarrow> option_cursor option" where
  "sack_blocks_parse bs = (if length bs mod 8 = 0 then Some (cursor_new bs) else None)"

definition sack_blocks_next :: "option_cursor \<Rightarrow> (option_cursor \<times> tcp_sack_block option) tool_result" where
  "sack_blocks_next c =
    (case slice (oc_bytes c) (oc_offset c) (oc_offset c + 8) of
       None \<Rightarrow> TOk (c, None)
     | Some block \<Rightarrow>
         TOk (c\<lparr>oc_offset := oc_offset c + 8\<rparr>, Some \<lparr>sb_left_edge = be_word 0 block, sb_right_edge = be_word 4 block\<rparr>))"

definition sack_blocks :: "tcp_option \<Rightarrow> option_cursor option" where
  "sack_blocks opt = Option.bind (tcp_raw_for_kind 5 opt) sack_blocks_parse"

record tcp_timestamp =
  tt_tsval :: "32 word"
  tt_tsecr :: "32 word"

definition tcp_timestamp_parse :: "bytes \<Rightarrow> tcp_timestamp option" where
  "tcp_timestamp_parse data =
    (if length data \<noteq> 8 then None else Some \<lparr>tt_tsval = be_word 0 data, tt_tsecr = be_word 4 data\<rparr>)"

definition tcp_timestamp_of :: "tcp_option \<Rightarrow> tcp_timestamp option" where
  "tcp_timestamp_of opt = Option.bind (tcp_raw_for_kind 8 opt) tcp_timestamp_parse"

record tcp_user_timeout =
  ut_granularity :: bool
  ut_value :: "16 word"

definition user_timeout_parse :: "bytes \<Rightarrow> tcp_user_timeout option" where
  "user_timeout_parse data =
    (if length data \<noteq> 2 then None
     else let raw = be_word 0 data :: 16 word
          in Some \<lparr>ut_granularity = (raw AND 0x8000 \<noteq> 0), ut_value = raw AND 0x7FFF\<rparr>)"

definition user_timeout :: "tcp_option \<Rightarrow> tcp_user_timeout option" where
  "user_timeout opt = Option.bind (tcp_raw_for_kind 28 opt) user_timeout_parse"

definition tcp_authentication :: "tcp_option \<Rightarrow> bytes option" where
  "tcp_authentication opt = tcp_raw_for_kind 29 opt"

definition multipath_tcp :: "tcp_option \<Rightarrow> bytes option" where
  "multipath_tcp opt = tcp_raw_for_kind 30 opt"

definition fast_open_cookie :: "tcp_option \<Rightarrow> bytes option" where
  "fast_open_cookie opt = tcp_raw_for_kind 34 opt"

text \<open>The options of a TCP or IPv4 header, up to the header length but not behind the bytes of the viewer.\<close>

definition header_options :: "(bytes \<Rightarrow> nat option) \<Rightarrow> bytes \<Rightarrow> bytes tool_result" where
  "header_options header_len hdr =
    t_bind (fetch (header_len hdr)) (\<lambda>n.
    let len = min n (length hdr)
    in if len \<le> 20 then part hdr 0 0 else part hdr 20 len)"

definition tcp_option_iter :: "bytes \<Rightarrow> option_cursor tool_result" where
  "tcp_option_iter hdr = t_bind (header_options tcp_header_len hdr) (\<lambda>bs. TOk (cursor_new bs))"

section \<open>IPv4\<close>

datatype ipv4_option =
    Ipv4EndOfOptions
  | Ipv4NoOperation
  | Ipv4Option byte byte bytes
  | Ipv4Malformed byte bytes

definition ipv4_options_next :: "option_cursor \<Rightarrow> (option_cursor \<times> ipv4_option option) tool_result" where
  "ipv4_options_next c =
    (if oc_done c \<or> oc_offset c \<ge> length (oc_bytes c) then TOk (c, None)
     else
       let start = oc_offset c in
       t_bind (fetch (byte_at (oc_bytes c) start)) (\<lambda>kind.
       if kind = 0 then TOk (c\<lparr>oc_offset := start + 1, oc_done := True\<rparr>, Some Ipv4EndOfOptions)
       else if kind = 1 then TOk (c\<lparr>oc_offset := start + 1\<rparr>, Some Ipv4NoOperation)
       else
         (case byte_at (oc_bytes c) (start + 1) of
            None \<Rightarrow>
              t_bind (part (oc_bytes c) start (length (oc_bytes c))) (\<lambda>rest.
              TOk (c\<lparr>oc_done := True\<rparr>, Some (Ipv4Malformed kind rest)))
          | Some len \<Rightarrow>
              if unat len < 2 \<or> start + unat len > length (oc_bytes c) then
                t_bind (part (oc_bytes c) start (length (oc_bytes c))) (\<lambda>rest.
                TOk (c\<lparr>oc_done := True\<rparr>, Some (Ipv4Malformed kind rest)))
              else
                t_bind (part (oc_bytes c) (start + 2) (start + unat len)) (\<lambda>data.
                TOk (c\<lparr>oc_offset := start + unat len\<rparr>, Some (Ipv4Option kind len data))))))"

fun ipv4_option_kind :: "ipv4_option \<Rightarrow> byte option" where
  "ipv4_option_kind Ipv4EndOfOptions = Some 0"
| "ipv4_option_kind Ipv4NoOperation = Some 1"
| "ipv4_option_kind (Ipv4Option kind len data) = Some kind"
| "ipv4_option_kind (Ipv4Malformed kind bs) = Some kind"

fun ipv4_option_len :: "ipv4_option \<Rightarrow> byte option" where
  "ipv4_option_len Ipv4EndOfOptions = Some 1"
| "ipv4_option_len Ipv4NoOperation = Some 1"
| "ipv4_option_len (Ipv4Option kind len data) = Some len"
| "ipv4_option_len (Ipv4Malformed kind bs) = None"

fun ipv4_option_is_empty :: "ipv4_option \<Rightarrow> bool" where
  "ipv4_option_is_empty Ipv4EndOfOptions = True"
| "ipv4_option_is_empty Ipv4NoOperation = True"
| "ipv4_option_is_empty (Ipv4Option kind len data) = (data = [])"
| "ipv4_option_is_empty (Ipv4Malformed kind bs) = (bs = [])"

fun ipv4_option_data :: "ipv4_option \<Rightarrow> bytes option" where
  "ipv4_option_data (Ipv4Option kind len data) = Some data"
| "ipv4_option_data _ = None"

fun ipv4_fixed_u16 :: "byte \<Rightarrow> ipv4_option \<Rightarrow> 16 word option" where
  "ipv4_fixed_u16 expected (Ipv4Option kind len data) =
    (if kind = expected \<and> length data = 2 then Some (be_word 0 data) else None)"
| "ipv4_fixed_u16 expected _ = None"

definition router_alert :: "ipv4_option \<Rightarrow> 16 word option" where
  "router_alert opt = ipv4_fixed_u16 148 opt"

definition stream_id :: "ipv4_option \<Rightarrow> 16 word option" where
  "stream_id opt = ipv4_fixed_u16 136 opt"

definition mtu_probe :: "ipv4_option \<Rightarrow> 16 word option" where
  "mtu_probe opt = ipv4_fixed_u16 11 opt"

definition mtu_reply :: "ipv4_option \<Rightarrow> 16 word option" where
  "mtu_reply opt = ipv4_fixed_u16 12 opt"

record ipv4_route_option =
  ro_pointer :: byte
  ro_addrs :: bytes

text \<open>The slices behind the tests of the length are in range.\<close>

definition ipv4_route_parse :: "bytes \<Rightarrow> ipv4_route_option option" where
  "ipv4_route_parse data = (if data = [] then None else Some \<lparr>ro_pointer = data ! 0, ro_addrs = drop 1 data\<rparr>)"

definition ipv4_route_addrs :: "ipv4_route_option \<Rightarrow> option_cursor" where
  "ipv4_route_addrs r = cursor_new (ro_addrs r)"

definition ipv4_route_trailing_bytes :: "ipv4_route_option \<Rightarrow> bytes" where
  "ipv4_route_trailing_bytes r =
    (let remainder = length (ro_addrs r) mod 4
     in if remainder = 0 then [] else drop (length (ro_addrs r) - remainder) (ro_addrs r))"

definition ipv4_route_addrs_next :: "option_cursor \<Rightarrow> (option_cursor \<times> 32 word option) tool_result" where
  "ipv4_route_addrs_next c =
    (case slice (oc_bytes c) (oc_offset c) (oc_offset c + 4) of
       None \<Rightarrow> TOk (c, None)
     | Some addr \<Rightarrow> TOk (c\<lparr>oc_offset := oc_offset c + 4\<rparr>, Some (be_word 0 addr)))"

fun ipv4_route_of :: "ipv4_option \<Rightarrow> ipv4_route_option option" where
  "ipv4_route_of (Ipv4Option kind len data) =
    (if kind \<noteq> 7 \<and> kind \<noteq> 131 \<and> kind \<noteq> 137 then None else ipv4_route_parse data)"
| "ipv4_route_of _ = None"

record ipv4_timestamp =
  ts_pointer :: byte
  ts_overflow :: byte
  ts_flags :: byte
  ts_entries :: bytes

definition ipv4_timestamp_parse :: "bytes \<Rightarrow> ipv4_timestamp option" where
  "ipv4_timestamp_parse data =
    (if length data < 2 then None
     else Some \<lparr>ts_pointer = data ! 0, ts_overflow = drop_bit 4 (data ! 1), ts_flags = data ! 1 AND 0x0f,
       ts_entries = drop 2 data\<rparr>)"

definition timestamp_entry_width :: "ipv4_timestamp \<Rightarrow> nat option" where
  "timestamp_entry_width t =
    (if ts_flags t = 0 then Some 4
     else if ts_flags t = 1 \<or> ts_flags t = 3 then Some 8
     else None)"

fun ipv4_timestamp_of :: "ipv4_option \<Rightarrow> ipv4_timestamp option" where
  "ipv4_timestamp_of (Ipv4Option kind len data) = (if kind \<noteq> 68 then None else ipv4_timestamp_parse data)"
| "ipv4_timestamp_of _ = None"

record ipv4_traceroute =
  tr_id :: "16 word"
  tr_outbound_hop_count :: "16 word"
  tr_return_hop_count :: "16 word"
  tr_originator_addr :: "32 word"

definition ipv4_traceroute_parse :: "bytes \<Rightarrow> ipv4_traceroute option" where
  "ipv4_traceroute_parse data =
    (if length data \<noteq> 10 then None
     else Some \<lparr>tr_id = be_word 0 data, tr_outbound_hop_count = be_word 2 data,
       tr_return_hop_count = be_word 4 data, tr_originator_addr = be_word 6 data\<rparr>)"

fun ipv4_traceroute_of :: "ipv4_option \<Rightarrow> ipv4_traceroute option" where
  "ipv4_traceroute_of (Ipv4Option kind len data) = (if kind \<noteq> 82 then None else ipv4_traceroute_parse data)"
| "ipv4_traceroute_of _ = None"

definition ipv4_option_iter :: "bytes \<Rightarrow> option_cursor tool_result" where
  "ipv4_option_iter hdr = t_bind (header_options ipv4_header_len hdr) (\<lambda>bs. TOk (cursor_new bs))"

section \<open>IPv6\<close>

text \<open>This iterator has no flag: a malformed option moves the offset to the end.\<close>

datatype ipv6_option =
    Ipv6Pad1
  | Ipv6Option byte bytes
  | Ipv6Malformed byte bytes

definition ipv6_options_next :: "option_cursor \<Rightarrow> (option_cursor \<times> ipv6_option option) tool_result" where
  "ipv6_options_next c =
    (if oc_offset c \<ge> length (oc_bytes c) then TOk (c, None)
     else
       let start = oc_offset c in
       t_bind (fetch (byte_at (oc_bytes c) start)) (\<lambda>kind.
       if kind = 0 then TOk (c\<lparr>oc_offset := start + 1\<rparr>, Some Ipv6Pad1)
       else
         (case byte_at (oc_bytes c) (start + 1) of
            None \<Rightarrow>
              t_bind (part (oc_bytes c) start (length (oc_bytes c))) (\<lambda>rest.
              TOk (c\<lparr>oc_offset := length (oc_bytes c)\<rparr>, Some (Ipv6Malformed kind rest)))
          | Some len \<Rightarrow>
              let stop = start + 2 + unat len in
              if stop > length (oc_bytes c) then
                t_bind (part (oc_bytes c) start (length (oc_bytes c))) (\<lambda>rest.
                TOk (c\<lparr>oc_offset := length (oc_bytes c)\<rparr>, Some (Ipv6Malformed kind rest)))
              else
                t_bind (part (oc_bytes c) (start + 2) stop) (\<lambda>data.
                TOk (c\<lparr>oc_offset := stop\<rparr>, Some (Ipv6Option kind data))))))"

fun ipv6_option_kind :: "ipv6_option \<Rightarrow> byte" where
  "ipv6_option_kind Ipv6Pad1 = 0"
| "ipv6_option_kind (Ipv6Option kind data) = kind"
| "ipv6_option_kind (Ipv6Malformed kind bs) = kind"

fun ipv6_option_data :: "ipv6_option \<Rightarrow> bytes option" where
  "ipv6_option_data (Ipv6Option kind data) = Some data"
| "ipv6_option_data _ = None"

section \<open>DHCP\<close>

datatype dhcp_option =
    DhcpPad
  | DhcpEnd
  | DhcpOption byte byte bytes
  | DhcpMalformed byte bytes

definition dhcp_options_next :: "option_cursor \<Rightarrow> (option_cursor \<times> dhcp_option option) tool_result" where
  "dhcp_options_next c =
    (if oc_done c \<or> oc_offset c \<ge> length (oc_bytes c) then TOk (c, None)
     else
       let start = oc_offset c in
       t_bind (fetch (byte_at (oc_bytes c) start)) (\<lambda>code.
       if code = 0 then TOk (c\<lparr>oc_offset := start + 1\<rparr>, Some DhcpPad)
       else if code = 255 then TOk (c\<lparr>oc_offset := start + 1, oc_done := True\<rparr>, Some DhcpEnd)
       else
         (case byte_at (oc_bytes c) (start + 1) of
            None \<Rightarrow>
              t_bind (part (oc_bytes c) start (length (oc_bytes c))) (\<lambda>rest.
              TOk (c\<lparr>oc_done := True\<rparr>, Some (DhcpMalformed code rest)))
          | Some len \<Rightarrow>
              let stop = start + 2 + unat len in
              if stop > length (oc_bytes c) then
                t_bind (part (oc_bytes c) start (length (oc_bytes c))) (\<lambda>rest.
                TOk (c\<lparr>oc_done := True\<rparr>, Some (DhcpMalformed code rest)))
              else
                t_bind (part (oc_bytes c) (start + 2) stop) (\<lambda>data.
                TOk (c\<lparr>oc_offset := stop\<rparr>, Some (DhcpOption code len data))))))"

text \<open>The options of a DHCP message lie behind its magic cookie, at byte 240.\<close>

definition dhcp_has_magic_cookie :: "bytes \<Rightarrow> bool tool_result" where
  "dhcp_has_magic_cookie hdr = t_bind (part hdr 236 240) (\<lambda>bs. TOk (bs = [99, 130, 83, 99]))"

definition dhcp_options_bytes :: "bytes \<Rightarrow> bytes tool_result" where
  "dhcp_options_bytes hdr = (if length hdr \<le> 240 then part hdr 0 0 else part hdr 240 (length hdr))"

definition dhcp_options :: "bytes \<Rightarrow> option_cursor tool_result" where
  "dhcp_options hdr = t_bind (dhcp_options_bytes hdr) (\<lambda>bs. TOk (cursor_new bs))"

end
