(* ===== verification/Options_Sound.thy ===== *)
theory Options_Sound
  imports Options
begin

text \<open>
  What an option iterator promises: it splits its bytes into options, in order and without a gap, up
  to an end marker or a malformed rest, and it is the only way to do so.  The contract is a locale
  over one step of an iterator; it is interpreted on the four iterators over options and on the two
  over lists of addresses and of SACK blocks.
\<close>

section \<open>Running an iterator\<close>

text \<open>\<^verbatim>\<open>collect\<close>, with fuel: the inner \<^verbatim>\<open>None\<close> is a run that did not end.\<close>

fun iter_all :: "nat \<Rightarrow> ('s \<Rightarrow> ('s \<times> 'i option) tool_result) \<Rightarrow> 's \<Rightarrow> 'i list option tool_result" where
  "iter_all 0 nxt s = TOk None"
| "iter_all (Suc n) nxt s =
    t_bind (nxt s) (\<lambda>(s', item).
    case item of
      None \<Rightarrow> TOk (Some [])
    | Some i \<Rightarrow> t_bind (iter_all n nxt s') (\<lambda>is. TOk (map_option ((#) i) is)))"

text \<open>
  A splitting of bytes into items: every item is a proper one and its wire form is next.  A stopping
  item is the last; behind it bytes may remain, unless the item is one that takes the whole rest.
\<close>

fun splits :: "('i \<Rightarrow> 'b list) \<Rightarrow> ('i \<Rightarrow> bool) \<Rightarrow> ('i \<Rightarrow> bool) \<Rightarrow> ('i \<Rightarrow> bool) \<Rightarrow> 'b list \<Rightarrow> 'i list \<Rightarrow> bool" where
  "splits wire proper stops greedy bs [] \<longleftrightarrow> bs = []"
| "splits wire proper stops greedy bs (i # is) \<longleftrightarrow>
    take (length (wire i)) bs = wire i \<and> proper i \<and>
    (greedy i \<longrightarrow> bs = wire i) \<and>
    (if stops i then is = [] else splits wire proper stops greedy (drop (length (wire i)) bs) is)"

section \<open>The contract\<close>

locale option_iterator =
  fixes nxt :: "'s \<Rightarrow> ('s \<times> 'i option) tool_result"
    and left :: "'s \<Rightarrow> 'b list"
    and wire :: "'i \<Rightarrow> 'b list"
    and proper stops greedy :: "'i \<Rightarrow> bool"
  assumes ended: "left s = [] \<Longrightarrow> \<exists>s'. nxt s = TOk (s', None)"
    and yields: "left s \<noteq> [] \<Longrightarrow> \<exists>s' i rest. nxt s = TOk (s', Some i) \<and> proper i \<and>
      left s = wire i @ rest \<and> (greedy i \<longrightarrow> rest = []) \<and> left s' = (if stops i then [] else rest)"
    and nonempty: "proper i \<Longrightarrow> wire i \<noteq> []"
    and decodable: "proper i \<Longrightarrow> proper j \<Longrightarrow> wire i @ r = wire j @ r' \<Longrightarrow>
      (greedy i \<longrightarrow> r = []) \<Longrightarrow> (greedy j \<longrightarrow> r' = []) \<Longrightarrow> i = j"
begin

abbreviation "split_as \<equiv> splits wire proper stops greedy"

lemma split_nothing: "split_as [] is \<longleftrightarrow> is = []"
proof (cases "is")
  case (Cons i js)
  have False if "split_as [] is"
  proof -
    from that Cons have "proper i" "wire i = []" by auto
    with nonempty show False by blast
  qed
  with Cons show ?thesis by blast
qed simp

lemma runs_out:
  "length (left s) < n \<Longrightarrow> \<exists>is. iter_all n nxt s = TOk (Some is) \<and> split_as (left s) is"
proof (induction n arbitrary: s)
  case (Suc n)
  show ?case
  proof (cases "left s = []")
    case True
    with ended show ?thesis by fastforce
  next
    case False
    then obtain s' i rest where step: "nxt s = TOk (s', Some i)" "proper i" "left s = wire i @ rest"
      "greedy i \<longrightarrow> rest = []" "left s' = (if stops i then [] else rest)"
      using yields by blast
    moreover from step(2) nonempty have "wire i \<noteq> []" by blast
    ultimately have "length (left s') < n" using Suc.prems by (cases "wire i") auto
    with Suc.IH obtain "is" where "iter_all n nxt s' = TOk (Some is)" "split_as (left s') is"
      by blast
    moreover from step this have "stops i \<Longrightarrow> is = []" using split_nothing by simp
    ultimately have "split_as (left s) (i # is)" using step by (cases "stops i") simp_all
    with step \<open>iter_all n nxt s' = TOk (Some is)\<close> show ?thesis by simp
  qed
qed simp

lemma split_unique: "split_as bs is \<Longrightarrow> split_as bs js \<Longrightarrow> is = js"
proof (induction "is" arbitrary: bs js)
  case Nil
  then show ?case using split_nothing by simp
next
  case (Cons i "is")
  have "js \<noteq> []"
  proof (rule notI)
    assume "js = []"
    with Cons.prems(2) have "bs = []" by simp
    with Cons.prems(1) have "split_as [] (i # is)" by (simp only:)
    with split_nothing [of "i # is"] show False by blast
  qed
  then obtain j js' where js: "js = j # js'" by (cases js) auto
  let ?r = "\<lambda>k. drop (length (wire k)) bs"
  have cut: "bs = wire k @ ?r k" if "take (length (wire k)) bs = wire k" for k
    using append_take_drop_id [of "length (wire k)" bs] that by simp
  have "wire i @ ?r i = wire j @ ?r j" using cut Cons.prems js by simp
  moreover have "greedy i \<longrightarrow> ?r i = []" "greedy j \<longrightarrow> ?r j = []" "proper i" "proper j"
    using Cons.prems js by simp_all
  ultimately have "i = j" using decodable by blast
  with Cons.prems Cons.IH [of "?r i" js'] js show ?case by (simp split: if_splits)
qed

lemma collects:
  "length (left s) < n \<Longrightarrow> iter_all n nxt s = TOk (Some is) \<longleftrightarrow> split_as (left s) is"
  using runs_out [of s n] split_unique by auto

lemma only_split:
  "\<exists>is. iter_all (Suc (length (left s))) nxt s = TOk (Some is) \<and> (\<forall>js. split_as (left s) js \<longleftrightarrow> js = is)"
  using runs_out [of s "Suc (length (left s))"] split_unique by blast

end

section \<open>The iterators\<close>

definition oc_left :: "option_cursor \<Rightarrow> bytes" where
  "oc_left c = (if oc_done c then [] else drop (oc_offset c) (oc_bytes c))"

text \<open>The IPv6 iterator does not have the flag.\<close>

definition oc_rest :: "option_cursor \<Rightarrow> bytes" where
  "oc_rest c = drop (oc_offset c) (oc_bytes c)"

lemma oc_left_new [simp]: "oc_left (cursor_new bs) = bs" "oc_rest (cursor_new bs) = bs"
  by (simp_all add: oc_left_def oc_rest_def cursor_new_def)

lemma oc_rest_left: "oc_rest c = oc_left (c\<lparr>oc_done := False\<rparr>)"
  by (simp add: oc_left_def oc_rest_def)

text \<open>The bytes from which a kind, a length and so many bytes of data cannot be read.\<close>

definition cut_short :: "nat \<Rightarrow> byte \<Rightarrow> bytes \<Rightarrow> bool" where
  "cut_short header kind bs \<longleftrightarrow>
    bs \<noteq> [] \<and> bs ! 0 = kind \<and>
    (length bs = 1 \<or> header + unat (bs ! 1) < 2 \<or> length bs < header + unat (bs ! 1))"

section \<open>Kind, length, data\<close>

text \<open>
  The iterators over options share a format: a kind of one octet (\<^verbatim>\<open>one\<close>), or a kind, a length and data
  (\<^verbatim>\<open>tlv\<close>), or a rest that cannot be read (\<^verbatim>\<open>bad\<close>).  A length counts the kind and the length octet as
  well (header 0) or the data only (header 2).
\<close>

locale tlv_iterator =
  fixes nxt :: "'s \<Rightarrow> ('s \<times> 'i option) tool_result"
    and start :: "bytes \<Rightarrow> 's"
    and left :: "'s \<Rightarrow> bytes"
    and one :: "byte \<Rightarrow> 'i option"
    and tlv :: "byte \<Rightarrow> byte \<Rightarrow> bytes \<Rightarrow> 'i"
    and bad :: "byte \<Rightarrow> bytes \<Rightarrow> 'i"
    and header :: nat
    and wire :: "'i \<Rightarrow> bytes"
    and proper stops greedy :: "'i \<Rightarrow> bool"
  assumes fresh: "left (start bs) = bs"
    and at_end: "left c = [] \<Longrightarrow> \<exists>c'. nxt c = TOk (c', None)"
    and single: "left c = k # rest \<Longrightarrow> one k = Some i \<Longrightarrow>
      \<exists>c'. nxt c = TOk (c', Some i) \<and> left c' = (if stops i then [] else rest)"
    and short: "left c = k # rest \<Longrightarrow> one k = None \<Longrightarrow> cut_short header k (k # rest) \<Longrightarrow>
      \<exists>c'. nxt c = TOk (c', Some (bad k (k # rest))) \<and> left c' = []"
    and full: "left c = k # l # data @ rest \<Longrightarrow> one k = None \<Longrightarrow> header + unat l = 2 + length data \<Longrightarrow>
      \<exists>c'. nxt c = TOk (c', Some (tlv k l data)) \<and> left c' = rest"
    and one_wire: "one k = Some i \<Longrightarrow> wire i = [k] \<and> proper i \<and> \<not> greedy i"
    and tlv_wire: "one k = None \<Longrightarrow> header + unat l = 2 + length data \<Longrightarrow>
      wire (tlv k l data) = k # l # data \<and> proper (tlv k l data) \<and> \<not> greedy (tlv k l data) \<and> \<not> stops (tlv k l data)"
    and bad_wire: "one k = None \<Longrightarrow> cut_short header k bs \<Longrightarrow>
      wire (bad k bs) = bs \<and> proper (bad k bs) \<and> greedy (bad k bs) \<and> stops (bad k bs)"
    and forms: "proper i \<Longrightarrow> (\<exists>k. one k = Some i) \<or>
      (\<exists>k l data. one k = None \<and> header + unat l = 2 + length data \<and> i = tlv k l data) \<or>
      (\<exists>k bs. one k = None \<and> cut_short header k bs \<and> i = bad k bs)"
begin

lemma reads_one:
  assumes "left c \<noteq> []"
  shows "\<exists>c' i rest. nxt c = TOk (c', Some i) \<and> proper i \<and> left c = wire i @ rest \<and>
    (greedy i \<longrightarrow> rest = []) \<and> left c' = (if stops i then [] else rest)"
proof -
  obtain k rest where l: "left c = k # rest" using assms by (cases "left c") auto
  show ?thesis
  proof (cases "one k")
    case (Some i)
    with single [OF l] one_wire l show ?thesis by (metis append_Cons append_Nil)
  next
    case None
    show ?thesis
    proof (cases "cut_short header k (k # rest)")
      case True
      with short [OF l None] bad_wire [OF None] l show ?thesis by (metis append_Nil2)
    next
      case False
      then obtain len more where rest: "rest = len # more" by (cases rest) (auto simp: cut_short_def)
      let ?n = "header + unat len - 2"
      from False rest have n: "header + unat len = 2 + length (take ?n more)" by (auto simp: cut_short_def)
      have l': "left c = k # len # take ?n more @ drop ?n more" using l rest by simp
      from full [OF l' None n] tlv_wire [OF None n] l' show ?thesis by (metis append_Cons)
    qed
  qed
qed

lemma wire_determines:
  assumes "proper i" "proper j" "wire i @ r = wire j @ r'" "greedy i \<longrightarrow> r = []" "greedy j \<longrightarrow> r' = []"
  shows "i = j"
proof -
  have front: "\<exists>c'. nxt (start (wire x @ rest)) = TOk (c', Some x)"
    if x: "proper x" "greedy x \<longrightarrow> rest = []" for x rest
    using forms [OF x(1)]
  proof (elim disjE exE conjE)
    fix k assume o: "one k = Some x"
    with one_wire fresh have "left (start (wire x @ rest)) = k # rest" by simp
    from single [OF this o] show ?thesis by blast
  next
    fix k l data assume o: "one k = None" "header + unat l = 2 + length data" and xd: "x = tlv k l data"
    with tlv_wire [OF o] fresh have "left (start (wire x @ rest)) = k # l # data @ rest" by simp
    from full [OF this o] xd show ?thesis by blast
  next
    fix k bs assume o: "one k = None" "cut_short header k bs" and xb: "x = bad k bs"
    from o(2) have bs: "bs = k # tl bs" by (cases bs) (simp_all add: cut_short_def)
    from x xb bad_wire [OF o] have w: "wire x @ rest = bs" by simp
    with bs fresh have "left (start (wire x @ rest)) = k # tl bs" by simp
    from short [OF this o(1)] o(2) bs xb show ?thesis by (metis (no_types))
  qed
  from front [OF assms(1,4)] front [OF assms(2,5)] obtain c c' where
    "nxt (start (wire i @ r)) = TOk (c, Some i)" "nxt (start (wire j @ r')) = TOk (c', Some j)"
    by blast
  with assms(3) show ?thesis by simp
qed

lemma wire_nonempty: "proper i \<Longrightarrow> wire i \<noteq> []"
  using forms [of i] one_wire tlv_wire bad_wire by (auto simp: cut_short_def)

end

sublocale tlv_iterator \<subseteq> option_iterator nxt left wire proper stops greedy
  by unfold_locales (fact at_end reads_one wire_nonempty wire_determines)+

text \<open>What an iterator sees in front of it.\<close>

lemma cursor_front:
  assumes "oc_left c = k # rest"
  shows "\<not> oc_done c" "oc_offset c < length (oc_bytes c)" "oc_bytes c ! oc_offset c = k"
    "drop (Suc (oc_offset c)) (oc_bytes c) = rest" "length (oc_bytes c) = Suc (oc_offset c + length rest)"
    "drop (oc_offset c) (oc_bytes c) = k # rest"
proof -
  from assms have c: "\<not> oc_done c" "drop (oc_offset c) (oc_bytes c) = k # rest"
    by (simp_all add: oc_left_def split: if_splits)
  then show "\<not> oc_done c" "drop (oc_offset c) (oc_bytes c) = k # rest" by simp_all
  from c(2) have "length (drop (oc_offset c) (oc_bytes c)) = Suc (length rest)" by simp
  then show "oc_offset c < length (oc_bytes c)" "length (oc_bytes c) = Suc (oc_offset c + length rest)"
    by simp_all
  with c(2) show "oc_bytes c ! oc_offset c = k" "drop (Suc (oc_offset c)) (oc_bytes c) = rest"
    using Cons_nth_drop_Suc [of "oc_offset c" "oc_bytes c"] by simp_all
qed

lemma cursor_second:
  assumes "oc_left c = k # l # rest"
  shows "oc_bytes c ! Suc (oc_offset c) = l" "drop (Suc (Suc (oc_offset c))) (oc_bytes c) = rest"
proof -
  have d: "drop (Suc (oc_offset c)) (oc_bytes c) = l # rest" using cursor_front(4) [OF assms] .
  then show "oc_bytes c ! Suc (oc_offset c) = l"
    by (metis list.sel(1) hd_drop_conv_nth leI list.distinct(1) drop_all)
  from d show "drop (Suc (Suc (oc_offset c))) (oc_bytes c) = rest"
    by (metis drop_Suc list.sel(3) tl_drop)
qed

lemma oc_left_step:
  "oc_left (c\<lparr>oc_done := True\<rparr>) = []"
  "oc_left (c\<lparr>oc_offset := n, oc_done := True\<rparr>) = []"
  "\<not> oc_done c \<Longrightarrow> oc_left (c\<lparr>oc_offset := n\<rparr>) = drop n (oc_bytes c)"
  by (simp_all add: oc_left_def)

lemma cursor_drop:
  assumes "oc_left c = k # len # data @ rest"
  shows "oc_left (c\<lparr>oc_offset := Suc (Suc (oc_offset c + length data))\<rparr>) = rest"
proof -
  have "drop (2 + length data) (oc_left c) = rest" using assms by simp
  with cursor_front(1) [OF assms] show ?thesis by (simp add: oc_left_def add.commute)
qed

lemma rest_front:
  assumes "oc_rest c = k # rest"
  shows "oc_offset c < length (oc_bytes c)" "oc_bytes c ! oc_offset c = k"
    "drop (Suc (oc_offset c)) (oc_bytes c) = rest" "length (oc_bytes c) = Suc (oc_offset c + length rest)"
    "drop (oc_offset c) (oc_bytes c) = k # rest"
  using cursor_front [OF assms [unfolded oc_rest_left]] by simp_all

lemma rest_second:
  assumes "oc_rest c = k # l # rest"
  shows "oc_bytes c ! Suc (oc_offset c) = l" "drop (Suc (Suc (oc_offset c))) (oc_bytes c) = rest"
  using cursor_second [OF assms [unfolded oc_rest_left]] by simp_all

lemma rest_drop:
  assumes "oc_rest c = k # len # data @ rest"
  shows "oc_rest (c\<lparr>oc_offset := Suc (Suc (oc_offset c + length data))\<rparr>) = rest"
  using cursor_drop [OF assms [unfolded oc_rest_left]] by (simp add: oc_left_def oc_rest_def)

section \<open>TCP\<close>

definition tcp_one :: "byte \<Rightarrow> tcp_option option" where
  "tcp_one k = (if k = 0 then Some TcpEndOfOptions else if k = 1 then Some TcpNoOperation else None)"

fun tcp_wire :: "tcp_option \<Rightarrow> bytes" where
  "tcp_wire TcpEndOfOptions = [0]"
| "tcp_wire TcpNoOperation = [1]"
| "tcp_wire (TcpOption kind len data) = kind # len # data"
| "tcp_wire (TcpMalformed kind bs) = bs"

fun tcp_proper :: "tcp_option \<Rightarrow> bool" where
  "tcp_proper (TcpOption kind len data) \<longleftrightarrow> tcp_one kind = None \<and> unat len = 2 + length data"
| "tcp_proper (TcpMalformed kind bs) \<longleftrightarrow> tcp_one kind = None \<and> cut_short 0 kind bs"
| "tcp_proper _ \<longleftrightarrow> True"

fun tcp_malformed :: "tcp_option \<Rightarrow> bool" where
  "tcp_malformed (TcpMalformed kind bs) \<longleftrightarrow> True"
| "tcp_malformed _ \<longleftrightarrow> False"

definition tcp_stops :: "tcp_option \<Rightarrow> bool" where
  "tcp_stops opt \<longleftrightarrow> opt = TcpEndOfOptions \<or> tcp_malformed opt"

lemma tcp_at_end: "oc_left c = [] \<Longrightarrow> \<exists>c'. tcp_options_next c = TOk (c', None)"
  by (auto simp: tcp_options_next_def oc_left_def split: if_splits)

lemma tcp_single:
  assumes l: "oc_left c = k # rest" and k: "tcp_one k = Some i"
  shows "\<exists>c'. tcp_options_next c = TOk (c', Some i) \<and> oc_left c' = (if tcp_stops i then [] else rest)"
  using k by (auto simp: tcp_one_def tcp_options_next_def tcp_stops_def oc_left_step cursor_front [OF l] split: if_splits)

lemma tcp_short:
  assumes l: "oc_left c = k # rest" and k: "tcp_one k = None" "cut_short 0 k (k # rest)"
  shows "\<exists>c'. tcp_options_next c = TOk (c', Some (TcpMalformed k (k # rest))) \<and> oc_left c' = []"
proof (cases rest)
  case Nil
  with k show ?thesis
    by (simp add: tcp_one_def tcp_options_next_def part_def byte_at_def oc_left_step cursor_front [OF l] split: if_splits)
next
  case (Cons len data)
  note [simp] = cursor_second(1) [OF l [unfolded Cons]]
  from k Cons show ?thesis
    by (auto simp: tcp_one_def tcp_options_next_def part_def byte_at_def cut_short_def oc_left_step cursor_front [OF l]
        split: if_splits)
qed

lemma tcp_full:
  assumes l: "oc_left c = k # len # data @ rest" and k: "tcp_one k = None" "0 + unat len = 2 + length data"
  shows "\<exists>c'. tcp_options_next c = TOk (c', Some (TcpOption k len data)) \<and> oc_left c' = rest"
proof -
  note [simp] = cursor_front [OF l] cursor_second [OF l]
  from k show ?thesis
    by (simp add: tcp_one_def tcp_options_next_def part_def byte_at_def cursor_drop [OF l] split: if_splits)
qed

interpretation tcp: tlv_iterator tcp_options_next cursor_new oc_left tcp_one
   TcpOption TcpMalformed 0 tcp_wire tcp_proper tcp_stops tcp_malformed
proof unfold_locales
  have ones: "tcp_one 0 = Some TcpEndOfOptions" "tcp_one 1 = Some TcpNoOperation"
    by (simp_all add: tcp_one_def)
  show "(\<exists>k. tcp_one k = Some i) \<or>
      (\<exists>k l data. tcp_one k = None \<and> 0 + unat l = 2 + length data \<and> i = TcpOption k l data) \<or>
      (\<exists>k bs. tcp_one k = None \<and> cut_short 0 k bs \<and> i = TcpMalformed k bs)" if "tcp_proper i" for i
    using that ones by (cases i) (simp_all, blast+)
qed (fact oc_left_new tcp_at_end tcp_single tcp_short tcp_full | auto simp: tcp_stops_def tcp_one_def split: if_splits)+

section \<open>IPv4\<close>

definition ipv4_one :: "byte \<Rightarrow> ipv4_option option" where
  "ipv4_one k = (if k = 0 then Some Ipv4EndOfOptions else if k = 1 then Some Ipv4NoOperation else None)"

fun ipv4_wire :: "ipv4_option \<Rightarrow> bytes" where
  "ipv4_wire Ipv4EndOfOptions = [0]"
| "ipv4_wire Ipv4NoOperation = [1]"
| "ipv4_wire (Ipv4Option kind len data) = kind # len # data"
| "ipv4_wire (Ipv4Malformed kind bs) = bs"

fun ipv4_proper :: "ipv4_option \<Rightarrow> bool" where
  "ipv4_proper (Ipv4Option kind len data) \<longleftrightarrow> ipv4_one kind = None \<and> unat len = 2 + length data"
| "ipv4_proper (Ipv4Malformed kind bs) \<longleftrightarrow> ipv4_one kind = None \<and> cut_short 0 kind bs"
| "ipv4_proper _ \<longleftrightarrow> True"

fun ipv4_malformed :: "ipv4_option \<Rightarrow> bool" where
  "ipv4_malformed (Ipv4Malformed kind bs) \<longleftrightarrow> True"
| "ipv4_malformed _ \<longleftrightarrow> False"

definition ipv4_stops :: "ipv4_option \<Rightarrow> bool" where
  "ipv4_stops opt \<longleftrightarrow> opt = Ipv4EndOfOptions \<or> ipv4_malformed opt"

lemma ipv4_at_end: "oc_left c = [] \<Longrightarrow> \<exists>c'. ipv4_options_next c = TOk (c', None)"
  by (auto simp: ipv4_options_next_def oc_left_def split: if_splits)

lemma ipv4_single:
  assumes l: "oc_left c = k # rest" and k: "ipv4_one k = Some i"
  shows "\<exists>c'. ipv4_options_next c = TOk (c', Some i) \<and> oc_left c' = (if ipv4_stops i then [] else rest)"
  using k by (auto simp: ipv4_one_def ipv4_options_next_def ipv4_stops_def oc_left_step cursor_front [OF l] split: if_splits)

lemma ipv4_short:
  assumes l: "oc_left c = k # rest" and k: "ipv4_one k = None" "cut_short 0 k (k # rest)"
  shows "\<exists>c'. ipv4_options_next c = TOk (c', Some (Ipv4Malformed k (k # rest))) \<and> oc_left c' = []"
proof (cases rest)
  case Nil
  with k show ?thesis
    by (simp add: ipv4_one_def ipv4_options_next_def part_def byte_at_def oc_left_step cursor_front [OF l] split: if_splits)
next
  case (Cons len data)
  note [simp] = cursor_second(1) [OF l [unfolded Cons]]
  from k Cons show ?thesis
    by (auto simp: ipv4_one_def ipv4_options_next_def part_def byte_at_def cut_short_def oc_left_step cursor_front [OF l]
        split: if_splits)
qed

lemma ipv4_full:
  assumes l: "oc_left c = k # len # data @ rest" and k: "ipv4_one k = None" "0 + unat len = 2 + length data"
  shows "\<exists>c'. ipv4_options_next c = TOk (c', Some (Ipv4Option k len data)) \<and> oc_left c' = rest"
proof -
  note [simp] = cursor_front [OF l] cursor_second [OF l]
  from k show ?thesis
    by (simp add: ipv4_one_def ipv4_options_next_def part_def byte_at_def cursor_drop [OF l] split: if_splits)
qed

interpretation ipv4: tlv_iterator ipv4_options_next cursor_new oc_left ipv4_one
   Ipv4Option Ipv4Malformed 0 ipv4_wire ipv4_proper ipv4_stops ipv4_malformed
proof unfold_locales
  have ones: "ipv4_one 0 = Some Ipv4EndOfOptions" "ipv4_one 1 = Some Ipv4NoOperation"
    by (simp_all add: ipv4_one_def)
  show "(\<exists>k. ipv4_one k = Some i) \<or>
      (\<exists>k l data. ipv4_one k = None \<and> 0 + unat l = 2 + length data \<and> i = Ipv4Option k l data) \<or>
      (\<exists>k bs. ipv4_one k = None \<and> cut_short 0 k bs \<and> i = Ipv4Malformed k bs)" if "ipv4_proper i" for i
    using that ones by (cases i) (simp_all, blast+)
qed (fact oc_left_new ipv4_at_end ipv4_single ipv4_short ipv4_full | auto simp: ipv4_stops_def ipv4_one_def split: if_splits)+

section \<open>DHCP\<close>

definition dhcp_one :: "byte \<Rightarrow> dhcp_option option" where
  "dhcp_one k = (if k = 0 then Some DhcpPad else if k = 255 then Some DhcpEnd else None)"

fun dhcp_wire :: "dhcp_option \<Rightarrow> bytes" where
  "dhcp_wire DhcpPad = [0]"
| "dhcp_wire DhcpEnd = [255]"
| "dhcp_wire (DhcpOption code len data) = code # len # data"
| "dhcp_wire (DhcpMalformed code bs) = bs"

fun dhcp_proper :: "dhcp_option \<Rightarrow> bool" where
  "dhcp_proper (DhcpOption code len data) \<longleftrightarrow> dhcp_one code = None \<and> unat len = length data"
| "dhcp_proper (DhcpMalformed code bs) \<longleftrightarrow> dhcp_one code = None \<and> cut_short 2 code bs"
| "dhcp_proper _ \<longleftrightarrow> True"

fun dhcp_malformed :: "dhcp_option \<Rightarrow> bool" where
  "dhcp_malformed (DhcpMalformed code bs) \<longleftrightarrow> True"
| "dhcp_malformed _ \<longleftrightarrow> False"

definition dhcp_stops :: "dhcp_option \<Rightarrow> bool" where
  "dhcp_stops opt \<longleftrightarrow> opt = DhcpEnd \<or> dhcp_malformed opt"

lemma dhcp_at_end: "oc_left c = [] \<Longrightarrow> \<exists>c'. dhcp_options_next c = TOk (c', None)"
  by (auto simp: dhcp_options_next_def oc_left_def split: if_splits)

lemma dhcp_single:
  assumes l: "oc_left c = k # rest" and k: "dhcp_one k = Some i"
  shows "\<exists>c'. dhcp_options_next c = TOk (c', Some i) \<and> oc_left c' = (if dhcp_stops i then [] else rest)"
  using k by (auto simp: dhcp_one_def dhcp_options_next_def dhcp_stops_def oc_left_step cursor_front [OF l] split: if_splits)

lemma dhcp_short:
  assumes l: "oc_left c = k # rest" and k: "dhcp_one k = None" "cut_short 2 k (k # rest)"
  shows "\<exists>c'. dhcp_options_next c = TOk (c', Some (DhcpMalformed k (k # rest))) \<and> oc_left c' = []"
proof (cases rest)
  case Nil
  with k show ?thesis
    by (simp add: dhcp_one_def dhcp_options_next_def part_def byte_at_def oc_left_step cursor_front [OF l] split: if_splits)
next
  case (Cons len data)
  note [simp] = cursor_second(1) [OF l [unfolded Cons]]
  from k Cons show ?thesis
    by (auto simp: dhcp_one_def dhcp_options_next_def part_def byte_at_def cut_short_def oc_left_step cursor_front [OF l]
        split: if_splits)
qed

lemma dhcp_full:
  assumes l: "oc_left c = k # len # data @ rest" and k: "dhcp_one k = None" "2 + unat len = 2 + length data"
  shows "\<exists>c'. dhcp_options_next c = TOk (c', Some (DhcpOption k len data)) \<and> oc_left c' = rest"
proof -
  note [simp] = cursor_front [OF l] cursor_second [OF l]
  from k show ?thesis
    by (simp add: dhcp_one_def dhcp_options_next_def part_def byte_at_def cursor_drop [OF l] split: if_splits)
qed

interpretation dhcp: tlv_iterator dhcp_options_next cursor_new oc_left dhcp_one
   DhcpOption DhcpMalformed 2 dhcp_wire dhcp_proper dhcp_stops dhcp_malformed
proof unfold_locales
  have ones: "dhcp_one 0 = Some DhcpPad" "dhcp_one 255 = Some DhcpEnd"
    by (simp_all add: dhcp_one_def)
  show "(\<exists>k. dhcp_one k = Some i) \<or>
      (\<exists>k l data. dhcp_one k = None \<and> 2 + unat l = 2 + length data \<and> i = DhcpOption k l data) \<or>
      (\<exists>k bs. dhcp_one k = None \<and> cut_short 2 k bs \<and> i = DhcpMalformed k bs)" if "dhcp_proper i" for i
    using that ones by (cases i) (simp_all, blast+)
qed (fact oc_left_new dhcp_at_end dhcp_single dhcp_short dhcp_full | auto simp: dhcp_stops_def dhcp_one_def split: if_splits)+

section \<open>IPv6\<close>

definition ipv6_one :: "byte \<Rightarrow> ipv6_option option" where
  "ipv6_one k = (if k = 0 then Some Ipv6Pad1 else None)"

fun ipv6_wire :: "ipv6_option \<Rightarrow> bytes" where
  "ipv6_wire Ipv6Pad1 = [0]"
| "ipv6_wire (Ipv6Option kind data) = kind # word_of_nat (length data) # data"
| "ipv6_wire (Ipv6Malformed kind bs) = bs"

fun ipv6_proper :: "ipv6_option \<Rightarrow> bool" where
  "ipv6_proper (Ipv6Option kind data) \<longleftrightarrow> ipv6_one kind = None \<and> length data < 256"
| "ipv6_proper (Ipv6Malformed kind bs) \<longleftrightarrow> ipv6_one kind = None \<and> cut_short 2 kind bs"
| "ipv6_proper Ipv6Pad1 \<longleftrightarrow> True"

fun ipv6_malformed :: "ipv6_option \<Rightarrow> bool" where
  "ipv6_malformed (Ipv6Malformed kind bs) \<longleftrightarrow> True"
| "ipv6_malformed _ \<longleftrightarrow> False"

abbreviation ipv6_stops :: "ipv6_option \<Rightarrow> bool" where
  "ipv6_stops \<equiv> ipv6_malformed"

lemma ipv6_at_end: "oc_rest c = [] \<Longrightarrow> \<exists>c'. ipv6_options_next c = TOk (c', None)"
  by (auto simp: ipv6_options_next_def oc_rest_def split: if_splits)

lemma ipv6_single:
  assumes l: "oc_rest c = k # rest" and k: "ipv6_one k = Some i"
  shows "\<exists>c'. ipv6_options_next c = TOk (c', Some i) \<and> oc_rest c' = (if ipv6_stops i then [] else rest)"
  using k by (auto simp: ipv6_one_def ipv6_options_next_def oc_rest_def rest_front [OF l] split: if_splits)

lemma ipv6_short:
  assumes l: "oc_rest c = k # rest" and k: "ipv6_one k = None" "cut_short 2 k (k # rest)"
  shows "\<exists>c'. ipv6_options_next c = TOk (c', Some (Ipv6Malformed k (k # rest))) \<and> oc_rest c' = []"
proof (cases rest)
  case Nil
  with k show ?thesis
    by (simp add: ipv6_one_def ipv6_options_next_def part_def byte_at_def oc_rest_def rest_front [OF l] split: if_splits)
next
  case (Cons len data)
  note [simp] = rest_second(1) [OF l [unfolded Cons]]
  from k Cons show ?thesis
    by (auto simp: ipv6_one_def ipv6_options_next_def part_def byte_at_def cut_short_def oc_rest_def rest_front [OF l]
        split: if_splits)
qed

lemma ipv6_full:
  assumes l: "oc_rest c = k # len # data @ rest" and k: "ipv6_one k = None" "2 + unat len = 2 + length data"
  shows "\<exists>c'. ipv6_options_next c = TOk (c', Some (Ipv6Option k data)) \<and> oc_rest c' = rest"
proof -
  note [simp] = rest_front [OF l] rest_second [OF l]
  from k show ?thesis
    by (simp add: ipv6_one_def ipv6_options_next_def part_def byte_at_def rest_drop [OF l] split: if_splits)
qed

interpretation ipv6: tlv_iterator ipv6_options_next cursor_new oc_rest ipv6_one
  "\<lambda>k l data. Ipv6Option k data" Ipv6Malformed 2 ipv6_wire ipv6_proper ipv6_stops ipv6_malformed
proof unfold_locales
  have ones: "ipv6_one 0 = Some Ipv6Pad1" by (simp add: ipv6_one_def)
  have len: "\<exists>l :: byte. unat l = n" if "n < 256" for n
    using that by (intro exI [of _ "word_of_nat n"]) (simp add: unat_of_nat_less)
  show "(\<exists>k. ipv6_one k = Some i) \<or>
      (\<exists>k (l :: byte) data. ipv6_one k = None \<and> 2 + unat l = 2 + length data \<and> i = Ipv6Option k data) \<or>
      (\<exists>k bs. ipv6_one k = None \<and> cut_short 2 k bs \<and> i = Ipv6Malformed k bs)" if "ipv6_proper i" for i
    using that ones by (cases i) (simp_all, blast, use len in blast)
  fix k l :: byte and data :: bytes assume "2 + unat l = 2 + length data"
  then have "length data = unat l" by simp
  then have "word_of_nat (length data) = l" "length data < 256" by simp_all
  moreover assume "ipv6_one k = None"
  ultimately show "ipv6_wire (Ipv6Option k data) = k # l # data \<and> ipv6_proper (Ipv6Option k data) \<and>
      \<not> ipv6_malformed (Ipv6Option k data) \<and> \<not> ipv6_malformed (Ipv6Option k data)" by simp
qed (fact oc_left_new ipv6_at_end ipv6_single ipv6_short ipv6_full | auto simp: ipv6_one_def split: if_splits)+

section \<open>Lists of fixed-size records\<close>

text \<open>The whole records of \<^verbatim>\<open>k\<close> bytes in front.\<close>

definition records :: "nat \<Rightarrow> 'b list \<Rightarrow> 'b list" where
  "records k bs = take (length bs div k * k) bs"

lemma records_none: "length bs < k \<Longrightarrow> records k bs = []"
  by (simp add: records_def)

lemma records_some: "0 < k \<Longrightarrow> k \<le> length bs \<Longrightarrow> records k bs = take k bs @ records k (drop k bs)"
proof -
  assume k: "0 < k" "k \<le> length bs"
  then have "length bs div k * k = k + length (drop k bs) div k * k" by (simp add: le_div_geq)
  then show ?thesis by (simp add: records_def take_add)
qed

lemma be_word_wire:
  assumes "lo + n \<le> length data" "LENGTH('w :: len) = 8 * n"
  shows "be_bytes n (unat (be_word lo data :: 'w word)) = take n (drop lo data)"
proof -
  let ?bs = "take n (drop lo data)"
  have len: "length ?bs = n" using assms by simp
  with be_nat_bound [of ?bs] have "be_nat ?bs < 2 ^ LENGTH('w)" by (simp add: assms(2) power_mult)
  then have "unat (be_word lo data :: 'w word) = be_nat ?bs"
    by (simp add: be_word_def assms(2) unat_of_nat_less)
  then show ?thesis using be_bytes_be_nat [OF len] by simp
qed

lemma be_bytes_inj: "be_bytes n (unat (a :: 'w :: len word)) = be_bytes n (unat b) \<Longrightarrow> LENGTH('w) = 8 * n \<Longrightarrow> a = b"
proof -
  assume eq: "be_bytes n (unat a) = be_bytes n (unat b)" and l: "LENGTH('w) = 8 * n"
  have m: "unat x mod 256 ^ n = unat x" for x :: "'w word"
  proof -
    have "unat x < 2 ^ LENGTH('w)" by (rule unsigned_less)
    then show ?thesis using l by (simp add: power_mult)
  qed
  with arg_cong [OF eq, of be_nat] have "unat a = unat b" by (simp add: be_nat_be_bytes m)
  then show "a = b" by (rule unsigned_word_eqI)
qed

lemma records_step:
  assumes "records k (drop (oc_offset c) (oc_bytes c)) \<noteq> []" "0 < k"
  obtains b where "slice (oc_bytes c) (oc_offset c) (oc_offset c + k) = Some b" "length b = k"
    "records k (drop (oc_offset c) (oc_bytes c)) = b @ records k (drop (oc_offset c + k) (oc_bytes c))"
proof -
  let ?r = "drop (oc_offset c) (oc_bytes c)"
  have n: "k \<le> length ?r" using assms records_none [of ?r k] by (meson not_le)
  then show thesis
    using that [of "take k ?r"] records_some [OF assms(2) n] assms(2) by (simp add: slice_def add.commute)
qed

definition addr_wire :: "32 word \<Rightarrow> bytes" where
  "addr_wire a = be_bytes 4 (unat a)"

definition sack_wire :: "tcp_sack_block \<Rightarrow> bytes" where
  "sack_wire b = be_bytes 4 (unat (sb_left_edge b)) @ be_bytes 4 (unat (sb_right_edge b))"

interpretation addrs: option_iterator ipv4_route_addrs_next "\<lambda>c. records 4 (drop (oc_offset c) (oc_bytes c))"
  addr_wire "\<lambda>_. True" "\<lambda>_. False" "\<lambda>_. False"
proof unfold_locales
  fix c :: option_cursor assume "records 4 (drop (oc_offset c) (oc_bytes c)) \<noteq> []"
  then obtain b where b: "slice (oc_bytes c) (oc_offset c) (oc_offset c + 4) = Some b" "length b = 4"
    "records 4 (drop (oc_offset c) (oc_bytes c)) = b @ records 4 (drop (oc_offset c + 4) (oc_bytes c))"
    using records_step by (metis zero_less_numeral)
  moreover have "addr_wire (be_word 0 b) = b" using b(2) by (simp add: addr_wire_def be_word_wire)
  ultimately show "\<exists>c' i rest. ipv4_route_addrs_next c = TOk (c', Some i) \<and> True \<and>
      records 4 (drop (oc_offset c) (oc_bytes c)) = addr_wire i @ rest \<and> (False \<longrightarrow> rest = []) \<and>
      records 4 (drop (oc_offset c') (oc_bytes c')) = (if False then [] else rest)"
    by (intro exI [of _ "c\<lparr>oc_offset := oc_offset c + 4\<rparr>"] exI [of _ "be_word 0 b"])
      (simp add: ipv4_route_addrs_next_def)
next
  fix c :: option_cursor assume "records 4 (drop (oc_offset c) (oc_bytes c)) = []"
  then have "slice (oc_bytes c) (oc_offset c) (oc_offset c + 4) = None"
    by (auto simp: records_def slice_def)
  then show "\<exists>c'. ipv4_route_addrs_next c = TOk (c', None)" by (simp add: ipv4_route_addrs_next_def)
next
  fix i j :: "32 word" and r r' assume "addr_wire i @ r = addr_wire j @ r'"
  then show "i = j" by (intro be_bytes_inj [of 4]) (simp_all add: addr_wire_def append_eq_append_conv)
qed (simp add: addr_wire_def flip: length_greater_0_conv)

lemma sack_wire_blocks: "sack_wire b = sack_wire b' \<Longrightarrow> b = b'"
  by (auto simp: sack_wire_def append_eq_append_conv dest!: be_bytes_inj)

interpretation sacks: option_iterator sack_blocks_next "\<lambda>c. records 8 (drop (oc_offset c) (oc_bytes c))"
  sack_wire "\<lambda>_. True" "\<lambda>_. False" "\<lambda>_. False"
proof unfold_locales
  fix c :: option_cursor assume "records 8 (drop (oc_offset c) (oc_bytes c)) \<noteq> []"
  then obtain b where b: "slice (oc_bytes c) (oc_offset c) (oc_offset c + 8) = Some b" "length b = 8"
    "records 8 (drop (oc_offset c) (oc_bytes c)) = b @ records 8 (drop (oc_offset c + 8) (oc_bytes c))"
    using records_step by (metis zero_less_numeral)
  let ?i = "\<lparr>sb_left_edge = be_word 0 b, sb_right_edge = be_word 4 b\<rparr>"
  have "sack_wire ?i = b"
    using b(2) append_take_drop_id [of 4 b] by (simp add: sack_wire_def be_word_wire)
  with b show "\<exists>c' i rest. sack_blocks_next c = TOk (c', Some i) \<and> True \<and>
      records 8 (drop (oc_offset c) (oc_bytes c)) = sack_wire i @ rest \<and> (False \<longrightarrow> rest = []) \<and>
      records 8 (drop (oc_offset c') (oc_bytes c')) = (if False then [] else rest)"
    by (intro exI [of _ "c\<lparr>oc_offset := oc_offset c + 8\<rparr>"] exI [of _ ?i])
      (simp add: sack_blocks_next_def)
next
  fix c :: option_cursor assume "records 8 (drop (oc_offset c) (oc_bytes c)) = []"
  then have "slice (oc_bytes c) (oc_offset c) (oc_offset c + 8) = None"
    by (auto simp: records_def slice_def)
  then show "\<exists>c'. sack_blocks_next c = TOk (c', None)" by (simp add: sack_blocks_next_def)
next
  fix i j :: tcp_sack_block and r r' assume "sack_wire i @ r = sack_wire j @ r'"
  moreover have "length (sack_wire i) = length (sack_wire j)" by (simp add: sack_wire_def)
  ultimately show "i = j" by (intro sack_wire_blocks) (simp add: append_eq_append_conv)
qed (simp add: sack_wire_def flip: length_greater_0_conv)

lemma splits_records: "splits wire (\<lambda>_. True) (\<lambda>_. False) (\<lambda>_. False) bs is \<longleftrightarrow> bs = concat (map wire is)"
proof (induction "is" arbitrary: bs)
  case (Cons i "is")
  show ?case by (auto simp: Cons.IH) (metis append_take_drop_id)
qed simp

lemma sack_blocks_tile:
  assumes "sack_blocks (TcpOption kind len data) = Some c"
  shows "\<exists>bs. iter_all (Suc (length data)) sack_blocks_next c = TOk (Some bs) \<and> data = concat (map sack_wire bs)"
proof -
  from assms have c: "c = cursor_new data" "length data mod 8 = 0"
    by (auto simp: sack_blocks_def sack_blocks_parse_def split: if_splits)
  then have r: "records 8 (drop (oc_offset c) (oc_bytes c)) = data"
    by (auto simp: records_def cursor_new_def)
  then obtain bs where "iter_all (Suc (length data)) sack_blocks_next c = TOk (Some bs)"
    "splits sack_wire (\<lambda>_. True) (\<lambda>_. False) (\<lambda>_. False) data bs"
    using sacks.runs_out [of c "Suc (length data)"] by auto
  then show ?thesis by (auto simp: splits_records)
qed

lemma route_addrs_tile:
  assumes "ipv4_route_of (Ipv4Option kind len data) = Some r"
  shows "\<exists>as. iter_all (Suc (length data)) ipv4_route_addrs_next (ipv4_route_addrs r) = TOk (Some as) \<and>
    data = ro_pointer r # concat (map addr_wire as) @ ipv4_route_trailing_bytes r"
proof -
  from assms have r: "data \<noteq> []" "r = \<lparr>ro_pointer = data ! 0, ro_addrs = drop 1 data\<rparr>"
    by (auto simp: ipv4_route_parse_def split: if_splits)
  let ?bs = "drop 1 data" and ?c = "ipv4_route_addrs r"
  have c: "records 4 (drop (oc_offset ?c) (oc_bytes ?c)) = records 4 ?bs"
    using r by (simp add: ipv4_route_addrs_def cursor_new_def)
  have "length (records 4 ?bs) < Suc (length data)" by (simp add: records_def)
  with addrs.runs_out [of ?c "Suc (length data)"] c obtain as where
    "iter_all (Suc (length data)) ipv4_route_addrs_next ?c = TOk (Some as)"
    "records 4 ?bs = concat (map addr_wire as)"
    by (auto simp: splits_records)
  moreover have "?bs = records 4 ?bs @ ipv4_route_trailing_bytes r"
  proof -
    have "drop (length ?bs div 4 * 4) ?bs = ipv4_route_trailing_bytes r"
      using r by (simp add: ipv4_route_trailing_bytes_def Let_def minus_mod_eq_div_mult flip: minus_mod_eq_div_mult)
    with append_take_drop_id [of "length ?bs div 4 * 4" ?bs] show ?thesis by (simp only: records_def)
  qed
  ultimately show ?thesis using r by (cases data) auto
qed

section \<open>Options\<close>

lemmas only_splits = tcp.only_split ipv4.only_split ipv6.only_split dhcp.only_split

text \<open>C19: 
  C1: iterating over the TCP, IPv4, IPv6 or DHCP options of any bytes ends and never panics, and what
  it yields is the only splitting of the bytes into options: each option has a length that matches
  its data, the wire forms follow each other without a gap, and the splitting stops only at the end
  of the bytes, at an end marker, or at a rest that no kind, length and data can be read from.
\<close>

theorem options_split_uniquely:
  "(\<exists>is. iter_all (Suc (length bs)) tcp_options_next (cursor_new bs) = TOk (Some is) \<and>
      (\<forall>js. splits tcp_wire tcp_proper tcp_stops tcp_malformed bs js \<longleftrightarrow> js = is)) \<and>
   (\<exists>is. iter_all (Suc (length bs)) ipv4_options_next (cursor_new bs) = TOk (Some is) \<and>
      (\<forall>js. splits ipv4_wire ipv4_proper ipv4_stops ipv4_malformed bs js \<longleftrightarrow> js = is)) \<and>
   (\<exists>is. iter_all (Suc (length bs)) ipv6_options_next (cursor_new bs) = TOk (Some is) \<and>
      (\<forall>js. splits ipv6_wire ipv6_proper ipv6_stops ipv6_malformed bs js \<longleftrightarrow> js = is)) \<and>
   (\<exists>is. iter_all (Suc (length bs)) dhcp_options_next (cursor_new bs) = TOk (Some is) \<and>
      (\<forall>js. splits dhcp_wire dhcp_proper dhcp_stops dhcp_malformed bs js \<longleftrightarrow> js = is))"
  using only_splits [of "cursor_new bs"] by simp

text \<open>The example of the tests of \<^verbatim>\<open>tcp/option.rs\<close>, shortened.\<close>

lemma tcp_options_example:
  "iter_all 20 tcp_options_next (cursor_new [2, 4, 5, 0xb4, 3, 3, 7, 1, 4, 2, 0]) =
    TOk (Some [TcpOption 2 4 [5, 0xb4], TcpOption 3 3 [7], TcpNoOperation, TcpOption 4 2 [], TcpEndOfOptions]) \<and>
   maximum_segment_size (TcpOption 2 4 [5, 0xb4]) = Some 1460 \<and> window_scale (TcpOption 3 3 [7]) = Some 7 \<and>
   sack_permitted (TcpOption 4 2 [])"
  by code_simp

end
