(* ===== verification/Capinfo.thy ===== *)
theory Capinfo
  imports Splitcap Flow_Meter "HOL-Library.Product_Lexorder"
begin

text \<open>
  The capture information tool (\<^verbatim>\<open>tools/maja-capinfo/src\<close>): the metadata of a packet and its
  export in batches (\<^verbatim>\<open>main.rs\<close>, \<^verbatim>\<open>metadata.rs\<close>), the statistics of a capture
  (\<^verbatim>\<open>analysis.rs\<close>), the statistics per interval (\<^verbatim>\<open>interval.rs\<close>), the reader that feeds the
  hashers (\<^verbatim>\<open>hash.rs\<close>) and the numbers of the report (\<^verbatim>\<open>report.rs\<close>).  A hash map is the
  list of its entries.  The totals are \<^verbatim>\<open>u64\<close>, which 2^32 packets are needed to overflow, so they
  are natural numbers; \<^verbatim>\<open>f64\<close> is a parameter.
\<close>

section \<open>Floating point\<close>

record 'f info_floats = "'f floats" +
  f_add :: "'f \<Rightarrow> 'f \<Rightarrow> 'f"
  f_mul :: "'f \<Rightarrow> 'f \<Rightarrow> 'f"

section \<open>Metadata of a packet\<close>

record packet_metadata =
  pm_timestamp :: int
  pm_length :: "32 word"
  pm_eth_type :: "16 word"
  pm_src_ip :: "ip_addr option"
  pm_dst_ip :: "ip_addr option"
  pm_ip_proto :: "byte option"
  pm_tos :: "byte option"
  pm_ttl :: "byte option"
  pm_total_length :: "16 word option"
  pm_src_port :: "16 word option"
  pm_dst_port :: "16 word option"
  pm_tcp_flags :: "byte option"
  pm_tcp_window :: "16 word option"
  pm_tcp_data_offset :: "byte option"
  pm_udp_length :: "16 word option"
  pm_ipv6_payload_length :: "16 word option"

definition metadata_default :: packet_metadata where
  "metadata_default =
    \<lparr>pm_timestamp = 0, pm_length = 0, pm_eth_type = 0, pm_src_ip = None, pm_dst_ip = None,
     pm_ip_proto = None, pm_tos = None, pm_ttl = None, pm_total_length = None, pm_src_port = None,
     pm_dst_port = None, pm_tcp_flags = None, pm_tcp_window = None, pm_tcp_data_offset = None,
     pm_udp_length = None, pm_ipv6_payload_length = None\<rparr>"

text \<open>Accessors the tool reads.\<close>

definition eth_type_raw :: "bytes \<Rightarrow> 16 word option" where
  "eth_type_raw hdr = view_raw 12 14 whole hdr"

definition sll_protocol_type_raw :: "bytes \<Rightarrow> 16 word option" where
  "sll_protocol_type_raw hdr = view_raw 14 16 whole hdr"

definition ipv4_tos :: "bytes \<Rightarrow> byte option" where
  "ipv4_tos hdr = view_raw 1 2 whole hdr"

definition ipv4_ttl :: "bytes \<Rightarrow> byte option" where
  "ipv4_ttl hdr = view_raw 8 9 whole hdr"

definition ipv6_traffic_class :: "bytes \<Rightarrow> byte option" where
  "ipv6_traffic_class hdr = map_option (\<lambda>w :: 16 word. ucast w) (view_raw 0 2 (FSpec 0x0FF0 4) hdr)"

definition ipv6_hop_limit :: "bytes \<Rightarrow> byte option" where
  "ipv6_hop_limit hdr = view_raw 7 8 whole hdr"

definition tcp_data_offset :: "bytes \<Rightarrow> byte option" where
  "tcp_data_offset hdr = view_raw 12 13 (FSpec 0xF0 4) hdr"

definition extract_eth_type :: "packet \<Rightarrow> packet_metadata \<Rightarrow> packet_metadata tool_result" where
  "extract_eth_type pkt m =
    t_bind (layer_viewer pkt Eth) (\<lambda>eth. case eth of
      Some hdr \<Rightarrow> t_bind (fetch (eth_type_raw hdr)) (\<lambda>ty. TOk (m\<lparr>pm_eth_type := ty\<rparr>))
    | None \<Rightarrow>
        t_bind (layer_viewer pkt Sll) (\<lambda>sll. case sll of
          Some hdr \<Rightarrow> t_bind (fetch (sll_protocol_type_raw hdr)) (\<lambda>ty. TOk (m\<lparr>pm_eth_type := ty\<rparr>))
        | None \<Rightarrow> TOk m))"

text \<open>The second component is what is added to \<^verbatim>\<open>total_l3_bytes\<close>.\<close>

definition extract_network :: "packet \<Rightarrow> packet_metadata \<Rightarrow> (packet_metadata \<times> nat) tool_result" where
  "extract_network pkt m =
    t_bind (layer_viewer pkt Ipv4) (\<lambda>v4. case v4 of
      Some hdr \<Rightarrow>
        t_bind (fetch (ipv4_total_length hdr)) (\<lambda>total_length.
        t_bind (fetch (ipv4_src hdr)) (\<lambda>src.
        t_bind (fetch (ipv4_dst hdr)) (\<lambda>dst.
        t_bind (fetch (ipv4_protocol hdr)) (\<lambda>protocol.
        t_bind (fetch (ipv4_tos hdr)) (\<lambda>tos.
        t_bind (fetch (ipv4_ttl hdr)) (\<lambda>ttl.
        TOk (m\<lparr>pm_src_ip := Some (V4 src), pm_dst_ip := Some (V4 dst), pm_ip_proto := Some protocol,
               pm_tos := Some tos, pm_ttl := Some ttl, pm_total_length := Some total_length\<rparr>,
             unat total_length)))))))
    | None \<Rightarrow>
        t_bind (layer_viewer pkt Ipv6) (\<lambda>v6. case v6 of
          Some hdr \<Rightarrow>
            t_bind (fetch (ipv6_payload_length hdr)) (\<lambda>payload_length.
            t_bind (fetch (ipv6_src hdr)) (\<lambda>src.
            t_bind (fetch (ipv6_dst hdr)) (\<lambda>dst.
            t_bind (fetch (ipv6_next_header hdr)) (\<lambda>next_header.
            t_bind (fetch (ipv6_traffic_class hdr)) (\<lambda>traffic_class.
            t_bind (fetch (ipv6_hop_limit hdr)) (\<lambda>hop_limit.
            TOk (m\<lparr>pm_src_ip := Some (V6 src), pm_dst_ip := Some (V6 dst), pm_ip_proto := Some next_header,
                   pm_tos := Some traffic_class, pm_ttl := Some hop_limit,
                   pm_ipv6_payload_length := Some payload_length\<rparr>,
                 unat payload_length + 40)))))))
        | None \<Rightarrow> TOk (m, 0)))"

definition extract_transport :: "packet \<Rightarrow> packet_metadata \<Rightarrow> packet_metadata tool_result" where
  "extract_transport pkt m =
    t_bind (layer_viewer pkt Tcp) (\<lambda>tcp. case tcp of
      Some hdr \<Rightarrow>
        t_bind (fetch (tcp_src_port hdr)) (\<lambda>src_port.
        t_bind (fetch (tcp_dst_port hdr)) (\<lambda>dst_port.
        t_bind (fetch (tcp_flags hdr)) (\<lambda>flags.
        t_bind (fetch (tcp_window_size hdr)) (\<lambda>window.
        t_bind (fetch (tcp_data_offset hdr)) (\<lambda>data_offset.
        TOk (m\<lparr>pm_ip_proto := Some ip_tcp, pm_src_port := Some src_port, pm_dst_port := Some dst_port,
               pm_tcp_flags := Some flags, pm_tcp_window := Some window,
               pm_tcp_data_offset := Some data_offset\<rparr>))))))
    | None \<Rightarrow>
        t_bind (layer_viewer pkt Udp) (\<lambda>udp. case udp of
          Some hdr \<Rightarrow>
            t_bind (fetch (udp_src_port hdr)) (\<lambda>src_port.
            t_bind (fetch (udp_dst_port hdr)) (\<lambda>dst_port.
            t_bind (fetch (udp_length hdr)) (\<lambda>len.
            TOk (m\<lparr>pm_ip_proto := Some ip_udp, pm_src_port := Some src_port, pm_dst_port := Some dst_port,
                   pm_udp_length := Some len\<rparr>))))
        | None \<Rightarrow> TOk m))"

definition extract_packet_metadata :: "packet \<Rightarrow> packet_metadata \<Rightarrow> (packet_metadata \<times> nat) tool_result" where
  "extract_packet_metadata pkt m =
    t_bind (extract_eth_type pkt m) (\<lambda>m.
    t_bind (extract_network pkt m) (\<lambda>(m, l3_bytes).
    if pm_src_ip m \<noteq> None then t_bind (extract_transport pkt m) (\<lambda>m. TOk (m, l3_bytes))
    else TOk (m, l3_bytes)))"

section \<open>Statistics of a capture\<close>

record running_traffic =
  rt_count :: nat
  rt_bytes :: nat

definition traffic_default :: running_traffic where
  "traffic_default = \<lparr>rt_count = 0, rt_bytes = 0\<rparr>"

definition traffic_update :: "32 word \<Rightarrow> running_traffic \<Rightarrow> running_traffic" where
  "traffic_update len t = \<lparr>rt_count = rt_count t + 1, rt_bytes = rt_bytes t + unat len\<rparr>"

record 'f length_stats =
  ls_count :: nat
  ls_mean :: 'f
  ls_m2 :: 'f
  ls_min :: "32 word"
  ls_max :: "32 word"

definition length_default :: "'f info_floats \<Rightarrow> 'f length_stats" where
  "length_default F =
    \<lparr>ls_count = 0, ls_mean = f_of_int F 0, ls_m2 = f_of_int F 0, ls_min = - 1, ls_max = 0\<rparr>"

definition length_update :: "'f info_floats \<Rightarrow> 32 word \<Rightarrow> 'f length_stats \<Rightarrow> 'f length_stats" where
  "length_update F v s =
    (let n = ls_count s + 1; x = f_of_int F (uint v);
         delta = f_sub F x (ls_mean s);
         mean = f_add F (ls_mean s) (f_div F delta (f_of_int F (int n)));
         delta2 = f_sub F x mean
     in \<lparr>ls_count = n, ls_mean = mean, ls_m2 = f_add F (ls_m2 s) (f_mul F delta delta2),
         ls_min = min (ls_min s) v, ls_max = max (ls_max s) v\<rparr>)"

definition length_variance :: "'f info_floats \<Rightarrow> 'f length_stats \<Rightarrow> nat \<Rightarrow> 'f" where
  "length_variance F s ddof =
    (if ls_count s \<le> ddof then f_of_int F 0
     else f_div F (ls_m2 s) (f_of_int F (int (ls_count s - ddof))))"

definition length_std_dev :: "'f info_floats \<Rightarrow> 'f length_stats \<Rightarrow> nat \<Rightarrow> 'f" where
  "length_std_dev F s ddof = f_sqrt F (length_variance F s ddof)"

definition length_min :: "'f length_stats \<Rightarrow> 32 word" where
  "length_min s = (if ls_count s = 0 then 0 else ls_min s)"

definition length_max :: "'f length_stats \<Rightarrow> 32 word" where
  "length_max s = (if ls_count s = 0 then 0 else ls_max s)"

record 'f capture_stats =
  ct_total_packets :: nat
  ct_total_l2_bytes :: nat
  ct_total_l3_bytes :: nat
  ct_empty_packets :: nat
  ct_errors :: nat
  ct_first_timestamp :: "int option"
  ct_last_timestamp :: "int option"
  ct_is_ordered :: bool
  ct_lengths :: "'f length_stats"
  ct_tcp_count :: nat
  ct_udp_count :: nat
  ct_flow_set :: "flow_id set"
  ct_src_ip_traffic :: "(ip_addr \<times> running_traffic) list"
  ct_dst_ip_traffic :: "(ip_addr \<times> running_traffic) list"
  ct_src_port_traffic :: "(16 word \<times> running_traffic) list"
  ct_dst_port_traffic :: "(16 word \<times> running_traffic) list"

definition stats_default :: "'f info_floats \<Rightarrow> 'f capture_stats" where
  "stats_default F =
    \<lparr>ct_total_packets = 0, ct_total_l2_bytes = 0, ct_total_l3_bytes = 0, ct_empty_packets = 0, ct_errors = 0,
     ct_first_timestamp = None, ct_last_timestamp = None, ct_is_ordered = True,
     ct_lengths = length_default F, ct_tcp_count = 0, ct_udp_count = 0, ct_flow_set = {},
     ct_src_ip_traffic = [], ct_dst_ip_traffic = [], ct_src_port_traffic = [], ct_dst_port_traffic = []\<rparr>"

definition update_with_packet :: "int \<Rightarrow> 32 word \<Rightarrow> 'f capture_stats \<Rightarrow> 'f capture_stats" where
  "update_with_packet t len s =
    s\<lparr>ct_total_packets := ct_total_packets s + 1,
      ct_total_l2_bytes := ct_total_l2_bytes s + unat len,
      ct_is_ordered :=
        (if (case ct_last_timestamp s of Some l \<Rightarrow> t < l | None \<Rightarrow> False) then False else ct_is_ordered s),
      ct_first_timestamp := Some (case ct_first_timestamp s of Some f \<Rightarrow> min f t | None \<Rightarrow> t),
      ct_last_timestamp := Some (case ct_last_timestamp s of Some l \<Rightarrow> max l t | None \<Rightarrow> t)\<rparr>"

definition info_flow_id :: "packet_metadata \<Rightarrow> flow_id option" where
  "info_flow_id m =
    Option.bind (pm_src_ip m) (\<lambda>src.
    Option.bind (pm_dst_ip m) (\<lambda>dst.
    Option.bind (pm_ip_proto m) (\<lambda>protocol.
    if protocol = ip_tcp \<or> protocol = ip_udp then
      Option.bind (pm_src_port m) (\<lambda>src_port.
      Option.bind (pm_dst_port m) (\<lambda>dst_port.
      Some (flow_of_tuple5 True src dst src_port dst_port protocol)))
    else Some (flow_of_tuple3 True src dst protocol))))"

text \<open>\<^verbatim>\<open>unwrap_or(0)\<close>.\<close>

definition or_zero :: "'w :: len word option \<Rightarrow> 'w word" where
  "or_zero x = (case x of Some v \<Rightarrow> v | None \<Rightarrow> 0)"

definition count_traffic ::
    "32 word \<Rightarrow> 'k option \<Rightarrow> ('k \<times> running_traffic) list \<Rightarrow> ('k \<times> running_traffic) list" where
  "count_traffic len k m =
    (case k of Some k \<Rightarrow> entry_or traffic_default (traffic_update len) k m | None \<Rightarrow> m)"

definition update_with_metadata :: "'f info_floats \<Rightarrow> packet_metadata \<Rightarrow> 'f capture_stats \<Rightarrow> 'f capture_stats" where
  "update_with_metadata F m s =
    s\<lparr>ct_lengths := length_update F (pm_length m) (ct_lengths s),
      ct_src_ip_traffic := count_traffic (pm_length m) (pm_src_ip m) (ct_src_ip_traffic s),
      ct_dst_ip_traffic := count_traffic (pm_length m) (pm_dst_ip m) (ct_dst_ip_traffic s),
      ct_src_port_traffic := count_traffic (pm_length m) (Some (or_zero (pm_src_port m))) (ct_src_port_traffic s),
      ct_dst_port_traffic := count_traffic (pm_length m) (Some (or_zero (pm_dst_port m))) (ct_dst_port_traffic s),
      ct_tcp_count := (if pm_ip_proto m = Some 6 then ct_tcp_count s + 1 else ct_tcp_count s),
      ct_udp_count := (if pm_ip_proto m = Some 17 then ct_udp_count s + 1 else ct_udp_count s),
      ct_flow_set := (case info_flow_id m of Some f \<Rightarrow> insert f (ct_flow_set s) | None \<Rightarrow> ct_flow_set s)\<rparr>"

text \<open>\<^verbatim>\<open>k_largest_by\<close>: the largest first; the keys of a map differ, so there are no ties.\<close>

definition top_items :: "('k :: linorder \<times> running_traffic) list \<Rightarrow> nat \<Rightarrow> ('k \<times> running_traffic) list" where
  "top_items traffic limit =
    take limit (sort_key (\<lambda>(k, t). (- int (rt_count t), - int (rt_bytes t), k)) traffic)"

section \<open>Statistics per interval\<close>

record interval_bucket =
  ib_total_packets :: nat
  ib_total_l2_bytes :: nat
  ib_src_ips :: "ip_addr set"
  ib_dst_ips :: "ip_addr set"
  ib_flows :: "flow_id set"

definition bucket_default :: interval_bucket where
  "bucket_default = \<lparr>ib_total_packets = 0, ib_total_l2_bytes = 0, ib_src_ips = {}, ib_dst_ips = {}, ib_flows = {}\<rparr>"

record interval_stats =
  iv_interval_ns :: "64 word"
  iv_buckets :: "(int \<times> interval_bucket) list"

definition interval_stats_new :: "64 word \<Rightarrow> interval_stats" where
  "interval_stats_new n = \<lparr>iv_interval_ns = n, iv_buckets = []\<rparr>"

text \<open>\<^verbatim>\<open>entry\<close>, \<^verbatim>\<open>or_default\<close> and an update, of a \<^verbatim>\<open>BTreeMap\<close>: the entries are sorted.\<close>

fun btree_or :: "'v \<Rightarrow> ('v \<Rightarrow> 'v) \<Rightarrow> 'k :: linorder \<Rightarrow> ('k \<times> 'v) list \<Rightarrow> ('k \<times> 'v) list" where
  "btree_or d f k [] = [(k, f d)]"
| "btree_or d f k ((k', v) # m) =
    (if k = k' then (k', f v) # m
     else if k < k' then (k, f d) # (k', v) # m
     else (k', v) # btree_or d f k m)"

definition rem_euclid :: "int \<Rightarrow> int \<Rightarrow> int" where
  "rem_euclid a b = a mod \<bar>b\<bar>"

text \<open>\<^verbatim>\<open>as i64\<close> keeps every width that the command line accepts.\<close>

definition bucket_start :: "64 word \<Rightarrow> int \<Rightarrow> int" where
  "bucket_start n t =
    (let remainder = rem_euclid t (sint n)
     in if in_i64 (t - remainder) then t - remainder else - (2 ^ 63))"

definition bucket_mut :: "int \<Rightarrow> (interval_bucket \<Rightarrow> interval_bucket) \<Rightarrow> interval_stats \<Rightarrow> interval_stats" where
  "bucket_mut t f s =
    s\<lparr>iv_buckets := btree_or bucket_default f (bucket_start (iv_interval_ns s) t) (iv_buckets s)\<rparr>"

definition interval_with_packet :: "int \<Rightarrow> 32 word \<Rightarrow> interval_stats \<Rightarrow> interval_stats" where
  "interval_with_packet t len s =
    bucket_mut t (\<lambda>b. b\<lparr>ib_total_packets := ib_total_packets b + 1,
                        ib_total_l2_bytes := ib_total_l2_bytes b + unat len\<rparr>) s"

definition interval_with_metadata :: "packet_metadata \<Rightarrow> interval_stats \<Rightarrow> interval_stats" where
  "interval_with_metadata m s =
    bucket_mut (pm_timestamp m)
      (\<lambda>b. b\<lparr>ib_src_ips := ib_src_ips b \<union> set_option (pm_src_ip m),
             ib_dst_ips := ib_dst_ips b \<union> set_option (pm_dst_ip m),
             ib_flows := ib_flows b \<union> set_option (info_flow_id m)\<rparr>) s"

record interval_snapshot =
  ip_start :: int
  ip_end_exclusive :: int
  ip_total_packets :: nat
  ip_total_l2_bytes :: nat
  ip_unique_src_ips :: nat
  ip_unique_dst_ips :: nat
  ip_unique_flows :: nat

definition snapshots :: "interval_stats \<Rightarrow> interval_snapshot list" where
  "snapshots s =
    map (\<lambda>(start, b).
      \<lparr>ip_start = start, ip_end_exclusive = saturating_add_i64 start (sint (iv_interval_ns s)),
       ip_total_packets = ib_total_packets b, ip_total_l2_bytes = ib_total_l2_bytes b,
       ip_unique_src_ips = card (ib_src_ips b), ip_unique_dst_ips = card (ib_dst_ips b),
       ip_unique_flows = card (ib_flows b)\<rparr>) (iv_buckets s)"

section \<open>Export of the metadata\<close>

datatype dump_format = DumpCsv | DumpParquet

definition dump_extension :: "dump_format \<Rightarrow> string" where
  "dump_extension f = (case f of DumpCsv \<Rightarrow> ''csv'' | DumpParquet \<Rightarrow> ''parquet'')"

datatype cell = CellInt int | CellText string | CellNull

definition cell_of :: "'w :: len word option \<Rightarrow> cell" where
  "cell_of x = (case x of Some v \<Rightarrow> CellInt (uint v) | None \<Rightarrow> CellNull)"

definition numeric_ip :: "ip_addr option \<Rightarrow> 32 word option \<times> 128 word option" where
  "numeric_ip a =
    (case a of Some (V4 a) \<Rightarrow> (Some a, None) | Some (V6 a) \<Rightarrow> (None, Some a) | None \<Rightarrow> (None, None))"

definition addr_cell :: "(128 word \<Rightarrow> string) \<Rightarrow> ip_addr option \<Rightarrow> cell" where
  "addr_cell v6 a = (case a of Some a \<Rightarrow> CellText (show_ip v6 a) | None \<Rightarrow> CellNull)"

definition dump_columns :: "bool \<Rightarrow> string list" where
  "dump_columns numeric =
    [''timestamp'', ''length'', ''eth_type'', ''src_ip'', ''dst_ip'', ''ip_proto'', ''tos'', ''ttl'',
     ''total_length'', ''src_port'', ''dst_port'', ''tcp_flags'', ''tcp_window'', ''tcp_data_offset'',
     ''udp_length'', ''ipv6_payload_length''] @
    (if numeric then [''src_ip4'', ''dst_ip4'', ''src_ip6'', ''dst_ip6''] else [])"

text \<open>One row of a data frame: what a push adds to every column.\<close>

definition dump_row :: "(128 word \<Rightarrow> string) \<Rightarrow> bool \<Rightarrow> packet_metadata \<Rightarrow> cell list" where
  "dump_row v6 numeric m =
    [CellInt (pm_timestamp m), CellInt (uint (pm_length m)), CellInt (uint (pm_eth_type m)),
     addr_cell v6 (pm_src_ip m), addr_cell v6 (pm_dst_ip m), CellInt (uint (or_zero (pm_ip_proto m))),
     CellInt (uint (or_zero (pm_tos m))), CellInt (uint (or_zero (pm_ttl m))),
     CellInt (uint (or_zero (pm_total_length m))), CellInt (uint (or_zero (pm_src_port m))),
     CellInt (uint (or_zero (pm_dst_port m))), CellInt (uint (or_zero (pm_tcp_flags m))),
     CellInt (uint (or_zero (pm_tcp_window m))), CellInt (uint (or_zero (pm_tcp_data_offset m))),
     CellInt (uint (or_zero (pm_udp_length m))), CellInt (uint (or_zero (pm_ipv6_payload_length m)))] @
    (if numeric then
       [cell_of (fst (numeric_ip (pm_src_ip m))), cell_of (fst (numeric_ip (pm_dst_ip m))),
        cell_of (snd (numeric_ip (pm_src_ip m))), cell_of (snd (numeric_ip (pm_dst_ip m)))]
     else [])"

text \<open>The data frames handed to the batch writer of \<^verbatim>\<open>polars\<close> are the third component.\<close>

record metadata_dumper =
  dm_batch :: "packet_metadata list"
  dm_batch_size :: nat
  dm_written :: "packet_metadata list list"

definition dumper_new :: "nat \<Rightarrow> metadata_dumper" where
  "dumper_new batch_size = \<lparr>dm_batch = [], dm_batch_size = batch_size, dm_written = []\<rparr>"

definition dumper_flush :: "metadata_dumper \<Rightarrow> metadata_dumper" where
  "dumper_flush d =
    (if length (dm_batch d) = 0 then d
     else d\<lparr>dm_batch := [], dm_written := dm_written d @ [dm_batch d]\<rparr>)"

definition dumper_push :: "packet_metadata \<Rightarrow> metadata_dumper \<Rightarrow> metadata_dumper" where
  "dumper_push m d =
    (let d = d\<lparr>dm_batch := dm_batch d @ [m]\<rparr>
     in if length (dm_batch d) = dm_batch_size d then dumper_flush d else d)"

definition dumper_finish :: "metadata_dumper \<Rightarrow> packet_metadata list list" where
  "dumper_finish d = dm_written (dumper_flush d)"

section \<open>Analysing a capture\<close>

record 'f info_state =
  in_stats :: "'f capture_stats"
  in_intervals :: "interval_stats option"
  in_dumper :: "metadata_dumper option"

text \<open>The body of the loop for a packet the reader yielded.\<close>

definition analyze_packet ::
    "'f info_floats \<Rightarrow> (parsers \<Rightarrow> nat \<Rightarrow> parse_fn) \<Rightarrow> registry \<Rightarrow> packet_record \<Rightarrow> 'f info_state \<Rightarrow>
     'f info_state tool_result" where
  "analyze_packet F ext reg r s =
    (let s = s\<lparr>in_stats := update_with_packet (pr_timestamp r) (pr_original_length r) (in_stats s),
               in_intervals := map_option (interval_with_packet (pr_timestamp r) (pr_original_length r)) (in_intervals s)\<rparr>;
         m = metadata_default\<lparr>pm_timestamp := pr_timestamp r, pm_length := pr_original_length r\<rparr>
     in if pr_data r = [] then
          TOk (s\<lparr>in_stats := (in_stats s)\<lparr>ct_empty_packets := ct_empty_packets (in_stats s) + 1\<rparr>\<rparr>)
        else
          (case try_parse_with_link_type ext reg (pr_link_type r) default_options (new_packet (pr_data r)) of
             (_, Failed e) \<Rightarrow> TOk s
           | (pkt, Done) \<Rightarrow>
               t_bind (extract_packet_metadata pkt m) (\<lambda>(m, l3_bytes).
               let st = (in_stats s)\<lparr>ct_total_l3_bytes := ct_total_l3_bytes (in_stats s) + l3_bytes\<rparr> in
               TOk (s\<lparr>in_stats := update_with_metadata F m st,
                      in_intervals := map_option (interval_with_metadata m) (in_intervals s),
                      in_dumper := map_option (dumper_push m) (in_dumper s)\<rparr>))
           | _ \<Rightarrow> TPanic))"

definition count_error :: "'f info_state \<Rightarrow> 'f info_state" where
  "count_error s = s\<lparr>in_stats := (in_stats s)\<lparr>ct_errors := ct_errors (in_stats s) + 1\<rparr>\<rparr>"

text \<open>
  An error of the reader is counted and the loop goes on, so the loop ends only because every error
  has consumed something of the input.
\<close>

lemma pcap_error_shrinks:
  "pcap_reader_next_packet r = (r', CErr e) \<Longrightarrow> length (pr_source r') < length (pr_source r)"
  by (auto simp: pcap_reader_next_packet_def pcap_read_packet_raw_def read_exact_Some read_exact_def c_bind_def
      split: prod.splits option.splits cresult.splits if_splits)

lemma read_block_rest_le:
  "read_block_rest r lb buf e bt = (r', x) \<Longrightarrow> length (ng_source r') \<le> length (ng_source r)"
  by (auto simp: read_block_rest_def read_exact_def split: option.splits if_splits)

lemma read_next_block_error:
  "read_next_block r = (r', CErr e) \<Longrightarrow> length (ng_source r') < length (ng_source r)"
  by (auto simp: read_next_block_def read_exact_def dest!: read_block_rest_le
      split: prod.splits option.splits if_splits)

lemma pcapng_error_shrinks:
  "pcapng_next_packet r = (r', CErr e) \<Longrightarrow> length (ng_source r') < length (ng_source r)"
proof (induction "length (ng_source r)" arbitrary: r rule: less_induct)
  case (less r0)
  obtain r1 res where read: "read_next_block r0 = (r1, res)" by fastforce
  show ?case
  proof (cases "\<exists>bt block. res = COk (Some (bt, block))")
    case True
    then obtain bt block where res: "res = COk (Some (bt, block))" by blast
    have len: "length (ng_source r1) < length (ng_source r0)" using read_next_block_shrinks [of r0 r1] read res by fastforce
    have IH: "length (ng_source r') < length (ng_source r0)"
      if "pcapng_next_packet r2 = (r', CErr e)" "ng_source r2 = ng_source r1" for r2
      using less.hyps [of r2] that len by simp
    note step = less.prems [unfolded pcapng_next_packet.simps [of r0] read res, simplified]
    show ?thesis
    proof (cases bt)
      case BtSectionHeader
      then show ?thesis using step len by (auto split: cresult.splits intro: IH)
    next
      case BtInterfaceDescription
      then show ?thesis using step len by (auto split: cresult.splits intro: IH)
    qed (use step len in \<open>auto intro: IH\<close>)
  next
    case False
    with less.prems read have "res = CErr e \<and> r1 = r'"
      by (auto simp: pcapng_next_packet.simps [of r0] split: cresult.splits option.splits)
    with read read_next_block_error show ?thesis by blast
  qed
qed

lemma sniffed_error_shrinks:
  "sniffed_next_packet r = (r', CErr e) \<Longrightarrow> sniffed_left r' < sniffed_left r"
  by (cases r) (auto simp: apfst_def map_prod_def split: prod.splits dest: pcap_error_shrinks pcapng_error_shrinks)

function analyze_loop ::
    "'f info_floats \<Rightarrow> (parsers \<Rightarrow> nat \<Rightarrow> parse_fn) \<Rightarrow> registry \<Rightarrow> sniffed_reader \<Rightarrow> 'f info_state \<Rightarrow>
     (sniffed_reader \<times> 'f info_state) tool_result" where
  "analyze_loop F ext reg r s =
    (case sniffed_next_packet r of
       (r', COk (Some x)) \<Rightarrow> t_bind (analyze_packet F ext reg x s) (analyze_loop F ext reg r')
     | (r', COk None) \<Rightarrow> TOk (r', s)
     | (r', CErr e) \<Rightarrow> analyze_loop F ext reg r' (count_error s)
     | (_, CPanic) \<Rightarrow> TPanic)"
  by pat_completeness auto
termination
  by (relation "measure (\<lambda>(F, ext, reg, r, s). sniffed_left r)")
    (auto dest: sniffed_next_shrinks [OF sym] sniffed_error_shrinks [OF sym])

declare analyze_loop.simps [simp del]

section \<open>The report\<close>

definition average :: "'f info_floats \<Rightarrow> nat \<Rightarrow> nat \<Rightarrow> 'f" where
  "average F amount n = (if n = 0 then f_of_int F 0 else f_div F (f_of_int F (int amount)) (f_of_int F (int n)))"

definition rate :: "'f info_floats \<Rightarrow> nat \<Rightarrow> 'f \<Rightarrow> 'f" where
  "rate F amount duration =
    (if f_le F duration (f_of_int F 0) then f_of_int F 0 else f_div F (f_of_int F (int amount)) duration)"

record 'f packet_statistics =
  ps_total_packets :: nat
  ps_total_l2_bytes :: nat
  ps_average_l2_length_bytes :: 'f
  ps_total_l3_bytes :: nat
  ps_average_l3_length_bytes :: 'f
  ps_empty_packets :: nat
  ps_errors :: nat
  ps_ordered :: bool
  ps_first_packet_timestamp_ns :: "int option"
  ps_last_packet_timestamp_ns :: "int option"
  ps_duration_seconds :: 'f
  ps_packets_per_second :: 'f
  ps_bytes_per_second :: 'f

record 'f aggregated_statistics =
  as_mean_bytes :: 'f
  as_sample_std_dev_bytes :: 'f
  as_min_bytes :: "32 word"
  as_max_bytes :: "32 word"
  as_unique_src_ips :: nat
  as_unique_dst_ips :: nat
  as_tcp_packets :: nat
  as_udp_packets :: nat
  as_unique_src_ports :: nat
  as_unique_dst_ports :: nat
  as_unique_flows :: nat

record top_statistics =
  tp_limit :: nat
  tp_src_ips :: "(ip_addr \<times> running_traffic) list"
  tp_dst_ips :: "(ip_addr \<times> running_traffic) list"
  tp_src_ports :: "(16 word \<times> running_traffic) list"
  tp_dst_ports :: "(16 word \<times> running_traffic) list"

definition duration_seconds :: "'f info_floats \<Rightarrow> 'f capture_stats \<Rightarrow> 'f" where
  "duration_seconds F s =
    (case (ct_first_timestamp s, ct_last_timestamp s) of
       (Some first, Some last') \<Rightarrow> f_div F (f_of_int F (last' - first)) (f_of_int F 1000000000)
     | _ \<Rightarrow> f_of_int F 0)"

definition packet_statistics_of :: "'f info_floats \<Rightarrow> 'f capture_stats \<Rightarrow> 'f packet_statistics" where
  "packet_statistics_of F s =
    \<lparr>ps_total_packets = ct_total_packets s, ps_total_l2_bytes = ct_total_l2_bytes s,
     ps_average_l2_length_bytes = average F (ct_total_l2_bytes s) (ct_total_packets s),
     ps_total_l3_bytes = ct_total_l3_bytes s,
     ps_average_l3_length_bytes = average F (ct_total_l3_bytes s) (ct_total_packets s),
     ps_empty_packets = ct_empty_packets s, ps_errors = ct_errors s, ps_ordered = ct_is_ordered s,
     ps_first_packet_timestamp_ns = ct_first_timestamp s, ps_last_packet_timestamp_ns = ct_last_timestamp s,
     ps_duration_seconds = duration_seconds F s,
     ps_packets_per_second = rate F (ct_total_packets s) (duration_seconds F s),
     ps_bytes_per_second = rate F (ct_total_l2_bytes s) (duration_seconds F s)\<rparr>"

definition aggregated_statistics_of :: "'f info_floats \<Rightarrow> 'f capture_stats \<Rightarrow> 'f aggregated_statistics" where
  "aggregated_statistics_of F s =
    \<lparr>as_mean_bytes = ls_mean (ct_lengths s), as_sample_std_dev_bytes = length_std_dev F (ct_lengths s) 1,
     as_min_bytes = length_min (ct_lengths s), as_max_bytes = length_max (ct_lengths s),
     as_unique_src_ips = length (ct_src_ip_traffic s), as_unique_dst_ips = length (ct_dst_ip_traffic s),
     as_tcp_packets = ct_tcp_count s, as_udp_packets = ct_udp_count s,
     as_unique_src_ports = length (ct_src_port_traffic s), as_unique_dst_ports = length (ct_dst_port_traffic s),
     as_unique_flows = card (ct_flow_set s)\<rparr>"

definition top_statistics_of :: "nat \<Rightarrow> 'f capture_stats \<Rightarrow> top_statistics" where
  "top_statistics_of top_k s =
    \<lparr>tp_limit = top_k, tp_src_ips = top_items (ct_src_ip_traffic s) top_k,
     tp_dst_ips = top_items (ct_dst_ip_traffic s) top_k,
     tp_src_ports = top_items (ct_src_port_traffic s) top_k,
     tp_dst_ports = top_items (ct_dst_port_traffic s) top_k\<rparr>"

text \<open>
  A report without what describes the file itself: path, format, size, digests and running time.  An
  address is written with \<^verbatim>\<open>to_string\<close>, as in the rows of the export.
\<close>

record 'f capture_report =
  cr_packet_statistics :: "'f packet_statistics"
  cr_aggregated_statistics :: "'f aggregated_statistics"
  cr_top_statistics :: top_statistics

definition capture_report_new :: "'f info_floats \<Rightarrow> 'f capture_stats \<Rightarrow> nat \<Rightarrow> 'f capture_report" where
  "capture_report_new F s top_k =
    \<lparr>cr_packet_statistics = packet_statistics_of F s, cr_aggregated_statistics = aggregated_statistics_of F s,
     cr_top_statistics = top_statistics_of top_k s\<rparr>"

section \<open>The tool\<close>

text \<open>The rows of the interval export, with the two rates.\<close>

definition interval_row :: "'f info_floats \<Rightarrow> interval_stats \<Rightarrow> interval_snapshot \<Rightarrow> interval_snapshot \<times> 'f \<times> 'f" where
  "interval_row F s i =
    (let seconds = f_div F (f_of_int F (uint (iv_interval_ns s))) (f_of_int F 1000000000)
     in (i, f_div F (f_of_int F (int (ip_total_packets i))) seconds,
            f_div F (f_of_int F (int (ip_total_l2_bytes i))) seconds))"

record info_args =
  ia_dump_format :: "dump_format option"
  ia_numeric_ip :: bool
  ia_batch_size :: nat
  ia_interval_format :: "dump_format option"
  ia_interval_width :: "64 word"
  ia_top_k :: nat

record 'f info_output =
  io_report :: "'f capture_report"
  io_intervals :: "(interval_snapshot \<times> 'f \<times> 'f) list option"
  io_frames :: "cell list list list option"

definition info_state_new :: "'f info_floats \<Rightarrow> info_args \<Rightarrow> 'f info_state" where
  "info_state_new F args =
    \<lparr>in_stats = stats_default F,
     in_intervals = map_option (\<lambda>_. interval_stats_new (ia_interval_width args)) (ia_interval_format args),
     in_dumper = map_option (\<lambda>_. dumper_new (ia_batch_size args)) (ia_dump_format args)\<rparr>"

definition analyze ::
    "'f info_floats \<Rightarrow> (parsers \<Rightarrow> nat \<Rightarrow> parse_fn) \<Rightarrow> registry \<Rightarrow> (128 word \<Rightarrow> string) \<Rightarrow> info_args \<Rightarrow>
     bytes \<Rightarrow> 'f info_output tool_result" where
  "analyze F ext reg v6 args src =
    t_bind (of_capture (sniffed_reader_new src)) (\<lambda>reader.
    t_bind (analyze_loop F ext reg reader (info_state_new F args)) (\<lambda>(reader, s).
    TOk \<lparr>io_report = capture_report_new F (in_stats s) (ia_top_k args),
         io_intervals = map_option (\<lambda>iv. map (interval_row F iv) (snapshots iv)) (in_intervals s),
         io_frames = map_option (\<lambda>d. map (map (dump_row v6 (ia_numeric_ip args))) (dumper_finish d))
           (in_dumper s)\<rparr>))"

section \<open>Hashing what is read\<close>

text \<open>
  \<^verbatim>\<open>inner\<close> lists what the reads of the underlying reader yield; the chunks every hasher has been
  sent are the last component.  The channels do not fail while the hashers run.
\<close>

record hashing_reader =
  hr_inner :: "bytes list"
  hr_staged :: bytes
  hr_sent :: "bytes list"

definition chunk_size :: nat where
  "chunk_size = 256 * 1024"

definition hashing_reader_new :: "bytes list \<Rightarrow> hashing_reader" where
  "hashing_reader_new inner = \<lparr>hr_inner = inner, hr_staged = [], hr_sent = []\<rparr>"

definition hash_flush :: "hashing_reader \<Rightarrow> hashing_reader" where
  "hash_flush h =
    (if hr_staged h = [] then h else h\<lparr>hr_staged := [], hr_sent := hr_sent h @ [hr_staged h]\<rparr>)"

definition hashing_read :: "hashing_reader \<Rightarrow> hashing_reader \<times> bytes" where
  "hashing_read h =
    (let (got, inner) = (case hr_inner h of [] \<Rightarrow> ([], []) | b # bs \<Rightarrow> (b, bs)); h = h\<lparr>hr_inner := inner\<rparr>
     in if got = [] then (hash_flush h, [])
        else
          let h = h\<lparr>hr_staged := hr_staged h @ got\<rparr>
          in (if length (hr_staged h) \<ge> chunk_size then hash_flush h else h, got))"

text \<open>What a hasher has digested: the chunks it was sent, one after the other.\<close>

definition hashed :: "hashing_reader \<Rightarrow> bytes" where
  "hashed h = concat (hr_sent h)"

end
