(* ===== verification/Capinfo_Sound.thy ===== *)
theory Capinfo_Sound
  imports Complex_Main Capinfo Splitcap_Sound
begin

text \<open>
  What the capture information tool reports: it gets through every capture, and its numbers are those
  of the packets the capture yields.
\<close>

section \<open>Reading a packet\<close>

lemma parsed_packet:
  assumes "extension ext"
  obtains pkt out where "try_parse_with_link_type ext reg lt default_options (new_packet data) = (pkt, out)"
    "shape pkt" "out = Done \<or> (\<exists>e. out = Failed e)"
proof -
  let ?new = "new_packet data"
  obtain c' out where run: "try_parse_with_link_type ext reg lt default_options ?new =
      (?new\<lparr>pkt_layers := ctx_layers c'\<rparr>, out)"
    and ok: "parse_ok (new_context (pkt_bytes ?new) default_options (pkt_layers ?new)) 0 (c', out)"
    by (rule link_type_root_ok [OF assms])
  then show thesis
    using that [of "?new\<lparr>pkt_layers := ctx_layers c'\<rparr>" out]
    by (auto simp: shape_def new_packet_def elim!: parse_ok_new)
qed

lemma info_fields_some:
  "14 \<le> length b \<Longrightarrow> \<exists>v. eth_type_raw b = Some v"
  "16 \<le> length b \<Longrightarrow> \<exists>v. sll_protocol_type_raw b = Some v"
  "20 \<le> length b \<Longrightarrow> \<exists>v. ipv4_tos b = Some v"
  "20 \<le> length b \<Longrightarrow> \<exists>v. ipv4_ttl b = Some v"
  "40 \<le> length b \<Longrightarrow> \<exists>v. ipv6_traffic_class b = Some v"
  "40 \<le> length b \<Longrightarrow> \<exists>v. ipv6_hop_limit b = Some v"
  "20 \<le> length b \<Longrightarrow> \<exists>v. tcp_data_offset b = Some v"
  "20 \<le> length b \<Longrightarrow> \<exists>v. tcp_flags b = Some v"
  "20 \<le> length b \<Longrightarrow> \<exists>v. tcp_window_size b = Some v"
  by (simp_all add: eth_type_raw_def sll_protocol_type_raw_def ipv4_tos_def ipv4_ttl_def ipv6_traffic_class_def
      ipv6_hop_limit_def tcp_data_offset_def tcp_flags_def tcp_window_size_def)

text \<open>What does not change when metadata is read from a packet.\<close>

definition same_frame :: "packet_metadata \<Rightarrow> packet_metadata \<Rightarrow> bool" where
  "same_frame m m' = (pm_timestamp m' = pm_timestamp m \<and> pm_length m' = pm_length m)"

lemma layer_viewer_cases:
  assumes "shape pkt" "returns P (k None)" "\<And>b. header_min p \<le> length b \<Longrightarrow> returns P (k (Some b))"
  shows "returns P (t_bind (layer_viewer pkt p) k)"
  using viewer_cases [OF assms] by (simp add: layer_viewer_def)

lemma extract_eth_type_returns: "shape pkt \<Longrightarrow> returns (same_frame m) (extract_eth_type pkt m)"
  unfolding extract_eth_type_def
  by (rule layer_viewer_cases, assumption, simp, rule layer_viewer_cases, assumption)
    (auto simp: same_frame_def dest!: info_fields_some(1,2))

lemmas info_fields = header_fields_some network_fields_some ports_some info_fields_some

lemma returns_fetch_bind:
  "\<exists>v. x = Some v \<Longrightarrow> (\<And>v. returns P (k v)) \<Longrightarrow> returns P (t_bind (fetch x) k)"
  by auto

lemma extract_network_returns: "shape pkt \<Longrightarrow> returns (\<lambda>x. same_frame m (fst x)) (extract_network pkt m)"
  unfolding extract_network_def
  by (rule layer_viewer_cases, assumption, simp, rule layer_viewer_cases, assumption)
    (auto simp: same_frame_def intro!: returns_fetch_bind info_fields)

lemma extract_transport_returns: "shape pkt \<Longrightarrow> returns (same_frame m) (extract_transport pkt m)"
  unfolding extract_transport_def
  by (rule layer_viewer_cases, assumption, simp, rule layer_viewer_cases, assumption)
    (auto simp: same_frame_def intro!: returns_fetch_bind info_fields)

lemma extract_returns:
  assumes "shape pkt"
  shows "returns (\<lambda>x. same_frame m (fst x)) (extract_packet_metadata pkt m)"
proof -
  obtain m1 where m1: "extract_eth_type pkt m = TOk m1" "same_frame m m1"
    using extract_eth_type_returns [OF assms] by (auto simp: returns_def)
  obtain m2 n where m2: "extract_network pkt m1 = TOk (m2, n)" "same_frame m1 m2"
    using extract_network_returns [OF assms, of m1] by (auto simp: returns_def)
  obtain m3 where m3: "extract_transport pkt m2 = TOk m3" "same_frame m2 m3"
    using extract_transport_returns [OF assms] by (auto simp: returns_def)
  show ?thesis using m1 m2 m3 by (auto simp: extract_packet_metadata_def same_frame_def)
qed

text \<open>What a packet adds to the statistics: its metadata and its bytes of layer 3, if it parses.\<close>

definition record_metadata ::
    "(parsers \<Rightarrow> nat \<Rightarrow> parse_fn) \<Rightarrow> registry \<Rightarrow> packet_record \<Rightarrow> (packet_metadata \<times> nat) option" where
  "record_metadata ext reg r =
    (if pr_data r = [] then None
     else case try_parse_with_link_type ext reg (pr_link_type r) default_options (new_packet (pr_data r)) of
       (pkt, Done) \<Rightarrow>
         (case extract_packet_metadata pkt
                 (metadata_default\<lparr>pm_timestamp := pr_timestamp r, pm_length := pr_original_length r\<rparr>) of
            TOk x \<Rightarrow> Some x
          | _ \<Rightarrow> None)
     | _ \<Rightarrow> None)"

lemma record_metadata_frame:
  assumes "extension ext" and "record_metadata ext reg r = Some (m, n)"
  shows "pm_timestamp m = pr_timestamp r" "pm_length m = pr_original_length r"
proof -
  let ?m = "metadata_default\<lparr>pm_timestamp := pr_timestamp r, pm_length := pr_original_length r\<rparr>"
  obtain pkt out where p: "try_parse_with_link_type ext reg (pr_link_type r) default_options (new_packet (pr_data r)) = (pkt, out)"
    "shape pkt" by (rule parsed_packet [OF assms(1)])
  with assms(2) have "extract_packet_metadata pkt ?m = TOk (m, n)"
    by (simp add: record_metadata_def split: if_splits outcome.splits tool_result.splits)
  with extract_returns [OF p(2), of ?m] have "same_frame ?m m" by simp
  then show "pm_timestamp m = pr_timestamp r" "pm_length m = pr_original_length r"
    by (simp_all add: same_frame_def)
qed

text \<open>The state after a packet, with its metadata.\<close>

definition info_step :: "'f info_floats \<Rightarrow> packet_record \<Rightarrow> (packet_metadata \<times> nat) option \<Rightarrow> 'f info_state \<Rightarrow> 'f info_state" where
  "info_step F r md s =
    (let s = s\<lparr>in_stats := update_with_packet (pr_timestamp r) (pr_original_length r) (in_stats s),
               in_intervals := map_option (interval_with_packet (pr_timestamp r) (pr_original_length r)) (in_intervals s)\<rparr>
     in if pr_data r = [] then
          s\<lparr>in_stats := (in_stats s)\<lparr>ct_empty_packets := ct_empty_packets (in_stats s) + 1\<rparr>\<rparr>
        else case md of
          None \<Rightarrow> s
        | Some (m, n) \<Rightarrow>
            s\<lparr>in_stats := update_with_metadata F m ((in_stats s)\<lparr>ct_total_l3_bytes := ct_total_l3_bytes (in_stats s) + n\<rparr>),
              in_intervals := map_option (interval_with_metadata m) (in_intervals s),
              in_dumper := map_option (dumper_push m) (in_dumper s)\<rparr>)"

lemma analyze_packet_step:
  assumes "extension ext"
  shows "analyze_packet F ext reg r s = TOk (info_step F r (record_metadata ext reg r) s)"
proof -
  obtain pkt out where p: "try_parse_with_link_type ext reg (pr_link_type r) default_options (new_packet (pr_data r)) = (pkt, out)"
    "shape pkt" "out = Done \<or> (\<exists>e. out = Failed e)" by (rule parsed_packet [OF assms])
  obtain x where "extract_packet_metadata pkt
      (metadata_default\<lparr>pm_timestamp := pr_timestamp r, pm_length := pr_original_length r\<rparr>) = TOk x"
    using extract_returns [OF p(2), of "metadata_default\<lparr>pm_timestamp := pr_timestamp r, pm_length := pr_original_length r\<rparr>"]
    by (auto simp: returns_def)
  with p show ?thesis
    by (auto simp: analyze_packet_def info_step_def record_metadata_def Let_def split: prod.splits)
qed

section \<open>Getting through a capture\<close>

text \<open>What the reader yields: a packet, or \<^verbatim>\<open>None\<close> for an error.  A panic of the reader is \<^verbatim>\<open>None\<close>.\<close>

function capture_events :: "sniffed_reader \<Rightarrow> (packet_record option list \<times> sniffed_reader) option" where
  "capture_events r =
    (case sniffed_next_packet r of
       (r', COk (Some x)) \<Rightarrow> map_option (apfst ((#) (Some x))) (capture_events r')
     | (r', COk None) \<Rightarrow> Some ([], r')
     | (r', CErr e) \<Rightarrow> map_option (apfst ((#) None)) (capture_events r')
     | (_, CPanic) \<Rightarrow> None)"
  by pat_completeness auto
termination
  by (relation "measure sniffed_left") (auto dest: sniffed_next_shrinks [OF sym] sniffed_error_shrinks [OF sym])

declare capture_events.simps [simp del]

definition info_event ::
    "'f info_floats \<Rightarrow> (parsers \<Rightarrow> nat \<Rightarrow> parse_fn) \<Rightarrow> registry \<Rightarrow> packet_record option \<Rightarrow> 'f info_state \<Rightarrow> 'f info_state" where
  "info_event F ext reg ev s =
    (case ev of Some r \<Rightarrow> info_step F r (record_metadata ext reg r) s | None \<Rightarrow> count_error s)"

lemma analyze_loop_events:
  assumes "extension ext"
  shows "analyze_loop F ext reg r s =
    (case capture_events r of
       None \<Rightarrow> TPanic
     | Some (evs, r') \<Rightarrow> TOk (r', fold (info_event F ext reg) evs s))"
proof (induction r arbitrary: s rule: capture_events.induct)
  case (1 r)
  obtain r' res where n: "sniffed_next_packet r = (r', res)" by fastforce
  note unfold = analyze_loop.simps [of F ext reg r s] capture_events.simps [of r] n
  consider x where "res = COk (Some x)" | "res = COk None" | e where "res = CErr e" | "res = CPanic"
    by (metis cresult.exhaust not_Some_eq)
  then show ?case
  proof cases
    case (1 x)
    then show ?thesis
      using "1.IH"(1) n by (simp add: unfold analyze_packet_step [OF assms] info_event_def split: option.splits)
  next
    case (3 e)
    then show ?thesis using "1.IH"(2) n by (simp add: unfold info_event_def split: option.splits)
  qed (simp_all add: unfold)
qed

definition yielded :: "packet_record option list \<Rightarrow> packet_record list" where
  "yielded evs = List.map_filter id evs"

definition parsed_metadata ::
    "(parsers \<Rightarrow> nat \<Rightarrow> parse_fn) \<Rightarrow> registry \<Rightarrow> packet_record list \<Rightarrow> (packet_metadata \<times> nat) list" where
  "parsed_metadata ext reg rs = List.map_filter (record_metadata ext reg) rs"

lemma yielded_simps [simp]:
  "yielded [] = []" "yielded (evs @ [ev]) = yielded evs @ (case ev of Some r \<Rightarrow> [r] | None \<Rightarrow> [])"
  by (auto simp: yielded_def map_filter_def split: option.splits)

lemma parsed_metadata_simps [simp]:
  "parsed_metadata ext reg [] = []"
  "parsed_metadata ext reg (rs @ [r]) =
    parsed_metadata ext reg rs @ (case record_metadata ext reg r of Some x \<Rightarrow> [x] | None \<Rightarrow> [])"
  by (auto simp: parsed_metadata_def map_filter_def split: option.splits)

section \<open>The statistics\<close>

text \<open>The packets and the bytes of the packets with a key.\<close>

definition traffic_sum :: "packet_metadata list \<Rightarrow> running_traffic" where
  "traffic_sum ms = \<lparr>rt_count = length ms, rt_bytes = (\<Sum>m\<leftarrow>ms. unat (pm_length m))\<rparr>"

lemma count_traffic_tally:
  assumes "tally key traffic_sum ms t"
  shows "tally key traffic_sum (ms @ [m]) (count_traffic (pm_length m) (key m) t)"
proof (cases "key m")
  case None
  with assms show ?thesis by (simp add: count_traffic_def tally_skip)
next
  case (Some k)
  have "traffic_update (pm_length m) (if k \<in> keys_of key ms then traffic_sum (of_key key ms k) else traffic_default) =
      traffic_sum (of_key key ms k @ [m])"
    using of_key_Nil_iff [of key ms k] by (auto simp: traffic_update_def traffic_sum_def traffic_default_def)
  with tally_entry [OF assms Some] Some show ?thesis by (simp add: count_traffic_def)
qed

definition src_port_of :: "packet_metadata \<Rightarrow> 16 word option" where
  "src_port_of m = Some (or_zero (pm_src_port m))"

definition dst_port_of :: "packet_metadata \<Rightarrow> 16 word option" where
  "dst_port_of m = Some (or_zero (pm_dst_port m))"

definition packets_counted :: "packet_record option list \<Rightarrow> 'f capture_stats \<Rightarrow> bool" where
  "packets_counted evs s =
    (let rs = yielded evs; ts = map pr_timestamp rs in
     ct_total_packets s = length rs \<and>
     ct_total_l2_bytes s = (\<Sum>r\<leftarrow>rs. unat (pr_original_length r)) \<and>
     ct_empty_packets s = length (filter (\<lambda>r. pr_data r = []) rs) \<and>
     ct_errors s = length (filter (\<lambda>ev. ev = None) evs) \<and>
     ct_first_timestamp s = (if rs = [] then None else Some (Min (set ts))) \<and>
     ct_last_timestamp s = (if rs = [] then None else Some (Max (set ts))) \<and>
     ct_is_ordered s = sorted ts)"

definition metadata_counted :: "'f info_floats \<Rightarrow> (packet_metadata \<times> nat) list \<Rightarrow> 'f capture_stats \<Rightarrow> bool" where
  "metadata_counted F mds s =
    (let ms = map fst mds in
     ct_total_l3_bytes s = sum_list (map snd mds) \<and>
     ct_lengths s = fold (length_update F) (map pm_length ms) (length_default F) \<and>
     ct_tcp_count s = length (filter (\<lambda>m. pm_ip_proto m = Some 6) ms) \<and>
     ct_udp_count s = length (filter (\<lambda>m. pm_ip_proto m = Some 17) ms) \<and>
     ct_flow_set s = keys_of info_flow_id ms \<and>
     tally pm_src_ip traffic_sum ms (ct_src_ip_traffic s) \<and>
     tally pm_dst_ip traffic_sum ms (ct_dst_ip_traffic s) \<and>
     tally src_port_of traffic_sum ms (ct_src_port_traffic s) \<and>
     tally dst_port_of traffic_sum ms (ct_dst_port_traffic s))"

lemma update_with_packet_keeps:
  "metadata_counted F mds s \<Longrightarrow> metadata_counted F mds (update_with_packet t n s)"
  by (simp add: metadata_counted_def update_with_packet_def)

lemma update_with_packet_counts:
  assumes "packets_counted evs s"
  shows "packets_counted (evs @ [Some r])
    ((update_with_packet (pr_timestamp r) (pr_original_length r) s)
      \<lparr>ct_empty_packets := ct_empty_packets s + (if pr_data r = [] then 1 else 0)\<rparr>)"
proof (cases "yielded evs = []")
  case True
  with assms show ?thesis by (simp add: packets_counted_def update_with_packet_def Let_def)
next
  case False
  let ?ts = "set (map pr_timestamp (yielded evs))"
  have f: "finite ?ts" "?ts \<noteq> {}" using False by simp_all
  have "(\<forall>t \<in> ?ts. t \<le> pr_timestamp r) \<longleftrightarrow> \<not> pr_timestamp r < Max ?ts"
    using f Max_less_iff [OF f] by (metis Max_ge Max_in not_less order_trans)
  then have "sorted (map pr_timestamp (yielded evs) @ [pr_timestamp r]) \<longleftrightarrow>
      sorted (map pr_timestamp (yielded evs)) \<and> \<not> pr_timestamp r < Max ?ts"
    by (simp add: sorted_append)
  moreover have "ct_first_timestamp s = Some (Min ?ts)" "ct_last_timestamp s = Some (Max ?ts)"
    using assms False by (simp_all add: packets_counted_def Let_def)
  ultimately show ?thesis
    using assms False f by (simp add: packets_counted_def update_with_packet_def Let_def min.commute max.commute)
qed

lemma update_with_metadata_counts:
  assumes "metadata_counted F mds s"
  shows "metadata_counted F (mds @ [(m, n)])
    (update_with_metadata F m (s\<lparr>ct_total_l3_bytes := ct_total_l3_bytes s + n\<rparr>))"
proof -
  have ports: "count_traffic l (Some (or_zero (pm_src_port m))) t = count_traffic l (src_port_of m) t"
    "count_traffic l (Some (or_zero (pm_dst_port m))) t = count_traffic l (dst_port_of m) t" for l t
    by (simp_all add: src_port_of_def dst_port_of_def)
  from assms show ?thesis
    by (auto simp: metadata_counted_def update_with_metadata_def ports Let_def
        intro!: count_traffic_tally split: option.splits)
qed

lemma packets_counted_metadata:
  "packets_counted evs (update_with_metadata F m (s\<lparr>ct_total_l3_bytes := n\<rparr>)) \<longleftrightarrow> packets_counted evs s"
  by (simp add: packets_counted_def update_with_metadata_def Let_def)

lemma step_counts:
  assumes "packets_counted evs (in_stats s)" and "metadata_counted F (parsed_metadata ext reg (yielded evs)) (in_stats s)"
  shows "packets_counted (evs @ [ev]) (in_stats (info_event F ext reg ev s))"
    "metadata_counted F (parsed_metadata ext reg (yielded (evs @ [ev]))) (in_stats (info_event F ext reg ev s))"
proof -
  show "packets_counted (evs @ [ev]) (in_stats (info_event F ext reg ev s))"
  proof (cases ev)
    case None
    with assms(1) show ?thesis by (simp add: info_event_def count_error_def packets_counted_def Let_def)
  next
    case (Some r)
    note counts = update_with_packet_counts [OF assms(1), of r]
    have e: "ct_empty_packets (update_with_packet t l st) = ct_empty_packets st" for t l and st :: "'a capture_stats"
      by (simp add: update_with_packet_def)
    have same: "(update_with_packet t l st)\<lparr>ct_empty_packets := ct_empty_packets st\<rparr> = update_with_packet t l st"
      for t l and st :: "'a capture_stats" by (simp add: update_with_packet_def)
    show ?thesis
      using counts Some
      by (auto simp: info_event_def info_step_def Let_def e same packets_counted_metadata split: option.splits)
  qed
  show "metadata_counted F (parsed_metadata ext reg (yielded (evs @ [ev]))) (in_stats (info_event F ext reg ev s))"
  proof (cases ev)
    case None
    with assms(2) show ?thesis by (simp add: info_event_def count_error_def metadata_counted_def Let_def)
  next
    case (Some r)
    note kept = update_with_packet_keeps [OF assms(2), of "pr_timestamp r" "pr_original_length r"]
    have "pr_data r = [] \<Longrightarrow> record_metadata ext reg r = None" by (simp add: record_metadata_def)
    then show ?thesis
      using kept update_with_metadata_counts [OF kept] Some
      by (auto simp: info_event_def info_step_def Let_def metadata_counted_def [of F _ "_\<lparr>ct_empty_packets := _\<rparr>"]
          metadata_counted_def [of F _ "update_with_packet _ _ _"] split: option.splits)
  qed
qed

lemma stats_new_counted:
  "packets_counted [] (stats_default F)" "metadata_counted F [] (stats_default F)"
  by (simp_all add: packets_counted_def metadata_counted_def stats_default_def Let_def)

lemma events_counted:
  "packets_counted evs (in_stats (fold (info_event F ext reg) evs (info_state_new F args))) \<and>
   metadata_counted F (parsed_metadata ext reg (yielded evs)) (in_stats (fold (info_event F ext reg) evs (info_state_new F args)))"
proof (induction evs rule: rev_induct)
  case Nil
  show ?case by (simp add: info_state_new_def stats_new_counted)
next
  case (snoc ev evs)
  show ?case
    unfolding fold_append comp_apply fold.simps id_apply
    by (intro conjI step_counts snoc [THEN conjunct1] snoc [THEN conjunct2])
qed

section \<open>The heaviest keys\<close>

text \<open>More packets first, then more bytes, then the smaller key.\<close>

definition heaviness :: "'k \<times> running_traffic \<Rightarrow> int \<times> int \<times> 'k" where
  "heaviness = (\<lambda>(k, t). (- int (rt_count t), - int (rt_bytes t), k))"

definition heaviest :: "(packet_metadata \<Rightarrow> 'k :: linorder option) \<Rightarrow> packet_metadata list \<Rightarrow> ('k \<times> running_traffic) list" where
  "heaviest key ms =
    sort_key heaviness (map (\<lambda>k. (k, traffic_sum (of_key key ms k))) (sorted_list_of_set (keys_of key ms)))"

lemma tally_length: "tally key h ms t \<Longrightarrow> length t = card (keys_of key ms)"
  unfolding tally_def by (metis distinct_card length_map list.set_map)

lemma top_items_heaviest:
  assumes "tally key traffic_sum ms t"
  shows "top_items t limit = take limit (heaviest key ms)"
proof -
  let ?all = "map (\<lambda>k. (k, traffic_sum (of_key key ms k))) (sorted_list_of_set (keys_of key ms))"
  have t: "distinct (map fst t)" "fst ` set t = keys_of key ms" using assms by (simp_all add: tally_def)
  have "set t = set ?all"
  proof (rule set_eqI)
    fix x show "x \<in> set t \<longleftrightarrow> x \<in> set ?all"
      using tally_mem [OF assms, of "fst x" "snd x"] t(2) tally_mem [OF assms]
      by (cases x) (auto simp: image_iff, fastforce)
  qed
  moreover have "distinct t" "distinct ?all" using t(1) by (auto simp: distinct_map inj_on_def)
  ultimately have "mset t = mset ?all" using set_eq_iff_mset_eq_distinct by blast
  moreover have "inj_on heaviness A" for A :: "('a \<times> running_traffic) set"
    by (auto simp: heaviness_def inj_on_def)
  ultimately have "sort_key heaviness t = heaviest key ms"
    unfolding heaviest_def by (intro sort_key_inj_key_eq) simp_all
  then show ?thesis by (simp add: top_items_def heaviness_def case_prod_unfold)
qed

section \<open>Lengths\<close>

lemma lengths_fold:
  "let s = fold (length_update F) vs (length_default F) in
   ls_count s = length vs \<and> (vs \<noteq> [] \<longrightarrow> ls_min s = Min (set vs) \<and> ls_max s = Max (set vs))"
proof (induction vs rule: rev_induct)
  case (snoc v vs)
  show ?case
  proof (cases "vs = []")
    case True
    have "v \<le> - 1" for v :: "32 word" by (simp add: word_order.extremum)
    with True show ?thesis by (simp add: length_update_def length_default_def Let_def min_absorb2 max_absorb2)
  next
    case False
    with snoc show ?thesis
      by (simp add: length_update_def Let_def min.commute max.commute)
  qed
qed (simp add: length_default_def)

lemma length_extremes:
  assumes "s = fold (length_update F) vs (length_default F)"
  shows "length_min s = (if vs = [] then 0 else Min (set vs))" "length_max s = (if vs = [] then 0 else Max (set vs))"
  using lengths_fold [of F vs] assms by (simp_all add: length_min_def length_max_def Let_def)

section \<open>The report\<close>

definition reports_packets :: "'f info_floats \<Rightarrow> packet_record option list \<Rightarrow> nat \<Rightarrow> 'f packet_statistics \<Rightarrow> bool" where
  "reports_packets F evs l3 p =
    (let rs = yielded evs; ts = map pr_timestamp rs in
     ps_total_packets p = length rs \<and> ps_total_l2_bytes p = (\<Sum>r\<leftarrow>rs. unat (pr_original_length r)) \<and>
     ps_total_l3_bytes p = l3 \<and> ps_empty_packets p = length (filter (\<lambda>r. pr_data r = []) rs) \<and>
     ps_errors p = length evs - length rs \<and> ps_ordered p = sorted ts \<and>
     ps_first_packet_timestamp_ns p = (if rs = [] then None else Some (Min (set ts))) \<and>
     ps_last_packet_timestamp_ns p = (if rs = [] then None else Some (Max (set ts))))"

definition reports_metadata ::
    "'f info_floats \<Rightarrow> nat \<Rightarrow> packet_metadata list \<Rightarrow> 'f aggregated_statistics \<Rightarrow> top_statistics \<Rightarrow> bool" where
  "reports_metadata F k ms a t =
    (as_min_bytes a = (if ms = [] then 0 else Min (pm_length ` set ms)) \<and>
     as_max_bytes a = (if ms = [] then 0 else Max (pm_length ` set ms)) \<and>
     as_unique_src_ips a = card (keys_of pm_src_ip ms) \<and> as_unique_dst_ips a = card (keys_of pm_dst_ip ms) \<and>
     as_unique_src_ports a = card (keys_of src_port_of ms) \<and> as_unique_dst_ports a = card (keys_of dst_port_of ms) \<and>
     as_unique_flows a = card (keys_of info_flow_id ms) \<and>
     as_tcp_packets a = length (filter (\<lambda>m. pm_ip_proto m = Some 6) ms) \<and>
     as_udp_packets a = length (filter (\<lambda>m. pm_ip_proto m = Some 17) ms) \<and>
     tp_src_ips t = take k (heaviest pm_src_ip ms) \<and> tp_dst_ips t = take k (heaviest pm_dst_ip ms) \<and>
     tp_src_ports t = take k (heaviest src_port_of ms) \<and> tp_dst_ports t = take k (heaviest dst_port_of ms))"

lemma errors_length: "length (filter (\<lambda>ev. ev = None) evs) = length evs - length (yielded evs)"
proof -
  have "length (yielded evs) \<le> length evs \<and> length (filter (\<lambda>ev. ev = None) evs) = length evs - length (yielded evs)"
    by (induction evs rule: rev_induct) (auto split: option.splits)
  then show ?thesis by simp
qed

lemma packets_reported:
  "packets_counted evs s \<Longrightarrow> reports_packets F evs (ct_total_l3_bytes s) (packet_statistics_of F s)"
  by (simp add: packets_counted_def reports_packets_def packet_statistics_of_def Let_def errors_length)

lemma metadata_reported:
  assumes "metadata_counted F mds s"
  shows "reports_metadata F k (map fst mds) (aggregated_statistics_of F s) (top_statistics_of k s)"
proof -
  define ms where "ms = map fst mds"
  note counts = assms [unfolded metadata_counted_def Let_def, folded ms_def]
  have "ct_lengths s = fold (length_update F) (map pm_length ms) (length_default F)" using counts by blast
  from length_extremes [OF this] have
    "length_min (ct_lengths s) = (if ms = [] then 0 else Min (pm_length ` set ms))"
    "length_max (ct_lengths s) = (if ms = [] then 0 else Max (pm_length ` set ms))"
    by simp_all
  moreover have "length (ct_src_ip_traffic s) = card (keys_of pm_src_ip ms)"
    "length (ct_dst_ip_traffic s) = card (keys_of pm_dst_ip ms)"
    "length (ct_src_port_traffic s) = card (keys_of src_port_of ms)"
    "length (ct_dst_port_traffic s) = card (keys_of dst_port_of ms)"
    using counts tally_length by blast+
  moreover have "top_items (ct_src_ip_traffic s) k = take k (heaviest pm_src_ip ms)"
    "top_items (ct_dst_ip_traffic s) k = take k (heaviest pm_dst_ip ms)"
    "top_items (ct_src_port_traffic s) k = take k (heaviest src_port_of ms)"
    "top_items (ct_dst_port_traffic s) k = take k (heaviest dst_port_of ms)"
    using counts top_items_heaviest by blast+
  ultimately show ?thesis
    unfolding ms_def [symmetric] reports_metadata_def using counts
    by (simp add: aggregated_statistics_of_def top_statistics_of_def)
qed

lemma analyze_outcome:
  assumes "extension ext"
  shows "analyze F ext reg v6 args src =
    (case sniffed_reader_new src of
       CErr e \<Rightarrow> TErr (CaptureFailed e)
     | CPanic \<Rightarrow> TPanic
     | COk r \<Rightarrow>
         (case capture_events r of
            None \<Rightarrow> TPanic
          | Some (evs, r') \<Rightarrow>
              (let s = fold (info_event F ext reg) evs (info_state_new F args)
               in TOk \<lparr>io_report = capture_report_new F (in_stats s) (ia_top_k args),
                       io_intervals = map_option (\<lambda>iv. map (interval_row F iv) (snapshots iv)) (in_intervals s),
                       io_frames = map_option (\<lambda>d. map (map (dump_row v6 (ia_numeric_ip args))) (dumper_finish d))
                         (in_dumper s)\<rparr>)))"
  by (simp add: analyze_def of_capture_def analyze_loop_events [OF assms] Let_def
      split: cresult.splits option.splits prod.splits)

lemma capinfo_report:
  assumes "extension ext" and "sniffed_reader_new src = COk r" and "capture_events r = Some (evs, r')"
  shows "\<exists>out. analyze F ext reg v6 args src = TOk out \<and>
    (let rep = io_report out; mds = parsed_metadata ext reg (yielded evs) in
     reports_packets F evs (sum_list (map snd mds)) (cr_packet_statistics rep) \<and>
     reports_metadata F (ia_top_k args) (map fst mds) (cr_aggregated_statistics rep) (cr_top_statistics rep))"
proof -
  let ?s = "in_stats (fold (info_event F ext reg) evs (info_state_new F args))"
  let ?mds = "parsed_metadata ext reg (yielded evs)"
  have p: "packets_counted evs ?s" and m: "metadata_counted F ?mds ?s" using events_counted by blast+
  from m have "ct_total_l3_bytes ?s = sum_list (map snd ?mds)" by (simp add: metadata_counted_def Let_def)
  with packets_reported [OF p, of F] metadata_reported [OF m] show ?thesis
    by (simp add: analyze_outcome [OF assms(1)] assms(2,3) capture_report_new_def Let_def)
qed


text \<open>Arithmetic without rounding.\<close>

definition real_floats :: "real info_floats" where
  "real_floats =
    \<lparr>f_of_int = of_int, f_to_u64 = (\<lambda>x. word_of_int \<lfloor>x\<rfloor>), f_sub = (-), f_div = (/),
     f_powi = (\<lambda>x n. x powi n), f_sqrt = sqrt, f_sum = sum_list, f_min = min, f_max = max, f_le = (\<le>), f_less = (<),
     f_eq = (=), f_is_finite = (\<lambda>_. True), show_f64 = (\<lambda>_. []), show_int = (\<lambda>_. []), show_addr = (\<lambda>_. []),
     show_instant = (\<lambda>_. None), f_add = (+), f_mul = (*)\<rparr>"

lemma pcap_timestamp_range:
  "sniffed_next_packet (StreamPcap r) = (r', COk (Some x)) \<Longrightarrow> 0 \<le> pr_timestamp x \<and> pr_timestamp x < 2 ^ 63"
proof -
  have "uint s * 1000000000 + uint u < 2 ^ 63" for s u :: "32 word"
    using uint_lt2p [of s] uint_lt2p [of u] by simp
  then show "sniffed_next_packet (StreamPcap r) = (r', COk (Some x)) \<Longrightarrow> ?thesis"
    by (auto simp: pcap_reader_next_packet_def c_bind_COk pcap_to_packet_def Let_def apfst_def map_prod_def
        split: prod.splits)
qed

lemma capinfo_sample_events:
  "\<exists>r0 r r1. sniffed_reader_new split_sample = COk r0 \<and> capture_events r0 = Some ([Some r], r1) \<and>
    0 \<le> pr_timestamp r \<and> pr_timestamp r < 2 ^ 63"
proof -
  have "sniffed_reader_new split_sample = COk (split_sample_reader (drop 24 split_sample))"
    by (simp add: sniffed_reader_new_def split_sample_def split_sample_reader_def read_exact_def slice_def
        from_magic_bytes_def be_nat_def magic_defs pcap_reader_new_def pcap_header_parse_def magic_endian_def
        read_u32_def read_u16_def read_int_def pcap_is_nanosecond_def pcap_is_big_endian_def)
  moreover obtain r where r: "sniffed_next_packet (split_sample_reader (drop 24 split_sample)) = (split_sample_reader [], COk (Some r))"
    using split_sample_next(1) by blast
  have "capture_events (split_sample_reader []) = Some ([], split_sample_reader [])"
    by (subst capture_events.simps) (simp only: split_sample_next(2) prod.case cresult.case option.case)
  then have "capture_events (split_sample_reader (drop 24 split_sample)) = Some ([Some r], split_sample_reader [])"
    by (subst capture_events.simps)
      (simp only: r prod.case cresult.case option.case option.map apfst_conv)
  moreover have "0 \<le> pr_timestamp r \<and> pr_timestamp r < 2 ^ 63"
    using r pcap_timestamp_range unfolding split_sample_reader_def by blast
  ultimately show ?thesis by blast
qed

definition capinfo_sample_args :: info_args where
  "capinfo_sample_args =
    \<lparr>ia_dump_format = Some DumpCsv, ia_numeric_ip = True, ia_batch_size = 2, ia_interval_format = Some DumpCsv,
     ia_interval_width = 1000000000, ia_top_k = 10\<rparr>"


section \<open>The running mean and variance\<close>

definition exact_arithmetic :: "real info_floats \<Rightarrow> bool" where
  "exact_arithmetic F =
    (f_of_int F = of_int \<and> f_add F = (+) \<and> f_sub F = (-) \<and> f_mul F = (*) \<and> f_div F = (/))"

definition mean_of :: "real list \<Rightarrow> real" where
  "mean_of xs = sum_list xs / real (length xs)"

definition squares_of :: "real list \<Rightarrow> real" where
  "squares_of xs = (\<Sum>x\<leftarrow>xs. (x - mean_of xs) ^ 2)"

lemma squares_about: "(\<Sum>x\<leftarrow>xs. (x - c) ^ 2) = (\<Sum>x\<leftarrow>xs. x ^ 2) - 2 * c * sum_list xs + real (length xs) * c ^ 2"
  for c :: real
  by (induction xs) (simp_all add: power2_diff algebra_simps)

lemma squares_of_eq: "squares_of xs = (\<Sum>x\<leftarrow>xs. x ^ 2) - sum_list xs ^ 2 / real (length xs)"
  unfolding squares_of_def squares_about mean_of_def
  by (cases "xs = []") (simp_all add: field_simps power2_eq_square)

lemma welford_mean: "m \<noteq> 0 \<Longrightarrow> m + 1 \<noteq> 0 \<Longrightarrow> S / m + (x - S / m) / (m + 1) = (S + x) / (m + 1)" for m S x :: real
  by (simp add: divide_simps) (simp add: algebra_simps)

lemma welford_squares:
  fixes m S Q x :: real
  assumes "m \<noteq> 0" "m + 1 \<noteq> 0"
  shows "Q - S ^ 2 / m + (x - S / m) * (x - (S + x) / (m + 1)) = Q + x ^ 2 - (S + x) ^ 2 / (m + 1)"
proof -
  have "x - S / m = (m * x - S) / m" "x - (S + x) / (m + 1) = (m * x - S) / (m + 1)"
    using assms by (simp_all add: field_simps)
  then have "(x - S / m) * (x - (S + x) / (m + 1)) = (m * x - S) ^ 2 / (m * (m + 1))"
    by (simp add: power2_eq_square)
  also have "\<dots> = x ^ 2 + S ^ 2 / m - (S + x) ^ 2 / (m + 1)"
  proof -
    have "(m * x - S) ^ 2 = (x ^ 2 * m + S ^ 2) * (m + 1) - (S + x) ^ 2 * m"
      by (simp add: power2_eq_square algebra_simps)
    then show ?thesis using assms by (simp add: diff_divide_distrib add_divide_distrib)
  qed
  finally show ?thesis by simp
qed

lemma welford_step:
  fixes n :: nat and S Q x :: real
  assumes "n = 0 \<Longrightarrow> S = 0 \<and> Q = 0"
  shows "S / n + (x - S / n) / (real n + 1) = (S + x) / (real n + 1)"
    "Q - S ^ 2 / n + (x - S / n) * (x - (S + x) / (real n + 1)) = Q + x ^ 2 - (S + x) ^ 2 / (real n + 1)"
proof -
  have m: "real n + 1 \<noteq> 0" by simp
  show "S / n + (x - S / n) / (real n + 1) = (S + x) / (real n + 1)"
    using assms welford_mean [OF _ m, of S x] by (cases "n = 0") auto
  show "Q - S ^ 2 / n + (x - S / n) * (x - (S + x) / (real n + 1)) = Q + x ^ 2 - (S + x) ^ 2 / (real n + 1)"
    using assms welford_squares [OF _ m, of Q S x] by (cases "n = 0") auto
qed

lemma welford:
  assumes "exact_arithmetic F"
  shows "let s = fold (length_update F) vs (length_default F); xs = map (\<lambda>v. real (unat v)) vs in
    ls_mean s = mean_of xs \<and> ls_m2 s = squares_of xs"
proof (induction vs rule: rev_induct)
  case Nil
  then show ?case using assms by (simp add: length_default_def exact_arithmetic_def mean_of_def squares_of_def)
next
  case (snoc v vs)
  let ?s = "fold (length_update F) vs (length_default F)" and ?xs = "map (\<lambda>v. real (unat v)) vs"
  have n: "ls_count ?s = length ?xs" using lengths_fold [of F vs] by (simp add: Let_def)
  have z: "length ?xs = 0 \<Longrightarrow> sum_list ?xs = 0 \<and> (\<Sum>x\<leftarrow>?xs. x ^ 2) = 0" by simp
  have v: "real_of_int (uint v) = real (unat v)" unfolding uint_nat by (rule of_int_of_nat_eq)
  from snoc have IH: "ls_mean ?s = sum_list ?xs / length ?xs"
      "ls_m2 ?s = (\<Sum>x\<leftarrow>?xs. x ^ 2) - sum_list ?xs ^ 2 / length ?xs"
    by (simp_all add: Let_def mean_of_def squares_of_eq)
  let ?x = "real (unat v)" and ?n = "length ?xs" and ?S = "sum_list ?xs"
  note arith = assms [unfolded exact_arithmetic_def] 
    and step = welford_step [where n = ?n and S = ?S and Q = "\<Sum>x\<leftarrow>?xs. x ^ 2" and x = ?x, OF z]
  have fields: "f_of_int F = of_int" "f_add F = (+)" "f_sub F = (-)" "f_mul F = (*)" "f_div F = (/)"
    using arith by simp_all
  have "ls_mean (length_update F v ?s) = ls_mean ?s + (?x - ls_mean ?s) / (real ?n + 1)"
    by (simp add: length_update_def Let_def n v fields add.commute)
  then have mean: "ls_mean (length_update F v ?s) = (?S + ?x) / (real ?n + 1)"
    unfolding IH using step(1) by simp
  have "ls_m2 (length_update F v ?s) = ls_m2 ?s + (?x - ls_mean ?s) * (?x - ls_mean (length_update F v ?s))"
    by (simp add: length_update_def Let_def v fields)
  also have "\<dots> = (\<Sum>x\<leftarrow>?xs. x ^ 2) + ?x ^ 2 - (?S + ?x) ^ 2 / (real ?n + 1)"
    unfolding mean IH by (rule step(2))
  finally show ?case using mean by (simp add: Let_def mean_of_def squares_of_eq add.commute)
qed

text \<open>C21: 
  C1: computed without rounding, the one-pass mean and variance of the packet lengths are the mean
  and, for either correction of the degrees of freedom, the variance of the lengths.
\<close>

theorem running_variance_exact:
  assumes "exact_arithmetic F"
  shows "let s = fold (length_update F) vs (length_default F); xs = map (\<lambda>v. real (unat v)) vs in
    ls_mean s = sum_list xs / real (length xs) \<and>
    length_variance F s ddof =
      (if length xs \<le> ddof then 0 else (\<Sum>x\<leftarrow>xs. (x - sum_list xs / real (length xs)) ^ 2) / real (length xs - ddof))"
  using welford [OF assms, of vs] lengths_fold [of F vs] assms
  by (simp add: Let_def length_variance_def exact_arithmetic_def mean_of_def squares_of_def)

theorem running_variance_exact_witness:
  "ls_mean (fold (length_update real_floats) [2, 4, 4, 4, 5, 5, 7, 9] (length_default real_floats)) = 5 \<and>
   length_variance real_floats (fold (length_update real_floats) [2, 4, 4, 4, 5, 5, 7, 9] (length_default real_floats)) 1 = 32 / 7"
proof -
  have "exact_arithmetic real_floats" by (simp add: exact_arithmetic_def real_floats_def)
  from running_variance_exact [OF this, of "[2, 4, 4, 4, 5, 5, 7, 9]" 1] show ?thesis
    by (simp add: Let_def power2_eq_square)
qed

section \<open>Intervals\<close>

lemma insort_insert_set:
  "sorted_list_of_set (insert k K) = insort_insert k (sorted_list_of_set K)" if "finite K" for k :: "'k :: linorder"
  using that by (intro sorted_distinct_set_unique)
    (simp_all add: sorted_insort_insert distinct_insort_insert set_insort_insert
      del: sorted_list_of_set_insert_remove)

lemma btree_or_map:
  "sorted ks \<Longrightarrow> distinct ks \<Longrightarrow>
    btree_or d f k (map (\<lambda>k. (k, g k)) ks) =
    map (\<lambda>k'. (k', if k' = k then f (if k \<in> set ks then g k else d) else g k')) (insort_insert k ks)"
proof (induction ks)
  case (Cons a ks)
  consider "k = a" | "k < a" | "a < k" by (metis not_less_iff_gr_or_eq)
  then show ?case
  proof cases
    case 1
    with Cons.prems show ?thesis by (auto simp: insort_insert_key_def)
  next
    case 2
    with Cons.prems have "k \<notin> set (a # ks)" by auto
    with 2 Cons.prems show ?thesis by (auto simp: insort_insert_key_def)
  next
    case 3
    with Cons show ?thesis by (auto simp: insort_insert_key_def)
  qed
qed (simp add: insort_insert_key_def)

text \<open>The bucket of an interval: the packets and the metadata whose timestamps fall into it.\<close>

definition bucket_of :: "64 word \<Rightarrow> packet_record list \<Rightarrow> packet_metadata list \<Rightarrow> int \<Rightarrow> interval_bucket" where
  "bucket_of n rs ms start =
    (let rs = filter (\<lambda>r. bucket_start n (pr_timestamp r) = start) rs;
         ms = filter (\<lambda>m. bucket_start n (pm_timestamp m) = start) ms
     in \<lparr>ib_total_packets = length rs, ib_total_l2_bytes = (\<Sum>r\<leftarrow>rs. unat (pr_original_length r)),
         ib_src_ips = keys_of pm_src_ip ms, ib_dst_ips = keys_of pm_dst_ip ms, ib_flows = keys_of info_flow_id ms\<rparr>)"

definition buckets_of :: "64 word \<Rightarrow> packet_record list \<Rightarrow> packet_metadata list \<Rightarrow> interval_stats" where
  "buckets_of n rs ms =
    \<lparr>iv_interval_ns = n,
     iv_buckets = map (\<lambda>k. (k, bucket_of n rs ms k))
       (sorted_list_of_set (bucket_start n ` pr_timestamp ` set rs))\<rparr>"

lemma bucket_mut_buckets:
  assumes "finite K"
  shows "bucket_mut t f \<lparr>iv_interval_ns = n, iv_buckets = map (\<lambda>k. (k, g k)) (sorted_list_of_set K)\<rparr> =
    \<lparr>iv_interval_ns = n, iv_buckets =
       map (\<lambda>k'. (k', if k' = bucket_start n t then f (if bucket_start n t \<in> K then g (bucket_start n t) else bucket_default)
                      else g k'))
         (sorted_list_of_set (insert (bucket_start n t) K))\<rparr>"
  using assms by (simp add: bucket_mut_def btree_or_map insort_insert_set del: sorted_list_of_set_insert_remove)

lemma bucket_of_packet:
  "bucket_of n (rs @ [r]) ms k =
    (if k = bucket_start n (pr_timestamp r) then
       (bucket_of n rs ms k)\<lparr>ib_total_packets := ib_total_packets (bucket_of n rs ms k) + 1,
          ib_total_l2_bytes := ib_total_l2_bytes (bucket_of n rs ms k) + unat (pr_original_length r)\<rparr>
     else bucket_of n rs ms k)"
  by (simp add: bucket_of_def Let_def)

lemma bucket_of_metadata:
  "bucket_of n rs (ms @ [m]) k =
    (if k = bucket_start n (pm_timestamp m) then
       (bucket_of n rs ms k)\<lparr>ib_src_ips := ib_src_ips (bucket_of n rs ms k) \<union> set_option (pm_src_ip m),
          ib_dst_ips := ib_dst_ips (bucket_of n rs ms k) \<union> set_option (pm_dst_ip m),
          ib_flows := ib_flows (bucket_of n rs ms k) \<union> set_option (info_flow_id m)\<rparr>
     else bucket_of n rs ms k)"
  by (simp add: bucket_of_def Let_def split: option.splits)

lemma bucket_of_unused:
  assumes "k \<notin> bucket_start n ` pr_timestamp ` set rs" and "pm_timestamp ` set ms \<subseteq> pr_timestamp ` set rs"
  shows "bucket_of n rs ms k = bucket_default"
proof -
  have "filter (\<lambda>r. bucket_start n (pr_timestamp r) = k) rs = []"
    "filter (\<lambda>m. bucket_start n (pm_timestamp m) = k) ms = []"
    using assms by (auto simp: filter_empty_conv)
  then show ?thesis by (simp add: bucket_of_def bucket_default_def Let_def)
qed

lemma interval_with_packet_buckets:
  assumes "pm_timestamp ` set ms \<subseteq> pr_timestamp ` set rs"
  shows "interval_with_packet (pr_timestamp r) (pr_original_length r) (buckets_of n rs ms) = buckets_of n (rs @ [r]) ms"
  using bucket_of_unused [OF _ assms]
  by (auto simp: interval_with_packet_def buckets_of_def bucket_mut_buckets bucket_of_packet)

lemma interval_with_metadata_buckets:
  assumes "pm_timestamp m \<in> pr_timestamp ` set rs"
  shows "interval_with_metadata m (buckets_of n rs ms) = buckets_of n rs (ms @ [m])"
proof -
  let ?K = "bucket_start n ` pr_timestamp ` set rs"
  have "insert (bucket_start n (pm_timestamp m)) ?K = ?K" "bucket_start n (pm_timestamp m) \<in> ?K" using assms by auto
  then show ?thesis
    by (auto simp: interval_with_metadata_def buckets_of_def bucket_mut_buckets bucket_of_metadata)
qed

text \<open>The rows of the batches, all of full size, and those still buffered.\<close>

definition batched :: "nat \<Rightarrow> packet_metadata list \<Rightarrow> metadata_dumper \<Rightarrow> bool" where
  "batched rows ms d =
    (dm_batch_size d = rows \<and> concat (dm_written d) @ dm_batch d = ms \<and> length (dm_batch d) < rows \<and>
     (\<forall>b \<in> set (dm_written d). length b = rows))"

lemma batched_push: "batched rows ms d \<Longrightarrow> batched rows (ms @ [m]) (dumper_push m d)"
  by (auto simp: batched_def dumper_push_def dumper_flush_def Let_def)

definition exports_match ::
    "(parsers \<Rightarrow> nat \<Rightarrow> parse_fn) \<Rightarrow> registry \<Rightarrow> info_args \<Rightarrow> packet_record option list \<Rightarrow> 'f info_state \<Rightarrow> bool" where
  "exports_match ext reg args evs s =
    (let rs = yielded evs; ms = map fst (parsed_metadata ext reg rs) in
     in_intervals s = map_option (\<lambda>_. buckets_of (ia_interval_width args) rs ms) (ia_interval_format args) \<and>
     rel_option (\<lambda>d _. batched (ia_batch_size args) ms d) (in_dumper s) (ia_dump_format args))"

lemma parsed_timestamps:
  assumes "extension ext"
  shows "pm_timestamp ` set (map fst (parsed_metadata ext reg rs)) \<subseteq> pr_timestamp ` set rs"
  using record_metadata_frame(1) [OF assms]
  by (fastforce simp: parsed_metadata_def map_filter_def image_iff)

lemma exports_step:
  assumes "extension ext" and "exports_match ext reg args evs s"
  shows "exports_match ext reg args (evs @ [ev]) (info_event F ext reg ev s)"
proof (cases ev)
  case None
  with assms(2) show ?thesis by (simp add: exports_match_def info_event_def count_error_def Let_def)
next
  case (Some r)
  let ?rs = "yielded evs" let ?ms = "map fst (parsed_metadata ext reg ?rs)"
  note packet = interval_with_packet_buckets [OF parsed_timestamps [OF assms(1), of reg ?rs], of r]
  have s: "in_intervals s = map_option (\<lambda>_. buckets_of (ia_interval_width args) ?rs ?ms) (ia_interval_format args)"
    "rel_option (\<lambda>d _. batched (ia_batch_size args) ?ms d) (in_dumper s) (ia_dump_format args)"
    using assms(2) by (simp_all add: exports_match_def Let_def)
  show ?thesis
  proof (cases "record_metadata ext reg r")
    case None
    then show ?thesis using Some s packet
      by (auto simp: exports_match_def info_event_def info_step_def Let_def option.map_comp comp_def)
  next
    case (Some x)
    obtain m l3 where x: "x = (m, l3)" by (cases x)
    have "pr_data r \<noteq> []" using Some by (auto simp: record_metadata_def)
    moreover have "pm_timestamp m \<in> pr_timestamp ` set (?rs @ [r])"
      using record_metadata_frame(1) [OF assms(1) Some [unfolded x]] by simp
    note interval_with_metadata_buckets [OF this]
    moreover have "rel_option (\<lambda>d _. batched (ia_batch_size args) (?ms @ [m]) d) (map_option (dumper_push m) (in_dumper s))
        (ia_dump_format args)"
      using s(2) batched_push by (cases "in_dumper s"; cases "ia_dump_format args") auto
    ultimately show ?thesis using \<open>ev = Some r\<close> Some x s packet
      by (simp add: exports_match_def info_event_def info_step_def Let_def option.map_comp comp_def)
  qed
qed

lemma events_exported:
  assumes "extension ext" and "0 < ia_batch_size args"
  shows "exports_match ext reg args evs (fold (info_event F ext reg) evs (info_state_new F args))"
proof (induction evs rule: rev_induct)
  case Nil
  show ?case using assms(2)
    by (cases "ia_dump_format args"; cases "ia_interval_format args")
      (simp_all add: exports_match_def info_state_new_def interval_stats_new_def dumper_new_def buckets_of_def batched_def Let_def)
next
  case (snoc ev evs)
  show ?case unfolding fold_append comp_apply fold.simps id_apply by (rule exports_step [OF assms(1) snoc])
qed

lemma bucket_start_aligned:
  assumes "0 < sint n" and "sint n - 2 ^ 63 \<le> t" and "t < 2 ^ 63"
  shows "bucket_start n t = t - t mod sint n"
proof -
  have "0 \<le> t mod sint n" "t mod sint n < sint n" using assms(1) by simp_all
  with assms have "in_i64 (t - t mod sint n)" by (simp add: in_i64_def)
  with assms(1) show ?thesis by (simp add: bucket_start_def rem_euclid_def Let_def)
qed

lemma bucket_start_iff:
  assumes "0 < sint n" and "sint n - 2 ^ 63 \<le> t" and "t < 2 ^ 63" and "sint n dvd k"
  shows "bucket_start n t = k \<longleftrightarrow> k \<le> t \<and> t < k + sint n"
proof
  assume "bucket_start n t = k"
  then show "k \<le> t \<and> t < k + sint n"
    using bucket_start_aligned [OF assms(1,2,3)] pos_mod_bound [OF assms(1), of t] pos_mod_sign [OF assms(1), of t]
    by linarith
next
  obtain q where k: "k = sint n * q" using assms(4) by blast
  assume "k \<le> t \<and> t < k + sint n"
  then have "(t - k) mod sint n = t - k" by (intro mod_pos_pos_trivial) simp_all
  then have "t mod sint n = t - k" by (simp add: k mod_diff_eq [symmetric])
  then show "bucket_start n t = k" using bucket_start_aligned [OF assms(1,2,3)] by simp
qed

lemma bucket_start_dvd:
  assumes "0 < sint n" and "sint n - 2 ^ 63 \<le> t" and "t < 2 ^ 63"
  shows "sint n dvd bucket_start n t"
  using bucket_start_aligned [OF assms] by (simp add: minus_mod_eq_mult_div)

definition interval_counts ::
    "64 word \<Rightarrow> packet_record list \<Rightarrow> packet_metadata list \<Rightarrow> interval_snapshot \<Rightarrow> bool" where
  "interval_counts n rs ms i =
    (let inside = (\<lambda>t. ip_start i \<le> t \<and> t < ip_start i + sint n);
         rs = filter (\<lambda>r. inside (pr_timestamp r)) rs; ms = filter (\<lambda>m. inside (pm_timestamp m)) ms
     in sint n dvd ip_start i \<and> rs \<noteq> [] \<and> ip_end_exclusive i = min (2 ^ 63 - 1) (ip_start i + sint n) \<and>
        ip_total_packets i = length rs \<and> ip_total_l2_bytes i = (\<Sum>r\<leftarrow>rs. unat (pr_original_length r)) \<and>
        ip_unique_src_ips i = card (keys_of pm_src_ip ms) \<and> ip_unique_dst_ips i = card (keys_of pm_dst_ip ms) \<and>
        ip_unique_flows i = card (keys_of info_flow_id ms))"

lemma snapshots_count:
  assumes "0 < sint n" and "\<forall>r \<in> set rs. sint n - 2 ^ 63 \<le> pr_timestamp r \<and> pr_timestamp r < 2 ^ 63"
    and "pm_timestamp ` set ms \<subseteq> pr_timestamp ` set rs"
  shows "\<forall>i \<in> set (snapshots (buckets_of n rs ms)). interval_counts n rs ms i"
proof
  fix i assume "i \<in> set (snapshots (buckets_of n rs ms))"
  then obtain r where r: "r \<in> set rs" and i: "i = (let b = bucket_of n rs ms (bucket_start n (pr_timestamp r)) in
      \<lparr>ip_start = bucket_start n (pr_timestamp r),
       ip_end_exclusive = saturating_add_i64 (bucket_start n (pr_timestamp r)) (sint n),
       ip_total_packets = ib_total_packets b, ip_total_l2_bytes = ib_total_l2_bytes b,
       ip_unique_src_ips = card (ib_src_ips b), ip_unique_dst_ips = card (ib_dst_ips b),
       ip_unique_flows = card (ib_flows b)\<rparr>)"
    by (auto simp: snapshots_def buckets_of_def Let_def)
  let ?k = "bucket_start n (pr_timestamp r)"
  have t: "sint n - 2 ^ 63 \<le> pr_timestamp r" "pr_timestamp r < 2 ^ 63" using assms(2) r by auto
  note dvd = bucket_start_dvd [OF assms(1) t]
  have rs: "filter (\<lambda>x. bucket_start n (pr_timestamp x) = ?k) rs =
      filter (\<lambda>x. ?k \<le> pr_timestamp x \<and> pr_timestamp x < ?k + sint n) rs"
    using assms(1,2) dvd by (intro filter_cong) (auto simp: bucket_start_iff)
  have ms: "filter (\<lambda>x. bucket_start n (pm_timestamp x) = ?k) ms =
      filter (\<lambda>x. ?k \<le> pm_timestamp x \<and> pm_timestamp x < ?k + sint n) ms"
    using assms dvd by (intro filter_cong) (fastforce simp: bucket_start_iff)+
  have "r \<in> set (filter (\<lambda>x. bucket_start n (pr_timestamp x) = ?k) rs)" using r by simp
  then have "filter (\<lambda>x. ?k \<le> pr_timestamp x \<and> pr_timestamp x < ?k + sint n) rs \<noteq> []"
    unfolding rs by (metis list.set(1) empty_iff)
  moreover have "- (2 ^ 63) \<le> ?k + sint n"
    using t(1) assms(1) bucket_start_iff [OF assms(1) t dvd] by auto
  ultimately show "interval_counts n rs ms i"
    using dvd by (simp add: i Let_def interval_counts_def bucket_of_def rs ms saturating_add_i64_def saturate_i64_def)
qed

lemma snapshots_total:
  "sum_list (map ip_total_packets (snapshots (buckets_of n rs ms))) = length rs"
proof -
  let ?f = "\<lambda>r. Some (bucket_start n (pr_timestamp r))" and ?K = "bucket_start n ` pr_timestamp ` set rs"
  have "length (filter (\<lambda>r. selected_key ?f ?K r \<noteq> None) rs) =
      (\<Sum>k\<leftarrow>sorted_list_of_set ?K. length (of_key ?f rs k))"
    using selection_written [of "sorted_list_of_set ?K" ?f rs] by simp
  moreover have "filter (\<lambda>r. selected_key ?f ?K r \<noteq> None) rs = rs"
    by (rule filter_True) (auto simp: selected_key_def)
  ultimately show ?thesis
    by (simp add: snapshots_def buckets_of_def bucket_of_def of_key_def Let_def comp_def)
qed

text \<open>C14: 
  C1: the interval export holds one row for each interval that has a packet, in order of time.  The
  intervals are aligned to the epoch and as wide as asked for; a row counts exactly the packets whose
  timestamps fall into its interval, and the addresses and flows of those that parse, and the rows
  together count every packet once, in whatever order the capture holds them.
\<close>

theorem capinfo_intervals:
  assumes "extension ext" and "sniffed_reader_new src = COk r" and "capture_events r = Some (evs, r')"
    and "ia_interval_format args = Some format" and "0 < ia_batch_size args" and "0 < sint (ia_interval_width args)"
    and "\<forall>p \<in> set (yielded evs). sint (ia_interval_width args) - 2 ^ 63 \<le> pr_timestamp p \<and> pr_timestamp p < 2 ^ 63"
  shows "\<exists>out rows. analyze F ext reg v6 args src = TOk out \<and> io_intervals out = Some rows \<and>
    (let is = map fst rows; rs = yielded evs; ms = map fst (parsed_metadata ext reg rs) in
     sorted_wrt (<) (map ip_start is) \<and> (\<forall>i \<in> set is. interval_counts (ia_interval_width args) rs ms i) \<and>
     sum_list (map ip_total_packets is) = length rs)"
proof -
  let ?s = "fold (info_event F ext reg) evs (info_state_new F args)" and ?rs = "yielded evs"
  let ?ms = "map fst (parsed_metadata ext reg ?rs)" and ?n = "ia_interval_width args"
  have iv: "in_intervals ?s = Some (buckets_of ?n ?rs ?ms)"
    using events_exported [OF assms(1,5), of reg evs F] assms(4) by (simp add: exports_match_def Let_def)
  have fst: "fst (interval_row F iv i) = i" for iv i by (simp add: interval_row_def Let_def)
  have "sorted_wrt (<) (map ip_start (snapshots (buckets_of ?n ?rs ?ms)))"
    by (simp add: snapshots_def buckets_of_def comp_def)
  with snapshots_count [OF assms(6,7) parsed_timestamps [OF assms(1)]] snapshots_total [of ?n ?rs ?ms] show ?thesis
    by (simp add: analyze_outcome [OF assms(1)] assms(2,3) iv fst comp_def Let_def)
qed

theorem capinfo_intervals_witness:
  "\<exists>out rows. analyze real_floats failing_child_parse new_registry (\<lambda>_. []) capinfo_sample_args split_sample = TOk out \<and>
    io_intervals out = Some rows \<and> sum_list (map ip_total_packets (map fst rows)) = 1"
proof -
  obtain r0 r r1 where r: "sniffed_reader_new split_sample = COk r0" "capture_events r0 = Some ([Some r], r1)"
    "0 \<le> pr_timestamp r" "pr_timestamp r < 2 ^ 63"
    using capinfo_sample_events by blast
  let ?a = capinfo_sample_args
  have "yielded [Some r] = [r]" by (simp add: yielded_def map_filter_def)
  with r(3,4) have t: "\<forall>p \<in> set (yielded [Some r]). sint (ia_interval_width ?a) - 2 ^ 63 \<le> pr_timestamp p \<and> pr_timestamp p < 2 ^ 63"
    by (simp add: capinfo_sample_args_def)
  have "ia_interval_format ?a = Some DumpCsv" "0 < ia_batch_size ?a" "0 < sint (ia_interval_width ?a)"
    by (simp_all add: capinfo_sample_args_def)
  from capinfo_intervals [OF failing_child.extension_axioms r(1,2) this t, of real_floats new_registry "\<lambda>_. []"]
  show ?thesis by (auto simp: \<open>yielded [Some r] = [r]\<close> Let_def)
qed

section \<open>The metadata export\<close>

text \<open>C22: 
  C1: the metadata export holds one row for each packet that parses, in capture order, with a value
  for every column; it is cut into data frames of the batch size, of which only the last may be
  smaller, and none is empty.
\<close>

theorem capinfo_frames:
  assumes "extension ext" and "sniffed_reader_new src = COk r" and "capture_events r = Some (evs, r')"
    and "ia_dump_format args = Some format" and "0 < ia_batch_size args"
  shows "\<exists>out frames. analyze F ext reg v6 args src = TOk out \<and> io_frames out = Some frames \<and>
    concat frames = map (dump_row v6 (ia_numeric_ip args) \<circ> fst) (parsed_metadata ext reg (yielded evs)) \<and>
    (\<forall>f \<in> set frames. f \<noteq> [] \<and> length f \<le> ia_batch_size args) \<and>
    (\<forall>f \<in> set (butlast frames). length f = ia_batch_size args) \<and>
    (\<forall>row \<in> set (concat frames). length row = length (dump_columns (ia_numeric_ip args)))"
proof -
  let ?s = "fold (info_event F ext reg) evs (info_state_new F args)" and ?rows = "ia_batch_size args"
  let ?ms = "map fst (parsed_metadata ext reg (yielded evs))" and ?row = "dump_row v6 (ia_numeric_ip args)"
  obtain d where d: "in_dumper ?s = Some d" "batched ?rows ?ms d"
    using events_exported [OF assms(1,5), of reg evs F] assms(4) by (auto simp: exports_match_def Let_def elim: option.rel_cases)
  define frames where "frames = map (map ?row) (dumper_finish d)"
  have c: "concat (dumper_finish d) = ?ms" "\<forall>b \<in> set (dumper_finish d). b \<noteq> [] \<and> length b \<le> ?rows"
    "\<forall>b \<in> set (butlast (dumper_finish d)). length b = ?rows"
    using d(2) assms(5) by (auto simp: batched_def dumper_finish_def dumper_flush_def butlast_append dest: in_set_butlastD)
  have "length (?row m) = length (dump_columns (ia_numeric_ip args))" for m
    by (simp add: dump_row_def dump_columns_def)
  moreover have "concat frames = map ?row ?ms" by (simp add: frames_def c(1) flip: map_concat)
  moreover have "\<forall>f \<in> set frames. f \<noteq> [] \<and> length f \<le> ?rows" using c(2) by (auto simp: frames_def)
  moreover have "\<forall>f \<in> set (butlast frames). length f = ?rows" using c(3) by (auto simp: frames_def simp flip: map_butlast)
  ultimately show ?thesis
    by (intro exI [of _ "\<lparr>io_report = capture_report_new F (in_stats ?s) (ia_top_k args),
        io_intervals = map_option (\<lambda>iv. map (interval_row F iv) (snapshots iv)) (in_intervals ?s), io_frames = Some frames\<rparr>"]
        exI [of _ frames])
      (auto simp: analyze_outcome [OF assms(1)] assms(2,3) d(1) Let_def frames_def)
qed

theorem capinfo_frames_witness:
  "\<exists>out frames. analyze real_floats failing_child_parse new_registry (\<lambda>_. []) capinfo_sample_args split_sample = TOk out \<and>
    io_frames out = Some frames \<and> (\<forall>row \<in> set (concat frames). length row = 20)"
proof -
  obtain r0 r r1 where r: "sniffed_reader_new split_sample = COk r0" "capture_events r0 = Some ([Some r], r1)"
    using capinfo_sample_events by blast
  have "ia_dump_format capinfo_sample_args = Some DumpCsv" "0 < ia_batch_size capinfo_sample_args"
    by (simp_all add: capinfo_sample_args_def)
  moreover have "length (dump_columns (ia_numeric_ip capinfo_sample_args)) = 20"
    by (simp add: capinfo_sample_args_def dump_columns_def)
  ultimately show ?thesis
    using capinfo_frames [OF failing_child.extension_axioms r, of capinfo_sample_args DumpCsv real_floats new_registry "\<lambda>_. []"]
    by auto
qed

section \<open>Errors\<close>

lemma capture_events_bound: "capture_events r = Some (evs, r') \<Longrightarrow> length evs \<le> sniffed_left r"
proof (induction r arbitrary: evs rule: capture_events.induct)
  case (1 r)
  obtain r1 res where n: "sniffed_next_packet r = (r1, res)" by fastforce
  note step = "1.prems" [unfolded capture_events.simps [of r] n]
  consider x where "res = COk (Some x)" | "res = COk None" | e where "res = CErr e" | "res = CPanic"
    by (metis cresult.exhaust not_Some_eq)
  then show ?case
  proof cases
    case (1 x)
    with step obtain es where "capture_events r1 = Some (es, r')" "evs = Some x # es" by auto
    with "1.IH"(1) n 1 sniffed_next_shrinks [of r r1 x] show ?thesis by fastforce
  next
    case (3 e)
    with step obtain es where "capture_events r1 = Some (es, r')" "evs = None # es" by auto
    with "1.IH"(2) n 3 sniffed_error_shrinks [of r r1 e] show ?thesis by fastforce
  qed (use step in auto)
qed

lemma pcap_reader_no_panic: "snd (sniffed_next_packet (StreamPcap p)) \<noteq> CPanic"
proof (cases "16 \<le> length (pr_source p)")
  case True
  then obtain h where "pcap_packet_header_parse (take 16 (pr_source p)) (pcap_endian (pr_header p)) = COk h"
    using pcap_packet_header_some [of "take 16 (pr_source p)"] by fastforce
  with True show ?thesis
    by (auto simp: pcap_reader_next_packet_def pcap_read_packet_raw_def read_exact_def c_bind_def
        split: prod.splits option.splits)
qed (simp add: pcap_reader_next_packet_def pcap_read_packet_raw_def read_exact_def c_bind_def)

lemma pcap_events: "capture_events (StreamPcap p) \<noteq> None"
proof -
  have "capture_events r \<noteq> None" if "\<exists>p. r = StreamPcap p" for r
    using that
  proof (induction r rule: capture_events.induct)
    case (1 r)
    then obtain p where p: "r = StreamPcap p" by blast
    obtain r1 res where n: "sniffed_next_packet r = (r1, res)" by fastforce
    then have pcap: "\<exists>p. r1 = StreamPcap p" by (cases "pcap_reader_next_packet p") (auto simp: p)
    consider x where "res = COk (Some x)" | "res = COk None" | e where "res = CErr e" | "res = CPanic"
      by (metis cresult.exhaust not_Some_eq)
    then show ?case
    proof cases
      case (1 x)
      with "1.IH"(1) n pcap show ?thesis by (simp add: capture_events.simps [of r])
    next
      case (3 e)
      with "1.IH"(2) n pcap show ?thesis by (simp add: capture_events.simps [of r])
    next
      case 4
      with n p pcap_reader_no_panic [of p] show ?thesis by simp
    qed (simp add: capture_events.simps [of r] n)
  qed
  then show ?thesis by blast
qed

text \<open>C20: 
  C1: the tool gets through every capture.  An error of the reader is counted and the loop goes on,
  and it ends because every packet and every error has consumed a byte of the input; so there are at
  most as many of them as bytes.  The only way not to report is a panic of the reader itself, which a
  PCAP reader does not have.
\<close>

theorem capinfo_gets_through:
  assumes "extension ext" and "sniffed_reader_new src = COk r"
  shows "(\<exists>out evs r'. analyze F ext reg v6 args src = TOk out \<and> capture_events r = Some (evs, r') \<and>
      length evs \<le> sniffed_left r \<and>
      ps_errors (cr_packet_statistics (io_report out)) = length (filter (\<lambda>ev. ev = None) evs)) \<or>
    (analyze F ext reg v6 args src = TPanic \<and> capture_events r = None \<and> sniffed_format r \<noteq> FormatPcap)"
proof (cases "capture_events r")
  case None
  then have "sniffed_format r \<noteq> FormatPcap" using pcap_events by (cases r) auto
  with None show ?thesis by (simp add: analyze_outcome [OF assms(1)] assms(2))
next
  case (Some x)
  obtain evs r' where x: "x = (evs, r')" by (cases x)
  obtain out where out: "analyze F ext reg v6 args src = TOk out"
    "reports_packets F evs (sum_list (map snd (parsed_metadata ext reg (yielded evs)))) (cr_packet_statistics (io_report out))"
    using capinfo_report [OF assms Some [unfolded x], of F reg v6 args] by (auto simp: Let_def)
  then have "ps_errors (cr_packet_statistics (io_report out)) = length (filter (\<lambda>ev. ev = None) evs)"
    by (simp add: reports_packets_def errors_length Let_def)
  with out(1) Some x capture_events_bound show ?thesis by blast
qed

theorem capinfo_gets_through_witness:
  "\<exists>out. analyze real_floats failing_child_parse new_registry (\<lambda>_. []) capinfo_sample_args split_sample = TOk out"
proof -
  obtain r0 r r1 where r: "sniffed_reader_new split_sample = COk r0" "capture_events r0 = Some ([Some r], r1)"
    using capinfo_sample_events by blast
  from capinfo_gets_through [OF failing_child.extension_axioms r(1), of real_floats new_registry "\<lambda>_. []" capinfo_sample_args] r(2)
  show ?thesis by auto
qed

section \<open>Hashing\<close>

lemma hashing_read_accounts:
  assumes "hashing_read h = (h', got)"
  shows "hashed h' @ hr_staged h' = hashed h @ hr_staged h @ got" "got = [] \<Longrightarrow> hr_staged h' = []"
  using assms by (auto simp: hashing_read_def hash_flush_def hashed_def Let_def split: prod.splits if_splits)

fun read_times :: "nat \<Rightarrow> hashing_reader \<Rightarrow> hashing_reader \<times> bytes" where
  "read_times 0 h = (h, [])"
| "read_times (Suc n) h = (let (h1, b) = hashing_read h; (h2, bs) = read_times n h1 in (h2, b @ bs))"

lemma read_times_accounts:
  "read_times n h = (h', bs) \<Longrightarrow> hashed h' @ hr_staged h' = hashed h @ hr_staged h @ bs"
proof (induction n arbitrary: h bs)
  case (Suc n)
  obtain h1 b where b: "hashing_read h = (h1, b)" by fastforce
  obtain bs' where "read_times n h1 = (h', bs')" "bs = b @ bs'"
    using Suc.prems b by (auto simp: Let_def split: prod.splits)
  with Suc.IH hashing_read_accounts(1) [OF b] show ?case by fastforce
qed simp

text \<open>Once a read has found the end of the file, every hasher has digested exactly the bytes read.\<close>

lemma hashers_see_the_file:
  assumes "read_times n (hashing_reader_new inner) = (h, bs)" and "hashing_read h = (h', [])"
  shows "hashed h' = bs"
  using read_times_accounts [OF assms(1)] hashing_read_accounts [OF assms(2)]
  by (simp add: hashing_reader_new_def hashed_def)

end
