(* ===== verification/Spec2Isabelle.thy ===== *)
theory Spec2Isabelle
  imports Checksum Packet Flow Readers Pcapng_Blocks Reordercap Merge_Reader Rewriter_Checksum
    Flow_Meter_Sound Craft_Parse Splitcap_Sound Options_Sound Capinfo_Sound
begin

text \<open>
  A verification library for maja.
\<close>

end
